(* ===== verification/Prelude.thy ===== *)
theory Prelude
  imports Main
begin

text \<open>
  The vocabulary every component shares.

  \<^item> Results: a TypeScript function that throws is a function into the sum type
    \<open>'e + 'a\<close>, \<open>Inl\<close> for the thrown error, \<open>Inr\<close> for the value. A database transaction that
    throws is rolled back, so a caller that gets \<open>Inl\<close> keeps the state it had.
  \<^item> Tables: a PostgreSQL table is the list of its rows; \<open>update_rows\<close>, \<open>delete_rows\<close> and
    \<open>filter\<close> are \<open>UPDATE .. WHERE\<close>, \<open>DELETE .. WHERE\<close> and \<open>SELECT .. WHERE\<close>.
  \<^item> JavaScript values the code computes with: numbers (finite, NaN, infinite), trimming and
    lower-casing of strings. Strings are lists of UTF-8 bytes; \<open>js_trim\<close> and \<open>js_lower\<close>
    follow the language on ASCII and leave other bytes alone.
\<close>

named_theorems row_simps "how table operations act on keys, lengths and selections"
named_theorems result_simps "unfolding of the error monad"

section \<open>Results\<close>

definition res_bind :: "('e + 'a) \<Rightarrow> ('a \<Rightarrow> 'e + 'b) \<Rightarrow> 'e + 'b" where
  "res_bind r f = (case r of Inl e \<Rightarrow> Inl e | Inr x \<Rightarrow> f x)"

definition res_guard :: "bool \<Rightarrow> 'e \<Rightarrow> 'e + unit" where
  "res_guard b e = (if b then Inr () else Inl e)"

lemma res_bind_simps [simp, result_simps]:
  "res_bind (Inl e) f = Inl e"
  "res_bind (Inr x) f = f x"
  by (simp_all add: res_bind_def)

lemma res_bind_Inr [result_simps]:
  "(res_bind r f = Inr y) = (\<exists>x. r = Inr x \<and> f x = Inr y)"
  by (cases r) auto

lemma res_bind_Inl:
  "(res_bind r f = Inl e) = (r = Inl e \<or> (\<exists>x. r = Inr x \<and> f x = Inl e))"
  by (cases r) auto

lemma res_guard_Inr [result_simps]: "(res_guard b e = Inr u) = b"
  by (simp add: res_guard_def)

lemma res_guard_Inl: "(res_guard b e = Inl e') = (\<not> b \<and> e' = e)"
  by (auto simp: res_guard_def)

text \<open>A loop over a list whose body may throw: it stops at the first error.\<close>

fun fold_res :: "('x \<Rightarrow> 's \<Rightarrow> 'e + 's) \<Rightarrow> 'x list \<Rightarrow> 's \<Rightarrow> 'e + 's" where
  "fold_res f [] s = Inr s"
| "fold_res f (x # xs) s = res_bind (f x s) (fold_res f xs)"

lemma fold_res_append:
  "fold_res f (xs @ ys) s = res_bind (fold_res f xs s) (fold_res f ys)"
  by (induction xs arbitrary: s) (auto simp: res_bind_def split: sum.splits)

lemma fold_res_invariant:
  assumes "fold_res f xs s = Inr s'" and "P s"
    and "\<And>x t t'. x \<in> set xs \<Longrightarrow> P t \<Longrightarrow> f x t = Inr t' \<Longrightarrow> P t'"
  shows "P s'"
  using assms
proof (induction xs arbitrary: s)
  case Nil
  then show ?case by simp
next
  case (Cons x xs)
  from Cons.prems(1) obtain t where t: "f x s = Inr t" "fold_res f xs t = Inr s'"
    by (auto simp: res_bind_Inr)
  with Cons.prems have "P t" by auto
  with t(2) show ?case using Cons.IH Cons.prems(3) by auto
qed

section \<open>Tables\<close>

definition update_rows :: "('r \<Rightarrow> bool) \<Rightarrow> ('r \<Rightarrow> 'r) \<Rightarrow> 'r list \<Rightarrow> 'r list" where
  "update_rows p f rows = map (\<lambda>r. if p r then f r else r) rows"

definition delete_rows :: "('r \<Rightarrow> bool) \<Rightarrow> 'r list \<Rightarrow> 'r list" where
  "delete_rows p rows = filter (\<lambda>r. \<not> p r) rows"

lemma length_update_rows [simp, row_simps]: "length (update_rows p f rows) = length rows"
  by (simp add: update_rows_def)

lemma update_rows_Nil [simp, row_simps]: "update_rows p f [] = []"
  by (simp add: update_rows_def)

lemma update_rows_append [row_simps]:
  "update_rows p f (xs @ ys) = update_rows p f xs @ update_rows p f ys"
  by (simp add: update_rows_def)

lemma map_update_rows [row_simps]:
  "(\<And>r. g (f r) = g r) \<Longrightarrow> map g (update_rows p f rows) = map g rows"
  by (simp add: update_rows_def)

lemma set_update_rows:
  "set (update_rows p f rows) = (\<lambda>r. if p r then f r else r) ` set rows"
  by (auto simp: update_rows_def)

lemma in_update_rows:
  "r \<in> set (update_rows p f rows) \<longleftrightarrow> (\<exists>q \<in> set rows. r = (if p q then f q else q))"
  by (auto simp: set_update_rows)

lemma update_rows_none: "(\<And>r. r \<in> set rows \<Longrightarrow> \<not> p r) \<Longrightarrow> update_rows p f rows = rows"
  by (induction rows) (auto simp: update_rows_def)

lemma set_delete_rows [simp, row_simps]: "set (delete_rows p rows) = {r \<in> set rows. \<not> p r}"
  by (auto simp: delete_rows_def)

lemma updated_in: "r \<in> set rows \<Longrightarrow> (if p r then f r else r) \<in> set (update_rows p f rows)"
  by (auto simp: set_update_rows)

text \<open>A row of the updated table that the condition still selects comes from a selected row.\<close>

lemma updated_where:
  assumes "r \<in> set (update_rows p f rows)" "p r"
  obtains q where "q \<in> set rows" "p q" "r = f q"
proof -
  from assms(1) obtain q where "q \<in> set rows" "r = (if p q then f q else q)" by (auto simp: in_update_rows)
  with assms(2) show thesis using that by (cases "p q") auto
qed

lemma find_None_iff_set: "List.find p xs = None \<longleftrightarrow> (\<forall>x \<in> set xs. \<not> p x)"
  by (induction xs) auto

lemma find_SomeD: "List.find p xs = Some x \<Longrightarrow> x \<in> set xs \<and> p x"
  by (induction xs) (auto split: if_splits)

lemma find_append: "List.find p (xs @ ys) = (case List.find p xs of Some x \<Rightarrow> Some x | None \<Rightarrow> List.find p ys)"
  by (induction xs) auto

lemma map_filter_map: "List.map_filter f (map g xs) = List.map_filter (\<lambda>x. f (g x)) xs"
  by (simp add: List.map_filter_def filter_map comp_def)

lemma map_filter_cong: "(\<And>x. x \<in> set xs \<Longrightarrow> f x = g x) \<Longrightarrow> List.map_filter f xs = List.map_filter g xs"
  by (induction xs) (auto simp: List.map_filter_simps split: option.split)

lemma set_map_filter_eq: "set (List.map_filter f xs) = {y. \<exists>x \<in> set xs. f x = Some y}"
  by (induction xs) (auto simp: List.map_filter_simps split: option.splits)

text \<open>A row found by its key is the row with that key, when keys are distinct.\<close>

lemma find_by_key:
  assumes "distinct (map key rows)" and "r \<in> set rows"
  shows "List.find (\<lambda>q. key q = key r) rows = Some r"
  using assms by (induction rows) (auto simp: image_iff)

section \<open>JavaScript numbers and strings\<close>

definition js_space :: "char \<Rightarrow> bool" where
  "js_space c \<longleftrightarrow> of_char c \<in> {9, 10, 11, 12, 13, 32 :: nat}"

text \<open>\<open>String.prototype.trim\<close>.\<close>

definition js_trim :: "string \<Rightarrow> string" where
  "js_trim s = rev (dropWhile js_space (rev (dropWhile js_space s)))"

text \<open>\<open>String.prototype.toLowerCase\<close> and \<open>toUpperCase\<close> on ASCII letters.\<close>

definition char_lower :: "char \<Rightarrow> char" where
  "char_lower c = (let n = of_char c :: nat in if 65 \<le> n \<and> n \<le> 90 then char_of (n + 32) else c)"

definition char_upper :: "char \<Rightarrow> char" where
  "char_upper c = (let n = of_char c :: nat in if 97 \<le> n \<and> n \<le> 122 then char_of (n - 32) else c)"

definition js_lower :: "string \<Rightarrow> string" where
  "js_lower s = map char_lower s"

definition js_upper :: "string \<Rightarrow> string" where
  "js_upper s = map char_upper s"

text \<open>\<open>String(n)\<close> for a non-negative integer.\<close>

fun show_nat :: "nat \<Rightarrow> string" where
  "show_nat n = (if n < 10 then [char_of (48 + n)] else show_nat (n div 10) @ [char_of (48 + n mod 10)])"

declare show_nat.simps [simp del]

text \<open>The Persian currency names the code compares with, in UTF-8.\<close>

definition bytes :: "nat list \<Rightarrow> string" where
  "bytes = map char_of"

definition rial_fa :: string where
  "rial_fa = bytes [0xd8, 0xb1, 0xdb, 0x8c, 0xd8, 0xa7, 0xd9, 0x84]"

definition toman_fa :: string where
  "toman_fa = bytes [0xd8, 0xaa, 0xd9, 0x88, 0xd9, 0x85, 0xd8, 0xa7, 0xd9, 0x86]"

definition starts_with :: "string \<Rightarrow> string \<Rightarrow> bool" where
  "starts_with p s \<longleftrightarrow> take (length p) s = p"

lemma js_trim_Nil [simp]: "js_trim [] = []"
  by (simp add: js_trim_def)

end
