(* ===== verification/Decimal.thy ===== *)
theory Decimal
  imports Prelude Complex_Main
begin

text \<open>
  Money and quantities: \<open>src/lib/financialDecimal.ts\<close>.

  The class \<open>FinancialDecimal\<close> wraps a value of the package decimal.js, configured there with
  precision 30 and half-up rounding. The package is not part of the repository: it is the record
  \<open>decimal_lib\<close>, an argument of every definition that computes with it. A finite decimal is a
  rational number. The locale \<open>decimal_js\<close> states what the package documents: an arithmetic
  operation returns a decimal of at most 30 significant digits nearest to the exact result,
  \<open>toDecimalPlaces\<close> rounds half away from zero, and \<open>toNumber\<close> gives the double, which a JavaScript
  number prints back unchanged when the decimal has at most 15 significant digits (a JavaScript
  number is modelled by the decimal it prints as). \<open>ref_lib\<close> is an executable instance.
\<close>

section \<open>Decimals of bounded precision\<close>

definition digits_fit :: "nat \<Rightarrow> rat \<Rightarrow> bool" where
  "digits_fit n x \<longleftrightarrow> (\<exists>m e. \<bar>m\<bar> < 10 ^ n \<and> x = of_int m * 10 powi e)"

definition nearest_fit :: "nat \<Rightarrow> rat \<Rightarrow> rat \<Rightarrow> bool" where
  "nearest_fit n x y \<longleftrightarrow> digits_fit n y \<and> (\<forall>r. digits_fit n r \<longrightarrow> \<bar>y - x\<bar> \<le> \<bar>r - x\<bar>)"

text \<open>Rounding to the nearest integer, ties away from zero, and to \<open>dp\<close> decimal places.\<close>

definition half_up_int :: "rat \<Rightarrow> int" where
  "half_up_int x = (if x < 0 then - \<lfloor>- x + 1 / 2\<rfloor> else \<lfloor>x + 1 / 2\<rfloor>)"

definition half_up :: "rat \<Rightarrow> nat \<Rightarrow> rat" where
  "half_up x dp = of_int (half_up_int (x * 10 ^ dp)) / 10 ^ dp"

text \<open>A value with at most \<open>dp\<close> decimals.\<close>

definition scaled :: "nat \<Rightarrow> rat \<Rightarrow> bool" where
  "scaled dp x \<longleftrightarrow> of_int \<lfloor>x * 10 ^ dp\<rfloor> = x * 10 ^ dp"

lemma scaledI: "x * 10 ^ dp = of_int k \<Longrightarrow> scaled dp x"
  by (simp add: scaled_def)

lemma scaledE:
  assumes "scaled dp x"
  obtains k where "x * 10 ^ dp = of_int k" and "x = of_int k / 10 ^ dp"
proof -
  from assms have "x * 10 ^ dp = of_int \<lfloor>x * 10 ^ dp\<rfloor>" by (simp only: scaled_def)
  moreover then have "x = of_int \<lfloor>x * 10 ^ dp\<rfloor> / 10 ^ dp" by (simp add: field_simps)
  ultimately show thesis by (rule that)
qed

lemma scaled_0 [simp]: "scaled dp 0"
  by (simp add: scaled_def)

lemma scaled_of_int [simp]: "scaled dp (of_int k)"
  by (rule scaledI [where k = "k * 10 ^ dp"]) simp

lemma scaled_numeral [simp]: "scaled dp (numeral n)" "scaled dp 1"
  using scaled_of_int [of dp "numeral n"] scaled_of_int [of dp 1] by simp_all

lemma scaled_add: "scaled dp x \<Longrightarrow> scaled dp y \<Longrightarrow> scaled dp (x + y)"
proof (elim scaledE)
  fix k l assume "x * 10 ^ dp = of_int k" and "y * 10 ^ dp = of_int l"
  then show ?thesis by (intro scaledI [where k = "k + l"]) (simp add: algebra_simps)
qed

lemma scaled_uminus: "scaled dp x \<Longrightarrow> scaled dp (- x)"
  by (elim scaledE, rule scaledI [where k = "- k" for k]) simp

lemma scaled_minus_iff [simp]: "scaled dp (- x) = scaled dp x"
  using scaled_uminus [of dp x] scaled_uminus [of dp "- x"] by auto

lemma scaled_diff: "scaled dp x \<Longrightarrow> scaled dp y \<Longrightarrow> scaled dp (x - y)"
  using scaled_add [of dp x "- y"] by simp

lemma scaled_abs: "scaled dp x \<Longrightarrow> scaled dp \<bar>x\<bar>"
  by (simp add: abs_if)

lemma scaled_mult: "scaled a x \<Longrightarrow> scaled b y \<Longrightarrow> scaled (a + b) (x * y)"
proof (elim scaledE)
  fix k l assume "x * 10 ^ a = of_int k" and "y * 10 ^ b = of_int l"
  then have "(x * 10 ^ a) * (y * 10 ^ b) = of_int (k * l)" by simp
  then show ?thesis by (intro scaledI [where k = "k * l"]) (simp add: power_add ac_simps)
qed

lemma scaled_mono: assumes "scaled a x" and "a \<le> b" shows "scaled b x"
proof -
  from assms(1) obtain k where "x * 10 ^ a = of_int k" by (rule scaledE)
  moreover from assms(2) have "(10 :: rat) ^ b = 10 ^ a * 10 ^ (b - a)"
    by (simp flip: power_add)
  ultimately show ?thesis by (intro scaledI [where k = "k * 10 ^ (b - a)"]) (simp add: ac_simps)
qed

lemma scaled_digits_fit:
  assumes "scaled dp x" and "\<bar>x\<bar> < 10 ^ m" and "m + dp \<le> n"
  shows "digits_fit n x"
proof -
  from assms(1) obtain k where k: "x * 10 ^ dp = of_int k" "x = of_int k / 10 ^ dp" by (rule scaledE)
  have "of_int \<bar>k\<bar> = \<bar>x\<bar> * 10 ^ dp" by (simp flip: k(1) add: abs_mult)
  also have "\<dots> < 10 ^ m * 10 ^ dp" using assms(2) by simp
  also have "\<dots> \<le> (10 :: rat) ^ n" using assms(3) by (simp flip: power_add)
  finally have "(of_int \<bar>k\<bar> :: rat) < of_int (10 ^ n)" by simp
  then have "\<bar>k\<bar> < 10 ^ n" by (simp only: of_int_less_iff)
  moreover have "x = of_int k * 10 powi (- int dp)"
    using k(2) by (simp add: power_int_minus field_simps)
  ultimately show ?thesis unfolding digits_fit_def by blast
qed

lemma nearest_fit_exact: "nearest_fit n x y \<Longrightarrow> digits_fit n x \<Longrightarrow> y = x"
  by (force simp: nearest_fit_def)

lemma nearest_fit_ge: "nearest_fit n x y \<Longrightarrow> digits_fit n r \<Longrightarrow> r \<le> x \<Longrightarrow> r \<le> y"
  unfolding nearest_fit_def by (drule conjunct2, drule spec [of _ r]) auto

lemma nearest_fit_le: "nearest_fit n x y \<Longrightarrow> digits_fit n r \<Longrightarrow> x \<le> r \<Longrightarrow> y \<le> r"
  unfolding nearest_fit_def by (drule conjunct2, drule spec [of _ r]) auto


section \<open>Half-up rounding\<close>

lemma half_up_int_of_int [simp]: "half_up_int (of_int k) = k"
  by (auto simp: half_up_int_def floor_eq_iff)

lemma half_up_int_error: "\<bar>of_int (half_up_int x) - x\<bar> \<le> 1 / 2"
proof (cases "x < 0")
  case True
  then show ?thesis
    using floor_correct [of "- x + 1 / 2"]
    unfolding half_up_int_def of_int_add abs_le_iff by (simp only: if_True of_int_minus of_int_1) linarith
next
  case False
  then show ?thesis
    using floor_correct [of "x + 1 / 2"]
    unfolding half_up_int_def of_int_add abs_le_iff by (simp only: if_False of_int_1) linarith
qed

lemma half_up_int_uminus: "half_up_int (- x) = - half_up_int x"
proof -
  have "half_up_int 0 = 0" using half_up_int_of_int [of 0] by simp
  then show ?thesis by (cases "x = 0") (auto simp: half_up_int_def)
qed

lemma half_up_int_ge:
  assumes "of_int k \<le> x"
  shows "k \<le> half_up_int x"
proof (rule ccontr)
  assume "\<not> k \<le> half_up_int x"
  then have less: "half_up_int x \<le> k - 1" by simp
  then have "(of_int (half_up_int x) :: rat) \<le> of_int (k - 1)" by (simp only: of_int_le_iff)
  then have "of_int (half_up_int x) + 1 \<le> (of_int k :: rat)" by simp
  with half_up_int_error [of x] assms show False by linarith
qed

lemma half_up_int_le: "x \<le> of_int k \<Longrightarrow> half_up_int x \<le> k"
  using half_up_int_ge [of "- k" "- x"] by (simp add: half_up_int_uminus)

lemma half_up_int_nearest: "\<bar>of_int (half_up_int x) - x\<bar> \<le> \<bar>of_int k - x\<bar>"
proof (rule ccontr)
  let ?h = "half_up_int x"
  assume "\<not> ?thesis"
  then have less: "\<bar>of_int k - x\<bar> < \<bar>of_int ?h - x\<bar>" by simp
  with half_up_int_error [of x] have "\<bar>of_int k - x\<bar> < 1 / 2" by linarith
  with half_up_int_error [of x] have "\<bar>of_int k - of_int ?h :: rat\<bar> < 1" by linarith
  then have "\<bar>of_int (k - ?h) :: rat\<bar> < of_int 1" by simp
  then have "k = ?h" by (simp only: of_int_abs [symmetric] of_int_less_iff)
  with less show False by simp
qed

lemma half_up_scaled [simp]: "scaled dp x \<Longrightarrow> half_up x dp = x"
  by (erule scaledE) (simp add: half_up_def)

lemma scaled_half_up [simp]: "scaled dp (half_up x dp)"
  by (rule scaledI [where k = "half_up_int (x * 10 ^ dp)"]) (simp add: half_up_def)

lemma half_up_ge:
  assumes "scaled dp r" and "r \<le> x"
  shows "r \<le> half_up x dp"
proof -
  from assms(1) obtain k where k: "r * 10 ^ dp = of_int k" "r = of_int k / 10 ^ dp" by (rule scaledE)
  have "of_int k \<le> x * 10 ^ dp" using assms(2) by (simp flip: k(1))
  from half_up_int_ge [OF this] show ?thesis
    by (simp add: half_up_def k(2) divide_right_mono)
qed

lemma half_up_le:
  assumes "scaled dp r" and "x \<le> r"
  shows "half_up x dp \<le> r"
proof -
  from assms(1) obtain k where k: "r * 10 ^ dp = of_int k" "r = of_int k / 10 ^ dp" by (rule scaledE)
  have "x * 10 ^ dp \<le> of_int k" using assms(2) by (simp flip: k(1))
  from half_up_int_le [OF this] show ?thesis
    by (simp add: half_up_def k(2) divide_right_mono)
qed

lemma half_up_error: "\<bar>half_up x dp - x\<bar> \<le> 1 / 2 / 10 ^ dp"
proof -
  have "half_up x dp - x = (of_int (half_up_int (x * 10 ^ dp)) - x * 10 ^ dp) / 10 ^ dp"
    by (simp add: half_up_def field_simps)
  then have "\<bar>half_up x dp - x\<bar> = \<bar>of_int (half_up_int (x * 10 ^ dp)) - x * 10 ^ dp\<bar> / 10 ^ dp"
    by (simp add: abs_divide)
  also have "\<dots> \<le> 1 / 2 / 10 ^ dp"
    by (intro divide_right_mono half_up_int_error) simp
  finally show ?thesis .
qed

lemma half_up_0 [simp]: "half_up 0 dp = 0"
  by simp

lemma half_up_nonneg: "0 \<le> x \<Longrightarrow> 0 \<le> half_up x dp"
  by (rule half_up_ge) auto

lemma half_up_nonpos: "x \<le> 0 \<Longrightarrow> half_up x dp \<le> 0"
  by (rule half_up_le) auto

lemma half_up_uminus: "half_up (- x) dp = - half_up x dp"
  by (simp add: half_up_def half_up_int_uminus)


section \<open>The decimal package as a parameter\<close>

record decimal_lib =
  dl_plus :: "rat \<Rightarrow> rat \<Rightarrow> rat"
  dl_minus :: "rat \<Rightarrow> rat \<Rightarrow> rat"
  dl_times :: "rat \<Rightarrow> rat \<Rightarrow> rat"
  dl_div :: "rat \<Rightarrow> rat \<Rightarrow> rat"
  dl_toDP :: "rat \<Rightarrow> nat \<Rightarrow> rat"
  dl_toNumber :: "rat \<Rightarrow> rat"

locale decimal_js =
  fixes L :: decimal_lib
  assumes plus_nearest: "nearest_fit 30 (a + b) (dl_plus L a b)"
    and minus_nearest: "nearest_fit 30 (a - b) (dl_minus L a b)"
    and times_nearest: "nearest_fit 30 (a * b) (dl_times L a b)"
    and div_nearest: "b \<noteq> 0 \<Longrightarrow> nearest_fit 30 (a / b) (dl_div L a b)"
    and toDP_half_up: "dl_toDP L x dp = half_up x dp"
    and toNumber_short: "digits_fit 15 x \<Longrightarrow> dl_toNumber L x = x"

section \<open>The class FinancialDecimal\<close>

datatype fin_error = DivideByZero

definition fin_add :: "decimal_lib \<Rightarrow> rat \<Rightarrow> rat \<Rightarrow> rat" where
  "fin_add L a b = dl_plus L a b"

definition fin_subtract :: "decimal_lib \<Rightarrow> rat \<Rightarrow> rat \<Rightarrow> rat" where
  "fin_subtract L a b = dl_minus L a b"

definition fin_multiply :: "decimal_lib \<Rightarrow> rat \<Rightarrow> rat \<Rightarrow> rat" where
  "fin_multiply L a b = dl_times L a b"

text \<open>The last two lines of \<open>divide\<close>, for callers that have excluded a zero divisor.\<close>

definition fin_quot :: "decimal_lib \<Rightarrow> rat \<Rightarrow> rat \<Rightarrow> nat \<Rightarrow> rat" where
  "fin_quot L a b scale = dl_toDP L (dl_div L a b) scale"

definition fin_divide :: "decimal_lib \<Rightarrow> rat \<Rightarrow> rat \<Rightarrow> nat \<Rightarrow> fin_error + rat" where
  "fin_divide L a b scale = (if b = 0 then Inl DivideByZero else Inr (fin_quot L a b scale))"

definition fin_negate :: "rat \<Rightarrow> rat" where
  "fin_negate a = - a"

definition fin_abs :: "rat \<Rightarrow> rat" where
  "fin_abs a = \<bar>a\<bar>"

definition fin_round :: "decimal_lib \<Rightarrow> rat \<Rightarrow> nat \<Rightarrow> rat" where
  "fin_round L a dp = dl_toDP L a dp"

definition fin_toNumber :: "decimal_lib \<Rightarrow> rat \<Rightarrow> rat" where
  "fin_toNumber L a = dl_toNumber L a"

text \<open>\<open>compareTo\<close>: 1, -1 or 0.\<close>

definition fin_compareTo :: "rat \<Rightarrow> rat \<Rightarrow> int" where
  "fin_compareTo a b = (if b < a then 1 else if a < b then - 1 else 0)"

text \<open>\<open>toDbString\<close>, and what a column of type NUMERIC(18,4) keeps of a value written to it.\<close>

definition fin_toDb :: "decimal_lib \<Rightarrow> rat \<Rightarrow> rat" where
  "fin_toDb L a = fin_round L a 4"

definition db_numeric4 :: "rat \<Rightarrow> rat" where
  "db_numeric4 a = half_up a 4"

section \<open>FinancialMath\<close>

definition fm_sum :: "decimal_lib \<Rightarrow> rat list \<Rightarrow> rat" where
  "fm_sum L items = foldl (fin_add L) 0 items"

definition calculateWAC :: "decimal_lib \<Rightarrow> rat \<Rightarrow> rat \<Rightarrow> rat \<Rightarrow> rat \<Rightarrow> rat" where
  "calculateWAC L curQty curCost inQty inPrice =
    (if inQty \<le> 0 then curCost
     else if inPrice \<le> 0 then curCost
     else if curQty \<le> 0 then fin_round L inPrice 4
     else
       let currentTotalValue = fin_multiply L curQty curCost;
           incomingTotalValue = fin_multiply L inQty inPrice;
           totalQty = fin_add L curQty inQty
       in if totalQty = 0 then fin_round L inPrice 4
          else fin_quot L (fin_add L currentTotalValue incomingTotalValue) totalQty 4)"

definition calculateItemTotal :: "decimal_lib \<Rightarrow> rat \<Rightarrow> rat \<Rightarrow> rat \<Rightarrow> rat \<Rightarrow> rat" where
  "calculateItemTotal L quantity unitPrice discountAmount vatAmount =
    (let subtotal = fin_multiply L quantity unitPrice
     in fin_round L (fin_add L (fin_subtract L subtotal discountAmount) vatAmount) 4)"

definition roundCurrency :: "decimal_lib \<Rightarrow> rat \<Rightarrow> string \<Rightarrow> rat" where
  "roundCurrency L amount cur =
    (if cur \<in> {''IRR'', ''TMN'', rial_fa, toman_fa} then fin_round L amount 0 else fin_round L amount 2)"

definition fm_round :: "decimal_lib \<Rightarrow> rat \<Rightarrow> nat \<Rightarrow> rat" where
  "fm_round L v decimals = fin_toNumber L (fin_round L v decimals)"

definition fm_roundMoney :: "decimal_lib \<Rightarrow> rat \<Rightarrow> rat" where
  "fm_roundMoney L v = fin_toNumber L (fin_round L v 2)"

definition fm_roundQty :: "decimal_lib \<Rightarrow> rat \<Rightarrow> rat" where
  "fm_roundQty L v = fin_toNumber L (fin_round L v 4)"

definition fm_add :: "decimal_lib \<Rightarrow> rat \<Rightarrow> rat \<Rightarrow> rat" where
  "fm_add L a b = fin_toNumber L (fin_round L (fin_add L a b) 4)"

definition fm_subtract :: "decimal_lib \<Rightarrow> rat \<Rightarrow> rat \<Rightarrow> rat" where
  "fm_subtract L a b = fin_toNumber L (fin_round L (fin_subtract L a b) 4)"

definition fm_multiply :: "decimal_lib \<Rightarrow> rat \<Rightarrow> rat \<Rightarrow> rat" where
  "fm_multiply L a b = fin_toNumber L (fin_round L (fin_multiply L a b) 4)"

definition fm_divide :: "decimal_lib \<Rightarrow> rat \<Rightarrow> rat \<Rightarrow> rat" where
  "fm_divide L a b = (if b = 0 then 0 else fin_toNumber L (fin_quot L a b 4))"

section \<open>What the operations compute\<close>

context decimal_js begin

lemma add_exact: "digits_fit 30 (a + b) \<Longrightarrow> fin_add L a b = a + b"
  unfolding fin_add_def by (rule nearest_fit_exact [OF plus_nearest])

lemma subtract_exact: "digits_fit 30 (a - b) \<Longrightarrow> fin_subtract L a b = a - b"
  unfolding fin_subtract_def by (rule nearest_fit_exact [OF minus_nearest])

lemma multiply_exact: "digits_fit 30 (a * b) \<Longrightarrow> fin_multiply L a b = a * b"
  unfolding fin_multiply_def by (rule nearest_fit_exact [OF times_nearest])

lemma add_scaled:
  assumes "scaled 8 a" and "scaled 8 b" and "\<bar>a + b\<bar> < 10 ^ 22"
  shows "fin_add L a b = a + b"
  by (rule add_exact, rule scaled_digits_fit [where dp = 8 and m = 22])
    (use assms in \<open>auto intro: scaled_add\<close>)

lemma subtract_scaled:
  assumes "scaled 8 a" and "scaled 8 b" and "\<bar>a - b\<bar> < 10 ^ 22"
  shows "fin_subtract L a b = a - b"
  by (rule subtract_exact, rule scaled_digits_fit [where dp = 8 and m = 22])
    (use assms in \<open>auto intro: scaled_diff\<close>)

lemma multiply_scaled:
  assumes "scaled 4 a" and "scaled 4 b" and "\<bar>a * b\<bar> < 10 ^ 22"
  shows "fin_multiply L a b = a * b"
  by (rule multiply_exact, rule scaled_digits_fit [where dp = 8 and m = 22])
    (use assms scaled_mult [of 4 a 4 b] in auto)

lemma toNumber_scaled: "scaled 4 a \<Longrightarrow> \<bar>a\<bar> < 10 ^ 11 \<Longrightarrow> fin_toNumber L a = a"
  unfolding fin_toNumber_def
  by (rule toNumber_short, rule scaled_digits_fit [where dp = 4 and m = 11]) auto

lemma add_scaled4: "scaled 4 a \<Longrightarrow> scaled 4 b \<Longrightarrow> \<bar>a + b\<bar> < 10 ^ 11 \<Longrightarrow> fin_add L a b = a + b"
  by (rule add_scaled) (auto intro: scaled_mono [of 4])

lemma subtract_scaled4: "scaled 4 a \<Longrightarrow> scaled 4 b \<Longrightarrow> \<bar>a - b\<bar> < 10 ^ 11 \<Longrightarrow> fin_subtract L a b = a - b"
  by (rule subtract_scaled) (auto intro: scaled_mono [of 4])

lemma number_round4: "scaled 4 a \<Longrightarrow> \<bar>a\<bar> < 10 ^ 11 \<Longrightarrow> fin_toNumber L (fin_round L a 4) = a"
  by (simp add: fin_round_def toDP_half_up toNumber_scaled)

lemma quot_bounds:
  assumes "b \<noteq> 0" and "lo \<le> a / b" and "a / b \<le> hi"
    and "scaled s lo" and "scaled s hi" and "s \<le> 15" and "\<bar>lo\<bar> < 10 ^ 15" and "\<bar>hi\<bar> < 10 ^ 15"
  shows "lo \<le> fin_quot L a b s" and "fin_quot L a b s \<le> hi"
proof -
  have "digits_fit 30 lo" and "digits_fit 30 hi"
    using assms by (auto intro: scaled_digits_fit [where dp = s and m = 15])
  with nearest_fit_ge [OF div_nearest] nearest_fit_le [OF div_nearest] assms(1-3)
  have "lo \<le> dl_div L a b" and "dl_div L a b \<le> hi" by blast+
  with assms(4,5) show "lo \<le> fin_quot L a b s" and "fin_quot L a b s \<le> hi"
    by (auto simp: fin_quot_def toDP_half_up half_up_ge half_up_le)
qed

lemma quot_exact:
  assumes "b \<noteq> 0" and "scaled s (a / b)" and "\<bar>a / b\<bar> < 10 ^ 15" and "s \<le> 15" and "s \<le> s'"
  shows "fin_quot L a b s' = a / b"
proof -
  have "digits_fit 30 (a / b)"
    by (rule scaled_digits_fit [where dp = s and m = 15]) (use assms in auto)
  then have "dl_div L a b = a / b" by (rule nearest_fit_exact [OF div_nearest [OF assms(1)]])
  then show ?thesis using scaled_mono [OF assms(2,5)] by (simp add: fin_quot_def toDP_half_up)
qed

lemma round_half_up: "fin_round L a dp = half_up a dp"
  by (simp add: fin_round_def toDP_half_up)

lemma quot_scaled [simp]: "scaled dp (fin_quot L a b dp)"
  by (simp add: fin_quot_def toDP_half_up)

end


section \<open>An executable instance of the package\<close>

text \<open>The number of decimal digits, and the exponent \<open>e\<close> with \<open>10 ^ (n - 1) \<le> \<bar>x\<bar> / 10 ^ e < 10 ^ n\<close>.\<close>

fun dec_len :: "nat \<Rightarrow> nat" where
  "dec_len k = (if k < 10 then 1 else Suc (dec_len (k div 10)))"

declare dec_len.simps [simp del]

definition sig_exp :: "nat \<Rightarrow> rat \<Rightarrow> int" where
  "sig_exp n x =
    (let (p, q) = quotient_of \<bar>x\<bar>;
         e = int (dec_len (nat p)) - int (dec_len (nat q)) - int n
     in if 10 ^ n \<le> \<bar>x\<bar> / 10 powi e then e + 1 else e)"

definition round_sig :: "nat \<Rightarrow> rat \<Rightarrow> rat" where
  "round_sig n x =
    (if x = 0 then 0
     else let g = 10 powi sig_exp n x in of_int (half_up_int (x / g)) * g)"

definition ref_lib :: decimal_lib where
  "ref_lib = \<lparr>dl_plus = (\<lambda>a b. round_sig 30 (a + b)), dl_minus = (\<lambda>a b. round_sig 30 (a - b)),
     dl_times = (\<lambda>a b. round_sig 30 (a * b)), dl_div = (\<lambda>a b. round_sig 30 (a / b)),
     dl_toDP = half_up, dl_toNumber = round_sig 15\<rparr>"

lemma dec_len_bounds:
  "k < 10 ^ dec_len k" "0 < k \<Longrightarrow> 10 ^ dec_len k \<le> 10 * k"
proof (induction k rule: dec_len.induct)
  case (1 k)
  {
    case 1
    show ?case
    proof (cases "k < 10")
      case False
      with "1.IH"(1) have "k div 10 < 10 ^ dec_len (k div 10)" by simp
      then have "k < 10 * 10 ^ dec_len (k div 10)" by linarith
      with False show ?thesis by (subst dec_len.simps) simp
    qed (simp add: dec_len.simps [of k])
  next
    case 2
    show ?case
    proof (cases "k < 10")
      case True
      with 2 show ?thesis by (simp add: dec_len.simps [of k])
    next
      case False
      with "1.IH"(2) have "10 ^ dec_len (k div 10) \<le> 10 * (k div 10)" by simp
      with False show ?thesis by (subst dec_len.simps) simp
    qed
  }
qed

lemma sig_exp_bounds:
  assumes "x \<noteq> 0" and "0 < n"
  shows "\<bar>x\<bar> / 10 powi sig_exp n x < 10 ^ n" and "10 ^ (n - 1) \<le> \<bar>x\<bar> / 10 powi sig_exp n x"
proof -
  obtain p q where pq: "quotient_of \<bar>x\<bar> = (p, q)" by fastforce
  then have q: "0 < q" and x: "\<bar>x\<bar> = of_int p / of_int q"
    by (auto simp: quotient_of_denom_pos quotient_of_div)
  have "0 < \<bar>x\<bar>" using assms(1) by simp
  with q x have p: "0 < p" by (simp add: zero_less_divide_iff)
  let ?a = "dec_len (nat p)" and ?b = "dec_len (nat q)"
  define e where "e = int ?a - int ?b - int n"
  define y where "y = \<bar>x\<bar> / 10 powi e"
  have "nat p < 10 ^ ?a" "10 ^ ?a \<le> 10 * nat p" "nat q < 10 ^ ?b" "10 ^ ?b \<le> 10 * nat q"
    using dec_len_bounds(1) dec_len_bounds(2) [of "nat p"] dec_len_bounds(2) [of "nat q"] p q
    by simp_all
  then have nats: "of_nat (nat p) < (of_nat (10 ^ ?a) :: rat)" "of_nat (10 ^ ?a) \<le> (of_nat (10 * nat p) :: rat)"
      "of_nat (nat q) < (of_nat (10 ^ ?b) :: rat)" "of_nat (10 ^ ?b) \<le> (of_nat (10 * nat q) :: rat)"
    by (simp_all only: of_nat_less_iff of_nat_le_iff)
  then have b: "of_int p < (10 :: rat) ^ ?a" "10 ^ ?a \<le> 10 * (of_int p :: rat)"
      "of_int q < (10 :: rat) ^ ?b" "10 ^ ?b \<le> 10 * (of_int q :: rat)"
    using p q by simp_all
  have y: "y = of_int p * (10 ^ ?b * 10 ^ n) / (of_int q * 10 ^ ?a)"
    by (simp add: y_def e_def x power_int_diff)
  have q': "(0 :: rat) < of_int q * 10 ^ ?a" using q by simp
  have "of_int p * (10 ^ ?b * 10 ^ n) < (10 ^ ?a * (10 * of_int q * 10 ^ n) :: rat)"
    by (rule mult_less_le_imp_less) (use b p q in auto)
  then have hi: "y < 10 * 10 ^ n" using q' by (simp add: y divide_simps ac_simps)
  have "10 ^ ?a * (of_int q * 10 ^ n) \<le> (10 * of_int p * (10 ^ ?b * 10 ^ n) :: rat)"
    by (rule mult_mono) (use b p q in auto)
  then have lo: "10 ^ n \<le> 10 * y" using q' by (simp add: y divide_simps ac_simps)
  have n: "(10 :: rat) ^ n = 10 * 10 ^ (n - 1)" using assms(2) by (cases n) auto
  have s: "\<bar>x\<bar> / 10 powi sig_exp n x = (if 10 ^ n \<le> y then y / 10 else y)"
    by (auto simp: sig_exp_def pq y_def e_def Let_def power_int_add)
  show "\<bar>x\<bar> / 10 powi sig_exp n x < 10 ^ n" using hi by (simp add: s)
  show "10 ^ (n - 1) \<le> \<bar>x\<bar> / 10 powi sig_exp n x" using lo by (simp add: s n)
qed

lemma abs_closer:
  fixes r x G :: rat
  assumes "\<bar>r\<bar> \<le> G" "G \<le> \<bar>x\<bar>"
  shows "\<bar>(if x < 0 then - G else G) - x\<bar> \<le> \<bar>r - x\<bar>"
  using assms by (cases "x < 0") (auto simp: abs_le_iff abs_if split: if_splits)

lemma round_sig_nearest:
  assumes "0 < n"
  shows "nearest_fit n x (round_sig n x)"
proof (cases "x = 0")
  case True
  have "digits_fit n 0" unfolding digits_fit_def by (rule exI [of _ 0]) simp
  with True show ?thesis by (simp add: nearest_fit_def round_sig_def)
next
  case False
  define e where "e = sig_exp n x"
  define g :: rat where "g = 10 powi e"
  define t where "t = x / g"
  have g: "0 < g" by (simp add: g_def)
  have x: "x = t * g" using g by (simp add: t_def)
  have t: "\<bar>t\<bar> < 10 ^ n" "10 ^ (n - 1) \<le> \<bar>t\<bar>"
    using sig_exp_bounds [OF False assms] g by (simp_all add: t_def g_def e_def abs_divide)
  let ?h = "half_up_int t"
  have rs: "round_sig n x = of_int ?h * g"
    using False by (simp add: round_sig_def Let_def t_def g_def e_def)
  have best: "\<bar>of_int ?h * g - x\<bar> \<le> \<bar>of_int k * g - x\<bar>" for k
    using half_up_int_nearest [of t k] g unfolding x by (simp add: abs_mult flip: left_diff_distrib)
  have "digits_fit n (of_int ?h * g)"
  proof (cases "\<bar>?h\<bar> < 10 ^ n")
    case True
    then show ?thesis unfolding digits_fit_def g_def by blast
  next
    case False
    have "of_int (- (10 ^ n)) \<le> t" "t \<le> of_int (10 ^ n)" using t(1) by (auto simp: abs_less_iff)
    then have "\<bar>?h\<bar> \<le> 10 ^ n" using half_up_int_ge half_up_int_le by (fastforce simp: abs_le_iff)
    with False have "\<bar>?h\<bar> = 10 ^ n" by simp
    then have "?h = sgn ?h * 10 ^ n" by (metis abs_mult_sgn mult.commute)
    then have "of_int ?h = (of_int (sgn ?h) * 10 ^ n :: rat)" by (metis of_int_mult of_int_numeral of_int_power)
    then have "of_int ?h * g = of_int (sgn ?h) * 10 powi (e + int n)"
      by (simp add: g_def power_int_add ac_simps)
    moreover have "\<bar>sgn ?h\<bar> < 10 ^ n" using assms by (auto simp: sgn_if)
    ultimately show ?thesis unfolding digits_fit_def by blast
  qed
  moreover have "\<bar>of_int ?h * g - x\<bar> \<le> \<bar>r - x\<bar>" if r: "digits_fit n r" for r
  proof -
    from r obtain m j where m: "\<bar>m\<bar> < 10 ^ n" "r = of_int m * 10 powi j"
      unfolding digits_fit_def by blast
    show ?thesis
    proof (cases "e \<le> j")
      case True
      then have "10 powi j = of_int (10 ^ nat (j - e)) * g"
        by (simp add: g_def flip: power_int_add power_int_of_nat)
      then have "r = of_int (m * 10 ^ nat (j - e)) * g" by (simp add: m(2))
      then show ?thesis using best by metis
    next
      case False
      define c :: int where "c = (if t < 0 then - 1 else 1) * 10 ^ (n - 1)"
      have "\<bar>r\<bar> = of_int \<bar>m\<bar> * 10 powi j" by (simp add: m(2) abs_mult)
      also have "\<dots> \<le> 10 ^ n * 10 powi (e - 1)"
      proof (rule mult_mono)
        have "(of_int \<bar>m\<bar> :: rat) \<le> of_int (10 ^ n)" using m(1) by (simp only: of_int_le_iff)
        then show "(of_int \<bar>m\<bar> :: rat) \<le> 10 ^ n" by simp
        show "(10 :: rat) powi j \<le> 10 powi (e - 1)" using False by (intro power_int_increasing) auto
      qed auto
      also have "\<dots> = 10 ^ (n - 1) * g"
        using assms by (cases n) (auto simp: g_def power_int_diff)
      finally have "\<bar>r\<bar> \<le> 10 ^ (n - 1) * g" .
      moreover have "10 ^ (n - 1) * g \<le> \<bar>x\<bar>" using t(2) g by (simp add: x abs_mult)
      moreover have "of_int c * g = (if x < 0 then - (10 ^ (n - 1) * g) else 10 ^ (n - 1) * g)"
        using g by (simp add: c_def x mult_less_0_iff)
      ultimately have "\<bar>of_int c * g - x\<bar> \<le> \<bar>r - x\<bar>" by (simp only: abs_closer)
      with best [of c] show ?thesis by linarith
    qed
  qed
  ultimately show ?thesis by (simp add: nearest_fit_def rs)
qed

interpretation ref: decimal_js ref_lib
  by unfold_locales (auto simp: ref_lib_def round_sig_nearest
      intro: nearest_fit_exact [OF round_sig_nearest])


section \<open>The weighted average cost\<close>

text \<open>
  The magnitudes for which every intermediate result fits the precision of 30 digits: a unit cost
  or price below \<open>10 ^ 11\<close> and a quantity below \<open>10 ^ 10\<close>, both with four decimals as the columns
  of type NUMERIC(18,4) hold them.
\<close>

definition money4 :: "rat \<Rightarrow> bool" where
  "money4 x \<longleftrightarrow> scaled 4 x \<and> \<bar>x\<bar> < 10 ^ 11"

definition qty4 :: "rat \<Rightarrow> bool" where
  "qty4 x \<longleftrightarrow> scaled 4 x \<and> \<bar>x\<bar> < 10 ^ 10"

lemma money4_0 [simp]: "money4 0" and qty4_0 [simp]: "qty4 0"
  by (simp_all add: money4_def qty4_def)

lemma qty_money_product:
  assumes "qty4 q" and "money4 p"
  shows "\<bar>q * p\<bar> < 10 ^ 21" and "scaled 8 (q * p)"
proof -
  have "\<bar>q\<bar> * \<bar>p\<bar> < 10 ^ 10 * 10 ^ 11"
    by (rule mult_strict_mono) (use assms in \<open>auto simp: qty4_def money4_def\<close>)
  then show "\<bar>q * p\<bar> < 10 ^ 21" by (simp add: abs_mult)
  show "scaled 8 (q * p)" using assms scaled_mult [of 4 q 4 p] by (simp add: qty4_def money4_def)
qed

text \<open>A mean of two values with positive weights lies between them.\<close>

lemma weighted_mean_bounds:
  fixes a b x y :: rat
  assumes "0 < a" and "0 < b"
  shows "min x y \<le> (a * x + b * y) / (a + b)" and "(a * x + b * y) / (a + b) \<le> max x y"
proof -
  have "(a + b) * min x y = a * min x y + b * min x y" by (simp add: algebra_simps)
  also have "\<dots> \<le> a * x + b * y" using assms by (intro add_mono mult_left_mono) auto
  finally show "min x y \<le> (a * x + b * y) / (a + b)" using assms by (simp add: divide_simps ac_simps)
  have "a * x + b * y \<le> a * max x y + b * max x y" using assms by (intro add_mono mult_left_mono) auto
  also have "\<dots> = (a + b) * max x y" by (simp add: algebra_simps)
  finally show "(a * x + b * y) / (a + b) \<le> max x y" using assms by (simp add: divide_simps ac_simps)
qed

context decimal_js begin

lemma product_exact: "qty4 q \<Longrightarrow> money4 p \<Longrightarrow> fin_multiply L q p = q * p"
  using qty_money_product [of q p]
  by (intro multiply_scaled) (auto simp: qty4_def money4_def)

lemma value_sum_exact:
  assumes "qty4 q" "money4 p" "qty4 q'" "money4 p'"
  shows "fin_add L (q * p) (q' * p') = q * p + q' * p'"
  using qty_money_product [OF assms(1,2)] qty_money_product [OF assms(3,4)]
  by (intro add_scaled) auto

lemma qty_sum_exact: "qty4 q \<Longrightarrow> qty4 q' \<Longrightarrow> fin_add L q q' = q + q'"
  by (rule add_scaled) (auto simp: qty4_def intro: scaled_mono)

lemma calculateWAC_mixed:
  assumes "qty4 cq" "money4 cc" "qty4 iq" "money4 ip" and "0 < cq" "0 < iq" "0 < ip"
  shows "calculateWAC L cq cc iq ip = fin_quot L (cq * cc + iq * ip) (cq + iq) 4"
  using assms by (simp add: calculateWAC_def Let_def product_exact value_sum_exact qty_sum_exact)

lemma quot_error:
  assumes "b \<noteq> 0" and "\<bar>a / b\<bar> \<le> 10 ^ 11"
  shows "\<bar>fin_quot L a b s - a / b\<bar> \<le> 1 / 2 / 10 ^ s + 1 / 2 / 10 ^ 18"
proof -
  let ?r = "half_up (a / b) 18" and ?d = "dl_div L a b"
  have "- (10 ^ 11) \<le> a / b" "a / b \<le> 10 ^ 11"
    using assms(2) unfolding abs_le_iff by linarith+
  moreover have "scaled 18 (10 ^ 11)" using scaled_of_int [of 18 "10 ^ 11"] by simp
  ultimately have "- (10 ^ 11) \<le> ?r" "?r \<le> 10 ^ 11"
    by (auto intro!: half_up_ge half_up_le simp del: minus_divide_left)
  then have "digits_fit 30 ?r"
    by (intro scaled_digits_fit [where dp = 18 and m = 12]) auto
  then have "\<bar>?d - a / b\<bar> \<le> \<bar>?r - a / b\<bar>"
    using div_nearest [OF assms(1)] by (auto simp: nearest_fit_def)
  also have "\<dots> \<le> 1 / 2 / 10 ^ 18" by (rule half_up_error)
  finally have "\<bar>?d - a / b\<bar> \<le> 1 / 2 / 10 ^ 18" .
  moreover have "\<bar>half_up ?d s - ?d\<bar> \<le> 1 / 2 / 10 ^ s" by (rule half_up_error)
  ultimately show ?thesis unfolding fin_quot_def toDP_half_up by linarith
qed

lemma wac_between:
  assumes "qty4 cq" "money4 cc" "qty4 iq" "money4 ip" and "0 < cq" "0 < iq" "0 < ip"
  shows "min cc ip \<le> calculateWAC L cq cc iq ip" "calculateWAC L cq cc iq ip \<le> max cc ip"
proof -
  note mean = weighted_mean_bounds [OF assms(5,6), of cc ip]
  have "scaled 4 (min cc ip)" "scaled 4 (max cc ip)" "\<bar>min cc ip\<bar> < 10 ^ 15" "\<bar>max cc ip\<bar> < 10 ^ 15"
    using assms by (auto simp: money4_def min_def max_def)
  with quot_bounds [OF _ mean, of 4] assms(5,6)
  show "min cc ip \<le> calculateWAC L cq cc iq ip" "calculateWAC L cq cc iq ip \<le> max cc ip"
    by (simp_all add: calculateWAC_mixed assms)
qed

lemma wac_money4:
  assumes "qty4 cq" "money4 cc" "qty4 iq" "money4 ip"
  shows "money4 (calculateWAC L cq cc iq ip)"
proof (cases "0 < iq \<and> 0 < ip \<and> 0 < cq")
  case True
  then have "calculateWAC L cq cc iq ip = fin_quot L (cq * cc + iq * ip) (cq + iq) 4"
    using calculateWAC_mixed assms by blast
  then have "scaled 4 (calculateWAC L cq cc iq ip)" by simp
  moreover have "\<bar>calculateWAC L cq cc iq ip\<bar> < 10 ^ 11"
    using wac_between [OF assms] True assms unfolding money4_def by (simp add: abs_less_iff) linarith
  ultimately show ?thesis by (simp add: money4_def)
next
  case False
  then show ?thesis using assms
    by (auto simp: calculateWAC_def round_half_up money4_def)
qed

lemma wac_value_error:
  assumes "qty4 cq" "money4 cc" "qty4 iq" "money4 ip" and "0 < cq" "0 < iq" "0 < ip"
  shows "\<bar>calculateWAC L cq cc iq ip * (cq + iq) - (cq * cc + iq * ip)\<bar>
    \<le> (cq + iq) * (1 / 2 / 10 ^ 4 + 1 / 2 / 10 ^ 18)"
proof -
  let ?b = "cq + iq" and ?a = "cq * cc + iq * ip"
  have b: "0 < ?b" using assms by simp
  have "min cc ip \<le> ?a / ?b" "?a / ?b \<le> max cc ip"
    using weighted_mean_bounds [OF assms(5,6), of cc ip] by auto
  moreover have "- (10 ^ 11) < min cc ip" "max cc ip < 10 ^ 11"
    using assms(2,4) by (auto simp: money4_def abs_less_iff)
  ultimately have "\<bar>?a / ?b\<bar> \<le> 10 ^ 11" unfolding abs_le_iff by linarith
  then have "\<bar>fin_quot L ?a ?b 4 - ?a / ?b\<bar> \<le> 1 / 2 / 10 ^ 4 + 1 / 2 / 10 ^ 18"
    using quot_error [of ?b ?a 4] b by simp
  then have "\<bar>fin_quot L ?a ?b 4 - ?a / ?b\<bar> * ?b \<le> (1 / 2 / 10 ^ 4 + 1 / 2 / 10 ^ 18) * ?b"
    using b by (intro mult_right_mono) auto
  moreover have "\<bar>fin_quot L ?a ?b 4 - ?a / ?b\<bar> * ?b = \<bar>fin_quot L ?a ?b 4 * ?b - ?a\<bar>"
    using b by (simp add: field_simps flip: abs_mult_pos)
  ultimately show ?thesis using assms by (simp add: calculateWAC_mixed ac_simps)
qed

end


text \<open>
  C1: what a receipt does to the weighted average cost. With stock on hand and a positive quantity
  and price, the new cost lies between the old cost and the price paid, it has four decimals, and
  the stock revalued at it differs from the old value plus the value received by no more than the
  rounding of the fourth decimal of the unit cost (and of the 30-digit quotient).
\<close>

theorem calculateWAC_receipt:
  assumes "decimal_js L" and "qty4 cq" "money4 cc" "qty4 iq" "money4 ip"
    and "0 < cq" "0 < iq" "0 < ip"
  shows "min cc ip \<le> calculateWAC L cq cc iq ip \<and> calculateWAC L cq cc iq ip \<le> max cc ip \<and>
    money4 (calculateWAC L cq cc iq ip) \<and>
    \<bar>calculateWAC L cq cc iq ip * (cq + iq) - (cq * cc + iq * ip)\<bar>
      \<le> (cq + iq) * (1 / 2 / 10 ^ 4 + 1 / 2 / 10 ^ 18)"
  using decimal_js.wac_between [OF assms(1) assms(2-8)] decimal_js.wac_money4 [OF assms(1) assms(2-5)]
    decimal_js.wac_value_error [OF assms(1) assms(2-8)] by blast

lemma calculateWAC_receipt_witness:
  "min 100 130 \<le> calculateWAC ref_lib 2 100 1 130 \<and> calculateWAC ref_lib 2 100 1 130 \<le> max 100 130"
  using calculateWAC_receipt [OF ref.decimal_js_axioms, of 2 100 1 130]
  by (simp add: qty4_def money4_def scaled_def)

end
