(* ===== verification/Vat.thy ===== *)
theory Vat
  imports Decimal
begin

text \<open>
  Amounts of a sales or purchase document: the VAT formula shared by the server and the invoice
  form (\<open>src/lib/vatFormula.ts\<close>, \<open>src/lib/invoiceTotals.ts\<close>), the VAT a document is saved with
  (\<open>src/services/documents/documentVat.ts\<close>), the exchange rate and the unit cost a document line
  enters the stock with (\<open>documentExchangeRate.ts\<close>, \<open>purchaseLineCost.ts\<close>).

  An input of type \<open>unknown\<close> is modelled by what \<open>Number(raw)\<close> makes of it (\<open>raw_number\<close>); a
  decimal field that is null, undefined or empty is the rational 0, as the constructor of
  \<open>FinancialDecimal\<close> reads it.
\<close>

section \<open>Currency scale and the VAT formula\<close>

text \<open>\<open>String(currency || 'IRR')\<close>: null, undefined and the empty string are the Rial.\<close>

definition currencyScale :: "string option \<Rightarrow> nat" where
  "currencyScale currency =
    (let c = (case currency of None \<Rightarrow> ''IRR'' | Some s \<Rightarrow> if s = '''' then ''IRR'' else s)
     in if js_upper (js_trim c) = ''IRR'' then 0 else 2)"

record vat_line =
  vl_quantity :: rat
  vl_unitPrice :: rat
  vl_discount :: rat

record vat_base =
  vb_gross :: rat
  vb_discount :: rat
  vb_net :: rat

fun vat_sums :: "decimal_lib \<Rightarrow> vat_line list \<Rightarrow> rat \<Rightarrow> rat \<Rightarrow> rat \<times> rat" where
  "vat_sums L [] gross discount = (gross, discount)"
| "vat_sums L (line # lines) gross discount =
    vat_sums L lines
      (fin_add L gross (fin_multiply L (vl_quantity line) (vl_unitPrice line)))
      (fin_add L discount (vl_discount line))"

definition vatBaseOf :: "decimal_lib \<Rightarrow> vat_line list \<Rightarrow> vat_base" where
  "vatBaseOf L lines =
    (let (gross, discount) = vat_sums L lines 0 0;
         net = fin_subtract L (fin_round L gross 4) (fin_round L discount 4)
     in \<lparr>vb_gross = fin_round L gross 4, vb_discount = fin_round L discount 4,
         vb_net = (if net < 0 then 0 else fin_round L net 4)\<rparr>)"

definition percentVatOf :: "decimal_lib \<Rightarrow> rat \<Rightarrow> rat \<Rightarrow> string option \<Rightarrow> rat" where
  "percentVatOf L net vatPercent currency =
    (if vatPercent > 0
     then fin_round L (fin_quot L (fin_multiply L net vatPercent) 100 12) (currencyScale currency)
     else 0)"

section \<open>Totals of the invoice form\<close>

record invoice_totals =
  it_gross :: rat
  it_discount :: rat
  it_net :: rat
  it_vatAmount :: rat
  it_serviceCharge :: rat
  it_payable :: rat

definition computeInvoiceTotals ::
    "decimal_lib \<Rightarrow> vat_line list option \<Rightarrow> rat \<Rightarrow> string \<Rightarrow> rat \<Rightarrow> invoice_totals" where
  "computeInvoiceTotals L lines vatPercent currency serviceCharge =
    (let b = vatBaseOf L (case lines of None \<Rightarrow> [] | Some ls \<Rightarrow> ls);
         vat = percentVatOf L (vb_net b) vatPercent (Some currency);
         service = serviceCharge
     in \<lparr>it_gross = fin_toNumber L (vb_gross b), it_discount = fin_toNumber L (vb_discount b),
         it_net = fin_toNumber L (vb_net b), it_vatAmount = fin_toNumber L vat,
         it_serviceCharge = fin_toNumber L service,
         it_payable = fin_toNumber L (fin_add L (fin_add L (vb_net b) vat) service)\<rparr>)"

section \<open>The VAT of a document\<close>

definition VAT_DOC_TYPES :: "string list" where
  "VAT_DOC_TYPES = [''invoice'', ''proforma'']"

definition VAT_BEARING_DOC_TYPES :: "string list" where
  "VAT_BEARING_DOC_TYPES = VAT_DOC_TYPES @ [''return'']"

datatype raw_number = RawUndefined | RawNull | RawEmpty | RawFinite rat | RawNotFinite

datatype vat_field = VatPercentField | VatAmountField

datatype vat_error =
    NotANumber vat_field
  | PercentOutOfRange rat
  | NegativeVatAmount rat
  | VatAmountMismatch rat

definition vat_pick :: "raw_number \<Rightarrow> raw_number \<Rightarrow> raw_number" where
  "vat_pick primary alias = (if primary \<noteq> RawUndefined then primary else alias)"

fun parseOptionalNumber :: "raw_number \<Rightarrow> vat_field \<Rightarrow> vat_error + rat option" where
  "parseOptionalNumber RawUndefined f = Inr None"
| "parseOptionalNumber RawNull f = Inr None"
| "parseOptionalNumber RawEmpty f = Inr None"
| "parseOptionalNumber (RawFinite v) f = Inr (Some v)"
| "parseOptionalNumber RawNotFinite f = Inl (NotANumber f)"

record vat_input =
  vi_vatPercent :: raw_number
  vi_vat_percent :: raw_number
  vi_vatAmount :: raw_number
  vi_vat_amount :: raw_number

definition parseVatInput :: "vat_input \<Rightarrow> vat_error + (rat option \<times> rat option)" where
  "parseVatInput i =
    res_bind (parseOptionalNumber (vat_pick (vi_vatPercent i) (vi_vat_percent i)) VatPercentField) (\<lambda>vatPercent.
    res_bind (parseOptionalNumber (vat_pick (vi_vatAmount i) (vi_vat_amount i)) VatAmountField) (\<lambda>vatAmount.
      case vatPercent of
        Some p \<Rightarrow>
          if p < 0 \<or> p > 100 then Inl (PercentOutOfRange p)
          else (case vatAmount of
              Some a \<Rightarrow> if a < 0 then Inl (NegativeVatAmount a) else Inr (vatPercent, vatAmount)
            | None \<Rightarrow> Inr (vatPercent, vatAmount))
      | None \<Rightarrow>
          (case vatAmount of
              Some a \<Rightarrow> if a < 0 then Inl (NegativeVatAmount a) else Inr (vatPercent, vatAmount)
            | None \<Rightarrow> Inr (vatPercent, vatAmount))))"

text \<open>A document line as the routes pass it: the unit price under one of three names.\<close>

record doc_vat_line =
  dv_quantity :: rat
  dv_unitPrice :: "rat option"
  dv_unit_price :: "rat option"
  dv_price :: "rat option"
  dv_discount :: rat

definition dv_price_of :: "doc_vat_line \<Rightarrow> rat" where
  "dv_price_of l = (case dv_unitPrice l of Some p \<Rightarrow> p
     | None \<Rightarrow> (case dv_unit_price l of Some p \<Rightarrow> p
       | None \<Rightarrow> (case dv_price l of Some p \<Rightarrow> p | None \<Rightarrow> 0)))"

definition form_lines :: "doc_vat_line list \<Rightarrow> vat_line list" where
  "form_lines lines = map (\<lambda>l. \<lparr>vl_quantity = dv_quantity l, vl_unitPrice = dv_price_of l,
     vl_discount = dv_discount l\<rparr>) lines"

definition computeNetAmount :: "decimal_lib \<Rightarrow> doc_vat_line list \<Rightarrow> rat" where
  "computeNetAmount L lines = vb_net (vatBaseOf L (form_lines lines))"

record document_vat =
  dvat_percent :: rat
  dvat_amount :: rat

record vat_params =
  vp_docType :: string
  vp_input :: vat_input
  vp_lines :: "doc_vat_line list"
  vp_existing :: "document_vat option"
  vp_linesChanged :: bool
  vp_currency :: "string option"

definition vat_of_percent :: "decimal_lib \<Rightarrow> vat_params \<Rightarrow> rat \<Rightarrow> rat" where
  "vat_of_percent L p pct =
    (if pct > 0 then percentVatOf L (computeNetAmount L (vp_lines p)) pct (vp_currency p) else 0)"

definition resolveDocumentVat :: "decimal_lib \<Rightarrow> vat_params \<Rightarrow> vat_error + document_vat" where
  "resolveDocumentVat L p =
    (if vp_docType p \<notin> set VAT_BEARING_DOC_TYPES then Inr \<lparr>dvat_percent = 0, dvat_amount = 0\<rparr>
     else res_bind (parseVatInput (vp_input p)) (\<lambda>(vatPercent, vatAmount).
       case vatAmount of
         Some a \<Rightarrow>
           (case vatPercent of
              Some pct \<Rightarrow>
                if pct > 0 \<and> fin_round L a 4 \<noteq> vat_of_percent L p pct
                then Inl (VatAmountMismatch (vat_of_percent L p pct))
                else Inr \<lparr>dvat_percent = pct, dvat_amount = fin_round L a 4\<rparr>
            | None \<Rightarrow> Inr \<lparr>dvat_percent = 0, dvat_amount = fin_round L a 4\<rparr>)
       | None \<Rightarrow>
           (case vatPercent of
              Some pct \<Rightarrow> Inr \<lparr>dvat_percent = pct, dvat_amount = vat_of_percent L p pct\<rparr>
            | None \<Rightarrow>
                let existing = (case vp_existing p of Some e \<Rightarrow> e
                  | None \<Rightarrow> \<lparr>dvat_percent = 0, dvat_amount = 0\<rparr>)
                in if vp_linesChanged p \<and> dvat_percent existing > 0
                   then Inr \<lparr>dvat_percent = dvat_percent existing,
                     dvat_amount = vat_of_percent L p (dvat_percent existing)\<rparr>
                   else Inr existing)))"

section \<open>Exchange rates and stock unit costs\<close>

datatype rate_error = BadExchangeRate | ExchangeRateRequired string

definition normalizeCurrency :: "string option \<Rightarrow> string" where
  "normalizeCurrency currency =
    (let cur = js_upper (js_trim (case currency of None \<Rightarrow> '''' | Some s \<Rightarrow> s))
     in if cur = '''' then ''IRR'' else cur)"

definition parseExchangeRateInput :: "raw_number \<Rightarrow> raw_number \<Rightarrow> rate_error + rat option" where
  "parseExchangeRateInput exchangeRate exchange_rate =
    (case vat_pick exchangeRate exchange_rate of
       RawUndefined \<Rightarrow> Inr None | RawNull \<Rightarrow> Inr None | RawEmpty \<Rightarrow> Inr None
     | RawNotFinite \<Rightarrow> Inl BadExchangeRate
     | RawFinite v \<Rightarrow> if v \<le> 0 then Inl BadExchangeRate else Inr (Some v))"

definition resolveDocumentExchangeRate ::
    "string option \<Rightarrow> raw_number \<Rightarrow> raw_number \<Rightarrow> rat \<Rightarrow> rate_error + rat option" where
  "resolveDocumentExchangeRate currency exchangeRate exchange_rate existing =
    (let cur = normalizeCurrency currency
     in if cur = ''IRR'' then Inr None
        else res_bind (parseExchangeRateInput exchangeRate exchange_rate) (\<lambda>r.
          case r of Some rate \<Rightarrow> Inr (Some rate)
          | None \<Rightarrow> if existing > 0 then Inr (Some existing) else Inl (ExchangeRateRequired cur)))"

definition stockUnitPriceInIrr ::
    "decimal_lib \<Rightarrow> rat \<Rightarrow> string option \<Rightarrow> rat \<Rightarrow> rate_error + rat" where
  "stockUnitPriceInIrr L unitPrice currency exchangeRate =
    (let cur = normalizeCurrency currency
     in if cur = ''IRR'' then Inr unitPrice
        else if \<not> exchangeRate > 0 then Inl (ExchangeRateRequired cur)
        else Inr (fin_round L (fin_multiply L unitPrice exchangeRate) 4))"

definition NET_UNIT_PRICE_SCALE :: nat where
  "NET_UNIT_PRICE_SCALE = 12"

definition netLineUnitPrice :: "decimal_lib \<Rightarrow> rat \<Rightarrow> rat \<Rightarrow> rat \<Rightarrow> rat" where
  "netLineUnitPrice L unitPrice quantity discount =
    (if \<not> quantity > 0 \<or> discount = 0 then unitPrice
     else let net = fin_subtract L (fin_multiply L quantity unitPrice) discount
          in if net < 0 then 0 else fin_quot L net quantity NET_UNIT_PRICE_SCALE)"


section \<open>Lemmas\<close>

text \<open>The amounts of the lines in exact arithmetic.\<close>

definition line_gross :: "vat_line list \<Rightarrow> rat" where
  "line_gross lines = sum_list (map (\<lambda>l. vl_quantity l * vl_unitPrice l) lines)"

definition line_discounts :: "vat_line list \<Rightarrow> rat" where
  "line_discounts lines = sum_list (map vl_discount lines)"

text \<open>Lines whose sums stay within the precision.\<close>

definition vat_lines_ok :: "vat_line list \<Rightarrow> bool" where
  "vat_lines_ok lines \<longleftrightarrow>
    (\<forall>l \<in> set lines. qty4 (vl_quantity l) \<and> money4 (vl_unitPrice l) \<and> money4 (vl_discount l) \<and>
      0 \<le> vl_quantity l * vl_unitPrice l \<and> 0 \<le> vl_discount l) \<and>
    line_gross lines < 10 ^ 21 \<and> line_discounts lines < 10 ^ 21"

lemma currencyScale_cases: "currencyScale c = 0 \<or> currencyScale c = 2"
  by (simp add: currencyScale_def Let_def)

lemma div_100_scaled: "scaled 8 x \<Longrightarrow> scaled 10 (x / 100)"
proof (elim scaledE)
  fix k assume "x * 10 ^ 8 = of_int k"
  then show ?thesis by (intro scaledI [where k = k]) simp
qed

lemma line_discounts_scaled: "\<forall>l \<in> set lines. money4 (vl_discount l) \<Longrightarrow> scaled 4 (line_discounts lines)"
  by (induction lines) (auto simp: line_discounts_def money4_def intro: scaled_add)

context decimal_js begin

lemma vat_sums_exact:
  assumes "\<forall>l \<in> set lines. qty4 (vl_quantity l) \<and> money4 (vl_unitPrice l) \<and> money4 (vl_discount l) \<and>
      0 \<le> vl_quantity l * vl_unitPrice l \<and> 0 \<le> vl_discount l"
    and "scaled 8 g" "scaled 4 d" "0 \<le> g" "0 \<le> d"
    and "g + line_gross lines < 10 ^ 21" "d + line_discounts lines < 10 ^ 21"
  shows "vat_sums L lines g d = (g + line_gross lines, d + line_discounts lines)"
  using assms
proof (induction lines arbitrary: g d)
  case Nil
  then show ?case by (simp add: line_gross_def line_discounts_def)
next
  case (Cons l lines)
  let ?a = "vl_quantity l * vl_unitPrice l" and ?b = "vl_discount l"
  from Cons.prems(1) have l: "qty4 (vl_quantity l)" "money4 (vl_unitPrice l)" "money4 ?b" "0 \<le> ?a" "0 \<le> ?b"
    by auto
  have rest: "0 \<le> line_gross lines" "0 \<le> line_discounts lines"
    using Cons.prems(1) by (auto simp: line_gross_def line_discounts_def intro!: sum_list_nonneg)
  have split: "line_gross (l # lines) = ?a + line_gross lines"
      "line_discounts (l # lines) = ?b + line_discounts lines"
    by (simp_all add: line_gross_def line_discounts_def)
  have small: "g + ?a < 10 ^ 21" "d + ?b < 10 ^ 21" using Cons.prems(6,7) rest by (auto simp: split)
  have sc: "scaled 8 ?a" "scaled 4 ?b" "scaled 8 ?b"
    using qty_money_product [OF l(1,2)] l(3) by (auto simp: money4_def intro: scaled_mono)
  have "fin_add L g ?a = g + ?a"
    by (rule add_scaled) (use Cons.prems sc small l in auto)
  moreover have "fin_add L d ?b = d + ?b"
    by (rule add_scaled) (use Cons.prems sc small l in \<open>auto intro: scaled_mono\<close>)
  moreover have "vat_sums L lines (g + ?a) (d + ?b) = (g + ?a + line_gross lines, d + ?b + line_discounts lines)"
    by (rule Cons.IH) (use Cons.prems sc l in \<open>auto simp: split intro: scaled_add\<close>)
  ultimately show ?case by (simp add: split product_exact [OF l(1,2)] ac_simps)
qed

lemma vatBaseOf_exact:
  assumes "vat_lines_ok lines"
  shows "vb_gross (vatBaseOf L lines) = half_up (line_gross lines) 4"
    "vb_discount (vatBaseOf L lines) = line_discounts lines"
    "vb_net (vatBaseOf L lines) = max 0 (half_up (line_gross lines) 4 - line_discounts lines)"
proof -
  let ?g = "half_up (line_gross lines) 4" and ?d = "line_discounts lines"
  from assms have sums: "vat_sums L lines 0 0 = (line_gross lines, ?d)"
    using vat_sums_exact [of lines 0 0] by (simp add: vat_lines_ok_def)
  have d: "scaled 4 ?d"
    using assms by (intro line_discounts_scaled) (simp add: vat_lines_ok_def)
  have nn: "0 \<le> line_gross lines" "0 \<le> ?d"
    using assms by (auto simp: vat_lines_ok_def line_gross_def line_discounts_def intro!: sum_list_nonneg)
  have "?g \<le> 10 ^ 21" using assms scaled_of_int [of 4 "10 ^ 21"]
    by (intro half_up_le) (auto simp: vat_lines_ok_def simp del: scaled_of_int)
  then have "fin_subtract L ?g ?d = ?g - ?d"
    using nn d assms half_up_nonneg [OF nn(1), of 4]
    by (intro subtract_scaled) (auto simp: vat_lines_ok_def abs_less_iff intro: scaled_mono [where a = 4])
  then show "vb_gross (vatBaseOf L lines) = ?g" "vb_discount (vatBaseOf L lines) = ?d"
      "vb_net (vatBaseOf L lines) = max 0 (?g - ?d)"
    using d by (simp_all add: vatBaseOf_def sums round_half_up scaled_diff)
qed

lemma vb_net_scaled [simp]: "scaled 4 (vb_net (vatBaseOf L lines))"
  and vb_net_nonneg [simp]: "0 \<le> vb_net (vatBaseOf L lines)"
  by (auto simp: vatBaseOf_def Let_def round_half_up half_up_nonneg split: prod.splits)

lemma percentVatOf_exact:
  assumes "money4 net" "0 \<le> net" and "scaled 4 pct" "0 < pct" "pct \<le> 100"
  shows "percentVatOf L net pct c = half_up (net * pct / 100) (currencyScale c)"
proof -
  have le: "net * pct \<le> 10 ^ 11 * 100"
    by (rule mult_mono) (use assms in \<open>auto simp: money4_def\<close>)
  have nn: "0 \<le> net * pct" using assms by simp
  have sc: "scaled 8 (net * pct)" using scaled_mult [of 4 net 4 pct] assms by (simp add: money4_def)
  have mul: "fin_multiply L net pct = net * pct"
    by (rule multiply_scaled) (use assms le nn in \<open>auto simp: money4_def\<close>)
  have "fin_quot L (net * pct) 100 12 = net * pct / 100"
    by (rule quot_exact [where s = 10]) (use div_100_scaled [OF sc] le nn in auto)
  then show ?thesis unfolding percentVatOf_def mul using assms(4) by (simp only: if_True round_half_up)
qed

lemma percentVatOf_number:
  assumes "money4 net" "0 \<le> net" "net < 10 ^ 10" and "scaled 4 pct" "0 < pct" "pct \<le> 100"
  shows "fin_toNumber L (percentVatOf L net pct c) = percentVatOf L net pct c"
    "0 \<le> percentVatOf L net pct c" "scaled 4 (percentVatOf L net pct c)"
proof -
  let ?s = "currencyScale c"
  have "net * pct \<le> 10 ^ 10 * 100" by (rule mult_mono) (use assms in auto)
  then have "net * pct / 100 \<le> of_int (10 ^ 10)" by simp
  then have hi: "half_up (net * pct / 100) ?s \<le> of_int (10 ^ 10)" by (rule half_up_le [OF scaled_of_int])
  have lo: "0 \<le> half_up (net * pct / 100) ?s" using assms by (intro half_up_nonneg) simp
  have sc: "scaled 4 (half_up (net * pct / 100) ?s)"
    by (rule scaled_mono [of ?s]) (use currencyScale_cases [of c] in auto)
  show "0 \<le> percentVatOf L net pct c" "scaled 4 (percentVatOf L net pct c)"
    using assms lo sc by (simp_all add: percentVatOf_exact)
  show "fin_toNumber L (percentVatOf L net pct c) = percentVatOf L net pct c"
    using assms lo sc hi by (simp add: percentVatOf_exact toNumber_scaled)
qed

end


text \<open>What a purchase line is worth in the stock is its net amount.\<close>

context decimal_js begin

lemma netLineUnitPrice_value:
  assumes "qty4 q" "money4 p" "money4 d" and "0 < q" "0 \<le> p" "0 \<le> d" "d \<le> q * p"
  shows "0 \<le> netLineUnitPrice L p q d" "netLineUnitPrice L p q d \<le> p"
    "\<bar>q * netLineUnitPrice L p q d - (q * p - d)\<bar> \<le> q * (1 / 2 / 10 ^ 12 + 1 / 2 / 10 ^ 18)"
proof -
  have "0 \<le> netLineUnitPrice L p q d \<and> netLineUnitPrice L p q d \<le> p \<and>
    \<bar>q * netLineUnitPrice L p q d - (q * p - d)\<bar> \<le> q * (1 / 2 / 10 ^ 12 + 1 / 2 / 10 ^ 18)"
  proof (cases "d = 0")
    case True
    with assms show ?thesis by (simp add: netLineUnitPrice_def)
  next
    case False
    have qp: "\<bar>q * p\<bar> < 10 ^ 21" "scaled 8 (q * p)" using qty_money_product [OF assms(1,2)] by auto
    have sub: "fin_subtract L (q * p) d = q * p - d"
      by (rule subtract_scaled)
        (use assms qp in \<open>auto simp: money4_def abs_less_iff intro: scaled_mono [of 4]\<close>)
    let ?n = "q * p - d"
    have v: "netLineUnitPrice L p q d = fin_quot L ?n q 12"
      using False assms sub
      by (simp add: netLineUnitPrice_def product_exact Let_def NET_UNIT_PRICE_SCALE_def)
    have up: "?n / q \<le> p" using assms by (simp add: divide_le_eq ac_simps)
    have lo: "0 \<le> ?n / q" using assms by simp
    have "scaled 12 p" "\<bar>p\<bar> < 10 ^ 15" using assms(2) by (auto simp: money4_def intro: scaled_mono [of 4])
    then have "0 \<le> fin_quot L ?n q 12 \<and> fin_quot L ?n q 12 \<le> p"
      using quot_bounds [of q 0 ?n p 12] lo up assms by simp
    moreover have "\<bar>?n / q\<bar> \<le> 10 ^ 11"
      using lo up assms(2) unfolding money4_def abs_le_iff abs_less_iff by linarith
    then have "\<bar>fin_quot L ?n q 12 - ?n / q\<bar> \<le> 1 / 2 / 10 ^ 12 + 1 / 2 / 10 ^ 18"
      using quot_error [of q ?n 12] assms by simp
    then have "q * \<bar>fin_quot L ?n q 12 - ?n / q\<bar> \<le> q * (1 / 2 / 10 ^ 12 + 1 / 2 / 10 ^ 18)"
      using assms by (intro mult_left_mono) auto
    moreover have "q * \<bar>fin_quot L ?n q 12 - ?n / q\<bar> = \<bar>q * fin_quot L ?n q 12 - ?n\<bar>"
      using assms by (simp add: field_simps flip: abs_mult_pos)
    ultimately show ?thesis by (simp add: v)
  qed
  then show "0 \<le> netLineUnitPrice L p q d" "netLineUnitPrice L p q d \<le> p"
    "\<bar>q * netLineUnitPrice L p q d - (q * p - d)\<bar> \<le> q * (1 / 2 / 10 ^ 12 + 1 / 2 / 10 ^ 18)"
    by auto
qed

lemma form_vat:
  assumes ok: "vat_lines_ok (form_lines lines)" "line_gross (form_lines lines) < 10 ^ 9"
    and pct: "scaled 4 pct" "0 < pct" "pct \<le> 100"
    and v: "v = it_vatAmount (computeInvoiceTotals L (Some (form_lines lines)) pct cur svc)"
  shows "v = percentVatOf L (computeNetAmount L lines) pct (Some cur)" "0 \<le> v" "scaled 4 v"
    "v = half_up (max 0 (half_up (line_gross (form_lines lines)) 4 - line_discounts (form_lines lines))
        * pct / 100) (currencyScale (Some cur))"
proof -
  let ?net = "vb_net (vatBaseOf L (form_lines lines))"
  have disc: "0 \<le> line_discounts (form_lines lines)"
    using ok by (auto simp: vat_lines_ok_def line_discounts_def intro!: sum_list_nonneg)
  have net: "?net = max 0 (half_up (line_gross (form_lines lines)) 4 - line_discounts (form_lines lines))"
    by (rule vatBaseOf_exact) fact
  have "half_up (line_gross (form_lines lines)) 4 \<le> 10 ^ 9"
    by (rule half_up_le) (use ok in simp_all)
  then have "?net < 10 ^ 10" using disc by (simp add: net)
  then have m: "money4 ?net" "?net < 10 ^ 10" by (auto simp: money4_def)
  note num = percentVatOf_number [OF m(1) vb_net_nonneg m(2) pct, of "Some cur"]
  show eq: "v = percentVatOf L (computeNetAmount L lines) pct (Some cur)"
    using num(1) by (simp add: v computeInvoiceTotals_def Let_def computeNetAmount_def)
  show "0 \<le> v" "scaled 4 v" using num by (simp_all add: eq computeNetAmount_def)
  show "v = half_up (max 0 (half_up (line_gross (form_lines lines)) 4 - line_discounts (form_lines lines))
        * pct / 100) (currencyScale (Some cur))"
    using percentVatOf_exact [OF m(1) vb_net_nonneg pct] by (simp add: eq computeNetAmount_def net)
qed

lemma form_vat_agrees:
  assumes doc: "doc \<in> set VAT_BEARING_DOC_TYPES"
    and ok: "vat_lines_ok (form_lines lines)" "line_gross (form_lines lines) < 10 ^ 9"
    and pct: "scaled 4 pct" "0 < pct" "pct \<le> 100"
    and v: "v = it_vatAmount (computeInvoiceTotals L (Some (form_lines lines)) pct cur svc)"
    and server: "server = (\<lambda>amount. resolveDocumentVat L \<lparr>vp_docType = doc,
      vp_input = \<lparr>vi_vatPercent = RawFinite pct, vi_vat_percent = RawUndefined,
        vi_vatAmount = amount, vi_vat_amount = RawUndefined\<rparr>,
      vp_lines = lines, vp_existing = ex, vp_linesChanged = ch, vp_currency = Some cur\<rparr>)"
  shows "server (RawFinite v) = Inr \<lparr>dvat_percent = pct, dvat_amount = v\<rparr>"
    "server RawUndefined = Inr \<lparr>dvat_percent = pct, dvat_amount = v\<rparr>"
    "0 \<le> a \<Longrightarrow> half_up a 4 \<noteq> v \<Longrightarrow> server (RawFinite a) = Inl (VatAmountMismatch v)"
  using form_vat [OF ok pct v] doc pct
  by (auto simp: server resolveDocumentVat_def parseVatInput_def vat_pick_def vat_of_percent_def
      round_half_up)

end

section \<open>Properties\<close>

text \<open>
  C2: the invoice form and the server agree on VAT. For lines within the precision and a percent
  above 0 and up to 100, the VAT the form shows is the percent of gross minus discounts (never
  below zero), rounded half-up to the smallest unit of the currency; the server accepts exactly that
  amount with the percent, computes the same amount from the percent alone, and refuses every other
  non-negative amount.
\<close>

theorem invoice_form_vat_agrees:
  assumes "decimal_js L" and "doc \<in> set VAT_BEARING_DOC_TYPES"
    and "vat_lines_ok (form_lines lines)" "line_gross (form_lines lines) < 10 ^ 9"
    and "scaled 4 pct" "0 < pct" "pct \<le> 100"
    and "v = it_vatAmount (computeInvoiceTotals L (Some (form_lines lines)) pct cur svc)"
    and "server = (\<lambda>amount. resolveDocumentVat L \<lparr>vp_docType = doc,
      vp_input = \<lparr>vi_vatPercent = RawFinite pct, vi_vat_percent = RawUndefined,
        vi_vatAmount = amount, vi_vat_amount = RawUndefined\<rparr>,
      vp_lines = lines, vp_existing = ex, vp_linesChanged = ch, vp_currency = Some cur\<rparr>)"
  shows "v = half_up (max 0 (half_up (line_gross (form_lines lines)) 4 - line_discounts (form_lines lines))
        * pct / 100) (currencyScale (Some cur)) \<and>
    server (RawFinite v) = Inr \<lparr>dvat_percent = pct, dvat_amount = v\<rparr> \<and>
    server RawUndefined = Inr \<lparr>dvat_percent = pct, dvat_amount = v\<rparr> \<and>
    (\<forall>a. 0 \<le> a \<longrightarrow> half_up a 4 \<noteq> v \<longrightarrow> server (RawFinite a) = Inl (VatAmountMismatch v))"
  using decimal_js.form_vat(4) [OF assms(1,3-8)] decimal_js.form_vat_agrees [OF assms] by blast

lemma invoice_form_vat_agrees_witness:
  "resolveDocumentVat ref_lib \<lparr>vp_docType = ''invoice'',
      vp_input = \<lparr>vi_vatPercent = RawFinite 9, vi_vat_percent = RawUndefined,
        vi_vatAmount = RawUndefined, vi_vat_amount = RawUndefined\<rparr>,
      vp_lines = [\<lparr>dv_quantity = 3, dv_unitPrice = Some 1055, dv_unit_price = None, dv_price = None,
        dv_discount = 15\<rparr>],
      vp_existing = None, vp_linesChanged = False, vp_currency = Some ''irr''\<rparr>
    = Inr \<lparr>dvat_percent = 9, dvat_amount = 284\<rparr>"
proof -
  let ?ls = "[\<lparr>dv_quantity = 3, dv_unitPrice = Some 1055, dv_unit_price = None, dv_price = None,
        dv_discount = 15\<rparr>]"
  have g: "line_gross (form_lines ?ls) = 3165" "line_discounts (form_lines ?ls) = 15"
    by (simp_all add: line_gross_def line_discounts_def form_lines_def dv_price_of_def)
  have ok: "vat_lines_ok (form_lines ?ls)" unfolding vat_lines_ok_def g
    by (simp add: form_lines_def dv_price_of_def qty4_def money4_def scaled_def)
  have c: "currencyScale (Some ''irr'') = 0" by code_simp
  have h: "half_up 3165 4 = 3165" "half_up (567 / 2) 0 = 284"
    by (simp_all add: half_up_def half_up_int_def floor_eq_iff)
  show ?thesis
    using invoice_form_vat_agrees [OF ref.decimal_js_axioms _ ok _ _ _ _ refl refl, of "''invoice''" 9 "''irr''" 0 None False]
    by (simp add: VAT_BEARING_DOC_TYPES_def VAT_DOC_TYPES_def g c h scaled_def)
qed

text \<open>
  C3: the unit cost a purchase line enters the stock with. For a line whose discount does not
  exceed its amount, the unit cost lies between zero and the line's price, and quantity times unit
  cost is the net amount of the line (the amount the ledger takes to inventory) up to half of the
  twelfth decimal per unit.
\<close>

theorem purchase_line_cost_is_net:
  assumes "decimal_js L" and "qty4 q" "money4 p" "money4 d" and "0 < q" "0 \<le> p" "0 \<le> d" "d \<le> q * p"
  shows "0 \<le> netLineUnitPrice L p q d \<and> netLineUnitPrice L p q d \<le> p \<and>
    \<bar>q * netLineUnitPrice L p q d - (q * p - d)\<bar> \<le> q * (1 / 2 / 10 ^ 12 + 1 / 2 / 10 ^ 18)"
  using decimal_js.netLineUnitPrice_value [OF assms] by blast

lemma purchase_line_cost_is_net_witness:
  "0 \<le> netLineUnitPrice ref_lib 100 3 1 \<and> netLineUnitPrice ref_lib 100 3 1 \<le> 100"
  using purchase_line_cost_is_net [OF ref.decimal_js_axioms, of 3 100 1]
  by (simp add: qty4_def money4_def scaled_def)

end
