(* ===== verification/WarehouseStock.thy ===== *)
theory WarehouseStock
  imports Decimal "HOL-Library.AList" "HOL-Library.Multiset"
begin

text \<open>
  The stock of an item in a warehouse: \<open>src/services/inventory/itemWarehouseStock.service.ts\<close>.

  The table \<open>item_warehouse_stocks\<close> has one row for each pair of item and warehouse (a unique
  index); it is the only source of stock figures, and a check constraint of the database keeps
  \<open>current_stock\<close> from going below zero. A JavaScript number is \<open>Some\<close> of a rational or, when NaN
  or infinite, \<open>None\<close>. Time stamps of rows are left out.
\<close>

record warehouse =
  wh_id :: nat
  wh_code :: string
  wh_name :: string
  wh_active :: bool

record stock_row =
  sr_item :: nat
  sr_wh :: nat
  sr_code :: string
  sr_current :: rat
  sr_reserved :: rat
  sr_version :: nat

datatype stock_error =
    NoActiveWarehouse
  | UnknownWarehouse string
  | BadQuantity
  | BadPrice
  | ItemNotFound nat
  | ItemIsDeleted nat
  | NoUnitCost nat
  | FutureDate
  | ClosedFiscalYear
  | BackdatedMovement
  | NegativeAsOfDate
  | InsufficientStock
  | WarehouseInactive nat
  | SameWarehouse
  | DocumentNotFound
  | DocumentAlreadyFinal
  | DocumentWithoutLines
  | RefusedElsewhere

datatype direction = DirIn | DirOut

definition active_warehouses :: "warehouse list \<Rightarrow> warehouse list" where
  "active_warehouses ws = sort_key wh_id (filter wh_active ws)"

text \<open>\<open>resolveWarehouse\<close>: empty is the active warehouse with the lowest id, else by code, name, id.\<close>

definition resolveWarehouse :: "warehouse list \<Rightarrow> string \<Rightarrow> stock_error + warehouse" where
  "resolveWarehouse ws raw =
    (case active_warehouses ws of
       [] \<Rightarrow> Inl NoActiveWarehouse
     | w0 # _ \<Rightarrow>
         let all = active_warehouses ws; input = js_trim raw; lower = js_lower input
         in if input = '''' then Inr w0
            else case List.find (\<lambda>w. js_lower (wh_code w) = lower) all of
              Some w \<Rightarrow> Inr w
            | None \<Rightarrow> (case List.find (\<lambda>w. js_lower (js_trim (wh_name w)) = lower) all of
                Some w \<Rightarrow> Inr w
              | None \<Rightarrow> (case List.find (\<lambda>w. show_nat (wh_id w) = input) all of
                  Some w \<Rightarrow> Inr w
                | None \<Rightarrow> Inl (UnknownWarehouse input))))"

text \<open>
  \<open>resolveWarehouseCode\<close> (\<open>src/services/inventory/warehouseResolver.ts\<close>): by code or name only; of
  warehouses with the same key the one with the highest id wins, as in the maps it builds.
\<close>

definition resolveWarehouseCode :: "warehouse list \<Rightarrow> string \<Rightarrow> stock_error + string" where
  "resolveWarehouseCode ws raw =
    (case active_warehouses ws of
       [] \<Rightarrow> Inl NoActiveWarehouse
     | w0 # _ \<Rightarrow>
         let newest = rev (active_warehouses ws); input = js_trim raw; lower = js_lower input;
             byCode = (case List.find (\<lambda>w. js_lower (wh_code w) = lower) newest of Some w \<Rightarrow> wh_code w | None \<Rightarrow> '''');
             byName = (case List.find (\<lambda>w. wh_name w \<noteq> '''' \<and> js_lower (js_trim (wh_name w)) = lower) newest of
               Some w \<Rightarrow> wh_code w | None \<Rightarrow> '''')
         in if input = '''' then Inr (wh_code w0)
            else if byCode \<noteq> '''' then Inr byCode
            else if byName \<noteq> '''' then Inr byName
            else Inl (UnknownWarehouse input))"

definition same_row :: "nat \<Rightarrow> nat \<Rightarrow> stock_row \<Rightarrow> bool" where
  "same_row item wh r \<longleftrightarrow> sr_item r = item \<and> sr_wh r = wh"

text \<open>\<open>INSERT .. ON CONFLICT DO NOTHING\<close>, then the locked row, and whether it was inserted.\<close>

definition lockOrCreateRow :: "nat \<Rightarrow> warehouse \<Rightarrow> stock_row list \<Rightarrow> stock_row list \<times> stock_row \<times> bool" where
  "lockOrCreateRow item wh rows =
    (case List.find (same_row item (wh_id wh)) rows of
       Some r \<Rightarrow> (rows, r, False)
     | None \<Rightarrow>
         let r = \<lparr>sr_item = item, sr_wh = wh_id wh, sr_code = wh_code wh, sr_current = 0,
           sr_reserved = 0, sr_version = 1\<rparr>
         in (rows @ [r], r, True))"

definition set_row_stock :: "nat \<Rightarrow> warehouse \<Rightarrow> bool \<Rightarrow> rat \<Rightarrow> stock_row list \<Rightarrow> stock_row list" where
  "set_row_stock item wh created v =
    update_rows (same_row item (wh_id wh))
      (\<lambda>r. r\<lparr>sr_current := v, sr_code := wh_code wh,
        sr_version := (if created then sr_version r else sr_version r + 1)\<rparr>)"

definition applyMovement ::
    "decimal_lib \<Rightarrow> warehouse list \<Rightarrow> nat \<Rightarrow> warehouse \<Rightarrow> direction \<Rightarrow> rat option \<Rightarrow> stock_row list
      \<Rightarrow> stock_error + stock_row list" where
  "applyMovement L ws item wh inOut quantity rows =
    (case quantity of
       None \<Rightarrow> Inl BadQuantity
     | Some qty \<Rightarrow>
         if qty \<le> 0 then Inl BadQuantity
         else if \<not> list_ex (\<lambda>w. wh_id w = wh_id wh \<and> wh_active w) ws then Inl (WarehouseInactive (wh_id wh))
         else
           let (rows1, existing, created) = lockOrCreateRow item wh rows;
               previous = sr_current existing
           in case inOut of
                DirIn \<Rightarrow> Inr (set_row_stock item wh created
                  (fin_toNumber L (fin_round L (fin_add L previous qty) 4)) rows1)
              | DirOut \<Rightarrow>
                  if previous < qty then Inl InsufficientStock
                  else Inr (set_row_stock item wh created
                    (fin_toNumber L (fin_round L (fin_subtract L previous qty) 4)) rows1))"

record stock_snapshot =
  sn_byCode :: "(string \<times> rat) list"
  sn_total :: rat

definition rows_of_item :: "warehouse list \<Rightarrow> nat \<Rightarrow> stock_row list \<Rightarrow> stock_row list" where
  "rows_of_item ws item rows =
    sort_key sr_wh (filter (\<lambda>r. sr_item r = item \<and> list_ex (\<lambda>w. wh_id w = sr_wh r) ws) rows)"

definition add_by_code :: "decimal_lib \<Rightarrow> string \<Rightarrow> rat \<Rightarrow> (string \<times> rat) list \<Rightarrow> (string \<times> rat) list" where
  "add_by_code L code v m =
    (let old = (case map_of m code of Some x \<Rightarrow> x | None \<Rightarrow> 0)
     in AList.update code (fin_toNumber L (fin_round L (fin_add L old v) 4)) m)"

definition row_value :: "decimal_lib \<Rightarrow> stock_row \<Rightarrow> rat" where
  "row_value L r = fin_toNumber L (fin_round L (sr_current r) 4)"

definition code_of_wh :: "warehouse list \<Rightarrow> nat \<Rightarrow> string" where
  "code_of_wh ws i = (case List.find (\<lambda>w. wh_id w = i) ws of Some w \<Rightarrow> wh_code w | None \<Rightarrow> '''')"

definition getStockSnapshot :: "decimal_lib \<Rightarrow> warehouse list \<Rightarrow> stock_row list \<Rightarrow> nat \<Rightarrow> stock_snapshot" where
  "getStockSnapshot L ws rows item =
    (let rs = rows_of_item ws item rows
     in \<lparr>sn_byCode = fold (\<lambda>r. add_by_code L (code_of_wh ws (sr_wh r)) (row_value L r)) rs [],
         sn_total = fin_toNumber L (fin_round L (foldl (fin_add L) 0 (map (row_value L) rs)) 4)\<rparr>)"

text \<open>\<open>setItemWarehouseStocks\<close>: the Kardex rebuild sets every warehouse of the item, absent ones to zero.\<close>

definition set_one_stock :: "decimal_lib \<Rightarrow> warehouse list \<Rightarrow> nat \<Rightarrow> (nat \<times> rat) list \<Rightarrow> nat
    \<Rightarrow> stock_row list \<Rightarrow> stock_row list" where
  "set_one_stock L ws item qtys whId rows =
    (case List.find (\<lambda>w. wh_id w = whId) ws of
       None \<Rightarrow> rows
     | Some wh \<Rightarrow>
         let v = fin_toNumber L (fin_round L (case map_of qtys whId of Some q \<Rightarrow> q | None \<Rightarrow> 0) 4);
             (rows1, existing, created) = lockOrCreateRow item wh rows
         in set_row_stock item wh created v rows1)"

definition setItemWarehouseStocks ::
    "decimal_lib \<Rightarrow> warehouse list \<Rightarrow> nat \<Rightarrow> (nat \<times> rat) list \<Rightarrow> stock_row list
      \<Rightarrow> stock_error + stock_row list" where
  "setItemWarehouseStocks L ws item qtys rows =
    (if list_ex (\<lambda>(w, q). q < 0) qtys then Inl BadQuantity
     else
       let existing = map sr_wh (filter (\<lambda>r. sr_item r = item) rows);
           targets = sort (remdups (map fst qtys @ existing))
       in Inr (fold (set_one_stock L ws item qtys) targets rows))"


section \<open>Abstract view: the stock of each pair and the total of each item\<close>

definition stock_of :: "stock_row list \<Rightarrow> nat \<Rightarrow> nat \<Rightarrow> rat" where
  "stock_of rows item wh = (case List.find (same_row item wh) rows of Some r \<Rightarrow> sr_current r | None \<Rightarrow> 0)"

definition item_total :: "stock_row list \<Rightarrow> nat \<Rightarrow> rat" where
  "item_total rows item = sum_list (map sr_current (filter (\<lambda>r. sr_item r = item) rows))"

definition row_key :: "stock_row \<Rightarrow> nat \<times> nat" where
  "row_key r = (sr_item r, sr_wh r)"

text \<open>The unique index, the check constraint, four decimals, and the foreign key to a warehouse.\<close>

definition stock_rows_ok :: "warehouse list \<Rightarrow> stock_row list \<Rightarrow> bool" where
  "stock_rows_ok ws rows \<longleftrightarrow> distinct (map row_key rows) \<and>
    (\<forall>r \<in> set rows. scaled 4 (sr_current r) \<and> 0 \<le> sr_current r \<and> list_ex (\<lambda>w. wh_id w = sr_wh r) ws)"

lemma same_row_key: "same_row item wh r \<longleftrightarrow> row_key r = (item, wh)"
  by (auto simp: same_row_def row_key_def)

lemma stock_rows_ok_Nil [simp]: "stock_rows_ok ws []"
  by (simp add: stock_rows_ok_def)

lemma item_total_Nil [simp]: "item_total [] item = 0"
  by (simp add: item_total_def)

lemma stock_of_nonneg: "stock_rows_ok ws rows \<Longrightarrow> 0 \<le> stock_of rows item wh"
  by (auto simp: stock_of_def stock_rows_ok_def split: option.splits dest: find_SomeD)

lemma stock_of_scaled: "stock_rows_ok ws rows \<Longrightarrow> scaled 4 (stock_of rows item wh)"
  by (auto simp: stock_of_def stock_rows_ok_def split: option.splits dest: find_SomeD)

lemma stock_of_le_total:
  assumes "stock_rows_ok ws rows"
  shows "stock_of rows item wh \<le> item_total rows item"
proof (cases "List.find (same_row item wh) rows")
  case None
  then show ?thesis using assms
    by (auto simp: stock_of_def item_total_def stock_rows_ok_def intro!: sum_list_nonneg)
next
  case (Some r)
  then have "r \<in> set rows" "sr_item r = item" by (auto dest: find_SomeD simp: same_row_def)
  then have "sr_current r \<in> set (map sr_current (filter (\<lambda>r. sr_item r = item) rows))" by auto
  then have "sr_current r \<le> sum_list (map sr_current (filter (\<lambda>r. sr_item r = item) rows))"
    using assms by (intro member_le_sum_list) (auto simp: stock_rows_ok_def)
  with Some show ?thesis by (simp add: stock_of_def item_total_def)
qed

lemma item_total_nonneg: "stock_rows_ok ws rows \<Longrightarrow> 0 \<le> item_total rows item"
  by (auto simp: item_total_def stock_rows_ok_def intro!: sum_list_nonneg)

lemma item_total_scaled: "stock_rows_ok ws rows \<Longrightarrow> scaled 4 (item_total rows item)"
  by (induction rows) (auto simp: item_total_def stock_rows_ok_def intro!: scaled_add)

text \<open>After \<open>lockOrCreateRow\<close> the row exists and no stock has changed.\<close>

lemma lockOrCreateRow_spec:
  assumes "lockOrCreateRow item wh rows = (rows1, r, created)"
    and "stock_rows_ok ws rows" and "list_ex (\<lambda>w. wh_id w = wh_id wh) ws"
  shows "stock_rows_ok ws rows1" "List.find (same_row item (wh_id wh)) rows1 = Some r"
    "stock_of rows1 = stock_of rows" "item_total rows1 = item_total rows"
    "sr_current r = stock_of rows item (wh_id wh)"
proof -
  have "stock_rows_ok ws rows1 \<and> List.find (same_row item (wh_id wh)) rows1 = Some r \<and>
    stock_of rows1 = stock_of rows \<and> item_total rows1 = item_total rows \<and>
    sr_current r = stock_of rows item (wh_id wh)"
  proof (cases "List.find (same_row item (wh_id wh)) rows")
    case (Some q)
    with assms show ?thesis by (simp add: lockOrCreateRow_def stock_of_def)
  next
    case None
    let ?r = "\<lparr>sr_item = item, sr_wh = wh_id wh, sr_code = wh_code wh, sr_current = 0,
           sr_reserved = 0, sr_version = 1\<rparr>"
    have r: "rows1 = rows @ [?r]" "r = ?r" using None assms(1) by (auto simp: lockOrCreateRow_def Let_def)
    have new: "row_key ?r \<notin> row_key ` set rows"
      using None by (auto simp: find_None_iff_set same_row_key row_key_def)
    show ?thesis using assms(2,3) None new
      by (auto simp: r find_append stock_rows_ok_def stock_of_def item_total_def same_row_def row_key_def fun_eq_iff
          split: option.splits)
  qed
  then show "stock_rows_ok ws rows1" "List.find (same_row item (wh_id wh)) rows1 = Some r"
    "stock_of rows1 = stock_of rows" "item_total rows1 = item_total rows"
    "sr_current r = stock_of rows item (wh_id wh)" by auto
qed

lemma set_row_stock_Nil [simp]: "set_row_stock item wh c v [] = []"
  by (simp add: set_row_stock_def)

lemma set_row_stock_Cons:
  "set_row_stock item wh c v (r # rows) =
    (if same_row item (wh_id wh) r
     then r\<lparr>sr_current := v, sr_code := wh_code wh, sr_version := (if c then sr_version r else sr_version r + 1)\<rparr>
     else r) # set_row_stock item wh c v rows"
  by (simp add: set_row_stock_def update_rows_def)

lemma set_row_stock_absent:
  "List.find (same_row item (wh_id wh)) rows = None \<Longrightarrow> set_row_stock item wh c v rows = rows"
  by (simp add: set_row_stock_def find_None_iff_set update_rows_none)

lemma set_row_stock_keys [simp]: "map row_key (set_row_stock item wh c v rows) = map row_key rows"
  by (simp add: set_row_stock_def map_update_rows row_key_def)

lemma set_row_stock_ok:
  assumes "stock_rows_ok ws rows" "scaled 4 v" "0 \<le> v"
  shows "stock_rows_ok ws (set_row_stock item wh c v rows)"
  using assms unfolding stock_rows_ok_def set_row_stock_keys
  by (auto simp: set_row_stock_def in_update_rows)

lemma same_row_upd [simp]:
  "same_row i w (r\<lparr>sr_current := v, sr_code := c, sr_version := n\<rparr>) = same_row i w r"
  by (simp add: same_row_def)

lemma same_row_unique: "same_row i w r \<Longrightarrow> same_row i' w' r \<Longrightarrow> i' = i \<and> w' = w"
  by (simp add: same_row_def)

lemma set_row_stock_find:
  "map_option sr_current (List.find (same_row i w) (set_row_stock item wh c v rows)) =
    (if i = item \<and> w = wh_id wh then map_option (\<lambda>_. v) (List.find (same_row i w) rows)
     else map_option sr_current (List.find (same_row i w) rows))"
  by (induction rows) (auto simp: set_row_stock_Cons dest: same_row_unique)

lemma stock_of_map_option:
  "stock_of rows i w = (case map_option sr_current (List.find (same_row i w) rows) of Some x \<Rightarrow> x | None \<Rightarrow> 0)"
  by (simp add: stock_of_def option.case_eq_if option.map_sel)

lemma set_row_stock_stock:
  assumes "List.find (same_row item (wh_id wh)) rows = Some r"
  shows "stock_of (set_row_stock item wh c v rows) i w =
    (if i = item \<and> w = wh_id wh then v else stock_of rows i w)"
  using assms by (auto simp: stock_of_map_option set_row_stock_find)

lemma set_row_stock_total:
  assumes "List.find (same_row item (wh_id wh)) rows = Some r" and "distinct (map row_key rows)"
  shows "item_total (set_row_stock item wh c v rows) i =
    item_total rows i + (if i = item then v - sr_current r else 0)"
  using assms
proof (induction rows)
  case (Cons q rows)
  show ?case
  proof (cases "same_row item (wh_id wh) q")
    case True
    with Cons.prems have "List.find (same_row item (wh_id wh)) rows = None"
      by (force simp: find_None_iff_set same_row_key)
    with True Cons.prems show ?thesis
      by (auto simp: set_row_stock_Cons set_row_stock_absent item_total_def same_row_def)
  next
    case False
    with Cons show ?thesis by (auto simp: set_row_stock_Cons item_total_def)
  qed
qed simp


section \<open>The interface of the stock table\<close>

text \<open>
  What the callers of \<open>applyMovement\<close> rely on: a movement that succeeds changes the total of its
  item by its quantity and no other total, it keeps the table's invariant, and it takes no more out
  of a warehouse than the warehouse holds.
\<close>

locale stock_store =
  fixes move :: "nat \<Rightarrow> 'w \<Rightarrow> direction \<Rightarrow> rat \<Rightarrow> 's \<Rightarrow> 'e + 's"
    and total :: "'s \<Rightarrow> nat \<Rightarrow> rat"
    and held :: "'s \<Rightarrow> nat \<Rightarrow> 'w \<Rightarrow> rat"
    and inv :: "'s \<Rightarrow> bool"
    and bound :: rat
  assumes move_inv: "inv s \<Longrightarrow> scaled 4 q \<Longrightarrow> total s i + q < bound \<Longrightarrow> move i w d q s = Inr s' \<Longrightarrow> inv s'"
    and move_total: "inv s \<Longrightarrow> scaled 4 q \<Longrightarrow> total s i + q < bound \<Longrightarrow> move i w d q s = Inr s' \<Longrightarrow>
      total s' j = (if j = i then (case d of DirIn \<Rightarrow> total s i + q | DirOut \<Rightarrow> total s i - q) else total s j)"
    and move_positive: "move i w d q s = Inr s' \<Longrightarrow> 0 < q"
    and move_covered: "inv s \<Longrightarrow> move i w DirOut q s = Inr s' \<Longrightarrow> q \<le> held s i w"
    and held_le_total: "inv s \<Longrightarrow> held s i w \<le> total s i"
    and total_nonneg: "inv s \<Longrightarrow> 0 \<le> total s i"
begin

text \<open>A transfer between warehouses moves nothing in total.\<close>

lemma transfer_total:
  assumes "inv s" "scaled 4 q" "total s i + q < bound"
    and "move i v DirOut q s = Inr t" "move i w DirIn q t = Inr s'"
  shows "inv s'" "total s' j = total s j"
proof -
  have t: "inv t" "total t k = (if k = i then total s i - q else total s k)" for k
    using move_inv [OF assms(1-4)] move_total [OF assms(1-4)] by auto
  have "0 < q" using move_positive assms(4) by blast
  then have b: "total t i + q < bound" using t(2) [of i] assms(3) by simp
  show "inv s'" using move_inv [OF t(1) assms(2) b assms(5)] .
  show "total s' j = total s j" using move_total [OF t(1) assms(2) b assms(5)] t(2) by simp
qed

end

context decimal_js begin

lemma applyMovement_spec:
  assumes mv: "applyMovement L ws item wh d (Some q) rows = Inr rows'"
    and ok: "stock_rows_ok ws rows" and q: "scaled 4 q" and small: "item_total rows item + q < 10 ^ 11"
  shows "0 < q" "stock_rows_ok ws rows'"
    "stock_of rows' i w = (if i = item \<and> w = wh_id wh
      then (case d of DirIn \<Rightarrow> stock_of rows i w + q | DirOut \<Rightarrow> stock_of rows i w - q) else stock_of rows i w)"
    "item_total rows' i = (if i = item
      then (case d of DirIn \<Rightarrow> item_total rows i + q | DirOut \<Rightarrow> item_total rows i - q) else item_total rows i)"
    "d = DirOut \<Longrightarrow> q \<le> stock_of rows item (wh_id wh)"
proof -
  obtain rows1 r created where lc: "lockOrCreateRow item wh rows = (rows1, r, created)"
    by (metis prod_cases3)
  from mv have pos: "0 < q" and act: "list_ex (\<lambda>w. wh_id w = wh_id wh) ws"
    by (auto simp: applyMovement_def list_ex_iff split: if_splits)
  note L1 = lockOrCreateRow_spec [OF lc ok act]
  let ?p = "stock_of rows item (wh_id wh)"
  let ?v = "case d of DirIn \<Rightarrow> ?p + q | DirOut \<Rightarrow> ?p - q"
  have p: "scaled 4 ?p" "0 \<le> ?p" "?p \<le> item_total rows item"
    using stock_of_scaled [OF ok] stock_of_nonneg [OF ok] stock_of_le_total [OF ok] by auto
  have v4: "scaled 4 (?p + q)" "scaled 4 (?p - q)" using p q by (auto intro: scaled_add scaled_diff)
  have "\<bar>?p + q\<bar> < 10 ^ 11" "\<bar>?p - q\<bar> < 10 ^ 11" using p pos small by auto
  then have plus: "fin_toNumber L (fin_round L (fin_add L ?p q) 4) = ?p + q"
    and minus: "fin_toNumber L (fin_round L (fin_subtract L ?p q) 4) = ?p - q"
    using p(1) q v4 by (simp_all add: add_scaled4 subtract_scaled4 number_round4)
  have rows': "rows' = set_row_stock item wh created ?v rows1" and le: "d = DirOut \<Longrightarrow> q \<le> ?p"
    using mv pos by (auto simp: applyMovement_def lc Let_def L1(5) plus minus split: if_splits direction.splits)
  show "0 < q" by fact
  show "d = DirOut \<Longrightarrow> q \<le> stock_of rows item (wh_id wh)" by fact
  show "stock_rows_ok ws rows'"
    unfolding rows' by (rule set_row_stock_ok [OF L1(1)]) (use v4 p pos le in \<open>auto split: direction.splits\<close>)
  show "stock_of rows' i w = (if i = item \<and> w = wh_id wh
      then (case d of DirIn \<Rightarrow> stock_of rows i w + q | DirOut \<Rightarrow> stock_of rows i w - q) else stock_of rows i w)"
    unfolding rows' set_row_stock_stock [OF L1(2)] by (auto simp: L1(3))
  show "item_total rows' i = (if i = item
      then (case d of DirIn \<Rightarrow> item_total rows i + q | DirOut \<Rightarrow> item_total rows i - q) else item_total rows i)"
    using L1(1) unfolding rows' stock_rows_ok_def
    by (subst set_row_stock_total [OF L1(2)]) (auto simp: L1(4,5) split: direction.splits)
qed

end

lemma applyMovement_positive: "applyMovement L ws item wh d q rows = Inr rows' \<Longrightarrow> \<exists>x. q = Some x \<and> 0 < x"
  by (auto simp: applyMovement_def split: option.splits if_splits)

lemma applyMovement_covered:
  assumes "applyMovement L ws item wh DirOut (Some q) rows = Inr rows'" "stock_rows_ok ws rows"
  shows "q \<le> stock_of rows item (wh_id wh)"
proof -
  obtain rows1 r created where lc: "lockOrCreateRow item wh rows = (rows1, r, created)"
    by (metis prod_cases3)
  from assms(1) have "list_ex (\<lambda>w. wh_id w = wh_id wh) ws"
    by (auto simp: applyMovement_def list_ex_iff split: if_splits)
  from lockOrCreateRow_spec(5) [OF lc assms(2) this] assms(1) show ?thesis
    by (auto simp: applyMovement_def lc Let_def split: if_splits)
qed

sublocale decimal_js \<subseteq> store: stock_store "\<lambda>i w d q. applyMovement L ws i w d (Some q)" item_total
  "\<lambda>rows i w. stock_of rows i (wh_id w)" "stock_rows_ok ws" "10 ^ 11" for ws
proof unfold_locales
  fix s q i w d s' j
  assume a: "stock_rows_ok ws s" "scaled 4 q" "item_total s i + q < 10 ^ 11"
    "applyMovement L ws i w d (Some q) s = Inr s'"
  show "stock_rows_ok ws s'" by (rule applyMovement_spec(2) [OF a(4,1,2,3)])
  show "item_total s' j = (if j = i then (case d of DirIn \<Rightarrow> item_total s i + q | DirOut \<Rightarrow> item_total s i - q)
      else item_total s j)"
    using applyMovement_spec(4) [OF a(4,1,2,3), of j] by auto
next
  fix i w d q s s' assume "applyMovement L ws i w d (Some q) s = Inr s'"
  then show "0 < q" by (auto dest: applyMovement_positive)
qed (auto intro: applyMovement_covered stock_of_le_total item_total_nonneg)


section \<open>Snapshots read the table exactly\<close>

lemma rows_of_item_ok:
  assumes "stock_rows_ok ws rows"
  shows "mset (rows_of_item ws item rows) = mset (filter (\<lambda>r. sr_item r = item) rows)"
proof -
  have "filter (\<lambda>r. sr_item r = item \<and> list_ex (\<lambda>w. wh_id w = sr_wh r) ws) rows
      = filter (\<lambda>r. sr_item r = item) rows"
    by (rule filter_cong) (use assms in \<open>auto simp: stock_rows_ok_def\<close>)
  then show ?thesis by (simp add: rows_of_item_def)
qed

lemma sum_list_mset_eq: "mset xs = mset ys \<Longrightarrow> sum_list (map f xs) = sum_list (map f ys :: rat list)"
  by (metis mset_map sum_mset_sum_list)

context decimal_js begin

lemma foldl_add_exact:
  assumes "\<forall>x \<in> set xs. scaled 4 x \<and> 0 \<le> x" "scaled 4 a" "0 \<le> a" "a + sum_list xs < 10 ^ 11"
  shows "foldl (fin_add L) a xs = a + sum_list xs"
  using assms
proof (induction xs arbitrary: a)
  case (Cons x xs)
  have rest: "0 \<le> sum_list xs" using Cons.prems(1) by (auto intro!: sum_list_nonneg)
  have "fin_add L a x = a + x"
    by (rule add_scaled4) (use Cons.prems rest in auto)
  moreover have "foldl (fin_add L) (a + x) xs = a + x + sum_list xs"
    by (rule Cons.IH) (use Cons.prems rest in \<open>auto intro: scaled_add\<close>)
  ultimately show ?case by (simp add: ac_simps)
qed simp

lemma snapshot_total:
  assumes ok: "stock_rows_ok ws rows" and small: "item_total rows item < 10 ^ 11"
  shows "sn_total (getStockSnapshot L ws rows item) = item_total rows item"
proof -
  let ?rs = "rows_of_item ws item rows"
  have ms: "mset ?rs = mset (filter (\<lambda>r. sr_item r = item) rows)" by (rule rows_of_item_ok [OF ok])
  then have set: "set ?rs = {r \<in> set rows. sr_item r = item}" by (metis set_filter set_mset_mset)
  have sum: "sum_list (map sr_current ?rs) = item_total rows item"
    unfolding item_total_def by (rule sum_list_mset_eq [OF ms])
  have val: "row_value L r = sr_current r" if "r \<in> set ?rs" for r
  proof -
    from that set have r: "r \<in> set rows" "sr_item r = item" by auto
    then have "sr_current r \<le> item_total rows item"
      unfolding item_total_def using ok
      by (intro member_le_sum_list) (auto simp: stock_rows_ok_def)
    with r ok small show ?thesis unfolding row_value_def
      by (intro number_round4) (auto simp: stock_rows_ok_def)
  qed
  then have vals: "map (row_value L) ?rs = map sr_current ?rs" by (intro map_cong) auto
  have "foldl (fin_add L) 0 (map sr_current ?rs) = 0 + sum_list (map sr_current ?rs)"
    by (rule foldl_add_exact) (use ok set sum small in \<open>auto simp: stock_rows_ok_def\<close>)
  then have "sn_total (getStockSnapshot L ws rows item)
      = fin_toNumber L (fin_round L (item_total rows item) 4)"
    unfolding getStockSnapshot_def Let_def stock_snapshot.simps vals by (simp add: sum)
  also have "\<dots> = item_total rows item"
    using item_total_scaled [OF ok] item_total_nonneg [OF ok, of item] small
    by (intro number_round4) auto
  finally show ?thesis .
qed

end

end
