(* ===== verification/Kardex.thy ===== *)
theory Kardex
  imports WarehouseStock
begin

text \<open>
  The Kardex, the ledger of stock movements (table \<open>transactions\<close>), and its replay:
  \<open>src/services/inventory/kardexReplay.ts\<close> recomputes balance and weighted average cost of an item
  from its rows in the order they were recorded, for the repair tool and the health report.

  \<open>kaction\<close> is the abstract effect of a row on the pair of balance and cost; \<open>kaction_of\<close> reads it
  off the row, and \<open>kstep\<close> executes it. The live stock engine is proved against the same steps.
\<close>

datatype kardex_type = KTin | KTout | KTtransferIn | KTtransferOut | KTother string

record kardex_row =
  kx_id :: nat
  kx_item :: nat
  kx_doc :: "nat option"
  kx_type :: kardex_type
  kx_qty :: rat
  kx_price :: "rat option"
  kx_total :: rat
  kx_day :: int
  kx_docType :: "string option"
  kx_docRef :: "string option"
  kx_location :: string
  kx_reversalOf :: "nat option"
  kx_deleted :: bool

definition isInType :: "kardex_type \<Rightarrow> bool" where
  "isInType t \<longleftrightarrow> t = KTin \<or> t = KTtransferIn"

definition isOutType :: "kardex_type \<Rightarrow> bool" where
  "isOutType t \<longleftrightarrow> t = KTout \<or> t = KTtransferOut"

section \<open>The replay\<close>

definition activelyReversed :: "kardex_row list \<Rightarrow> nat \<Rightarrow> bool" where
  "activelyReversed rows i \<longleftrightarrow> list_ex (\<lambda>r. \<not> kx_deleted r \<and> kx_reversalOf r = Some i) rows"

definition kardex_byId :: "kardex_row list \<Rightarrow> nat \<Rightarrow> kardex_row option" where
  "kardex_byId rows i = List.find (\<lambda>r. kx_id r = i) rows"

definition kardex_counts :: "kardex_row list \<Rightarrow> kardex_row \<Rightarrow> bool" where
  "kardex_counts rows row =
    (if \<not> isInType (kx_type row) \<and> \<not> isOutType (kx_type row) then False
     else if kx_deleted row \<and> \<not> activelyReversed rows (kx_id row) then False
     else \<not> (kx_deleted row \<and> kx_reversalOf row \<noteq> None))"

definition REV_PREFIX :: string where
  "REV_PREFIX = ''REV-''"

definition opt_string :: "string option \<Rightarrow> string" where
  "opt_string s = (case s of None \<Rightarrow> '''' | Some x \<Rightarrow> x)"

definition kardex_original :: "kardex_row list \<Rightarrow> kardex_row \<Rightarrow> kardex_row option" where
  "kardex_original rows row = Option.bind (kx_reversalOf row) (kardex_byId rows)"

definition kardex_quantityOnly :: "kardex_row list \<Rightarrow> kardex_row \<Rightarrow> bool" where
  "kardex_quantityOnly rows row \<longleftrightarrow>
    (kx_reversalOf row \<noteq> None \<and>
      (case kardex_original rows row of Some o1 \<Rightarrow> \<not> kx_deleted o1 | None \<Rightarrow> True)) \<or>
    starts_with REV_PREFIX (opt_string (kx_docRef row)) \<or>
    kx_docType row = Some ''transfer''"

definition kardex_price :: "kardex_row \<Rightarrow> rat" where
  "kardex_price row = (case kx_price row of None \<Rightarrow> 0 | Some p \<Rightarrow> p)"

definition kardex_apply :: "decimal_lib \<Rightarrow> kardex_row list \<Rightarrow> kardex_row \<Rightarrow> rat \<times> rat \<Rightarrow> (rat \<times> rat) option" where
  "kardex_apply L rows row st =
    (let (balance, wac) = st in
     if \<not> kardex_counts rows row then None
     else
       let isIn = isInType (kx_type row); qty = kx_qty row; unitPrice = kardex_price row
       in if (case kardex_original rows row of
              Some o1 \<Rightarrow> kx_deleted o1 \<and> kx_docType o1 \<noteq> Some ''transfer'' | None \<Rightarrow> False)
          then
            if \<not> isIn then
              let newBalance = fin_subtract L balance qty;
                  remainingValue = fin_subtract L (fin_multiply L balance wac) (fin_multiply L qty unitPrice);
                  wac' = (if newBalance > 0 \<and> \<not> remainingValue < 0
                    then fin_round L (fin_quot L remainingValue newBalance 4) 4 else wac)
              in Some (newBalance, wac')
            else Some (fin_add L balance qty, calculateWAC L balance wac qty unitPrice)
          else if isIn then
            Some (fin_add L balance qty,
              if kardex_quantityOnly rows row then wac else calculateWAC L balance wac qty unitPrice)
          else Some (fin_subtract L balance qty, wac))"

record kardex_result =
  kr_balance :: rat
  kr_wac :: rat
  kr_firstNegative :: "nat option"
  kr_minimum :: rat

fun replay_loop :: "decimal_lib \<Rightarrow> kardex_row list \<Rightarrow> kardex_row list \<Rightarrow> kardex_result \<Rightarrow> kardex_result" where
  "replay_loop L rows [] acc = acc"
| "replay_loop L rows (row # rest) acc =
    (case kardex_apply L rows row (kr_balance acc, kr_wac acc) of
       None \<Rightarrow> replay_loop L rows rest acc
     | Some (b, w) \<Rightarrow> replay_loop L rows rest
         \<lparr>kr_balance = b, kr_wac = w,
          kr_firstNegative = (if b < 0 \<and> kr_firstNegative acc = None then Some (kx_id row) else kr_firstNegative acc),
          kr_minimum = (if b < kr_minimum acc then b else kr_minimum acc)\<rparr>)"

definition replayKardexWac :: "decimal_lib \<Rightarrow> kardex_row list \<Rightarrow> rat \<Rightarrow> kardex_result" where
  "replayKardexWac L rows fallbackWac =
    (let sorted = sort_key kx_id rows;
         res = replay_loop L sorted sorted
           \<lparr>kr_balance = 0, kr_wac = 0, kr_firstNegative = None, kr_minimum = 0\<rparr>
     in if kr_wac res \<le> 0 then res\<lparr>kr_wac := fallbackWac\<rparr> else res)"

definition KARDEX_WAC_TOLERANCE :: rat where
  "KARDEX_WAC_TOLERANCE = 1 / 100"

definition wacDiffersFromReplay :: "decimal_lib \<Rightarrow> rat \<Rightarrow> rat \<Rightarrow> rat \<Rightarrow> bool" where
  "wacDiffersFromReplay L liveWac replayWac stock \<longleftrightarrow>
    stock > 0 \<and> \<bar>fin_subtract L liveWac replayWac\<bar> > KARDEX_WAC_TOLERANCE"

section \<open>The effect of a row\<close>

datatype kaction = KIn rat rat | KQtyIn rat | KOut rat | KVoidIn rat rat | KVoidOut rat rat

text \<open>The cost after the value of a voided receipt is taken back out.\<close>

definition void_in_wac :: "decimal_lib \<Rightarrow> rat \<Rightarrow> rat \<Rightarrow> rat \<Rightarrow> rat \<Rightarrow> rat \<Rightarrow> rat" where
  "void_in_wac L oldTotal newTotal wac qty unitPrice =
    (let remaining = fin_subtract L (fin_multiply L oldTotal wac) (fin_multiply L qty unitPrice)
     in if newTotal > 0 \<and> \<not> remaining < 0 then fin_round L (fin_quot L remaining newTotal 4) 4 else wac)"

fun kstep :: "decimal_lib \<Rightarrow> kaction \<Rightarrow> rat \<times> rat \<Rightarrow> rat \<times> rat" where
  "kstep L (KIn q p) (b, w) = (fin_add L b q, calculateWAC L b w q p)"
| "kstep L (KQtyIn q) (b, w) = (fin_add L b q, w)"
| "kstep L (KOut q) (b, w) = (fin_subtract L b q, w)"
| "kstep L (KVoidIn q p) (b, w) = (let nb = fin_subtract L b q in (nb, void_in_wac L b nb w q p))"
| "kstep L (KVoidOut q p) (b, w) = (fin_add L b q, calculateWAC L b w q p)"

definition kaction_of :: "kardex_row list \<Rightarrow> kardex_row \<Rightarrow> kaction option" where
  "kaction_of rows row =
    (if \<not> kardex_counts rows row then None
     else Some (
       let isIn = isInType (kx_type row); q = kx_qty row; p = kardex_price row
       in if (case kardex_original rows row of
              Some o1 \<Rightarrow> kx_deleted o1 \<and> kx_docType o1 \<noteq> Some ''transfer'' | None \<Rightarrow> False)
          then (if isIn then KVoidOut q p else KVoidIn q p)
          else if isIn then (if kardex_quantityOnly rows row then KQtyIn q else KIn q p)
          else KOut q))"

lemma kardex_apply_kstep:
  "kardex_apply L rows row st = map_option (\<lambda>a. kstep L a st) (kaction_of rows row)"
  by (cases st) (auto simp: kardex_apply_def kaction_of_def void_in_wac_def Let_def)

definition kardex_actions :: "kardex_row list \<Rightarrow> kardex_row list \<Rightarrow> kaction list" where
  "kardex_actions rows rs = List.map_filter (kaction_of rows) rs"

definition kfold :: "decimal_lib \<Rightarrow> kaction list \<Rightarrow> rat \<times> rat \<Rightarrow> rat \<times> rat" where
  "kfold L as st = fold (kstep L) as st"

lemma kardex_actions_simps [simp]:
  "kardex_actions rows [] = []"
  "kardex_actions rows (r # rs) =
    (case kaction_of rows r of None \<Rightarrow> kardex_actions rows rs | Some a \<Rightarrow> a # kardex_actions rows rs)"
  by (auto simp: kardex_actions_def List.map_filter_def split: option.splits)

lemma kardex_actions_append: "kardex_actions rows (xs @ ys) = kardex_actions rows xs @ kardex_actions rows ys"
  by (simp add: kardex_actions_def List.map_filter_def)

lemma replay_loop_kfold:
  "(kr_balance (replay_loop L rows rs acc), kr_wac (replay_loop L rows rs acc)) =
    kfold L (kardex_actions rows rs) (kr_balance acc, kr_wac acc)"
  by (induction rs arbitrary: acc)
    (auto simp: kfold_def kardex_apply_kstep split: option.splits prod.splits)

end
