(* ===== verification/StockEngine.thy ===== *)
theory StockEngine
  imports Kardex Vat
begin

text \<open>
  The live stock engine: a movement and its reversal
  (\<open>src/services/documents/documentStockEngine.service.ts\<close>), the rule on movement dates
  (\<open>src/services/inventory/stockMovementDate.ts\<close>), the transfer between warehouses
  (\<open>src/services/inventory/inventoryStockRepair.service.ts\<close>), and the stock part of finalizing and
  voiding a document (\<open>src/services/documents/documentLifecycle.service.ts\<close>).

  A date is the number of its day; \<open>None\<close> is an empty date. Each operation runs in one database
  transaction that holds the item's lock, so it is a function on the whole state; an error leaves the
  state as it was. \<open>stock_env\<close> holds what other components answer: the clock, the open fiscal years,
  document numbers, the terms a return takes from its invoice, and \<open>se_check\<close>, the checks of the
  components that may refuse the operation (reservations, returns, treasury rows, closed years, linked
  leads and parties). Vouchers, workflow, notes and audit rows are left out.
\<close>

section \<open>State\<close>

record item_row =
  im_wac :: rat
  im_version :: nat
  im_deleted :: bool
  im_type :: string
  im_code :: string

record stock_event =
  ev_received :: bool
  ev_item :: nat
  ev_qty :: rat
  ev_unitPrice :: rat
  ev_warehouse :: string
  ev_previous :: rat
  ev_new :: rat
  ev_docType :: string
  ev_docRef :: string

record doc_line =
  ln_item :: nat
  ln_qty :: rat
  ln_unitPrice :: rat
  ln_discount :: rat
  ln_location :: string

record doc_row =
  dc_type :: string
  dc_status :: string
  dc_ref :: string
  dc_day :: int
  dc_currency :: "string option"
  dc_rate :: rat
  dc_lines :: "doc_line list"
  dc_deleted :: bool
  dc_returnOf :: "nat option"
  dc_vat :: document_vat
  dc_version :: nat

record stock_db =
  db_warehouses :: "warehouse list"
  db_items :: "nat \<Rightarrow> item_row option"
  db_docs :: "nat \<Rightarrow> doc_row option"
  db_stocks :: "stock_row list"
  db_kardex :: "kardex_row list"
  db_nextTx :: nat
  db_events :: "stock_event list"

datatype outer_check = CheckFinalize | CheckVoid | CheckTransfer

record stock_env =
  se_today :: int
  se_yearOpen :: "int \<Rightarrow> bool"
  se_check :: "outer_check \<Rightarrow> nat \<Rightarrow> stock_db \<Rightarrow> bool"
  se_nextRef :: "string \<Rightarrow> string"
  se_dayRef :: "nat \<Rightarrow> string option"
  se_returnRate :: "nat \<Rightarrow> raw_number"
  se_returnVat :: "nat \<Rightarrow> document_vat option"

section \<open>The rule on movement dates\<close>

text \<open>\<open>LEDGER_ROW_FILTER\<close>: rows that are movements, without voided rows and their reversals.\<close>

definition ledger_row :: "kardex_row list \<Rightarrow> kardex_row \<Rightarrow> bool" where
  "ledger_row rows t \<longleftrightarrow> \<not> kx_deleted t \<and>
    \<not> list_ex (\<lambda>r. Some (kx_id r) = kx_reversalOf t \<and> kx_deleted r) rows"

definition lastStockMovementDay :: "kardex_row list \<Rightarrow> nat \<Rightarrow> int option" where
  "lastStockMovementDay rows item =
    (case map kx_day (filter (\<lambda>t. kx_item t = item \<and> ledger_row rows t) rows) of
       [] \<Rightarrow> None | d # ds \<Rightarrow> Some (fold max ds d))"

text \<open>\<open>createLedgerLocationResolver\<close>: over all warehouses; empty and \<open>default\<close> are the default one.\<close>

definition ledger_resolve :: "warehouse list \<Rightarrow> string \<Rightarrow> warehouse option" where
  "ledger_resolve ws raw =
    (let sorted = sort_key wh_id ws; key = js_lower (js_trim raw);
         defaultWh = (case List.find wh_active sorted of Some w \<Rightarrow> Some w
           | None \<Rightarrow> (case sorted of [] \<Rightarrow> None | w # _ \<Rightarrow> Some w))
     in if key = '''' \<or> key = ''default'' then defaultWh
        else case List.find (\<lambda>w. js_lower (js_trim (wh_code w)) = key) sorted of
          Some w \<Rightarrow> Some w
        | None \<Rightarrow> List.find (\<lambda>w. js_lower (js_trim (wh_name w)) = key) sorted)"

definition signed_qty :: "kardex_row \<Rightarrow> rat" where
  "signed_qty t = (if isInType (kx_type t) then kx_qty t else if isOutType (kx_type t) then - kx_qty t else 0)"

text \<open>\<open>itemLedgerFromDay\<close> from the next day on: the balance of a warehouse before, and the later rows.\<close>

definition ledger_opening :: "decimal_lib \<Rightarrow> warehouse list \<Rightarrow> kardex_row list \<Rightarrow> nat \<Rightarrow> int \<Rightarrow> nat \<Rightarrow> rat" where
  "ledger_opening L ws rows item day whId =
    (let old = filter (\<lambda>t. kx_item t = item \<and> ledger_row rows t \<and> kx_day t \<le> day) rows;
         locations = filter (\<lambda>loc. map_option wh_id (ledger_resolve ws loc) = Some whId)
           (remdups (map kx_location old))
     in foldl (\<lambda>b loc. fin_add L b (sum_list (map signed_qty (filter (\<lambda>t. kx_location t = loc) old)))) 0 locations)"

fun min_stock_walk :: "decimal_lib \<Rightarrow> kardex_row list \<Rightarrow> rat \<Rightarrow> rat option \<Rightarrow> rat \<times> rat option" where
  "min_stock_walk L [] balance minimum = (balance, minimum)"
| "min_stock_walk L (t # ts) balance minimum =
    (let m0 = (case minimum of None \<Rightarrow> fin_toNumber L balance | Some m \<Rightarrow> m);
         b = (if isInType (kx_type t) then fin_add L balance (kx_qty t) else fin_subtract L balance (kx_qty t))
     in min_stock_walk L ts b (Some (min m0 (fin_toNumber L b))))"

definition minimumStockFromDay :: "decimal_lib \<Rightarrow> warehouse list \<Rightarrow> kardex_row list \<Rightarrow> nat \<Rightarrow> int \<Rightarrow> nat \<Rightarrow> rat" where
  "minimumStockFromDay L ws rows item day whId =
    (let later = sort_key kx_day (sort_key kx_id
           (filter (\<lambda>t. kx_item t = item \<and> ledger_row rows t \<and> kx_day t > day \<and>
             (isInType (kx_type t) \<or> isOutType (kx_type t)) \<and>
             map_option wh_id (ledger_resolve ws (kx_location t)) = Some whId) rows));
         (balance, minimum) = min_stock_walk L later (ledger_opening L ws rows item day whId) None
     in case minimum of None \<Rightarrow> fin_toNumber L balance | Some m \<Rightarrow> m)"

definition QTY_TOLERANCE :: rat where
  "QTY_TOLERANCE = 1 / 10 ^ 9"

definition assertStockMovementDate ::
    "decimal_lib \<Rightarrow> stock_env \<Rightarrow> warehouse list \<Rightarrow> kardex_row list \<Rightarrow> nat \<Rightarrow> int option \<Rightarrow> direction
      \<Rightarrow> rat \<Rightarrow> warehouse \<Rightarrow> bool \<Rightarrow> stock_error + unit" where
  "assertStockMovementDate L env ws rows item date inOut quantity wh allowBackdate =
    (let day = (case date of None \<Rightarrow> se_today env | Some d \<Rightarrow> d)
     in if day > se_today env then Inl FutureDate
        else if \<not> se_yearOpen env day then Inl ClosedFiscalYear
        else case lastStockMovementDay rows item of
          None \<Rightarrow> Inr ()
        | Some lastDay \<Rightarrow>
            if day \<ge> lastDay then Inr ()
            else if \<not> allowBackdate then Inl BackdatedMovement
            else if inOut \<noteq> DirOut then Inr ()
            else if minimumStockFromDay L ws rows item day (wh_id wh) + QTY_TOLERANCE < quantity
              then Inl NegativeAsOfDate
            else Inr ())"

section \<open>A stock movement\<close>

definition STOCK_COUNT_DOCUMENT_TYPE :: string where
  "STOCK_COUNT_DOCUMENT_TYPE = ''audit''"

definition stockMovementQuantity :: "decimal_lib \<Rightarrow> rat option \<Rightarrow> rat option" where
  "stockMovementQuantity L quantity = map_option (\<lambda>raw. fin_toNumber L (fin_round L raw 4)) quantity"

definition nextVersion :: "nat \<Rightarrow> nat" where
  "nextVersion v = v + 1"

record movement =
  mv_item :: nat
  mv_doc :: "nat option"
  mv_dir :: direction
  mv_qty :: "rat option"
  mv_price :: "rat option"
  mv_date :: "int option"
  mv_docType :: string
  mv_docRef :: string
  mv_loc :: string
  mv_backdate :: bool

text \<open>The unit price the Kardex row records: the cost for an issue, the price or the cost for a receipt.\<close>

definition movement_unit_price :: "nat \<Rightarrow> direction \<Rightarrow> string \<Rightarrow> rat \<Rightarrow> rat \<Rightarrow> stock_error + rat" where
  "movement_unit_price item inOut docType wac price =
    (if inOut = DirOut then
       if wac > 0 then Inr wac
       else if docType = STOCK_COUNT_DOCUMENT_TYPE then Inr 0
       else Inl (NoUnitCost item)
     else if \<not> price > 0 \<and> wac > 0 then Inr wac
     else Inr price)"

definition dir_type :: "direction \<Rightarrow> kardex_type" where
  "dir_type d = (case d of DirIn \<Rightarrow> KTin | DirOut \<Rightarrow> KTout)"

definition movement_row :: "decimal_lib \<Rightarrow> nat \<Rightarrow> movement \<Rightarrow> rat \<Rightarrow> rat \<Rightarrow> int \<Rightarrow> string \<Rightarrow> kardex_row" where
  "movement_row L i p qty unitPrice day code =
    \<lparr>kx_id = i, kx_item = mv_item p, kx_doc = mv_doc p, kx_type = dir_type (mv_dir p), kx_qty = qty,
     kx_price = Some (fin_toDb L unitPrice),
     kx_total = fin_toDb L (fin_round L (fin_multiply L unitPrice qty) 4),
     kx_day = day, kx_docType = Some (mv_docType p), kx_docRef = Some (mv_docRef p),
     kx_location = code, kx_reversalOf = None, kx_deleted = False\<rparr>"

text \<open>The steps of \<open>applyStockMovement\<close>: the locked item, the price guard, the quantity guard, the whole.\<close>

definition applyStockMovement_item ::
    "decimal_lib \<Rightarrow> stock_env \<Rightarrow> movement \<Rightarrow> stock_db \<Rightarrow> warehouse \<Rightarrow> rat \<Rightarrow> rat \<Rightarrow> item_row \<Rightarrow> stock_error + stock_db" where
  "applyStockMovement_item L env p s wh qty price it =
    (let oldTotal = sn_total (getStockSnapshot L (db_warehouses s) (db_stocks s) (mv_item p));
         day = (case mv_date p of None \<Rightarrow> se_today env | Some d \<Rightarrow> d);
         wac = im_wac it
     in res_bind (assertStockMovementDate L env (db_warehouses s) (db_kardex s) (mv_item p)
           (Some day) (mv_dir p) qty wh (mv_backdate p)) (\<lambda>_.
        res_bind (movement_unit_price (mv_item p) (mv_dir p) (mv_docType p) wac price) (\<lambda>txUnitPrice.
        res_bind (applyMovement L (db_warehouses s) (mv_item p) wh (mv_dir p) (Some qty) (db_stocks s)) (\<lambda>stocks.
          let newTotal = sn_total (getStockSnapshot L (db_warehouses s) stocks (mv_item p));
              newWAC = (if mv_dir p = DirIn then calculateWAC L oldTotal wac qty price else wac);
              event = \<lparr>ev_received = (mv_dir p = DirIn), ev_item = mv_item p, ev_qty = qty,
                ev_unitPrice = fin_toNumber L txUnitPrice, ev_warehouse = wh_code wh,
                ev_previous = oldTotal, ev_new = newTotal, ev_docType = mv_docType p,
                ev_docRef = mv_docRef p\<rparr>
          in Inr (s\<lparr>db_kardex := db_kardex s @ [movement_row L (db_nextTx s) p qty txUnitPrice day (wh_code wh)],
                db_nextTx := db_nextTx s + 1,
                db_stocks := stocks,
                db_items := (db_items s)(mv_item p \<mapsto>
                  it\<lparr>im_wac := fin_toDb L newWAC, im_version := nextVersion (im_version it)\<rparr>),
                db_events := db_events s @ [event]\<rparr>)))))"

definition applyStockMovement_priced ::
    "decimal_lib \<Rightarrow> stock_env \<Rightarrow> movement \<Rightarrow> stock_db \<Rightarrow> warehouse \<Rightarrow> rat \<Rightarrow> rat \<Rightarrow> stock_error + stock_db" where
  "applyStockMovement_priced L env p s wh qty price =
    (if price < 0 then Inl BadPrice
     else case db_items s (mv_item p) of
       None \<Rightarrow> Inl (ItemNotFound (mv_item p))
     | Some it \<Rightarrow>
       if im_deleted it \<and> \<not> (mv_dir p = DirOut \<and> mv_docType p = STOCK_COUNT_DOCUMENT_TYPE)
       then Inl (ItemIsDeleted (mv_item p))
       else applyStockMovement_item L env p s wh qty price it)"

definition applyStockMovement_at ::
    "decimal_lib \<Rightarrow> stock_env \<Rightarrow> movement \<Rightarrow> stock_db \<Rightarrow> warehouse \<Rightarrow> rat \<Rightarrow> stock_error + stock_db" where
  "applyStockMovement_at L env p s wh qty =
    (if qty \<le> 0 then Inl BadQuantity
     else case mv_price p of
       None \<Rightarrow> Inl BadPrice
     | Some price \<Rightarrow> applyStockMovement_priced L env p s wh qty price)"

definition applyStockMovement :: "decimal_lib \<Rightarrow> stock_env \<Rightarrow> movement \<Rightarrow> stock_db \<Rightarrow> stock_error + stock_db" where
  "applyStockMovement L env p s =
    res_bind (resolveWarehouse (db_warehouses s) (mv_loc p)) (\<lambda>wh.
      case stockMovementQuantity L (mv_qty p) of
        None \<Rightarrow> Inl BadQuantity
      | Some qty \<Rightarrow> applyStockMovement_at L env p s wh qty)"

section \<open>Reversing a movement\<close>

record reversal =
  rv_item :: nat
  rv_qty :: rat
  rv_type :: kardex_type
  rv_price :: rat
  rv_loc :: string
  rv_quantityOnly :: bool
  rv_docType :: string
  rv_docRef :: string

text \<open>\<open>revMovement\<close>: a row of type \<open>in\<close> goes out again, a row of any other type comes in.\<close>

definition rev_movement :: "kardex_type \<Rightarrow> direction" where
  "rev_movement originalDirection = (if originalDirection = KTin then DirOut else DirIn)"

text \<open>Only the types \<open>in\<close> and \<open>out\<close> change the cost; the old transfer types leave it.\<close>

definition reversal_wac :: "decimal_lib \<Rightarrow> reversal \<Rightarrow> rat \<Rightarrow> rat \<Rightarrow> rat \<Rightarrow> rat" where
  "reversal_wac L p oldTotal newTotal oldWAC =
    (if rv_quantityOnly p then oldWAC
     else if rv_type p = KTin then void_in_wac L oldTotal newTotal oldWAC (rv_qty p) (rv_price p)
     else if rv_type p = KTout then calculateWAC L oldTotal oldWAC (rv_qty p) (rv_price p)
     else oldWAC)"

text \<open>The ledger value a voided receipt leaves with no stock behind it (\<open>StockReversalResult.residue\<close>).\<close>

definition reversal_residue :: "decimal_lib \<Rightarrow> reversal \<Rightarrow> rat \<Rightarrow> rat \<Rightarrow> rat \<Rightarrow> rat" where
  "reversal_residue L p oldTotal newTotal oldWAC =
    (if rv_quantityOnly p \<or> rv_type p \<noteq> KTin then 0
     else let remaining = fin_subtract L (fin_multiply L oldTotal oldWAC) (fin_multiply L (rv_qty p) (rv_price p))
         in if newTotal > 0 \<and> \<not> remaining < 0 then 0
            else fin_subtract L remaining (fin_multiply L (max newTotal 0) oldWAC))"

definition applyStockReversal ::
    "decimal_lib \<Rightarrow> reversal \<Rightarrow> stock_db \<Rightarrow> stock_error + (stock_db \<times> string option \<times> rat)" where
  "applyStockReversal L p s =
    (case db_items s (rv_item p) of
       None \<Rightarrow> Inr (s, None, 0)
     | Some it \<Rightarrow>
       res_bind (resolveWarehouse (db_warehouses s) (rv_loc p)) (\<lambda>wh.
         let oldTotal = sn_total (getStockSnapshot L (db_warehouses s) (db_stocks s) (rv_item p))
         in res_bind (applyMovement L (db_warehouses s) (rv_item p) wh (rev_movement (rv_type p))
                (Some (rv_qty p)) (db_stocks s)) (\<lambda>stocks.
              let newTotal = sn_total (getStockSnapshot L (db_warehouses s) stocks (rv_item p));
                  newWAC = reversal_wac L p oldTotal newTotal (im_wac it);
                  event = \<lparr>ev_received = (rev_movement (rv_type p) = DirIn), ev_item = rv_item p,
                    ev_qty = rv_qty p, ev_unitPrice = fin_toNumber L (rv_price p), ev_warehouse = wh_code wh,
                    ev_previous = oldTotal, ev_new = newTotal, ev_docType = rv_docType p, ev_docRef = rv_docRef p\<rparr>
              in Inr (s\<lparr>db_stocks := stocks,
                    db_items := (db_items s)(rv_item p \<mapsto>
                      it\<lparr>im_wac := fin_toDb L newWAC, im_version := nextVersion (im_version it)\<rparr>),
                    db_events := db_events s @ (if rv_quantityOnly p then [] else [event])\<rparr>,
                  Some (im_type it), reversal_residue L p oldTotal newTotal (im_wac it)))))"

section \<open>Transfer between warehouses\<close>

record transfer =
  tf_item :: nat
  tf_from :: string
  tf_to :: string
  tf_qty :: rat
  tf_date :: "int option"
  tf_backdate :: bool

definition transfer_row :: "decimal_lib \<Rightarrow> nat \<Rightarrow> nat \<Rightarrow> nat \<Rightarrow> direction \<Rightarrow> rat \<Rightarrow> rat \<Rightarrow> int \<Rightarrow> string \<Rightarrow> string \<Rightarrow> kardex_row" where
  "transfer_row L i item doc d qty wac day ref code =
    \<lparr>kx_id = i, kx_item = item, kx_doc = Some doc, kx_type = dir_type d, kx_qty = db_numeric4 qty,
     kx_price = Some (fin_toDb L wac), kx_total = fin_toDb L (fin_multiply L wac qty),
     kx_day = day, kx_docType = Some ''transfer'', kx_docRef = Some ref, kx_location = code,
     kx_reversalOf = None, kx_deleted = False\<rparr>"

text \<open>
  \<open>executeWarehouseTransfer\<close>, first its writes; the id and the number of the new document are given
  by the database.
\<close>

definition transfer_document :: "transfer \<Rightarrow> string \<Rightarrow> rat \<Rightarrow> int \<Rightarrow> item_row \<Rightarrow> string \<Rightarrow> doc_row" where
  "transfer_document p ref qty day it fromCode =
    \<lparr>dc_type = ''transfer'', dc_status = ''final'', dc_ref = ref, dc_day = day,
     dc_currency = Some ''IRR'', dc_rate = 0,
     dc_lines = [\<lparr>ln_item = tf_item p, ln_qty = qty, ln_unitPrice = im_wac it, ln_discount = 0,
       ln_location = fromCode\<rparr>], dc_deleted = False, dc_returnOf = None,
     dc_vat = \<lparr>dvat_percent = 0, dvat_amount = 0\<rparr>, dc_version = 1\<rparr>"

definition transfer_rows :: "decimal_lib \<Rightarrow> transfer \<Rightarrow> nat \<Rightarrow> nat \<Rightarrow> rat \<Rightarrow> rat \<Rightarrow> int \<Rightarrow> string \<Rightarrow> string \<Rightarrow> string \<Rightarrow> kardex_row list" where
  "transfer_rows L p n docId qty wac day ref fromCode toCode =
    [transfer_row L n (tf_item p) docId DirOut qty wac day ref fromCode,
     transfer_row L (n + 1) (tf_item p) docId DirIn qty wac day ref toCode]"

definition transfer_move ::
    "decimal_lib \<Rightarrow> transfer \<Rightarrow> nat \<Rightarrow> string \<Rightarrow> stock_db \<Rightarrow> item_row \<Rightarrow> rat \<Rightarrow> int \<Rightarrow> warehouse \<Rightarrow> warehouse
      \<Rightarrow> stock_error + stock_db" where
  "transfer_move L p docId ref s it qty day fromWh toWh =
    res_bind (applyMovement L (db_warehouses s) (tf_item p) fromWh DirOut (Some qty) (db_stocks s)) (\<lambda>st1.
    res_bind (applyMovement L (db_warehouses s) (tf_item p) toWh DirIn (Some qty) st1) (\<lambda>st2.
      Inr (s\<lparr>db_stocks := st2,
        db_items := (db_items s)(tf_item p \<mapsto> it\<lparr>im_version := nextVersion (im_version it)\<rparr>),
        db_docs := (db_docs s)(docId \<mapsto> transfer_document p ref qty day it (wh_code fromWh)),
        db_kardex := db_kardex s @
          transfer_rows L p (db_nextTx s) docId qty (im_wac it) day ref (wh_code fromWh) (wh_code toWh),
        db_nextTx := db_nextTx s + 2\<rparr>)))"

definition transfer_between ::
    "decimal_lib \<Rightarrow> stock_env \<Rightarrow> transfer \<Rightarrow> nat \<Rightarrow> string \<Rightarrow> stock_db \<Rightarrow> item_row \<Rightarrow> rat \<Rightarrow> warehouse \<Rightarrow> warehouse
      \<Rightarrow> stock_error + stock_db" where
  "transfer_between L env p docId ref s it qty fromWh toWh =
    (let day = (case tf_date p of None \<Rightarrow> se_today env | Some d \<Rightarrow> d);
         held = (case map_of (sn_byCode (getStockSnapshot L (db_warehouses s) (db_stocks s) (tf_item p)))
           (wh_code fromWh) of Some q \<Rightarrow> q | None \<Rightarrow> 0)
     in if wh_id fromWh = wh_id toWh then Inl SameWarehouse
        else if held < qty then Inl InsufficientStock
        else if \<not> se_check env CheckTransfer (tf_item p) s then Inl RefusedElsewhere
        else res_bind (assertStockMovementDate L env (db_warehouses s) (db_kardex s) (tf_item p) (Some day) DirOut
            qty fromWh (tf_backdate p)) (\<lambda>_. transfer_move L p docId ref s it qty day fromWh toWh))"

definition executeWarehouseTransfer ::
    "decimal_lib \<Rightarrow> stock_env \<Rightarrow> transfer \<Rightarrow> nat \<Rightarrow> string \<Rightarrow> stock_db \<Rightarrow> stock_error + stock_db" where
  "executeWarehouseTransfer L env p docId ref s =
    (let qty = fin_toNumber L (tf_qty p)
     in if qty \<le> 0 then Inl BadQuantity
        else if tf_from p = tf_to p then Inl SameWarehouse
        else case db_items s (tf_item p) of
          None \<Rightarrow> Inl (ItemNotFound (tf_item p))
        | Some it \<Rightarrow>
          if im_deleted it then Inl (ItemIsDeleted (tf_item p))
          else res_bind (resolveWarehouse (db_warehouses s) (tf_from p)) (\<lambda>fromWh.
               res_bind (resolveWarehouse (db_warehouses s) (tf_to p)) (\<lambda>toWh.
                 transfer_between L env p docId ref s it qty fromWh toWh)))"

section \<open>Finalizing a document\<close>

definition DOCUMENT_STOCK_DIRECTIONS :: "(string \<times> direction) list" where
  "DOCUMENT_STOCK_DIRECTIONS =
    [(''receipt'', DirIn), (''purchase'', DirIn), (''production_receipt'', DirIn), (''return'', DirIn),
     (''invoice'', DirOut), (''proforma'', DirOut), (''remittance'', DirOut), (''waste'', DirOut)]"

definition documentStockDirection :: "string \<Rightarrow> direction option" where
  "documentStockDirection docType = map_of DOCUMENT_STOCK_DIRECTIONS docType"

definition stockDirectionOf :: "string \<Rightarrow> direction" where
  "stockDirectionOf docType = (case documentStockDirection docType of Some d \<Rightarrow> d | None \<Rightarrow> DirOut)"

definition COSTED_INCOMING_TYPES :: "string list" where
  "COSTED_INCOMING_TYPES = [''receipt'', ''purchase'', ''production_receipt'']"

text \<open>\<open>assertIncomingLinesHaveCost\<close>: no incoming line at zero cost for an item without a cost.\<close>

definition incomingLinesHaveCost :: "stock_db \<Rightarrow> string \<Rightarrow> (nat \<times> rat) list \<Rightarrow> bool" where
  "incomingLinesHaveCost s docType lines \<longleftrightarrow>
    docType \<notin> set COSTED_INCOMING_TYPES \<or>
    list_all (\<lambda>(item, cost). cost > 0 \<or>
      (case db_items s item of None \<Rightarrow> True | Some it \<Rightarrow> im_deleted it \<or> im_wac it > 0)) lines"

text \<open>
  The unit cost of a line: the cost of the original invoice for a sales return (\<open>returnCost\<close>, of
  \<open>resolveSalesReturnUnitCosts\<close>), else the net price for a receipt and the price for an issue, in Rial.
\<close>

definition stockUnitPriceOf ::
    "decimal_lib \<Rightarrow> (nat \<Rightarrow> rat option) \<Rightarrow> direction \<Rightarrow> string option \<Rightarrow> rat \<Rightarrow> doc_line \<Rightarrow> rate_error + rat" where
  "stockUnitPriceOf L returnCost inOut currency rate l =
    (case returnCost (ln_item l) of
       Some c \<Rightarrow> Inr c
     | None \<Rightarrow> stockUnitPriceInIrr L
         (if inOut = DirIn then netLineUnitPrice L (ln_unitPrice l) (ln_qty l) (ln_discount l) else ln_unitPrice l)
         currency rate)"

datatype finalize_error =
    FinStock stock_error
  | FinRate rate_error
  | FinVat vat_error
  | FinAuditDocument
  | FinProductionReceipt
  | FinLineWithoutCost

definition lift_stock :: "stock_error + 'a \<Rightarrow> finalize_error + 'a" where
  "lift_stock r = (case r of Inl e \<Rightarrow> Inl (FinStock e) | Inr x \<Rightarrow> Inr x)"

definition lift_rate :: "rate_error + 'a \<Rightarrow> finalize_error + 'a" where
  "lift_rate r = (case r of Inl e \<Rightarrow> Inl (FinRate e) | Inr x \<Rightarrow> Inr x)"

definition lift_vat :: "vat_error + 'a \<Rightarrow> finalize_error + 'a" where
  "lift_vat r = (case r of Inl e \<Rightarrow> Inl (FinVat e) | Inr x \<Rightarrow> Inr x)"

definition line_movement :: "nat \<Rightarrow> doc_row \<Rightarrow> string \<Rightarrow> direction \<Rightarrow> bool \<Rightarrow> doc_line \<Rightarrow> string \<Rightarrow> rat \<Rightarrow> movement" where
  "line_movement docId d targetType inOut backdate l targetLoc price =
    \<lparr>mv_item = ln_item l, mv_doc = Some docId, mv_dir = inOut, mv_qty = Some (ln_qty l), mv_price = Some price,
     mv_date = Some (dc_day d), mv_docType = targetType, mv_docRef = dc_ref d, mv_loc = targetLoc,
     mv_backdate = backdate\<rparr>"

definition finalize_line ::
    "decimal_lib \<Rightarrow> stock_env \<Rightarrow> (nat \<Rightarrow> rat option) \<Rightarrow> nat \<Rightarrow> doc_row \<Rightarrow> string \<Rightarrow> direction \<Rightarrow> rat \<Rightarrow> bool
      \<Rightarrow> doc_line \<Rightarrow> stock_db \<Rightarrow> finalize_error + stock_db" where
  "finalize_line L env returnCost docId d targetType inOut rate backdate l s =
    res_bind (lift_stock (resolveWarehouseCode (db_warehouses s) (ln_location l))) (\<lambda>targetLoc.
    res_bind (lift_rate (stockUnitPriceOf L returnCost inOut (dc_currency d) rate l)) (\<lambda>price.
      lift_stock (applyStockMovement L env (line_movement docId d targetType inOut backdate l targetLoc price) s)))"

fun line_prices ::
    "decimal_lib \<Rightarrow> (nat \<Rightarrow> rat option) \<Rightarrow> direction \<Rightarrow> string option \<Rightarrow> rat \<Rightarrow> doc_line list \<Rightarrow> rate_error + (nat \<times> rat) list" where
  "line_prices L returnCost inOut currency rate [] = Inr []"
| "line_prices L returnCost inOut currency rate (l # ls) =
    res_bind (stockUnitPriceOf L returnCost inOut currency rate l) (\<lambda>c.
    res_bind (line_prices L returnCost inOut currency rate ls) (\<lambda>cs. Inr ((ln_item l, c) # cs)))"

text \<open>The stored type and direction, the exchange rate and the unit costs of the incoming lines.\<close>

definition final_type :: "doc_row \<Rightarrow> string" where
  "final_type d = (if dc_type d = ''proforma'' then ''invoice'' else dc_type d)"

definition return_costs :: "(nat \<Rightarrow> rat option) \<Rightarrow> doc_row \<Rightarrow> nat \<Rightarrow> rat option" where
  "return_costs returnCost d = (if final_type d = ''return'' then returnCost else (\<lambda>_. None))"

definition document_costs ::
    "decimal_lib \<Rightarrow> (nat \<Rightarrow> rat option) \<Rightarrow> doc_row \<Rightarrow> raw_number \<Rightarrow> rate_error + (rat \<times> (nat \<times> rat) list)" where
  "document_costs L returnCost d exchangeRate =
    res_bind (resolveDocumentExchangeRate (dc_currency d) exchangeRate RawUndefined (dc_rate d)) (\<lambda>finalRate.
      let rate = (case finalRate of None \<Rightarrow> 0 | Some r \<Rightarrow> r); inOut = stockDirectionOf (final_type d)
      in res_bind (if inOut = DirIn
           then line_prices L (return_costs returnCost d) inOut (dc_currency d) rate (dc_lines d) else Inr [])
         (\<lambda>costs. Inr (rate, costs)))"

record finalize_options =
  fo_exchangeRate :: raw_number
  fo_vatPercent :: raw_number
  fo_vatAmount :: raw_number
  fo_backdate :: bool
  fo_atFinalizeDay :: bool

text \<open>
  An invoice made from a proforma takes the day and the next number of its series; an order delivered
  takes the day, and a new number when its numbering year is another one (\<open>proformaInvoice.ts\<close>).
\<close>

definition finalize_target :: "stock_env \<Rightarrow> nat \<Rightarrow> finalize_options \<Rightarrow> doc_row \<Rightarrow> doc_row" where
  "finalize_target env docId opts d =
    (if dc_type d = ''proforma'' \<or> (dc_type d = ''invoice'' \<and> dc_status d = ''proforma'')
     then d\<lparr>dc_day := se_today env, dc_ref := se_nextRef env ''invoice''\<rparr>
     else if fo_atFinalizeDay opts
     then d\<lparr>dc_day := se_today env, dc_ref := (case se_dayRef env docId of
       Some r \<Rightarrow> r | None \<Rightarrow> if dc_ref d \<noteq> '''' then dc_ref d else se_nextRef env (dc_type d))\<rparr>
     else d)"

definition return_of_invoice :: "doc_row \<Rightarrow> bool" where
  "return_of_invoice d \<longleftrightarrow> final_type d = ''return'' \<and> dc_returnOf d \<noteq> None"

definition finalize_rate :: "stock_env \<Rightarrow> nat \<Rightarrow> finalize_options \<Rightarrow> doc_row \<Rightarrow> raw_number" where
  "finalize_rate env docId opts d = (if return_of_invoice d then se_returnRate env docId else fo_exchangeRate opts)"

definition vat_lines :: "doc_line list \<Rightarrow> doc_vat_line list" where
  "vat_lines lines = map (\<lambda>l. \<lparr>dv_quantity = ln_qty l, dv_unitPrice = Some (ln_unitPrice l), dv_unit_price = None,
     dv_price = None, dv_discount = ln_discount l\<rparr>) lines"

definition finalize_vat :: "decimal_lib \<Rightarrow> stock_env \<Rightarrow> nat \<Rightarrow> finalize_options \<Rightarrow> doc_row \<Rightarrow> finalize_error + document_vat" where
  "finalize_vat L env docId opts d =
    (if return_of_invoice d
     then (case se_returnVat env docId of Some v \<Rightarrow> Inr v | None \<Rightarrow> Inl (FinStock RefusedElsewhere))
     else lift_vat (resolveDocumentVat L
       \<lparr>vp_docType = final_type d,
        vp_input = \<lparr>vi_vatPercent = fo_vatPercent opts, vi_vat_percent = RawUndefined,
          vi_vatAmount = fo_vatAmount opts, vi_vat_amount = RawUndefined\<rparr>,
        vp_lines = vat_lines (dc_lines d), vp_existing = Some (dc_vat d), vp_linesChanged = False,
        vp_currency = dc_currency d\<rparr>))"

definition finalized_row :: "doc_row \<Rightarrow> rat \<Rightarrow> document_vat \<Rightarrow> doc_row" where
  "finalized_row d rate vat = d\<lparr>dc_status := ''final'', dc_type := final_type d, dc_rate := rate, dc_vat := vat,
     dc_version := nextVersion (dc_version d)\<rparr>"

text \<open>
  \<open>finalizeDocument\<close>: the checks of the document, the stock movements of its lines, and the document
  row. \<open>Inr\<close> of the unchanged state for a document that is final already.
\<close>

definition finalize_lines ::
    "decimal_lib \<Rightarrow> stock_env \<Rightarrow> (nat \<Rightarrow> rat option) \<Rightarrow> nat \<Rightarrow> finalize_options \<Rightarrow> doc_row \<Rightarrow> rat \<Rightarrow> stock_db
      \<Rightarrow> finalize_error + stock_db" where
  "finalize_lines L env returnCost docId opts d rate s =
    fold_res (finalize_line L env (return_costs returnCost d) docId d (final_type d) (stockDirectionOf (final_type d))
      rate (fo_backdate opts)) (dc_lines d) s"

definition finalizeDocument ::
    "decimal_lib \<Rightarrow> stock_env \<Rightarrow> (nat \<Rightarrow> rat option) \<Rightarrow> nat \<Rightarrow> finalize_options \<Rightarrow> stock_db \<Rightarrow> finalize_error + stock_db" where
  "finalizeDocument L env returnCost docId opts s =
    (case db_docs s docId of
       None \<Rightarrow> Inl (FinStock DocumentNotFound)
     | Some d0 \<Rightarrow>
       if dc_deleted d0 then Inl (FinStock DocumentNotFound)
       else if dc_status d0 = ''final'' then Inr s
       else if dc_type d0 = ''audit'' then Inl FinAuditDocument
       else if dc_type d0 = ''production_receipt'' then Inl FinProductionReceipt
       else if dc_lines d0 = [] then Inl (FinStock DocumentWithoutLines)
       else if list_ex (\<lambda>l. ln_qty l \<le> 0) (dc_lines d0) then Inl (FinStock BadQuantity)
       else if list_ex (\<lambda>l. ln_unitPrice l < 0) (dc_lines d0) then Inl (FinStock BadPrice)
       else if \<not> se_check env CheckFinalize docId s then Inl (FinStock RefusedElsewhere)
       else
         let d = finalize_target env docId opts d0
         in res_bind (lift_rate (document_costs L returnCost d (finalize_rate env docId opts d))) (\<lambda>(rate, costs).
              if \<not> incomingLinesHaveCost s (final_type d) costs then Inl FinLineWithoutCost
              else res_bind (finalize_lines L env returnCost docId opts d rate s) (\<lambda>s'.
                res_bind (finalize_vat L env docId opts d) (\<lambda>vat.
                  Inr (s'\<lparr>db_docs := (db_docs s')(docId \<mapsto> finalized_row d rate vat)\<rparr>)))))"

section \<open>Voiding a document\<close>

definition is_original :: "nat \<Rightarrow> kardex_row \<Rightarrow> bool" where
  "is_original docId r \<longleftrightarrow> kx_doc r = Some docId \<and> \<not> kx_deleted r"

definition reversal_type :: "kardex_type \<Rightarrow> kardex_type" where
  "reversal_type t = (if t = KTin then KTout else KTin)"

definition has_location :: "kardex_row \<Rightarrow> bool" where
  "has_location r \<longleftrightarrow> js_trim (kx_location r) \<noteq> ''''"

text \<open>\<open>REV-\<close> and the first non-empty of the row's number, the document's number and the id.\<close>

definition reversal_ref :: "nat \<Rightarrow> doc_row \<Rightarrow> kardex_row \<Rightarrow> string" where
  "reversal_ref docId d r =
    REV_PREFIX @ (if opt_string (kx_docRef r) \<noteq> '''' then opt_string (kx_docRef r)
      else if dc_ref d \<noteq> '''' then dc_ref d else show_nat docId)"

definition reversal_row :: "decimal_lib \<Rightarrow> nat \<Rightarrow> nat \<Rightarrow> doc_row \<Rightarrow> int \<Rightarrow> string \<Rightarrow> kardex_row \<Rightarrow> kardex_row" where
  "reversal_row L i docId d today defaultCode r =
    \<lparr>kx_id = i, kx_item = kx_item r, kx_doc = Some docId, kx_type = reversal_type (kx_type r), kx_qty = kx_qty r,
     kx_price = Some (fin_toDb L (kardex_price r)), kx_total = kx_total r, kx_day = today,
     kx_docType = Some (if opt_string (kx_docType r) \<noteq> '''' then opt_string (kx_docType r) else dc_type d),
     kx_docRef = Some (reversal_ref docId d r),
     kx_location = (if has_location r then kx_location r else defaultCode),
     kx_reversalOf = Some (kx_id r), kx_deleted = False\<rparr>"

fun reversal_rows :: "decimal_lib \<Rightarrow> nat \<Rightarrow> nat \<Rightarrow> doc_row \<Rightarrow> int \<Rightarrow> string \<Rightarrow> kardex_row list \<Rightarrow> kardex_row list" where
  "reversal_rows L i docId d today code [] = []"
| "reversal_rows L i docId d today code (r # rs) =
    (if kx_qty r > 0
     then reversal_row L i docId d today code r # reversal_rows L (i + 1) docId d today code rs
     else reversal_rows L i docId d today code rs)"

definition reversal_of_row :: "doc_row \<Rightarrow> string \<Rightarrow> kardex_row \<Rightarrow> reversal" where
  "reversal_of_row d defaultCode r =
    \<lparr>rv_item = kx_item r, rv_qty = kx_qty r, rv_type = kx_type r,
     rv_price = kardex_price r,
     rv_loc = (if has_location r then js_trim (kx_location r) else defaultCode),
     rv_quantityOnly = (kx_docType r = Some ''transfer''), rv_docType = dc_type d, rv_docRef = dc_ref d\<rparr>"

definition revert_row :: "decimal_lib \<Rightarrow> doc_row \<Rightarrow> string \<Rightarrow> kardex_row \<Rightarrow> stock_db \<Rightarrow> stock_error + stock_db" where
  "revert_row L d defaultCode r s =
    (if kx_qty r > 0 then res_bind (applyStockReversal L (reversal_of_row d defaultCode r) s) (\<lambda>(s', _, _). Inr s')
     else Inr s)"

text \<open>A line of a final document without Kardex rows (recorded before the Kardex kept them).\<close>

definition revert_line :: "decimal_lib \<Rightarrow> doc_row \<Rightarrow> string \<Rightarrow> doc_line \<Rightarrow> stock_db \<Rightarrow> finalize_error + stock_db" where
  "revert_line L d defaultCode l s =
    (let docDirection = stockDirectionOf (dc_type d)
     in res_bind (lift_rate (if docDirection = DirOut then Inr 0
          else if dc_rate d > 0 then stockUnitPriceInIrr L (ln_unitPrice l) (dc_currency d) (dc_rate d)
          else Inr (ln_unitPrice l))) (\<lambda>price.
        res_bind (lift_stock (applyStockReversal L
          \<lparr>rv_item = ln_item l, rv_qty = ln_qty l, rv_type = dir_type docDirection, rv_price = price,
           rv_loc = (if js_trim (ln_location l) \<noteq> '''' then js_trim (ln_location l) else defaultCode),
           rv_quantityOnly = False, rv_docType = dc_type d, rv_docRef = dc_ref d\<rparr> s)) (\<lambda>(s', _, _). Inr s')))"

definition default_code :: "stock_db \<Rightarrow> stock_error + string" where
  "default_code s = resolveWarehouseCode (db_warehouses s) ''''"

text \<open>
  \<open>deleteDocument\<close>: the document and its rows are marked deleted, every row gets
  a reversal row, and the stock of a final document (or of a stock count with rows) is reverted.
\<close>

definition deleteDocument :: "decimal_lib \<Rightarrow> stock_env \<Rightarrow> nat \<Rightarrow> stock_db \<Rightarrow> finalize_error + stock_db" where
  "deleteDocument L env docId s =
    (case db_docs s docId of
       None \<Rightarrow> Inr s
     | Some d \<Rightarrow>
       if dc_deleted d then Inr s
       else if \<not> se_check env CheckVoid docId s then Inl (FinStock RefusedElsewhere)
       else
         let originals = filter (is_original docId) (db_kardex s);
             marked = update_rows (\<lambda>r. kx_doc r = Some docId) (\<lambda>r. r\<lparr>kx_deleted := True\<rparr>) (db_kardex s)
         in res_bind (lift_stock (if list_ex (\<lambda>r. \<not> has_location r) originals then default_code s else Inr ''''))
              (\<lambda>unlocated.
            let revs = reversal_rows L (db_nextTx s) docId d (se_today env) unlocated originals;
                s1 = s\<lparr>db_docs := (db_docs s)(docId \<mapsto> d\<lparr>dc_deleted := True\<rparr>),
                       db_kardex := marked @ revs, db_nextTx := db_nextTx s + length revs\<rparr>
            in if dc_status d = ''final'' \<or> (dc_type d = ''audit'' \<and> originals \<noteq> [])
               then res_bind (lift_stock (default_code s1)) (\<lambda>defaultWh.
                 if originals \<noteq> [] then lift_stock (fold_res (revert_row L d defaultWh) originals s1)
                 else if dc_type d \<noteq> ''audit'' then fold_res (revert_line L d defaultWh) (dc_lines d) s1
                 else Inr s1)
               else Inr s1))"

end
