(* ===== verification/StockInvariant.thy ===== *)
theory StockInvariant
  imports StockEngine
begin

text \<open>
  The live stock engine refines the Kardex. \<open>ledger_inv\<close> relates stock table, items, documents and
  Kardex rows; every operation keeps it. Its main clause says that executing the actions of an
  item's rows, in the order of their ids, from zero gives the item's stock and weighted average cost.
\<close>

section \<open>How the rows' actions change when rows are added or voided\<close>

definition item_rows :: "kardex_row list \<Rightarrow> nat \<Rightarrow> kardex_row list" where
  "item_rows K i = filter (\<lambda>r. kx_item r = i) K"

definition item_actions :: "kardex_row list \<Rightarrow> nat \<Rightarrow> kaction list" where
  "item_actions K i = kardex_actions (item_rows K i) (item_rows K i)"

definition volume :: "kardex_row list \<Rightarrow> nat \<Rightarrow> rat" where
  "volume K i = sum_list (map kx_qty (item_rows K i))"

lemma item_rows_append [simp]: "item_rows (K @ K') i = item_rows K i @ item_rows K' i"
  by (simp add: item_rows_def)

lemma volume_append [simp]: "volume (K @ K') i = volume K i + volume K' i"
  by (simp add: volume_def)

lemma set_item_rows [simp]: "set (item_rows K i) = {r \<in> set K. kx_item r = i}"
  by (auto simp: item_rows_def)

text \<open>The row and item invariants of the Kardex.\<close>

definition row_ok :: "kardex_row \<Rightarrow> bool" where
  "row_ok r \<longleftrightarrow> (kx_type r = KTin \<or> kx_type r = KTout) \<and> scaled 4 (kx_qty r) \<and> 0 < kx_qty r \<and>
    (\<exists>p. kx_price r = Some p \<and> scaled 4 p \<and> 0 \<le> p)"

text \<open>A reversal row is live and names a deleted row of its item and document.\<close>

definition reversal_ok :: "kardex_row list \<Rightarrow> kardex_row \<Rightarrow> bool" where
  "reversal_ok K r \<longleftrightarrow> (\<forall>j. kx_reversalOf r = Some j \<longrightarrow> \<not> kx_deleted r \<and>
    (\<exists>q \<in> set K. kx_id q = j \<and> kx_deleted q \<and> kx_item q = kx_item r \<and> kx_doc q = kx_doc r))"

text \<open>A deleted row is no reversal and has a live reversal row of its item and document.\<close>

definition deleted_ok :: "kardex_row list \<Rightarrow> kardex_row \<Rightarrow> bool" where
  "deleted_ok K r \<longleftrightarrow> (kx_deleted r \<longrightarrow> kx_reversalOf r = None \<and>
    (\<exists>q \<in> set K. kx_reversalOf q = Some (kx_id r) \<and> \<not> kx_deleted q \<and> kx_item q = kx_item r \<and> kx_doc q = kx_doc r))"

definition kardex_ok :: "kardex_row list \<Rightarrow> nat \<Rightarrow> bool" where
  "kardex_ok K next \<longleftrightarrow> sorted_wrt (<) (map kx_id K) \<and>
    (\<forall>r \<in> set K. kx_id r < next \<and> row_ok r \<and> reversal_ok K r \<and> deleted_ok K r \<and>
      (kx_reversalOf r = None \<longrightarrow> \<not> starts_with REV_PREFIX (opt_string (kx_docRef r))))"

lemma kardex_ok_distinct: "kardex_ok K next \<Longrightarrow> distinct (map kx_id K)"
  by (simp add: kardex_ok_def strict_sorted_iff)

lemma kardex_ok_id_unique:
  "kardex_ok K next \<Longrightarrow> q \<in> set K \<Longrightarrow> r \<in> set K \<Longrightarrow> kx_id q = kx_id r \<Longrightarrow> q = r"
  using kardex_ok_distinct by (metis (no_types, lifting) distinct_map inj_onD)

lemma byId_item_rows:
  assumes "kardex_ok K next" "q \<in> set K" "kx_item q = i"
  shows "kardex_byId (item_rows K i) (kx_id q) = Some q"
proof -
  have "distinct (map kx_id (item_rows K i))"
    using kardex_ok_distinct [OF assms(1)] by (simp add: item_rows_def distinct_map_filter)
  from find_by_key [OF this, of q] assms show ?thesis by (simp add: kardex_byId_def)
qed

lemma original_item_rows:
  assumes "kardex_ok K next" "r \<in> set K" "kx_reversalOf r = Some j"
  obtains q where "kardex_original (item_rows K (kx_item r)) r = Some q" "q \<in> set K" "kx_id q = j"
    "kx_deleted q" "kx_item q = kx_item r" "kx_doc q = kx_doc r"
proof -
  from assms obtain q where q: "q \<in> set K" "kx_id q = j" "kx_deleted q" "kx_item q = kx_item r" "kx_doc q = kx_doc r"
    by (force simp: kardex_ok_def reversal_ok_def)
  with byId_item_rows [OF assms(1) q(1)] assms(3)
  have "kardex_original (item_rows K (kx_item r)) r = Some q"
    by (auto simp: kardex_original_def)
  with q that show thesis by blast
qed

text \<open>The action of a row that is no reversal.\<close>

definition plain_action :: "kardex_row \<Rightarrow> kaction" where
  "plain_action r =
    (if kx_type r = KTin
     then if kx_docType r = Some ''transfer'' then KQtyIn (kx_qty r) else KIn (kx_qty r) (kardex_price r)
     else KOut (kx_qty r))"

text \<open>The action of the reversal of a row.\<close>

definition void_action :: "kardex_row \<Rightarrow> kaction" where
  "void_action q =
    (if kx_docType q = Some ''transfer''
     then if kx_type q = KTin then KOut (kx_qty q) else KQtyIn (kx_qty q)
     else if kx_type q = KTin then KVoidIn (kx_qty q) (kardex_price q)
     else KVoidOut (kx_qty q) (kardex_price q))"

lemma kaction_plain:
  assumes "row_ok r" "kx_reversalOf r = None" "\<not> starts_with REV_PREFIX (opt_string (kx_docRef r))"
    and "kx_deleted r \<longrightarrow> activelyReversed K (kx_id r)"
  shows "kaction_of K r = Some (plain_action r)"
  using assms
  by (auto simp: kaction_of_def kardex_counts_def kardex_original_def kardex_quantityOnly_def plain_action_def
      row_ok_def isInType_def isOutType_def Let_def)

lemma kaction_cong:
  assumes "kx_deleted r \<Longrightarrow> activelyReversed K (kx_id r) = activelyReversed K' (kx_id r)"
    and "kardex_original K r = kardex_original K' r"
  shows "kaction_of K r = kaction_of K' r"
proof -
  have q: "kardex_quantityOnly K r = kardex_quantityOnly K' r"
    using assms(2) by (simp add: kardex_quantityOnly_def)
  have c: "kardex_counts K r = kardex_counts K' r"
    using assms(1) by (auto simp: kardex_counts_def)
  show ?thesis unfolding kaction_of_def q c assms(2) ..
qed

lemma kardex_actions_cong:
  "(\<And>r. r \<in> set rs \<Longrightarrow> kaction_of K r = kaction_of K' r) \<Longrightarrow> kardex_actions K rs = kardex_actions K' rs"
proof (induction rs)
  case (Cons r rs)
  then have "kaction_of K r = kaction_of K' r" "kardex_actions K rs = kardex_actions K' rs" by simp_all
  then show ?case by (simp split: option.split)
qed simp

lemma deleted_activelyReversed:
  assumes "kardex_ok K next" "r \<in> set K" "kx_deleted r"
  shows "activelyReversed (item_rows K (kx_item r)) (kx_id r)"
  using assms by (force simp: kardex_ok_def deleted_ok_def activelyReversed_def list_ex_iff)

text \<open>Recording a movement appends its action.\<close>

lemma item_actions_append:
  assumes ok: "kardex_ok K next" and r: "row_ok r" "kx_reversalOf r = None" "\<not> kx_deleted r"
    "\<not> starts_with REV_PREFIX (opt_string (kx_docRef r))" "kx_id r = next"
  shows "item_actions (K @ [r]) i = item_actions K i @ (if kx_item r = i then [plain_action r] else [])"
proof (cases "kx_item r = i")
  case False
  then show ?thesis by (simp add: item_actions_def item_rows_def)
next
  case True
  let ?I = "item_rows K i"
  have I': "item_rows (K @ [r]) i = ?I @ [r]" using True by (simp add: item_rows_def)
  have "kardex_actions (?I @ [r]) ?I = kardex_actions ?I ?I"
  proof (rule kardex_actions_cong, rule kaction_cong)
    fix x assume x: "x \<in> set ?I"
    show "activelyReversed (?I @ [r]) (kx_id x) = activelyReversed ?I (kx_id x)"
      using r by (simp add: activelyReversed_def)
    show "kardex_original (?I @ [r]) x = kardex_original ?I x"
    proof (cases "kx_reversalOf x")
      case (Some j)
      from x have "x \<in> set K" "kx_item x = i" by auto
      from original_item_rows [OF ok this(1) Some] this(2)
      obtain q where "kardex_original ?I x = Some q" by metis
      with Some show ?thesis by (simp add: kardex_original_def kardex_byId_def find_append)
    qed (simp add: kardex_original_def)
  qed
  moreover have "kaction_of (?I @ [r]) r = Some (plain_action r)"
    using r by (intro kaction_plain) auto
  ultimately show ?thesis using True
    unfolding item_actions_def I' kardex_actions_append by simp
qed

lemma kardex_ok_append:
  assumes "kardex_ok K next" and "row_ok r" "kx_reversalOf r = None" "\<not> kx_deleted r"
    "\<not> starts_with REV_PREFIX (opt_string (kx_docRef r))" "kx_id r = next"
  shows "kardex_ok (K @ [r]) (next + 1)"
  using assms by (fastforce simp: kardex_ok_def sorted_wrt_append reversal_ok_def deleted_ok_def)

text \<open>Voiding: the document's rows are marked deleted and reversal rows are appended.\<close>

definition mark_doc :: "nat \<Rightarrow> kardex_row list \<Rightarrow> kardex_row list" where
  "mark_doc d K = update_rows (\<lambda>r. kx_doc r = Some d) (\<lambda>r. r\<lparr>kx_deleted := True\<rparr>) K"

text \<open>What the reversal rows of a list of originals are.\<close>

definition reverses :: "kardex_row \<Rightarrow> kardex_row \<Rightarrow> bool" where
  "reverses q r \<longleftrightarrow> kx_reversalOf r = Some (kx_id q) \<and> kx_item r = kx_item q \<and> kx_doc r = kx_doc q \<and>
    kx_type r = reversal_type (kx_type q) \<and> kx_qty r = kx_qty q \<and> kx_price r = kx_price q \<and> \<not> kx_deleted r \<and>
    starts_with REV_PREFIX (opt_string (kx_docRef r)) \<and>
    (kx_docType q = Some ''transfer'' \<longrightarrow> kx_docType r = Some ''transfer'')"

text \<open>The part of it that holds whatever the cost and the number of the original row are.\<close>

definition undoes :: "kardex_row \<Rightarrow> kardex_row \<Rightarrow> bool" where
  "undoes q r \<longleftrightarrow> kx_reversalOf r = Some (kx_id q) \<and> kx_item r = kx_item q \<and> kx_doc r = kx_doc q \<and>
    kx_type r = reversal_type (kx_type q) \<and> kx_qty r = kx_qty q \<and> \<not> kx_deleted r"

lemma reverses_undoes: "list_all2 reverses os rs \<Longrightarrow> list_all2 undoes os rs"
  by (erule list_all2_mono) (simp add: reverses_def undoes_def)

lemma kaction_reversal:
  assumes "reverses q r" "row_ok q" "kardex_original K r = Some (q\<lparr>kx_deleted := True\<rparr>)"
  shows "kaction_of K r = Some (void_action q)"
  using assms
  by (auto simp: reverses_def row_ok_def kaction_of_def kardex_counts_def kardex_quantityOnly_def void_action_def
      reversal_type_def isInType_def isOutType_def kardex_price_def Let_def)

definition marked :: "nat \<Rightarrow> kardex_row \<Rightarrow> kardex_row" where
  "marked d r = (if kx_doc r = Some d then r\<lparr>kx_deleted := True\<rparr> else r)"

lemma mark_doc_map: "mark_doc d K = map (marked d) K"
  by (simp add: mark_doc_def update_rows_def marked_def)

lemma marked_simps [simp]:
  "kx_id (marked d r) = kx_id r" "kx_item (marked d r) = kx_item r" "kx_doc (marked d r) = kx_doc r"
  "kx_type (marked d r) = kx_type r" "kx_qty (marked d r) = kx_qty r" "kx_price (marked d r) = kx_price r"
  "kx_docType (marked d r) = kx_docType r" "kx_docRef (marked d r) = kx_docRef r"
  "kx_reversalOf (marked d r) = kx_reversalOf r" "kx_location (marked d r) = kx_location r"
  "kx_doc r \<noteq> Some d \<Longrightarrow> marked d r = r" "kx_doc r = Some d \<Longrightarrow> kx_deleted (marked d r)"
  "kx_deleted r \<Longrightarrow> kx_deleted (marked d r)"
  by (simp_all add: marked_def)

lemma plain_action_marked [simp]: "plain_action (marked d r) = plain_action r"
  by (simp add: plain_action_def kardex_price_def)

lemma row_ok_marked [simp]: "row_ok (marked d r) = row_ok r"
  by (simp add: row_ok_def)

lemma item_rows_mark [simp]: "item_rows (mark_doc d K) i = map (marked d) (item_rows K i)"
  by (induction K) (auto simp: item_rows_def mark_doc_map)

lemma volume_mark [simp]: "volume (mark_doc d K) i = volume K i"
  by (simp add: volume_def comp_def)

text \<open>The rows of a live document: not deleted, no reversals.\<close>

definition doc_live :: "nat \<Rightarrow> kardex_row list \<Rightarrow> bool" where
  "doc_live d K \<longleftrightarrow> (\<forall>r \<in> set K. kx_doc r = Some d \<longrightarrow> \<not> kx_deleted r \<and> kx_reversalOf r = None)"

definition originals :: "nat \<Rightarrow> kardex_row list \<Rightarrow> kardex_row list" where
  "originals d K = filter (is_original d) K"

text \<open>Fresh reversal rows, one for each original.\<close>

definition void_rows :: "nat \<Rightarrow> nat \<Rightarrow> kardex_row list \<Rightarrow> kardex_row list \<Rightarrow> bool" where
  "void_rows d next K revs \<longleftrightarrow> list_all2 reverses (originals d K) revs \<and>
    sorted_wrt (<) (map kx_id revs) \<and> (\<forall>r \<in> set revs. next \<le> kx_id r \<and> kx_id r < next + length revs)"

lemma set_originals: "set (originals d K) = {r \<in> set K. kx_doc r = Some d \<and> \<not> kx_deleted r}"
  by (auto simp: originals_def is_original_def)

text \<open>A list related to the originals one by one.\<close>

lemma original_of:
  assumes "list_all2 P (originals d K) revs" "r \<in> set revs"
  obtains q where "q \<in> set K" "kx_doc q = Some d" "\<not> kx_deleted q" "P q r"
proof -
  from assms(2) obtain n where n: "n < length revs" "revs ! n = r" by (auto simp: in_set_conv_nth)
  with assms(1) have "P (originals d K ! n) r" "n < length (originals d K)"
    using list_all2_nthD2 list_all2_lengthD by fastforce+
  then show thesis using that nth_mem [of n "originals d K"] by (auto simp: set_originals)
qed

lemma original_has:
  assumes "list_all2 P (originals d K) revs" "q \<in> set K" "kx_doc q = Some d" "\<not> kx_deleted q"
  obtains r where "r \<in> set revs" "P q r"
proof -
  have "q \<in> set (originals d K)" using assms by (simp add: set_originals)
  then obtain n where "n < length (originals d K)" "originals d K ! n = q" by (auto simp: in_set_conv_nth)
  with assms(1) have "P q (revs ! n)" "n < length revs"
    using list_all2_nthD list_all2_lengthD by fastforce+
  then show thesis using that nth_mem by blast
qed

lemma void_rows_all2: "void_rows d next K revs \<Longrightarrow> list_all2 reverses (originals d K) revs"
  by (simp add: void_rows_def)

lemmas void_rows_of = original_has [OF void_rows_all2]
lemmas void_rows_original = original_of [OF void_rows_all2]

lemma kardex_ok_void:
  assumes ok: "kardex_ok K next" and live: "doc_live d K" and vr: "void_rows d next K revs"
  shows "kardex_ok (mark_doc d K @ revs) (next + length revs)"
proof -
  let ?K' = "mark_doc d K @ revs"
  have inK: "x \<in> set K \<Longrightarrow> kx_doc x \<noteq> Some d \<Longrightarrow> x \<in> set ?K'" for x
    by (auto simp: mark_doc_map image_iff) (metis marked_simps(11))
  have row: "kx_id r < next \<and> row_ok r \<and> reversal_ok K r \<and> deleted_ok K r \<and>
      (kx_reversalOf r = None \<longrightarrow> \<not> starts_with REV_PREFIX (opt_string (kx_docRef r)))" if "r \<in> set K" for r
    using ok that by (simp add: kardex_ok_def)
  have old: "reversal_ok ?K' (marked d x) \<and> deleted_ok ?K' (marked d x)" if x: "x \<in> set K" for x
  proof (cases "kx_doc x = Some d")
    case True
    with live x have l: "\<not> kx_deleted x" "kx_reversalOf x = None" by (auto simp: doc_live_def)
    from void_rows_of [OF vr x True l(1)] obtain r where "r \<in> set revs" "reverses x r" .
    with l True show ?thesis
      by (auto simp: reversal_ok_def deleted_ok_def reverses_def intro!: bexI [of _ r])
  next
    case False
    then have m: "marked d x = x" by simp
    have "reversal_ok ?K' x" unfolding reversal_ok_def
    proof (intro allI impI)
      fix j assume j: "kx_reversalOf x = Some j"
      with row [OF x] obtain q where "\<not> kx_deleted x" "q \<in> set K" "kx_id q = j" "kx_deleted q" "kx_item q = kx_item x"
        "kx_doc q = kx_doc x" by (force simp: reversal_ok_def)
      with False inK [of q] show "\<not> kx_deleted x \<and> (\<exists>q\<in>set ?K'. kx_id q = j \<and> kx_deleted q \<and>
          kx_item q = kx_item x \<and> kx_doc q = kx_doc x)" by auto
    qed
    moreover have "deleted_ok ?K' x" unfolding deleted_ok_def
    proof
      assume "kx_deleted x"
      with row [OF x] obtain q where "kx_reversalOf x = None" "q \<in> set K" "kx_reversalOf q = Some (kx_id x)"
        "\<not> kx_deleted q" "kx_item q = kx_item x" "kx_doc q = kx_doc x" by (force simp: deleted_ok_def)
      with False inK [of q] show "kx_reversalOf x = None \<and> (\<exists>q\<in>set ?K'. kx_reversalOf q = Some (kx_id x) \<and>
          \<not> kx_deleted q \<and> kx_item q = kx_item x \<and> kx_doc q = kx_doc x)" by auto
    qed
    ultimately show ?thesis by (simp only: m)
  qed
  have new: "row_ok r \<and> reversal_ok ?K' r \<and> deleted_ok ?K' r \<and> kx_reversalOf r \<noteq> None" if r: "r \<in> set revs" for r
  proof -
    from void_rows_original [OF vr r] obtain q where q: "q \<in> set K" "kx_doc q = Some d" "reverses q r" .
    have "marked d q \<in> set ?K'" using q by (simp add: mark_doc_map)
    with q row [OF q(1)] show ?thesis
      by (auto simp: reverses_def row_ok_def reversal_type_def reversal_ok_def deleted_ok_def intro!: bexI [of _ "marked d q"])
  qed
  have "sorted_wrt (<) (map kx_id ?K')"
    using ok vr by (force simp: kardex_ok_def void_rows_def mark_doc_map comp_def sorted_wrt_append)
  moreover have "\<forall>r \<in> set ?K'. kx_id r < next + length revs"
    using row vr by (force simp: mark_doc_map void_rows_def)
  moreover have "row_ok x \<and> reversal_ok ?K' x \<and> deleted_ok ?K' x \<and>
      (kx_reversalOf x = None \<longrightarrow> \<not> starts_with REV_PREFIX (opt_string (kx_docRef x)))" if "x \<in> set ?K'" for x
  proof (cases "x \<in> set revs")
    case True
    with new [OF True] show ?thesis by blast
  next
    case False
    with that obtain y where y: "y \<in> set K" "x = marked d y" by (auto simp: mark_doc_map)
    with old [OF y(1)] row [OF y(1)] show ?thesis by simp
  qed
  ultimately show ?thesis unfolding kardex_ok_def by blast
qed

lemma kardex_actions_all:
  "list_all2 (\<lambda>a r. kaction_of K r = Some a) as rs \<Longrightarrow> kardex_actions K rs = as"
  by (induction rule: list_all2_induct) auto

lemma item_rows_filter_all2:
  assumes "list_all2 reverses qs rs"
  shows "list_all2 reverses (item_rows qs i) (item_rows rs i)"
  using assms by (induction rule: list_all2_induct) (auto simp: item_rows_def reverses_def)

text \<open>Voiding a document leaves the actions of the old rows and appends those of the reversals.\<close>

lemma item_actions_void:
  assumes ok: "kardex_ok K next" and live: "doc_live d K" and vr: "void_rows d next K revs"
  shows "item_actions (mark_doc d K @ revs) i = item_actions K i @ map void_action (item_rows (originals d K) i)"
proof -
  let ?K' = "mark_doc d K @ revs" and ?I = "item_rows K i"
  let ?I' = "item_rows ?K' i" and ?R = "item_rows revs i"
  note ok' = kardex_ok_void [OF ok live vr]
  have I': "?I' = map (marked d) ?I @ ?R" by simp
  have old: "kaction_of ?I' (marked d x) = kaction_of ?I x" if x: "x \<in> set K" "kx_item x = i" for x
  proof (cases "kx_doc x = Some d")
    case True
    with live x have l: "\<not> kx_deleted x" "kx_reversalOf x = None" by (auto simp: doc_live_def)
    from void_rows_of [OF vr x(1) True l(1)] obtain r where "r \<in> set revs" "reverses x r" .
    then have "activelyReversed ?I' (kx_id x)"
      using x by (auto simp: activelyReversed_def reverses_def list_ex_iff)
    moreover have "row_ok x" "\<not> starts_with REV_PREFIX (opt_string (kx_docRef x))"
      using ok x l by (auto simp: kardex_ok_def)
    ultimately show ?thesis
      using kaction_plain [of "marked d x" ?I'] kaction_plain [of x ?I] l by simp
  next
    case False
    then have m: "marked d x = x" by simp
    then have x': "x \<in> set ?K'" using x by (auto simp: mark_doc_map intro: image_eqI [of _ _ x])
    have "kaction_of ?I' x = kaction_of ?I x"
    proof (rule kaction_cong)
      assume "kx_deleted x"
      then show "activelyReversed ?I' (kx_id x) = activelyReversed ?I (kx_id x)"
        using deleted_activelyReversed [OF ok x(1)] deleted_activelyReversed [OF ok' x'] x by simp
    next
      show "kardex_original ?I' x = kardex_original ?I x"
      proof (cases "kx_reversalOf x")
        case (Some j)
        from original_item_rows [OF ok x(1) Some] x(2)
        obtain q where q: "kardex_original ?I x = Some q" "q \<in> set K" "kx_id q = j" "kx_doc q = kx_doc x" "kx_item q = i"
          by metis
        with False have "q \<in> set ?K'" by (auto simp: mark_doc_map intro: image_eqI [of _ _ q])
        from byId_item_rows [OF ok' this q(5)] q Some show ?thesis by (simp add: kardex_original_def)
      qed (simp add: kardex_original_def)
    qed
    with m show ?thesis by simp
  qed
  have "kardex_actions ?I' (map (marked d) ?I) = kardex_actions ?I ?I"
    unfolding kardex_actions_def map_filter_map
    by (rule map_filter_cong) (use old in auto)
  moreover have "kardex_actions ?I' ?R = map void_action (item_rows (originals d K) i)"
  proof (rule kardex_actions_all, unfold list_all2_map1, rule list.rel_mono_strong)
    show "list_all2 reverses (item_rows (originals d K) i) ?R"
      using vr by (intro item_rows_filter_all2) (simp add: void_rows_def)
  next
    fix q r
    assume "q \<in> set (item_rows (originals d K) i)" and a: "reverses q r"
    then have q: "q \<in> set K" "kx_doc q = Some d" "kx_item q = i" "\<not> kx_deleted q" by (auto simp: set_originals)
    then have "marked d q \<in> set ?K'" by (simp add: mark_doc_map)
    from byId_item_rows [OF ok' this] q have "kardex_byId ?I' (kx_id q) = Some (marked d q)" by simp
    with a have "kardex_original ?I' r = Some (q\<lparr>kx_deleted := True\<rparr>)"
      using q by (simp add: kardex_original_def reverses_def marked_def)
    then show "kaction_of ?I' r = Some (void_action q)"
      using a q ok by (intro kaction_reversal) (auto simp: kardex_ok_def)
  qed
  ultimately show ?thesis
    unfolding item_actions_def I' kardex_actions_append by simp
qed

section \<open>Costs stay non-negative with four decimals\<close>

lemma digits_fit_0 [simp]: "digits_fit n 0"
  unfolding digits_fit_def by (rule exI [of _ 0]) simp

context decimal_js begin

lemma wac_scaled: "scaled 4 cc \<Longrightarrow> scaled 4 (calculateWAC L cq cc iq ip)"
  by (simp add: calculateWAC_def Let_def round_half_up)

lemma quot_nonneg: "0 \<le> a \<Longrightarrow> 0 \<le> b \<Longrightarrow> b \<noteq> 0 \<Longrightarrow> 0 \<le> fin_quot L a b dp"
  unfolding fin_quot_def toDP_half_up
  by (intro half_up_nonneg nearest_fit_ge [OF div_nearest]) auto

lemma wac_nonneg:
  assumes "0 \<le> cc"
  shows "0 \<le> calculateWAC L cq cc iq ip"
proof -
  have "0 \<le> fin_quot L (fin_add L (fin_multiply L cq cc) (fin_multiply L iq ip)) (fin_add L cq iq) 4"
    if "0 < cq" "0 < iq" "0 < ip" "fin_add L cq iq \<noteq> 0"
  proof (rule quot_nonneg)
    have "0 \<le> fin_multiply L cq cc" "0 \<le> fin_multiply L iq ip"
      unfolding fin_multiply_def
      by (rule nearest_fit_ge [OF times_nearest]; use assms that in simp)+
    then show "0 \<le> fin_add L (fin_multiply L cq cc) (fin_multiply L iq ip)"
      unfolding fin_add_def by (intro nearest_fit_ge [OF plus_nearest]) auto
    show "0 \<le> fin_add L cq iq"
      unfolding fin_add_def by (rule nearest_fit_ge [OF plus_nearest]) (use that in auto)
  qed (use that in auto)
  then show ?thesis
    using assms by (auto simp: calculateWAC_def Let_def round_half_up half_up_nonneg)
qed

lemma void_wac_ok:
  assumes "scaled 4 w" "0 \<le> w"
  shows "scaled 4 (void_in_wac L b nb w q p)" "0 \<le> void_in_wac L b nb w q p"
  using assms by (auto simp: void_in_wac_def Let_def round_half_up intro!: half_up_nonneg quot_nonneg)

lemma toDb_scaled: "scaled 4 x \<Longrightarrow> fin_toDb L x = x"
  by (simp add: fin_toDb_def round_half_up)

text \<open>Valuing a free receipt at the cost in force leaves the cost unchanged.\<close>

lemma wac_same_cost:
  assumes "money4 w" "0 < w" "qty4 b" "0 \<le> b" "qty4 q" "0 < q"
  shows "calculateWAC L b w q w = w"
proof (cases "b = 0")
  case True
  with assms show ?thesis by (simp add: calculateWAC_def round_half_up money4_def)
next
  case False
  with assms wac_between [of b w q w] show ?thesis by auto
qed

end

section \<open>The invariant\<close>

text \<open>No prefix of the actions takes the balance below zero.\<close>

definition never_negative :: "decimal_lib \<Rightarrow> kaction list \<Rightarrow> rat \<times> rat \<Rightarrow> bool" where
  "never_negative L as st \<longleftrightarrow> (\<forall>n. 0 \<le> fst (kfold L (take n as) st))"

text \<open>Stock, cost and Kardex agree for one item.\<close>

definition item_agrees :: "decimal_lib \<Rightarrow> kaction list \<Rightarrow> rat \<Rightarrow> rat \<Rightarrow> bool" where
  "item_agrees L as tot wac \<longleftrightarrow>
    scaled 4 wac \<and> 0 \<le> wac \<and> never_negative L as (0, 0) \<and>
    (if as = [] then tot = 0 else kfold L as (0, 0) = (tot, wac))"

definition core_inv :: "decimal_lib \<Rightarrow> stock_db \<Rightarrow> bool" where
  "core_inv L s \<longleftrightarrow> stock_rows_ok (db_warehouses s) (db_stocks s) \<and> kardex_ok (db_kardex s) (db_nextTx s) \<and>
    (\<forall>r \<in> set (db_kardex s). db_items s (kx_item r) \<noteq> None) \<and>
    (\<forall>i. item_total (db_stocks s) i \<le> volume (db_kardex s) i) \<and>
    (\<forall>i it. db_items s i = Some it \<longrightarrow>
      item_agrees L (item_actions (db_kardex s) i) (item_total (db_stocks s) i) (im_wac it))"

definition small_volumes :: "stock_db \<Rightarrow> bool" where
  "small_volumes s \<longleftrightarrow> (\<forall>i. volume (db_kardex s) i < 10 ^ 10)"

definition small_costs :: "stock_db \<Rightarrow> bool" where
  "small_costs s \<longleftrightarrow> (\<forall>i it. db_items s i = Some it \<longrightarrow> im_wac it < 10 ^ 11)"

text \<open>Movements the claims cover: numbers within range, and a number that does not look like a reversal's.\<close>

definition movement_ok :: "movement \<Rightarrow> bool" where
  "movement_ok p \<longleftrightarrow> mv_docType p \<noteq> ''transfer'' \<and> \<not> starts_with REV_PREFIX (mv_docRef p) \<and>
    (\<forall>x. mv_qty p = Some x \<longrightarrow> \<bar>x\<bar> \<le> 10 ^ 10) \<and>
    (\<forall>x. mv_dir p = DirIn \<longrightarrow> mv_price p = Some x \<longrightarrow> money4 x)"

lemma movementE:
  assumes "applyStockMovement L env p s = Inr s'"
  obtains wh q price it u stocks day ev where
    "stockMovementQuantity L (mv_qty p) = Some q" "0 < q" "mv_price p = Some price" "0 \<le> price"
    "db_items s (mv_item p) = Some it"
    "movement_unit_price (mv_item p) (mv_dir p) (mv_docType p) (im_wac it) price = Inr u"
    "applyMovement L (db_warehouses s) (mv_item p) wh (mv_dir p) (Some q) (db_stocks s) = Inr stocks"
    "s' = s\<lparr>db_kardex := db_kardex s @ [movement_row L (db_nextTx s) p q u day (wh_code wh)],
       db_nextTx := db_nextTx s + 1, db_stocks := stocks,
       db_items := (db_items s)(mv_item p \<mapsto> it\<lparr>
         im_wac := fin_toDb L (if mv_dir p = DirIn
           then calculateWAC L (sn_total (getStockSnapshot L (db_warehouses s) (db_stocks s) (mv_item p))) (im_wac it) q price
           else im_wac it),
         im_version := nextVersion (im_version it)\<rparr>),
       db_events := db_events s @ [ev]\<rparr>"
proof -
  from assms obtain wh where 1: "(case stockMovementQuantity L (mv_qty p) of None \<Rightarrow> Inl BadQuantity
      | Some qty \<Rightarrow> applyStockMovement_at L env p s wh qty) = Inr s'"
    unfolding applyStockMovement_def res_bind_Inr by blast
  then obtain q where q: "stockMovementQuantity L (mv_qty p) = Some q" and 2: "applyStockMovement_at L env p s wh q = Inr s'"
    by (cases "stockMovementQuantity L (mv_qty p)") auto
  from 2 have q0: "0 < q" and 3: "(case mv_price p of None \<Rightarrow> Inl BadPrice
      | Some price \<Rightarrow> applyStockMovement_priced L env p s wh q price) = Inr s'"
    by (auto simp: applyStockMovement_at_def split: if_splits)
  from 3 obtain price where pr: "mv_price p = Some price"
      and 4: "applyStockMovement_priced L env p s wh q price = Inr s'"
    by (cases "mv_price p") auto
  from 4 obtain it where pr0: "0 \<le> price" and it: "db_items s (mv_item p) = Some it"
      and 5: "applyStockMovement_item L env p s wh q price it = Inr s'"
    by (auto simp: applyStockMovement_priced_def split: if_splits option.splits)
  from 5 show thesis unfolding applyStockMovement_item_def Let_def res_bind_Inr
    by (elim exE conjE) (rule that [OF q q0 pr pr0 it], assumption, assumption, blast)
qed

lemma item_actions_other:
  "kx_item r \<noteq> i \<Longrightarrow> item_actions (K @ [r]) i = item_actions K i"
  by (simp add: item_actions_def item_rows_def)

lemma item_agreesD: "item_agrees L as t w \<Longrightarrow> as \<noteq> [] \<Longrightarrow> kfold L as (0, 0) = (t, w)"
  by (simp add: item_agrees_def)

text \<open>One more action on an item whose stock and cost agree with the Kardex.\<close>

lemma item_agrees_snoc:
  assumes ag: "item_agrees L as t w" and w': "scaled 4 w'" "0 \<le> w'" and t': "0 \<le> t'"
    and st: "kstep L a (t, w) = (t', w')" "as = [] \<Longrightarrow> kstep L a (0, 0) = (t', w')"
  shows "item_agrees L (as @ [a]) t' w'"
proof -
  have all: "kfold L (as @ [a]) (0, 0) = (t', w')"
    using ag st by (auto simp: item_agrees_def kfold_def split: if_splits)
  have "0 \<le> fst (kfold L (take n (as @ [a])) (0, 0))" for n
  proof (cases "n \<le> length as")
    case True
    with ag show ?thesis by (simp add: item_agrees_def never_negative_def)
  next
    case False
    then have "take n (as @ [a]) = as @ [a]" by simp
    with all t' show ?thesis by simp
  qed
  with all w' show ?thesis by (simp add: item_agrees_def never_negative_def)
qed

lemma item_agrees_append:
  assumes ag: "item_agrees L as t w" "as \<noteq> []" and w': "scaled 4 w'" "0 \<le> w'"
    and st: "(t', w') = kfold L bs (t, w)" and nn: "never_negative L bs (t, w)"
  shows "item_agrees L (as @ bs) t' w'"
proof -
  have as: "kfold L as (0, 0) = (t, w)" using ag by (simp add: item_agrees_def)
  then have all: "kfold L (as @ bs) (0, 0) = (t', w')" using st by (simp add: kfold_def)
  have "0 \<le> fst (kfold L (take n (as @ bs)) (0, 0))" for n
  proof (cases "n \<le> length as")
    case True
    with ag show ?thesis by (simp add: item_agrees_def never_negative_def)
  next
    case False
    then have "kfold L (take n (as @ bs)) (0, 0) = kfold L (take (n - length as) bs) (t, w)"
      using as by (simp add: kfold_def)
    with nn show ?thesis by (simp add: never_negative_def)
  qed
  with all w' ag(2) show ?thesis by (simp add: item_agrees_def never_negative_def)
qed

lemma never_negative_Nil [simp]: "never_negative L [] st \<longleftrightarrow> 0 \<le> fst st"
  by (simp add: never_negative_def kfold_def)

lemma never_negative_Cons [simp]:
  "never_negative L (a # as) st \<longleftrightarrow> 0 \<le> fst st \<and> never_negative L as (kstep L a st)"
proof
  assume nn: "never_negative L (a # as) st"
  have "0 \<le> fst (kfold L (take 0 (a # as)) st)" using nn unfolding never_negative_def by blast
  moreover have "0 \<le> fst (kfold L (take (Suc n) (a # as)) st)" for n
    using nn unfolding never_negative_def by blast
  ultimately show "0 \<le> fst st \<and> never_negative L as (kstep L a st)"
    by (auto simp: never_negative_def kfold_def)
next
  assume a: "0 \<le> fst st \<and> never_negative L as (kstep L a st)"
  have "0 \<le> fst (kfold L (take n (a # as)) st)" for n
    using a by (cases n) (auto simp: never_negative_def kfold_def)
  then show "never_negative L (a # as) st" by (simp add: never_negative_def)
qed

context decimal_js begin

lemma quantity_scaled:
  assumes "stockMovementQuantity L (Some x) = Some q" "\<bar>x\<bar> \<le> 10 ^ 10"
  shows "scaled 4 q"
proof -
  have "- (10 ^ 10) \<le> half_up x 4" "half_up x 4 \<le> 10 ^ 10"
    using assms(2) half_up_ge [of 4 "- (10 ^ 10)" x] half_up_le [of 4 "10 ^ 10" x] by (auto simp: abs_le_iff)
  then have "fin_toNumber L (fin_round L x 4) = half_up x 4"
    by (simp add: round_half_up toNumber_scaled abs_less_iff)
  with assms show ?thesis by (auto simp: stockMovementQuantity_def)
qed

text \<open>A movement keeps stock, cost and Kardex of its item in agreement.\<close>

lemma movement_agrees:
  assumes ag: "item_agrees L as t w" and t: "scaled 4 t" "0 \<le> t" and q: "scaled 4 q" "0 < q"
    and small: "t + q < 10 ^ 10" "w < 10 ^ 11"
    and u: "movement_unit_price item d docType w price = Inr u" and price: "0 \<le> price" "d = DirIn \<Longrightarrow> money4 price"
    and out: "d = DirOut \<Longrightarrow> q \<le> t"
    and t': "t' = (case d of DirIn \<Rightarrow> t + q | DirOut \<Rightarrow> t - q)"
    and w': "w' = fin_toDb L (if d = DirIn then calculateWAC L t w q price else w)"
  shows "item_agrees L (as @ [if d = DirIn then KIn q (fin_toDb L u) else KOut q]) t' w'"
    "d = DirIn \<Longrightarrow> w' < 10 ^ 11" "d = DirOut \<Longrightarrow> w' = w" "scaled 4 u" "0 \<le> u"
proof -
  have w: "scaled 4 w" "0 \<le> w" using ag by (auto simp: item_agrees_def)
  then have mw: "money4 w" using small by (simp add: money4_def)
  have qt: "qty4 t" "qty4 q" using t q small by (auto simp: qty4_def)
  show u4: "scaled 4 u" "0 \<le> u"
    using u w price by (cases d; auto simp: movement_unit_price_def money4_def split: if_splits)+
  have add: "fin_add L t q = t + q" by (rule qty_sum_exact [OF qt])
  have sub: "fin_subtract L t q = t - q" by (rule subtract_scaled4) (use t q small in auto)
  have zero: "as = [] \<Longrightarrow> t = 0" using ag by (simp add: item_agrees_def)
  show "item_agrees L (as @ [if d = DirIn then KIn q (fin_toDb L u) else KOut q]) t' w'"
  proof (cases d)
    case DirOut
    have "as \<noteq> []" using out [OF DirOut] zero q by auto
    with DirOut show ?thesis
      using w out [OF DirOut] by (intro item_agrees_snoc [OF ag]) (auto simp: w' t' sub toDb_scaled)
  next
    case DirIn
    have w'eq: "w' = calculateWAC L t w q price"
      using DirIn w by (simp add: w' toDb_scaled wac_scaled)
    have "calculateWAC L t w q (fin_toDb L u) = w'"
    proof (cases "price > 0")
      case True
      then show ?thesis using u DirIn price u4 by (simp add: movement_unit_price_def toDb_scaled w'eq)
    next
      case False
      then have "w' = w" using q by (simp add: w'eq calculateWAC_def)
      moreover have "0 < w \<Longrightarrow> calculateWAC L t w q w = w" by (rule wac_same_cost) (use mw qt t q in auto)
      ultimately show ?thesis
        using False u DirIn u4 w price by (auto simp: movement_unit_price_def toDb_scaled calculateWAC_def split: if_splits)
    qed
    moreover have "calculateWAC L 0 0 q (fin_toDb L u) = w'" if "t = 0" "as = []"
    proof (cases "price > 0")
      case True
      then show ?thesis using u DirIn price u4 q that
        by (simp add: movement_unit_price_def toDb_scaled w'eq calculateWAC_def)
    next
      case False
      then have "w' = w" using q by (simp add: w'eq calculateWAC_def)
      then show ?thesis
        using False u DirIn u4 w q price that
        by (auto simp: movement_unit_price_def toDb_scaled calculateWAC_def round_half_up split: if_splits)
    qed
    moreover have "fin_add L 0 q = q" by (rule add_scaled4 [of 0, simplified]) (use q small t in auto)
    ultimately show ?thesis
      using DirIn w add zero t q by (intro item_agrees_snoc [OF ag]) (auto simp: w'eq t' wac_scaled wac_nonneg)
  qed
  show "d = DirIn \<Longrightarrow> w' < 10 ^ 11"
    using wac_money4 [OF qt(1) mw qt(2) price(2)] w
    by (auto simp: w' toDb_scaled wac_scaled money4_def abs_less_iff)
  show "d = DirOut \<Longrightarrow> w' = w" using w by (simp add: w' toDb_scaled)
qed

end

lemma movement_row_fields [simp]:
  "kx_id (movement_row L n p q u day c) = n" "kx_item (movement_row L n p q u day c) = mv_item p"
  "kx_doc (movement_row L n p q u day c) = mv_doc p" "kx_qty (movement_row L n p q u day c) = q"
  "kx_type (movement_row L n p q u day c) = dir_type (mv_dir p)"
  "kx_price (movement_row L n p q u day c) = Some (fin_toDb L u)"
  "kx_docType (movement_row L n p q u day c) = Some (mv_docType p)"
  "kx_docRef (movement_row L n p q u day c) = Some (mv_docRef p)"
  "kx_reversalOf (movement_row L n p q u day c) = None" "\<not> kx_deleted (movement_row L n p q u day c)"
  by (simp_all add: movement_row_def)

lemma volume_simps [simp]:
  "volume [] i = 0" "volume (r # rs) i = (if kx_item r = i then kx_qty r else 0) + volume rs i"
  by (simp_all add: volume_def item_rows_def)

lemma volume_nonneg: "\<forall>r \<in> set rs. row_ok r \<Longrightarrow> 0 \<le> volume rs i"
  by (induction rs) (auto simp: row_ok_def)

lemma plain_action_movement:
  "mv_docType p \<noteq> ''transfer'' \<Longrightarrow>
    plain_action (movement_row L n p q u day c) = (if mv_dir p = DirIn then KIn q (fin_toDb L u) else KOut q)"
  by (cases "mv_dir p") (auto simp: plain_action_def dir_type_def kardex_price_def)

text \<open>What an operation may do to the rest of the state.\<close>

definition frame :: "stock_db \<Rightarrow> stock_db \<Rightarrow> kardex_row list \<Rightarrow> bool" where
  "frame s s' rs \<longleftrightarrow> db_docs s' = db_docs s \<and> db_warehouses s' = db_warehouses s \<and> db_kardex s' = db_kardex s @ rs"

context decimal_js begin

lemma movement_core:
  assumes mv: "applyStockMovement L env p s = Inr s'" and inv: "core_inv L s" and ok: "movement_ok p"
    and costs: "small_costs s" and vol: "small_volumes s'"
  obtains r where "core_inv L s'" "small_costs s'" "frame s s' [r]" "kx_doc r = mv_doc p" "\<not> kx_deleted r"
    "kx_reversalOf r = None"
proof -
  from movementE [OF mv] obtain wh q price it u stocks day ev where
    q: "stockMovementQuantity L (mv_qty p) = Some q" "0 < q" and price: "mv_price p = Some price" "0 \<le> price"
    and it: "db_items s (mv_item p) = Some it"
    and u: "movement_unit_price (mv_item p) (mv_dir p) (mv_docType p) (im_wac it) price = Inr u"
    and st: "applyMovement L (db_warehouses s) (mv_item p) wh (mv_dir p) (Some q) (db_stocks s) = Inr stocks"
    and s': "s' = s\<lparr>db_kardex := db_kardex s @ [movement_row L (db_nextTx s) p q u day (wh_code wh)],
       db_nextTx := db_nextTx s + 1, db_stocks := stocks,
       db_items := (db_items s)(mv_item p \<mapsto> it\<lparr>
         im_wac := fin_toDb L (if mv_dir p = DirIn
           then calculateWAC L (sn_total (getStockSnapshot L (db_warehouses s) (db_stocks s) (mv_item p))) (im_wac it) q price
           else im_wac it),
         im_version := nextVersion (im_version it)\<rparr>),
       db_events := db_events s @ [ev]\<rparr>" .
  let ?i = "mv_item p" and ?K = "db_kardex s" and ?d = "mv_dir p"
  let ?r = "movement_row L (db_nextTx s) p q u day (wh_code wh)"
  let ?t = "item_total (db_stocks s) ?i"
  from inv have rows: "stock_rows_ok (db_warehouses s) (db_stocks s)" and kok: "kardex_ok ?K (db_nextTx s)"
    and tv: "\<And>i. item_total (db_stocks s) i \<le> volume ?K i"
    and ag: "item_agrees L (item_actions ?K ?i) ?t (im_wac it)"
    using it by (auto simp: core_inv_def)
  obtain x where x: "mv_qty p = Some x" using q by (auto simp: stockMovementQuantity_def)
  have q4: "scaled 4 q" using q ok x by (intro quantity_scaled [of x]) (auto simp: movement_ok_def)
  have small: "?t + q < 10 ^ 10"
    using tv [of ?i] vol by (auto simp: small_volumes_def s' dest!: spec [of _ ?i])
  then have total: "sn_total (getStockSnapshot L (db_warehouses s) (db_stocks s) ?i) = ?t"
    using q by (intro snapshot_total rows) auto
  have small': "?t + q < 10 ^ 11" using small by simp
  note eff = applyMovement_spec [OF st rows q4 small']
  define w' where "w' = fin_toDb L (if ?d = DirIn then calculateWAC L ?t (im_wac it) q price else im_wac it)"
  have it': "db_items s' = (db_items s)(?i \<mapsto> it\<lparr>im_wac := w', im_version := nextVersion (im_version it)\<rparr>)"
    by (simp add: s' total w'_def)
  note agree = movement_agrees [OF ag item_total_scaled [OF rows] item_total_nonneg [OF rows] q4 q(2) small _ u price(2)
      _ _ refl w'_def]
  have pm: "?d = DirIn \<Longrightarrow> money4 price" using ok price by (simp add: movement_ok_def)
  have out: "?d = DirOut \<Longrightarrow> q \<le> ?t"
    using eff(5) stock_of_le_total [OF rows, of ?i "wh_id wh"] by linarith
  have wsmall: "im_wac it < 10 ^ 11" using costs it by (auto simp: small_costs_def)
  note agree = agree [OF wsmall pm out]
  have rok: "row_ok ?r" "\<not> starts_with REV_PREFIX (opt_string (kx_docRef ?r))"
    using agree(4,5) q q4 ok by (auto simp: row_ok_def dir_type_def toDb_scaled movement_ok_def opt_string_def
        split: direction.splits)
  have acts: "item_actions (?K @ [?r]) ?i = item_actions ?K ?i @ [if ?d = DirIn then KIn q (fin_toDb L u) else KOut q]"
    using item_actions_append [OF kok rok(1) _ _ rok(2), of ?i] ok
    by (simp add: plain_action_movement movement_ok_def)
  have "core_inv L s'" unfolding core_inv_def
  proof (intro conjI allI impI ballI)
    show "stock_rows_ok (db_warehouses s') (db_stocks s')" using eff(2) by (simp add: s')
    show "kardex_ok (db_kardex s') (db_nextTx s')"
      using kardex_ok_append [OF kok rok(1) _ _ rok(2)] by (simp add: s')
    show "item_total (db_stocks s') j \<le> volume (db_kardex s') j" for j
      using eff(4) [of j] tv [of j] q(2) by (auto simp: s' split: direction.splits)
    show "db_items s' (kx_item r) \<noteq> None" if "r \<in> set (db_kardex s')" for r
      using that inv by (auto simp: s' core_inv_def)
    show "item_agrees L (item_actions (db_kardex s') j) (item_total (db_stocks s') j) (im_wac jt)"
      if j: "db_items s' j = Some jt" for j jt
    proof (cases "j = ?i")
      case True
      with j have "im_wac jt = w'" by (auto simp: it')
      moreover have "db_kardex s' = ?K @ [?r]" "db_stocks s' = stocks" by (simp_all add: s')
      ultimately show ?thesis using agree(1) acts eff(4) [of ?i] True by simp
    next
      case False
      with j have "db_items s j = Some jt" by (simp add: it')
      with inv False eff(4) [of j] show ?thesis by (simp add: core_inv_def s' item_actions_other)
    qed
  qed
  moreover have "small_costs s'"
    using costs agree(2,3) wsmall by (cases ?d) (auto simp: small_costs_def it')
  moreover have "frame s s' [?r]" by (simp add: frame_def s')
  ultimately show thesis by (rule that) auto
qed

end

lemma transferE:
  assumes "executeWarehouseTransfer L env p docId ref s = Inr s'"
  obtains it fromWh toWh st1 st2 day where
    "0 < fin_toNumber L (tf_qty p)" "db_items s (tf_item p) = Some it"
    "applyMovement L (db_warehouses s) (tf_item p) fromWh DirOut (Some (fin_toNumber L (tf_qty p))) (db_stocks s) = Inr st1"
    "applyMovement L (db_warehouses s) (tf_item p) toWh DirIn (Some (fin_toNumber L (tf_qty p))) st1 = Inr st2"
    "s' = s\<lparr>db_stocks := st2,
       db_items := (db_items s)(tf_item p \<mapsto> it\<lparr>im_version := nextVersion (im_version it)\<rparr>),
       db_docs := (db_docs s)(docId \<mapsto> transfer_document p ref (fin_toNumber L (tf_qty p)) day it (wh_code fromWh)),
       db_kardex := db_kardex s @ transfer_rows L p (db_nextTx s) docId (fin_toNumber L (tf_qty p)) (im_wac it) day ref
         (wh_code fromWh) (wh_code toWh),
       db_nextTx := db_nextTx s + 2\<rparr>"
proof -
  let ?q = "fin_toNumber L (tf_qty p)"
  from assms obtain it fromWh toWh where q: "0 < ?q" and it: "db_items s (tf_item p) = Some it"
    and "transfer_between L env p docId ref s it ?q fromWh toWh = Inr s'"
    by (auto simp: executeWarehouseTransfer_def Let_def res_bind_Inr split: if_splits option.splits)
  then obtain day where "transfer_move L p docId ref s it ?q day fromWh toWh = Inr s'"
    by (auto simp: transfer_between_def Let_def res_bind_Inr split: if_splits)
  then show thesis unfolding transfer_move_def res_bind_Inr
    by (elim exE conjE) (rule that [where day = day, OF q it], assumption, assumption, simp)
qed

lemma transfer_row_fields [simp]:
  "kx_id (transfer_row L n i d dir q w day ref c) = n" "kx_item (transfer_row L n i d dir q w day ref c) = i"
  "kx_doc (transfer_row L n i d dir q w day ref c) = Some d"
  "kx_qty (transfer_row L n i d dir q w day ref c) = db_numeric4 q"
  "kx_type (transfer_row L n i d dir q w day ref c) = dir_type dir"
  "kx_price (transfer_row L n i d dir q w day ref c) = Some (fin_toDb L w)"
  "kx_docType (transfer_row L n i d dir q w day ref c) = Some ''transfer''"
  "kx_docRef (transfer_row L n i d dir q w day ref c) = Some ref"
  "kx_reversalOf (transfer_row L n i d dir q w day ref c) = None"
  "\<not> kx_deleted (transfer_row L n i d dir q w day ref c)"
  by (simp_all add: transfer_row_def)

lemma plain_action_transfer:
  "plain_action (transfer_row L n i d dir q w day ref c) =
    (if dir = DirIn then KQtyIn (db_numeric4 q) else KOut (db_numeric4 q))"
  by (cases dir) (auto simp: plain_action_def dir_type_def)

definition transfer_ok :: "transfer \<Rightarrow> string \<Rightarrow> bool" where
  "transfer_ok p ref \<longleftrightarrow> qty4 (tf_qty p) \<and> \<not> starts_with REV_PREFIX ref"

context decimal_js begin

lemma transfer_core:
  assumes tr: "executeWarehouseTransfer L env p docId ref s = Inr s'" and inv: "core_inv L s" and ok: "transfer_ok p ref"
    and costs: "small_costs s" and vol: "small_volumes s'"
  obtains D rs where "core_inv L s'" "small_costs s'" "db_kardex s' = db_kardex s @ rs" "rs \<noteq> []"
    "\<forall>r \<in> set rs. kx_doc r = Some docId \<and> \<not> kx_deleted r \<and> kx_reversalOf r = None"
    "db_docs s' = (db_docs s)(docId \<mapsto> D)" "\<not> dc_deleted D" "dc_status D = ''final''" "db_warehouses s' = db_warehouses s"
proof -
  from transferE [OF tr] obtain it fromWh toWh st1 st2 day where
    q0: "0 < fin_toNumber L (tf_qty p)" and it: "db_items s (tf_item p) = Some it"
    and mv1: "applyMovement L (db_warehouses s) (tf_item p) fromWh DirOut (Some (fin_toNumber L (tf_qty p))) (db_stocks s) = Inr st1"
    and mv2: "applyMovement L (db_warehouses s) (tf_item p) toWh DirIn (Some (fin_toNumber L (tf_qty p))) st1 = Inr st2"
    and s': "s' = s\<lparr>db_stocks := st2,
       db_items := (db_items s)(tf_item p \<mapsto> it\<lparr>im_version := nextVersion (im_version it)\<rparr>),
       db_docs := (db_docs s)(docId \<mapsto> transfer_document p ref (fin_toNumber L (tf_qty p)) day it (wh_code fromWh)),
       db_kardex := db_kardex s @ transfer_rows L p (db_nextTx s) docId (fin_toNumber L (tf_qty p)) (im_wac it) day ref
         (wh_code fromWh) (wh_code toWh),
       db_nextTx := db_nextTx s + 2\<rparr>" .
  let ?i = "tf_item p" and ?K = "db_kardex s" and ?q = "tf_qty p" and ?w = "im_wac it"
  have qn: "fin_toNumber L ?q = ?q" using ok by (intro toNumber_scaled) (auto simp: transfer_ok_def qty4_def)
  note q0 = q0 [unfolded qn] and mv1 = mv1 [unfolded qn] and mv2 = mv2 [unfolded qn] and s' = s' [unfolded qn]
  have q4: "scaled 4 ?q" using ok by (simp add: transfer_ok_def qty4_def)
  then have qd: "db_numeric4 ?q = ?q" by (simp add: db_numeric4_def)
  let ?t = "item_total (db_stocks s) ?i"
  from inv have rows: "stock_rows_ok (db_warehouses s) (db_stocks s)" and kok: "kardex_ok ?K (db_nextTx s)"
    and tv: "\<And>i. item_total (db_stocks s) i \<le> volume ?K i"
    and ag: "item_agrees L (item_actions ?K ?i) ?t ?w"
    using it by (auto simp: core_inv_def)
  let ?r1 = "transfer_row L (db_nextTx s) ?i docId DirOut ?q ?w day ref (wh_code fromWh)"
  let ?r2 = "transfer_row L (db_nextTx s + 1) ?i docId DirIn ?q ?w day ref (wh_code toWh)"
  have K': "db_kardex s' = (?K @ [?r1]) @ [?r2]" by (simp add: s' transfer_rows_def)
  have small: "?t + ?q < 10 ^ 10"
    using tv [of ?i] vol q0 by (auto simp: small_volumes_def K' qd dest!: spec [of _ ?i])
  then have small': "?t + ?q < 10 ^ 11" by simp
  note e1 = applyMovement_spec [OF mv1 rows q4 small']
  have covered: "?q \<le> ?t" using e1(5) stock_of_le_total [OF rows, of ?i "wh_id fromWh"] by simp
  have tot: "stock_rows_ok (db_warehouses s) st2" "item_total st2 j = item_total (db_stocks s) j" for j
    using store.transfer_total [OF rows q4 small' mv1 mv2] by auto
  have w: "scaled 4 ?w" "0 \<le> ?w" using ag by (auto simp: item_agrees_def)
  have rok: "row_ok ?r1" "row_ok ?r2"
    using w q0 q4 by (auto simp: row_ok_def dir_type_def toDb_scaled qd)
  have ref: "\<not> starts_with REV_PREFIX (opt_string (Some ref))" using ok by (simp add: transfer_ok_def opt_string_def)
  have kok1: "kardex_ok (?K @ [?r1]) (db_nextTx s + 1)"
    by (rule kardex_ok_append [OF kok rok(1)]) (use ref in auto)
  have kok2: "kardex_ok ((?K @ [?r1]) @ [?r2]) (db_nextTx s + 1 + 1)"
    by (rule kardex_ok_append [OF kok1 rok(2)]) (use ref in auto)
  have acts: "item_actions ((?K @ [?r1]) @ [?r2]) ?i = (item_actions ?K ?i @ [KOut ?q]) @ [KQtyIn ?q]"
    using item_actions_append [OF kok1 rok(2), of ?i] item_actions_append [OF kok rok(1), of ?i] ref
    by (simp add: plain_action_transfer qd)
  have nonempty: "item_actions ?K ?i \<noteq> []" using ag covered q0 by (auto simp: item_agrees_def)
  have sub: "fin_subtract L ?t ?q = ?t - ?q" and add: "fin_add L (?t - ?q) ?q = ?t"
    using item_total_scaled [OF rows, of ?i] covered q0 small q4
    by (auto intro: subtract_scaled4 simp: add_scaled4 scaled_diff)
  have "item_agrees L (item_actions ?K ?i @ [KOut ?q]) (?t - ?q) ?w"
    by (rule item_agrees_snoc [OF ag w]) (use sub nonempty covered in auto)
  then have agree: "item_agrees L ((item_actions ?K ?i @ [KOut ?q]) @ [KQtyIn ?q]) ?t ?w"
    by (rule item_agrees_snoc [OF _ w]) (use add item_total_nonneg [OF rows] in auto)
  have "core_inv L s'" unfolding core_inv_def
  proof (intro conjI allI impI ballI)
    show "stock_rows_ok (db_warehouses s') (db_stocks s')" using tot by (simp add: s')
    show "kardex_ok (db_kardex s') (db_nextTx s')" using kok2 by (simp add: K') (simp add: s')
    show "item_total (db_stocks s') j \<le> volume (db_kardex s') j" for j
      using tot(2) [of j] tv [of j] q0 by (auto simp: s' transfer_rows_def qd volume_def item_rows_def)
    show "db_items s' (kx_item r) \<noteq> None" if "r \<in> set (db_kardex s')" for r
      using that inv by (auto simp: s' core_inv_def transfer_rows_def)
    show "item_agrees L (item_actions (db_kardex s') j) (item_total (db_stocks s') j) (im_wac jt)"
      if j: "db_items s' j = Some jt" for j jt
    proof (cases "j = ?i")
      case True
      with j have "im_wac jt = ?w" by (auto simp: s')
      with agree acts tot True show ?thesis by (simp add: K' del: append_assoc) (simp add: s')
    next
      case False
      with j have "db_items s j = Some jt" by (simp add: s')
      moreover have "item_actions (db_kardex s') j = item_actions ?K j"
        using False unfolding K' by (simp add: item_actions_other del: append_assoc)
      ultimately show ?thesis using inv tot by (simp add: core_inv_def) (simp add: s')
    qed
  qed
  moreover have "small_costs s'" using costs it by (auto simp: small_costs_def s')
  moreover note K'
  ultimately show thesis
    by (intro that [of "[?r1, ?r2]" "transfer_document p ref ?q day it (wh_code fromWh)"])
      (auto simp: s' transfer_document_def transfer_rows_def)
qed

end

section \<open>Voids\<close>

text \<open>Stock and cost of an item.\<close>

definition stock_view :: "stock_db \<Rightarrow> nat \<Rightarrow> rat \<times> rat" where
  "stock_view s i = (item_total (db_stocks s) i, case db_items s i of None \<Rightarrow> 0 | Some it \<Rightarrow> im_wac it)"

text \<open>The part of the state a reversal relies on and keeps.\<close>

definition revert_inv :: "stock_db \<Rightarrow> bool" where
  "revert_inv s \<longleftrightarrow> stock_rows_ok (db_warehouses s) (db_stocks s) \<and>
    (\<forall>i it. db_items s i = Some it \<longrightarrow> scaled 4 (im_wac it) \<and> 0 \<le> im_wac it)"

definition same_tables :: "stock_db \<Rightarrow> stock_db \<Rightarrow> bool" where
  "same_tables s s' \<longleftrightarrow> db_docs s' = db_docs s \<and> db_warehouses s' = db_warehouses s \<and> db_kardex s' = db_kardex s \<and>
    db_nextTx s' = db_nextTx s \<and> (\<forall>i. db_items s' i = None \<longleftrightarrow> db_items s i = None)"

lemma same_tables_refl [simp]: "same_tables s s"
  by (simp add: same_tables_def)

lemma same_tables_trans: "same_tables s t \<Longrightarrow> same_tables t u \<Longrightarrow> same_tables s u"
  by (simp add: same_tables_def)

lemma revert_inv_nonneg: "revert_inv s \<Longrightarrow> 0 \<le> fst (stock_view s i)"
  unfolding revert_inv_def stock_view_def by (auto intro: item_total_nonneg)

lemma reversalE:
  assumes "applyStockReversal L p s = Inr (s', ty, residue)" "db_items s (rv_item p) = Some it"
  obtains wh stocks evs where
    "applyMovement L (db_warehouses s) (rv_item p) wh (rev_movement (rv_type p)) (Some (rv_qty p)) (db_stocks s) = Inr stocks"
    "s' = s\<lparr>db_stocks := stocks,
       db_items := (db_items s)(rv_item p \<mapsto> it\<lparr>
         im_wac := fin_toDb L (reversal_wac L p (sn_total (getStockSnapshot L (db_warehouses s) (db_stocks s) (rv_item p)))
           (sn_total (getStockSnapshot L (db_warehouses s) stocks (rv_item p))) (im_wac it)),
         im_version := nextVersion (im_version it)\<rparr>),
       db_events := evs\<rparr>"
proof -
  from assms obtain wh stocks where
    "applyMovement L (db_warehouses s) (rv_item p) wh (rev_movement (rv_type p)) (Some (rv_qty p)) (db_stocks s) = Inr stocks"
    and "Inr (s', ty, residue) = (Inr (s\<lparr>db_stocks := stocks,
       db_items := (db_items s)(rv_item p \<mapsto> it\<lparr>
         im_wac := fin_toDb L (reversal_wac L p (sn_total (getStockSnapshot L (db_warehouses s) (db_stocks s) (rv_item p)))
           (sn_total (getStockSnapshot L (db_warehouses s) stocks (rv_item p))) (im_wac it)),
         im_version := nextVersion (im_version it)\<rparr>),
       db_events := db_events s @ (if rv_quantityOnly p then [] else
         [\<lparr>ev_received = (rev_movement (rv_type p) = DirIn), ev_item = rv_item p,
            ev_qty = rv_qty p, ev_unitPrice = fin_toNumber L (rv_price p), ev_warehouse = wh_code wh,
            ev_previous = sn_total (getStockSnapshot L (db_warehouses s) (db_stocks s) (rv_item p)),
            ev_new = sn_total (getStockSnapshot L (db_warehouses s) stocks (rv_item p)),
            ev_docType = rv_docType p, ev_docRef = rv_docRef p\<rparr>])\<rparr>, Some (im_type it),
       reversal_residue L p (sn_total (getStockSnapshot L (db_warehouses s) (db_stocks s) (rv_item p)))
         (sn_total (getStockSnapshot L (db_warehouses s) stocks (rv_item p))) (im_wac it)) :: stock_error + _)"
    unfolding applyStockReversal_def Let_def by (auto simp only: res_bind_Inr option.case)
  then show thesis by (intro that) auto
qed

context decimal_js begin

lemma revert_row_view:
  assumes rv: "revert_row L d code r s = Inr s'" and r: "row_ok r" and inv: "revert_inv s"
    and it: "db_items s (kx_item r) = Some it" and small: "item_total (db_stocks s) (kx_item r) + kx_qty r < 10 ^ 10"
  shows "revert_inv s'" "same_tables s s'"
    "stock_view s' i = (if i = kx_item r then kstep L (void_action r) (stock_view s i) else stock_view s i)"
    "item_total (db_stocks s') i \<le> item_total (db_stocks s) i + (if i = kx_item r then kx_qty r else 0)"
proof -
  let ?i = "kx_item r" and ?q = "kx_qty r" and ?p = "reversal_of_row d code r"
  let ?t = "item_total (db_stocks s) ?i" and ?w = "im_wac it"
  have q: "0 < ?q" "scaled 4 ?q" using r by (auto simp: row_ok_def)
  from rv q(1) obtain ty res where ap: "applyStockReversal L ?p s = Inr (s', ty, res)"
    by (auto simp: revert_row_def res_bind_Inr)
  have fields: "rv_item ?p = ?i" "rv_qty ?p = ?q" "rv_price ?p = kardex_price r"
      "rv_type ?p = kx_type r"
      "rv_quantityOnly ?p = (kx_docType r = Some ''transfer'')"
    by (simp_all add: reversal_of_row_def)
  from reversalE [OF ap] it obtain wh stocks evs where
    mv: "applyMovement L (db_warehouses s) ?i wh (rev_movement (rv_type ?p)) (Some ?q) (db_stocks s) = Inr stocks"
    and s': "s' = s\<lparr>db_stocks := stocks,
       db_items := (db_items s)(?i \<mapsto> it\<lparr>
         im_wac := fin_toDb L (reversal_wac L ?p (sn_total (getStockSnapshot L (db_warehouses s) (db_stocks s) ?i))
           (sn_total (getStockSnapshot L (db_warehouses s) stocks ?i)) ?w),
         im_version := nextVersion (im_version it)\<rparr>),
       db_events := evs\<rparr>"
    unfolding fields by metis
  have rows: "stock_rows_ok (db_warehouses s) (db_stocks s)" and w: "scaled 4 ?w" "0 \<le> ?w"
    using inv it by (auto simp: revert_inv_def)
  have small': "?t + ?q < 10 ^ 11" using small by simp
  note eff = applyMovement_spec [OF mv rows q(2) small']
  have t: "scaled 4 ?t" "0 \<le> ?t" using item_total_scaled [OF rows] item_total_nonneg [OF rows] by auto
  have old: "sn_total (getStockSnapshot L (db_warehouses s) (db_stocks s) ?i) = ?t"
    using small q by (intro snapshot_total rows) auto
  have t': "item_total stocks ?i = (if kx_type r = KTin then ?t - ?q else ?t + ?q)"
    using eff(4) [of ?i] by (simp add: fields rev_movement_def)
  have new: "sn_total (getStockSnapshot L (db_warehouses s) stocks ?i) = item_total stocks ?i"
    using small q t' by (intro snapshot_total eff(2)) auto
  let ?w' = "reversal_wac L ?p ?t (item_total stocks ?i) ?w"
  have w': "scaled 4 ?w'" "0 \<le> ?w'"
    using w void_wac_ok wac_scaled wac_nonneg by (auto simp: reversal_wac_def split: direction.splits)
  have s'': "s' = s\<lparr>db_stocks := stocks,
       db_items := (db_items s)(?i \<mapsto> it\<lparr>im_wac := ?w', im_version := nextVersion (im_version it)\<rparr>), db_events := evs\<rparr>"
    using s' old new toDb_scaled [OF w'(1)] by simp
  have sub: "fin_subtract L ?t ?q = ?t - ?q" if "?q \<le> ?t"
    by (rule subtract_scaled4) (use t q small that in auto)
  have cov: "?q \<le> ?t" if "kx_type r = KTin"
    using eff(5) stock_of_le_total [OF rows, of ?i "wh_id wh"] that by (simp add: fields rev_movement_def)
  have add: "fin_add L ?t ?q = ?t + ?q" by (rule add_scaled4) (use t q small in auto)
  show "revert_inv s'" using inv eff(2) w' by (auto simp: revert_inv_def s'')
  show "same_tables s s'" using it by (auto simp: same_tables_def s'')
  show "stock_view s' i = (if i = ?i then kstep L (void_action r) (stock_view s i) else stock_view s i)"
  proof (cases "i = ?i")
    case True
    have "kx_type r = KTin \<or> kx_type r = KTout" using r by (simp add: row_ok_def)
    then have "(item_total stocks ?i, ?w') = kstep L (void_action r) (?t, ?w)"
      using t' sub cov add by (auto simp: void_action_def reversal_wac_def fields Let_def)
    with True show ?thesis by (simp add: stock_view_def s'' it)
  next
    case False
    with eff(4) [of i] show ?thesis by (simp add: stock_view_def s'')
  qed
  show "item_total (db_stocks s') i \<le> item_total (db_stocks s) i + (if i = ?i then ?q else 0)"
    using eff(4) [of i] q t' by (auto simp: s'' split: direction.splits)
qed

lemma revert_rows_view:
  assumes "fold_res (revert_row L d code) rs s = Inr s'" and "\<forall>r \<in> set rs. row_ok r \<and> db_items s (kx_item r) \<noteq> None"
    and "revert_inv s" and "\<And>i. item_total (db_stocks s) i + volume rs i < 10 ^ 10"
  shows "revert_inv s' \<and> same_tables s s' \<and>
    (\<forall>i. stock_view s' i = kfold L (map void_action (item_rows rs i)) (stock_view s i)) \<and>
    (\<forall>i. never_negative L (map void_action (item_rows rs i)) (stock_view s i)) \<and>
    (\<forall>i. item_total (db_stocks s') i \<le> item_total (db_stocks s) i + volume rs i)"
  using assms
proof (induction rs arbitrary: s)
  case Nil
  then have "s' = s" by simp
  with Nil revert_inv_nonneg [OF Nil(3)] show ?case by (simp add: kfold_def item_rows_def)
next
  case (Cons r rs)
  from Cons.prems(1) obtain t where t: "revert_row L d code r s = Inr t" "fold_res (revert_row L d code) rs t = Inr s'"
    by (auto simp: res_bind_Inr)
  from Cons.prems(2) obtain it where it: "row_ok r" "db_items s (kx_item r) = Some it" by auto
  have vol: "0 \<le> volume rs i" for i
    using Cons.prems(2) by (intro volume_nonneg) auto
  have small: "item_total (db_stocks s) (kx_item r) + kx_qty r < 10 ^ 10"
    using Cons.prems(4) [of "kx_item r"] vol [of "kx_item r"] by simp
  note step = revert_row_view [OF t(1) it(1) Cons.prems(3) it(2) small]
  have st: "item_total (db_stocks t) i + volume rs i < 10 ^ 10" for i
    using step(4) [of i] Cons.prems(4) [of i] by (auto split: if_splits)
  have "\<forall>r \<in> set rs. row_ok r \<and> db_items t (kx_item r) \<noteq> None"
    using Cons.prems(2) step(2) by (auto simp: same_tables_def)
  note ih = Cons.IH [OF t(2) this step(1) st]
  have "kfold L (map void_action (item_rows (r # rs) i)) (stock_view s i)
      = kfold L (map void_action (item_rows rs i)) (stock_view t i)" for i
    using step(3) [of i] by (simp add: kfold_def item_rows_def)
  moreover have "never_negative L (map void_action (item_rows (r # rs) i)) (stock_view s i)" for i
  proof -
    from ih have "never_negative L (map void_action (item_rows rs i)) (stock_view t i)" by blast
    moreover have "item_rows (r # rs) i = (if kx_item r = i then r # item_rows rs i else item_rows rs i)"
      by (simp add: item_rows_def)
    ultimately show ?thesis using step(3) [of i] revert_inv_nonneg [OF Cons.prems(3), of i] by (auto split: if_splits)
  qed
  moreover have "item_total (db_stocks s') i \<le> item_total (db_stocks s) i + volume (r # rs) i" for i
  proof -
    from ih have "item_total (db_stocks s') i \<le> item_total (db_stocks t) i + volume rs i" by blast
    with step(4) [of i] show ?thesis by (simp split: if_splits)
  qed
  moreover have "same_tables s s'" using step(2) ih same_tables_trans by blast
  ultimately show ?case using ih by simp
qed

end

text \<open>Every row belongs to a known document, and a live final document has live rows.\<close>

definition docs_inv :: "stock_db \<Rightarrow> bool" where
  "docs_inv s \<longleftrightarrow>
    (\<forall>r \<in> set (db_kardex s). \<forall>d. kx_doc r = Some d \<longrightarrow>
      (\<exists>D. db_docs s d = Some D \<and> (dc_deleted D \<or> dc_status D = ''final''))) \<and>
    (\<forall>d D. db_docs s d = Some D \<longrightarrow> \<not> dc_deleted D \<longrightarrow> doc_live d (db_kardex s) \<and>
      (dc_status D = ''final'' \<longrightarrow> (\<exists>r \<in> set (db_kardex s). kx_doc r = Some d)))"

lemma reversal_rows_reverse:
  assumes "decimal_js L" and "\<forall>r \<in> set os. row_ok r \<and> kx_doc r = Some d"
  shows "list_all2 reverses os (reversal_rows L n d D today code os)"
    "map kx_id (reversal_rows L n d D today code os) = [n ..< n + length os]"
proof -
  have price: "row_ok r \<Longrightarrow> Some (fin_toDb L (kardex_price r)) = kx_price r" for r
    using decimal_js.toDb_scaled [OF assms(1)] by (auto simp: row_ok_def kardex_price_def)
  have rev: "row_ok r \<Longrightarrow> kx_doc r = Some d \<Longrightarrow> reverses r (reversal_row L n d D today code r)" for r n
    using price [of r] by (auto simp: reverses_def reversal_row_def reversal_ref_def starts_with_def opt_string_def)
  show "list_all2 reverses os (reversal_rows L n d D today code os)"
    using assms(2) rev by (induction os arbitrary: n) (auto simp: row_ok_def)
  show "map kx_id (reversal_rows L n d D today code os) = [n ..< n + length os]"
    using assms(2)
  proof (induction os arbitrary: n)
    case (Cons q os)
    then have "0 < kx_qty q" "map kx_id (reversal_rows L (n + 1) d D today code os) = [n + 1 ..< n + 1 + length os]"
      by (auto simp: row_ok_def)
    then show ?case by (simp add: reversal_row_def upt_conv_Cons [of n] del: upt_Suc)
  qed simp
qed

lemma volume_reverses: "list_all2 reverses os rs \<Longrightarrow> volume rs i = volume os i"
  by (induction rule: list_all2_induct) (auto simp: reverses_def)

lemma void_stateE:
  assumes del: "deleteDocument L env docId s = Inr s'" and D: "db_docs s docId = Some D" "\<not> dc_deleted D"
    and final: "dc_status D = ''final''" "originals docId (db_kardex s) \<noteq> []"
  obtains code code' s1 where
    "s1 = s\<lparr>db_docs := (db_docs s)(docId \<mapsto> D\<lparr>dc_deleted := True\<rparr>),
       db_kardex := mark_doc docId (db_kardex s) @
         reversal_rows L (db_nextTx s) docId D (se_today env) code (originals docId (db_kardex s)),
       db_nextTx := db_nextTx s +
         length (reversal_rows L (db_nextTx s) docId D (se_today env) code (originals docId (db_kardex s)))\<rparr>"
    "fold_res (revert_row L D code') (originals docId (db_kardex s)) s1 = Inr s'"
proof -
  have lift: "lift_stock r = Inr x \<longleftrightarrow> r = Inr x" for r :: "stock_error + 'b" and x
    by (cases r) (auto simp: lift_stock_def)
  from assms show thesis
    unfolding deleteDocument_def Let_def
    by (auto simp: res_bind_Inr lift mark_doc_def originals_def intro: that split: if_splits)
qed

lemma deleteDocument_draft:
  assumes del: "deleteDocument L env docId s = Inr s'" and D: "db_docs s docId = Some D" "\<not> dc_deleted D"
    and "\<forall>r \<in> set (db_kardex s). kx_doc r \<noteq> Some docId" and "dc_status D \<noteq> ''final''"
  shows "s' = s\<lparr>db_docs := (db_docs s)(docId \<mapsto> D\<lparr>dc_deleted := True\<rparr>)\<rparr>"
proof -
  have none: "filter (is_original docId) (db_kardex s) = []"
    using assms(4) by (auto simp: is_original_def filter_empty_conv)
  have same: "update_rows (\<lambda>r. kx_doc r = Some docId) (\<lambda>r. r\<lparr>kx_deleted := True\<rparr>) (db_kardex s) = db_kardex s"
    by (rule update_rows_none) (use assms(4) in blast)
  from del show ?thesis
    unfolding deleteDocument_def Let_def none same using D assms(5)
    by (simp add: res_bind_Inr lift_stock_def split: if_splits)
qed

end
