(* ===== verification/StockRun.thy ===== *)
theory StockRun
  imports StockInvariant
begin

text \<open>
  Runs of the stock engine: movements, transfers, finalized and voided documents in any order. The
  invariant of \<open>StockInvariant\<close> holds in every state a run reaches, so the Kardex replay gives the
  live stock and the live cost of every item.
\<close>

lemma item_rows_originals: "item_rows (originals d K) i = filter (is_original d) (item_rows K i)"
  by (simp add: item_rows_def originals_def conj_commute)

lemma originals_actions:
  assumes ok: "kardex_ok K next" and q: "q \<in> set (item_rows (originals d K) i)" and live: "doc_live d K"
  shows "item_actions K i \<noteq> []"
proof -
  from q have q': "q \<in> set (item_rows K i)" "kx_doc q = Some d" by (auto simp: set_originals)
  then have "q \<in> set K" "kx_item q = i" by auto
  with live q'(2) ok have "kaction_of (item_rows K i) q = Some (plain_action q)"
    by (intro kaction_plain) (auto simp: doc_live_def kardex_ok_def)
  with q'(1) have "plain_action q \<in> set (item_actions K i)"
    unfolding item_actions_def kardex_actions_def
    by (force simp: List.map_filter_def)
  then show ?thesis by auto
qed

text \<open>A row after a void has the item and the document of a row before it.\<close>

lemma void_row_source:
  assumes vr: "list_all2 undoes (originals d K) revs" and r: "r \<in> set (mark_doc d K @ revs)"
  obtains q where "q \<in> set K" "kx_item q = kx_item r" "kx_doc q = kx_doc r" "r \<notin> set revs \<Longrightarrow> r = marked d q"
    "r \<in> set revs \<Longrightarrow> kx_doc r = Some d"
proof (cases "r \<in> set revs")
  case True
  from original_of [OF vr True] obtain q where q: "q \<in> set K" "kx_doc q = Some d" "undoes q r" .
  show thesis by (rule that [of q]) (use True q in \<open>simp_all add: undoes_def\<close>)
next
  case False
  with r obtain q where q: "q \<in> set K" "r = marked d q" by (auto simp: mark_doc_map)
  show thesis by (rule that [of q]) (use False q in \<open>auto simp only: marked_simps\<close>)
qed

lemma docs_inv_record:
  assumes inv: "docs_inv s" and K: "db_kardex s' = db_kardex s @ rs" and D: "db_docs s' = (db_docs s)(d \<mapsto> D)"
    and ne: "rs \<noteq> []" and rs: "\<forall>r \<in> set rs. kx_doc r = Some d \<and> \<not> kx_deleted r \<and> kx_reversalOf r = None"
    and live: "doc_live d (db_kardex s)" and fin: "\<not> dc_deleted D" "dc_status D = ''final''"
  shows "docs_inv s'"
  unfolding docs_inv_def K D
proof (intro conjI ballI allI impI)
  fix r e assume "r \<in> set (db_kardex s @ rs)" "kx_doc r = Some e"
  then show "\<exists>E. ((db_docs s)(d \<mapsto> D)) e = Some E \<and> (dc_deleted E \<or> dc_status E = ''final'')"
    using inv rs fin(2) by (fastforce simp: docs_inv_def)
next
  fix e E assume e: "((db_docs s)(d \<mapsto> D)) e = Some E" "\<not> dc_deleted E"
  have ex: "\<exists>r \<in> set rs. kx_doc r = Some d" using ne rs by (cases rs) auto
  have app: "doc_live e (db_kardex s @ rs)" if "doc_live e (db_kardex s)"
    using that rs unfolding doc_live_def by (metis UnE set_append)
  show "doc_live e (db_kardex s @ rs)"
  proof (cases "e = d")
    case True with live app show ?thesis by simp
  next
    case False with e inv app show ?thesis by (simp add: docs_inv_def)
  qed
  assume fE: "dc_status E = ''final''"
  show "\<exists>r \<in> set (db_kardex s @ rs). kx_doc r = Some e"
  proof (cases "e = d")
    case True with ex show ?thesis by auto
  next
    case False with e fE inv have "\<exists>r \<in> set (db_kardex s). kx_doc r = Some e" by (simp add: docs_inv_def)
    then show ?thesis by auto
  qed
qed

text \<open>The effect of voiding a final document, with the reversal rows it appends.\<close>

definition voided :: "decimal_lib \<Rightarrow> nat \<Rightarrow> doc_row \<Rightarrow> stock_db \<Rightarrow> stock_db \<Rightarrow> kardex_row list \<Rightarrow> bool" where
  "voided L d D s s' revs \<longleftrightarrow>
    void_rows d (db_nextTx s) (db_kardex s) revs \<and> list_all2 reverses (originals d (db_kardex s)) revs \<and>
    db_kardex s' = mark_doc d (db_kardex s) @ revs \<and> db_nextTx s' = db_nextTx s + length revs \<and>
    db_warehouses s' = db_warehouses s \<and> db_docs s' = (db_docs s)(d \<mapsto> D\<lparr>dc_deleted := True\<rparr>) \<and>
    (\<forall>i. db_items s' i = None \<longleftrightarrow> db_items s i = None) \<and> revert_inv s' \<and>
    (\<forall>i. stock_view s' i = kfold L (map void_action (item_rows (originals d (db_kardex s)) i)) (stock_view s i)) \<and>
    (\<forall>i. never_negative L (map void_action (item_rows (originals d (db_kardex s)) i)) (stock_view s i)) \<and>
    (\<forall>i. item_total (db_stocks s') i \<le> item_total (db_stocks s) i + volume revs i)"

lemma voided_undoes:
  assumes "voided L d D s s' revs"
  shows "list_all2 undoes (originals d (db_kardex s)) revs" "db_kardex s' = mark_doc d (db_kardex s) @ revs"
    "db_docs s' = (db_docs s)(d \<mapsto> D\<lparr>dc_deleted := True\<rparr>)"
  using assms reverses_undoes by (auto simp: voided_def)

lemma revert_rows_kardex:
  assumes "fold_res (revert_row L D code) os s = Inr s'"
  shows "db_kardex s' = db_kardex s"
proof (rule fold_res_invariant [OF assms, where P = "\<lambda>t. db_kardex t = db_kardex s"])
  show "db_kardex t' = db_kardex s" if "db_kardex t = db_kardex s" "revert_row L D code r t = Inr t'" for r t t'
    using that by (auto simp: revert_row_def applyStockReversal_def res_bind_Inr Let_def split: if_splits option.splits)
qed simp

context decimal_js begin

lemma void_effect:
  assumes del: "deleteDocument L env docId s = Inr s'" and inv: "core_inv L s" "docs_inv s" and vol: "small_volumes s'"
    and D: "db_docs s docId = Some D" "\<not> dc_deleted D" "dc_status D = ''final''"
  obtains revs where "voided L docId D s s' revs"
proof -
  let ?K = "db_kardex s" and ?os = "originals docId (db_kardex s)"
  have ne: "?os \<noteq> []"
    using inv(2) D by (force simp: docs_inv_def doc_live_def originals_def is_original_def filter_empty_conv)
  from void_stateE [OF del D ne] obtain code code' s1 where
    s1: "s1 = s\<lparr>db_docs := (db_docs s)(docId \<mapsto> D\<lparr>dc_deleted := True\<rparr>),
      db_kardex := mark_doc docId ?K @ reversal_rows L (db_nextTx s) docId D (se_today env) code ?os,
      db_nextTx := db_nextTx s + length (reversal_rows L (db_nextTx s) docId D (se_today env) code ?os)\<rparr>"
    and fold: "fold_res (revert_row L D code') ?os s1 = Inr s'" .
  let ?revs = "reversal_rows L (db_nextTx s) docId D (se_today env) code ?os"
  from inv(1) have kok: "kardex_ok ?K (db_nextTx s)" and tv: "\<And>i. item_total (db_stocks s) i \<le> volume ?K i"
    and ex: "\<forall>r \<in> set ?K. db_items s (kx_item r) \<noteq> None" by (auto simp: core_inv_def)
  have os: "\<forall>r \<in> set ?os. row_ok r \<and> kx_doc r = Some docId"
    using kok by (auto simp: set_originals kardex_ok_def)
  note rev = reversal_rows_reverse [OF decimal_js_axioms os, of "db_nextTx s" D "se_today env" code]
  have len: "length ?revs = length ?os" using rev(1) by (simp add: list_all2_lengthD)
  have "kx_id r \<in> set [db_nextTx s ..< db_nextTx s + length ?os]" if "r \<in> set ?revs" for r
    using that rev(2) by (metis imageI list.set_map)
  then have vr: "void_rows docId (db_nextTx s) ?K ?revs"
    unfolding void_rows_def using rev len by auto
  have inv1: "revert_inv s1" using inv(1) by (auto simp: core_inv_def revert_inv_def s1 item_agrees_def)
  have kx: "db_kardex s' = mark_doc docId ?K @ ?revs" using revert_rows_kardex [OF fold] by (simp add: s1)
  have vol_os: "volume ?revs i = volume ?os i" for i by (rule volume_reverses [OF rev(1)])
  have "item_total (db_stocks s1) i + volume ?os i < 10 ^ 10" for i
    using tv [of i] vol vol_os [of i] by (auto simp: small_volumes_def kx s1 dest!: spec [of _ i])
  moreover have "\<forall>r \<in> set ?os. row_ok r \<and> db_items s1 (kx_item r) \<noteq> None"
    using os ex by (auto simp: set_originals s1)
  ultimately have "voided L docId D s s' ?revs"
    using revert_rows_view [OF fold _ inv1] vr rev(1) vol_os
    by (auto simp: voided_def s1 same_tables_def stock_view_def)
  then show thesis by (rule that)
qed

lemma voided_core:
  assumes v: "voided L d D s s' revs" and inv: "core_inv L s" and dl: "doc_live d (db_kardex s)"
  shows "core_inv L s'"
  unfolding core_inv_def
proof (intro conjI allI impI ballI)
  let ?K = "db_kardex s" and ?os = "originals d (db_kardex s)"
  from v have vr: "void_rows d (db_nextTx s) ?K revs" and rev: "list_all2 reverses ?os revs"
    and kx: "db_kardex s' = mark_doc d ?K @ revs" and nx: "db_nextTx s' = db_nextTx s + length revs"
    and items: "\<And>i. db_items s' i = None \<longleftrightarrow> db_items s i = None" and inv': "revert_inv s'"
    and view: "\<And>i. stock_view s' i = kfold L (map void_action (item_rows ?os i)) (stock_view s i)"
    and nn: "\<And>i. never_negative L (map void_action (item_rows ?os i)) (stock_view s i)"
    and tle: "\<And>i. item_total (db_stocks s') i \<le> item_total (db_stocks s) i + volume revs i"
    by (auto simp: voided_def)
  from inv have kok: "kardex_ok ?K (db_nextTx s)" and tv: "\<And>i. item_total (db_stocks s) i \<le> volume ?K i"
    and ag: "\<And>i it. db_items s i = Some it \<Longrightarrow> item_agrees L (item_actions ?K i) (item_total (db_stocks s) i) (im_wac it)"
    and ex: "\<forall>r \<in> set ?K. db_items s (kx_item r) \<noteq> None" by (auto simp: core_inv_def)
  show "stock_rows_ok (db_warehouses s') (db_stocks s')" using inv' by (simp add: revert_inv_def)
  show "kardex_ok (db_kardex s') (db_nextTx s')" using kardex_ok_void [OF kok dl vr] by (simp add: kx nx)
  show "item_total (db_stocks s') i \<le> volume (db_kardex s') i" for i
    using tle [of i] tv [of i] by (simp add: kx)
  show "db_items s' (kx_item r) \<noteq> None" if r: "r \<in> set (db_kardex s')" for r
  proof -
    from void_row_source [OF reverses_undoes [OF rev] r [unfolded kx]] obtain q where "q \<in> set ?K" "kx_item q = kx_item r" .
    with ex items show ?thesis by metis
  qed
  show "item_agrees L (item_actions (db_kardex s') i) (item_total (db_stocks s') i) (im_wac jt)"
    if j: "db_items s' i = Some jt" for i jt
  proof -
    from j items [of i] obtain it where it: "db_items s i = Some it" by (cases "db_items s i") auto
    have w: "scaled 4 (im_wac jt)" "0 \<le> im_wac jt" using inv' j by (auto simp: revert_inv_def)
    have acts: "item_actions (db_kardex s') i = item_actions ?K i @ map void_action (item_rows ?os i)"
      unfolding kx by (rule item_actions_void [OF kok dl vr])
    have fold: "(item_total (db_stocks s') i, im_wac jt)
        = kfold L (map void_action (item_rows ?os i)) (item_total (db_stocks s) i, im_wac it)"
      using view [of i] j it by (simp add: stock_view_def)
    show ?thesis
    proof (cases "item_actions ?K i = []")
      case True
      then have "item_rows ?os i = []"
        using originals_actions [OF kok _ dl, of _ i] by (metis list.set_intros(1) neq_Nil_conv)
      with True fold ag [OF it] w acts show ?thesis by (simp add: item_agrees_def kfold_def)
    next
      case False
      have "never_negative L (map void_action (item_rows ?os i)) (item_total (db_stocks s) i, im_wac it)"
        using nn [of i] it by (simp add: stock_view_def)
      with item_agrees_append [OF ag [OF it] False w fold] acts show ?thesis by simp
    qed
  qed
qed

end

lemma voided_rows_of_others:
  assumes un: "list_all2 undoes (originals d (db_kardex s)) revs" and kx: "db_kardex s' = mark_doc d (db_kardex s) @ revs"
    and "e \<noteq> d"
  shows "r \<in> set (db_kardex s') \<and> kx_doc r = Some e \<longleftrightarrow> r \<in> set (db_kardex s) \<and> kx_doc r = Some e"
proof
  assume a: "r \<in> set (db_kardex s') \<and> kx_doc r = Some e"
  then have "r \<in> set (mark_doc d (db_kardex s) @ revs)" by (simp add: kx)
  from void_row_source [OF un this] a assms(3) obtain q where "q \<in> set (db_kardex s)" "kx_doc q = Some e" "r = marked d q"
    by (metis option.inject)
  with assms(3) show "r \<in> set (db_kardex s) \<and> kx_doc r = Some e" by simp
next
  assume "r \<in> set (db_kardex s) \<and> kx_doc r = Some e"
  with assms show "r \<in> set (db_kardex s') \<and> kx_doc r = Some e"
    by (auto simp: mark_doc_map image_iff intro!: bexI [of _ r])
qed

lemma voided_docs:
  assumes un: "list_all2 undoes (originals d (db_kardex s)) revs" and kx: "db_kardex s' = mark_doc d (db_kardex s) @ revs"
    and docs': "db_docs s' = (db_docs s)(d \<mapsto> D\<lparr>dc_deleted := True\<rparr>)" and inv: "docs_inv s"
  shows "docs_inv s'"
  unfolding docs_inv_def
proof (intro conjI ballI allI impI)
  fix r e assume r: "r \<in> set (db_kardex s')" "kx_doc r = Some e"
  from void_row_source [OF un r(1) [unfolded kx]] r(2) have "\<exists>q \<in> set (db_kardex s). kx_doc q = Some e" by metis
  then show "\<exists>E. db_docs s' e = Some E \<and> (dc_deleted E \<or> dc_status E = ''final'')"
    using inv unfolding docs' docs_inv_def by auto
next
  fix e E assume e: "db_docs s' e = Some E" "\<not> dc_deleted E"
  then have e': "e \<noteq> d" "db_docs s e = Some E" by (auto simp: docs' split: if_splits)
  note old = voided_rows_of_others [OF un kx e'(1)]
  show "doc_live e (db_kardex s')" using inv e' e(2) old unfolding docs_inv_def doc_live_def by blast
  assume "dc_status E = ''final''"
  then show "\<exists>r \<in> set (db_kardex s'). kx_doc r = Some e"
    using inv e' e(2) old unfolding docs_inv_def by blast
qed

context decimal_js begin

lemma void_core:
  assumes del: "deleteDocument L env docId s = Inr s'" and inv: "core_inv L s" "docs_inv s" and vol: "small_volumes s'"
  shows "core_inv L s' \<and> docs_inv s'"
proof (cases "\<exists>D. db_docs s docId = Some D \<and> \<not> dc_deleted D")
  case False
  with del inv show ?thesis by (auto simp: deleteDocument_def split: option.splits if_splits)
next
  case True
  then obtain D where D: "db_docs s docId = Some D" "\<not> dc_deleted D" by blast
  then have dl: "doc_live docId (db_kardex s)" using inv(2) by (auto simp: docs_inv_def)
  show ?thesis
  proof (cases "dc_status D = ''final''")
    case False
    with inv(2) D have none: "\<forall>r \<in> set (db_kardex s). kx_doc r \<noteq> Some docId" by (auto simp: docs_inv_def)
    from deleteDocument_draft [OF del D none False]
    have s': "s' = s\<lparr>db_docs := (db_docs s)(docId \<mapsto> D\<lparr>dc_deleted := True\<rparr>)\<rparr>" .
    from inv(2) none have "docs_inv s'" by (auto simp: docs_inv_def s')
    moreover from inv(1) have "core_inv L s'" by (simp add: core_inv_def s')
    ultimately show ?thesis by simp
  next
    case True
    from void_effect [OF del inv vol D True] obtain revs where v: "voided L docId D s s' revs" .
    from voided_core [OF v inv(1) dl] voided_docs [OF voided_undoes [OF v] inv(2)] show ?thesis ..
  qed
qed

end

section \<open>Finalizing\<close>

lemma lift_stock_Inr: "lift_stock r = Inr x \<longleftrightarrow> r = Inr x"
  by (cases r) (simp_all add: lift_stock_def)

lemma lift_rate_Inr: "lift_rate r = Inr x \<longleftrightarrow> r = Inr x"
  by (cases r) (simp_all add: lift_rate_def)

lemma movement_grows:
  assumes "applyStockMovement L env p s = Inr s'"
  shows "volume (db_kardex s) i \<le> volume (db_kardex s') i"
  by (rule movementE [OF assms]) (simp split: if_splits)

lemma finalize_lineE:
  assumes "finalize_line L env costs docId d tt inOut rate backdate l s = Inr s'"
  obtains loc price where "stockUnitPriceOf L costs inOut (dc_currency d) rate l = Inr price"
    "applyStockMovement L env (line_movement docId d tt inOut backdate l loc price) s = Inr s'"
  using assms by (auto simp: finalize_line_def res_bind_Inr lift_stock_Inr lift_rate_Inr)

lemma finalize_lines_grow:
  "fold_res (finalize_line L env costs docId d tt inOut rate backdate) ls s = Inr s' \<Longrightarrow>
    volume (db_kardex s) i \<le> volume (db_kardex s') i"
  by (induction ls arbitrary: s)
    (auto simp: res_bind_Inr dest!: finalize_lineE [rotated] elim!: finalize_lineE
      intro: order_trans dest: movement_grows [where i = i])

text \<open>Lines the claims cover.\<close>

definition line_ok :: "decimal_lib \<Rightarrow> (nat \<Rightarrow> rat option) \<Rightarrow> direction \<Rightarrow> string option \<Rightarrow> rat \<Rightarrow> doc_line \<Rightarrow> bool" where
  "line_ok L costs inOut currency rate l \<longleftrightarrow> \<bar>ln_qty l\<bar> \<le> 10 ^ 10 \<and>
    (inOut = DirIn \<longrightarrow> (\<forall>c. stockUnitPriceOf L costs inOut currency rate l = Inr c \<longrightarrow> money4 c))"

context decimal_js begin

lemma finalize_lines_core:
  assumes "fold_res (finalize_line L env costs docId d tt inOut rate backdate) ls s = Inr s'"
    and "core_inv L s" "small_costs s" "small_volumes s'"
    and "tt \<noteq> ''transfer''" "\<not> starts_with REV_PREFIX (dc_ref d)" "\<forall>l \<in> set ls. line_ok L costs inOut (dc_currency d) rate l"
  shows "\<exists>rs. core_inv L s' \<and> small_costs s' \<and> frame s s' rs \<and> length rs = length ls \<and>
    (\<forall>r \<in> set rs. kx_doc r = Some docId \<and> \<not> kx_deleted r \<and> kx_reversalOf r = None)"
  using assms
proof (induction ls arbitrary: s)
  case Nil
  then show ?case by (auto simp: frame_def)
next
  case (Cons l ls)
  from Cons.prems(1) obtain t where t: "finalize_line L env costs docId d tt inOut rate backdate l s = Inr t"
    "fold_res (finalize_line L env costs docId d tt inOut rate backdate) ls t = Inr s'"
    by (auto simp: res_bind_Inr)
  from finalize_lineE [OF t(1)] obtain loc price where
    price: "stockUnitPriceOf L costs inOut (dc_currency d) rate l = Inr price"
    and mv: "applyStockMovement L env (line_movement docId d tt inOut backdate l loc price) s = Inr t" .
  have "small_volumes t"
    using Cons.prems(4) finalize_lines_grow [OF t(2)] unfolding small_volumes_def by (meson le_less_trans)
  moreover have "movement_ok (line_movement docId d tt inOut backdate l loc price)"
    using Cons.prems(5-7) price by (auto simp: movement_ok_def line_movement_def line_ok_def)
  ultimately obtain r where r: "core_inv L t" "small_costs t" "frame s t [r]" "kx_doc r = Some docId"
    "\<not> kx_deleted r" "kx_reversalOf r = None"
    using movement_core [OF mv Cons.prems(2) _ Cons.prems(3)] by (metis line_movement_def movement.select_convs(2))
  from Cons.IH [OF t(2) r(1,2) Cons.prems(4-6)] Cons.prems(7) obtain rs where
    "core_inv L s'" "small_costs s'" "frame t s' rs" "length rs = length ls"
    "\<forall>r \<in> set rs. kx_doc r = Some docId \<and> \<not> kx_deleted r \<and> kx_reversalOf r = None" by auto
  with r show ?case by (intro exI [of _ "r # rs"]) (auto simp: frame_def)
qed

end

text \<open>Documents the claims cover when they are finalized.\<close>

definition finalize_ok :: "decimal_lib \<Rightarrow> stock_env \<Rightarrow> (nat \<Rightarrow> rat option) \<Rightarrow> nat \<Rightarrow> finalize_options \<Rightarrow> doc_row \<Rightarrow> bool" where
  "finalize_ok L env returnCost docId opts d0 \<longleftrightarrow> (let d = finalize_target env docId opts d0 in dc_type d \<noteq> ''transfer'' \<and>
    \<not> starts_with REV_PREFIX (dc_ref d) \<and> (\<forall>l \<in> set (dc_lines d). \<bar>ln_qty l\<bar> \<le> 10 ^ 10) \<and>
    (\<forall>rate costs. document_costs L returnCost d (finalize_rate env docId opts d) = Inr (rate, costs) \<longrightarrow>
      (\<forall>(i, c) \<in> set costs. money4 c)))"

lemma finalize_target_fields [simp]:
  "dc_type (finalize_target env i opts d) = dc_type d" "dc_lines (finalize_target env i opts d) = dc_lines d"
  "dc_deleted (finalize_target env i opts d) = dc_deleted d"
  by (simp_all add: finalize_target_def)

lemma finalized_row_fields [simp]:
  "dc_deleted (finalized_row d rate vat) = dc_deleted d" "dc_status (finalized_row d rate vat) = ''final''"
  by (simp_all add: finalized_row_def)

lemma line_prices_member:
  "line_prices L rc inOut cur rate ls = Inr cs \<Longrightarrow> l \<in> set ls \<Longrightarrow>
    stockUnitPriceOf L rc inOut cur rate l = Inr c \<Longrightarrow> (ln_item l, c) \<in> set cs"
  by (induction ls arbitrary: cs) (auto simp: res_bind_Inr)

lemma finalize_draftE:
  assumes fin: "finalizeDocument L env returnCost docId opts s = Inr s'"
    and d0: "db_docs s docId = Some d0" and draft: "dc_status d0 \<noteq> ''final''"
  obtains d rate costs t vat where "d = finalize_target env docId opts d0" "\<not> dc_deleted d" "dc_lines d \<noteq> []"
    "document_costs L returnCost d (finalize_rate env docId opts d) = Inr (rate, costs)"
    "finalize_lines L env returnCost docId opts d rate s = Inr t" "finalize_vat L env docId opts d = Inr vat"
    "s' = t\<lparr>db_docs := (db_docs t)(docId \<mapsto> finalized_row d rate vat)\<rparr>"
proof -
  from assms have nd: "\<not> dc_deleted d0" "dc_lines d0 \<noteq> []" by (auto simp: finalizeDocument_def split: if_splits)
  define d where "d = finalize_target env docId opts d0"
  from assms nd obtain rate costs where
    c: "document_costs L returnCost d (finalize_rate env docId opts d) = Inr (rate, costs)" and
    r: "res_bind (finalize_lines L env returnCost docId opts d rate s) (\<lambda>s'.
        res_bind (finalize_vat L env docId opts d) (\<lambda>vat.
          Inr (s'\<lparr>db_docs := (db_docs s')(docId \<mapsto> finalized_row d rate vat)\<rparr>))) = Inr s'"
    by (auto simp: finalizeDocument_def Let_def res_bind_Inr lift_rate_Inr d_def split: if_splits)
  from r obtain t vat where "finalize_lines L env returnCost docId opts d rate s = Inr t"
    "finalize_vat L env docId opts d = Inr vat"
    "s' = t\<lparr>db_docs := (db_docs t)(docId \<mapsto> finalized_row d rate vat)\<rparr>"
    unfolding res_bind_Inr by blast
  with c nd d_def that show thesis by (metis finalize_target_fields(2,3))
qed

lemma finalize_final: "finalizeDocument L env rc i opts s = Inr s' \<Longrightarrow> db_docs s i = Some d \<Longrightarrow> dc_status d = ''final'' \<Longrightarrow> s' = s"
  by (auto simp: finalizeDocument_def split: if_splits)

context decimal_js begin

text \<open>The lines of a covered document are covered.\<close>

lemma finalize_ok_lines:
  assumes ok: "finalize_ok L env returnCost docId opts d0" and d: "d = finalize_target env docId opts d0"
    and costs: "document_costs L returnCost d (finalize_rate env docId opts d) = Inr (rate, costs)"
    and l: "l \<in> set (dc_lines d)"
  shows "line_ok L (return_costs returnCost d) (stockDirectionOf (final_type d)) (dc_currency d) rate l"
  unfolding line_ok_def
proof (intro conjI impI allI)
  show "\<bar>ln_qty l\<bar> \<le> 10 ^ 10" using ok l d by (simp add: finalize_ok_def Let_def)
  fix c assume dir: "stockDirectionOf (final_type d) = DirIn"
    and c: "stockUnitPriceOf L (return_costs returnCost d) (stockDirectionOf (final_type d)) (dc_currency d) rate l = Inr c"
  from costs dir have "line_prices L (return_costs returnCost d) DirIn (dc_currency d) rate (dc_lines d) = Inr costs"
    by (auto simp: document_costs_def Let_def res_bind_Inr)
  from line_prices_member [OF this l] c dir have "(ln_item l, c) \<in> set costs" by simp
  with ok costs d show "money4 c" by (auto simp: finalize_ok_def Let_def)
qed

lemma finalize_core:
  assumes fin: "finalizeDocument L env returnCost docId opts s = Inr s'"
    and inv: "core_inv L s" "docs_inv s" "small_costs s" and vol: "small_volumes s'"
    and ok: "\<And>d. db_docs s docId = Some d \<Longrightarrow> finalize_ok L env returnCost docId opts d"
  shows "core_inv L s' \<and> docs_inv s' \<and> small_costs s'"
proof -
  obtain d0 where d0: "db_docs s docId = Some d0" using fin by (auto simp: finalizeDocument_def split: option.splits)
  show ?thesis
  proof (cases "dc_status d0 = ''final''")
    case True
    with finalize_final [OF fin d0] inv show ?thesis by simp
  next
    case False
    from finalize_draftE [OF fin d0 False] obtain d rate costs t vat where
      d: "d = finalize_target env docId opts d0" "\<not> dc_deleted d" "dc_lines d \<noteq> []"
      and costs: "document_costs L returnCost d (finalize_rate env docId opts d) = Inr (rate, costs)"
      and lines: "finalize_lines L env returnCost docId opts d rate s = Inr t"
      and s': "s' = t\<lparr>db_docs := (db_docs t)(docId \<mapsto> finalized_row d rate vat)\<rparr>" .
    note fok = ok [OF d0]
    have tt: "final_type d \<noteq> ''transfer''" and ref: "\<not> starts_with REV_PREFIX (dc_ref d)"
      using fok d(1) by (auto simp: finalize_ok_def final_type_def Let_def)
    have vt: "small_volumes t" using vol by (simp add: small_volumes_def s')
    have lok: "\<forall>l \<in> set (dc_lines d). line_ok L (return_costs returnCost d) (stockDirectionOf (final_type d)) (dc_currency d) rate l"
      using finalize_ok_lines [OF fok d(1) costs] by blast
    from finalize_lines_core [OF lines [unfolded finalize_lines_def] inv(1,3) vt tt ref lok] obtain rs where
      t: "core_inv L t" "small_costs t" "frame s t rs" "length rs = length (dc_lines d)"
      and rs: "\<forall>r \<in> set rs. kx_doc r = Some docId \<and> \<not> kx_deleted r \<and> kx_reversalOf r = None" by blast
    have "docs_inv s'"
    proof (rule docs_inv_record [OF inv(2)])
      show "db_kardex s' = db_kardex s @ rs" "db_docs s' = (db_docs s)(docId \<mapsto> finalized_row d rate vat)"
        using t(3) by (auto simp: frame_def s')
      show "rs \<noteq> []" using t(4) d(3) by auto
      show "doc_live docId (db_kardex s)" using inv(2) d0 d by (simp add: docs_inv_def)
    qed (use rs d in auto)
    moreover have "core_inv L s'" "small_costs s'" using t(1,2) by (simp_all add: core_inv_def small_costs_def s')
    ultimately show ?thesis by simp
  qed
qed

end

section \<open>Runs\<close>

text \<open>
  A run starts with no items, documents or movements. Its steps are the operations of the engine; a
  step that throws leaves the state as it was. The side conditions bound the numbers (quantities of
  an item add up to less than \<open>10 ^ 10\<close>, unit costs have four decimals and are below \<open>10 ^ 11\<close>) and exclude
  movement numbers that start with the prefix of reversals: the replay of the cost needs both.
\<close>

inductive stock_run :: "decimal_lib \<Rightarrow> stock_db \<Rightarrow> bool" for L where
  run_start: "db_items s = (\<lambda>_. None) \<Longrightarrow> db_docs s = (\<lambda>_. None) \<Longrightarrow> db_stocks s = [] \<Longrightarrow> db_kardex s = [] \<Longrightarrow>
    stock_run L s"
| run_item: "stock_run L s \<Longrightarrow> db_items s i = None \<Longrightarrow> money4 (im_wac it) \<Longrightarrow> 0 \<le> im_wac it \<Longrightarrow>
    stock_run L (s\<lparr>db_items := (db_items s)(i \<mapsto> it)\<rparr>)"
| run_draft: "stock_run L s \<Longrightarrow> db_docs s d = None \<Longrightarrow> dc_status D \<noteq> ''final'' \<Longrightarrow> \<not> dc_deleted D \<Longrightarrow>
    stock_run L (s\<lparr>db_docs := (db_docs s)(d \<mapsto> D)\<rparr>)"
| run_move: "stock_run L s \<Longrightarrow> applyStockMovement L env p s = Inr s' \<Longrightarrow> mv_doc p = None \<Longrightarrow> movement_ok p \<Longrightarrow>
    small_volumes s' \<Longrightarrow> stock_run L s'"
| run_transfer: "stock_run L s \<Longrightarrow> executeWarehouseTransfer L env tp d ref s = Inr s' \<Longrightarrow> db_docs s d = None \<Longrightarrow>
    transfer_ok tp ref \<Longrightarrow> small_volumes s' \<Longrightarrow> stock_run L s'"
| run_finalize: "stock_run L s \<Longrightarrow> finalizeDocument L env rc d opts s = Inr s' \<Longrightarrow>
    (\<And>D. db_docs s d = Some D \<Longrightarrow> finalize_ok L env rc d opts D) \<Longrightarrow> small_volumes s' \<Longrightarrow> stock_run L s'"
| run_void: "stock_run L s \<Longrightarrow> deleteDocument L env d s = Inr s' \<Longrightarrow> small_volumes s' \<Longrightarrow> small_costs s' \<Longrightarrow>
    stock_run L s'"

context decimal_js begin

lemma run_invariant: "stock_run L s \<Longrightarrow> core_inv L s \<and> docs_inv s \<and> small_costs s"
proof (induction rule: stock_run.induct)
  case (run_start s)
  then show ?case
    by (simp add: core_inv_def kardex_ok_def docs_inv_def small_costs_def volume_def item_rows_def)
next
  case (run_item s i it)
  then have inv: "core_inv L s" "docs_inv s" "small_costs s" by auto
  have none: "item_rows (db_kardex s) i = []"
    using inv(1) run_item(2) by (force simp: core_inv_def item_rows_def filter_empty_conv)
  then have "volume (db_kardex s) i = 0" by (simp add: volume_def)
  then have zero: "item_total (db_stocks s) i = 0"
    using inv(1) item_total_nonneg [of "db_warehouses s" "db_stocks s" i]
    by (auto simp: core_inv_def intro: antisym dest!: spec [of _ i])
  have "item_agrees L (item_actions (db_kardex s) i) (item_total (db_stocks s) i) (im_wac it)"
    using none zero run_item(3,4) by (simp add: item_agrees_def item_actions_def kfold_def never_negative_def money4_def)
  with inv run_item(3) show ?case
    by (auto simp: core_inv_def docs_inv_def small_costs_def money4_def)
next
  case (run_draft s d D)
  then have inv: "core_inv L s" "docs_inv s" "small_costs s" by auto
  then have "\<forall>r \<in> set (db_kardex s). kx_doc r \<noteq> Some d" using run_draft(2) by (force simp: docs_inv_def)
  with inv run_draft(3,4) show ?case
    by (auto simp: core_inv_def docs_inv_def small_costs_def doc_live_def)
next
  case (run_move s env p s')
  then have inv: "core_inv L s" "docs_inv s" "small_costs s" by auto
  from movement_core [OF run_move(2) inv(1) run_move(4) inv(3) run_move(5)] obtain r where
    r: "core_inv L s'" "small_costs s'" "frame s s' [r]" "kx_doc r = mv_doc p" "\<not> kx_deleted r" "kx_reversalOf r = None" .
  then have "db_kardex s' = db_kardex s @ [r]" "db_docs s' = db_docs s" by (auto simp: frame_def)
  with inv(2) r(4) run_move(3) have "docs_inv s'" by (auto simp: docs_inv_def doc_live_def)
  with r show ?case by simp
next
  case (run_transfer s env tp d ref s')
  then have inv: "core_inv L s" "docs_inv s" "small_costs s" by auto
  from transfer_core [OF run_transfer(2) inv(1) run_transfer(4) inv(3) run_transfer(5)] obtain D rs where
    r: "core_inv L s'" "small_costs s'" "db_kardex s' = db_kardex s @ rs" "rs \<noteq> []"
    "\<forall>r \<in> set rs. kx_doc r = Some d \<and> \<not> kx_deleted r \<and> kx_reversalOf r = None"
    "db_docs s' = (db_docs s)(d \<mapsto> D)" "\<not> dc_deleted D" "dc_status D = ''final''" .
  have new: "\<forall>r \<in> set (db_kardex s). kx_doc r \<noteq> Some d" using inv(2) run_transfer(3) by (force simp: docs_inv_def)
  then have "doc_live d (db_kardex s)" by (simp add: doc_live_def)
  from docs_inv_record [OF inv(2) r(3,6,4,5) this r(7,8)] r show ?case by simp
next
  case (run_finalize s env rc d opts s')
  then show ?case using finalize_core [OF run_finalize(2)] by blast
next
  case (run_void s env d s')
  then show ?case using void_core [OF run_void(2)] by blast
qed

end

end
