(* ===== verification/StockBalance.thy ===== *)
theory StockBalance
  imports StockRun
begin

text \<open>
  The quantities alone. \<open>stock_run\<close> bounds unit costs to four decimals and excludes typed numbers that
  start with the prefix of reversals, since the replay of the cost needs both. The replay of the
  quantity needs neither: \<open>stock_reach\<close> leaves costs, numbers, document types and item rows free, and
  the balance of the Kardex is the live stock in every state it reaches.
\<close>

section \<open>The rows of a Kardex that all count\<close>

definition counted_row :: "kardex_row \<Rightarrow> bool" where
  "counted_row r \<longleftrightarrow> (kx_type r = KTin \<or> kx_type r = KTout) \<and> scaled 4 (kx_qty r) \<and> 0 < kx_qty r"

definition rows_counted :: "kardex_row list \<Rightarrow> nat \<Rightarrow> bool" where
  "rows_counted K next \<longleftrightarrow> sorted_wrt (<) (map kx_id K) \<and>
    (\<forall>r \<in> set K. kx_id r < next \<and> counted_row r \<and> deleted_ok K r)"

definition moved :: "kardex_row list \<Rightarrow> rat" where
  "moved rs = sum_list (map signed_qty rs)"

lemma moved_simps [simp]: "moved [] = 0" "moved (r # rs) = signed_qty r + moved rs"
    "moved (rs @ rs') = moved rs + moved rs'"
  by (simp_all add: moved_def)

text \<open>No prefix of the rows takes the balance below zero, starting at \<open>b\<close>.\<close>

definition covered :: "rat \<Rightarrow> kardex_row list \<Rightarrow> bool" where
  "covered b rs \<longleftrightarrow> (\<forall>n. 0 \<le> b + moved (take n rs))"

lemma covered_start: "covered b rs \<Longrightarrow> 0 \<le> b"
  unfolding covered_def by (drule spec [of _ 0]) simp

lemma covered_end: "covered b rs \<Longrightarrow> 0 \<le> b + moved rs"
  unfolding covered_def by (drule spec [of _ "length rs"]) simp

lemma covered_Cons [simp]: "covered b (r # rs) \<longleftrightarrow> 0 \<le> b \<and> covered (b + signed_qty r) rs"
proof
  assume cov: "covered b (r # rs)"
  have "0 \<le> b + moved (take (Suc n) (r # rs))" for n using cov unfolding covered_def by blast
  with covered_start [OF cov] show "0 \<le> b \<and> covered (b + signed_qty r) rs"
    by (simp add: covered_def add.assoc)
next
  assume a: "0 \<le> b \<and> covered (b + signed_qty r) rs"
  have "0 \<le> b + moved (take n (r # rs))" for n
    using a by (cases n) (simp_all add: covered_def add.assoc)
  then show "covered b (r # rs)" by (simp add: covered_def)
qed

lemma covered_Nil [simp]: "covered b [] \<longleftrightarrow> 0 \<le> b"
  by (simp add: covered_def)

lemma covered_append: "covered b (rs @ rs') \<longleftrightarrow> covered b rs \<and> covered (b + moved rs) rs'"
  by (induction rs arbitrary: b) (auto simp: add.assoc dest: covered_start)

lemma signed_counted: "counted_row r \<Longrightarrow> signed_qty r = (if kx_type r = KTin then kx_qty r else - kx_qty r)"
  by (auto simp: counted_row_def signed_qty_def isInType_def isOutType_def)

lemma moved_le_volume: "\<forall>r \<in> set K. counted_row r \<Longrightarrow> moved (item_rows K i) \<le> volume K i"
  by (induction K) (auto simp: item_rows_def signed_counted, auto simp: counted_row_def)

lemma signed_undoes: "undoes q r \<Longrightarrow> counted_row q \<Longrightarrow> counted_row r \<and> signed_qty r = - signed_qty q"
  by (auto simp: undoes_def counted_row_def signed_qty_def reversal_type_def isInType_def isOutType_def)

lemma signed_transfer [simp]:
  "signed_qty (transfer_row L n i d dir q w day ref c) = (if dir = DirIn then db_numeric4 q else - db_numeric4 q)"
  by (cases dir) (simp_all add: signed_qty_def dir_type_def isInType_def isOutType_def)

lemma undoes_rows:
  assumes "list_all2 undoes os rs" and "\<forall>q \<in> set os. counted_row q"
  shows "\<forall>r \<in> set rs. counted_row r" "map signed_qty (item_rows rs i) = map (\<lambda>q. - signed_qty q) (item_rows os i)"
    "volume rs i = volume os i"
  using assms
  by (induction rule: list_all2_induct) (auto simp: item_rows_def dest: signed_undoes, auto simp: undoes_def)

section \<open>The replay of the quantity\<close>

lemma kstep_balance:
  assumes "kaction_of rows r = Some a"
  shows "fst (kstep L a (b, w)) = (if isInType (kx_type r) then fin_add L b (kx_qty r) else fin_subtract L b (kx_qty r))"
  using assms by (auto simp: kaction_of_def Let_def split: if_splits option.splits)

lemma counted_action:
  assumes "counted_row r" "kx_deleted r \<longrightarrow> activelyReversed rows (kx_id r) \<and> kx_reversalOf r = None"
  obtains a where "kaction_of rows r = Some a"
  using assms by (force simp: kaction_of_def kardex_counts_def counted_row_def isInType_def isOutType_def)

context decimal_js begin

lemma replay_loop_balance:
  assumes "\<forall>r \<in> set rs. counted_row r \<and> (kx_deleted r \<longrightarrow> activelyReversed rows (kx_id r) \<and> kx_reversalOf r = None)"
    and "scaled 4 (kr_balance acc)" "covered (kr_balance acc) rs" "kr_balance acc + sum_list (map kx_qty rs) < 10 ^ 10"
    and "kr_firstNegative acc = None" "kr_minimum acc \<le> 0"
  shows "kr_balance (replay_loop L rows rs acc) = kr_balance acc + moved rs \<and>
    kr_firstNegative (replay_loop L rows rs acc) = None \<and> kr_minimum (replay_loop L rows rs acc) = kr_minimum acc"
  using assms
proof (induction rs arbitrary: acc)
  case (Cons r rs)
  then have r: "counted_row r" by simp
  obtain a where a: "kaction_of rows r = Some a" using counted_action [OF r] Cons.prems(1) by auto
  obtain b w where bw: "kstep L a (kr_balance acc, kr_wac acc) = (b, w)" by fastforce
  have q: "scaled 4 (kx_qty r)" "0 < kx_qty r" using r by (auto simp: counted_row_def)
  have rest: "0 \<le> sum_list (map kx_qty rs)"
    using Cons.prems(1) by (force simp: counted_row_def intro: sum_list_nonneg less_imp_le)
  have bal: "0 \<le> kr_balance acc" "covered (kr_balance acc + signed_qty r) rs" using Cons.prems(3) by simp_all
  from covered_start [OF bal(2)] have nn: "0 \<le> kr_balance acc + signed_qty r" .
  have plus: "fin_add L (kr_balance acc) (kx_qty r) = kr_balance acc + kx_qty r"
    by (rule add_scaled4) (use q rest Cons.prems(2,4) bal in auto)
  have minus: "fin_subtract L (kr_balance acc) (kx_qty r) = kr_balance acc - kx_qty r"
    by (rule subtract_scaled4) (use q rest Cons.prems(2,4) bal in \<open>auto simp: abs_if\<close>)
  have "b = (if isInType (kx_type r) then fin_add L (kr_balance acc) (kx_qty r)
      else fin_subtract L (kr_balance acc) (kx_qty r))"
    using kstep_balance [OF a, of L "kr_balance acc" "kr_wac acc"] bw by simp
  then have b: "b = kr_balance acc + signed_qty r"
    using r plus minus by (auto simp: signed_counted counted_row_def isInType_def)
  let ?acc = "\<lparr>kr_balance = b, kr_wac = w, kr_firstNegative = None, kr_minimum = kr_minimum acc\<rparr>"
  have step: "replay_loop L rows (r # rs) acc = replay_loop L rows rs ?acc"
    using a bw nn b Cons.prems(5,6) by (simp add: kardex_apply_kstep)
  have "kr_balance (replay_loop L rows rs ?acc) = kr_balance ?acc + moved rs \<and>
    kr_firstNegative (replay_loop L rows rs ?acc) = None \<and> kr_minimum (replay_loop L rows rs ?acc) = kr_minimum ?acc"
  proof (rule Cons.IH)
    show "scaled 4 (kr_balance ?acc)" using Cons.prems(2) q r by (auto simp: b signed_counted scaled_add scaled_diff)
    show "kr_balance ?acc + sum_list (map kx_qty rs) < 10 ^ 10"
      using Cons.prems(4) q r by (auto simp: b signed_counted)
  qed (use Cons.prems(1,6) bal(2) b in auto)
  with step show ?case by (simp add: b)
qed simp

end

section \<open>The invariant\<close>

definition balance_inv :: "stock_db \<Rightarrow> bool" where
  "balance_inv s \<longleftrightarrow> stock_rows_ok (db_warehouses s) (db_stocks s) \<and> rows_counted (db_kardex s) (db_nextTx s) \<and>
    (\<forall>r \<in> set (db_kardex s). db_items s (kx_item r) \<noteq> None) \<and>
    (\<forall>i. item_total (db_stocks s) i = moved (item_rows (db_kardex s) i) \<and> covered 0 (item_rows (db_kardex s) i))"

lemma balance_volume: "balance_inv s \<Longrightarrow> item_total (db_stocks s) i \<le> volume (db_kardex s) i"
  using moved_le_volume [of "db_kardex s" i] by (simp add: balance_inv_def rows_counted_def)

lemma rows_counted_append:
  assumes "rows_counted K next" "counted_row r" "\<not> kx_deleted r" "kx_id r = next"
  shows "rows_counted (K @ [r]) (next + 1)"
  using assms by (fastforce simp: rows_counted_def sorted_wrt_append deleted_ok_def)

text \<open>Recording one row whose quantity the stock of its item moves by.\<close>

lemma balance_record:
  assumes inv: "balance_inv s" and r: "counted_row r" "\<not> kx_deleted r" "kx_id r = db_nextTx s"
    and t: "db_kardex t = db_kardex s @ [r]" "db_nextTx t = db_nextTx s + 1" "db_warehouses t = db_warehouses s"
      "stock_rows_ok (db_warehouses s) (db_stocks t)" "db_items t (kx_item r) \<noteq> None"
    and items: "\<And>i. db_items s i \<noteq> None \<Longrightarrow> db_items t i \<noteq> None"
    and tot: "\<And>i. item_total (db_stocks t) i = item_total (db_stocks s) i + (if i = kx_item r then signed_qty r else 0)"
  shows "balance_inv t"
  unfolding balance_inv_def
proof (intro conjI allI ballI)
  show "stock_rows_ok (db_warehouses t) (db_stocks t)" using t by simp
  show "rows_counted (db_kardex t) (db_nextTx t)"
    using rows_counted_append [OF _ r] inv by (simp add: balance_inv_def t)
  show "db_items t (kx_item q) \<noteq> None" if "q \<in> set (db_kardex t)" for q
    using that inv items t(1,5) by (auto simp: balance_inv_def)
  fix i
  have old: "item_total (db_stocks s) i = moved (item_rows (db_kardex s) i)" "covered 0 (item_rows (db_kardex s) i)"
    using inv by (simp_all add: balance_inv_def)
  have new: "item_rows (db_kardex t) i = item_rows (db_kardex s) i @ (if kx_item r = i then [r] else [])"
    by (simp add: t item_rows_def)
  show total: "item_total (db_stocks t) i = moved (item_rows (db_kardex t) i)" using old tot [of i] by (simp add: new)
  have "0 \<le> item_total (db_stocks t) i" using t(4) by (rule item_total_nonneg)
  with total old covered_end [OF old(2)] show "covered 0 (item_rows (db_kardex t) i)"
    by (auto simp: new covered_append)
qed


context decimal_js begin

lemma balance_movement:
  assumes mv: "applyStockMovement L env p s = Inr s'" and inv: "balance_inv s" and vol: "small_volumes s'"
    and ok: "\<And>x. mv_qty p = Some x \<Longrightarrow> \<bar>x\<bar> \<le> 10 ^ 10"
  obtains r where "balance_inv s'" "frame s s' [r]" "kx_doc r = mv_doc p" "\<not> kx_deleted r" "kx_reversalOf r = None"
proof -
  from movementE [OF mv] obtain wh q price it u stocks day ev w where
    q: "stockMovementQuantity L (mv_qty p) = Some q" "0 < q" and it: "db_items s (mv_item p) = Some it"
    and st: "applyMovement L (db_warehouses s) (mv_item p) wh (mv_dir p) (Some q) (db_stocks s) = Inr stocks"
    and s': "s' = s\<lparr>db_kardex := db_kardex s @ [movement_row L (db_nextTx s) p q u day (wh_code wh)],
       db_nextTx := db_nextTx s + 1, db_stocks := stocks,
       db_items := (db_items s)(mv_item p \<mapsto> it\<lparr>im_wac := w, im_version := nextVersion (im_version it)\<rparr>),
       db_events := db_events s @ [ev]\<rparr>" by metis
  let ?r = "movement_row L (db_nextTx s) p q u day (wh_code wh)"
  obtain x where x: "mv_qty p = Some x" using q by (auto simp: stockMovementQuantity_def)
  with q ok have q4: "scaled 4 q" by (intro quantity_scaled [of x]) auto
  have rows: "stock_rows_ok (db_warehouses s) (db_stocks s)" using inv by (simp add: balance_inv_def)
  have small: "item_total (db_stocks s) (mv_item p) + q < 10 ^ 11"
    using balance_volume [OF inv, of "mv_item p"] vol by (auto simp: small_volumes_def s' dest!: spec [of _ "mv_item p"])
  note eff = applyMovement_spec [OF st rows q4 small]
  have r: "counted_row ?r" using q q4 by (cases "mv_dir p") (auto simp: counted_row_def dir_type_def)
  have "balance_inv s'"
  proof (rule balance_record [OF inv r])
    show "item_total (db_stocks s') i = item_total (db_stocks s) i + (if i = kx_item ?r then signed_qty ?r else 0)" for i
      using eff(4) [of i] by (cases "mv_dir p") (auto simp: s' signed_counted [OF r] dir_type_def)
  qed (use eff(2) in \<open>auto simp: s'\<close>)
  moreover have "frame s s' [?r]" by (simp add: frame_def s')
  ultimately show thesis by (rule that) auto
qed

lemma balance_lines:
  assumes "fold_res (finalize_line L env costs docId d tt inOut rate backdate) ls s = Inr s'"
    and "balance_inv s" "small_volumes s'" "\<forall>l \<in> set ls. \<bar>ln_qty l\<bar> \<le> 10 ^ 10"
  shows "\<exists>rs. balance_inv s' \<and> frame s s' rs \<and> length rs = length ls \<and>
    (\<forall>r \<in> set rs. kx_doc r = Some docId \<and> \<not> kx_deleted r \<and> kx_reversalOf r = None)"
  using assms
proof (induction ls arbitrary: s)
  case Nil
  then show ?case by (auto simp: frame_def)
next
  case (Cons l ls)
  from Cons.prems(1) obtain t where t: "finalize_line L env costs docId d tt inOut rate backdate l s = Inr t"
    "fold_res (finalize_line L env costs docId d tt inOut rate backdate) ls t = Inr s'"
    by (auto simp: res_bind_Inr)
  from finalize_lineE [OF t(1)] obtain loc price where
    mv: "applyStockMovement L env (line_movement docId d tt inOut backdate l loc price) s = Inr t" by metis
  have "small_volumes t"
    using Cons.prems(3) finalize_lines_grow [OF t(2)] unfolding small_volumes_def by (meson le_less_trans)
  from balance_movement [OF mv Cons.prems(2) this] Cons.prems(4) obtain r where
    r: "balance_inv t" "frame s t [r]" "kx_doc r = Some docId" "\<not> kx_deleted r" "kx_reversalOf r = None"
    by (auto simp: line_movement_def)
  from Cons.IH [OF t(2) r(1) Cons.prems(3)] Cons.prems(4) obtain rs where
    "balance_inv s'" "frame t s' rs" "length rs = length ls"
    "\<forall>r \<in> set rs. kx_doc r = Some docId \<and> \<not> kx_deleted r \<and> kx_reversalOf r = None" by auto
  with r show ?case by (intro exI [of _ "r # rs"]) (auto simp: frame_def)
qed

lemma balance_finalize:
  assumes fin: "finalizeDocument L env returnCost docId opts s = Inr s'"
    and inv: "balance_inv s" "docs_inv s" and vol: "small_volumes s'"
    and ok: "\<And>d. db_docs s docId = Some d \<Longrightarrow> \<forall>l \<in> set (dc_lines d). \<bar>ln_qty l\<bar> \<le> 10 ^ 10"
  shows "balance_inv s' \<and> docs_inv s'"
proof -
  obtain d0 where d0: "db_docs s docId = Some d0" using fin by (auto simp: finalizeDocument_def split: option.splits)
  show ?thesis
  proof (cases "dc_status d0 = ''final''")
    case True
    with finalize_final [OF fin d0] inv show ?thesis by simp
  next
    case False
    from finalize_draftE [OF fin d0 False] obtain d rate costs t vat where
      d: "d = finalize_target env docId opts d0" "\<not> dc_deleted d" "dc_lines d \<noteq> []"
      and lines: "finalize_lines L env returnCost docId opts d rate s = Inr t"
      and s': "s' = t\<lparr>db_docs := (db_docs t)(docId \<mapsto> finalized_row d rate vat)\<rparr>" .
    have vt: "small_volumes t" using vol by (simp add: small_volumes_def s')
    have "\<forall>l \<in> set (dc_lines d). \<bar>ln_qty l\<bar> \<le> 10 ^ 10" using ok [OF d0] d(1) by simp
    from balance_lines [OF lines [unfolded finalize_lines_def] inv(1) vt this] obtain rs where
      t: "balance_inv t" "frame s t rs" "length rs = length (dc_lines d)"
      and rs: "\<forall>r \<in> set rs. kx_doc r = Some docId \<and> \<not> kx_deleted r \<and> kx_reversalOf r = None" by blast
    have "docs_inv s'"
    proof (rule docs_inv_record [OF inv(2)])
      show "db_kardex s' = db_kardex s @ rs" "db_docs s' = (db_docs s)(docId \<mapsto> finalized_row d rate vat)"
        using t(2) by (auto simp: frame_def s')
      show "rs \<noteq> []" using t(3) d(3) by auto
      show "doc_live docId (db_kardex s)" using inv(2) d0 d by (simp add: docs_inv_def)
    qed (use rs d in auto)
    moreover have "balance_inv s'" using t(1) by (simp add: balance_inv_def s')
    ultimately show ?thesis by simp
  qed
qed

lemma balance_transfer:
  assumes tr: "executeWarehouseTransfer L env p docId ref s = Inr s'" and inv: "balance_inv s" "docs_inv s"
    and q: "qty4 (tf_qty p)" and vol: "small_volumes s'" and new: "db_docs s docId = None"
  shows "balance_inv s' \<and> docs_inv s'"
proof -
  have qn: "fin_toNumber L (tf_qty p) = tf_qty p" using q by (intro toNumber_scaled) (auto simp: qty4_def)
  from transferE [OF tr, unfolded qn] obtain it fromWh toWh st1 st2 day where
    q0: "0 < tf_qty p" and it: "db_items s (tf_item p) = Some it"
    and mv1: "applyMovement L (db_warehouses s) (tf_item p) fromWh DirOut (Some (tf_qty p)) (db_stocks s) = Inr st1"
    and mv2: "applyMovement L (db_warehouses s) (tf_item p) toWh DirIn (Some (tf_qty p)) st1 = Inr st2"
    and s': "s' = s\<lparr>db_stocks := st2,
       db_items := (db_items s)(tf_item p \<mapsto> it\<lparr>im_version := nextVersion (im_version it)\<rparr>),
       db_docs := (db_docs s)(docId \<mapsto> transfer_document p ref (tf_qty p) day it (wh_code fromWh)),
       db_kardex := db_kardex s @ transfer_rows L p (db_nextTx s) docId (tf_qty p) (im_wac it) day ref
         (wh_code fromWh) (wh_code toWh),
       db_nextTx := db_nextTx s + 2\<rparr>" .
  let ?i = "tf_item p" and ?q = "tf_qty p"
  let ?r1 = "transfer_row L (db_nextTx s) ?i docId DirOut ?q (im_wac it) day ref (wh_code fromWh)"
  let ?r2 = "transfer_row L (db_nextTx s + 1) ?i docId DirIn ?q (im_wac it) day ref (wh_code toWh)"
  have q4: "scaled 4 ?q" using q by (simp add: qty4_def)
  then have qd: "db_numeric4 ?q = ?q" by (simp add: db_numeric4_def)
  have rows: "stock_rows_ok (db_warehouses s) (db_stocks s)" using inv by (simp add: balance_inv_def)
  have small: "item_total (db_stocks s) ?i + ?q < 10 ^ 11"
    using balance_volume [OF inv(1), of ?i] vol q0
    by (auto simp: small_volumes_def s' transfer_rows_def qd dest!: spec [of _ ?i])
  note e1 = applyMovement_spec [OF mv1 rows q4 small]
  have "item_total st1 ?i + ?q < 10 ^ 11" using e1(4) [of ?i] small q0 by simp
  note e2 = applyMovement_spec [OF mv2 e1(2) q4 this]
  have rok: "counted_row ?r1" "counted_row ?r2" using q0 q4 by (auto simp: counted_row_def dir_type_def qd)
  let ?t = "s\<lparr>db_stocks := st1, db_kardex := db_kardex s @ [?r1], db_nextTx := db_nextTx s + 1\<rparr>"
  have "balance_inv ?t"
    by (rule balance_record [OF inv(1) rok(1)])
      (use e1(2,4) it in \<open>auto simp: qd\<close>)
  then have "balance_inv s'"
    by (rule balance_record [OF _ rok(2)])
      (use e2(2,4) in \<open>auto simp: s' transfer_rows_def qd\<close>)
  moreover have "docs_inv s'"
  proof (rule docs_inv_record [OF inv(2)])
    show "db_kardex s' = db_kardex s @ [?r1, ?r2]" by (simp add: s' transfer_rows_def)
    show "db_docs s' = (db_docs s)(docId \<mapsto> transfer_document p ref ?q day it (wh_code fromWh))" by (simp add: s')
    show "doc_live docId (db_kardex s)" using inv(2) new by (force simp: docs_inv_def doc_live_def)
  qed (auto simp: transfer_document_def)
  ultimately show ?thesis ..
qed

end


section \<open>Voids\<close>

lemma reversal_rows_undo:
  assumes "\<forall>r \<in> set os. counted_row r \<and> kx_doc r = Some d"
  shows "list_all2 undoes os (reversal_rows L n d D today code os)"
    "map kx_id (reversal_rows L n d D today code os) = [n ..< n + length os]"
  using assms
  by (induction os arbitrary: n)
    (auto simp: counted_row_def reversal_row_def undoes_def upt_conv_Cons simp del: upt_Suc)

lemma rows_counted_void:
  assumes ok: "rows_counted K next" and live: "doc_live d K" and un: "list_all2 undoes (originals d K) revs"
    and ids: "map kx_id revs = [next ..< next + length revs]"
  shows "rows_counted (mark_doc d K @ revs) (next + length revs)"
proof -
  let ?K' = "mark_doc d K @ revs"
  have row: "kx_id r < next \<and> counted_row r \<and> deleted_ok K r" if "r \<in> set K" for r
    using ok that by (simp add: rows_counted_def)
  have old: "kx_id (marked d x) < next + length revs \<and> counted_row (marked d x) \<and> deleted_ok ?K' (marked d x)"
    if x: "x \<in> set K" for x
  proof (cases "kx_doc x = Some d")
    case True
    with live x have l: "\<not> kx_deleted x" "kx_reversalOf x = None" by (auto simp: doc_live_def)
    from original_has [OF un x True l(1)] obtain r where "r \<in> set revs" "undoes x r" .
    with l row [OF x] show ?thesis by (auto simp: deleted_ok_def undoes_def counted_row_def intro!: bexI [of _ r])
  next
    case False
    then have m: "marked d x = x" by simp
    have "deleted_ok ?K' x" unfolding deleted_ok_def
    proof
      assume "kx_deleted x"
      with row [OF x] obtain q where q: "kx_reversalOf x = None" "q \<in> set K" "kx_reversalOf q = Some (kx_id x)"
        "\<not> kx_deleted q" "kx_item q = kx_item x" "kx_doc q = kx_doc x" by (auto simp: deleted_ok_def)
      with False have "q \<in> set ?K'" by (auto simp: mark_doc_map intro: image_eqI [of _ _ q])
      with q show "kx_reversalOf x = None \<and> (\<exists>q\<in>set ?K'. kx_reversalOf q = Some (kx_id x) \<and>
          \<not> kx_deleted q \<and> kx_item q = kx_item x \<and> kx_doc q = kx_doc x)" by blast
    qed
    with row [OF x] show ?thesis by (simp add: m)
  qed
  have "\<forall>q \<in> set (originals d K). counted_row q" using row by (simp add: set_originals)
  then have counted: "\<forall>r \<in> set revs. counted_row r" by (rule undoes_rows [OF un])
  have new: "kx_id r < next + length revs \<and> counted_row r \<and> deleted_ok ?K' r" and low: "next \<le> kx_id r"
    if r: "r \<in> set revs" for r
  proof -
    have "kx_id r \<in> set [next ..< next + length revs]" using r ids by (metis imageI list.set_map)
    moreover have "\<not> kx_deleted r" using original_of [OF un r] by (metis undoes_def)
    ultimately show "kx_id r < next + length revs \<and> counted_row r \<and> deleted_ok ?K' r" "next \<le> kx_id r"
      using counted r by (auto simp: deleted_ok_def)
  qed
  have "sorted_wrt (<) (map kx_id ?K')"
    using ok row low ids by (force simp: rows_counted_def mark_doc_map comp_def sorted_wrt_append)
  moreover have "kx_id x < next + length revs \<and> counted_row x \<and> deleted_ok ?K' x" if "x \<in> set ?K'" for x
    using that old new by (auto simp: mark_doc_map)
  ultimately show ?thesis unfolding rows_counted_def by blast
qed

context decimal_js begin

text \<open>Reverting one row moves the stock of its item back by its quantity.\<close>

lemma revert_row_moves:
  assumes rv: "revert_row L D code r s = Inr s'" and r: "counted_row r" and it: "db_items s (kx_item r) \<noteq> None"
    and ok: "stock_rows_ok (db_warehouses s) (db_stocks s)" and small: "item_total (db_stocks s) (kx_item r) + kx_qty r < 10 ^ 10"
  shows "same_tables s s'" "stock_rows_ok (db_warehouses s') (db_stocks s')"
    "item_total (db_stocks s') i = item_total (db_stocks s) i - (if i = kx_item r then signed_qty r else 0)"
proof -
  let ?p = "reversal_of_row D code r"
  have q: "0 < kx_qty r" "scaled 4 (kx_qty r)" using r by (auto simp: counted_row_def)
  from rv q(1) obtain ty res where ap: "applyStockReversal L ?p s = Inr (s', ty, res)"
    by (auto simp: revert_row_def res_bind_Inr)
  have fields: "rv_item ?p = kx_item r" "rv_qty ?p = kx_qty r" "rv_type ?p = kx_type r" by (simp_all add: reversal_of_row_def)
  from it obtain jt where jt: "db_items s (rv_item ?p) = Some jt" by (auto simp: fields)
  from reversalE [OF ap jt, unfolded fields] obtain wh stocks evs w where
    mv: "applyMovement L (db_warehouses s) (kx_item r) wh (rev_movement (kx_type r)) (Some (kx_qty r)) (db_stocks s) = Inr stocks"
    and s': "s' = s\<lparr>db_stocks := stocks,
       db_items := (db_items s)(kx_item r \<mapsto> jt\<lparr>im_wac := w, im_version := nextVersion (im_version jt)\<rparr>),
       db_events := evs\<rparr>" by metis
  have small': "item_total (db_stocks s) (kx_item r) + kx_qty r < 10 ^ 11" using small by simp
  note eff = applyMovement_spec [OF mv ok q(2) small']
  show "same_tables s s'" using it by (auto simp: same_tables_def s')
  show "stock_rows_ok (db_warehouses s') (db_stocks s')" using eff(2) by (simp add: s')
  show "item_total (db_stocks s') i = item_total (db_stocks s) i - (if i = kx_item r then signed_qty r else 0)"
    using eff(4) [of i] by (simp add: s' signed_counted [OF r] rev_movement_def)
qed

text \<open>The rows that undo the reverted rows keep the balance covered.\<close>

lemma revert_rows_move:
  assumes "fold_res (revert_row L D code) os s = Inr s'" and "\<forall>r \<in> set os. counted_row r \<and> db_items s (kx_item r) \<noteq> None"
    and "stock_rows_ok (db_warehouses s) (db_stocks s)" and "\<And>i. item_total (db_stocks s) i + volume os i < 10 ^ 10"
    and "list_all2 undoes os revs"
  shows "same_tables s s' \<and> stock_rows_ok (db_warehouses s') (db_stocks s') \<and>
    (\<forall>i. item_total (db_stocks s') i = item_total (db_stocks s) i + moved (item_rows revs i) \<and>
      covered (item_total (db_stocks s) i) (item_rows revs i))"
  using assms
proof (induction os arbitrary: s revs)
  case Nil
  then show ?case by (auto simp: item_rows_def intro: item_total_nonneg)
next
  case (Cons r os)
  from Cons.prems(1) obtain t where t: "revert_row L D code r s = Inr t" "fold_res (revert_row L D code) os t = Inr s'"
    by (auto simp: res_bind_Inr)
  from Cons.prems(5) obtain q qs where qs: "revs = q # qs" "undoes r q" "list_all2 undoes os qs" by (auto simp: list_all2_Cons1)
  have r: "counted_row r" "db_items s (kx_item r) \<noteq> None" using Cons.prems(2) by auto
  have vol: "0 \<le> volume os i" for i
    using Cons.prems(2) by (force simp: volume_def counted_row_def intro: sum_list_nonneg less_imp_le)
  have small: "item_total (db_stocks s) (kx_item r) + kx_qty r < 10 ^ 10"
    using Cons.prems(4) [of "kx_item r"] vol [of "kx_item r"] by simp
  note step = revert_row_moves [OF t(1) r Cons.prems(3) small]
  have sgn: "signed_qty q = - signed_qty r" "kx_item q = kx_item r"
    using signed_undoes [OF qs(2) r(1)] qs(2) by (auto simp: undoes_def)
  have bound: "item_total (db_stocks t) i + volume os i < 10 ^ 10" for i
    using step(3) [of i] Cons.prems(4) [of i] r(1) by (auto simp: signed_counted counted_row_def split: if_splits)
  have "\<forall>r \<in> set os. counted_row r \<and> db_items t (kx_item r) \<noteq> None"
    using Cons.prems(2) step(1) by (auto simp: same_tables_def)
  note ih = Cons.IH [OF t(2) this step(2) bound qs(3)]
  have rows: "item_rows revs i = (if kx_item r = i then q # item_rows qs i else item_rows qs i)" for i
    by (simp add: qs(1) sgn item_rows_def)
  have rest: "item_total (db_stocks s') i = item_total (db_stocks t) i + moved (item_rows qs i) \<and>
      covered (item_total (db_stocks t) i) (item_rows qs i)" for i using ih by blast
  have "item_total (db_stocks s') i = item_total (db_stocks s) i + moved (item_rows revs i) \<and>
      covered (item_total (db_stocks s) i) (item_rows revs i)" for i
    using rest [of i, unfolded step(3)] item_total_nonneg [OF Cons.prems(3), of i] by (auto simp: rows sgn)
  moreover have "same_tables s s'" using step(1) ih same_tables_trans by blast
  ultimately show ?case using ih by blast
qed

lemma balance_void:
  assumes del: "deleteDocument L env docId s = Inr s'" and inv: "balance_inv s" "docs_inv s" and vol: "small_volumes s'"
  shows "balance_inv s' \<and> docs_inv s'"
proof (cases "\<exists>D. db_docs s docId = Some D \<and> \<not> dc_deleted D")
  case False
  with del inv show ?thesis by (auto simp: deleteDocument_def split: option.splits if_splits)
next
  case True
  then obtain D where D: "db_docs s docId = Some D" "\<not> dc_deleted D" by blast
  then have dl: "doc_live docId (db_kardex s)" using inv(2) by (auto simp: docs_inv_def)
  show ?thesis
  proof (cases "dc_status D = ''final''")
    case False
    with inv(2) D have none: "\<forall>r \<in> set (db_kardex s). kx_doc r \<noteq> Some docId" by (auto simp: docs_inv_def)
    from deleteDocument_draft [OF del D none False] inv none show ?thesis by (auto simp: docs_inv_def balance_inv_def)
  next
    case True
    let ?K = "db_kardex s" and ?os = "originals docId (db_kardex s)"
    have ne: "?os \<noteq> []"
      using inv(2) D True by (force simp: docs_inv_def doc_live_def originals_def is_original_def filter_empty_conv)
    from void_stateE [OF del D True ne] obtain code code' s1 where
      s1: "s1 = s\<lparr>db_docs := (db_docs s)(docId \<mapsto> D\<lparr>dc_deleted := True\<rparr>),
        db_kardex := mark_doc docId ?K @ reversal_rows L (db_nextTx s) docId D (se_today env) code ?os,
        db_nextTx := db_nextTx s + length (reversal_rows L (db_nextTx s) docId D (se_today env) code ?os)\<rparr>"
      and fold: "fold_res (revert_row L D code') ?os s1 = Inr s'" .
    define revs where "revs = reversal_rows L (db_nextTx s) docId D (se_today env) code ?os"
    from inv(1) have kok: "rows_counted ?K (db_nextTx s)" and ex: "\<forall>r \<in> set ?K. db_items s (kx_item r) \<noteq> None"
      and rows: "stock_rows_ok (db_warehouses s) (db_stocks s)"
      and tot: "\<And>i. item_total (db_stocks s) i = moved (item_rows ?K i)" and cov: "\<And>i. covered 0 (item_rows ?K i)"
      by (auto simp: balance_inv_def)
    have os: "\<forall>r \<in> set ?os. counted_row r \<and> kx_doc r = Some docId"
      using kok by (auto simp: set_originals rows_counted_def)
    note un = reversal_rows_undo [OF os, of L "db_nextTx s" D "se_today env" code, folded revs_def]
    have len: "length revs = length ?os" using un(1) by (simp add: list_all2_lengthD)
    have kx: "db_kardex s' = mark_doc docId ?K @ revs" using revert_rows_kardex [OF fold] by (simp add: s1 revs_def)
    have "volume revs i = volume ?os i" for i using un(1) os by (intro undoes_rows(3)) auto
    then have "item_total (db_stocks s1) i + volume ?os i < 10 ^ 10" for i
      using balance_volume [OF inv(1), of i] vol by (auto simp: small_volumes_def kx s1 dest!: spec [of _ i])
    moreover have "\<forall>r \<in> set ?os. counted_row r \<and> db_items s1 (kx_item r) \<noteq> None"
      using os ex by (auto simp: set_originals s1)
    moreover have "stock_rows_ok (db_warehouses s1) (db_stocks s1)" using rows by (simp add: s1)
    ultimately have eff: "same_tables s1 s'" "stock_rows_ok (db_warehouses s') (db_stocks s')"
      "item_total (db_stocks s') i = item_total (db_stocks s) i + moved (item_rows revs i)"
      "covered (item_total (db_stocks s) i) (item_rows revs i)" for i
      using revert_rows_move [OF fold _ _ _ un(1)] by (auto simp: s1)
    have nx: "db_nextTx s' = db_nextTx s + length revs" and docs: "db_docs s' = (db_docs s)(docId \<mapsto> D\<lparr>dc_deleted := True\<rparr>)"
      and items: "\<And>i. db_items s' i = None \<longleftrightarrow> db_items s i = None"
      using eff(1) by (auto simp: same_tables_def s1 revs_def)
    have same: "moved (map (marked docId) rs) = moved rs" for rs
      by (induction rs) (auto simp: signed_qty_def)
    have take: "covered 0 (map (marked docId) rs) = covered 0 rs" for rs by (simp add: covered_def take_map same)
    have "balance_inv s'" unfolding balance_inv_def
    proof (intro conjI allI ballI)
      show "rows_counted (db_kardex s') (db_nextTx s')"
        using rows_counted_void [OF kok dl un(1)] un(2) by (simp add: kx nx len)
      show "db_items s' (kx_item r) \<noteq> None" if r: "r \<in> set (db_kardex s')" for r
      proof -
        from void_row_source [OF un(1) r [unfolded kx]] obtain q where "q \<in> set ?K" "kx_item q = kx_item r" .
        with ex items show ?thesis by metis
      qed
      show "item_total (db_stocks s') i = moved (item_rows (db_kardex s') i)" for i
        using eff(3) [of i] tot [of i] by (simp add: kx same)
      show "covered 0 (item_rows (db_kardex s') i)" for i
        using eff(4) [of i] cov [of i] tot [of i] by (simp add: kx covered_append take same)
    qed (rule eff(2))
    with voided_docs [OF un(1) kx docs inv(2)] show ?thesis by simp
  qed
qed

end

section \<open>Runs\<close>

text \<open>
  The steps of \<open>stock_run\<close> without its conditions on costs and numbers. An item row may be created or
  changed at any time, by any code, and a draft may be edited. What is left: quantities have at most
  eleven digits, those of an item add up to less than \<open>10 ^ 10\<close>, and those of a transfer have four
  decimals, as the quantity column has.
\<close>

inductive stock_reach :: "decimal_lib \<Rightarrow> stock_db \<Rightarrow> bool" for L where
  reach_start: "db_items s = (\<lambda>_. None) \<Longrightarrow> db_docs s = (\<lambda>_. None) \<Longrightarrow> db_stocks s = [] \<Longrightarrow> db_kardex s = [] \<Longrightarrow>
    stock_reach L s"
| reach_item: "stock_reach L s \<Longrightarrow> stock_reach L (s\<lparr>db_items := (db_items s)(i \<mapsto> it)\<rparr>)"
| reach_draft: "stock_reach L s \<Longrightarrow> (\<And>E. db_docs s d = Some E \<Longrightarrow> dc_status E \<noteq> ''final'' \<and> \<not> dc_deleted E) \<Longrightarrow>
    dc_status D \<noteq> ''final'' \<Longrightarrow> \<not> dc_deleted D \<Longrightarrow> stock_reach L (s\<lparr>db_docs := (db_docs s)(d \<mapsto> D)\<rparr>)"
| reach_move: "stock_reach L s \<Longrightarrow> applyStockMovement L env p s = Inr s' \<Longrightarrow> mv_doc p = None \<Longrightarrow>
    (\<And>x. mv_qty p = Some x \<Longrightarrow> \<bar>x\<bar> \<le> 10 ^ 10) \<Longrightarrow> small_volumes s' \<Longrightarrow> stock_reach L s'"
| reach_transfer: "stock_reach L s \<Longrightarrow> executeWarehouseTransfer L env tp d ref s = Inr s' \<Longrightarrow> db_docs s d = None \<Longrightarrow>
    qty4 (tf_qty tp) \<Longrightarrow> small_volumes s' \<Longrightarrow> stock_reach L s'"
| reach_finalize: "stock_reach L s \<Longrightarrow> finalizeDocument L env rc d opts s = Inr s' \<Longrightarrow>
    (\<And>D. db_docs s d = Some D \<Longrightarrow> \<forall>l \<in> set (dc_lines D). \<bar>ln_qty l\<bar> \<le> 10 ^ 10) \<Longrightarrow> small_volumes s' \<Longrightarrow>
    stock_reach L s'"
| reach_void: "stock_reach L s \<Longrightarrow> deleteDocument L env d s = Inr s' \<Longrightarrow> small_volumes s' \<Longrightarrow> stock_reach L s'"

lemma run_reach: "stock_run L s \<Longrightarrow> stock_reach L s"
proof (induction rule: stock_run.induct)
  case (run_start s)
  then show ?case by (rule reach_start)
next
  case (run_item s i it)
  then show ?case by (intro reach_item)
next
  case (run_draft s d D)
  then show ?case by (intro reach_draft) auto
next
  case (run_move s env p s')
  then show ?case by (intro reach_move [OF run_move.IH run_move(2,3)]) (auto simp: movement_ok_def)
next
  case (run_transfer s env tp d ref s')
  then show ?case by (intro reach_transfer [OF run_transfer.IH run_transfer(2)]) (auto simp: transfer_ok_def)
next
  case (run_finalize s env rc d opts s')
  then show ?case by (intro reach_finalize [OF run_finalize.IH run_finalize(2)]) (auto simp: finalize_ok_def Let_def)
next
  case (run_void s env d s')
  then show ?case by (intro reach_void [OF run_void.IH run_void(2)])
qed

context decimal_js begin

lemma reach_invariant: "stock_reach L s \<Longrightarrow> balance_inv s \<and> docs_inv s"
proof (induction rule: stock_reach.induct)
  case (reach_start s)
  then show ?case
    by (simp add: balance_inv_def rows_counted_def docs_inv_def item_rows_def stock_rows_ok_def item_total_def)
next
  case (reach_item s i it)
  then show ?case by (auto simp: balance_inv_def docs_inv_def)
next
  case (reach_draft s d D)
  then have "\<forall>r \<in> set (db_kardex s). kx_doc r \<noteq> Some d" by (fastforce simp: docs_inv_def)
  with reach_draft show ?case by (auto simp: balance_inv_def docs_inv_def doc_live_def)
next
  case (reach_move s env p s')
  from reach_move.IH balance_movement [OF reach_move(2) _ reach_move(5,4)] obtain r where
    r: "balance_inv s'" "frame s s' [r]" "kx_doc r = mv_doc p" by metis
  then have "db_kardex s' = db_kardex s @ [r]" "db_docs s' = db_docs s" by (auto simp: frame_def)
  with reach_move.IH r reach_move(3) show ?case by (auto simp: docs_inv_def doc_live_def)
next
  case (reach_transfer s env tp d ref s')
  then show ?case using balance_transfer [OF reach_transfer(2)] by blast
next
  case (reach_finalize s env rc d opts s')
  then show ?case using balance_finalize [OF reach_finalize(2)] by blast
next
  case (reach_void s env d s')
  then show ?case using balance_void [OF reach_void(2)] by blast
qed

lemma item_rows_ids: "rows_counted K n \<Longrightarrow> sort_key kx_id (item_rows K i) = item_rows K i"
  by (intro sort_key_id_if_sorted)
    (auto simp: rows_counted_def item_rows_def sorted_wrt_map intro!: sorted_wrt_filter elim: sorted_wrt_mono_rel [rotated])

lemma replay_balance:
  assumes inv: "balance_inv s" and vol: "small_volumes s"
  shows "kr_balance (replayKardexWac L (item_rows (db_kardex s) i) w) = item_total (db_stocks s) i \<and>
    kr_firstNegative (replayKardexWac L (item_rows (db_kardex s) i) w) = None \<and>
    kr_minimum (replayKardexWac L (item_rows (db_kardex s) i) w) = 0"
proof -
  let ?I = "item_rows (db_kardex s) i"
  let ?init = "\<lparr>kr_balance = 0, kr_wac = 0, kr_firstNegative = None, kr_minimum = 0\<rparr> :: kardex_result"
  from inv have kok: "rows_counted (db_kardex s) (db_nextTx s)" and tot: "item_total (db_stocks s) i = moved ?I"
    and cov: "covered 0 ?I" by (auto simp: balance_inv_def)
  have "counted_row r \<and> (kx_deleted r \<longrightarrow> activelyReversed ?I (kx_id r) \<and> kx_reversalOf r = None)" if "r \<in> set ?I" for r
    using kok that by (force simp: rows_counted_def deleted_ok_def activelyReversed_def list_ex_iff)
  moreover have "sum_list (map kx_qty ?I) < 10 ^ 10" using vol by (simp add: small_volumes_def volume_def)
  ultimately have "kr_balance (replay_loop L ?I ?I ?init) = moved ?I \<and>
      kr_firstNegative (replay_loop L ?I ?I ?init) = None \<and> kr_minimum (replay_loop L ?I ?I ?init) = 0"
    using replay_loop_balance [of ?I ?I ?init] cov by simp
  then show ?thesis by (simp add: replayKardexWac_def item_rows_ids [OF kok] Let_def tot)
qed

end

end
