(* ===== verification/StockClaims.thy ===== *)
theory StockClaims
  imports StockBalance
begin

text \<open>
  What the stock model promises: in every run the repair tool's replay of the Kardex reproduces the
  live stock, and the live cost where unit costs have four decimals, a movement and a transfer change exactly the warehouse they name, a void takes
  back what the document put in, and both document operations may be repeated safely.
\<close>

section \<open>The replay of the Kardex\<close>

context decimal_js begin

lemma replay_loop_first_negative:
  assumes "never_negative L (kardex_actions rows rs) (kr_balance acc, kr_wac acc)" "kr_firstNegative acc = None"
    "kr_minimum acc \<le> 0"
  shows "kr_firstNegative (replay_loop L rows rs acc) = None \<and> kr_minimum (replay_loop L rows rs acc) = kr_minimum acc"
  using assms
proof (induction rs arbitrary: acc)
  case (Cons r rs)
  show ?case
  proof (cases "kaction_of rows r")
    case None
    with Cons show ?thesis by (simp add: kardex_apply_kstep)
  next
    case (Some a)
    obtain b w where bw: "kstep L a (kr_balance acc, kr_wac acc) = (b, w)" by fastforce
    with Some Cons.prems(1) have nn: "never_negative L (kardex_actions rows rs) (b, w)" by simp
    have "0 \<le> fst (kfold L (take 0 (kardex_actions rows rs)) (b, w))" using nn unfolding never_negative_def by blast
    then have b: "0 \<le> b" by (simp add: kfold_def)
    let ?acc = "\<lparr>kr_balance = b, kr_wac = w, kr_firstNegative = None, kr_minimum = kr_minimum acc\<rparr>"
    have "replay_loop L rows (r # rs) acc = replay_loop L rows rs ?acc"
      using Some bw b Cons.prems(2,3) by (simp add: kardex_apply_kstep)
    with Cons.IH [of ?acc] nn Cons.prems(3) show ?thesis by simp
  qed
qed simp

lemma item_rows_sorted: "kardex_ok K n \<Longrightarrow> sort_key kx_id (item_rows K i) = item_rows K i"
  by (intro sort_key_id_if_sorted)
    (auto simp: kardex_ok_def item_rows_def sorted_wrt_map intro!: sorted_wrt_filter elim: sorted_wrt_mono_rel [rotated])

lemma replay_agrees:
  assumes inv: "core_inv L s" and it: "db_items s i = Some it"
  shows "replayKardexWac L (item_rows (db_kardex s) i) (im_wac it) =
    \<lparr>kr_balance = item_total (db_stocks s) i, kr_wac = im_wac it, kr_firstNegative = None, kr_minimum = 0\<rparr>"
proof -
  let ?I = "item_rows (db_kardex s) i"
  let ?init = "\<lparr>kr_balance = 0, kr_wac = 0, kr_firstNegative = None, kr_minimum = 0\<rparr> :: kardex_result"
  let ?res = "replay_loop L ?I ?I ?init"
  have sorted: "sort_key kx_id ?I = ?I" using inv by (auto simp: core_inv_def intro: item_rows_sorted)
  have ag: "item_agrees L (kardex_actions ?I ?I) (item_total (db_stocks s) i) (im_wac it)"
    using inv it by (auto simp: core_inv_def item_actions_def)
  have neg: "kr_firstNegative ?res = None" "kr_minimum ?res = 0"
    using replay_loop_first_negative [of ?I ?I ?init] ag by (auto simp: item_agrees_def)
  have fold: "(kr_balance ?res, kr_wac ?res) = kfold L (kardex_actions ?I ?I) (0, 0)"
    using replay_loop_kfold [of L ?I ?I ?init] by simp
  have w: "0 \<le> im_wac it" using ag by (simp add: item_agrees_def)
  show ?thesis
  proof (cases "kardex_actions ?I ?I = []")
    case True
    with fold have "kr_balance ?res = 0" "kr_wac ?res = 0" by (simp_all add: kfold_def)
    with neg True ag show ?thesis
      by (simp add: replayKardexWac_def sorted Let_def item_agrees_def kardex_result.equality)
  next
    case False
    with ag fold have "kr_balance ?res = item_total (db_stocks s) i" "kr_wac ?res = im_wac it"
      by (simp_all add: item_agrees_def)
    with neg w show ?thesis
      by (auto simp: replayKardexWac_def sorted Let_def intro!: kardex_result.equality)
  qed
qed

lemma same_wac_no_difference: "scaled 4 w \<Longrightarrow> w < 10 ^ 11 \<Longrightarrow> 0 \<le> w \<Longrightarrow> \<not> wacDiffersFromReplay L w w st"
  using subtract_scaled4 [of w w] by (simp add: wacDiffersFromReplay_def KARDEX_WAC_TOLERANCE_def)

lemma run_totals_small:
  assumes "core_inv L s" "small_volumes s"
  shows "item_total (db_stocks s) i < 10 ^ 10"
  using assms unfolding core_inv_def small_volumes_def by (meson le_less_trans)

end

text \<open>C4: In every state reached by movements, transfers, finalizing and voiding, whatever their unit costs
  and numbers are, the replay of an item's Kardex gives exactly the live stock of the item over all
  warehouses and never meets a negative balance (quantities of an item add up to less than 10^10). In
  a run whose unit costs have at most four decimals, as cost columns have, and whose typed numbers do
  not start with REV-, it also gives exactly the live weighted average cost, and the health report
  sees no difference.\<close>
theorem replay_reproduces_live:
  assumes "decimal_js L" and "stock_reach L s" and "small_volumes s" and "db_items s i = Some it"
  shows "kr_balance (replayKardexWac L (item_rows (db_kardex s) i) (im_wac it)) =
      sn_total (getStockSnapshot L (db_warehouses s) (db_stocks s) i)
    \<and> kr_firstNegative (replayKardexWac L (item_rows (db_kardex s) i) (im_wac it)) = None
    \<and> kr_minimum (replayKardexWac L (item_rows (db_kardex s) i) (im_wac it)) = 0
    \<and> (stock_run L s \<longrightarrow>
      kr_wac (replayKardexWac L (item_rows (db_kardex s) i) (im_wac it)) = im_wac it
      \<and> \<not> wacDiffersFromReplay L (im_wac it)
        (kr_wac (replayKardexWac L (item_rows (db_kardex s) i) (im_wac it)))
        (sn_total (getStockSnapshot L (db_warehouses s) (db_stocks s) i)))"
proof -
  from decimal_js.reach_invariant [OF assms(1,2)] have inv: "balance_inv s" ..
  then have rows: "stock_rows_ok (db_warehouses s) (db_stocks s)" by (simp add: balance_inv_def)
  have "item_total (db_stocks s) i < 10 ^ 11"
    using balance_volume [OF inv, of i] assms(3) by (auto simp: small_volumes_def dest!: spec [of _ i])
  then have snap: "sn_total (getStockSnapshot L (db_warehouses s) (db_stocks s) i) = item_total (db_stocks s) i"
    by (rule decimal_js.snapshot_total [OF assms(1) rows])
  have cost: "kr_wac (replayKardexWac L (item_rows (db_kardex s) i) (im_wac it)) = im_wac it
      \<and> \<not> wacDiffersFromReplay L (im_wac it) (im_wac it) x" if "stock_run L s" for x
  proof -
    from decimal_js.run_invariant [OF assms(1) that] have inv: "core_inv L s" "small_costs s" by auto
    then have w: "scaled 4 (im_wac it)" "0 \<le> im_wac it" "im_wac it < 10 ^ 11"
      using assms(4) by (auto simp: core_inv_def item_agrees_def small_costs_def)
    show ?thesis
      by (simp add: decimal_js.replay_agrees [OF assms(1) inv(1) assms(4)]
          decimal_js.same_wac_no_difference [OF assms(1) w(1,3,2)])
  qed
  show ?thesis using decimal_js.replay_balance [OF assms(1) inv assms(3), of i "im_wac it"] cost by (simp add: snap)
qed

section \<open>Movements, voids, transfers\<close>

lemma movement_warehouse:
  assumes "applyStockMovement L env p s = Inr s'"
  obtains wh q price it u day ev where
    "resolveWarehouse (db_warehouses s) (mv_loc p) = Inr wh"
    "stockMovementQuantity L (mv_qty p) = Some q" "0 < q" "mv_price p = Some price" "0 \<le> price"
    "db_items s (mv_item p) = Some it"
    "assertStockMovementDate L env (db_warehouses s) (db_kardex s) (mv_item p) (Some day) (mv_dir p) q wh (mv_backdate p) = Inr ()"
    "applyMovement L (db_warehouses s) (mv_item p) wh (mv_dir p) (Some q) (db_stocks s) = Inr (db_stocks s')"
    "db_kardex s' = db_kardex s @ [movement_row L (db_nextTx s) p q u day (wh_code wh)]"
    "db_items s' = (db_items s)(mv_item p \<mapsto> it\<lparr>
         im_wac := fin_toDb L (if mv_dir p = DirIn
           then calculateWAC L (sn_total (getStockSnapshot L (db_warehouses s) (db_stocks s) (mv_item p))) (im_wac it) q price
           else im_wac it),
         im_version := nextVersion (im_version it)\<rparr>)"
    "db_events s' = db_events s @ [ev]" "ev_qty ev = q" "ev_received ev = (mv_dir p = DirIn)"
    "ev_new ev = sn_total (getStockSnapshot L (db_warehouses s) (db_stocks s') (mv_item p))"
proof -
  from assms obtain wh where wh: "resolveWarehouse (db_warehouses s) (mv_loc p) = Inr wh"
    and 1: "(case stockMovementQuantity L (mv_qty p) of None \<Rightarrow> Inl BadQuantity
      | Some qty \<Rightarrow> applyStockMovement_at L env p s wh qty) = Inr s'"
    unfolding applyStockMovement_def res_bind_Inr by blast
  then obtain q where q: "stockMovementQuantity L (mv_qty p) = Some q" and 2: "applyStockMovement_at L env p s wh q = Inr s'"
    by (cases "stockMovementQuantity L (mv_qty p)") auto
  from 2 obtain price it where q0: "0 < q" and pr: "mv_price p = Some price" "0 \<le> price"
      and it: "db_items s (mv_item p) = Some it" and 5: "applyStockMovement_item L env p s wh q price it = Inr s'"
    by (auto simp: applyStockMovement_at_def applyStockMovement_priced_def split: if_splits option.splits)
  from 5 show thesis unfolding applyStockMovement_item_def Let_def res_bind_Inr
    by (elim exE conjE) (rule that [OF wh q q0 pr it], auto)
qed

text \<open>What a movement leaves in place.\<close>

definition moved_stock :: "stock_row list \<Rightarrow> stock_row list \<Rightarrow> nat \<Rightarrow> nat \<Rightarrow> rat \<Rightarrow> bool" where
  "moved_stock rows rows' item wh q \<longleftrightarrow>
    (\<forall>i w. stock_of rows' i w = stock_of rows i w + (if i = item \<and> w = wh then q else 0))"

text \<open>C6: A movement that succeeds changes the stock of its item in the warehouse it names by its quantity
  (rounded to four decimals) and no other stock; the cost of the item becomes the weighted average for a
  receipt and stays for an issue; one Kardex row and one event with that quantity are written, the event
  names the new total, and the item's stock stays covered.\<close>
theorem movement_changes_one_stock:
  assumes js: "decimal_js L" and run: "stock_run L s" and mv: "applyStockMovement L env p s = Inr s'"
    and ok: "movement_ok p" and vol: "small_volumes s'"
  shows "\<exists>wh q it it' r ev. resolveWarehouse (db_warehouses s) (mv_loc p) = Inr wh \<and>
    stockMovementQuantity L (mv_qty p) = Some q \<and> 0 < q \<and>
    moved_stock (db_stocks s) (db_stocks s') (mv_item p) (wh_id wh) (if mv_dir p = DirIn then q else - q) \<and>
    (\<forall>i w. 0 \<le> stock_of (db_stocks s') i w) \<and>
    db_items s (mv_item p) = Some it \<and> db_items s' = (db_items s)(mv_item p \<mapsto> it') \<and>
    im_wac it' = (if mv_dir p = DirIn
      then calculateWAC L (item_total (db_stocks s) (mv_item p)) (im_wac it) q (the (mv_price p)) else im_wac it) \<and>
    db_kardex s' = db_kardex s @ [r] \<and> kx_qty r = q \<and> kx_type r = dir_type (mv_dir p) \<and> kx_location r = wh_code wh \<and>
    db_events s' = db_events s @ [ev] \<and> ev_qty ev = q \<and> ev_new ev = item_total (db_stocks s') (mv_item p)"
proof -
  from decimal_js.run_invariant [OF js run] have inv: "core_inv L s" "small_costs s" by auto
  from decimal_js.movement_core [OF js mv inv(1) ok inv(2) vol] have inv': "core_inv L s'" by blast
  from movement_warehouse [OF mv] obtain wh q price it u day ev where
    wh: "resolveWarehouse (db_warehouses s) (mv_loc p) = Inr wh"
    and q: "stockMovementQuantity L (mv_qty p) = Some q" "0 < q" and price: "mv_price p = Some price" "0 \<le> price"
    and it: "db_items s (mv_item p) = Some it"
    and st: "applyMovement L (db_warehouses s) (mv_item p) wh (mv_dir p) (Some q) (db_stocks s) = Inr (db_stocks s')"
    and kx: "db_kardex s' = db_kardex s @ [movement_row L (db_nextTx s) p q u day (wh_code wh)]"
    and it': "db_items s' = (db_items s)(mv_item p \<mapsto> it\<lparr>
         im_wac := fin_toDb L (if mv_dir p = DirIn
           then calculateWAC L (sn_total (getStockSnapshot L (db_warehouses s) (db_stocks s) (mv_item p))) (im_wac it) q price
           else im_wac it),
         im_version := nextVersion (im_version it)\<rparr>)"
    and ev: "db_events s' = db_events s @ [ev]" "ev_qty ev = q"
      "ev_new ev = sn_total (getStockSnapshot L (db_warehouses s) (db_stocks s') (mv_item p))" by metis
  let ?i = "mv_item p" and ?ws = "db_warehouses s"
  have rows: "stock_rows_ok ?ws (db_stocks s)" using inv(1) by (simp add: core_inv_def)
  have tv: "item_total (db_stocks s) ?i \<le> volume (db_kardex s) ?i" using inv(1) by (simp add: core_inv_def)
  have small: "item_total (db_stocks s) ?i + q < 10 ^ 10"
    using tv vol by (auto simp: small_volumes_def kx dest!: spec [of _ ?i])
  obtain x where "mv_qty p = Some x" using q by (auto simp: stockMovementQuantity_def)
  with q ok have q4: "scaled 4 q" by (intro decimal_js.quantity_scaled [OF js, of x]) (auto simp: movement_ok_def)
  have small': "item_total (db_stocks s) ?i + q < 10 ^ 11" using small by simp
  note eff = decimal_js.applyMovement_spec [OF js st rows q4 small']
  have tot: "sn_total (getStockSnapshot L ?ws (db_stocks s) ?i) = item_total (db_stocks s) ?i"
    using small q by (intro decimal_js.snapshot_total [OF js rows]) auto
  have tot': "sn_total (getStockSnapshot L ?ws (db_stocks s') ?i) = item_total (db_stocks s') ?i"
    using small' q eff(4) [of ?i] by (intro decimal_js.snapshot_total [OF js eff(2)]) (auto split: direction.splits)
  have w: "scaled 4 (im_wac it)" using inv(1) it by (auto simp: core_inv_def item_agrees_def)
  have moved: "moved_stock (db_stocks s) (db_stocks s') ?i (wh_id wh) (if mv_dir p = DirIn then q else - q)"
    unfolding moved_stock_def eff(3) by (auto split: direction.splits)
  have nonneg: "\<forall>i w. 0 \<le> stock_of (db_stocks s') i w" using stock_of_nonneg [OF eff(2)] by blast
  show ?thesis
    by (intro exI conjI) (rule wh, rule q(1), rule q(2), rule moved, rule nonneg, rule it, rule it',
        auto simp: price kx ev tot tot' movement_row_def decimal_js.toDb_scaled [OF js] w decimal_js.wac_scaled [OF js])
qed

context decimal_js begin

lemma void_balance:
  assumes "\<forall>r \<in> set rs. row_ok r" "never_negative L (map void_action rs) (b, w)" "scaled 4 b"
    and "b + sum_list (map kx_qty rs) < 10 ^ 10"
  shows "fst (kfold L (map void_action rs) (b, w)) = b - sum_list (map signed_qty rs)"
  using assms
proof (induction rs arbitrary: b w)
  case (Cons r rs)
  obtain b' w' where st: "kstep L (void_action r) (b, w) = (b', w')" by fastforce
  with Cons.prems(2) have nn: "0 \<le> b" "never_negative L (map void_action rs) (b', w')" by simp_all
  then have b': "0 \<le> b'" unfolding never_negative_def by (metis fold_simps(1) fst_conv kfold_def take_0)
  from Cons.prems(1) have r: "0 < kx_qty r" "scaled 4 (kx_qty r)" "kx_type r = KTin \<or> kx_type r = KTout"
    by (auto simp: row_ok_def)
  have rest: "0 \<le> sum_list (map kx_qty rs)" using Cons.prems(1) by (force simp: row_ok_def intro: sum_list_nonneg less_imp_le)
  have plus: "fin_add L b (kx_qty r) = b + kx_qty r"
    by (rule add_scaled4) (use r nn Cons.prems(3,4) rest in auto)
  have minus: "fin_subtract L b (kx_qty r) = b - kx_qty r"
    by (rule subtract_scaled4) (use r nn Cons.prems(3,4) rest in \<open>auto simp: abs_if\<close>)
  have b'eq: "b' = b - signed_qty r"
    using st r(3) plus minus by (auto simp: void_action_def signed_qty_def isInType_def isOutType_def Let_def split: if_splits)
  have "fst (kfold L (map void_action rs) (b', w')) = b' - sum_list (map signed_qty rs)"
  proof (rule Cons.IH)
    show "scaled 4 b'" using r(2,3) Cons.prems(3)
      by (auto simp: b'eq signed_qty_def isInType_def isOutType_def intro: scaled_add scaled_diff)
    show "b' + sum_list (map kx_qty rs) < 10 ^ 10"
      using Cons.prems(4) r by (auto simp: b'eq signed_qty_def isInType_def isOutType_def)
  qed (use Cons.prems(1) nn in auto)
  with st b'eq show ?case by (simp add: kfold_def)
qed (simp add: kfold_def)

lemma voided_totals:
  assumes v: "voided L d D s s' revs" and inv: "core_inv L s" and vol: "small_volumes s'"
  shows "item_total (db_stocks s') i =
    item_total (db_stocks s) i - sum_list (map signed_qty (item_rows (originals d (db_kardex s)) i))"
proof -
  let ?os = "originals d (db_kardex s)"
  have "\<forall>r \<in> set (item_rows ?os i). row_ok r"
    using inv by (auto simp: core_inv_def kardex_ok_def set_originals)
  moreover have "never_negative L (map void_action (item_rows ?os i)) (stock_view s i)" using v by (simp add: voided_def)
  moreover have "volume revs i = volume ?os i" using v volume_reverses by (auto simp: voided_def)
  then have "item_total (db_stocks s) i + sum_list (map kx_qty (item_rows ?os i)) < 10 ^ 10"
    using v inv vol by (auto simp: voided_def core_inv_def small_volumes_def volume_def [symmetric]
        dest!: spec [of _ i] intro: le_less_trans)
  moreover have "scaled 4 (item_total (db_stocks s) i)" using inv by (auto simp: core_inv_def intro: item_total_scaled)
  ultimately have "fst (kfold L (map void_action (item_rows ?os i)) (stock_view s i)) =
      item_total (db_stocks s) i - sum_list (map signed_qty (item_rows ?os i))"
    unfolding stock_view_def by (intro void_balance) auto
  moreover have "fst (stock_view s' i) = fst (kfold L (map void_action (item_rows ?os i)) (stock_view s i))"
    using v by (simp add: voided_def)
  ultimately show ?thesis by (simp add: stock_view_def)
qed

end

text \<open>C5: Voiding a final document takes back, for every item, exactly what its Kardex rows moved, leaves
  no stock below zero, keeps the rows of all other documents, marks its own rows deleted, and gives
  each of them one live reversal row.\<close>
theorem void_takes_back:
  assumes js: "decimal_js L" and run: "stock_run L s" and del: "deleteDocument L env d s = Inr s'"
    and D: "db_docs s d = Some D" "\<not> dc_deleted D" "dc_status D = ''final''" and vol: "small_volumes s'"
  shows "(\<forall>i. item_total (db_stocks s') i =
        item_total (db_stocks s) i - sum_list (map signed_qty (item_rows (originals d (db_kardex s)) i))) \<and>
    (\<forall>i w. 0 \<le> stock_of (db_stocks s') i w) \<and>
    (\<forall>e r. e \<noteq> d \<longrightarrow> (r \<in> set (db_kardex s') \<and> kx_doc r = Some e \<longleftrightarrow> r \<in> set (db_kardex s) \<and> kx_doc r = Some e)) \<and>
    (\<exists>revs. db_kardex s' = mark_doc d (db_kardex s) @ revs \<and> list_all2 reverses (originals d (db_kardex s)) revs)"
proof -
  from decimal_js.run_invariant [OF js run] have inv: "core_inv L s" "docs_inv s" by auto
  from decimal_js.void_effect [OF js del inv vol D] obtain revs where v: "voided L d D s s' revs" .
  have "stock_rows_ok (db_warehouses s') (db_stocks s')" using v unfolding voided_def revert_inv_def by blast
  then have "0 \<le> stock_of (db_stocks s') i w" for i w by (rule stock_of_nonneg)
  moreover have "db_kardex s' = mark_doc d (db_kardex s) @ revs" "list_all2 reverses (originals d (db_kardex s)) revs"
    using v by (simp_all add: voided_def)
  ultimately show ?thesis
    using decimal_js.voided_totals [OF js v inv(1) vol] voided_rows_of_others [OF voided_undoes(1,2) [OF v]] by blast
qed

lemma transfer_warehouses:
  assumes "executeWarehouseTransfer L env p docId ref s = Inr s'"
  obtains it fromWh toWh st1 day where
    "resolveWarehouse (db_warehouses s) (tf_from p) = Inr fromWh" "resolveWarehouse (db_warehouses s) (tf_to p) = Inr toWh"
    "wh_id fromWh \<noteq> wh_id toWh" "db_items s (tf_item p) = Some it"
    "applyMovement L (db_warehouses s) (tf_item p) fromWh DirOut (Some (fin_toNumber L (tf_qty p))) (db_stocks s) = Inr st1"
    "applyMovement L (db_warehouses s) (tf_item p) toWh DirIn (Some (fin_toNumber L (tf_qty p))) st1 = Inr (db_stocks s')"
    "db_items s' = (db_items s)(tf_item p \<mapsto> it\<lparr>im_version := nextVersion (im_version it)\<rparr>)"
    "db_kardex s' = db_kardex s @ transfer_rows L p (db_nextTx s) docId (fin_toNumber L (tf_qty p)) (im_wac it) day ref
       (wh_code fromWh) (wh_code toWh)"
proof -
  let ?q = "fin_toNumber L (tf_qty p)"
  from assms obtain it fromWh toWh where it: "db_items s (tf_item p) = Some it"
    and wh: "resolveWarehouse (db_warehouses s) (tf_from p) = Inr fromWh" "resolveWarehouse (db_warehouses s) (tf_to p) = Inr toWh"
    and 1: "transfer_between L env p docId ref s it ?q fromWh toWh = Inr s'"
    by (auto simp: executeWarehouseTransfer_def Let_def res_bind_Inr split: if_splits option.splits)
  from 1 obtain day where ne: "wh_id fromWh \<noteq> wh_id toWh" and 2: "transfer_move L p docId ref s it ?q day fromWh toWh = Inr s'"
    by (auto simp: transfer_between_def Let_def res_bind_Inr split: if_splits)
  from 2 show thesis unfolding transfer_move_def res_bind_Inr
    by (elim exE conjE) (rule that [OF wh ne it], assumption, auto)
qed

text \<open>C23: A transfer between warehouses that succeeds moves its quantity from the one warehouse to the other,
  different one; no other stock, no item's total and no cost changes, and no stock goes below zero.\<close>
theorem transfer_moves_between:
  assumes js: "decimal_js L" and run: "stock_run L s" and tr: "executeWarehouseTransfer L env p d ref s = Inr s'"
    and ok: "transfer_ok p ref" and vol: "small_volumes s'"
  shows "\<exists>fromWh toWh st. resolveWarehouse (db_warehouses s) (tf_from p) = Inr fromWh \<and>
    resolveWarehouse (db_warehouses s) (tf_to p) = Inr toWh \<and> wh_id fromWh \<noteq> wh_id toWh \<and>
    moved_stock (db_stocks s) st (tf_item p) (wh_id fromWh) (- tf_qty p) \<and>
    moved_stock st (db_stocks s') (tf_item p) (wh_id toWh) (tf_qty p) \<and>
    tf_qty p \<le> stock_of (db_stocks s) (tf_item p) (wh_id fromWh) \<and>
    (\<forall>i. item_total (db_stocks s') i = item_total (db_stocks s) i) \<and>
    (\<forall>i. map_option im_wac (db_items s' i) = map_option im_wac (db_items s i)) \<and>
    (\<forall>i w. 0 \<le> stock_of (db_stocks s') i w)"
proof -
  from decimal_js.run_invariant [OF js run] have inv: "core_inv L s" by auto
  have qn: "fin_toNumber L (tf_qty p) = tf_qty p" and q4: "scaled 4 (tf_qty p)"
    using ok decimal_js.toNumber_scaled [OF js] by (auto simp: transfer_ok_def qty4_def)
  from transfer_warehouses [OF tr] obtain it fromWh toWh st day where
    wh: "resolveWarehouse (db_warehouses s) (tf_from p) = Inr fromWh" "resolveWarehouse (db_warehouses s) (tf_to p) = Inr toWh"
      "wh_id fromWh \<noteq> wh_id toWh" and it: "db_items s (tf_item p) = Some it"
    and m1: "applyMovement L (db_warehouses s) (tf_item p) fromWh DirOut (Some (tf_qty p)) (db_stocks s) = Inr st"
    and m2: "applyMovement L (db_warehouses s) (tf_item p) toWh DirIn (Some (tf_qty p)) st = Inr (db_stocks s')"
    and items: "db_items s' = (db_items s)(tf_item p \<mapsto> it\<lparr>im_version := nextVersion (im_version it)\<rparr>)"
    and kx: "db_kardex s' = db_kardex s @ transfer_rows L p (db_nextTx s) d (tf_qty p) (im_wac it) day ref
       (wh_code fromWh) (wh_code toWh)"
    unfolding qn by metis
  have rows: "stock_rows_ok (db_warehouses s) (db_stocks s)" and tv: "item_total (db_stocks s) (tf_item p) \<le> volume (db_kardex s) (tf_item p)"
    using inv by (auto simp: core_inv_def)
  have q0: "0 < tf_qty p" using applyMovement_positive [OF m1] by simp
  have small: "item_total (db_stocks s) (tf_item p) + tf_qty p < 10 ^ 11"
    using tv vol q4 q0 by (auto simp: small_volumes_def kx transfer_rows_def db_numeric4_def dest!: spec [of _ "tf_item p"])
  note e1 = decimal_js.applyMovement_spec [OF js m1 rows q4 small]
  have small': "item_total st (tf_item p) + tf_qty p < 10 ^ 11" using e1(4) [of "tf_item p"] small q0 by simp
  note e2 = decimal_js.applyMovement_spec [OF js m2 e1(2) q4 small']
  have "moved_stock (db_stocks s) st (tf_item p) (wh_id fromWh) (- tf_qty p)"
    "moved_stock st (db_stocks s') (tf_item p) (wh_id toWh) (tf_qty p)"
    by (simp_all add: moved_stock_def e1(3) e2(3))
  moreover have "\<forall>i. item_total (db_stocks s') i = item_total (db_stocks s) i" by (simp add: e1(4) e2(4))
  moreover have "\<forall>i. map_option im_wac (db_items s' i) = map_option im_wac (db_items s i)" by (simp add: items it)
  moreover have "\<forall>i w. 0 \<le> stock_of (db_stocks s') i w" using stock_of_nonneg [OF e2(2)] by blast
  ultimately show ?thesis using wh e1(5) by (intro exI [of _ fromWh] exI [of _ toWh] exI [of _ st]) simp
qed

lemma reversal_keeps_docs: "applyStockReversal L p s = Inr (s', ty, res) \<Longrightarrow> db_docs s' = db_docs s"
  by (auto simp: applyStockReversal_def res_bind_Inr Let_def split: option.splits)

lemma revert_row_docs: "revert_row L D c r s = Inr s' \<Longrightarrow> db_docs s' = db_docs s"
  unfolding revert_row_def by (auto simp only: res_bind_Inr split: if_splits prod.splits dest: reversal_keeps_docs)

lemma revert_line_docs: "revert_line L D c l s = Inr s' \<Longrightarrow> db_docs s' = db_docs s"
  unfolding revert_line_def Let_def res_bind_Inr lift_stock_Inr
  by (elim exE conjE) (auto split: prod.splits dest: reversal_keeps_docs)

lemma void_keeps_docs:
  assumes "deleteDocument L env d s = Inr s'" "db_docs s d = Some D"
  shows "\<exists>E. db_docs s' d = Some E \<and> dc_deleted E"
proof (cases "dc_deleted D")
  case True
  with assms show ?thesis by (simp add: deleteDocument_def)
next
  case False
  let ?P = "\<lambda>t. db_docs t d = Some (D\<lparr>dc_deleted := True\<rparr>)"
  have 1: "db_docs t' = db_docs t" if "fold_res (revert_row L D c) os t = Inr t'" for c os t t'
    by (rule fold_res_invariant [where P = "\<lambda>x. db_docs x = db_docs t", OF that]) (simp_all add: revert_row_docs)
  have 2: "db_docs t' = db_docs t" if "fold_res (revert_line L D c) ls t = Inr t'" for c ls t t'
    by (rule fold_res_invariant [where P = "\<lambda>x. db_docs x = db_docs t", OF that]) (simp_all add: revert_line_docs)
  let ?os = "filter (is_original d) (db_kardex s)"
  have ok: "\<not> \<not> se_check env CheckVoid d s" using assms False by (auto simp: deleteDocument_def split: if_splits)
  from assms False obtain s1 where s1: "?P s1" and
    r: "(if dc_status D = ''final'' \<or> (dc_type D = ''audit'' \<and> ?os \<noteq> [])
       then res_bind (lift_stock (default_code s1)) (\<lambda>c.
         if ?os \<noteq> [] then lift_stock (fold_res (revert_row L D c) ?os s1)
         else if dc_type D \<noteq> ''audit'' then fold_res (revert_line L D c) (dc_lines D) s1 else Inr s1)
       else Inr s1) = Inr s'"
    unfolding deleteDocument_def Let_def assms(2) option.case if_not_P [OF False] if_not_P [OF ok] res_bind_Inr
    by (elim exE conjE) (erule that [rotated], simp)
  from r have "db_docs s' = db_docs s1"
    by (simp only: res_bind_Inr lift_stock_Inr split: if_splits) (auto dest: 1 2)
  with s1 have "?P s'" by simp
  then show ?thesis by auto
qed

text \<open>C24: A document passes through its states once: finalizing a final document again changes nothing,
  voiding a void one changes nothing, and a void document cannot be finalized.\<close>
theorem document_states_once:
  assumes "finalizeDocument L env rc d opts s = Inr s1" and "deleteDocument L env d s1 = Inr s2"
  shows "finalizeDocument L env' rc' d opts' s1 = Inr s1 \<and> deleteDocument L env' d s2 = Inr s2 \<and>
    finalizeDocument L env' rc' d opts' s2 = Inl (FinStock DocumentNotFound)"
proof -
  from assms(1) obtain D where D: "db_docs s d = Some D" "\<not> dc_deleted D"
    by (auto simp: finalizeDocument_def split: option.splits if_splits)
  obtain E where E: "db_docs s1 d = Some E" "\<not> dc_deleted E" "dc_status E = ''final''"
  proof (cases "dc_status D = ''final''")
    case True
    with finalize_final [OF assms(1) D(1)] have "s1 = s" by simp
    with D True that show thesis by blast
  next
    case False
    from finalize_draftE [OF assms(1) D(1) False] show thesis
      by (metis D(2) finalize_target_fields(3) finalized_row_fields fun_upd_same stock_db.select_convs(3) stock_db.surjective stock_db.update_convs(3) that)
  qed
  from void_keeps_docs [OF assms(2) E(1)] obtain F where "db_docs s2 d = Some F" "dc_deleted F" by blast
  with E show ?thesis by (simp add: finalizeDocument_def deleteDocument_def)
qed

section \<open>A run for the witnesses\<close>

definition demo_env :: stock_env where
  "demo_env = \<lparr>se_today = 20, se_yearOpen = (\<lambda>d. 0 \<le> d), se_check = (\<lambda>_ _ _. True), se_nextRef = (\<lambda>t. t @ ''-1''),
     se_dayRef = (\<lambda>_. None), se_returnRate = (\<lambda>_. RawUndefined), se_returnVat = (\<lambda>_. None)\<rparr>"

definition demo_item :: item_row where
  "demo_item = \<lparr>im_wac = 0, im_version = 1, im_deleted = False, im_type = ''raw'', im_code = ''A''\<rparr>"

definition demo_start :: stock_db where
  "demo_start = \<lparr>db_warehouses = [\<lparr>wh_id = 1, wh_code = ''W1'', wh_name = ''main'', wh_active = True\<rparr>,
       \<lparr>wh_id = 2, wh_code = ''W2'', wh_name = ''side'', wh_active = True\<rparr>],
     db_items = (\<lambda>_. None), db_docs = (\<lambda>_. None), db_stocks = [], db_kardex = [], db_nextTx = 1, db_events = []\<rparr>"

definition demo_receipt :: "nat option \<Rightarrow> movement" where
  "demo_receipt d = \<lparr>mv_item = 7, mv_doc = d, mv_dir = DirIn, mv_qty = Some 5, mv_price = Some 100,
     mv_date = Some 10, mv_docType = ''receipt'', mv_docRef = ''R-1'', mv_loc = ''W1'', mv_backdate = False\<rparr>"

definition demo_with_item :: "(nat \<Rightarrow> doc_row option) \<Rightarrow> stock_db" where
  "demo_with_item D = demo_start\<lparr>db_items := (db_items demo_start)(7 \<mapsto> demo_item), db_docs := D\<rparr>"

definition demo_received :: "nat option \<Rightarrow> (nat \<Rightarrow> doc_row option) \<Rightarrow> stock_db" where
  "demo_received d D = (demo_with_item D)\<lparr>
     db_kardex := [movement_row ref_lib 1 (demo_receipt d) 5 100 10 ''W1''], db_nextTx := 2,
     db_stocks := [\<lparr>sr_item = 7, sr_wh = 1, sr_code = ''W1'', sr_current = 5, sr_reserved = 0, sr_version = 1\<rparr>],
     db_items := (db_items (demo_with_item D))(7 \<mapsto> demo_item\<lparr>im_wac := 100, im_version := 2\<rparr>),
     db_events := [\<lparr>ev_received = True, ev_item = 7, ev_qty = 5, ev_unitPrice = 100, ev_warehouse = ''W1'',
       ev_previous = 0, ev_new = 5, ev_docType = ''receipt'', ev_docRef = ''R-1''\<rparr>]\<rparr>"

lemma ref_numbers:
  "stockMovementQuantity ref_lib (Some 5) = Some 5" "fin_round ref_lib 100 4 = 100" "fin_round ref_lib 5 4 = 5"
  "fin_toNumber ref_lib 0 = 0" "fin_round ref_lib 0 4 = 0" "fin_add ref_lib 0 5 = 5" "fin_add ref_lib 0 0 = 0"
  "fin_toNumber ref_lib 5 = 5" "fin_toNumber ref_lib 100 = 100" "fin_toDb ref_lib 100 = 100"
  by (simp_all add: stockMovementQuantity_def ref.number_round4 ref.toNumber_scaled ref.add_scaled4 scaled_def
      fin_round_def ref.toDP_half_up fin_toDb_def)

lemma demo_wh: "resolveWarehouse (db_warehouses (demo_with_item D)) ''W1'' =
    Inr \<lparr>wh_id = 1, wh_code = ''W1'', wh_name = ''main'', wh_active = True\<rparr>"
  by code_simp

definition demo_received_as :: "movement \<Rightarrow> (nat \<Rightarrow> doc_row option) \<Rightarrow> stock_db" where
  "demo_received_as p D = (demo_received None D)\<lparr>db_kardex := [movement_row ref_lib 1 p 5 100 10 ''W1''],
     db_events := [\<lparr>ev_received = True, ev_item = 7, ev_qty = 5, ev_unitPrice = 100, ev_warehouse = ''W1'',
       ev_previous = 0, ev_new = 5, ev_docType = ''receipt'', ev_docRef = mv_docRef p\<rparr>]\<rparr>"

lemma demo_receive_as:
  "applyStockMovement ref_lib demo_env ((demo_receipt d)\<lparr>mv_docRef := ref\<rparr>) (demo_with_item D) =
    Inr (demo_received_as ((demo_receipt d)\<lparr>mv_docRef := ref\<rparr>) D)"
proof -
  let ?p = "(demo_receipt d)\<lparr>mv_docRef := ref\<rparr>"
  let ?wh = "\<lparr>wh_id = 1, wh_code = ''W1'', wh_name = ''main'', wh_active = True\<rparr>"
  have sn0: "sn_total (getStockSnapshot ref_lib (db_warehouses (demo_with_item D)) [] 7) = 0"
    by (simp add: getStockSnapshot_def rows_of_item_def ref_numbers)
  let ?rows = "[\<lparr>sr_item = 7, sr_wh = 1, sr_code = ''W1'', sr_current = 5, sr_reserved = 0, sr_version = 1\<rparr>]"
  have sn1: "sn_total (getStockSnapshot ref_lib (db_warehouses (demo_with_item D)) ?rows 7) = 5"
    by (simp add: getStockSnapshot_def rows_of_item_def ref_numbers demo_with_item_def demo_start_def row_value_def)
  have mv: "applyMovement ref_lib (db_warehouses (demo_with_item D)) 7 ?wh DirIn (Some 5) [] = Inr ?rows"
    by (simp add: applyMovement_def lockOrCreateRow_def set_row_stock_def update_rows_def same_row_def
        demo_with_item_def demo_start_def ref_numbers Let_def)
  have date: "assertStockMovementDate ref_lib demo_env (db_warehouses (demo_with_item D)) [] 7 (Some 10) DirIn 5 ?wh False = Inr ()"
    by (simp add: assertStockMovementDate_def demo_env_def lastStockMovementDay_def)
  have st: "db_items (demo_with_item D) 7 = Some demo_item" "db_stocks (demo_with_item D) = []" "db_kardex (demo_with_item D) = []"
    "db_nextTx (demo_with_item D) = 1" "db_events (demo_with_item D) = []"
    by (simp_all add: demo_with_item_def demo_start_def)
  have wac: "calculateWAC ref_lib 0 0 5 100 = 100" by (simp add: calculateWAC_def ref_numbers)
  have pr: "mv_item ?p = 7" "mv_dir ?p = DirIn" "mv_qty ?p = Some 5"
      "mv_price ?p = Some 100" "mv_date ?p = Some 10" "mv_loc ?p = ''W1''"
      "mv_backdate ?p = False" "mv_docType ?p = ''receipt''" "mv_docRef ?p = ref"
    by (simp_all add: demo_receipt_def)
  have today: "se_today demo_env = 20" by (simp add: demo_env_def)
  have "applyStockMovement_item ref_lib demo_env ?p (demo_with_item D) ?wh 5 100 demo_item = Inr (demo_received_as ?p D)"
    unfolding applyStockMovement_item_def pr today st sn0 Let_def option.case date res_bind_def sum.case mv sn1
    by (simp add: movement_unit_price_def sn1 wac demo_received_as_def demo_received_def ref_numbers nextVersion_def demo_item_def eval_nat_numeral)
  then have "applyStockMovement_at ref_lib demo_env ?p (demo_with_item D) ?wh 5 = Inr (demo_received_as ?p D)"
    by (simp add: applyStockMovement_at_def applyStockMovement_priced_def pr st demo_item_def)
  then show ?thesis unfolding applyStockMovement_def pr demo_wh by (simp add: res_bind_def ref_numbers)
qed

lemma demo_receive: "applyStockMovement ref_lib demo_env (demo_receipt d) (demo_with_item D) = Inr (demo_received d D)"
proof -
  have "(demo_receipt d)\<lparr>mv_docRef := ''R-1''\<rparr> = demo_receipt d" by (simp add: demo_receipt_def)
  with demo_receive_as [of "''R-1''" d D] show ?thesis
    by (simp add: demo_received_as_def demo_received_def) (simp add: demo_receipt_def)
qed

lemma demo_run: "stock_run ref_lib (demo_received None (\<lambda>_. None))"
proof -
  have "stock_run ref_lib demo_start" by (rule run_start) (simp_all add: demo_start_def)
  then have "stock_run ref_lib (demo_start\<lparr>db_items := (db_items demo_start)(7 \<mapsto> demo_item)\<rparr>)"
    by (rule run_item) (simp_all add: demo_start_def demo_item_def money4_def)
  then have "stock_run ref_lib (demo_with_item (\<lambda>_. None))" by (simp add: demo_with_item_def demo_start_def)
  then show ?thesis
    by (rule run_move [OF _ demo_receive])
      (simp_all add: demo_receipt_def movement_ok_def money4_def scaled_def starts_with_def REV_PREFIX_def
        small_volumes_def demo_received_def demo_with_item_def demo_start_def volume_def item_rows_def)
qed

lemma demo_small: "small_volumes (demo_received None (\<lambda>_. None))"
  by (simp add: small_volumes_def demo_received_def demo_with_item_def demo_start_def volume_def item_rows_def)

text \<open>A receipt whose typed number starts with the prefix of reversals.\<close>

definition demo_rev :: stock_db where
  "demo_rev = demo_received_as ((demo_receipt None)\<lparr>mv_docRef := ''REV-7''\<rparr>) (\<lambda>_. None)"

lemma demo_rev_reach: "stock_reach ref_lib demo_rev" "small_volumes demo_rev"
proof -
  have "stock_reach ref_lib demo_start" by (rule reach_start) (simp_all add: demo_start_def)
  then have "stock_reach ref_lib (demo_start\<lparr>db_items := (db_items demo_start)(7 \<mapsto> demo_item)\<rparr>)" by (rule reach_item)
  then have run: "stock_reach ref_lib (demo_with_item (\<lambda>_. None))" by (simp add: demo_with_item_def demo_start_def)
  show vol: "small_volumes demo_rev"
    by (simp add: small_volumes_def demo_rev_def demo_received_as_def demo_received_def volume_def item_rows_def demo_receipt_def)
  show "stock_reach ref_lib demo_rev"
    by (rule reach_move [OF run demo_receive_as [of "''REV-7''" None "\<lambda>_. None", folded demo_rev_def] _ _ vol]) (simp_all add: demo_receipt_def)
qed

lemma replay_reproduces_live_witness:
  "kr_wac (replayKardexWac ref_lib (item_rows (db_kardex (demo_received None (\<lambda>_. None))) 7) 100) = 100
    \<and> kr_balance (replayKardexWac ref_lib (item_rows (db_kardex demo_rev) 7) 100) =
      sn_total (getStockSnapshot ref_lib (db_warehouses demo_rev) (db_stocks demo_rev) 7)"
proof -
  have "db_items (demo_received None (\<lambda>_. None)) 7 = Some (demo_item\<lparr>im_wac := 100, im_version := 2\<rparr>)"
    by (simp add: demo_received_def)
  from replay_reproduces_live [OF ref.decimal_js_axioms run_reach [OF demo_run] demo_small this] demo_run
  have "kr_wac (replayKardexWac ref_lib (item_rows (db_kardex (demo_received None (\<lambda>_. None))) 7) 100) = 100"
    by simp
  moreover have "db_items demo_rev 7 = Some (demo_item\<lparr>im_wac := 100, im_version := 2\<rparr>)"
    by (simp add: demo_rev_def demo_received_as_def demo_received_def)
  from replay_reproduces_live [OF ref.decimal_js_axioms demo_rev_reach this]
  have "kr_balance (replayKardexWac ref_lib (item_rows (db_kardex demo_rev) 7) 100) =
      sn_total (getStockSnapshot ref_lib (db_warehouses demo_rev) (db_stocks demo_rev) 7)" by simp
  ultimately show ?thesis ..
qed

lemma movement_changes_one_stock_witness:
  "\<exists>wh. resolveWarehouse (db_warehouses (demo_with_item (\<lambda>_. None))) ''W1'' = Inr wh \<and>
    stock_of (db_stocks (demo_received None (\<lambda>_. None))) 7 (wh_id wh) = 5"
proof -
  have "stock_run ref_lib demo_start" by (rule run_start) (simp_all add: demo_start_def)
  then have "stock_run ref_lib (demo_start\<lparr>db_items := (db_items demo_start)(7 \<mapsto> demo_item)\<rparr>)"
    by (rule run_item) (simp_all add: demo_start_def demo_item_def money4_def)
  then have run: "stock_run ref_lib (demo_with_item (\<lambda>_. None))" by (simp add: demo_with_item_def demo_start_def)
  have ok: "movement_ok (demo_receipt None)"
    by (simp add: demo_receipt_def movement_ok_def money4_def scaled_def starts_with_def REV_PREFIX_def)
  have "mv_loc (demo_receipt None) = ''W1''" "mv_qty (demo_receipt None) = Some 5" "mv_dir (demo_receipt None) = DirIn"
    "mv_item (demo_receipt None) = 7" "db_stocks (demo_with_item (\<lambda>_. None)) = []"
    by (simp_all add: demo_receipt_def demo_with_item_def demo_start_def)
  with movement_changes_one_stock [OF ref.decimal_js_axioms run demo_receive ok demo_small] show ?thesis
    by (auto simp: ref_numbers moved_stock_def stock_of_def [of "[]"])
qed

text \<open>A transfer of two pieces to the second warehouse.\<close>

definition demo_transfer :: transfer where
  "demo_transfer = \<lparr>tf_item = 7, tf_from = ''W1'', tf_to = ''w2'', tf_qty = 2, tf_date = None, tf_backdate = False\<rparr>"

lemma ref_numbers_transfer:
  "fin_toNumber ref_lib 2 = 2" "fin_toNumber ref_lib 3 = 3" "fin_round ref_lib 3 4 = 3" "fin_round ref_lib 2 4 = 2"
  "fin_subtract ref_lib 5 2 = 3" "fin_add ref_lib 0 2 = 2" "fin_subtract ref_lib 5 5 = 0"
  "fin_multiply ref_lib 5 100 = 500" "fin_subtract ref_lib 500 500 = 0"
  by (simp_all add: ref.number_round4 ref.toNumber_scaled ref.add_scaled4 ref.subtract_scaled4 ref.multiply_scaled
      scaled_def fin_round_def ref.toDP_half_up)

lemma demo_transferred:
  obtains s' where "executeWarehouseTransfer ref_lib demo_env demo_transfer 3 ''T-1'' (demo_received None (\<lambda>_. None)) = Inr s'"
    "small_volumes s'"
proof -
  let ?s = "demo_received None (\<lambda>_. None)"
  let ?w1 = "\<lparr>wh_id = 1, wh_code = ''W1'', wh_name = ''main'', wh_active = True\<rparr>"
  let ?w2 = "\<lparr>wh_id = 2, wh_code = ''W2'', wh_name = ''side'', wh_active = True\<rparr>"
  have ws: "db_warehouses ?s = [?w1, ?w2]" by (simp add: demo_received_def demo_with_item_def demo_start_def)
  have res: "resolveWarehouse [?w1, ?w2] ''W1'' = Inr ?w1" "resolveWarehouse [?w1, ?w2] ''w2'' = Inr ?w2"
    by code_simp+
  have it: "db_items ?s 7 = Some (demo_item\<lparr>im_wac := 100, im_version := 2\<rparr>)" by (simp add: demo_received_def)
  let ?r = "\<lparr>sr_item = 7, sr_wh = 1, sr_code = ''W1'', sr_current = 5, sr_reserved = 0, sr_version = 1\<rparr>"
  have st: "db_stocks ?s = [?r]" by (simp add: demo_received_def)
  have held: "map_of (sn_byCode (getStockSnapshot ref_lib [?w1, ?w2] [?r] 7)) ''W1'' = Some 5"
    by (simp add: getStockSnapshot_def rows_of_item_def ref_numbers row_value_def add_by_code_def code_of_wh_def)
  let ?st1 = "[?r\<lparr>sr_current := 3, sr_version := 2\<rparr>]"
  have m1: "applyMovement ref_lib [?w1, ?w2] 7 ?w1 DirOut (Some 2) [?r] = Inr ?st1"
    by (simp add: applyMovement_def lockOrCreateRow_def set_row_stock_def update_rows_def same_row_def
        ref_numbers ref_numbers_transfer Let_def)
  obtain st2 where m2: "applyMovement ref_lib [?w1, ?w2] 7 ?w2 DirIn (Some 2) ?st1 = Inr st2"
    by (simp add: applyMovement_def lockOrCreateRow_def set_row_stock_def update_rows_def same_row_def
        ref_numbers ref_numbers_transfer Let_def)
  have kx: "db_kardex ?s = [movement_row ref_lib 1 (demo_receipt None) 5 100 10 ''W1'']"
    by (simp add: demo_received_def)
  have date: "assertStockMovementDate ref_lib demo_env [?w1, ?w2] (db_kardex ?s) 7 (Some 20) DirOut 2 ?w1 False = Inr ()"
    by (simp add: kx assertStockMovementDate_def demo_env_def lastStockMovementDay_def ledger_row_def movement_row_def
        demo_receipt_def)
  have tf: "tf_item demo_transfer = 7" "tf_from demo_transfer = ''W1''" "tf_to demo_transfer = ''w2''"
    "tf_qty demo_transfer = 2" "tf_date demo_transfer = None" "tf_backdate demo_transfer = False" "se_today demo_env = 20"
    by (simp_all add: demo_transfer_def demo_env_def)
  obtain s' where s': "transfer_move ref_lib demo_transfer 3 ''T-1'' ?s (demo_item\<lparr>im_wac := 100, im_version := 2\<rparr>) 2 20 ?w1 ?w2 = Inr s'"
    unfolding transfer_move_def tf ws st m1 res_bind_simps m2 by blast
  have "transfer_between ref_lib demo_env demo_transfer 3 ''T-1'' ?s (demo_item\<lparr>im_wac := 100, im_version := 2\<rparr>) 2 ?w1 ?w2 = Inr s'"
    unfolding transfer_between_def tf ws st Let_def option.case warehouse.simps held date res_bind_simps s' by (simp add: demo_env_def)
  then have "executeWarehouseTransfer ref_lib demo_env demo_transfer 3 ''T-1'' ?s = Inr s'"
    unfolding executeWarehouseTransfer_def tf ref_numbers_transfer it ws res
    by (simp add: demo_item_def)
  moreover have "small_volumes s'"
    using s' unfolding transfer_move_def tf ws st m1 res_bind_simps m2
    by (auto simp: small_volumes_def kx transfer_rows_def volume_def item_rows_def tf db_numeric4_def half_up_scaled scaled_def)
  ultimately show thesis by (rule that)
qed

lemma transfer_moves_between_witness:
  "\<exists>s'. executeWarehouseTransfer ref_lib demo_env demo_transfer 3 ''T-1'' (demo_received None (\<lambda>_. None)) = Inr s' \<and>
    item_total (db_stocks s') 7 = 5"
proof -
  obtain s' where s': "executeWarehouseTransfer ref_lib demo_env demo_transfer 3 ''T-1'' (demo_received None (\<lambda>_. None)) = Inr s'"
    "small_volumes s'" by (rule demo_transferred)
  have "transfer_ok demo_transfer ''T-1''"
    by (simp add: transfer_ok_def demo_transfer_def qty4_def scaled_def starts_with_def REV_PREFIX_def)
  from transfer_moves_between [OF ref.decimal_js_axioms demo_run s'(1) this s'(2)]
  have "item_total (db_stocks s') 7 = item_total (db_stocks (demo_received None (\<lambda>_. None))) 7" by blast
  with s'(1) show ?thesis by (auto simp: demo_received_def item_total_def)
qed

text \<open>A receipt of five pieces, finalized and voided.\<close>

definition demo_doc :: doc_row where
  "demo_doc = \<lparr>dc_type = ''receipt'', dc_status = ''draft'', dc_ref = ''R-1'', dc_day = 10, dc_currency = Some ''IRR'',
     dc_rate = 0, dc_lines = [\<lparr>ln_item = 7, ln_qty = 5, ln_unitPrice = 100, ln_discount = 0, ln_location = ''w1''\<rparr>],
     dc_deleted = False, dc_returnOf = None, dc_vat = \<lparr>dvat_percent = 0, dvat_amount = 0\<rparr>, dc_version = 1\<rparr>"

definition demo_opts :: finalize_options where
  "demo_opts = \<lparr>fo_exchangeRate = RawUndefined, fo_vatPercent = RawUndefined, fo_vatAmount = RawUndefined,
     fo_backdate = False, fo_atFinalizeDay = False\<rparr>"

definition demo_final_doc :: doc_row where
  "demo_final_doc = demo_doc\<lparr>dc_status := ''final'', dc_version := 2\<rparr>"

definition demo_drafted :: stock_db where
  "demo_drafted = demo_with_item [1 \<mapsto> demo_doc]"

definition demo_final :: stock_db where
  "demo_final = (demo_received (Some 1) [1 \<mapsto> demo_doc])\<lparr>db_docs := [1 \<mapsto> demo_final_doc]\<rparr>"

lemma demo_costs: "document_costs ref_lib (\<lambda>_. None) demo_doc RawUndefined = Inr (0, [(7, 100)])"
  by code_simp

lemma demo_finalize: "finalizeDocument ref_lib demo_env (\<lambda>_. None) 1 demo_opts demo_drafted = Inr demo_final"
proof -
  let ?l = "\<lparr>ln_item = 7, ln_qty = 5, ln_unitPrice = 100, ln_discount = 0, ln_location = ''w1''\<rparr>"
  have code: "resolveWarehouseCode (db_warehouses demo_drafted) ''w1'' = Inr ''W1''" by code_simp
  have price: "stockUnitPriceOf ref_lib (\<lambda>_. None) DirIn (Some ''IRR'') 0 ?l = Inr 100" by code_simp
  have dir: "stockDirectionOf ''receipt'' = DirIn" by code_simp
  have mv: "line_movement 1 demo_doc ''receipt'' DirIn False ?l ''W1'' 100 = demo_receipt (Some 1)"
    by (simp add: line_movement_def demo_doc_def demo_receipt_def)
  have cur: "dc_currency demo_doc = Some ''IRR''" by (simp add: demo_doc_def)
  have line: "finalize_line ref_lib demo_env (\<lambda>_. None) 1 demo_doc ''receipt'' DirIn 0 False ?l demo_drafted
      = Inr (demo_received (Some 1) [1 \<mapsto> demo_doc])"
    unfolding finalize_line_def doc_line.simps code lift_stock_def lift_rate_def res_bind_simps sum.case cur price mv
    by (simp add: demo_drafted_def demo_receive)
  have D: "db_docs demo_drafted 1 = Some demo_doc" by (simp add: demo_drafted_def demo_with_item_def)
  have cost: "incomingLinesHaveCost demo_drafted ''receipt'' [(7, 100)]" by (simp add: incomingLinesHaveCost_def)
  have ty: "final_type demo_doc = ''receipt''" "return_costs (\<lambda>_. None) demo_doc = (\<lambda>_. None)"
    by (simp_all add: final_type_def demo_doc_def return_costs_def)
  have target: "finalize_target demo_env 1 demo_opts demo_doc = demo_doc" "finalize_rate demo_env 1 demo_opts demo_doc = RawUndefined"
    by (simp_all add: finalize_target_def demo_opts_def demo_doc_def finalize_rate_def return_of_invoice_def)
  have vat: "finalize_vat ref_lib demo_env 1 demo_opts demo_doc = Inr \<lparr>dvat_percent = 0, dvat_amount = 0\<rparr>"
    by (simp add: finalize_vat_def return_of_invoice_def demo_doc_def final_type_def resolveDocumentVat_def
        VAT_BEARING_DOC_TYPES_def VAT_DOC_TYPES_def lift_vat_def)
  have row: "finalized_row demo_doc 0 \<lparr>dvat_percent = 0, dvat_amount = 0\<rparr> = demo_final_doc"
    by (simp add: finalized_row_def demo_final_doc_def demo_doc_def final_type_def nextVersion_def)
  have docs: "(db_docs (demo_received (Some 1) [1 \<mapsto> demo_doc]))(1 \<mapsto> demo_final_doc) = [1 \<mapsto> demo_final_doc]"
    by (simp add: demo_received_def demo_with_item_def)
  have lines: "finalize_lines ref_lib demo_env (\<lambda>_. None) 1 demo_opts demo_doc 0 demo_drafted
      = Inr (demo_received (Some 1) [1 \<mapsto> demo_doc])"
  proof -
    have "dc_lines demo_doc = [?l]" "fo_backdate demo_opts = False" by (simp_all add: demo_doc_def demo_opts_def)
    then show ?thesis using line unfolding finalize_lines_def ty dir by (simp del: One_nat_def)
  qed
  have "finalizeDocument ref_lib demo_env (\<lambda>_. None) 1 demo_opts demo_drafted =
      res_bind (Inr (demo_received (Some 1) [1 \<mapsto> demo_doc])) (\<lambda>s'. Inr (s'\<lparr>db_docs := (db_docs s')(1 \<mapsto> demo_final_doc)\<rparr>))"
    unfolding finalizeDocument_def D option.case Let_def target demo_costs lift_rate_def sum.case res_bind_simps prod.case
      ty lines vat row using cost by (simp add: demo_doc_def demo_env_def)
  also have "\<dots> = Inr demo_final" unfolding res_bind_simps docs by (simp add: demo_final_def)
  finally show ?thesis .
qed

lemma demo_final_run: "stock_run ref_lib demo_final" "small_volumes demo_final"
proof -
  have "stock_run ref_lib demo_start" by (rule run_start) (simp_all add: demo_start_def)
  then have "stock_run ref_lib (demo_start\<lparr>db_items := (db_items demo_start)(7 \<mapsto> demo_item)\<rparr>)"
    by (rule run_item) (simp_all add: demo_start_def demo_item_def money4_def)
  then have "stock_run ref_lib (demo_with_item (\<lambda>_. None))" by (simp add: demo_with_item_def demo_start_def)
  then have "stock_run ref_lib ((demo_with_item (\<lambda>_. None))\<lparr>db_docs := (db_docs (demo_with_item (\<lambda>_. None)))(1 \<mapsto> demo_doc)\<rparr>)"
    by (rule run_draft) (simp_all add: demo_with_item_def demo_doc_def)
  then have run: "stock_run ref_lib demo_drafted" by (simp add: demo_drafted_def demo_with_item_def)
  have D: "db_docs demo_drafted 1 = Some demo_doc" by (simp add: demo_drafted_def demo_with_item_def)
  have target: "finalize_target demo_env 1 demo_opts demo_doc = demo_doc" "finalize_rate demo_env 1 demo_opts demo_doc = RawUndefined"
    by (simp_all add: finalize_target_def demo_opts_def demo_doc_def finalize_rate_def return_of_invoice_def)
  have ok: "finalize_ok ref_lib demo_env (\<lambda>_. None) 1 demo_opts demo_doc"
    unfolding finalize_ok_def Let_def target demo_costs
    by (simp add: demo_doc_def starts_with_def REV_PREFIX_def money4_def scaled_def)
  show vol: "small_volumes demo_final"
    by (simp add: small_volumes_def demo_final_def demo_received_def demo_with_item_def demo_start_def volume_def item_rows_def)
  show "stock_run ref_lib demo_final"
    by (rule run_finalize [OF run demo_finalize _ vol]) (simp add: D ok del: One_nat_def)
qed

lemma demo_voided:
  obtains s' where "deleteDocument ref_lib demo_env 1 demo_final = Inr s'" "small_volumes s'"
proof -
  let ?w1 = "\<lparr>wh_id = 1, wh_code = ''W1'', wh_name = ''main'', wh_active = True\<rparr>"
  let ?ws = "db_warehouses demo_final"
  let ?r = "movement_row ref_lib 1 (demo_receipt (Some 1)) 5 100 10 ''W1''"
  let ?D = "demo_final_doc"
  have f: "db_docs demo_final 1 = Some ?D" "db_kardex demo_final = [?r]" "db_nextTx demo_final = 2"
    "db_items demo_final 7 = Some (demo_item\<lparr>im_wac := 100, im_version := 2\<rparr>)"
    "db_stocks demo_final = [\<lparr>sr_item = 7, sr_wh = 1, sr_code = ''W1'', sr_current = 5, sr_reserved = 0, sr_version = 1\<rparr>]"
    by (simp_all add: demo_final_def demo_received_def)
  have row: "is_original 1 ?r" "has_location ?r" "kx_qty ?r = 5" "kx_type ?r = KTin" "kx_item ?r = 7" "kx_doc ?r = Some 1"
    by (simp_all add: is_original_def demo_receipt_def movement_row_def has_location_def dir_type_def js_trim_def js_space_def)
  have w: "?ws = [?w1, \<lparr>wh_id = 2, wh_code = ''W2'', wh_name = ''side'', wh_active = True\<rparr>]"
    by (simp add: demo_final_def demo_received_def demo_with_item_def demo_start_def)
  have code: "resolveWarehouseCode ?ws '''' = Inr ''W1''" and res: "resolveWarehouse ?ws ''W1'' = Inr ?w1"
    unfolding w by code_simp+
  obtain st where st: "applyMovement ref_lib ?ws 7 ?w1 DirOut (Some 5) (db_stocks demo_final) = Inr st"
    unfolding w f by (simp add: applyMovement_def lockOrCreateRow_def set_row_stock_def update_rows_def same_row_def Let_def)
  let ?rev = "reversal_row ref_lib 2 1 ?D (se_today demo_env) '''' ?r"
  let ?s1 = "demo_final\<lparr>db_docs := (db_docs demo_final)(1 \<mapsto> ?D\<lparr>dc_deleted := True\<rparr>),
      db_kardex := [?r\<lparr>kx_deleted := True\<rparr>] @ [?rev], db_nextTx := 2 + length [?rev]\<rparr>"
  have rv: "rv_item (reversal_of_row ?D ''W1'' ?r) = 7" "rv_qty (reversal_of_row ?D ''W1'' ?r) = 5"
    "rv_type (reversal_of_row ?D ''W1'' ?r) = KTin" "rv_loc (reversal_of_row ?D ''W1'' ?r) = ''W1''"
    using row by (simp_all add: reversal_of_row_def) (simp add: movement_row_def js_trim_def js_space_def)
  have "\<exists>s' a b. applyStockReversal ref_lib (reversal_of_row ?D ''W1'' ?r) ?s1 = Inr (s', a, b)"
    unfolding applyStockReversal_def rv by (simp add: f(4) res st rev_movement_def Let_def del: One_nat_def)
  then obtain s' a b where ap: "applyStockReversal ref_lib (reversal_of_row ?D ''W1'' ?r) ?s1 = Inr (s', a, b)" by blast
  have fold: "fold_res (revert_row ref_lib ?D ''W1'') [?r] ?s1 = Inr s'"
    unfolding fold_res.simps revert_row_def row ap by simp
  have mark: "update_rows (\<lambda>r. kx_doc r = Some 1) (\<lambda>r. r\<lparr>kx_deleted := True\<rparr>) [?r] = [?r\<lparr>kx_deleted := True\<rparr>]"
    unfolding update_rows_def list.map row by simp
  have orig: "filter (is_original 1) [?r] = [?r]" using row(1) by (simp del: One_nat_def)
  have revs: "reversal_rows ref_lib 2 1 ?D (se_today demo_env) '''' [?r] = [?rev]" using row(3) by (simp del: One_nat_def)
  have ex: "list_ex (\<lambda>r. \<not> has_location r) [?r] = False" using row(2) by (simp del: One_nat_def)
  have dc: "default_code ?s1 = Inr ''W1''" by (simp add: default_code_def code)
  have "deleteDocument ref_lib demo_env 1 demo_final = Inr s'"
    unfolding deleteDocument_def f(1-3) option.case Let_def orig mark ex if_False lift_stock_def sum.case res_bind_simps revs dc
    using fold by (simp add: demo_final_doc_def demo_doc_def demo_env_def)
  moreover have "small_volumes s'"
    using revert_rows_kardex [OF fold] row
    by (simp add: small_volumes_def volume_def item_rows_def reversal_row_def)
  ultimately show thesis by (rule that)
qed

lemma void_takes_back_witness:
  "\<exists>s'. deleteDocument ref_lib demo_env 1 demo_final = Inr s' \<and> item_total (db_stocks s') 7 = 0"
proof -
  obtain s' where s': "deleteDocument ref_lib demo_env 1 demo_final = Inr s'" "small_volumes s'" by (rule demo_voided)
  have D: "db_docs demo_final 1 = Some (demo_final_doc)" "\<not> dc_deleted (demo_final_doc)"
    "dc_status (demo_final_doc) = ''final''" by (simp_all add: demo_final_def demo_final_doc_def demo_doc_def)
  from void_takes_back [OF ref.decimal_js_axioms demo_final_run(1) s'(1) D s'(2)]
  have "item_total (db_stocks s') 7 = item_total (db_stocks demo_final) 7 -
      sum_list (map signed_qty (item_rows (originals 1 (db_kardex demo_final)) 7))" by blast
  also have "\<dots> = 0"
    by (simp add: demo_final_def demo_received_def item_total_def originals_def is_original_def demo_receipt_def
        movement_row_def item_rows_def signed_qty_def dir_type_def isInType_def)
  finally show ?thesis using s'(1) by blast
qed

lemma document_states_once_witness:
  "finalizeDocument ref_lib demo_env (\<lambda>_. None) 1 demo_opts demo_final = Inr demo_final"
proof -
  obtain s' where "deleteDocument ref_lib demo_env 1 demo_final = Inr s'" by (rule demo_voided)
  from document_states_once [OF demo_finalize this] show ?thesis by blast
qed

end
