(* ===== verification/StockDates.thy ===== *)
theory StockDates
  imports StockClaims
begin

text \<open>
  The rule on movement dates (\<open>src/services/inventory/stockMovementDate.ts\<close>): an issue dated before
  movements that exist must be covered at the end of every day from its own on.
\<close>

text \<open>The stock of an item in a warehouse at the end of a day, from the Kardex.\<close>

definition in_warehouse :: "warehouse list \<Rightarrow> kardex_row list \<Rightarrow> nat \<Rightarrow> nat \<Rightarrow> kardex_row \<Rightarrow> bool" where
  "in_warehouse ws rows item whId t \<longleftrightarrow> kx_item t = item \<and> ledger_row rows t \<and>
    map_option wh_id (ledger_resolve ws (kx_location t)) = Some whId"

definition stock_at_day :: "warehouse list \<Rightarrow> kardex_row list \<Rightarrow> nat \<Rightarrow> nat \<Rightarrow> int \<Rightarrow> rat" where
  "stock_at_day ws rows item whId day =
    sum_list (map signed_qty (filter (\<lambda>t. in_warehouse ws rows item whId t \<and> kx_day t \<le> day) rows))"

section \<open>Sums over lists\<close>

lemma sum_list_partition:
  fixes f :: "'a \<Rightarrow> rat"
  assumes "distinct ls"
  shows "sum_list (map (\<lambda>l. sum_list (map f (filter (\<lambda>t. g t = l) xs))) ls) = sum_list (map f (filter (\<lambda>t. g t \<in> set ls) xs))"
  using assms
proof (induction xs)
  case (Cons x xs)
  have "sum_list (map (\<lambda>l. sum_list (map f (filter (\<lambda>t. g t = l) (x # xs)))) ls) =
      sum_list (map (\<lambda>l. (if l = g x then f x else 0) + sum_list (map f (filter (\<lambda>t. g t = l) xs))) ls)"
    by (intro arg_cong [where f = sum_list] map_cong) auto
  also have "\<dots> = sum_list (map (\<lambda>l. if l = g x then f x else 0) ls) +
      sum_list (map (\<lambda>l. sum_list (map f (filter (\<lambda>t. g t = l) xs))) ls)"
    by (simp add: sum_list_addf)
  also have "sum_list (map (\<lambda>l. if l = g x then f x else 0) ls) = (if g x \<in> set ls then f x else 0)"
    using Cons.prems by (induction ls) auto
  finally show ?case using Cons by auto
qed simp

lemma sum_list_filter_bound:
  fixes f :: "'a \<Rightarrow> rat"
  assumes "\<And>x. x \<in> set xs \<Longrightarrow> P x \<Longrightarrow> \<bar>f x\<bar> \<le> h x" and "\<And>x. x \<in> set xs \<Longrightarrow> 0 \<le> h x"
  shows "\<bar>sum_list (map f (filter P xs))\<bar> \<le> sum_list (map h xs)"
  using assms
proof (induction xs)
  case (Cons x xs)
  then have "\<bar>sum_list (map f (filter P xs))\<bar> \<le> sum_list (map h xs)" "0 \<le> h x" by auto
  moreover have "P x \<Longrightarrow> \<bar>f x\<bar> \<le> h x" using Cons.prems by auto
  ultimately show ?case by (auto simp: abs_le_iff)
qed simp

lemma filter_le_takeWhile:
  assumes "sorted (map f xs)"
  shows "filter (\<lambda>x. f x \<le> e) xs = takeWhile (\<lambda>x. f x \<le> e) xs"
  using assms
proof (induction xs)
  case (Cons x xs)
  show ?case
  proof (cases "f x \<le> e")
    case False
    then have "\<forall>y \<in> set xs. \<not> f y \<le> e" using Cons.prems by auto
    with False show ?thesis by (simp add: filter_empty_conv)
  qed (use Cons in simp)
qed simp

lemma scaled_sum_list: "(\<And>x. x \<in> set xs \<Longrightarrow> scaled n (f x)) \<Longrightarrow> scaled n (sum_list (map f xs))"
  by (induction xs) (auto intro: scaled_add)

lemma scaled_le_gap:
  assumes "scaled 4 a" "scaled 4 b" "a \<le> b + QTY_TOLERANCE"
  shows "a \<le> b"
proof (rule ccontr)
  assume "\<not> a \<le> b"
  have "scaled 4 (a - b)" using assms by (intro scaled_diff)
  then have k: "of_int \<lfloor>(a - b) * 10 ^ 4\<rfloor> = (a - b) * 10 ^ 4" by (simp add: scaled_def)
  have "0 < (a - b) * 10 ^ 4" using \<open>\<not> a \<le> b\<close> by simp
  with k have "0 < \<lfloor>(a - b) * 10 ^ 4\<rfloor>" by (metis of_int_0_less_iff)
  then have "1 \<le> (a - b) * 10 ^ 4" using k by linarith
  with assms(3) show False by (simp add: QTY_TOLERANCE_def)
qed

section \<open>The walk computes the lowest balance\<close>

context decimal_js begin

lemma foldl_add_partial:
  assumes "\<And>l. l \<in> set ls \<Longrightarrow> scaled 4 (f l)" "scaled 4 a" "\<And>n. \<bar>a + sum_list (map f (take n ls))\<bar> < 10 ^ 11"
  shows "foldl (\<lambda>b l. fin_add L b (f l)) a ls = a + sum_list (map f ls)"
  using assms
proof (induction ls arbitrary: a)
  case (Cons l ls)
  have "fin_add L a (f l) = a + f l"
    by (rule add_scaled4) (use Cons.prems(1,2) Cons.prems(3) [of 1] in auto)
  moreover have "foldl (\<lambda>b l. fin_add L b (f l)) (a + f l) ls = a + f l + sum_list (map f ls)"
  proof (rule Cons.IH)
    show "\<bar>a + f l + sum_list (map f (take n ls))\<bar> < 10 ^ 11" for n
      using Cons.prems(3) [of "Suc n"] by (simp add: add.assoc)
  qed (use Cons.prems in \<open>auto intro: scaled_add\<close>)
  ultimately show ?case by simp
qed simp

lemma walk_step:
  assumes "scaled 4 (kx_qty t)" "isInType (kx_type t) \<or> isOutType (kx_type t)" "scaled 4 b"
    and "\<bar>b\<bar> < 10 ^ 11" "\<bar>b + signed_qty t\<bar> < 10 ^ 11"
  shows "min_stock_walk L (t # ts) b m =
    min_stock_walk L ts (b + signed_qty t) (Some (min (case m of None \<Rightarrow> b | Some u \<Rightarrow> u) (b + signed_qty t)))"
    and "scaled 4 (b + signed_qty t)"
proof -
  show c4: "scaled 4 (b + signed_qty t)" using assms by (auto simp: signed_qty_def intro: scaled_add scaled_diff)
  have "(if isInType (kx_type t) then fin_add L b (kx_qty t) else fin_subtract L b (kx_qty t)) = b + signed_qty t"
    using assms by (auto simp: signed_qty_def intro: add_scaled4 subtract_scaled4)
  moreover have "fin_toNumber L (b + signed_qty t) = b + signed_qty t" "fin_toNumber L b = b"
    using toNumber_scaled c4 assms by auto
  ultimately show "min_stock_walk L (t # ts) b m =
    min_stock_walk L ts (b + signed_qty t) (Some (min (case m of None \<Rightarrow> b | Some u \<Rightarrow> u) (b + signed_qty t)))"
    by (simp add: Let_def cong: option.case_cong)
qed

text \<open>The walk ends in the final balance, and its minimum is no higher than any balance on the way.\<close>

lemma min_stock_walk_lower:
  assumes "\<And>t. t \<in> set ts \<Longrightarrow> scaled 4 (kx_qty t) \<and> (isInType (kx_type t) \<or> isOutType (kx_type t))"
    and "scaled 4 b" "\<And>n. \<bar>b + sum_list (map signed_qty (take n ts))\<bar> < 10 ^ 11"
    and "min_stock_walk L ts b m = (b', m')"
  shows "b' = b + sum_list (map signed_qty ts) \<and> (\<forall>u. m = Some u \<longrightarrow> (\<exists>v. m' = Some v \<and> v \<le> u)) \<and>
    (ts = [] \<longrightarrow> m' = m) \<and>
    (ts \<noteq> [] \<longrightarrow> (\<exists>v. m' = Some v \<and> (m = None \<longrightarrow> v \<le> b) \<and>
      (\<forall>n>0. v \<le> b + sum_list (map signed_qty (take n ts)))))"
  using assms
proof (induction ts arbitrary: b m)
  case (Cons t ts)
  let ?c = "b + signed_qty t"
  let ?u = "min (case m of None \<Rightarrow> b | Some u \<Rightarrow> u) ?c"
  have bounds: "\<bar>b\<bar> < 10 ^ 11" "\<bar>?c\<bar> < 10 ^ 11" using Cons.prems(3) [of 0] Cons.prems(3) [of 1] by auto
  have t: "scaled 4 (kx_qty t)" "isInType (kx_type t) \<or> isOutType (kx_type t)" using Cons.prems(1) [of t] by auto
  note step = walk_step [OF t Cons.prems(2) bounds]
  have "\<bar>?c + sum_list (map signed_qty (take n ts))\<bar> < 10 ^ 11" for n
    using Cons.prems(3) [of "Suc n"] by (simp add: add.assoc)
  from Cons.IH [OF _ step(2) this, of "Some ?u"] Cons.prems(1,4)
  have ih: "b' = ?c + sum_list (map signed_qty ts)" "\<exists>v. m' = Some v \<and> v \<le> ?u"
    "ts \<noteq> [] \<longrightarrow> (\<exists>v. m' = Some v \<and> (\<forall>n>0. v \<le> ?c + sum_list (map signed_qty (take n ts))))"
    unfolding step(1) by auto
  from ih(2) obtain v where v: "m' = Some v" "v \<le> ?u" by blast
  have "v \<le> b + sum_list (map signed_qty (take n (t # ts)))" if "0 < n" for n
  proof -
    obtain k where k: "n = Suc k" using \<open>0 < n\<close> by (cases n) auto
    show ?thesis
    proof (cases "0 < k \<and> ts \<noteq> []")
      case True
      with ih(3) v show ?thesis by (auto simp: k add.assoc)
    next
      case False
      with v show ?thesis by (auto simp: k)
    qed
  qed
  with ih(1) v show ?case by (auto simp: add.assoc split: option.splits)
qed auto

text \<open>The balance before the later movements is the stock at the end of the day.\<close>

lemma ledger_opening_sum:
  assumes q: "\<And>t. t \<in> set rows \<Longrightarrow> kx_item t = item \<Longrightarrow> scaled 4 (kx_qty t) \<and> 0 \<le> kx_qty t"
    and vol: "volume rows item < 10 ^ 10"
  shows "ledger_opening L ws rows item day whId = stock_at_day ws rows item whId day"
proof -
  define old where "old = filter (\<lambda>t. kx_item t = item \<and> ledger_row rows t \<and> kx_day t \<le> day) rows"
  define locs where "locs = filter (\<lambda>loc. map_option wh_id (ledger_resolve ws loc) = Some whId) (remdups (map kx_location old))"
  define part where "part loc = sum_list (map signed_qty (filter (\<lambda>t. kx_location t = loc) old))" for loc
  have s4: "scaled 4 (signed_qty t)" if "t \<in> set old" for t
    using that q by (auto simp: old_def signed_qty_def)
  have sum: "sum_list (map part ls) = sum_list (map signed_qty (filter (\<lambda>t. kx_location t \<in> set ls) old))"
    if "distinct ls" for ls unfolding part_def by (rule sum_list_partition [OF that])
  have bound: "\<bar>sum_list (map signed_qty (filter P old))\<bar> \<le> volume rows item" for P
  proof -
    have "filter P old = filter (\<lambda>t. P t \<and> ledger_row rows t \<and> kx_day t \<le> day) (item_rows rows item)"
      by (simp add: old_def item_rows_def conj_ac)
    moreover have "\<bar>sum_list (map signed_qty (filter (\<lambda>t. P t \<and> ledger_row rows t \<and> kx_day t \<le> day) (item_rows rows item)))\<bar>
        \<le> sum_list (map kx_qty (item_rows rows item))"
      by (rule sum_list_filter_bound) (use q in \<open>auto simp: signed_qty_def\<close>)
    ultimately show ?thesis by (simp add: volume_def)
  qed
  have dl: "distinct (take n locs)" for n by (simp add: locs_def)
  have "foldl (\<lambda>b loc. fin_add L b (part loc)) 0 locs = 0 + sum_list (map part locs)"
  proof (rule foldl_add_partial)
    show "scaled 4 (part l)" if "l \<in> set locs" for l
      unfolding part_def by (rule scaled_sum_list) (use s4 in auto)
    show "\<bar>0 + sum_list (map part (take n locs))\<bar> < 10 ^ 11" for n
      using bound [of "\<lambda>t. kx_location t \<in> set (take n locs)"] vol by (simp add: sum [OF dl])
  qed simp
  moreover have "filter (\<lambda>t. kx_location t \<in> set locs) old =
      filter (\<lambda>t. in_warehouse ws rows item whId t \<and> kx_day t \<le> day) rows"
    unfolding old_def filter_filter by (rule filter_cong) (auto simp: locs_def in_warehouse_def old_def)
  ultimately show ?thesis
    using sum [OF dl [of "length locs"]]
    unfolding ledger_opening_def stock_at_day_def Let_def old_def [symmetric] locs_def [symmetric] part_def [symmetric]
    by simp
qed

end

lemma sum_list_sort: "sum_list (map f (sort_key k xs)) = (sum_list (map f xs) :: rat)"
  by (metis mset_map mset_sort sum_mset_sum_list)

text \<open>Every day's end is a point of the walk.\<close>

definition later_rows :: "warehouse list \<Rightarrow> kardex_row list \<Rightarrow> nat \<Rightarrow> nat \<Rightarrow> int \<Rightarrow> kardex_row list" where
  "later_rows ws rows item whId day = sort_key kx_day (sort_key kx_id (filter (\<lambda>t. in_warehouse ws rows item whId t \<and>
    kx_day t > day \<and> (isInType (kx_type t) \<or> isOutType (kx_type t))) rows))"

lemma sum_signed_movements:
  "sum_list (map signed_qty (filter (\<lambda>t. P t \<and> day < kx_day t \<and> (isInType (kx_type t) \<or> isOutType (kx_type t)) \<and> kx_day t \<le> e) xs))
    = sum_list (map signed_qty (filter (\<lambda>t. P t \<and> day < kx_day t \<and> kx_day t \<le> e) xs))"
  by (induction xs) (auto simp: signed_qty_def)

lemma sum_signed_days:
  "day \<le> e \<Longrightarrow> sum_list (map signed_qty (filter (\<lambda>t. P t \<and> kx_day t \<le> day) xs)) +
    sum_list (map signed_qty (filter (\<lambda>t. P t \<and> day < kx_day t \<and> kx_day t \<le> e) xs))
    = sum_list (map signed_qty (filter (\<lambda>t. P t \<and> kx_day t \<le> e) xs))"
  by (induction xs) auto

lemma stock_at_day_split:
  assumes "day \<le> e"
  shows "\<exists>n. stock_at_day ws rows item whId e = stock_at_day ws rows item whId day +
    sum_list (map signed_qty (take n (later_rows ws rows item whId day)))"
proof -
  let ?T = "later_rows ws rows item whId day"
  have "sorted (map kx_day ?T)" by (simp add: later_rows_def)
  from filter_le_takeWhile [OF this, of e] obtain n where n: "take n ?T = filter (\<lambda>t. kx_day t \<le> e) ?T"
    by (metis takeWhile_eq_take)
  have "sum_list (map signed_qty (take n ?T)) = sum_list (map signed_qty
      (filter (\<lambda>t. in_warehouse ws rows item whId t \<and> day < kx_day t \<and> (isInType (kx_type t) \<or> isOutType (kx_type t)) \<and> kx_day t \<le> e) rows))"
    unfolding n unfolding later_rows_def by (simp add: filter_sort sum_list_sort conj_ac)
  also have "\<dots> = sum_list (map signed_qty (filter (\<lambda>t. in_warehouse ws rows item whId t \<and> day < kx_day t \<and> kx_day t \<le> e) rows))"
    by (rule sum_signed_movements)
  finally have "stock_at_day ws rows item whId day + sum_list (map signed_qty (take n ?T)) = stock_at_day ws rows item whId e"
    unfolding stock_at_day_def by (simp add: sum_signed_days [OF assms])
  then show ?thesis by metis
qed

lemma stock_at_day_bounds:
  assumes rows: "\<forall>r \<in> set rows. scaled 4 (kx_qty r) \<and> 0 \<le> kx_qty r" and vol: "volume rows item < 10 ^ 10"
  shows "\<bar>stock_at_day ws rows item w d\<bar> < 10 ^ 10" "scaled 4 (stock_at_day ws rows item w d)"
proof -
  have "filter (\<lambda>t. in_warehouse ws rows item w t \<and> kx_day t \<le> d) rows =
      filter (\<lambda>t. in_warehouse ws rows item w t \<and> kx_day t \<le> d) (item_rows rows item)"
    unfolding item_rows_def filter_filter by (rule filter_cong) (auto simp: in_warehouse_def)
  moreover have "\<bar>sum_list (map signed_qty (filter (\<lambda>t. in_warehouse ws rows item w t \<and> kx_day t \<le> d) (item_rows rows item)))\<bar>
      \<le> sum_list (map kx_qty (item_rows rows item))"
    by (rule sum_list_filter_bound) (use rows in \<open>auto simp: signed_qty_def\<close>)
  ultimately show "\<bar>stock_at_day ws rows item w d\<bar> < 10 ^ 10" using vol by (simp add: stock_at_day_def volume_def)
  show "scaled 4 (stock_at_day ws rows item w d)"
    unfolding stock_at_day_def by (rule scaled_sum_list) (use rows in \<open>auto simp: signed_qty_def\<close>)
qed

lemma later_rows_member:
  "t \<in> set (later_rows ws rows item w day) \<Longrightarrow> t \<in> set rows \<and> kx_item t = item \<and> (isInType (kx_type t) \<or> isOutType (kx_type t))"
  by (auto simp: later_rows_def in_warehouse_def)

lemma later_rows_prefix:
  assumes rows: "\<forall>r \<in> set rows. scaled 4 (kx_qty r) \<and> 0 \<le> kx_qty r" and vol: "volume rows item < 10 ^ 10"
  shows "\<bar>stock_at_day ws rows item w day + sum_list (map signed_qty (take n (later_rows ws rows item w day)))\<bar> < 10 ^ 11"
proof -
  let ?T = "later_rows ws rows item w day"
  have "sum_list (map kx_qty ?T) = sum_list (map kx_qty (filter (\<lambda>t. in_warehouse ws rows item w t \<and> kx_day t > day \<and>
      (isInType (kx_type t) \<or> isOutType (kx_type t))) (item_rows rows item)))"
    unfolding later_rows_def sum_list_sort item_rows_def filter_filter
    by (intro arg_cong [where f = "\<lambda>x. sum_list (map kx_qty x)"] filter_cong) (auto simp: in_warehouse_def)
  also have "\<dots> \<le> volume rows item"
    unfolding volume_def using rows by (intro abs_le_D1 [OF sum_list_filter_bound]) auto
  finally have qty: "sum_list (map kx_qty ?T) \<le> volume rows item" .
  have "\<bar>sum_list (map signed_qty (filter (\<lambda>_. True) (take n ?T)))\<bar> \<le> sum_list (map kx_qty (take n ?T))"
    by (rule sum_list_filter_bound) (use rows later_rows_member in \<open>auto simp: signed_qty_def dest!: in_set_takeD\<close>)
  moreover have "sum_list (map kx_qty ?T) = sum_list (map kx_qty (take n ?T)) + sum_list (map kx_qty (drop n ?T))"
    by (metis append_take_drop_id map_append sum_list_append)
  moreover have "0 \<le> sum_list (map kx_qty (drop n ?T))"
    using rows later_rows_member by (auto intro!: sum_list_nonneg dest!: in_set_dropD)
  ultimately show ?thesis using qty vol stock_at_day_bounds(1) [OF assms, of ws w day] by simp
qed

text \<open>The minimum the check computes is below the stock at the end of every later day.\<close>

lemma minimum_below_days:
  assumes js: "decimal_js L" and rows: "\<forall>r \<in> set rows. scaled 4 (kx_qty r) \<and> 0 \<le> kx_qty r" and vol: "volume rows item < 10 ^ 10" and e: "day \<le> e"
  shows "minimumStockFromDay L ws rows item day w \<le> stock_at_day ws rows item w e"
proof -
  let ?T = "later_rows ws rows item w day" and ?b = "stock_at_day ws rows item w day"
  note at = stock_at_day_bounds [OF rows vol]
  obtain b' m' where walk: "min_stock_walk L ?T ?b None = (b', m')" by fastforce
  have low: "b' = ?b + sum_list (map signed_qty ?T) \<and> (?T = [] \<longrightarrow> m' = None) \<and>
    (?T \<noteq> [] \<longrightarrow> (\<exists>v. m' = Some v \<and> v \<le> ?b \<and> (\<forall>n>0. v \<le> ?b + sum_list (map signed_qty (take n ?T)))))"
    using decimal_js.min_stock_walk_lower [OF js _ at(2) later_rows_prefix [OF rows vol] walk] rows later_rows_member by blast
  have start: "ledger_opening L ws rows item day w = ?b"
    by (rule decimal_js.ledger_opening_sum [OF js _ vol]) (use rows in auto)
  have later: "sort_key kx_day (sort_key kx_id (filter (\<lambda>t. kx_item t = item \<and> ledger_row rows t \<and> kx_day t > day \<and>
      (isInType (kx_type t) \<or> isOutType (kx_type t)) \<and> map_option wh_id (ledger_resolve ws (kx_location t)) = Some w) rows)) = ?T"
    unfolding later_rows_def by (intro arg_cong [where f = "\<lambda>x. sort_key kx_day (sort_key kx_id x)"] filter_cong)
      (auto simp: in_warehouse_def)
  have minimum: "minimumStockFromDay L ws rows item day w = (case m' of None \<Rightarrow> fin_toNumber L b' | Some m \<Rightarrow> m)"
    unfolding minimumStockFromDay_def Let_def later start walk by simp
  have all: "minimumStockFromDay L ws rows item day w \<le> ?b + sum_list (map signed_qty (take n ?T))" for n
  proof (cases "?T = []")
    case True
    then show ?thesis using low decimal_js.toNumber_scaled [OF js at(2) [of ws w day]] at(1) [of ws w day] by (simp add: minimum)
  next
    case False
    with low show ?thesis by (cases n) (auto simp: minimum)
  qed
  show ?thesis using stock_at_day_split [OF e] all by metis
qed

text \<open>C22: An issue dated before movements that exist is accepted only if it is covered at the end of
  its day and of every later day, so that entering it leaves no day of the warehouse's ledger negative.\<close>
theorem backdated_issue_covered:
  assumes js: "decimal_js L" and run: "stock_run L s" and vol: "small_volumes s"
    and ok: "assertStockMovementDate L env (db_warehouses s) (db_kardex s) item (Some day) DirOut q wh allowBackdate = Inr ()"
    and q4: "scaled 4 q" and past: "lastStockMovementDay (db_kardex s) item = Some latest" "day < latest" and e: "day \<le> e"
  shows "q \<le> stock_at_day (db_warehouses s) (db_kardex s) item (wh_id wh) e"
proof -
  let ?ws = "db_warehouses s" and ?K = "db_kardex s"
  from decimal_js.run_invariant [OF js run] have rows: "\<forall>r \<in> set ?K. scaled 4 (kx_qty r) \<and> 0 \<le> kx_qty r"
    by (force simp: core_inv_def kardex_ok_def row_ok_def)
  have v: "volume ?K item < 10 ^ 10" using vol by (simp add: small_volumes_def)
  have "q \<le> minimumStockFromDay L ?ws ?K item day (wh_id wh) + QTY_TOLERANCE"
    using ok past by (auto simp: assertStockMovementDate_def Let_def split: if_splits)
  with minimum_below_days [OF js rows v e, of ?ws "wh_id wh"]
  have "q \<le> stock_at_day ?ws ?K item (wh_id wh) e + QTY_TOLERANCE" by linarith
  then show ?thesis by (rule scaled_le_gap [OF q4 stock_at_day_bounds(2) [OF rows v]])
qed

text \<open>A receipt on day 10 and an issue on day 20; an issue of three is then entered for day 15.\<close>

definition demo_issue :: movement where
  "demo_issue = \<lparr>mv_item = 7, mv_doc = None, mv_dir = DirOut, mv_qty = Some 2, mv_price = Some 0,
     mv_date = Some 20, mv_docType = ''remittance'', mv_docRef = ''S-1'', mv_loc = ''W1'', mv_backdate = False\<rparr>"

lemma demo_issued:
  obtains s' where "applyStockMovement ref_lib demo_env demo_issue (demo_received None (\<lambda>_. None)) = Inr s'"
    "db_kardex s' = [movement_row ref_lib 1 (demo_receipt None) 5 100 10 ''W1'', movement_row ref_lib 2 demo_issue 2 100 20 ''W1'']"
    "db_warehouses s' = db_warehouses demo_start"
proof -
  let ?s = "demo_received None (\<lambda>_. None)"
  let ?w1 = "\<lparr>wh_id = 1, wh_code = ''W1'', wh_name = ''main'', wh_active = True\<rparr>"
  have p: "mv_item demo_issue = 7" "mv_dir demo_issue = DirOut" "mv_qty demo_issue = Some 2" "mv_price demo_issue = Some 0"
    "mv_date demo_issue = Some 20" "mv_loc demo_issue = ''W1''" "mv_backdate demo_issue = False"
    "mv_docType demo_issue = ''remittance''"
    by (simp_all add: demo_issue_def)
  have ws: "db_warehouses ?s = db_warehouses (demo_with_item (\<lambda>_. None))" by (simp add: demo_received_def)
  have st: "db_stocks ?s = [\<lparr>sr_item = 7, sr_wh = 1, sr_code = ''W1'', sr_current = 5, sr_reserved = 0, sr_version = 1\<rparr>]"
    "db_kardex ?s = [movement_row ref_lib 1 (demo_receipt None) 5 100 10 ''W1'']" "db_nextTx ?s = 2"
    "db_items ?s 7 = Some (demo_item\<lparr>im_wac := 100, im_version := 2\<rparr>)" by (simp_all add: demo_received_def)
  obtain stocks where mv: "applyMovement ref_lib (db_warehouses ?s) 7 ?w1 DirOut (Some 2) (db_stocks ?s) = Inr stocks"
    unfolding st by (simp add: applyMovement_def lockOrCreateRow_def set_row_stock_def update_rows_def same_row_def Let_def
        demo_received_def demo_with_item_def demo_start_def)
  have date: "assertStockMovementDate ref_lib demo_env (db_warehouses ?s) (db_kardex ?s) 7 (Some 20) DirOut 2 ?w1 False = Inr ()"
    by (simp add: st assertStockMovementDate_def demo_env_def lastStockMovementDay_def ledger_row_def movement_row_def demo_receipt_def)
  have price: "movement_unit_price 7 DirOut ''remittance'' 100 0 = Inr 100" by (simp add: movement_unit_price_def)
  have it: "im_wac (demo_item\<lparr>im_wac := 100, im_version := 2\<rparr>) = 100" by simp
  obtain s' where s': "applyStockMovement_item ref_lib demo_env demo_issue ?s ?w1 2 0 (demo_item\<lparr>im_wac := 100, im_version := 2\<rparr>) = Inr s'"
    and k: "db_kardex s' = db_kardex ?s @ [movement_row ref_lib (db_nextTx ?s) demo_issue 2 100 20 (wh_code ?w1)]"
      "db_warehouses s' = db_warehouses ?s"
    unfolding applyStockMovement_item_def p it Let_def option.case date price res_bind_simps mv by simp
  have q: "stockMovementQuantity ref_lib (Some 2) = Some 2"
    by (simp add: stockMovementQuantity_def ref_numbers_transfer)
  have "applyStockMovement_at ref_lib demo_env demo_issue ?s ?w1 2 = Inr s'"
    unfolding applyStockMovement_at_def applyStockMovement_priced_def p using s' by (simp add: st demo_item_def)
  then have "applyStockMovement ref_lib demo_env demo_issue ?s = Inr s'"
    unfolding applyStockMovement_def p ws demo_wh res_bind_simps q by simp
  moreover have "db_warehouses s' = db_warehouses demo_start" unfolding k ws by (simp add: demo_with_item_def)
  ultimately show thesis using k(1) st by (intro that [of s']) auto
qed

lemma backdated_issue_covered_witness:
  "\<exists>s. stock_run ref_lib s \<and> 3 \<le> stock_at_day (db_warehouses s) (db_kardex s) 7 1 20"
proof -
  let ?w1 = "\<lparr>wh_id = 1, wh_code = ''W1'', wh_name = ''main'', wh_active = True\<rparr>"
  obtain s where s: "applyStockMovement ref_lib demo_env demo_issue (demo_received None (\<lambda>_. None)) = Inr s"
    and k: "db_kardex s = [movement_row ref_lib 1 (demo_receipt None) 5 100 10 ''W1'', movement_row ref_lib 2 demo_issue 2 100 20 ''W1'']"
    and w: "db_warehouses s = db_warehouses demo_start" by (rule demo_issued)
  have vol: "small_volumes s" by (simp add: small_volumes_def k volume_def item_rows_def)
  have run: "stock_run ref_lib s"
    by (rule run_move [OF demo_run s _ _ vol])
      (simp_all add: demo_issue_def movement_ok_def starts_with_def REV_PREFIX_def)
  have rows: "ledger_row (db_kardex s) r" if "r \<in> set (db_kardex s)" for r
    using that by (auto simp: k ledger_row_def movement_row_def demo_receipt_def demo_issue_def)
  have latest: "lastStockMovementDay (db_kardex s) 7 = Some 20"
    using rows by (simp add: lastStockMovementDay_def k movement_row_def demo_receipt_def demo_issue_def)
  have res: "ledger_resolve (db_warehouses demo_start) ''W1'' = Some ?w1" by code_simp
  have day: "stock_at_day (db_warehouses s) (db_kardex s) 7 1 e = (if 10 \<le> e then 5 else 0) - (if 20 \<le> e then 2 else 0)" for e
    using rows by (simp add: stock_at_day_def in_warehouse_def k w movement_row_def demo_receipt_def demo_issue_def res
        signed_qty_def dir_type_def isInType_def isOutType_def)
  have "ledger_opening ref_lib (db_warehouses s) (db_kardex s) 7 15 1 = 5"
  proof (subst ref.ledger_opening_sum)
    show "volume (db_kardex s) 7 < 10 ^ 10" using vol by (simp add: small_volumes_def)
    show "scaled 4 (kx_qty t) \<and> 0 \<le> kx_qty t" if "t \<in> set (db_kardex s)" for t
      using that by (auto simp: k scaled_def)
    show "stock_at_day (db_warehouses s) (db_kardex s) 7 1 15 = 5" by (subst day) simp
  qed
  then have "minimumStockFromDay ref_lib (db_warehouses s) (db_kardex s) 7 15 1 = 3"
    using rows by (simp add: minimumStockFromDay_def k w movement_row_def demo_receipt_def demo_issue_def res dir_type_def
        isInType_def isOutType_def ref_numbers ref_numbers_transfer)
  then have "assertStockMovementDate ref_lib demo_env (db_warehouses s) (db_kardex s) 7 (Some 15) DirOut 3 ?w1 True = Inr ()"
    by (simp add: assertStockMovementDate_def latest demo_env_def QTY_TOLERANCE_def)
  from backdated_issue_covered [OF ref.decimal_js_axioms run vol this _ latest, of 20] run show ?thesis
    by (auto simp: scaled_def)
qed

end
