(* ===== verification/Settlement.thy ===== *)
theory Settlement
  imports Decimal "HOL-Library.Multiset" "HOL-Library.Sublist"
begin

text \<open>
  Settling documents with receipts, payments and cheques: the forms' split
  (\<open>src/lib/treasury/settlementAllocation.ts\<close>) and the server's write of a set of parts
  (\<open>src/services/accounting/treasury/settlementAllocationWrite.ts\<close>) with the remaining amount of a
  document (\<open>documentRemaining.ts\<close>, \<open>src/services/documents/documentRemainingAmount.ts\<close>,
  \<open>documentSettlement.ts\<close>, \<open>documentAllocations.ts\<close>) and the link rule (\<open>treasuryLinks.ts\<close>).

  The payable amount of a document and the credit of its returns are columns of the model's document.
  A number or a text of digits is the rational it denotes. Activity rows are left out.
\<close>

section \<open>The forms\<close>

definition SETTLEABLE_DOCUMENT_STATUSES :: "string list" where
  "SETTLEABLE_DOCUMENT_STATUSES = [''final'', ''proforma'']"

definition LAPSED_CHEQUE_STATUSES :: "string list" where
  "LAPSED_CHEQUE_STATUSES = [''bounced'', ''returned'']"

definition MAX_SETTLEMENT_PARTS :: nat where
  "MAX_SETTLEMENT_PARTS = 50"

text \<open>A status is \<open>None\<close> when not given.\<close>

definition isSettleableStatus :: "string option \<Rightarrow> bool" where
  "isSettleableStatus status = (case status of None \<Rightarrow> True | Some s \<Rightarrow> s \<in> set SETTLEABLE_DOCUMENT_STATUSES)"

record open_doc =
  od_id :: int
  od_status :: "string option"
  od_remaining :: rat
  od_allocatedHere :: rat

record alloc_input =
  ai_doc :: int
  ai_amount :: rat

definition settlementRoom :: "decimal_lib \<Rightarrow> open_doc \<Rightarrow> rat" where
  "settlementRoom L d =
    (let room = (if isSettleableStatus (od_status d) then fin_add L (od_remaining d) (od_allocatedHere d)
       else od_allocatedHere d)
     in fin_toNumber L (fin_round L room 4))"

fun fill_loop :: "decimal_lib \<Rightarrow> open_doc list \<Rightarrow> rat \<Rightarrow> alloc_input list" where
  "fill_loop L [] left = []"
| "fill_loop L (d # ds) left =
    (if \<not> left > 0 then []
     else
       let room = settlementRoom L d
       in if \<not> room > 0 then fill_loop L ds left
          else
            let part = (if left > room then room else left)
            in \<lparr>ai_doc = od_id d, ai_amount = fin_toNumber L part\<rparr> # fill_loop L ds (fin_subtract L left part))"

definition fillOldestFirst :: "decimal_lib \<Rightarrow> open_doc list \<Rightarrow> rat \<Rightarrow> alloc_input list" where
  "fillOldestFirst L docs amount = fill_loop L docs amount"

datatype settlement_mode = ModeOldest | ModeManual | ModeNone

definition settlementPartsFor ::
    "decimal_lib \<Rightarrow> settlement_mode \<Rightarrow> open_doc list \<Rightarrow> rat \<Rightarrow> alloc_input list \<Rightarrow> alloc_input list" where
  "settlementPartsFor L mode docs amount manual =
    (case mode of
       ModeNone \<Rightarrow> []
     | ModeOldest \<Rightarrow> fillOldestFirst L docs amount
     | ModeManual \<Rightarrow> filter (\<lambda>p. ai_doc p \<in> set (map od_id docs) \<and> ai_amount p > 0) manual)"

definition allocationTotal :: "decimal_lib \<Rightarrow> alloc_input list \<Rightarrow> rat" where
  "allocationTotal L parts = fin_toNumber L (foldl (\<lambda>sum p. fin_add L sum (ai_amount p)) 0 parts)"

datatype parts_problem = TooManyParts | PartsExceedAmount | PartExceedsRoom int | PartOnDraft int

fun part_problem :: "decimal_lib \<Rightarrow> open_doc list \<Rightarrow> alloc_input list \<Rightarrow> parts_problem option" where
  "part_problem L docs [] = None"
| "part_problem L docs (p # ps) =
    (case List.find (\<lambda>d. od_id d = ai_doc p) docs of
       None \<Rightarrow> part_problem L docs ps
     | Some d \<Rightarrow>
         if \<not> ai_amount p > settlementRoom L d then part_problem L docs ps
         else if isSettleableStatus (od_status d) then Some (PartExceedsRoom (od_id d))
         else Some (PartOnDraft (od_id d)))"

definition settlementPartsProblem :: "decimal_lib \<Rightarrow> alloc_input list \<Rightarrow> rat \<Rightarrow> open_doc list \<Rightarrow> parts_problem option" where
  "settlementPartsProblem L parts amount docs =
    (if length parts > MAX_SETTLEMENT_PARTS then Some TooManyParts
     else if allocationTotal L parts > amount then Some PartsExceedAmount
     else part_problem L docs parts)"

section \<open>State of the server\<close>

datatype pay_direction = PayReceipt | PayPayment

record settle_doc =
  sd_id :: nat
  sd_type :: string
  sd_status :: "string option"
  sd_deleted :: bool
  sd_party :: "nat option"
  sd_buyer :: string
  sd_currency :: string
  sd_payable :: rat
  sd_returned :: rat

record treasury_row =
  tr_id :: nat
  tr_type :: string
  tr_status :: string
  tr_reversalOf :: "nat option"
  tr_payroll :: "nat option"
  tr_amount :: rat
  tr_partyType :: string
  tr_party :: "nat option"
  tr_partyName :: string
  tr_currency :: string
  tr_doc :: "nat option"
  tr_day :: int
  tr_deleted :: bool
  tr_version :: nat

record cheque_row =
  cq_id :: nat
  cq_type :: string
  cq_status :: "string option"
  cq_amount :: rat
  cq_partyType :: string
  cq_party :: "nat option"
  cq_partyName :: string
  cq_currency :: string
  cq_issueDay :: int
  cq_deleted :: bool

record part_row =
  pt_id :: nat
  pt_doc :: nat
  pt_treasury :: "nat option"
  pt_cheque :: "nat option"
  pt_amount :: rat
  pt_deleted :: bool

record settle_db =
  sb_docs :: "settle_doc list"
  sb_rows :: "treasury_row list"
  sb_cheques :: "cheque_row list"
  sb_parts :: "part_row list"
  sb_nextPart :: nat


datatype settle_error =
    SettleTooManyParts
  | SettleBadDocument
  | SettleDuplicateDocument
  | SettleAmountPrecision
  | SettlePartNotPositive
  | SettleExceedsSource
  | SettleSourceNotFound
  | SettleNotAllocatable
  | SettlePartyInvalid
  | SettleClosedYear
  | SettleDocumentInvalid
  | SettlePartyMismatch
  | SettleCurrencyMismatch
  | SettleNotIssued
  | SettleExceedsRemaining
  | SettleUnknownParty

text \<open>Party names (\<open>resolveTreasuryPartyName\<close>) and closed fiscal years (\<open>FiscalPeriodService\<close>).\<close>

record settle_env =
  le_partyName :: "string \<Rightarrow> nat option \<Rightarrow> settle_error + string option"
  le_closed :: "int \<Rightarrow> bool"

definition find_doc :: "settle_db \<Rightarrow> nat \<Rightarrow> settle_doc option" where
  "find_doc s i = List.find (\<lambda>d. sd_id d = i) (sb_docs s)"

definition find_row :: "settle_db \<Rightarrow> nat \<Rightarrow> treasury_row option" where
  "find_row s i = List.find (\<lambda>r. tr_id r = i \<and> \<not> tr_deleted r) (sb_rows s)"

definition find_cheque :: "settle_db \<Rightarrow> nat \<Rightarrow> cheque_row option" where
  "find_cheque s i = List.find (\<lambda>c. cq_id c = i \<and> \<not> cq_deleted c) (sb_cheques s)"

section \<open>What is settled on a document\<close>

definition lapsed :: "string option \<Rightarrow> bool" where
  "lapsed status = (case status of None \<Rightarrow> False | Some s \<Rightarrow> s \<in> set LAPSED_CHEQUE_STATUSES)"

text \<open>\<open>liveAllocationCondition\<close>, with the joined treasury row or cheque.\<close>

definition liveAllocation :: "settle_db \<Rightarrow> part_row \<Rightarrow> bool" where
  "liveAllocation s p \<longleftrightarrow> \<not> pt_deleted p \<and>
    (list_ex (\<lambda>r. Some (tr_id r) = pt_treasury p \<and> \<not> tr_deleted r \<and> tr_status r = ''completed'' \<and> tr_reversalOf r = None)
       (sb_rows s) \<or>
     list_ex (\<lambda>c. Some (cq_id c) = pt_cheque p \<and> \<not> cq_deleted c \<and> \<not> lapsed (cq_status c)) (sb_cheques s))"

definition allocatedAmountOf :: "settle_db \<Rightarrow> nat \<Rightarrow> rat" where
  "allocatedAmountOf s d = sum_list (map pt_amount (filter (\<lambda>p. pt_doc p = d \<and> liveAllocation s p) (sb_parts s)))"

definition settledAmount :: "decimal_lib \<Rightarrow> treasury_row list \<Rightarrow> bool \<Rightarrow> rat" where
  "settledAmount L rows isPurchase =
    (let settling = (if isPurchase then ''payment'' else ''receipt'');
         reversed = map the (filter (\<lambda>r. r \<noteq> None) (map tr_reversalOf rows));
         counted = filter (\<lambda>t. tr_status t = ''completed'' \<or> (tr_status t = ''voided'' \<and> tr_id t \<in> set reversed)) rows
     in foldl (\<lambda>sum t. if tr_type t = settling then fin_add L sum (tr_amount t) else fin_subtract L sum (tr_amount t))
          0 counted)"

definition PURCHASE_SETTLED_TYPES :: "string list" where
  "PURCHASE_SETTLED_TYPES = [''purchase'', ''receipt'']"

definition settlement_rows :: "settle_db \<Rightarrow> nat \<Rightarrow> treasury_row list" where
  "settlement_rows s d = filter (\<lambda>r. tr_doc r = Some d \<and> \<not> tr_deleted r \<and>
    (tr_status r = ''completed'' \<or> tr_status r = ''voided'')) (sb_rows s)"

text \<open>\<open>readDocumentPayableAndSettled\<close>: payable, settled and returned.\<close>

definition readDocumentPayableAndSettled :: "decimal_lib \<Rightarrow> settle_db \<Rightarrow> nat \<Rightarrow> (rat \<times> rat \<times> rat) option" where
  "readDocumentPayableAndSettled L s d =
    map_option (\<lambda>doc. (sd_payable doc,
      fin_add L (settledAmount L (settlement_rows s d) (sd_type doc \<in> set PURCHASE_SETTLED_TYPES)) (allocatedAmountOf s d),
      sd_returned doc)) (find_doc s d)"

definition assertWithinDocumentRemaining ::
    "decimal_lib \<Rightarrow> settle_db \<Rightarrow> nat \<Rightarrow> rat \<Rightarrow> bool \<Rightarrow> settle_error + unit" where
  "assertWithinDocumentRemaining L s d amount exact =
    (case readDocumentPayableAndSettled L s d of
       None \<Rightarrow> Inr ()
     | Some (payable, settled, returned) \<Rightarrow>
         let remaining = fin_subtract L (fin_subtract L payable (if settled < 0 then 0 else settled)) returned;
             over = (if exact then fin_round L amount 4 > fin_round L remaining 4
               else amount > fin_add L remaining (1 / 100))
         in if over then Inl SettleExceedsRemaining else Inr ())"

section \<open>Checks of a part\<close>

definition RECEIPT_DOCUMENT_TYPES :: "string list" where
  "RECEIPT_DOCUMENT_TYPES = [''invoice'', ''proforma'']"

definition PAYMENT_DOCUMENT_TYPES :: "string list" where
  "PAYMENT_DOCUMENT_TYPES = [''purchase'', ''receipt'']"

record source_party =
  sp_direction :: pay_direction
  sp_partyType :: string
  sp_party :: "nat option"
  sp_partyName :: string
  sp_currency :: string

definition currency_of :: "string \<Rightarrow> string" where
  "currency_of c = js_upper (if c = '''' then ''IRR'' else c)"

definition assertTreasuryDocumentLink :: "settle_db \<Rightarrow> source_party \<Rightarrow> nat \<Rightarrow> settle_error + unit" where
  "assertTreasuryDocumentLink s src d =
    (case List.find (\<lambda>x. sd_id x = d \<and> \<not> sd_deleted x) (sb_docs s) of
       None \<Rightarrow> Inl SettleDocumentInvalid
     | Some doc \<Rightarrow>
         let isReceipt = (sp_direction src = PayReceipt);
             allowed = (if isReceipt then RECEIPT_DOCUMENT_TYPES else PAYMENT_DOCUMENT_TYPES)
         in if sd_type doc \<notin> set allowed then Inl SettleDocumentInvalid
            else if sp_partyType src \<noteq> (if isReceipt then ''customer'' else ''supplier'') then Inl SettlePartyMismatch
            else if currency_of (sd_currency doc) \<noteq> currency_of (sp_currency src) then Inl SettleCurrencyMismatch
            else (case (sd_party doc, sp_party src) of
                (Some x, Some y) \<Rightarrow> if y \<noteq> x then Inl SettlePartyMismatch else Inr ()
              | _ \<Rightarrow> if js_trim (sd_buyer doc) \<noteq> js_trim (sp_partyName src) then Inl SettlePartyMismatch else Inr ()))"

definition assertSettleableDocumentStatus :: "settle_db \<Rightarrow> nat \<Rightarrow> rat \<Rightarrow> rat option \<Rightarrow> settle_error + unit" where
  "assertSettleableDocumentStatus s d amount keptAmount =
    (case find_doc s d of
       None \<Rightarrow> Inr ()
     | Some doc \<Rightarrow>
         if (case sd_status doc of None \<Rightarrow> '''' | Some x \<Rightarrow> x) \<in> set SETTLEABLE_DOCUMENT_STATUSES then Inr ()
         else (case keptAmount of
             Some k \<Rightarrow> if amount \<le> k then Inr () else Inl SettleNotIssued
           | None \<Rightarrow> Inl SettleNotIssued))"

fun lockAndCheckAllocationTargets ::
    "decimal_lib \<Rightarrow> settle_db \<Rightarrow> source_party \<Rightarrow> (nat \<Rightarrow> rat option) \<Rightarrow> (nat \<times> rat) list \<Rightarrow> settle_error + unit" where
  "lockAndCheckAllocationTargets L s src kept [] = Inr ()"
| "lockAndCheckAllocationTargets L s src kept ((d, a) # parts) =
    res_bind (assertTreasuryDocumentLink s src d) (\<lambda>_.
    res_bind (assertSettleableDocumentStatus s d a (kept d)) (\<lambda>_.
    res_bind (assertWithinDocumentRemaining L s d a True) (\<lambda>_.
      lockAndCheckAllocationTargets L s src kept parts)))"

section \<open>The parts as sent\<close>

definition exactTreasuryAmount :: "decimal_lib \<Rightarrow> rat \<Rightarrow> settle_error + rat" where
  "exactTreasuryAmount L value =
    (let amount = fin_toNumber L value
     in if amount \<noteq> 0 \<and> amount \<noteq> value then Inl SettleAmountPrecision else Inr amount)"

fun normalize_parts :: "decimal_lib \<Rightarrow> int list \<Rightarrow> alloc_input list \<Rightarrow> settle_error + (nat \<times> rat) list" where
  "normalize_parts L seen [] = Inr []"
| "normalize_parts L seen (p # ps) =
    (if ai_doc p \<le> 0 then Inl SettleBadDocument
     else if ai_doc p \<in> set seen then Inl SettleDuplicateDocument
     else res_bind (exactTreasuryAmount L (ai_amount p)) (\<lambda>amount.
       if \<not> amount > 0 then Inl SettlePartNotPositive
       else res_bind (normalize_parts L (ai_doc p # seen) ps) (\<lambda>rest. Inr ((nat (ai_doc p), amount) # rest))))"

definition normalizeAllocations :: "decimal_lib \<Rightarrow> alloc_input list \<Rightarrow> rat \<Rightarrow> settle_error + (nat \<times> rat) list" where
  "normalizeAllocations L parts sourceAmount =
    (if length parts > MAX_SETTLEMENT_PARTS then Inl SettleTooManyParts
     else res_bind (normalize_parts L [] parts) (\<lambda>normalized.
       if foldl (\<lambda>sum p. fin_add L sum (snd p)) 0 normalized > sourceAmount then Inl SettleExceedsSource
       else Inr (sort_key fst normalized)))"

definition assertAllocatableParty :: "pay_direction \<Rightarrow> string \<Rightarrow> settle_error + unit" where
  "assertAllocatableParty dir partyType =
    (if partyType \<noteq> (case dir of PayReceipt \<Rightarrow> ''customer'' | PayPayment \<Rightarrow> ''supplier'') then Inl SettlePartyInvalid
     else Inr ())"

section \<open>Writing a set of parts\<close>

datatype part_source = FromTreasury nat | FromCheque nat

definition of_source :: "part_source \<Rightarrow> part_row \<Rightarrow> bool" where
  "of_source src p = (case src of FromTreasury i \<Rightarrow> pt_treasury p = Some i | FromCheque i \<Rightarrow> pt_cheque p = Some i)"

definition sourceAllocationViews :: "settle_db \<Rightarrow> part_source \<Rightarrow> (nat \<times> rat) list" where
  "sourceAllocationViews s src =
    map (\<lambda>p. (pt_doc p, pt_amount p)) (sort_key pt_doc (filter (\<lambda>p. of_source src p \<and> \<not> pt_deleted p) (sb_parts s)))"

definition releaseSourceAllocations :: "part_source \<Rightarrow> settle_db \<Rightarrow> settle_db" where
  "releaseSourceAllocations src s =
    s\<lparr>sb_parts := update_rows (\<lambda>p. of_source src p \<and> \<not> pt_deleted p) (\<lambda>p. p\<lparr>pt_deleted := True\<rparr>) (sb_parts s)\<rparr>"

fun allocation_rows :: "nat \<Rightarrow> part_source \<Rightarrow> (nat \<times> rat) list \<Rightarrow> part_row list" where
  "allocation_rows n src [] = []"
| "allocation_rows n src ((d, a) # parts) =
    \<lparr>pt_id = n, pt_doc = d, pt_treasury = (case src of FromTreasury i \<Rightarrow> Some i | FromCheque _ \<Rightarrow> None),
     pt_cheque = (case src of FromTreasury _ \<Rightarrow> None | FromCheque i \<Rightarrow> Some i),
     pt_amount = db_numeric4 a, pt_deleted = False\<rparr> # allocation_rows (n + 1) src parts"

definition insertAllocations :: "part_source \<Rightarrow> (nat \<times> rat) list \<Rightarrow> settle_db \<Rightarrow> settle_db" where
  "insertAllocations src parts s =
    s\<lparr>sb_parts := sb_parts s @ allocation_rows (sb_nextPart s) src parts, sb_nextPart := sb_nextPart s + length parts\<rparr>"

text \<open>What a source put on each document before: its parts, or its direct link.\<close>

definition keptAmounts :: "(nat \<times> rat) list \<Rightarrow> (nat \<times> rat) option \<Rightarrow> nat \<Rightarrow> rat option" where
  "keptAmounts before direct =
    (let parts = map_of (rev before)
     in case direct of None \<Rightarrow> parts | Some (d, a) \<Rightarrow> parts(d \<mapsto> a))"

definition part_sum :: "decimal_lib \<Rightarrow> (nat \<times> rat) list \<Rightarrow> nat \<Rightarrow> rat" where
  "part_sum L parts d = foldl (\<lambda>sum p. fin_add L sum (snd p)) 0 (filter (\<lambda>p. fst p = d) parts)"

definition changedSettlementDocuments :: "decimal_lib \<Rightarrow> (nat \<times> rat) list \<Rightarrow> (nat \<times> rat) list \<Rightarrow> nat list" where
  "changedSettlementDocuments L before after =
    filter (\<lambda>d. part_sum L before d \<noteq> part_sum L after d) (remdups (map fst before @ map fst after))"

record source_summary =
  ss_amount :: rat
  ss_allocations :: "(nat \<times> rat) list"
  ss_unallocated :: rat

definition sourceSummary :: "decimal_lib \<Rightarrow> rat \<Rightarrow> (nat \<times> rat) list \<Rightarrow> nat option \<Rightarrow> source_summary" where
  "sourceSummary L amount allocations direct =
    (let placed = fin_add L (foldl (\<lambda>sum p. fin_add L sum (snd p)) 0 allocations) (if direct \<noteq> None then amount else 0);
         left = fin_subtract L amount placed
     in \<lparr>ss_amount = fin_toNumber L amount, ss_allocations = allocations,
         ss_unallocated = (if left < 0 then 0 else fin_toNumber L left)\<rparr>)"

text \<open>The party under its current name, or the name the source was recorded with.\<close>

definition named_party :: "settle_env \<Rightarrow> source_party \<Rightarrow> settle_error + source_party" where
  "named_party env src = res_bind (le_partyName env (sp_partyType src) (sp_party src)) (\<lambda>name.
     Inr (src\<lparr>sp_partyName := (case name of Some n \<Rightarrow> n | None \<Rightarrow> sp_partyName src)\<rparr>))"

text \<open>The direct link of a treasury row to one document gives way to the parts.\<close>

definition unlink_row :: "nat \<Rightarrow> settle_db \<Rightarrow> settle_db" where
  "unlink_row i s = s\<lparr>sb_rows := update_rows (\<lambda>r. tr_id r = i) (\<lambda>r. r\<lparr>tr_doc := None, tr_version := tr_version r + 1\<rparr>) (sb_rows s)\<rparr>"

definition treasury_party :: "treasury_row \<Rightarrow> source_party" where
  "treasury_party row =
    \<lparr>sp_direction = (if tr_type row = ''payment'' then PayPayment else PayReceipt),
     sp_partyType = (if tr_partyType row = '''' then ''other'' else tr_partyType row), sp_party = tr_party row,
     sp_partyName = tr_partyName row,
     sp_currency = (if tr_currency row = '''' then ''IRR'' else tr_currency row)\<rparr>"

definition replaceTreasuryAllocations ::
    "decimal_lib \<Rightarrow> settle_env \<Rightarrow> nat \<Rightarrow> alloc_input list \<Rightarrow> settle_db \<Rightarrow> settle_error + (settle_db \<times> source_summary)" where
  "replaceTreasuryAllocations L env i allocations s =
    (case find_row s i of
       None \<Rightarrow> Inl SettleSourceNotFound
     | Some row \<Rightarrow>
       res_bind (normalizeAllocations L allocations (tr_amount row)) (\<lambda>parts.
       if tr_status row \<noteq> ''completed'' \<or> tr_reversalOf row \<noteq> None \<or> tr_payroll row \<noteq> None then Inl SettleNotAllocatable
       else if tr_type row \<noteq> ''receipt'' \<and> tr_type row \<noteq> ''payment'' then Inl SettleNotAllocatable
       else
         let party = treasury_party row; src = FromTreasury i;
             before = sourceAllocationViews s src;
             direct = map_option (\<lambda>d. (d, tr_amount row)) (tr_doc row);
             beforeParts = before @ (case direct of None \<Rightarrow> [] | Some p \<Rightarrow> [p])
         in res_bind (assertAllocatableParty (sp_direction party) (sp_partyType party)) (\<lambda>_.
            if changedSettlementDocuments L beforeParts parts \<noteq> [] \<and> le_closed env (tr_day row) then Inl SettleClosedYear
            else
              let s1 = releaseSourceAllocations src s;
                  s2 = (if tr_doc row \<noteq> None then unlink_row i s1 else s1)
              in res_bind (named_party env party) (\<lambda>named.
                 res_bind (lockAndCheckAllocationTargets L s2 named (keptAmounts before direct) parts) (\<lambda>_.
                   let s3 = insertAllocations src parts s2
                   in Inr (s3, sourceSummary L (tr_amount row) (sourceAllocationViews s3 src) None))))))"

definition cheque_party :: "cheque_row \<Rightarrow> source_party" where
  "cheque_party c =
    (let partyType = (if cq_partyType c \<noteq> '''' then cq_partyType c else if cq_type c = ''paid'' then ''supplier'' else ''customer'')
     in \<lparr>sp_direction = (if cq_type c = ''paid'' then PayPayment else PayReceipt), sp_partyType = partyType,
         sp_party = cq_party c, sp_partyName = cq_partyName c,
         sp_currency = (if cq_currency c = '''' then ''IRR'' else cq_currency c)\<rparr>)"

definition replaceChequeAllocations ::
    "decimal_lib \<Rightarrow> settle_env \<Rightarrow> nat \<Rightarrow> alloc_input list \<Rightarrow> settle_db \<Rightarrow> settle_error + (settle_db \<times> source_summary)" where
  "replaceChequeAllocations L env i allocations s =
    (case find_cheque s i of
       None \<Rightarrow> Inl SettleSourceNotFound
     | Some c \<Rightarrow>
       if lapsed (cq_status c) then Inl SettleNotAllocatable
       else
         let party = cheque_party c; src = FromCheque i
         in res_bind (assertAllocatableParty (sp_direction party) (sp_partyType party)) (\<lambda>_.
            res_bind (normalizeAllocations L allocations (cq_amount c)) (\<lambda>parts.
              let before = sourceAllocationViews s src
              in if changedSettlementDocuments L before parts \<noteq> [] \<and> le_closed env (cq_issueDay c) then Inl SettleClosedYear
                 else
                   let s1 = releaseSourceAllocations src s
                   in res_bind (named_party env party) (\<lambda>named.
                      res_bind (lockAndCheckAllocationTargets L s1 named (keptAmounts before None) parts) (\<lambda>_.
                        let s2 = insertAllocations src parts s1
                        in Inr (s2, sourceSummary L (cq_amount c) (sourceAllocationViews s2 src) None))))))"

definition replaceSourceAllocations ::
    "decimal_lib \<Rightarrow> settle_env \<Rightarrow> part_source \<Rightarrow> alloc_input list \<Rightarrow> settle_db \<Rightarrow> settle_error + (settle_db \<times> source_summary)" where
  "replaceSourceAllocations L env src allocations s =
    (case src of
       FromTreasury i \<Rightarrow> replaceTreasuryAllocations L env i allocations s
     | FromCheque i \<Rightarrow> replaceChequeAllocations L env i allocations s)"

section \<open>Sums\<close>

definition money_bound :: rat where
  "money_bound = 10 ^ 20"

context decimal_js begin

lemma foldl_add_exact4:
  assumes "\<And>x. x \<in> set xs \<Longrightarrow> scaled 4 (f x)" "scaled 4 a" "\<bar>a\<bar> + sum_list (map (\<lambda>x. \<bar>f x\<bar>) xs) < money_bound"
  shows "foldl (\<lambda>s x. fin_add L s (f x)) a xs = a + sum_list (map f xs)"
  using assms
proof (induction xs arbitrary: a)
  case (Cons x xs)
  have rest: "0 \<le> sum_list (map (\<lambda>x. \<bar>f x\<bar>) xs)" by (rule sum_list_nonneg) auto
  have "\<bar>a + f x\<bar> \<le> \<bar>a\<bar> + \<bar>f x\<bar>" by (rule abs_triangle_ineq)
  with Cons.prems(3) rest have b: "\<bar>a + f x\<bar> + sum_list (map (\<lambda>x. \<bar>f x\<bar>) xs) < money_bound" by simp
  then have "\<bar>a + f x\<bar> < 10 ^ 22" using rest by (simp add: money_bound_def)
  then have step: "fin_add L a (f x) = a + f x"
    using Cons.prems(1,2) by (intro add_scaled) (auto intro: scaled_mono [of 4])
  have "foldl (\<lambda>s x. fin_add L s (f x)) (a + f x) xs = a + f x + sum_list (map f xs)"
    by (rule Cons.IH) (use Cons.prems b in \<open>auto intro: scaled_add\<close>)
  with step show ?case by simp
qed simp

lemma add_money: "scaled 4 a \<Longrightarrow> scaled 4 b \<Longrightarrow> \<bar>a\<bar> < money_bound \<Longrightarrow> \<bar>b\<bar> < money_bound \<Longrightarrow> fin_add L a b = a + b"
  by (rule add_scaled) (auto intro: scaled_mono [of 4] simp: money_bound_def abs_less_iff)

lemma subtract_money:
  "scaled 4 a \<Longrightarrow> scaled 4 b \<Longrightarrow> \<bar>a\<bar> < 2 * money_bound \<Longrightarrow> \<bar>b\<bar> < 2 * money_bound \<Longrightarrow> fin_subtract L a b = a - b"
  by (rule subtract_scaled) (auto intro: scaled_mono [of 4] simp: money_bound_def abs_less_iff)

end

lemma scaled_sum: "(\<And>x. x \<in> set xs \<Longrightarrow> scaled n (f x)) \<Longrightarrow> scaled n (sum_list (map f xs))"
  by (induction xs) (auto intro: scaled_add)

lemma sum_abs_filter:
  fixes f :: "'a \<Rightarrow> rat"
  shows "sum_list (map (\<lambda>x. \<bar>f x\<bar>) (filter P xs)) \<le> sum_list (map (\<lambda>x. \<bar>f x\<bar>) xs)"
  by (induction xs) auto

lemma abs_sum_le:
  fixes f :: "'a \<Rightarrow> rat"
  shows "\<bar>sum_list (map f xs)\<bar> \<le> sum_list (map (\<lambda>x. \<bar>f x\<bar>) xs)"
  by (induction xs) (auto intro: order_trans [OF abs_triangle_ineq])

section \<open>The paid amount in exact arithmetic\<close>

definition signed_amount :: "bool \<Rightarrow> treasury_row \<Rightarrow> rat" where
  "signed_amount isPurchase t =
    (if tr_type t = (if isPurchase then ''payment'' else ''receipt'') then tr_amount t else - tr_amount t)"

definition counted_rows :: "treasury_row list \<Rightarrow> treasury_row list" where
  "counted_rows rows = filter (\<lambda>t. tr_status t = ''completed'' \<or>
    (tr_status t = ''voided'' \<and> list_ex (\<lambda>r. tr_reversalOf r = Some (tr_id t)) rows)) rows"

definition paid_directly :: "settle_db \<Rightarrow> settle_doc \<Rightarrow> rat" where
  "paid_directly s doc = sum_list (map (signed_amount (sd_type doc \<in> set PURCHASE_SETTLED_TYPES))
    (counted_rows (settlement_rows s (sd_id doc))))"

definition paid_on :: "settle_db \<Rightarrow> settle_doc \<Rightarrow> rat" where
  "paid_on s doc = paid_directly s doc + allocatedAmountOf s (sd_id doc)"

text \<open>
  Amounts of receipts, payments and parts have four decimals, as their columns; what a document asks for and what its
  returns give back (quantities times prices) have up to eight; the sizes add up within the precision of the decimals.
\<close>

definition settle_numbers :: "settle_db \<Rightarrow> bool" where
  "settle_numbers s \<longleftrightarrow>
    (\<forall>r \<in> set (sb_rows s). scaled 4 (tr_amount r)) \<and> (\<forall>p \<in> set (sb_parts s). scaled 4 (pt_amount p)) \<and>
    (\<forall>d \<in> set (sb_docs s). scaled 8 (sd_payable d) \<and> scaled 8 (sd_returned d) \<and>
      \<bar>sd_payable d\<bar> < 10 ^ 15 \<and> \<bar>sd_returned d\<bar> < 10 ^ 15) \<and>
    sum_list (map (\<lambda>r. \<bar>tr_amount r\<bar>) (sb_rows s)) < 10 ^ 18 \<and> sum_list (map (\<lambda>p. \<bar>pt_amount p\<bar>) (sb_parts s)) < 10 ^ 18"

text \<open>A document is paid, with its returns, at most its payable amount up to half of the fourth decimal, the precision of a part.\<close>

definition within_document :: "settle_db \<Rightarrow> settle_doc \<Rightarrow> bool" where
  "within_document s doc \<longleftrightarrow> paid_on s doc + sd_returned doc \<le> sd_payable doc + 1 / 20000 \<and>
    (scaled 4 (sd_payable doc - sd_returned doc) \<longrightarrow> paid_on s doc + sd_returned doc \<le> sd_payable doc)"

lemma filter_in_set_the: "t \<in> set (map the (filter (\<lambda>r. r \<noteq> None) (map f rows))) \<longleftrightarrow> list_ex (\<lambda>r. f r = Some t) rows"
  by (induction rows) auto

context decimal_js begin

lemma settledAmount_exact:
  assumes "\<And>t. t \<in> set rows \<Longrightarrow> scaled 4 (tr_amount t)" "sum_list (map (\<lambda>r. \<bar>tr_amount r\<bar>) rows) < 10 ^ 18"
  shows "settledAmount L rows isPurchase = sum_list (map (signed_amount isPurchase) (counted_rows rows))"
proof -
  let ?g = "\<lambda>sum t. if tr_type t = (if isPurchase then ''payment'' else ''receipt'')
    then fin_add L sum (tr_amount t) else fin_subtract L sum (tr_amount t)"
  have exact: "foldl ?g a xs = a + sum_list (map (signed_amount isPurchase) xs)"
    if "\<And>t. t \<in> set xs \<Longrightarrow> scaled 4 (tr_amount t)" "scaled 4 a"
      "\<bar>a\<bar> + sum_list (map (\<lambda>r. \<bar>tr_amount r\<bar>) xs) < 10 ^ 18" for xs a
    using that
  proof (induction xs arbitrary: a)
    case (Cons t xs)
    let ?b = "a + signed_amount isPurchase t"
    have nn: "0 \<le> sum_list (map (\<lambda>r. \<bar>tr_amount r\<bar>) xs)" by (rule sum_list_nonneg) auto
    have b: "\<bar>?b\<bar> \<le> \<bar>a\<bar> + \<bar>tr_amount t\<bar>"
      using abs_triangle_ineq [of a "signed_amount isPurchase t"] by (simp add: signed_amount_def split: if_splits)
    have sizes: "\<bar>a\<bar> < money_bound" "\<bar>tr_amount t\<bar> < money_bound"
      using Cons.prems(3) nn by (simp_all add: money_bound_def)
    have "?g a t = ?b"
      using Cons.prems(1) [of t] Cons.prems(2) sizes by (auto simp: signed_amount_def add_money subtract_money)
    moreover have "scaled 4 ?b"
      using Cons.prems(1) [of t] Cons.prems(2) by (auto simp: signed_amount_def intro: scaled_add scaled_diff)
    moreover have "\<bar>?b\<bar> + sum_list (map (\<lambda>r. \<bar>tr_amount r\<bar>) xs) < 10 ^ 18" using b Cons.prems(3) by simp
    ultimately show ?case using Cons.IH [of ?b] Cons.prems(1) by (simp add: add.assoc)
  qed simp
  have "foldl ?g 0 (counted_rows rows) = 0 + sum_list (map (signed_amount isPurchase) (counted_rows rows))"
  proof (rule exact)
    show "\<bar>0\<bar> + sum_list (map (\<lambda>r. \<bar>tr_amount r\<bar>) (counted_rows rows)) < 10 ^ 18"
      using sum_abs_filter [of tr_amount _ rows] assms(2) unfolding counted_rows_def by (auto intro: le_less_trans)
  qed (use assms(1) in \<open>auto simp: counted_rows_def\<close>)
  then show ?thesis
    unfolding settledAmount_def Let_def filter_in_set_the counted_rows_def [symmetric] by simp
qed

lemma paid_sizes:
  assumes "settle_numbers s"
  shows "scaled 4 (paid_directly s doc)" "\<bar>paid_directly s doc\<bar> < 10 ^ 18"
    "scaled 4 (allocatedAmountOf s d)" "\<bar>allocatedAmountOf s d\<bar> < 10 ^ 18"
proof -
  let ?rows = "counted_rows (settlement_rows s (sd_id doc))"
  have sub: "set ?rows \<subseteq> set (sb_rows s)" by (auto simp: counted_rows_def settlement_rows_def)
  show "scaled 4 (paid_directly s doc)" unfolding paid_directly_def
    by (rule scaled_sum) (use assms sub in \<open>auto simp: signed_amount_def settle_numbers_def\<close>)
  have "\<bar>paid_directly s doc\<bar> \<le> sum_list (map (\<lambda>r. \<bar>signed_amount (sd_type doc \<in> set PURCHASE_SETTLED_TYPES) r\<bar>) ?rows)"
    unfolding paid_directly_def by (rule abs_sum_le)
  also have "\<dots> = sum_list (map (\<lambda>r. \<bar>tr_amount r\<bar>) ?rows)"
    by (intro arg_cong [where f = sum_list] map_cong) (auto simp: signed_amount_def)
  also have "\<dots> \<le> sum_list (map (\<lambda>r. \<bar>tr_amount r\<bar>) (sb_rows s))"
    unfolding counted_rows_def settlement_rows_def filter_filter by (rule sum_abs_filter)
  finally show "\<bar>paid_directly s doc\<bar> < 10 ^ 18" using assms by (simp add: settle_numbers_def)
  show "scaled 4 (allocatedAmountOf s d)" unfolding allocatedAmountOf_def
    by (rule scaled_sum) (use assms in \<open>auto simp: settle_numbers_def\<close>)
  have "\<bar>allocatedAmountOf s d\<bar> \<le> sum_list (map (\<lambda>p. \<bar>pt_amount p\<bar>) (sb_parts s))"
    unfolding allocatedAmountOf_def by (rule order_trans [OF abs_sum_le sum_abs_filter])
  then show "\<bar>allocatedAmountOf s d\<bar> < 10 ^ 18" using assms by (simp add: settle_numbers_def)
qed

lemma read_exact:
  assumes "settle_numbers s" "find_doc s d = Some doc"
  shows "readDocumentPayableAndSettled L s d = Some (sd_payable doc, paid_on s doc, sd_returned doc)"
proof -
  have id: "sd_id doc = d" using assms(2) by (auto simp: find_doc_def dest: find_SomeD)
  have rows: "settledAmount L (settlement_rows s d) (sd_type doc \<in> set PURCHASE_SETTLED_TYPES) = paid_directly s doc"
    unfolding paid_directly_def id
  proof (rule settledAmount_exact)
    show "sum_list (map (\<lambda>r. \<bar>tr_amount r\<bar>) (settlement_rows s d)) < 10 ^ 18"
      using assms(1) sum_abs_filter [of tr_amount _ "sb_rows s"]
      unfolding settlement_rows_def settle_numbers_def by (auto intro: le_less_trans)
  qed (use assms(1) in \<open>auto simp: settle_numbers_def settlement_rows_def\<close>)
  have "fin_add L (paid_directly s doc) (allocatedAmountOf s d) = paid_on s doc"
    using paid_sizes(1,2) [OF assms(1), of doc] paid_sizes(3,4) [OF assms(1), of d]
    unfolding paid_on_def id by (intro add_money) (auto simp: money_bound_def)
  with assms(2) rows show ?thesis by (simp add: readDocumentPayableAndSettled_def)
qed

text \<open>The exact check: the part fits into what is left of the document.\<close>

lemma remaining_check:
  assumes num: "settle_numbers s" and doc: "find_doc s d = Some doc" and a: "scaled 4 a"
    and ok: "assertWithinDocumentRemaining L s d a True = Inr ()"
  shows "a \<le> half_up (sd_payable doc - max 0 (paid_on s doc) - sd_returned doc) 4"
proof -
  have "doc \<in> set (sb_docs s)" using doc by (auto simp: find_doc_def dest: find_SomeD)
  with num have p: "scaled 8 (sd_payable doc)" "scaled 8 (sd_returned doc)" "\<bar>sd_payable doc\<bar> < 10 ^ 15" "\<bar>sd_returned doc\<bar> < 10 ^ 15"
    by (auto simp: settle_numbers_def)
  let ?s = "max 0 (paid_on s doc)"
  have eq: "(if paid_on s doc < 0 then 0 else paid_on s doc) = ?s" by (simp add: max_def)
  have s: "scaled 4 ?s" "\<bar>?s\<bar> < 2 * 10 ^ 18"
    using paid_sizes(1,2) [OF num, of doc] paid_sizes(3,4) [OF num, of "sd_id doc"]
    by (auto simp: paid_on_def max_def intro: scaled_add)
  then have s8: "scaled 8 ?s" using scaled_mono [of 4 ?s 8] by simp
  have 1: "fin_subtract L (sd_payable doc) ?s = sd_payable doc - ?s"
    using p s s8 by (intro subtract_scaled) (auto simp: abs_less_iff)
  have 2: "fin_subtract L (sd_payable doc - ?s) (sd_returned doc) = sd_payable doc - ?s - sd_returned doc"
    using p s s8 by (intro subtract_scaled) (auto simp: abs_less_iff intro: scaled_diff)
  have "\<not> fin_round L a 4 > fin_round L (sd_payable doc - ?s - sd_returned doc) 4"
    using ok by (auto simp: assertWithinDocumentRemaining_def read_exact [OF num doc] Let_def eq 1 2 split: if_splits)
  then show ?thesis using a by (simp add: round_half_up)
qed

lemma remaining_within:
  assumes "settle_numbers s" "a \<le> half_up (sd_payable doc - max 0 (paid_on s doc) - sd_returned doc) 4" "paid_on s' doc = paid_on s doc + a"
  shows "within_document s' doc"
proof -
  let ?x = "sd_payable doc - max 0 (paid_on s doc) - sd_returned doc"
  have "\<bar>half_up ?x 4 - ?x\<bar> \<le> 1 / 20000" using half_up_error [of ?x 4] by simp
  then have "half_up ?x 4 \<le> ?x + 1 / 20000" by linarith
  moreover have "half_up ?x 4 = ?x" if "scaled 4 (sd_payable doc - sd_returned doc)"
  proof -
    have "scaled 4 (max 0 (paid_on s doc))"
      using paid_sizes(1) [OF assms(1), of doc] paid_sizes(3) [OF assms(1), of "sd_id doc"] by (auto simp: paid_on_def max_def intro: scaled_add)
    then have "scaled 4 (sd_payable doc - sd_returned doc - max 0 (paid_on s doc))" using that by (rule scaled_diff [rotated])
    then show ?thesis by (simp add: algebra_simps)
  qed
  ultimately show ?thesis using assms(2,3) by (auto simp: within_document_def max_def split: if_splits)
qed

end

section \<open>Normalized parts\<close>

text \<open>Amounts as the routes pass them: four decimals and fourteen digits.\<close>

definition inputs_ok :: "alloc_input list \<Rightarrow> bool" where
  "inputs_ok ps \<longleftrightarrow> (\<forall>p \<in> set ps. scaled 4 (ai_amount p) \<and> \<bar>ai_amount p\<bar> < 10 ^ 15)"

definition sent_parts :: "alloc_input list \<Rightarrow> (nat \<times> rat) list" where
  "sent_parts ps = map (\<lambda>p. (nat (ai_doc p), ai_amount p)) ps"

lemma normalize_parts_spec:
  assumes "normalize_parts L seen ps = Inr out"
  shows "length out = length ps \<and> distinct (map fst out) \<and>
    (\<forall>(d, a) \<in> set out. 0 < a \<and> int d \<notin> set seen \<and> (\<exists>p \<in> set ps. ai_doc p = int d \<and> ai_amount p = a))"
  using assms
proof (induction ps arbitrary: seen out)
  case (Cons p ps)
  then obtain amount rest where p: "0 < ai_doc p" "ai_doc p \<notin> set seen" and a: "exactTreasuryAmount L (ai_amount p) = Inr amount"
    "0 < amount" and rest: "normalize_parts L (ai_doc p # seen) ps = Inr rest" "out = (nat (ai_doc p), amount) # rest"
    by (auto simp: res_bind_Inr split: if_splits)
  have "amount = ai_amount p" using a by (auto simp: exactTreasuryAmount_def Let_def split: if_splits)
  moreover note Cons.IH [OF rest(1)]
  ultimately show ?case using p a rest(2) by (fastforce simp: image_iff)
qed simp

lemma normalize_parts_sent: "normalize_parts L seen ps = Inr out \<Longrightarrow> out = sent_parts ps"
proof (induction ps arbitrary: seen out)
  case (Cons p ps)
  then obtain amount rest where a: "exactTreasuryAmount L (ai_amount p) = Inr amount"
    "0 < amount" and rest: "normalize_parts L (ai_doc p # seen) ps = Inr rest" "out = (nat (ai_doc p), amount) # rest"
    by (auto simp: res_bind_Inr split: if_splits)
  have "amount = ai_amount p" using a by (auto simp: exactTreasuryAmount_def Let_def split: if_splits)
  with Cons.IH [OF rest(1)] rest(2) show ?case by (simp add: sent_parts_def)
qed (simp add: sent_parts_def)

lemma sum_list_sort_key: "sum_list (map f (sort_key k xs)) = (sum_list (map f xs) :: rat)"
  by (metis mset_map mset_sort sum_mset_sum_list)

context decimal_js begin

lemma normalizeAllocations_spec:
  assumes "normalizeAllocations L ps amount = Inr out" "inputs_ok ps"
  shows "distinct (map fst out)" "\<forall>(d, a) \<in> set out. 0 < a \<and> scaled 4 a" "sum_list (map snd out) \<le> amount"
    "length out \<le> MAX_SETTLEMENT_PARTS" "sorted (map fst out)" "out = sort_key fst (sent_parts ps)"
    "\<bar>sum_list (map snd out)\<bar> < 10 ^ 18"
proof -
  from assms(1) obtain ns where ns: "normalize_parts L [] ps = Inr ns" and out: "out = sort_key fst ns"
    and le: "\<not> foldl (\<lambda>sum p. fin_add L sum (snd p)) 0 ns > amount" and len: "length ps \<le> MAX_SETTLEMENT_PARTS"
    by (auto simp: normalizeAllocations_def res_bind_Inr split: if_splits)
  note spec = normalize_parts_spec [OF ns]
  have a: "0 < a \<and> scaled 4 a \<and> \<bar>a\<bar> < 10 ^ 15" if "(d, a) \<in> set ns" for d a
    using spec that assms(2) by (fastforce simp: inputs_ok_def)
  have "sum_list (map (\<lambda>p. \<bar>snd p\<bar>) ns) \<le> sum_list (map (\<lambda>_. 10 ^ 15) ns)"
    using a by (intro sum_list_mono) force
  also have "\<dots> \<le> 50 * 10 ^ 15" using spec len by (simp add: sum_list_triv MAX_SETTLEMENT_PARTS_def)
  finally have size: "sum_list (map (\<lambda>p. \<bar>snd p\<bar>) ns) \<le> 50 * 10 ^ 15" .
  then have "foldl (\<lambda>sum p. fin_add L sum (snd p)) 0 ns = 0 + sum_list (map snd ns)"
    using a by (intro foldl_add_exact4) (auto simp: money_bound_def)
  with le show "sum_list (map snd out) \<le> amount" by (simp add: out sum_list_sort_key)
  show "distinct (map fst out)" using spec by (simp add: out distinct_map)
  show "\<forall>(d, a) \<in> set out. 0 < a \<and> scaled 4 a" using a by (auto simp: out)
  show "length out \<le> MAX_SETTLEMENT_PARTS" using spec len by (simp add: out)
  show "sorted (map fst out)" by (simp add: out)
  show "out = sort_key fst (sent_parts ps)" using normalize_parts_sent [OF ns] by (simp add: out)
  show "\<bar>sum_list (map snd out)\<bar> < 10 ^ 18"
    using abs_sum_le [of snd ns] size by (simp add: out sum_list_sort_key)
qed

end

section \<open>Writing checked parts\<close>

lemma check_member:
  assumes "lockAndCheckAllocationTargets L s src kept parts = Inr ()" "(d, a) \<in> set parts"
  shows "assertTreasuryDocumentLink s src d = Inr () \<and> assertWithinDocumentRemaining L s d a True = Inr ()"
  using assms
proof (induction parts)
  case (Cons p parts)
  then show ?case by (cases p) (auto simp: res_bind_Inr)
qed simp

lemma linked_document:
  assumes "assertTreasuryDocumentLink s src d = Inr ()"
  obtains doc where "find_doc s d = Some doc"
proof -
  from assms obtain x where "x \<in> set (sb_docs s)" "sd_id x = d"
    by (auto simp: assertTreasuryDocumentLink_def dest: find_SomeD split: option.splits)
  then have "find_doc s d \<noteq> None" by (auto simp: find_doc_def find_None_iff)
  then show thesis using that by blast
qed

text \<open>The source is live, and none of its parts is.\<close>

definition source_live :: "settle_db \<Rightarrow> part_source \<Rightarrow> bool" where
  "source_live s src = (case src of
     FromTreasury i \<Rightarrow> list_ex (\<lambda>r. tr_id r = i \<and> \<not> tr_deleted r \<and> tr_status r = ''completed'' \<and> tr_reversalOf r = None) (sb_rows s)
   | FromCheque i \<Rightarrow> list_ex (\<lambda>c. cq_id c = i \<and> \<not> cq_deleted c \<and> \<not> lapsed (cq_status c)) (sb_cheques s))"

lemma allocation_rows_spec:
  assumes "\<forall>(d, a) \<in> set parts. scaled 4 a"
  shows "map (\<lambda>p. (pt_doc p, pt_amount p)) (allocation_rows n src parts) = parts"
    "p \<in> set (allocation_rows n src parts) \<Longrightarrow> of_source src p \<and> \<not> pt_deleted p"
  using assms
  by (induction parts arbitrary: n) (auto simp: db_numeric4_def of_source_def split: part_source.splits)

lemma of_live_source:
  assumes "of_source src p" "\<not> pt_deleted p" "source_live s src"
  shows "liveAllocation s p"
proof (cases src)
  case (FromTreasury i)
  with assms show ?thesis by (force simp: of_source_def liveAllocation_def source_live_def list_ex_iff)
next
  case (FromCheque i)
  with assms show ?thesis by (force simp: of_source_def liveAllocation_def source_live_def list_ex_iff)
qed

lemma liveAllocation_insert [simp]: "liveAllocation (insertAllocations src parts s) p = liveAllocation s p"
  by (simp add: liveAllocation_def insertAllocations_def)

lemma sum_part: "distinct (map fst parts) \<Longrightarrow> (d, a) \<in> set parts \<Longrightarrow>
    sum_list (map snd (filter (\<lambda>p. fst p = d) parts)) = (a :: rat)"
proof (induction parts)
  case (Cons p parts)
  then show ?case
  proof (cases "p = (d, a)")
    case True
    with Cons.prems have "filter (\<lambda>p. fst p = d) parts = []" by (auto simp: filter_empty_conv)
    with True show ?thesis by simp
  next
    case False
    with Cons have "fst p \<noteq> d" by (auto simp: rev_image_eqI)
    with False Cons show ?thesis by auto
  qed
qed simp

lemma inserted_amount:
  assumes live: "source_live s src" and parts: "\<forall>(d, a) \<in> set parts. scaled 4 a" "distinct (map fst parts)" "(d, a) \<in> set parts"
  shows "allocatedAmountOf (insertAllocations src parts s) d = allocatedAmountOf s d + a"
proof -
  let ?new = "allocation_rows (sb_nextPart s) src parts"
  note spec = allocation_rows_spec [OF parts(1)]
  have "filter (\<lambda>p. pt_doc p = d \<and> liveAllocation s p) ?new = filter (\<lambda>p. pt_doc p = d) ?new"
    by (rule filter_cong) (use spec(2) of_live_source [OF _ _ live] in auto)
  moreover have "sum_list (map pt_amount (filter (\<lambda>p. pt_doc p = d) ?new)) =
      sum_list (map snd (filter (\<lambda>p. fst p = d) (map (\<lambda>p. (pt_doc p, pt_amount p)) ?new)))"
    by (simp add: filter_map comp_def)
  moreover have "\<dots> = a" unfolding spec(1) by (rule sum_part [OF parts(2,3)])
  moreover have "sb_parts (insertAllocations src parts s) = sb_parts s @ ?new" by (simp add: insertAllocations_def)
  ultimately show ?thesis unfolding allocatedAmountOf_def liveAllocation_insert by simp
qed

context decimal_js begin

lemma written_within_remaining:
  assumes num: "settle_numbers s" and live: "source_live s src"
    and check: "lockAndCheckAllocationTargets L s party kept parts = Inr ()"
    and parts: "\<forall>(d, a) \<in> set parts. 0 < a \<and> scaled 4 a" "distinct (map fst parts)" "(d, a) \<in> set parts"
  shows "\<exists>doc. find_doc (insertAllocations src parts s) d = Some doc \<and> within_document (insertAllocations src parts s) doc"
proof -
  note ok = check_member [OF check parts(3)]
  from linked_document [OF conjunct1 [OF ok]] obtain doc where doc: "find_doc s d = Some doc" .
  have id: "sd_id doc = d" using doc by (auto simp: find_doc_def dest: find_SomeD)
  have a: "scaled 4 a" "\<forall>(d, a) \<in> set parts. scaled 4 a" using parts by auto
  have "paid_directly (insertAllocations src parts s) doc = paid_directly s doc"
    by (simp add: paid_directly_def settlement_rows_def insertAllocations_def)
  then have "paid_on (insertAllocations src parts s) doc = paid_on s doc + a"
    using inserted_amount [OF live a(2) parts(2,3)] by (simp add: paid_on_def id)
  moreover have "find_doc (insertAllocations src parts s) d = Some doc" using doc by (simp add: find_doc_def insertAllocations_def)
  ultimately show ?thesis using remaining_within [OF num remaining_check [OF num doc a(1) conjunct2 [OF ok]]] by blast
qed

end

section \<open>The new set of parts of a source\<close>

definition own_parts :: "settle_db \<Rightarrow> part_source \<Rightarrow> part_row list" where
  "own_parts s src = filter (\<lambda>p. of_source src p \<and> \<not> pt_deleted p) (sb_parts s)"

definition other_parts :: "settle_db \<Rightarrow> part_source \<Rightarrow> part_row list" where
  "other_parts s src = filter (\<lambda>p. \<not> of_source src p) (sb_parts s)"

definition source_amount :: "settle_db \<Rightarrow> part_source \<Rightarrow> rat option" where
  "source_amount s src = (case src of
     FromTreasury i \<Rightarrow> map_option tr_amount (find_row s i)
   | FromCheque i \<Rightarrow> map_option cq_amount (find_cheque s i))"

lemma own_release: "own_parts (releaseSourceAllocations src s) src = []"
  by (auto simp: own_parts_def releaseSourceAllocations_def filter_empty_conv in_update_rows)

lemma other_release: "other_parts (releaseSourceAllocations src s) src = other_parts s src"
proof -
  have "filter (\<lambda>p. \<not> of_source src p) (update_rows (\<lambda>p. of_source src p \<and> \<not> pt_deleted p) (\<lambda>p. p\<lparr>pt_deleted := True\<rparr>) ps) =
      filter (\<lambda>p. \<not> of_source src p) ps" for ps
    by (induction ps) (auto simp: update_rows_def of_source_def split: part_source.splits)
  then show ?thesis by (simp add: other_parts_def releaseSourceAllocations_def)
qed

lemma numbers_release [simp]: "settle_numbers (releaseSourceAllocations src s) = settle_numbers s"
proof -
  have "map (\<lambda>p. \<bar>pt_amount p\<bar>) (update_rows Q (\<lambda>p. p\<lparr>pt_deleted := True\<rparr>) ps) = map (\<lambda>p. \<bar>pt_amount p\<bar>) ps"
    for Q and ps :: "part_row list" by (rule map_update_rows) simp
  moreover have "(\<forall>p \<in> set (update_rows Q (\<lambda>p. p\<lparr>pt_deleted := True\<rparr>) ps). scaled 4 (pt_amount p)) =
      (\<forall>p \<in> set ps. scaled 4 (pt_amount p))" for Q and ps :: "part_row list"
    by (induction ps) (auto simp: update_rows_def)
  ultimately show ?thesis by (simp add: settle_numbers_def releaseSourceAllocations_def)
qed

lemma numbers_unlink [simp]: "settle_numbers (unlink_row i s) = settle_numbers s"
proof -
  let ?u = "\<lambda>r. r\<lparr>tr_doc := None, tr_version := tr_version r + 1\<rparr>"
  have "map (\<lambda>r. \<bar>tr_amount r\<bar>) (update_rows Q ?u rs) = map (\<lambda>r. \<bar>tr_amount r\<bar>) rs"
    for Q and rs :: "treasury_row list" by (rule map_update_rows) simp
  moreover have "(\<forall>r \<in> set (update_rows Q ?u rs). scaled 4 (tr_amount r)) = (\<forall>r \<in> set rs. scaled 4 (tr_amount r))" for Q and rs :: "treasury_row list"
    by (induction rs) (auto simp: update_rows_def)
  ultimately show ?thesis by (simp add: settle_numbers_def unlink_row_def)
qed

lemma live_release [simp]: "source_live (releaseSourceAllocations src s) src' = source_live s src'"
  by (simp add: source_live_def releaseSourceAllocations_def split: part_source.splits)

lemma live_unlink:
  assumes "source_live s src"
  shows "source_live (unlink_row i s) src"
proof (cases src)
  case (FromTreasury j)
  let ?u = "\<lambda>r. if tr_id r = i then r\<lparr>tr_doc := None, tr_version := tr_version r + 1\<rparr> else r"
  from assms FromTreasury obtain r where r: "r \<in> set (sb_rows s)" "tr_id r = j" "\<not> tr_deleted r"
    "tr_status r = ''completed''" "tr_reversalOf r = None"
    by (auto simp: source_live_def list_ex_iff)
  then have "?u r \<in> set (sb_rows (unlink_row i s))" by (auto simp: unlink_row_def set_update_rows)
  with r FromTreasury show ?thesis unfolding source_live_def list_ex_iff by (auto intro!: bexI [of _ "?u r"] split: if_split_asm)
qed (use assms in \<open>simp add: source_live_def unlink_row_def\<close>)

lemma parts_unlink [simp]: "own_parts (unlink_row i s) = own_parts s" "other_parts (unlink_row i s) = other_parts s"
  by (rule ext, simp add: own_parts_def other_parts_def unlink_row_def)+

text \<open>What the write leaves: the sent parts, each within its document, under the source's amount.\<close>

definition parts_replaced :: "decimal_lib \<Rightarrow> part_source \<Rightarrow> rat \<Rightarrow> (nat \<times> rat) list \<Rightarrow> settle_db \<Rightarrow> settle_db \<Rightarrow> source_summary \<Rightarrow> bool" where
  "parts_replaced L src amount parts s s' r \<longleftrightarrow>
    map (\<lambda>p. (pt_doc p, pt_amount p)) (own_parts s' src) = parts \<and> (\<forall>p \<in> set (own_parts s' src). liveAllocation s' p) \<and>
    other_parts s' src = other_parts s src \<and>
    distinct (map fst parts) \<and> sum_list (map snd parts) \<le> amount \<and>
    (\<forall>(d, a) \<in> set parts. 0 < a \<and> (\<exists>doc. find_doc s' d = Some doc \<and> within_document s' doc)) \<and>
    ss_allocations r = parts \<and> ss_unallocated r = fin_toNumber L (amount - sum_list (map snd parts))"

lemma own_inserted:
  assumes "own_parts s src = []" "\<forall>(d, a) \<in> set parts. scaled 4 a"
  shows "own_parts (insertAllocations src parts s) src = allocation_rows (sb_nextPart s) src parts"
    "map (\<lambda>p. (pt_doc p, pt_amount p)) (allocation_rows (sb_nextPart s) src parts) = parts"
proof -
  note spec = allocation_rows_spec [OF assms(2)]
  show "map (\<lambda>p. (pt_doc p, pt_amount p)) (allocation_rows (sb_nextPart s) src parts) = parts" by (rule spec(1))
  have "filter (\<lambda>p. of_source src p \<and> \<not> pt_deleted p) (allocation_rows (sb_nextPart s) src parts)
      = allocation_rows (sb_nextPart s) src parts"
    using spec(2) by (simp add: filter_id_conv)
  with assms(1) show "own_parts (insertAllocations src parts s) src = allocation_rows (sb_nextPart s) src parts"
    by (simp add: own_parts_def insertAllocations_def)
qed

lemma other_inserted:
  assumes "\<forall>(d, a) \<in> set parts. scaled 4 a"
  shows "other_parts (insertAllocations src parts s) src = other_parts s src"
proof -
  have "filter (\<lambda>p. \<not> of_source src p) (allocation_rows (sb_nextPart s) src parts) = []"
    using allocation_rows_spec(2) [OF assms] by (simp add: filter_empty_conv)
  then show ?thesis by (simp add: other_parts_def insertAllocations_def)
qed

lemma views_of_own: "sourceAllocationViews s src = map (\<lambda>p. (pt_doc p, pt_amount p)) (sort_key pt_doc (own_parts s src))"
  by (simp add: sourceAllocationViews_def own_parts_def)

context decimal_js begin

lemma sourceSummary_spec:
  assumes "\<forall>(d, a) \<in> set parts. 0 < a \<and> scaled 4 a" "\<bar>sum_list (map snd parts)\<bar> < 10 ^ 18"
    and "scaled 4 amount" "\<bar>amount\<bar> < 10 ^ 18" "sum_list (map snd parts) \<le> amount"
  shows "sourceSummary L amount parts None =
    \<lparr>ss_amount = fin_toNumber L amount, ss_allocations = parts, ss_unallocated = fin_toNumber L (amount - sum_list (map snd parts))\<rparr>"
proof -
  have a: "\<And>p. p \<in> set parts \<Longrightarrow> 0 < snd p \<and> scaled 4 (snd p)" using assms(1) by auto
  have abs: "sum_list (map (\<lambda>p. \<bar>snd p\<bar>) parts) = sum_list (map snd parts)"
    using a by (intro arg_cong [where f = sum_list] map_cong refl) (simp add: abs_of_pos)
  have 1: "foldl (\<lambda>sum p. fin_add L sum (snd p)) 0 parts = 0 + sum_list (map snd parts)"
    using a assms(2) by (intro foldl_add_exact4) (auto simp: money_bound_def abs)
  have s: "scaled 4 (sum_list (map snd parts))" using a by (intro scaled_sum) auto
  have 2: "fin_add L (sum_list (map snd parts)) 0 = sum_list (map snd parts)"
    using s assms(2) add_money [of "sum_list (map snd parts)" 0] by (simp add: money_bound_def)
  have 3: "fin_subtract L amount (sum_list (map snd parts)) = amount - sum_list (map snd parts)"
    using s assms(2-4) by (intro subtract_money) (auto simp: money_bound_def)
  show ?thesis using assms(5) by (simp add: sourceSummary_def Let_def 1 2 3)
qed

lemma replaced_core:
  assumes num: "settle_numbers s" and live: "source_live s src" and own: "own_parts s src = []"
    and ps: "inputs_ok ps" "normalizeAllocations L ps amount = Inr parts"
    and amount: "scaled 4 amount" "\<bar>amount\<bar> < 10 ^ 18"
    and check: "lockAndCheckAllocationTargets L s party kept parts = Inr ()"
    and s': "s' = insertAllocations src parts s"
  shows "parts_replaced L src amount parts s s' (sourceSummary L amount (sourceAllocationViews s' src) None) \<and>
    parts = sort_key fst (sent_parts ps)"
proof -
  note n = normalizeAllocations_spec [OF ps(2,1)]
  have sc: "\<forall>(d, a) \<in> set parts. scaled 4 a" using n(2) by auto
  note new = own_inserted [OF own sc]
  have own': "own_parts s' src = allocation_rows (sb_nextPart s) src parts" using new(1) by (simp add: s')
  have "map pt_doc (allocation_rows (sb_nextPart s) src parts) = map fst parts"
    using arg_cong [OF new(2), of "map fst"] by (simp add: comp_def)
  then have "sort_key pt_doc (own_parts s' src) = own_parts s' src"
    using n(5) unfolding own' by (intro sort_key_id_if_sorted) simp
  then have views: "sourceAllocationViews s' src = parts" using new(2) by (simp add: views_of_own own')
  have "liveAllocation s' p" if "p \<in> set (own_parts s' src)" for p
    using that allocation_rows_spec(2) [OF sc, of p] of_live_source [OF _ _ live] by (simp add: own' s' [symmetric]) (simp add: s')
  moreover have "\<exists>doc. find_doc s' d = Some doc \<and> within_document s' doc"
    if "(d, a) \<in> set parts" for d a
    unfolding s' by (rule written_within_remaining [OF num live check n(2,1) that])
  moreover have "sourceSummary L amount parts None =
      \<lparr>ss_amount = fin_toNumber L amount, ss_allocations = parts, ss_unallocated = fin_toNumber L (amount - sum_list (map snd parts))\<rparr>"
    by (rule sourceSummary_spec [OF n(2,7) amount n(3)])
  ultimately show ?thesis
    using n(1-3,6) other_inserted [OF sc, of src s] new(2)
    unfolding parts_replaced_def views own' by (auto simp: s')
qed

end

lemma find_unlinked: "find_row (unlink_row i s) i = map_option (\<lambda>r. r\<lparr>tr_doc := None, tr_version := tr_version r + 1\<rparr>) (find_row s i)"
proof -
  have "List.find (\<lambda>r. tr_id r = i \<and> \<not> tr_deleted r)
      (update_rows (\<lambda>r. tr_id r = i) (\<lambda>r. r\<lparr>tr_doc := None, tr_version := tr_version r + 1\<rparr>) rs) =
    map_option (\<lambda>r. r\<lparr>tr_doc := None, tr_version := tr_version r + 1\<rparr>) (List.find (\<lambda>r. tr_id r = i \<and> \<not> tr_deleted r) rs)"
    for rs :: "treasury_row list" by (induction rs) (auto simp: update_rows_def)
  then show ?thesis by (simp add: find_row_def unlink_row_def)
qed

lemma find_row_unchanged [simp]:
  "find_row (releaseSourceAllocations src s) i = find_row s i" "find_row (insertAllocations src ps s) i = find_row s i"
  by (simp_all add: find_row_def releaseSourceAllocations_def insertAllocations_def)

text \<open>The stages of the two handlers.\<close>

lemma replaceTreasury_stages:
  assumes "replaceTreasuryAllocations L env i ps s = Inr (s', r)"
  obtains row parts party kept s2 where
    "find_row s i = Some row" "normalizeAllocations L ps (tr_amount row) = Inr parts"
    "tr_status row = ''completed''" "tr_reversalOf row = None"
    "s2 = (if tr_doc row \<noteq> None then unlink_row i (releaseSourceAllocations (FromTreasury i) s)
       else releaseSourceAllocations (FromTreasury i) s)"
    "lockAndCheckAllocationTargets L s2 party kept parts = Inr ()"
    "s' = insertAllocations (FromTreasury i) parts s2"
    "r = sourceSummary L (tr_amount row) (sourceAllocationViews s' (FromTreasury i)) None"
proof (cases "find_row s i")
  case None
  with assms show thesis by (simp add: replaceTreasuryAllocations_def)
next
  case (Some row)
  let ?s2 = "if tr_doc row \<noteq> None then unlink_row i (releaseSourceAllocations (FromTreasury i) s)
       else releaseSourceAllocations (FromTreasury i) s"
  from assms Some obtain parts where parts: "normalizeAllocations L ps (tr_amount row) = Inr parts"
    by (auto simp: replaceTreasuryAllocations_def res_bind_Inr)
  from assms obtain party kept where "tr_status row = ''completed''" "tr_reversalOf row = None"
    "lockAndCheckAllocationTargets L ?s2 party kept parts = Inr ()" "s' = insertAllocations (FromTreasury i) parts ?s2"
    "r = sourceSummary L (tr_amount row) (sourceAllocationViews s' (FromTreasury i)) None"
    unfolding replaceTreasuryAllocations_def Some Let_def
    by (simp only: option.case parts res_bind_simps res_bind_Inr split: if_split_asm) auto
  with Some parts show thesis using that by blast
qed

lemma replaceCheque_stages:
  assumes "replaceChequeAllocations L env i ps s = Inr (s', r)"
  obtains c parts party kept where
    "find_cheque s i = Some c" "\<not> lapsed (cq_status c)" "normalizeAllocations L ps (cq_amount c) = Inr parts"
    "lockAndCheckAllocationTargets L (releaseSourceAllocations (FromCheque i) s) party kept parts = Inr ()"
    "s' = insertAllocations (FromCheque i) parts (releaseSourceAllocations (FromCheque i) s)"
    "r = sourceSummary L (cq_amount c) (sourceAllocationViews s' (FromCheque i)) None"
proof (cases "find_cheque s i")
  case None
  with assms show thesis by (simp add: replaceChequeAllocations_def)
next
  case (Some c)
  from assms Some obtain parts where parts: "normalizeAllocations L ps (cq_amount c) = Inr parts" "\<not> lapsed (cq_status c)"
    by (auto simp: replaceChequeAllocations_def res_bind_Inr Let_def split: if_splits)
  let ?s1 = "releaseSourceAllocations (FromCheque i) s"
  from assms parts obtain party kept where
    "lockAndCheckAllocationTargets L ?s1 party kept parts = Inr ()" "s' = insertAllocations (FromCheque i) parts ?s1"
    "r = sourceSummary L (cq_amount c) (sourceAllocationViews s' (FromCheque i)) None"
    unfolding replaceChequeAllocations_def Some Let_def
    by (simp only: option.case parts res_bind_simps res_bind_Inr split: if_split_asm) auto
  with Some parts show thesis using that by blast
qed

context decimal_js begin

lemma replaced_treasury:
  assumes num: "settle_numbers s" and ps: "inputs_ok ps"
    and amount: "scaled 4 amount" "\<bar>amount\<bar> < 10 ^ 18" "source_amount s (FromTreasury i) = Some amount"
    and run: "replaceTreasuryAllocations L env i ps s = Inr (s', r)"
  shows "parts_replaced L (FromTreasury i) amount (sort_key fst (sent_parts ps)) s s' r \<and>
    (\<exists>row. find_row s' i = Some row \<and> tr_doc row = None)"
proof -
  let ?src = "FromTreasury i"
  obtain row parts party kept s2 where
    st: "find_row s i = Some row" "normalizeAllocations L ps (tr_amount row) = Inr parts"
    "tr_status row = ''completed''" "tr_reversalOf row = None"
    "s2 = (if tr_doc row \<noteq> None then unlink_row i (releaseSourceAllocations ?src s) else releaseSourceAllocations ?src s)"
    "lockAndCheckAllocationTargets L s2 party kept parts = Inr ()" "s' = insertAllocations ?src parts s2"
    "r = sourceSummary L (tr_amount row) (sourceAllocationViews s' ?src) None" by (rule replaceTreasury_stages [OF run])
  have amt: "tr_amount row = amount" using amount(3) st(1) by (simp add: source_amount_def)
  have "row \<in> set (sb_rows s) \<and> tr_id row = i \<and> \<not> tr_deleted row" using st(1) by (auto simp: find_row_def dest: find_SomeD)
  with st(3,4) have "source_live s ?src" unfolding source_live_def part_source.case list_ex_iff by blast
  then have live: "source_live s2 ?src" using live_unlink [of "releaseSourceAllocations ?src s" ?src i] by (simp add: st(5))
  have num2: "settle_numbers s2" using num by (simp add: st(5))
  have own: "own_parts s2 ?src = []" and other: "other_parts s2 ?src = other_parts s ?src"
    by (simp_all add: st(5) own_release other_release)
  have core: "parts_replaced L ?src amount parts s2 s' r \<and> parts = sort_key fst (sent_parts ps)"
    using replaced_core [OF num2 live own ps st(2) _ _ st(6,7)] amount(1,2) unfolding amt st(8) by blast
  have "parts_replaced L ?src amount parts s s' r" using conjunct1 [OF core] unfolding parts_replaced_def other .
  moreover have "find_row s' i = (if tr_doc row \<noteq> None then Some (row\<lparr>tr_doc := None, tr_version := tr_version row + 1\<rparr>) else Some row)"
    using st(1) by (simp add: st(5,7) find_unlinked)
  ultimately show ?thesis using conjunct2 [OF core] by auto
qed

lemma replaced_cheque:
  assumes num: "settle_numbers s" and ps: "inputs_ok ps"
    and amount: "scaled 4 amount" "\<bar>amount\<bar> < 10 ^ 18" "source_amount s (FromCheque i) = Some amount"
    and run: "replaceChequeAllocations L env i ps s = Inr (s', r)"
  shows "parts_replaced L (FromCheque i) amount (sort_key fst (sent_parts ps)) s s' r"
proof -
  let ?src = "FromCheque i" and ?s1 = "releaseSourceAllocations (FromCheque i) s"
  obtain c parts party kept where
    st: "find_cheque s i = Some c" "\<not> lapsed (cq_status c)" "normalizeAllocations L ps (cq_amount c) = Inr parts"
    "lockAndCheckAllocationTargets L ?s1 party kept parts = Inr ()" "s' = insertAllocations ?src parts ?s1"
    "r = sourceSummary L (cq_amount c) (sourceAllocationViews s' ?src) None" by (rule replaceCheque_stages [OF run])
  have amt: "cq_amount c = amount" using amount(3) st(1) by (simp add: source_amount_def)
  have "c \<in> set (sb_cheques s) \<and> cq_id c = i \<and> \<not> cq_deleted c" using st(1) by (auto simp: find_cheque_def dest: find_SomeD)
  with st(2) have "source_live s ?src" unfolding source_live_def part_source.case list_ex_iff by blast
  then have live: "source_live ?s1 ?src" by simp
  have num1: "settle_numbers ?s1" using num by simp
  have core: "parts_replaced L ?src amount parts ?s1 s' r \<and> parts = sort_key fst (sent_parts ps)"
    using replaced_core [OF num1 live own_release ps st(3) _ _ st(4,5)] amount(1,2) unfolding amt st(6) by blast
  have "parts_replaced L ?src amount parts s s' r" using conjunct1 [OF core] unfolding parts_replaced_def other_release .
  with conjunct2 [OF core] show ?thesis by simp
qed

end

text \<open>
  C25: the new set of parts of a receipt, payment or cheque. After
  \<open>PUT /accounting/settlement/...\<close> returns, the source's parts are the ones sent, in document order,
  one per document, each above zero and together at most the source's amount; every document with a
  part exists, and what is paid on it, with its returns, is at most its payable amount up to half of the fourth
  decimal (the precision of a part; exactly at most it when payable less returns has four decimals); the parts of
  other sources are as they were; a receipt or payment no longer has a direct link to a document; and
  the answer names the parts and the part of the amount left on account. Bounds: amounts of four decimals, payables
  and returns of eight below 10^15, sums of the amounts below 10^18.
\<close>

theorem settlement_parts_replaced:
  assumes "decimal_js L" and "settle_numbers s" "inputs_ok ps"
    and "source_amount s src = Some amount" "scaled 4 amount" "\<bar>amount\<bar> < 10 ^ 18"
    and "replaceSourceAllocations L env src ps s = Inr (s', r)"
  defines "parts \<equiv> sort_key fst (sent_parts ps)"
  shows "map (\<lambda>p. (pt_doc p, pt_amount p)) (own_parts s' src) = parts \<and> other_parts s' src = other_parts s src \<and>
    (\<forall>p \<in> set (own_parts s' src). liveAllocation s' p) \<and>
    distinct (map fst parts) \<and> sum_list (map snd parts) \<le> amount \<and>
    (\<forall>(d, a) \<in> set parts. 0 < a \<and>
      (\<exists>doc. find_doc s' d = Some doc \<and> paid_on s' doc + sd_returned doc \<le> sd_payable doc + 1 / 20000 \<and>
        (scaled 4 (sd_payable doc - sd_returned doc) \<longrightarrow> paid_on s' doc + sd_returned doc \<le> sd_payable doc))) \<and>
    (\<forall>i. src = FromTreasury i \<longrightarrow> (\<exists>row. find_row s' i = Some row \<and> tr_doc row = None)) \<and>
    ss_allocations r = parts \<and> ss_unallocated r = fin_toNumber L (amount - sum_list (map snd parts))"
proof (cases src)
  case (FromTreasury i)
  with assms decimal_js.replaced_treasury [OF assms(1-3,5,6), of i env s' r]
  show ?thesis by (auto simp: parts_replaced_def within_document_def replaceSourceAllocations_def)
next
  case (FromCheque i)
  with assms decimal_js.replaced_cheque [OF assms(1-3,5,6), of i env s' r]
  show ?thesis by (auto simp: parts_replaced_def within_document_def replaceSourceAllocations_def)
qed

section \<open>The forms' default split\<close>

text \<open>Amounts whose four decimals a JavaScript number holds exactly.\<close>

definition number4 :: "rat \<Rightarrow> bool" where
  "number4 x \<longleftrightarrow> scaled 4 x \<and> \<bar>x\<bar> < 10 ^ 11"

definition open_docs_ok :: "open_doc list \<Rightarrow> bool" where
  "open_docs_ok docs \<longleftrightarrow> distinct (map od_id docs) \<and>
    (\<forall>d \<in> set docs. number4 (od_allocatedHere d) \<and> number4 (od_remaining d + od_allocatedHere d) \<and> scaled 4 (od_remaining d))"

definition open_room :: "open_doc \<Rightarrow> rat" where
  "open_room d = (if isSettleableStatus (od_status d) then od_remaining d + od_allocatedHere d else od_allocatedHere d)"

context decimal_js begin

lemma settlementRoom_exact:
  assumes "open_docs_ok docs" "d \<in> set docs"
  shows "settlementRoom L d = open_room d" "number4 (open_room d)"
proof -
  from assms have n: "number4 (od_allocatedHere d)" "number4 (od_remaining d + od_allocatedHere d)" "scaled 4 (od_remaining d)"
    by (auto simp: open_docs_ok_def)
  show "number4 (open_room d)" using n by (simp add: open_room_def)
  then show "settlementRoom L d = open_room d"
    using n by (auto simp: settlementRoom_def open_room_def number4_def add_scaled4 number_round4)
qed

lemma fill_spec:
  assumes "open_docs_ok docs" "number4 left" "0 \<le> left"
  shows "sum_list (map ai_amount (fill_loop L docs left)) = min left (sum_list (map (\<lambda>d. max 0 (open_room d)) docs)) \<and>
    (\<forall>p \<in> set (fill_loop L docs left). 0 < ai_amount p \<and> scaled 4 (ai_amount p) \<and>
      (\<exists>d \<in> set docs. ai_doc p = od_id d \<and> ai_amount p \<le> open_room d)) \<and>
    subseq (map ai_doc (fill_loop L docs left)) (map od_id docs)"
  using assms
proof (induction docs arbitrary: left)
  case (Cons d ds)
  let ?r = "open_room d"
  from Cons.prems(1) have ok: "open_docs_ok ds" by (auto simp: open_docs_ok_def)
  from settlementRoom_exact [OF Cons.prems(1)] have r: "settlementRoom L d = ?r" "number4 ?r" by auto
  have rest: "0 \<le> sum_list (map (\<lambda>d. max 0 (open_room d)) ds)" by (rule sum_list_nonneg) auto
  show ?case
  proof (cases "0 < left \<and> 0 < ?r")
    case False
    then show ?thesis
      using Cons.IH [OF ok Cons.prems(2,3)] Cons.prems(3) rest r by (cases "0 < left") (auto simp: min_def)
  next
    case True
    let ?part = "if left > ?r then ?r else left"
    have n: "number4 ?part" "number4 (left - ?part)" "0 \<le> left - ?part"
      using True Cons.prems(2) r(2) by (auto simp: number4_def scaled_diff)
    then have step: "fill_loop L (d # ds) left = \<lparr>ai_doc = od_id d, ai_amount = ?part\<rparr> # fill_loop L ds (left - ?part)"
      using True Cons.prems(2) r by (simp add: Let_def number4_def toNumber_scaled subtract_scaled4)
    show ?thesis
      using Cons.IH [OF ok n(2,3)] True n(1) rest unfolding step by (auto simp: min_def number4_def split: if_splits)
  qed
qed simp

end

lemma fill_loop_0: "\<not> 0 < left \<Longrightarrow> fill_loop L docs left = []"
  by (cases docs) auto

context decimal_js begin

lemma fill_step:
  assumes "number4 left" "0 \<le> left" "open_docs_ok (d # ds)"
  defines "part \<equiv> if left > open_room d then open_room d else left"
  shows "fill_loop L (d # ds) left =
      (if 0 < left \<and> 0 < open_room d then \<lparr>ai_doc = od_id d, ai_amount = part\<rparr> # fill_loop L ds (left - part)
       else fill_loop L ds left) \<and> (0 < open_room d \<longrightarrow> number4 (left - part) \<and> 0 \<le> left - part)"
proof -
  have r: "settlementRoom L d = open_room d" "number4 (open_room d)" using settlementRoom_exact [OF assms(3)] by auto
  show ?thesis
  proof (cases "0 < left \<and> 0 < open_room d")
    case True
    then have n: "number4 part" "number4 (left - part)" "0 \<le> left - part"
      using assms(1) r(2) by (auto simp: part_def number4_def scaled_diff)
    then show ?thesis using True assms(1) r(1)
      by (simp add: part_def Let_def number4_def toNumber_scaled subtract_scaled4)
  next
    case False
    with assms(2) r(1) show ?thesis by (cases "0 < left") (auto simp: fill_loop_0 part_def number4_def)
  qed
qed

lemma fill_oldest:
  assumes "open_docs_ok (xs @ d # ys)" "number4 left" "0 \<le> left" "0 < open_room d"
    and "p \<in> set (fill_loop L (xs @ d # ys) left)" "ai_doc p \<in> set (map od_id ys)"
  shows "\<lparr>ai_doc = od_id d, ai_amount = open_room d\<rparr> \<in> set (fill_loop L (xs @ d # ys) left)"
  using assms
proof (induction xs arbitrary: left)
  case Nil
  note st = fill_step [OF Nil.prems(2,3), of d ys]
  have "ai_doc p \<noteq> od_id d" using Nil.prems(1,6) by (auto simp: open_docs_ok_def)
  with Nil.prems st show ?case by (cases "left > open_room d") (auto simp: fill_loop_0 split: if_splits)
next
  case (Cons x xs)
  note st = fill_step [OF Cons.prems(2,3), of x "xs @ d # ys"]
  have ok: "open_docs_ok (xs @ d # ys)" "open_docs_ok (x # xs @ d # ys)" using Cons.prems(1) by (auto simp: open_docs_ok_def)
  have "ai_doc p \<noteq> od_id x" using Cons.prems(1,6) by (auto simp: open_docs_ok_def)
  moreover note Cons.IH [OF ok(1) _ _ Cons.prems(4) _ Cons.prems(6)]
  ultimately show ?case using Cons.prems(2,3,5) st ok(2) by (auto split: if_splits)
qed

lemma fill_total:
  assumes "open_docs_ok docs" "number4 amount" "0 \<le> amount"
  shows "allocationTotal L (fill_loop L docs amount) = min amount (sum_list (map (\<lambda>d. max 0 (open_room d)) docs))"
proof -
  let ?ps = "fill_loop L docs amount"
  note spec = fill_spec [OF assms]
  have abs: "sum_list (map (\<lambda>p. \<bar>ai_amount p\<bar>) ?ps) = sum_list (map ai_amount ?ps)"
    using spec by (intro arg_cong [where f = sum_list] map_cong refl) (simp add: abs_of_pos)
  have le: "sum_list (map ai_amount ?ps) \<le> amount" using spec by simp
  have nn: "0 \<le> sum_list (map ai_amount ?ps)" using spec by (intro sum_list_nonneg) (auto simp: less_imp_le)
  have "foldl (\<lambda>sum p. fin_add L sum (ai_amount p)) 0 ?ps = 0 + sum_list (map ai_amount ?ps)"
    using spec assms(2) le by (intro foldl_add_exact4) (auto simp: abs money_bound_def number4_def)
  moreover have "scaled 4 (sum_list (map ai_amount ?ps))" using spec by (intro scaled_sum) auto
  from this have "fin_toNumber L (sum_list (map ai_amount ?ps)) = sum_list (map ai_amount ?ps)"
    using le nn assms(2) by (intro toNumber_scaled) (auto simp: number4_def)
  ultimately show ?thesis using spec by (simp add: allocationTotal_def)
qed

lemma fill_no_part_problem:
  assumes "open_docs_ok docs" "\<forall>p \<in> set ps. \<exists>d \<in> set docs. ai_doc p = od_id d \<and> ai_amount p \<le> open_room d"
  shows "part_problem L docs ps = None"
  using assms(2)
proof (induction ps)
  case (Cons p ps)
  then obtain d where d: "d \<in> set docs" "ai_doc p = od_id d" "ai_amount p \<le> open_room d" by auto
  then have "List.find (\<lambda>x. od_id x = ai_doc p) docs = Some d"
    using find_by_key [of od_id docs d] assms(1) by (simp add: open_docs_ok_def)
  with d Cons settlementRoom_exact(1) [OF assms(1) d(1)] show ?case by simp
qed simp

end

text \<open>
  C26: the split a form proposes. Placing an amount on the open documents oldest first gives each
  document at most its room, uses up the amount or all room, and gives a later document a part only
  when every earlier one got its whole room; the form's own check then refuses it exactly when it has
  more than \<open>MAX_SETTLEMENT_PARTS\<close> parts.
\<close>

theorem default_split_oldest_first:
  assumes "decimal_js L" and "open_docs_ok docs" "number4 amount" "0 \<le> amount"
    and "parts = settlementPartsFor L ModeOldest docs amount manual"
  shows "allocationTotal L parts = min amount (sum_list (map (\<lambda>d. max 0 (open_room d)) docs)) \<and>
    (\<forall>p \<in> set parts. 0 < ai_amount p \<and> (\<exists>d \<in> set docs. ai_doc p = od_id d \<and> ai_amount p \<le> open_room d)) \<and>
    subseq (map ai_doc parts) (map od_id docs) \<and>
    (\<forall>xs d ys p. docs = xs @ d # ys \<longrightarrow> 0 < open_room d \<longrightarrow> p \<in> set parts \<longrightarrow> ai_doc p \<in> set (map od_id ys) \<longrightarrow>
      \<lparr>ai_doc = od_id d, ai_amount = open_room d\<rparr> \<in> set parts) \<and>
    settlementPartsProblem L parts amount docs = (if length parts > MAX_SETTLEMENT_PARTS then Some TooManyParts else None)"
proof -
  have p: "parts = fill_loop L docs amount" by (simp add: assms(5) settlementPartsFor_def fillOldestFirst_def)
  note spec = decimal_js.fill_spec [OF assms(1-4)] and tot = decimal_js.fill_total [OF assms(1-4)]
  have "part_problem L docs parts = None"
    unfolding p by (rule decimal_js.fill_no_part_problem [OF assms(1,2)]) (use spec in blast)
  then have "settlementPartsProblem L parts amount docs = (if length parts > MAX_SETTLEMENT_PARTS then Some TooManyParts else None)"
    using tot by (simp add: settlementPartsProblem_def p)
  moreover have "\<lparr>ai_doc = od_id d, ai_amount = open_room d\<rparr> \<in> set parts"
    if "docs = xs @ d # ys" "0 < open_room d" "q \<in> set parts" "ai_doc q \<in> set (map od_id ys)" for xs d ys q
    using decimal_js.fill_oldest [OF assms(1) _ assms(3,4) that(2), of xs ys q] that assms(2) unfolding p by simp
  ultimately show ?thesis using spec tot unfolding p by blast
qed

lemma default_split_oldest_first_witness:
  "settlementPartsProblem ref_lib (settlementPartsFor ref_lib ModeOldest
      [\<lparr>od_id = 1, od_status = Some ''final'', od_remaining = 100, od_allocatedHere = 0\<rparr>,
       \<lparr>od_id = 2, od_status = Some ''draft'', od_remaining = 50, od_allocatedHere = 0\<rparr>] 120 []) 120
      [\<lparr>od_id = 1, od_status = Some ''final'', od_remaining = 100, od_allocatedHere = 0\<rparr>,
       \<lparr>od_id = 2, od_status = Some ''draft'', od_remaining = 50, od_allocatedHere = 0\<rparr>] = None"
proof -
  let ?docs = "[\<lparr>od_id = 1, od_status = Some ''final'', od_remaining = 100, od_allocatedHere = 0\<rparr>,
       \<lparr>od_id = 2, od_status = Some ''draft'', od_remaining = 50, od_allocatedHere = 0\<rparr>] :: open_doc list"
  have "open_docs_ok ?docs" "number4 120" by (simp_all add: open_docs_ok_def number4_def)
  note t = default_split_oldest_first [OF ref.decimal_js_axioms this _ refl, of "[]"]
  then have "length (settlementPartsFor ref_lib ModeOldest ?docs 120 []) \<le> 2"
    using list_emb_length [of "(=)" _ "map od_id ?docs"] by fastforce
  with t show ?thesis by (simp add: MAX_SETTLEMENT_PARTS_def)
qed

text \<open>A receipt of 60 put on an invoice of 100.\<close>

definition demo_settle :: settle_db where
  "demo_settle = \<lparr>sb_docs = [\<lparr>sd_id = 4, sd_type = ''invoice'', sd_status = Some ''final'', sd_deleted = False, sd_party = Some 5,
      sd_buyer = '''', sd_currency = ''IRR'', sd_payable = 1200003 / 20000, sd_returned = 0\<rparr>],
    sb_rows = [\<lparr>tr_id = 7, tr_type = ''receipt'', tr_status = ''completed'', tr_reversalOf = None, tr_payroll = None, tr_amount = 300001 / 5000,
      tr_partyType = ''customer'', tr_party = Some 5, tr_partyName = '''', tr_currency = ''IRR'', tr_doc = None, tr_day = 10,
      tr_deleted = False, tr_version = 1\<rparr>],
    sb_cheques = [], sb_parts = [], sb_nextPart = 2\<rparr>"

definition demo_settle_env :: settle_env where
  "demo_settle_env = \<lparr>le_partyName = (\<lambda>_ _. Inr None), le_closed = (\<lambda>_. False)\<rparr>"

lemma demo_settle_scaled: "scaled 4 (300001 / 5000)" "scaled 8 (1200003 / 20000)" "scaled 8 0" "scaled 4 0"
  by (simp_all add: scaled_def)

lemma demo_settle_numbers:
  "fin_toNumber ref_lib (300001 / 5000) = 300001 / 5000" "fin_toNumber ref_lib 0 = 0"
  "fin_add ref_lib 0 (300001 / 5000) = 300001 / 5000" "fin_add ref_lib (300001 / 5000) 0 = 300001 / 5000"
  "fin_add ref_lib 0 0 = 0" "fin_subtract ref_lib (300001 / 5000) (300001 / 5000) = 0"
  "fin_subtract ref_lib (1200003 / 20000) 0 = 1200003 / 20000" "half_up (300001 / 5000) 4 = 300001 / 5000"
  "half_up (1200003 / 20000) 4 = 300001 / 5000"
proof -
  note s = demo_settle_scaled
  from s show "fin_toNumber ref_lib (300001 / 5000) = 300001 / 5000" "fin_toNumber ref_lib 0 = 0"
    "fin_add ref_lib 0 (300001 / 5000) = 300001 / 5000" "fin_add ref_lib (300001 / 5000) 0 = 300001 / 5000"
    "fin_add ref_lib 0 0 = 0" "fin_subtract ref_lib (300001 / 5000) (300001 / 5000) = 0"
    "fin_subtract ref_lib (1200003 / 20000) 0 = 1200003 / 20000" "half_up (300001 / 5000) 4 = 300001 / 5000"
    by (simp_all add: ref.toNumber_scaled ref.add_scaled4 ref.subtract_scaled4 ref.subtract_scaled)
  show "half_up (1200003 / 20000) 4 = 300001 / 5000" by code_simp
qed

lemma demo_settled:
  "replaceSourceAllocations ref_lib demo_settle_env (FromTreasury 7) [\<lparr>ai_doc = 4, ai_amount = 300001 / 5000\<rparr>] demo_settle =
    Inr (insertAllocations (FromTreasury 7) [(4, 300001 / 5000)] demo_settle,
      \<lparr>ss_amount = 300001 / 5000, ss_allocations = [(4, 300001 / 5000)], ss_unallocated = 0\<rparr>)"
proof -
  let ?s = demo_settle and ?src = "FromTreasury 7"
  have n: "normalizeAllocations ref_lib [\<lparr>ai_doc = 4, ai_amount = 300001 / 5000\<rparr>] (300001 / 5000) = Inr [(4, 300001 / 5000)]"
    by (simp add: normalizeAllocations_def MAX_SETTLEMENT_PARTS_def exactTreasuryAmount_def Let_def demo_settle_numbers)
  have rel: "releaseSourceAllocations ?src ?s = ?s" by (simp add: releaseSourceAllocations_def demo_settle_def)
  have views: "sourceAllocationViews ?s ?src = []" by (simp add: sourceAllocationViews_def demo_settle_def)
  have check: "lockAndCheckAllocationTargets ref_lib ?s p kept [(4, 300001 / 5000)] = Inr ()"
    if p: "p = \<lparr>sp_direction = PayReceipt, sp_partyType = ''customer'', sp_party = Some 5, sp_partyName = n, sp_currency = ''IRR''\<rparr>"
    for p kept n
    by (simp add: p demo_settle_def assertTreasuryDocumentLink_def assertSettleableDocumentStatus_def find_doc_def
        assertWithinDocumentRemaining_def readDocumentPayableAndSettled_def settlement_rows_def settledAmount_def
        allocatedAmountOf_def RECEIPT_DOCUMENT_TYPES_def SETTLEABLE_DOCUMENT_STATUSES_def PURCHASE_SETTLED_TYPES_def
        ref.round_half_up demo_settle_numbers Let_def)
  have views': "sourceAllocationViews (insertAllocations ?src [(4, 300001 / 5000)] ?s) ?src = [(4, 300001 / 5000)]"
    by (simp add: sourceAllocationViews_def insertAllocations_def demo_settle_def of_source_def db_numeric4_def demo_settle_numbers)
  have row: "find_row ?s 7 = Some (hd (sb_rows ?s))" by (simp add: find_row_def demo_settle_def)
  show ?thesis
    unfolding replaceSourceAllocations_def replaceTreasuryAllocations_def part_source.case row option.case
    using n check by (simp add: rel views views' treasury_party_def named_party_def demo_settle_env_def
        assertAllocatableParty_def sourceSummary_def demo_settle_numbers Let_def demo_settle_def [THEN arg_cong [where f = sb_rows]])
qed

lemma settlement_parts_replaced_witness:
  "\<exists>doc. find_doc (insertAllocations (FromTreasury 7) [(4, 300001 / 5000)] demo_settle) 4 = Some doc \<and>
    paid_on (insertAllocations (FromTreasury 7) [(4, 300001 / 5000)] demo_settle) doc + sd_returned doc \<le> sd_payable doc + 1 / 20000"
proof -
  have "settle_numbers demo_settle" "inputs_ok [\<lparr>ai_doc = 4, ai_amount = 300001 / 5000\<rparr>]" "source_amount demo_settle (FromTreasury 7) = Some (300001 / 5000)"
    by (simp_all add: settle_numbers_def inputs_ok_def source_amount_def find_row_def demo_settle_def demo_settle_scaled)
  from settlement_parts_replaced [OF ref.decimal_js_axioms this demo_settle_scaled(1) _ demo_settled] show ?thesis
    by (auto simp: sent_parts_def)
qed

end
