(* ===== verification/Json.thy ===== *)
theory Json
  imports Prelude Complex_Main
begin

text \<open>
  JSON values as the server reads them from \<open>jsonb\<close> columns and requests. An object is the list of
  its members in order, with each key once; \<open>null\<close> and a missing value are both \<open>JNull\<close>.
\<close>

datatype json = JNull | JBool bool | JNum rat | JStr string | JArr "json list" | JObj "(string \<times> json) list"

text \<open>JavaScript truthiness (\<open>a || b\<close>, \<open>!a\<close>).\<close>

fun js_truthy :: "json \<Rightarrow> bool" where
  "js_truthy JNull = False"
| "js_truthy (JBool b) = b"
| "js_truthy (JNum n) = (n \<noteq> 0)"
| "js_truthy (JStr s) = (s \<noteq> '''')"
| "js_truthy (JArr _) = True"
| "js_truthy (JObj _) = True"

definition js_or :: "json \<Rightarrow> json \<Rightarrow> json" where
  "js_or a b = (if js_truthy a then a else b)"

text \<open>Member access; a value that is not an object has no members.\<close>

fun js_get :: "json \<Rightarrow> string \<Rightarrow> json" where
  "js_get (JObj ms) k = (case map_of ms k of Some v \<Rightarrow> v | None \<Rightarrow> JNull)"
| "js_get _ k = JNull"

fun member_put :: "string \<Rightarrow> json \<Rightarrow> (string \<times> json) list \<Rightarrow> (string \<times> json) list" where
  "member_put k v [] = [(k, v)]"
| "member_put k v ((k', v') # ms) = (if k' = k then (k, v) # ms else (k', v') # member_put k v ms)"

text \<open>\<open>{ ...obj, k: v }\<close>: spreading a value that is not an object gives no members.\<close>

fun js_put :: "json \<Rightarrow> string \<Rightarrow> json \<Rightarrow> json" where
  "js_put (JObj ms) k v = JObj (member_put k v ms)"
| "js_put _ k v = JObj [(k, v)]"

fun js_is_object :: "json \<Rightarrow> bool" where
  "js_is_object (JObj _) = True"
| "js_is_object _ = False"

lemma map_of_member_put [simp]: "map_of (member_put k v ms) = (map_of ms)(k \<mapsto> v)"
  by (induction ms) auto

lemma js_get_put [simp]: "js_get (js_put obj k v) k' = (if k' = k then v else js_get obj k')"
  by (cases obj) auto

lemma truthy_put [simp]: "js_truthy (js_put obj k v)" "js_is_object (js_put obj k v)"
  by (cases obj; simp)+

lemma truthy_or [simp]: "js_truthy (js_or a b) \<longleftrightarrow> js_truthy a \<or> js_truthy b"
  by (simp add: js_or_def)

end
