(* ===== verification/EventBus.thy ===== *)
theory EventBus
  imports Json
begin

text \<open>
  The in-memory event bus (\<open>src/services/events/domainEventBus.ts\<close>) and the contract of an event
  (\<open>domainEvents.ts\<close>). A handler is its name; what the handlers of a dispatch answer is an argument
  of the dispatch: \<open>None\<close> for one that resolves, \<open>Some message\<close> for one that throws. Log lines are left out.

  A dispatch is a contract between the bus and whoever retries it (the outbox and the dead-letter
  queue): the locale \<open>tracked_dispatch\<close> states it, and its retry lemmas are about any bus that keeps it.
\<close>

section \<open>Events\<close>

text \<open>The time of an event in milliseconds; \<open>None\<close> when it is missing or no date.\<close>

record domain_event =
  de_id :: string
  de_type :: string
  de_aggType :: string
  de_aggId :: string
  de_payload :: json
  de_meta :: json
  de_occurred :: "int option"

datatype event_problem = NoEventId | NoEventType | NoAggregateType | BadOccurredAt | NoMetadata | NoTimestamp

fun is_text :: "json \<Rightarrow> bool" where
  "is_text (JStr s) = (s \<noteq> '''')"
| "is_text _ = False"

fun is_compound :: "json \<Rightarrow> bool" where
  "is_compound (JObj _) = True"
| "is_compound (JArr _) = True"
| "is_compound _ = False"

definition validateDomainEvent :: "domain_event \<Rightarrow> event_problem list" where
  "validateDomainEvent e =
    (if de_id e = '''' then [NoEventId] else []) @
    (if de_type e = '''' then [NoEventType] else []) @
    (if de_aggType e = '''' then [NoAggregateType] else []) @
    (if de_occurred e = None then [BadOccurredAt] else []) @
    (if \<not> is_compound (de_meta e) then [NoMetadata]
     else if \<not> is_text (js_get (de_meta e) ''timestamp'') then [NoTimestamp] else [])"

section \<open>The bus\<close>

record event_bus =
  bus_handlers :: "string \<Rightarrow> string list"
  bus_recent :: "domain_event list"
  bus_counts :: "string \<Rightarrow> nat"

definition LIVE_EVENT_BUFFER_SIZE :: nat where
  "LIVE_EVENT_BUFFER_SIZE = 200"

definition recordStats :: "domain_event \<Rightarrow> event_bus \<Rightarrow> event_bus" where
  "recordStats e bus =
    (let recent = e # bus_recent bus
     in bus\<lparr>bus_recent := (if length recent > LIVE_EVENT_BUFFER_SIZE then butlast recent else recent),
            bus_counts := (bus_counts bus)(de_type e := bus_counts bus (de_type e) + 1)\<rparr>)"

definition registerHandler :: "string \<Rightarrow> string \<Rightarrow> event_bus \<Rightarrow> event_bus \<times> string" where
  "registerHandler eventType name bus =
    (let registered = bus_handlers bus eventType;
         handlerName = (if name = '''' then eventType @ ''#'' @ show_nat (length registered + 1) else name)
     in (bus\<lparr>bus_handlers := (bus_handlers bus)(eventType := registered @ [handlerName])\<rparr>, handlerName))"

definition ALL_EVENTS :: string where
  "ALL_EVENTS = ''*''"

definition subscribe :: "string \<Rightarrow> string \<Rightarrow> event_bus \<Rightarrow> event_bus" where
  "subscribe eventType name bus = fst (registerHandler eventType name bus)"

definition subscribeAll :: "string \<Rightarrow> event_bus \<Rightarrow> event_bus" where
  "subscribeAll name bus = fst (registerHandler ALL_EVENTS name bus)"

definition handlers_of :: "event_bus \<Rightarrow> domain_event \<Rightarrow> string list" where
  "handlers_of bus e = bus_handlers bus (de_type e) @ bus_handlers bus ALL_EVENTS"

text \<open>\<open>publish\<close>: the handlers that run; an event that breaks the contract runs none, and no error reaches the caller.\<close>

definition publish :: "domain_event \<Rightarrow> event_bus \<Rightarrow> event_bus \<times> string list" where
  "publish e bus = (if validateDomainEvent e \<noteq> [] then (bus, []) else (recordStats e bus, handlers_of bus e))"

text \<open>A JavaScript \<open>Set\<close> of names: in the order they were added.\<close>

definition set_add :: "string \<Rightarrow> string list \<Rightarrow> string list" where
  "set_add x xs = (if x \<in> set xs then xs else xs @ [x])"

definition set_of :: "string list \<Rightarrow> string list" where
  "set_of xs = foldl (\<lambda>s x. set_add x s) [] xs"

record dispatch_result =
  dr_completed :: "string list"
  dr_failures :: "(string \<times> string) list"

definition dispatch_targets :: "event_bus \<Rightarrow> domain_event \<Rightarrow> string list \<Rightarrow> string list" where
  "dispatch_targets bus e already = filter (\<lambda>h. h \<notin> set (set_of already)) (handlers_of bus e)"

text \<open>The results in order: a handler that resolved is done, one that threw is a failure.\<close>

fun collect_results :: "string list \<Rightarrow> string list \<Rightarrow> (nat \<Rightarrow> string option) \<Rightarrow> nat \<Rightarrow> dispatch_result" where
  "collect_results dones [] answers i = \<lparr>dr_completed = dones, dr_failures = []\<rparr>"
| "collect_results dones (h # hs) answers i =
    (case answers i of
       None \<Rightarrow> collect_results (set_add h dones) hs answers (i + 1)
     | Some err \<Rightarrow>
         let r = collect_results dones hs answers (i + 1) in r\<lparr>dr_failures := (h, err) # dr_failures r\<rparr>)"

definition dispatchTracked ::
    "event_bus \<Rightarrow> domain_event \<Rightarrow> string list \<Rightarrow> (nat \<Rightarrow> string option) \<Rightarrow> event_bus \<times> (event_problem list + dispatch_result)" where
  "dispatchTracked bus e already answers =
    (if validateDomainEvent e \<noteq> [] then (bus, Inl (validateDomainEvent e))
     else (recordStats e bus, Inr (collect_results (set_of already) (dispatch_targets bus e already) answers 0)))"

section \<open>What a dispatch promises\<close>

lemma set_set_add [simp]: "set (set_add x xs) = insert x (set xs)"
  by (auto simp: set_add_def)

lemma set_set_of [simp]: "set (set_of xs) = set xs"
proof -
  have "set (foldl (\<lambda>s x. set_add x s) acc xs) = set acc \<union> set xs" for acc
    by (induction xs arbitrary: acc) auto
  then show ?thesis by (simp add: set_of_def)
qed

lemma distinct_set_of [simp]: "distinct (set_of xs)"
proof -
  have "distinct acc \<Longrightarrow> distinct (foldl (\<lambda>s x. set_add x s) acc xs)" for acc
    by (induction xs arbitrary: acc) (auto simp: set_add_def)
  then show ?thesis by (simp add: set_of_def)
qed

lemma collect_completed:
  "set (dr_completed (collect_results dones hs answers i)) =
    set dones \<union> {hs ! j | j. j < length hs \<and> answers (i + j) = None}"
proof (induction hs arbitrary: dones i)
  case (Cons h hs)
  have split: "{(h # hs) ! j | j. j < length (h # hs) \<and> answers (i + j) = None} =
      (if answers i = None then {h} else {}) \<union> {hs ! j | j. j < length hs \<and> answers (i + 1 + j) = None}" (is "?A = ?B")
  proof (rule set_eqI, rule iffI)
    fix x assume "x \<in> ?A"
    then obtain j where j: "x = (h # hs) ! j" "j < length (h # hs)" "answers (i + j) = None" by blast
    then show "x \<in> ?B" by (cases j) auto
  next
    fix x assume "x \<in> ?B"
    then consider "x = h" "answers i = None" | k where "x = hs ! k" "k < length hs" "answers (i + 1 + k) = None"
      by (auto split: if_splits)
    then show "x \<in> ?A"
    proof cases
      case 1 then show ?thesis by (intro CollectI exI [of _ 0]) auto
    next
      case (2 k) then show ?thesis by (intro CollectI exI [of _ "Suc k"]) auto
    qed
  qed
  show ?case unfolding split by (cases "answers i") (auto simp: Cons.IH Let_def)
qed simp

lemma collect_failures:
  "dr_failures (collect_results dones hs answers i) = [] \<longleftrightarrow> (\<forall>j < length hs. answers (i + j) = None)"
  by (induction hs arbitrary: dones i) (auto simp: Let_def All_less_Suc2 split: option.splits)

section \<open>Retrying a dispatch\<close>

text \<open>
  Whoever retries an event keeps the names of the handlers that have resolved. \<open>tried\<close> names the
  handlers a dispatch runs.
\<close>

locale tracked_dispatch =
  fixes handlers :: "'e \<Rightarrow> string list"
    and tried :: "'e \<Rightarrow> string list \<Rightarrow> string list"
    and run :: "'e \<Rightarrow> string list \<Rightarrow> (nat \<Rightarrow> string option) \<Rightarrow> 'x + dispatch_result"
  assumes tried_new: "h \<in> set (tried e kept) \<longleftrightarrow> h \<in> set (handlers e) \<and> h \<notin> set kept"
    and completed: "run e kept a = Inr r \<Longrightarrow>
      set (dr_completed r) = set kept \<union> {tried e kept ! j | j. j < length (tried e kept) \<and> a j = None}"
    and resolved: "run e kept a = Inr r \<Longrightarrow> dr_failures r = [] \<longleftrightarrow> (\<forall>j < length (tried e kept). a j = None)"
begin

lemma kept_stay: "run e kept a = Inr r \<Longrightarrow> set kept \<subseteq> set (dr_completed r)"
  by (auto simp: completed)

lemma completed_known: "run e kept a = Inr r \<Longrightarrow> set (dr_completed r) \<subseteq> set kept \<union> set (handlers e)"
  using tried_new [of _ e kept] by (auto simp: completed dest: nth_mem)

lemma no_failure_all_resolved:
  assumes "run e kept a = Inr r" "dr_failures r = []"
  shows "set (dr_completed r) = set kept \<union> set (handlers e)"
proof
  show "set (dr_completed r) \<subseteq> set kept \<union> set (handlers e)" using completed_known [OF assms(1)] .
next
  have all: "\<forall>j < length (tried e kept). a j = None" using assms resolved by blast
  have "h \<in> set (dr_completed r)" if h: "h \<in> set (handlers e)" "h \<notin> set kept" for h
  proof -
    from h have "h \<in> set (tried e kept)" by (simp add: tried_new)
    then obtain j where "j < length (tried e kept)" "tried e kept ! j = h" by (auto simp: in_set_conv_nth)
    with all show ?thesis unfolding completed [OF assms(1)] by blast
  qed
  then show "set kept \<union> set (handlers e) \<subseteq> set (dr_completed r)" using kept_stay [OF assms(1)] by blast
qed

text \<open>A sequence of attempts, each with the names the earlier ones kept.\<close>

fun retried :: "'e \<Rightarrow> string list \<Rightarrow> (nat \<Rightarrow> string option) list \<Rightarrow> string list" where
  "retried e kept [] = kept"
| "retried e kept (a # as) = retried e (case run e kept a of Inl _ \<Rightarrow> kept | Inr r \<Rightarrow> dr_completed r) as"

lemma retried_keeps: "set kept \<subseteq> set (retried e kept as)"
proof (induction as arbitrary: kept)
  case (Cons a as)
  have "set kept \<subseteq> set (case run e kept a of Inl _ \<Rightarrow> kept | Inr r \<Rightarrow> dr_completed r)"
    by (cases "run e kept a") (auto dest: kept_stay)
  then show ?case using Cons.IH by fastforce
qed simp

lemma resolved_never_again:
  assumes "run e kept a = Inr r" "j < length (tried e kept)" "a j = None"
  shows "tried e kept ! j \<notin> set (tried e (retried e (dr_completed r) as))"
proof -
  have "tried e kept ! j \<in> set (dr_completed r)" unfolding completed [OF assms(1)] using assms(2,3) by blast
  then show ?thesis using retried_keeps by (auto simp: tried_new)
qed

end

interpretation bus: tracked_dispatch "handlers_of bus" "dispatch_targets bus" "\<lambda>e kept a. snd (dispatchTracked bus e kept a)"
  for bus
proof
  show "h \<in> set (dispatch_targets bus e kept) \<longleftrightarrow> h \<in> set (handlers_of bus e) \<and> h \<notin> set kept" for h e kept
    by (auto simp: dispatch_targets_def)
next
  fix e kept a r assume run: "snd (dispatchTracked bus e kept a) = Inr r"
  then have r: "r = collect_results (set_of kept) (dispatch_targets bus e kept) a 0"
    by (auto simp: dispatchTracked_def split: if_splits)
  show "set (dr_completed r) = set kept \<union>
      {dispatch_targets bus e kept ! j | j. j < length (dispatch_targets bus e kept) \<and> a j = None}"
    unfolding r collect_completed by simp
  show "dr_failures r = [] \<longleftrightarrow> (\<forall>j < length (dispatch_targets bus e kept). a j = None)"
    unfolding r collect_failures by simp
qed

lemma bus_handlers_kept [simp]:
  "bus_handlers (fst (dispatchTracked bus e kept a)) = bus_handlers bus" "bus_handlers (recordStats e bus) = bus_handlers bus"
  by (auto simp: dispatchTracked_def recordStats_def Let_def)

lemma recent_bounded:
  "length (bus_recent bus) \<le> LIVE_EVENT_BUFFER_SIZE \<Longrightarrow> length (bus_recent (recordStats e bus)) \<le> LIVE_EVENT_BUFFER_SIZE"
  by (auto simp: recordStats_def Let_def)

end
