(* ===== verification/Outbox.thy ===== *)
theory Outbox
  imports EventBus
begin

text \<open>
  The transactional outbox (\<open>src/services/events/outboxService.ts\<close>) and the move of an event to the
  dead-letter queue (\<open>DeadLetterQueueService.moveToDeadLetter\<close>). A table is the list of its rows. Times
  are milliseconds. What the environment decides is an argument: the clock, the answers of the
  handlers, whether a write to the dead-letter queue works. The Persian text around an error message
  is left out. A database error ends a batch where it is; the steps of theory \<open>EventDelivery\<close>
  let a worker stop anywhere.
\<close>

section \<open>Tables\<close>

datatype outbox_status = ObPending | ObProcessing | ObCompleted | ObFailed

record outbox_row =
  ob_id :: nat
  ob_event :: string
  ob_type :: string
  ob_aggType :: string
  ob_aggId :: string
  ob_status :: outbox_status
  ob_payload :: json
  ob_meta :: json
  ob_retry :: nat
  ob_next :: "int option"
  ob_error :: "string option"
  ob_occurred :: "int option"
  ob_processed :: "int option"
  ob_lockedAt :: "int option"
  ob_lockedBy :: "string option"
  ob_completed :: "string list"

datatype dlq_status = Quarantined | Replayed | Dismissed

record dlq_row =
  dl_id :: nat
  dl_event :: string
  dl_type :: string
  dl_aggType :: string
  dl_aggId :: string
  dl_source :: string
  dl_payload :: json
  dl_meta :: json
  dl_reason :: string
  dl_stack :: string
  dl_retry :: nat
  dl_status :: dlq_status
  dl_quarantinedAt :: "int option"
  dl_resolvedAt :: "int option"
  dl_resolvedBy :: "nat option"
  dl_notes :: string

record events_db =
  ed_outbox :: "outbox_row list"
  ed_dlq :: "dlq_row list"
  ed_nextOutbox :: nat
  ed_nextDlq :: nat

section \<open>Recording an event\<close>

definition empty_object :: json where
  "empty_object = JObj []"

text \<open>\<open>outboxRowOf\<close>, with the identifier the database gives it.\<close>

definition outboxRowOf :: "nat \<Rightarrow> int \<Rightarrow> domain_event \<Rightarrow> outbox_row" where
  "outboxRowOf i now e =
    \<lparr>ob_id = i, ob_event = de_id e, ob_type = de_type e, ob_aggType = de_aggType e, ob_aggId = de_aggId e,
     ob_status = ObPending, ob_payload = js_or (de_payload e) empty_object, ob_meta = js_or (de_meta e) empty_object,
     ob_retry = 0, ob_next = None, ob_error = Some '''', ob_occurred = Some (case de_occurred e of Some t \<Rightarrow> t | None \<Rightarrow> now),
     ob_processed = None, ob_lockedAt = None, ob_lockedBy = Some '''', ob_completed = []\<rparr>"

definition insert_outbox :: "int \<Rightarrow> domain_event \<Rightarrow> events_db \<Rightarrow> events_db" where
  "insert_outbox now e db =
    db\<lparr>ed_outbox := ed_outbox db @ [outboxRowOf (ed_nextOutbox db) now e], ed_nextOutbox := ed_nextOutbox db + 1\<rparr>"

datatype outbox_error = DuplicateEvent

text \<open>The event id is unique: a second row with it aborts the caller's transaction.\<close>

definition saveToOutbox :: "int \<Rightarrow> domain_event \<Rightarrow> events_db \<Rightarrow> outbox_error + events_db" where
  "saveToOutbox now e db =
    (if list_ex (\<lambda>r. ob_event r = de_id e) (ed_outbox db) then Inl DuplicateEvent else Inr (insert_outbox now e db))"

definition recordEvent :: "int \<Rightarrow> domain_event \<Rightarrow> events_db \<Rightarrow> outbox_error + events_db" where
  "recordEvent now e db = saveToOutbox now e db"

definition recordEventOnce :: "int \<Rightarrow> domain_event \<Rightarrow> events_db \<Rightarrow> events_db \<times> bool" where
  "recordEventOnce now e db =
    (if list_ex (\<lambda>r. ob_event r = de_id e) (ed_outbox db) then (db, False) else (insert_outbox now e db, True))"

section \<open>Quarantine\<close>

record dlq_params =
  dp_event :: string
  dp_type :: string
  dp_aggType :: string
  dp_aggId :: string
  dp_source :: string
  dp_payload :: json
  dp_meta :: json
  dp_reason :: string
  dp_stack :: string
  dp_retry :: nat

definition text_or :: "string \<Rightarrow> string \<Rightarrow> string" where
  "text_or a b = (if a = '''' then b else a)"

definition moveToDeadLetter :: "int \<Rightarrow> dlq_params \<Rightarrow> events_db \<Rightarrow> events_db" where
  "moveToDeadLetter now p db =
    (case List.find (\<lambda>d. dl_event d = dp_event p) (ed_dlq db) of
       Some x \<Rightarrow>
         db\<lparr>ed_dlq := update_rows (\<lambda>d. dl_id d = dl_id x)
           (\<lambda>d. d\<lparr>dl_status := Quarantined, dl_reason := dp_reason p, dl_stack := text_or (dp_stack p) (dl_stack x),
              dl_retry := dp_retry p, dl_payload := js_or (dp_payload p) (dl_payload x),
              dl_meta := js_or (dp_meta p) (dl_meta x), dl_quarantinedAt := Some now\<rparr>) (ed_dlq db)\<rparr>
     | None \<Rightarrow>
         db\<lparr>ed_dlq := ed_dlq db @
           [\<lparr>dl_id = ed_nextDlq db, dl_event = dp_event p, dl_type = dp_type p, dl_aggType = dp_aggType p,
             dl_aggId = dp_aggId p, dl_source = text_or (dp_source p) ''outbox'', dl_payload = js_or (dp_payload p) empty_object,
             dl_meta = js_or (dp_meta p) empty_object, dl_reason = dp_reason p, dl_stack = dp_stack p, dl_retry = dp_retry p,
             dl_status = Quarantined, dl_quarantinedAt = Some now, dl_resolvedAt = None, dl_resolvedBy = None,
             dl_notes = ''''\<rparr>],
           ed_nextDlq := ed_nextDlq db + 1\<rparr>)"

section \<open>A batch\<close>

definition OUTBOX_MAX_ATTEMPTS :: nat where
  "OUTBOX_MAX_ATTEMPTS = 5"

definition MAX_RETRIES :: nat where
  "MAX_RETRIES = OUTBOX_MAX_ATTEMPTS"

definition due :: "int \<Rightarrow> outbox_row \<Rightarrow> bool" where
  "due now r \<longleftrightarrow> (ob_status r = ObPending \<or> ob_status r = ObFailed) \<and>
    (case ob_next r of None \<Rightarrow> True | Some t \<Rightarrow> t \<le> now) \<and> ob_retry r < MAX_RETRIES"

definition candidateEvents :: "int \<Rightarrow> nat \<Rightarrow> events_db \<Rightarrow> outbox_row list" where
  "candidateEvents now batchSize db = take batchSize (sort_key ob_id (filter (due now) (ed_outbox db)))"

text \<open>The conditional update that claims a row: it takes it only while the row is still due.\<close>

definition claim :: "int \<Rightarrow> string \<Rightarrow> nat \<Rightarrow> events_db \<Rightarrow> events_db option" where
  "claim now worker i db =
    (if list_ex (\<lambda>r. ob_id r = i \<and> due now r) (ed_outbox db) then
       Some (db\<lparr>ed_outbox := update_rows (\<lambda>r. ob_id r = i \<and> due now r)
         (\<lambda>r. r\<lparr>ob_status := ObProcessing, ob_lockedAt := Some now, ob_lockedBy := Some worker\<rparr>) (ed_outbox db)\<rparr>)
     else None)"

text \<open>\<open>isoOf\<close> is \<open>Date.toISOString\<close>.\<close>

definition eventOfRow :: "(int \<Rightarrow> string) \<Rightarrow> int \<Rightarrow> outbox_row \<Rightarrow> domain_event" where
  "eventOfRow isoOf now r =
    (let time = (case ob_occurred r of Some t \<Rightarrow> t | None \<Rightarrow> now)
     in \<lparr>de_id = ob_event r, de_type = ob_type r, de_aggType = ob_aggType r, de_aggId = ob_aggId r,
         de_payload = js_or (ob_payload r) empty_object,
         de_meta = js_or (ob_meta r) (JObj [(''timestamp'', JStr (isoOf time))]), de_occurred = Some time\<rparr>)"

fun join_text :: "string \<Rightarrow> string list \<Rightarrow> string" where
  "join_text sep [] = ''''"
| "join_text sep [x] = x"
| "join_text sep (x # y # xs) = x @ sep @ join_text sep (y # xs)"

definition failure_text :: "(string \<times> string) list \<Rightarrow> string" where
  "failure_text fs = join_text '' | '' (map (\<lambda>(h, e). h @ '': '' @ e) fs)"

text \<open>The message of a dispatch that throws because the event breaks its contract.\<close>

definition contract_message :: "event_problem list \<Rightarrow> string" where
  "contract_message ps = ''invalid event''"

text \<open>Completed handlers and failure message of a dispatch.\<close>

definition dispatch_outcome :: "string list \<Rightarrow> (event_problem list + dispatch_result) \<Rightarrow> string list \<times> string" where
  "dispatch_outcome previously r =
    (case r of
       Inl ps \<Rightarrow> (previously, contract_message ps)
     | Inr d \<Rightarrow> (dr_completed d, if dr_failures d \<noteq> [] then failure_text (dr_failures d) else ''''))"

definition backoffSeconds :: "nat \<Rightarrow> int" where
  "backoffSeconds newRetryCount = min 300 (5 * 2 ^ (newRetryCount - 1))"

definition mark_completed :: "int \<Rightarrow> nat \<Rightarrow> string list \<Rightarrow> events_db \<Rightarrow> events_db" where
  "mark_completed time i completedHandlers db =
    db\<lparr>ed_outbox := update_rows (\<lambda>r. ob_id r = i)
      (\<lambda>r. r\<lparr>ob_status := ObCompleted, ob_processed := Some time, ob_error := None, ob_lockedAt := None, ob_lockedBy := None,
         ob_completed := completedHandlers\<rparr>) (ed_outbox db)\<rparr>"

definition mark_failed :: "int \<Rightarrow> outbox_row \<Rightarrow> string list \<Rightarrow> string \<Rightarrow> events_db \<Rightarrow> events_db" where
  "mark_failed time raw completedHandlers message db =
    (let newRetryCount = ob_retry raw + 1;
         isFinalFailure = (newRetryCount \<ge> MAX_RETRIES)
     in db\<lparr>ed_outbox := update_rows (\<lambda>r. ob_id r = ob_id raw)
          (\<lambda>r. r\<lparr>ob_status := (if isFinalFailure then ObFailed else ObPending), ob_retry := newRetryCount,
             ob_next := (if isFinalFailure then None else Some (time + backoffSeconds newRetryCount * 1000)),
             ob_error := Some message, ob_processed := (if isFinalFailure then Some time else None),
             ob_lockedAt := None, ob_lockedBy := None, ob_completed := completedHandlers\<rparr>) (ed_outbox db)\<rparr>)"

definition failure_params :: "outbox_row \<Rightarrow> string \<Rightarrow> dlq_params" where
  "failure_params raw message =
    \<lparr>dp_event = ob_event raw, dp_type = ob_type raw, dp_aggType = ob_aggType raw, dp_aggId = ob_aggId raw,
     dp_source = ''outbox'', dp_payload = ob_payload raw, dp_meta = ob_meta raw, dp_reason = message, dp_stack = '''',
     dp_retry = ob_retry raw + 1\<rparr>"

text \<open>
  What the environment decides in a batch: the time at its start, the worker's name, for each row
  (by identifier) the time of its outcome, the answers of its handlers and whether its quarantine works.
\<close>

record batch_env =
  be_now :: int
  be_worker :: string
  be_iso :: "int \<Rightarrow> string"
  be_at :: "nat \<Rightarrow> int"
  be_answers :: "nat \<Rightarrow> nat \<Rightarrow> string option"
  be_dlqOk :: "nat \<Rightarrow> bool"

text \<open>The outcome of a claimed event, from its dispatch: completed, retried later or failed for good.\<close>

definition settle_event :: "batch_env \<Rightarrow> outbox_row \<Rightarrow> string list \<times> string \<Rightarrow> events_db \<Rightarrow> events_db" where
  "settle_event env raw outcome db =
    (let time = be_at env (ob_id raw)
     in if snd outcome = '''' then mark_completed time (ob_id raw) (fst outcome) db
        else
          let db1 = mark_failed time raw (fst outcome) (snd outcome) db
          in if ob_retry raw + 1 \<ge> MAX_RETRIES \<and> be_dlqOk env (ob_id raw)
             then moveToDeadLetter time (failure_params raw (snd outcome)) db1 else db1)"

record batch_counts =
  bc_processed :: nat
  bc_succeeded :: nat
  bc_failed :: nat

definition no_counts :: batch_counts where
  "no_counts = \<lparr>bc_processed = 0, bc_succeeded = 0, bc_failed = 0\<rparr>"

fun process_loop ::
    "batch_env \<Rightarrow> outbox_row list \<Rightarrow> event_bus \<times> events_db \<times> batch_counts \<Rightarrow> event_bus \<times> events_db \<times> batch_counts" where
  "process_loop env [] st = st"
| "process_loop env (raw # rest) (bus, db, counts) =
    (case claim (be_now env) (be_worker env) (ob_id raw) db of
       None \<Rightarrow> process_loop env rest (bus, db, counts)
     | Some db1 \<Rightarrow>
         let (bus1, result) = dispatchTracked bus (eventOfRow (be_iso env) (be_now env) raw) (ob_completed raw)
               (be_answers env (ob_id raw));
             outcome = dispatch_outcome (ob_completed raw) result;
             db2 = settle_event env raw outcome db1;
             counts1 = counts\<lparr>bc_processed := bc_processed counts + 1,
               bc_succeeded := bc_succeeded counts + (if snd outcome = '''' then 1 else 0),
               bc_failed := bc_failed counts + (if snd outcome = '''' then 0 else 1)\<rparr>
         in process_loop env rest (bus1, db2, counts1))"

text \<open>\<open>isProcessingBatch\<close> is \<open>busy\<close>: a process runs one batch at a time.\<close>

definition processPendingBatch ::
    "batch_env \<Rightarrow> nat \<Rightarrow> bool \<Rightarrow> event_bus \<Rightarrow> events_db \<Rightarrow> event_bus \<times> events_db \<times> batch_counts" where
  "processPendingBatch env batchSize busy bus db =
    (if busy then (bus, db, no_counts)
     else process_loop env (candidateEvents (be_now env) batchSize db) (bus, db, no_counts))"

section \<open>Recovery\<close>

definition stuck :: "int \<Rightarrow> outbox_row \<Rightarrow> bool" where
  "stuck before r \<longleftrightarrow> ob_status r = ObProcessing \<and>
    (case ob_lockedAt r of
       Some t \<Rightarrow> t \<le> before
     | None \<Rightarrow> (case ob_occurred r of Some t \<Rightarrow> t \<le> before | None \<Rightarrow> False))"

text \<open>One stuck event, as it was read; the update takes the row by its identifier alone.\<close>

definition recover_event :: "int \<Rightarrow> (nat \<Rightarrow> bool) \<Rightarrow> outbox_row \<Rightarrow> events_db \<Rightarrow> events_db" where
  "recover_event time dlqOk ev db =
    (let newRetryCount = ob_retry ev + 1
     in if newRetryCount \<ge> MAX_RETRIES then
          let message = ''stuck in processing'';
              db1 = db\<lparr>ed_outbox := update_rows (\<lambda>r. ob_id r = ob_id ev)
                (\<lambda>r. r\<lparr>ob_status := ObFailed, ob_retry := newRetryCount, ob_error := Some message, ob_processed := Some time,
                   ob_lockedAt := None, ob_lockedBy := None\<rparr>) (ed_outbox db)\<rparr>
          in if dlqOk (ob_id ev) then moveToDeadLetter time (failure_params ev message) db1 else db1
        else
          db\<lparr>ed_outbox := update_rows (\<lambda>r. ob_id r = ob_id ev)
            (\<lambda>r. r\<lparr>ob_status := ObPending, ob_retry := newRetryCount, ob_lockedAt := None, ob_lockedBy := None,
               ob_next := None, ob_error := Some ''stuck in processing''\<rparr>) (ed_outbox db)\<rparr>)"

definition recoverStuckEvents :: "int \<Rightarrow> int \<Rightarrow> (nat \<Rightarrow> bool) \<Rightarrow> events_db \<Rightarrow> events_db \<times> nat" where
  "recoverStuckEvents now stuckThresholdMinutes dlqOk db =
    (let fiveMinutesAgo = now - stuckThresholdMinutes * 60 * 1000;
         stuckEvents = filter (stuck fiveMinutesAgo) (ed_outbox db)
     in (foldl (\<lambda>d ev. recover_event now dlqOk ev d) db stuckEvents, length stuckEvents))"

section \<open>Statistics, list and purge\<close>

record outbox_stats =
  os_total :: nat
  os_pending :: nat
  os_processing :: nat
  os_completed :: nat
  os_failed :: nat

definition count_status :: "outbox_status \<Rightarrow> events_db \<Rightarrow> nat" where
  "count_status st db = length (filter (\<lambda>r. ob_status r = st) (ed_outbox db))"

definition getOutboxStats :: "events_db \<Rightarrow> outbox_stats" where
  "getOutboxStats db =
    \<lparr>os_total = count_status ObPending db + count_status ObProcessing db + count_status ObCompleted db + count_status ObFailed db,
     os_pending = count_status ObPending db, os_processing = count_status ObProcessing db,
     os_completed = count_status ObCompleted db, os_failed = count_status ObFailed db\<rparr>"

text \<open>
  The batched delete of \<open>lib/batchDelete.ts\<close>: a statement deletes at most \<open>batchSize\<close> of the rows, and
  statements run until one deletes fewer. The database picks the rows; the model takes the first ones.
\<close>

fun delete_some :: "nat \<Rightarrow> ('r \<Rightarrow> bool) \<Rightarrow> 'r list \<Rightarrow> 'r list" where
  "delete_some 0 p rows = rows"
| "delete_some (Suc n) p [] = []"
| "delete_some (Suc n) p (r # rs) = (if p r then delete_some n p rs else r # delete_some (Suc n) p rs)"

lemma delete_some_left: "length (filter p (delete_some n p rows)) = length (filter p rows) - n"
  by (induction n p rows rule: delete_some.induct) auto

definition deleted_count :: "nat \<Rightarrow> ('r \<Rightarrow> bool) \<Rightarrow> 'r list \<Rightarrow> nat" where
  "deleted_count n p rows = min n (length (filter p rows))"

function delete_batches :: "nat \<Rightarrow> ('r \<Rightarrow> bool) \<Rightarrow> 'r list \<Rightarrow> nat \<Rightarrow> 'r list \<times> nat" where
  "delete_batches n p rows so_far =
    (let deleted = deleted_count (Suc n) p rows; rows' = delete_some (Suc n) p rows
     in if deleted < Suc n then (rows', so_far + deleted) else delete_batches n p rows' (so_far + deleted))"
  by pat_completeness auto
termination
  by (relation "measure (\<lambda>(n, p, rows, so_far). length (filter p rows))")
    (auto simp: deleted_count_def delete_some_left)

declare delete_batches.simps [simp del]

datatype batch_error = BadBatchSize

definition deleteInBatches :: "int \<Rightarrow> ('r \<Rightarrow> bool) \<Rightarrow> 'r list \<Rightarrow> batch_error + ('r list \<times> nat)" where
  "deleteInBatches batchSize p rows =
    (if batchSize < 1 then Inl BadBatchSize else Inr (delete_batches (nat batchSize - 1) p rows 0))"

definition OUTBOX_COMPLETED_RETENTION_DAYS :: int where
  "OUTBOX_COMPLETED_RETENTION_DAYS = 90"

definition OPERATIONAL_PURGE_BATCH_SIZE :: int where
  "OPERATIONAL_PURGE_BATCH_SIZE = 5000"

definition purgeable :: "int \<Rightarrow> dlq_row list \<Rightarrow> outbox_row \<Rightarrow> bool" where
  "purgeable cutoffDate dlq r \<longleftrightarrow> ob_status r = ObCompleted \<and>
    (case ob_processed r of Some t \<Rightarrow> t < cutoffDate | None \<Rightarrow> False) \<and>
    \<not> list_ex (\<lambda>d. dl_event d = ob_event r \<and> dl_status d \<noteq> Replayed) dlq"

definition purgeProcessedEvents :: "int \<Rightarrow> int \<Rightarrow> int \<Rightarrow> events_db \<Rightarrow> batch_error + (events_db \<times> nat)" where
  "purgeProcessedEvents now olderThanDays batchSize db =
    (let cutoffDate = now - olderThanDays * 24 * 60 * 60 * 1000
     in res_bind (deleteInBatches batchSize (purgeable cutoffDate (ed_dlq db)) (ed_outbox db))
          (\<lambda>(rows, n). Inr (db\<lparr>ed_outbox := rows\<rparr>, n)))"

end
