(* ===== verification/OutboxFacts.thy ===== *)
theory OutboxFacts
  imports Outbox
begin

text \<open>
  What a batch of the outbox worker does to its tables: a batch is a map over the rows it took, and
  the settled form of a row depends on the row and on the answers of its handlers alone.
\<close>

section \<open>Quarantine\<close>

definition quarantined :: "events_db \<Rightarrow> string \<Rightarrow> bool" where
  "quarantined db ev \<longleftrightarrow> (\<exists>d \<in> set (ed_dlq db). dl_event d = ev \<and> dl_status d = Quarantined)"

lemma moved_is_quarantined: "quarantined (moveToDeadLetter t p db) (dp_event p)"
proof (cases "List.find (\<lambda>d. dl_event d = dp_event p) (ed_dlq db)")
  case None
  then show ?thesis by (simp add: quarantined_def moveToDeadLetter_def)
next
  case (Some x)
  then have x: "x \<in> set (ed_dlq db)" "dl_event x = dp_event p" by (auto dest: find_SomeD)
  with Some show ?thesis unfolding quarantined_def moveToDeadLetter_def
    by (auto intro!: bexI [OF _ updated_in [OF x(1)]])
qed

lemma moved_keeps_quarantined:
  assumes "quarantined db ev"
  shows "quarantined (moveToDeadLetter t p db) ev"
proof -
  from assms obtain d where d: "d \<in> set (ed_dlq db)" "dl_event d = ev" "dl_status d = Quarantined" by (auto simp: quarantined_def)
  show ?thesis
  proof (cases "List.find (\<lambda>d. dl_event d = dp_event p) (ed_dlq db)")
    case None
    with d show ?thesis by (auto simp: quarantined_def moveToDeadLetter_def)
  next
    case (Some x)
    with d show ?thesis unfolding quarantined_def moveToDeadLetter_def
      by (auto intro!: bexI [OF _ updated_in [OF d(1)]])
  qed
qed

lemma moved_outbox [simp]: "ed_outbox (moveToDeadLetter t p db) = ed_outbox db" "ed_nextOutbox (moveToDeadLetter t p db) = ed_nextOutbox db"
  by (simp_all add: moveToDeadLetter_def split: option.splits)

text \<open>An event has at most one row in the dead-letter queue.\<close>

definition dlq_ok :: "events_db \<Rightarrow> bool" where
  "dlq_ok db \<longleftrightarrow> distinct (map dl_event (ed_dlq db)) \<and> distinct (map dl_id (ed_dlq db)) \<and>
    (\<forall>d \<in> set (ed_dlq db). dl_id d < ed_nextDlq db)"

lemma moved_dlq_ok:
  assumes "dlq_ok db"
  shows "dlq_ok (moveToDeadLetter t p db)"
proof (cases "List.find (\<lambda>d. dl_event d = dp_event p) (ed_dlq db)")
  case None
  then have "dp_event p \<notin> set (map dl_event (ed_dlq db))" by (auto simp: find_None_iff_set)
  with None assms show ?thesis by (auto simp: dlq_ok_def moveToDeadLetter_def less_SucI)
next
  case (Some x)
  with assms show ?thesis by (force simp: dlq_ok_def moveToDeadLetter_def map_update_rows in_update_rows)
qed

section \<open>One event\<close>

definition row_outcome :: "batch_env \<Rightarrow> event_bus \<Rightarrow> outbox_row \<Rightarrow> string list \<times> string" where
  "row_outcome env bus raw = dispatch_outcome (ob_completed raw)
    (snd (dispatchTracked bus (eventOfRow (be_iso env) (be_now env) raw) (ob_completed raw) (be_answers env (ob_id raw))))"

definition settled_row :: "batch_env \<Rightarrow> event_bus \<Rightarrow> outbox_row \<Rightarrow> outbox_row" where
  "settled_row env bus raw =
    (let outcome = row_outcome env bus raw; time = be_at env (ob_id raw); n = ob_retry raw + 1
     in if snd outcome = '''' then
          raw\<lparr>ob_status := ObCompleted, ob_processed := Some time, ob_error := None, ob_lockedAt := None, ob_lockedBy := None,
            ob_completed := fst outcome\<rparr>
        else
          raw\<lparr>ob_status := (if n \<ge> MAX_RETRIES then ObFailed else ObPending), ob_retry := n,
            ob_next := (if n \<ge> MAX_RETRIES then None else Some (time + backoffSeconds n * 1000)),
            ob_error := Some (snd outcome), ob_processed := (if n \<ge> MAX_RETRIES then Some time else None),
            ob_lockedAt := None, ob_lockedBy := None, ob_completed := fst outcome\<rparr>)"

lemma row_outcome_cong: "bus_handlers bus' = bus_handlers bus \<Longrightarrow> row_outcome env bus' raw = row_outcome env bus raw"
  by (simp add: row_outcome_def dispatchTracked_def dispatch_targets_def handlers_of_def)

lemma settled_row_cong: "bus_handlers bus' = bus_handlers bus \<Longrightarrow> settled_row env bus' raw = settled_row env bus raw"
  by (simp add: settled_row_def row_outcome_cong [of bus' bus])

lemma settled_key [simp]: "ob_id (settled_row env bus raw) = ob_id raw" "ob_event (settled_row env bus raw) = ob_event raw"
  by (simp_all add: settled_row_def Let_def)

lemma backoff_bounds: "5 \<le> backoffSeconds n" "backoffSeconds n \<le> 300"
proof -
  have "(1 :: int) \<le> 2 ^ (n - 1)" by simp
  then have "5 \<le> 5 * (2 :: int) ^ (n - 1)" by linarith
  then show "5 \<le> backoffSeconds n" by (simp add: backoffSeconds_def)
qed (simp add: backoffSeconds_def)

lemma failure_text_empty: "failure_text fs = '''' \<longleftrightarrow> fs = []"
  by (cases fs rule: remdups_adj.cases) (auto simp: failure_text_def)

text \<open>What the handlers' answers mean for the row.\<close>

lemma outcome_success:
  assumes "snd (row_outcome env bus raw) = ''''"
  shows "set (fst (row_outcome env bus raw)) = set (ob_completed raw) \<union> set (handlers_of bus (eventOfRow (be_iso env) (be_now env) raw))"
proof -
  let ?e = "eventOfRow (be_iso env) (be_now env) raw" and ?a = "be_answers env (ob_id raw)"
  from assms obtain d where d: "snd (dispatchTracked bus ?e (ob_completed raw) ?a) = Inr d" "dr_failures d = []"
    by (auto simp: row_outcome_def dispatch_outcome_def contract_message_def failure_text_empty split: sum.splits if_splits)
  then show ?thesis using bus.no_failure_all_resolved [OF d] by (simp add: row_outcome_def dispatch_outcome_def)
qed

lemma outcome_keeps: "set (ob_completed raw) \<subseteq> set (fst (row_outcome env bus raw))"
proof -
  let ?e = "eventOfRow (be_iso env) (be_now env) raw" and ?a = "be_answers env (ob_id raw)"
  show ?thesis
  proof (cases "snd (dispatchTracked bus ?e (ob_completed raw) ?a)")
    case (Inr d)
    then show ?thesis using bus.kept_stay [OF Inr] by (simp add: row_outcome_def dispatch_outcome_def)
  qed (simp add: row_outcome_def dispatch_outcome_def)
qed

section \<open>The batch\<close>

lemma claim_first:
  assumes "distinct (map ob_id (ed_outbox db))" "raw \<in> set (ed_outbox db)" "due now raw"
  shows "claim now w (ob_id raw) db =
    Some (db\<lparr>ed_outbox := update_rows (\<lambda>r. r = raw)
      (\<lambda>r. r\<lparr>ob_status := ObProcessing, ob_lockedAt := Some now, ob_lockedBy := Some w\<rparr>) (ed_outbox db)\<rparr>)"
proof -
  have "(ob_id r = ob_id raw \<and> due now r) = (r = raw)" if "r \<in> set (ed_outbox db)" for r
    using assms that by (auto simp: distinct_map inj_on_def)
  then have "update_rows (\<lambda>r. ob_id r = ob_id raw \<and> due now r) f (ed_outbox db) = update_rows (\<lambda>r. r = raw) f (ed_outbox db)" for f
    by (simp add: update_rows_def)
  moreover have "list_ex (\<lambda>r. ob_id r = ob_id raw \<and> due now r) (ed_outbox db)" using assms by (auto simp: list_ex_iff)
  ultimately show ?thesis by (simp add: claim_def)
qed

text \<open>Claim and outcome together: the row takes its settled form, no other row changes.\<close>

lemma settle_claimed:
  assumes "distinct (map ob_id (ed_outbox db))" "raw \<in> set (ed_outbox db)"
    and "db1 = db\<lparr>ed_outbox := update_rows (\<lambda>r. r = raw)
      (\<lambda>r. r\<lparr>ob_status := ObProcessing, ob_lockedAt := Some now, ob_lockedBy := Some w\<rparr>) (ed_outbox db)\<rparr>"
  shows "ed_outbox (settle_event env raw (row_outcome env bus raw) db1) =
    update_rows (\<lambda>r. r = raw) (\<lambda>_. settled_row env bus raw) (ed_outbox db)"
proof -
  let ?c = "\<lambda>r :: outbox_row. r\<lparr>ob_status := ObProcessing, ob_lockedAt := Some now, ob_lockedBy := Some w\<rparr>"
  have key: "(ob_id r = ob_id raw) = (r = raw)" if "r \<in> set (ed_outbox db)" for r
    using assms(1,2) that by (auto simp: distinct_map inj_on_def)
  have upd: "update_rows (\<lambda>r. ob_id r = ob_id raw) f (update_rows (\<lambda>r. r = raw) ?c (ed_outbox db)) =
      update_rows (\<lambda>r. r = raw) (\<lambda>_. f (?c raw)) (ed_outbox db)" for f :: "outbox_row \<Rightarrow> outbox_row"
    using key by (simp add: update_rows_def)
  show ?thesis
    unfolding settle_event_def settled_row_def assms(3) mark_completed_def mark_failed_def Let_def
    by (simp add: upd if_distrib [of ed_outbox])
qed

lemma settle_dlq:
  shows "quarantined db ev \<Longrightarrow> quarantined (settle_event env raw outcome db) ev"
    and "dlq_ok db \<Longrightarrow> dlq_ok (settle_event env raw outcome db)"
    and "snd outcome \<noteq> '''' \<Longrightarrow> ob_retry raw + 1 \<ge> MAX_RETRIES \<Longrightarrow> be_dlqOk env (ob_id raw) \<Longrightarrow>
      quarantined (settle_event env raw outcome db) (ob_event raw)"
proof -
  have same: "quarantined (mark_completed t i ch db) ev = quarantined db ev" "quarantined (mark_failed t raw ch m db) ev = quarantined db ev"
    "dlq_ok (mark_completed t i ch db) = dlq_ok db" "dlq_ok (mark_failed t raw ch m db) = dlq_ok db" for t i ch m ev
    by (simp_all add: quarantined_def dlq_ok_def mark_completed_def mark_failed_def Let_def)
  show "quarantined db ev \<Longrightarrow> quarantined (settle_event env raw outcome db) ev"
    by (simp add: settle_event_def Let_def same moved_keeps_quarantined)
  show "dlq_ok db \<Longrightarrow> dlq_ok (settle_event env raw outcome db)"
    by (simp add: settle_event_def Let_def same moved_dlq_ok)
  show "snd outcome \<noteq> '''' \<Longrightarrow> ob_retry raw + 1 \<ge> MAX_RETRIES \<Longrightarrow> be_dlqOk env (ob_id raw) \<Longrightarrow>
      quarantined (settle_event env raw outcome db) (ob_event raw)"
    using moved_is_quarantined [of _ "failure_params raw (snd outcome)"]
    by (simp add: settle_event_def Let_def failure_params_def)
qed

lemma process_loop_outbox:
  assumes "process_loop env raws (bus, db, counts) = (bus', db', counts')"
    and "distinct (map ob_id (ed_outbox db))" "set raws \<subseteq> set (ed_outbox db)" "distinct raws" "\<forall>r \<in> set raws. due (be_now env) r"
  shows "ed_outbox db' = update_rows (\<lambda>r. r \<in> set raws) (settled_row env bus) (ed_outbox db) \<and>
    bus_handlers bus' = bus_handlers bus \<and>
    bc_processed counts' = bc_processed counts + length raws \<and>
    bc_succeeded counts' + bc_failed counts' = bc_succeeded counts + bc_failed counts + length raws \<and>
    (dlq_ok db \<longrightarrow> dlq_ok db') \<and> (\<forall>ev. quarantined db ev \<longrightarrow> quarantined db' ev) \<and>
    (\<forall>r \<in> set raws. snd (row_outcome env bus r) \<noteq> '''' \<and> ob_retry r + 1 \<ge> MAX_RETRIES \<and> be_dlqOk env (ob_id r) \<longrightarrow>
      quarantined db' (ob_event r))"
  using assms
proof (induction raws arbitrary: bus db counts)
  case Nil
  then show ?case by (simp add: update_rows_def)
next
  case (Cons raw rest)
  let ?o = "row_outcome env bus raw"
  from Cons.prems(3,5) have raw: "raw \<in> set (ed_outbox db)" "due (be_now env) raw" by auto
  obtain db1 where db1: "db1 = db\<lparr>ed_outbox := update_rows (\<lambda>r. r = raw)
      (\<lambda>r. r\<lparr>ob_status := ObProcessing, ob_lockedAt := Some (be_now env), ob_lockedBy := Some (be_worker env)\<rparr>) (ed_outbox db)\<rparr>"
    by blast
  have claim: "claim (be_now env) (be_worker env) (ob_id raw) db = Some db1"
    unfolding db1 by (rule claim_first [OF Cons.prems(2) raw])
  let ?db2 = "settle_event env raw ?o db1"
  let ?d = "dispatchTracked bus (eventOfRow (be_iso env) (be_now env) raw) (ob_completed raw) (be_answers env (ob_id raw))"
  let ?c = "counts\<lparr>bc_processed := bc_processed counts + 1, bc_succeeded := bc_succeeded counts + (if snd ?o = '''' then 1 else 0),
     bc_failed := bc_failed counts + (if snd ?o = '''' then 0 else 1)\<rparr>"
  have step: "process_loop env (raw # rest) (bus, db, counts) = process_loop env rest (fst ?d, ?db2, ?c)"
    by (simp add: claim row_outcome_def split_beta Let_def)
  have out: "ed_outbox ?db2 = update_rows (\<lambda>r. r = raw) (\<lambda>_. settled_row env bus raw) (ed_outbox db)"
    by (rule settle_claimed [OF Cons.prems(2) raw(1) db1])
  have ids: "map ob_id (ed_outbox ?db2) = map ob_id (ed_outbox db)" unfolding out update_rows_def by (auto simp: comp_def)
  have sub: "set rest \<subseteq> set (ed_outbox ?db2)"
  proof
    fix r assume r: "r \<in> set rest"
    then have "r \<noteq> raw" "r \<in> set (ed_outbox db)" using Cons.prems(3,4) by auto
    then show "r \<in> set (ed_outbox ?db2)" unfolding out using updated_in [of r "ed_outbox db" "\<lambda>r. r = raw" "\<lambda>_. settled_row env bus raw"] by simp
  qed
  have h: "bus_handlers (fst ?d) = bus_handlers bus" by simp
  note IH = Cons.IH [OF Cons.prems(1) [unfolded step] _ sub]
  have IH': "ed_outbox db' = update_rows (\<lambda>r. r \<in> set rest) (settled_row env (fst ?d)) (ed_outbox ?db2) \<and>
    bus_handlers bus' = bus_handlers (fst ?d) \<and>
    bc_processed counts' = bc_processed ?c + length rest \<and>
    bc_succeeded counts' + bc_failed counts' = bc_succeeded ?c + bc_failed ?c + length rest \<and>
    (dlq_ok ?db2 \<longrightarrow> dlq_ok db') \<and> (\<forall>ev. quarantined ?db2 ev \<longrightarrow> quarantined db' ev) \<and>
    (\<forall>r \<in> set rest. snd (row_outcome env (fst ?d) r) \<noteq> '''' \<and> ob_retry r + 1 \<ge> MAX_RETRIES \<and> be_dlqOk env (ob_id r) \<longrightarrow>
      quarantined db' (ob_event r))"
    by (rule IH) (use Cons.prems(2,4,5) ids in auto)
  have "update_rows (\<lambda>r. r \<in> set rest) (settled_row env (fst ?d)) (ed_outbox ?db2) =
      update_rows (\<lambda>r. r \<in> set (raw # rest)) (settled_row env bus) (ed_outbox db)"
  proof -
    have "settled_row env bus raw \<notin> set rest"
    proof
      assume s: "settled_row env bus raw \<in> set rest"
      then have "settled_row env bus raw \<in> set (ed_outbox db)" "settled_row env bus raw \<noteq> raw" using Cons.prems(3,4) by auto
      moreover have "ob_id (settled_row env bus raw) = ob_id raw" by simp
      ultimately show False using Cons.prems(2) raw(1) unfolding distinct_map inj_on_def by blast
    qed
    then show ?thesis unfolding out using Cons.prems(4) by (auto simp: update_rows_def settled_row_cong [OF h])
  qed
  moreover have "quarantined db ev \<longrightarrow> quarantined db1 ev" "dlq_ok db \<longrightarrow> dlq_ok db1" for ev
    by (simp_all add: db1 quarantined_def dlq_ok_def)
  moreover have "snd ?o \<noteq> '''' \<and> ob_retry raw + 1 \<ge> MAX_RETRIES \<and> be_dlqOk env (ob_id raw) \<longrightarrow> quarantined ?db2 (ob_event raw)"
    using settle_dlq(3) by blast
  moreover have "quarantined db1 ev \<longrightarrow> quarantined ?db2 ev" "dlq_ok db1 \<longrightarrow> dlq_ok ?db2" for ev
    using settle_dlq(1,2) by blast+
  moreover note IH' row_outcome_cong [OF h, of env]
  ultimately show ?case by auto
qed

section \<open>Invariant of the outbox\<close>

text \<open>
  Keys are unique; an event still to run has attempts left, and one that failed has none, so it is
  never due again.
\<close>

definition status_ok :: "outbox_row \<Rightarrow> bool" where
  "status_ok r \<longleftrightarrow>
    (ob_status r = ObPending \<or> ob_status r = ObProcessing \<longrightarrow> ob_retry r < MAX_RETRIES) \<and>
    (ob_status r = ObFailed \<longrightarrow> MAX_RETRIES \<le> ob_retry r)"

definition outbox_ok :: "events_db \<Rightarrow> bool" where
  "outbox_ok db \<longleftrightarrow> distinct (map ob_id (ed_outbox db)) \<and> distinct (map ob_event (ed_outbox db)) \<and>
    (\<forall>r \<in> set (ed_outbox db). ob_id r < ed_nextOutbox db \<and> status_ok r) \<and> dlq_ok db"

lemma failed_not_due: "status_ok r \<Longrightarrow> ob_status r = ObFailed \<Longrightarrow> \<not> due now r"
  by (auto simp: status_ok_def due_def)

lemma candidates_due:
  assumes "r \<in> set (candidateEvents now n db)"
  shows "r \<in> set (ed_outbox db)" "due now r"
  using set_take_subset [of n "sort_key ob_id (filter (due now) (ed_outbox db))"] assms
  by (auto simp: candidateEvents_def)

lemma all_candidates:
  "length (ed_outbox db) \<le> n \<Longrightarrow> set (candidateEvents now n db) = {r \<in> set (ed_outbox db). due now r}"
proof -
  assume "length (ed_outbox db) \<le> n"
  then have "length (sort_key ob_id (filter (due now) (ed_outbox db))) \<le> n"
    by (simp add: le_trans [OF length_filter_le])
  then show ?thesis by (simp add: candidateEvents_def)
qed

lemma distinct_candidates: "distinct (map ob_id (ed_outbox db)) \<Longrightarrow> distinct (candidateEvents now n db)"
  by (auto simp: candidateEvents_def distinct_map intro!: distinct_take distinct_filter)

lemma settled_status_ok: "status_ok (settled_row env bus r)"
  by (auto simp: status_ok_def settled_row_def Let_def)

lemma batch_as_update:
  assumes "outbox_ok db" "processPendingBatch env n False bus db = (bus', db', c)"
  defines "taken \<equiv> candidateEvents (be_now env) n db"
  shows "ed_outbox db' = update_rows (\<lambda>r. r \<in> set taken) (settled_row env bus) (ed_outbox db)"
    "bus_handlers bus' = bus_handlers bus" "bc_processed c = length taken" "bc_succeeded c + bc_failed c = length taken"
    "dlq_ok db'"
    "r \<in> set taken \<Longrightarrow> snd (row_outcome env bus r) \<noteq> '''' \<Longrightarrow> ob_retry r + 1 \<ge> MAX_RETRIES \<Longrightarrow> be_dlqOk env (ob_id r) \<Longrightarrow>
      quarantined db' (ob_event r)"
proof -
  have run: "process_loop env taken (bus, db, no_counts) = (bus', db', c)"
    using assms(2) by (simp add: processPendingBatch_def taken_def)
  have pre: "distinct (map ob_id (ed_outbox db))" "set taken \<subseteq> set (ed_outbox db)" "distinct taken" "\<forall>r \<in> set taken. due (be_now env) r"
    using assms(1) candidates_due distinct_candidates by (auto simp: outbox_ok_def taken_def)
  note f = process_loop_outbox [OF run pre]
  show "ed_outbox db' = update_rows (\<lambda>r. r \<in> set taken) (settled_row env bus) (ed_outbox db)" "bus_handlers bus' = bus_handlers bus"
    "bc_processed c = length taken" "bc_succeeded c + bc_failed c = length taken"
    using f by (auto simp: no_counts_def)
  show "dlq_ok db'" using f assms(1) by (simp add: outbox_ok_def)
  show "r \<in> set taken \<Longrightarrow> snd (row_outcome env bus r) \<noteq> '''' \<Longrightarrow> ob_retry r + 1 \<ge> MAX_RETRIES \<Longrightarrow> be_dlqOk env (ob_id r) \<Longrightarrow>
      quarantined db' (ob_event r)"
    using f by blast
qed

lemma process_loop_next: "ed_nextOutbox (fst (snd (process_loop env raws (bus, db, c)))) = ed_nextOutbox db"
proof (induction raws arbitrary: bus db c)
  case (Cons raw rest)
  have "ed_nextOutbox (settle_event env raw o' d) = ed_nextOutbox d" for o' d
    by (simp add: settle_event_def mark_completed_def mark_failed_def Let_def)
  moreover have "claim now w i db = Some d \<Longrightarrow> ed_nextOutbox d = ed_nextOutbox db" for now w i d
    by (auto simp: claim_def split: if_splits)
  ultimately show ?case using Cons.IH by (auto simp: Let_def split_beta split: option.splits)
qed simp

lemma batch_keeps_ok:
  assumes "outbox_ok db" "processPendingBatch env n False bus db = (bus', db', c)"
  shows "outbox_ok db'"
proof -
  note f = batch_as_update [OF assms]
  let ?taken = "candidateEvents (be_now env) n db"
  have "map ob_id (ed_outbox db') = map ob_id (ed_outbox db)" "map ob_event (ed_outbox db') = map ob_event (ed_outbox db)"
    by (auto simp: f(1) update_rows_def comp_def)
  moreover have "ed_nextOutbox db' = ed_nextOutbox db"
    using assms(2) process_loop_next [of env ?taken bus db no_counts] by (simp add: processPendingBatch_def)
  moreover have "ob_id r < ed_nextOutbox db \<and> status_ok r" if "r \<in> set (ed_outbox db')" for r
    using that assms(1) settled_status_ok by (auto simp: f(1) in_update_rows outbox_ok_def)
  ultimately show ?thesis using assms(1) f(5) by (simp add: outbox_ok_def)
qed

text \<open>What a settled row looks like.\<close>

lemma settled_cases:
  assumes "due (be_now env) r" and r'_def: "r' = settled_row env bus r" and t_def: "t = be_at env (ob_id r)"
  shows "set (ob_completed r) \<subseteq> set (ob_completed r') \<and>
    ((ob_status r' = ObCompleted \<and> set (bus_handlers bus (ob_type r)) \<union> set (bus_handlers bus ALL_EVENTS) \<subseteq> set (ob_completed r') \<and>
        snd (row_outcome env bus r) = '''') \<or>
     (ob_status r' = ObPending \<and> ob_retry r' = ob_retry r + 1 \<and> ob_retry r' < MAX_RETRIES \<and>
        (\<exists>u. ob_next r' = Some u \<and> t + 5000 \<le> u \<and> u \<le> t + 300000)) \<or>
     (ob_status r' = ObFailed \<and> ob_retry r' = MAX_RETRIES \<and> ob_retry r + 1 \<ge> MAX_RETRIES \<and> snd (row_outcome env bus r) \<noteq> ''''))"
proof -
  have kept: "set (ob_completed r) \<subseteq> set (ob_completed r')"
    using outcome_keeps [of r env bus] by (auto simp: r'_def settled_row_def Let_def)
  show ?thesis
  proof (cases "snd (row_outcome env bus r) = ''''")
    case True
    then show ?thesis using kept outcome_success [OF True]
      by (auto simp: r'_def settled_row_def Let_def handlers_of_def eventOfRow_def)
  next
    case False
    have "ob_retry r < MAX_RETRIES" using assms(1) by (simp add: due_def)
    then show ?thesis using kept False backoff_bounds [of "ob_retry r + 1"]
      by (auto simp: r'_def t_def settled_row_def Let_def)
  qed
qed

end
