(* ===== verification/DeadLetter.thy ===== *)
theory DeadLetter
  imports OutboxFacts
begin

text \<open>
  The dead-letter queue (\<open>src/services/events/deadLetterQueueService.ts\<close>, \<open>deadLetterDelivery.ts\<close>,
  \<open>deadLetterRowLock.ts\<close>) and the retry of failed outbox events (\<open>outboxRetry.ts\<close>). An operation outside
  a transaction keeps what it wrote before it threw, so it returns the tables beside its result; one
  inside a transaction returns them only when it succeeds. Which row locks other sessions hold, and
  what a failed integration delivery answers when it runs again, are arguments. The texts of notes are
  left out where only their presence matters; audit rows are left out.
\<close>

datatype dlq_error =
    DlqNotFound
  | DlqAlreadyReplayed
  | DlqAlreadyDismissed
  | DlqBusy
  | DlqPayloadInvalid
  | DlqReplayFailed string
  | OutboxNotFound
  | OutboxNotFailed

definition DLQ_RESOLVED_STATUSES :: "dlq_status list" where
  "DLQ_RESOLVED_STATUSES = [Replayed, Dismissed]"

definition unresolved :: "dlq_row \<Rightarrow> bool" where
  "unresolved d \<longleftrightarrow> dl_status d \<notin> set DLQ_RESOLVED_STATUSES"

definition resolutionFields :: "dlq_status \<Rightarrow> nat option \<Rightarrow> string \<Rightarrow> int \<Rightarrow> dlq_row \<Rightarrow> dlq_row" where
  "resolutionFields status userId notes now d =
    d\<lparr>dl_status := status, dl_resolvedAt := Some now, dl_resolvedBy := userId, dl_notes := notes\<rparr>"

definition getById :: "nat \<Rightarrow> events_db \<Rightarrow> dlq_row option" where
  "getById i db = List.find (\<lambda>d. dl_id d = i) (ed_dlq db)"

text \<open>
  The session's clock and user, \<open>Date.toISOString\<close>, the JavaScript number of a JSON value (\<open>None\<close> for
  NaN), the rows other sessions hold the lock of, and the answer of a delivery run again (its error).
\<close>

record dlq_env =
  qe_now :: int
  qe_user :: "nat option"
  qe_iso :: "int \<Rightarrow> string"
  qe_number :: "json \<Rightarrow> rat option"
  qe_busy :: "nat \<Rightarrow> bool"
  qe_delivery :: "nat \<Rightarrow> json \<Rightarrow> string option"

section \<open>Deliveries\<close>

definition DELIVERY_DEAD_LETTER_SOURCES :: "string list" where
  "DELIVERY_DEAD_LETTER_SOURCES = [''webhook'', ''action_engine'', ''messenger'']"

definition deadLetterDeliveryJobId :: "dlq_env \<Rightarrow> dlq_row \<Rightarrow> nat option" where
  "deadLetterDeliveryJobId env d =
    (if dl_source d \<notin> set DELIVERY_DEAD_LETTER_SOURCES then None
     else (case qe_number env (js_get (dl_meta d) ''deliveryJobId'') of
         None \<Rightarrow> None
       | Some n \<Rightarrow> if n = of_int \<lfloor>n\<rfloor> \<and> n > 0 then Some (nat \<lfloor>n\<rfloor>) else None))"

text \<open>The delivery jobs put back in their own queue, and the other rows.\<close>

definition requeueDeliveryDeadLetters :: "dlq_env \<Rightarrow> dlq_row list \<Rightarrow> nat list \<times> dlq_row list" where
  "requeueDeliveryDeadLetters env rows =
    (List.map_filter (deadLetterDeliveryJobId env) rows, filter (\<lambda>d. deadLetterDeliveryJobId env d = None) rows)"

section \<open>Row locks\<close>

definition withDeadLetterRowLock ::
    "dlq_env \<Rightarrow> nat \<Rightarrow> 's \<times> (dlq_error + 'a) \<Rightarrow> 's \<Rightarrow> 's \<times> (dlq_error + 'a)" where
  "withDeadLetterRowLock env i outcome unchanged = (if qe_busy env i then (unchanged, Inl DlqBusy) else outcome)"

definition lockIdleDeadLetterRows :: "dlq_env \<Rightarrow> dlq_row list \<Rightarrow> dlq_row list" where
  "lockIdleDeadLetterRows env rows = filter (\<lambda>d. \<not> qe_busy env (dl_id d)) rows"

section \<open>Editing a payload\<close>

definition editPayload :: "dlq_env \<Rightarrow> nat \<Rightarrow> json \<Rightarrow> events_db \<Rightarrow> events_db \<times> (dlq_error + unit)" where
  "editPayload env i newPayload db =
    (if \<not> js_is_object newPayload then (db, Inl DlqPayloadInvalid)
     else withDeadLetterRowLock env i
       (case getById i db of
          None \<Rightarrow> (db, Inl DlqNotFound)
        | Some record \<Rightarrow>
            if dl_status record = Replayed then (db, Inl DlqAlreadyReplayed)
            else
              let db1 = db\<lparr>ed_dlq := update_rows (\<lambda>d. dl_id d = i) (\<lambda>d. d\<lparr>dl_payload := newPayload\<rparr>) (ed_dlq db)\<rparr>
              in (case List.find (\<lambda>r. ob_event r = dl_event record) (ed_outbox db) of
                    Some row \<Rightarrow>
                      if ob_status row \<noteq> ObCompleted then
                        (db1\<lparr>ed_outbox := update_rows (\<lambda>r. ob_id r = ob_id row) (\<lambda>r. r\<lparr>ob_payload := newPayload\<rparr>) (ed_outbox db)\<rparr>,
                         Inr ())
                      else (db1, Inr ())
                  | None \<Rightarrow> (db1, Inr ()))) db)"

section \<open>Replay\<close>

definition replay_event :: "dlq_env \<Rightarrow> dlq_row \<Rightarrow> json \<Rightarrow> domain_event" where
  "replay_event env d payload =
    \<lparr>de_id = dl_event d, de_type = dl_type d, de_aggType = dl_aggType d, de_aggId = dl_aggId d,
     de_payload = js_or payload empty_object,
     de_meta = js_put (js_put (js_put (js_or (dl_meta d) empty_object) ''replayedAt'' (JStr (qe_iso env (qe_now env))))
       ''replayedBy'' (case qe_user env of Some u \<Rightarrow> JNum (of_nat u) | None \<Rightarrow> JNull)) ''isReplay'' (JBool True),
     de_occurred = Some (case dl_quarantinedAt d of Some t \<Rightarrow> t | None \<Rightarrow> qe_now env)\<rparr>"

definition set_completed_handlers :: "string \<Rightarrow> string list \<Rightarrow> events_db \<Rightarrow> events_db" where
  "set_completed_handlers ev names db =
    db\<lparr>ed_outbox := update_rows (\<lambda>r. ob_event r = ev) (\<lambda>r. r\<lparr>ob_completed := names\<rparr>) (ed_outbox db)\<rparr>"

text \<open>The run of the event itself, or of the one delivery the row stands for: its error, if any.\<close>

definition replay_run ::
    "dlq_env \<Rightarrow> dlq_row \<Rightarrow> json \<Rightarrow> (nat \<Rightarrow> string option) \<Rightarrow> event_bus \<times> events_db \<Rightarrow> (event_bus \<times> events_db) \<times> string option" where
  "replay_run env record payload answers = (\<lambda>(bus, db).
    (case deadLetterDeliveryJobId env record of
       Some job \<Rightarrow> ((bus, db), qe_delivery env job payload)
     | None \<Rightarrow>
         let outboxRow = List.find (\<lambda>r. ob_event r = dl_event record) (ed_outbox db);
             previouslyCompleted = (case outboxRow of Some r \<Rightarrow> ob_completed r | None \<Rightarrow> []);
             (bus1, dispatch) = dispatchTracked bus (replay_event env record payload) previouslyCompleted answers
         in (case dispatch of
               Inl ps \<Rightarrow> ((bus1, db), Some (contract_message ps))
             | Inr d \<Rightarrow>
                 let db1 = (if outboxRow \<noteq> None then set_completed_handlers (dl_event record) (dr_completed d) db else db)
                 in ((bus1, db1), if dr_failures d \<noteq> [] then Some (failure_text (dr_failures d)) else None))))"

definition mark_replayed :: "dlq_env \<Rightarrow> dlq_row \<Rightarrow> json \<Rightarrow> events_db \<Rightarrow> events_db" where
  "mark_replayed env record payload db =
    db\<lparr>ed_dlq := update_rows (\<lambda>d. dl_id d = dl_id record)
         (\<lambda>d. (resolutionFields Replayed (qe_user env) ''replayed'' (qe_now env) d)\<lparr>dl_payload := payload\<rparr>) (ed_dlq db),
       ed_outbox := update_rows (\<lambda>r. ob_event r = dl_event record)
         (\<lambda>r. r\<lparr>ob_status := ObCompleted, ob_retry := dl_retry record, ob_error := None, ob_processed := Some (qe_now env),
            ob_payload := payload\<rparr>) (ed_outbox db)\<rparr>"

definition mark_replay_failed :: "dlq_row \<Rightarrow> string \<Rightarrow> events_db \<Rightarrow> events_db" where
  "mark_replay_failed record message db =
    db\<lparr>ed_dlq := update_rows (\<lambda>d. dl_id d = dl_id record)
         (\<lambda>d. d\<lparr>dl_reason := message, dl_stack := '''', dl_retry := dl_retry record + 1\<rparr>) (ed_dlq db)\<rparr>"

definition replayLocked ::
    "dlq_env \<Rightarrow> nat \<Rightarrow> json \<Rightarrow> (nat \<Rightarrow> string option) \<Rightarrow> event_bus \<times> events_db \<Rightarrow> (event_bus \<times> events_db) \<times> (dlq_error + unit)" where
  "replayLocked env i updatedPayload answers st =
    (case getById i (snd st) of
       None \<Rightarrow> (st, Inl DlqNotFound)
     | Some record \<Rightarrow>
         if dl_status record = Replayed then (st, Inl DlqAlreadyReplayed)
         else
           let payload = js_or updatedPayload (dl_payload record)
           in (case replay_run env record payload answers st of
                 ((bus1, db1), None) \<Rightarrow> ((bus1, mark_replayed env record payload db1), Inr ())
               | ((bus1, db1), Some message) \<Rightarrow> ((bus1, mark_replay_failed record message db1), Inl (DlqReplayFailed message))))"

definition replayEvent ::
    "dlq_env \<Rightarrow> nat \<Rightarrow> json \<Rightarrow> (nat \<Rightarrow> string option) \<Rightarrow> event_bus \<times> events_db \<Rightarrow> (event_bus \<times> events_db) \<times> (dlq_error + unit)" where
  "replayEvent env i updatedPayload answers st = withDeadLetterRowLock env i (replayLocked env i updatedPayload answers st) st"

text \<open>The rows of a batch one after another, with what each replay's handlers answer; a failure does not stop it.\<close>

fun replayBatch ::
    "dlq_env \<Rightarrow> (nat \<times> (nat \<Rightarrow> string option)) list \<Rightarrow> event_bus \<times> events_db \<Rightarrow>
     (event_bus \<times> events_db) \<times> nat \<times> (nat \<times> dlq_error) list" where
  "replayBatch env [] st = (st, 0, [])"
| "replayBatch env ((i, answers) # rest) st =
    (let (st1, result) = replayEvent env i JNull answers st;
         (st2, succeeded, errors) = replayBatch env rest st1
     in (case result of Inr _ \<Rightarrow> (st2, succeeded + 1, errors) | Inl e \<Rightarrow> (st2, succeeded, (i, e) # errors)))"

section \<open>Dismissal, requeue and purge\<close>

definition dismissEvent :: "dlq_env \<Rightarrow> nat \<Rightarrow> string \<Rightarrow> events_db \<Rightarrow> events_db \<times> (dlq_error + unit)" where
  "dismissEvent env i notes db = withDeadLetterRowLock env i
    (case getById i db of
       None \<Rightarrow> (db, Inl DlqNotFound)
     | Some record \<Rightarrow>
         if dl_status record = Replayed then (db, Inl DlqAlreadyReplayed)
         else if dl_status record = Dismissed then (db, Inl DlqAlreadyDismissed)
         else (db\<lparr>ed_dlq := update_rows (\<lambda>d. dl_id d = i)
             (resolutionFields Dismissed (qe_user env) (text_or notes ''dismissed'') (qe_now env)) (ed_dlq db)\<rparr>, Inr ())) db"

text \<open>A row the outbox no longer has is inserted again under its event id.\<close>

definition reinserted_row :: "dlq_env \<Rightarrow> nat \<Rightarrow> dlq_row \<Rightarrow> outbox_row" where
  "reinserted_row env i d =
    \<lparr>ob_id = i, ob_event = dl_event d, ob_type = dl_type d, ob_aggType = dl_aggType d, ob_aggId = dl_aggId d,
     ob_status = ObPending, ob_payload = js_or (dl_payload d) empty_object,
     ob_meta = js_put (js_or (dl_meta d) empty_object) ''replayedFromDlq'' (JBool True), ob_retry = 0, ob_next = None,
     ob_error = Some '''', ob_occurred = Some (qe_now env), ob_processed = None, ob_lockedAt = None, ob_lockedBy = Some '''',
     ob_completed = []\<rparr>"

fun reinsert_rows :: "dlq_env \<Rightarrow> dlq_row list \<Rightarrow> events_db \<Rightarrow> events_db" where
  "reinsert_rows env [] db = db"
| "reinsert_rows env (d # ds) db = reinsert_rows env ds
    (db\<lparr>ed_outbox := ed_outbox db @ [reinserted_row env (ed_nextOutbox db) d], ed_nextOutbox := ed_nextOutbox db + 1\<rparr>)"

record requeue_result =
  rq_dlqIds :: "nat list"
  rq_events :: "string list"
  rq_reinserted :: "string list"
  rq_jobs :: "nat list"

definition requeueUnresolvedToOutbox :: "dlq_env \<Rightarrow> events_db \<Rightarrow> events_db \<times> requeue_result" where
  "requeueUnresolvedToOutbox env db =
    (let pending = lockIdleDeadLetterRows env (sort_key dl_id (filter unresolved (ed_dlq db)));
         (jobs, outboxRows) = requeueDeliveryDeadLetters env pending;
         eventIds = map dl_event outboxRows;
         existing = map ob_event (filter (\<lambda>r. ob_event r \<in> set eventIds) (ed_outbox db));
         db1 = db\<lparr>ed_outbox := update_rows (\<lambda>r. ob_event r \<in> set existing)
           (\<lambda>r. r\<lparr>ob_status := ObPending, ob_retry := 0, ob_next := None, ob_error := None, ob_processed := None,
              ob_lockedAt := None, ob_lockedBy := None\<rparr>) (ed_outbox db)\<rparr>;
         missing = filter (\<lambda>d. dl_event d \<notin> set existing) outboxRows;
         db2 = reinsert_rows env missing db1;
         dlqIds = map dl_id pending
     in (db2\<lparr>ed_dlq := update_rows (\<lambda>d. dl_id d \<in> set dlqIds)
           (resolutionFields Replayed (qe_user env) ''requeued'' (qe_now env)) (ed_dlq db2)\<rparr>,
         \<lparr>rq_dlqIds = dlqIds, rq_events = map dl_event pending, rq_reinserted = map dl_event missing, rq_jobs = jobs\<rparr>))"

definition purgeResolved :: "events_db \<Rightarrow> events_db \<times> nat" where
  "purgeResolved db =
    (db\<lparr>ed_dlq := delete_rows (\<lambda>d. dl_status d \<in> set DLQ_RESOLVED_STATUSES) (ed_dlq db)\<rparr>,
     length (filter (\<lambda>d. dl_status d \<in> set DLQ_RESOLVED_STATUSES) (ed_dlq db)))"

section \<open>Retry of failed outbox events\<close>

record retry_result =
  rt_retried :: nat
  rt_resolved :: nat
  rt_busy :: "string list"

definition retryFailedOutboxEvents :: "dlq_env \<Rightarrow> string option \<Rightarrow> events_db \<Rightarrow> dlq_error + (events_db \<times> retry_result)" where
  "retryFailedOutboxEvents env eventId db =
    res_bind (case eventId of
        None \<Rightarrow> Inr ()
      | Some ev \<Rightarrow> (case List.find (\<lambda>r. ob_event r = ev) (ed_outbox db) of
            None \<Rightarrow> Inl OutboxNotFound
          | Some row \<Rightarrow> if ob_status row \<noteq> ObFailed then Inl OutboxNotFailed else Inr ())) (\<lambda>_.
     let failed = sort_key ob_id (filter (\<lambda>r. ob_status r = ObFailed \<and>
           (case eventId of Some ev \<Rightarrow> ob_event r = ev | None \<Rightarrow> True)) (ed_outbox db));
         deadLetters = sort_key dl_id (filter (\<lambda>d. dl_event d \<in> set (map ob_event failed) \<and> unresolved d) (ed_dlq db));
         idle = lockIdleDeadLetterRows env deadLetters;
         idleIds = map dl_id idle;
         busyEvents = set_of (map dl_event (filter (\<lambda>d. dl_id d \<notin> set idleIds) deadLetters))
     in if failed = [] then Inr (db, \<lparr>rt_retried = 0, rt_resolved = 0, rt_busy = []\<rparr>)
        else if eventId \<noteq> None \<and> busyEvents \<noteq> [] then Inl DlqBusy
        else
          let retryIds = map ob_id (filter (\<lambda>r. ob_event r \<notin> set busyEvents) failed);
              db1 = db\<lparr>ed_outbox := update_rows (\<lambda>r. ob_id r \<in> set retryIds)
                  (\<lambda>r. r\<lparr>ob_status := ObPending, ob_retry := 0, ob_next := None, ob_error := None, ob_lockedAt := None,
                     ob_lockedBy := None\<rparr>) (ed_outbox db),
                ed_dlq := update_rows (\<lambda>d. dl_id d \<in> set idleIds)
                  (resolutionFields Replayed (qe_user env) ''retried'' (qe_now env)) (ed_dlq db)\<rparr>
          in Inr (db1, \<lparr>rt_retried = length retryIds, rt_resolved = length idle, rt_busy = busyEvents\<rparr>))"

end
