(* ===== verification/OutboxClaims.thy ===== *)
theory OutboxClaims
  imports OutboxFacts
begin

text \<open>
  The properties of the outbox: a batch, a sequence of batches, recording an event and the purge.
\<close>

section \<open>Runs of one worker\<close>

text \<open>The batches of one worker, with new events recorded between them.\<close>

datatype outbox_act = RunBatch batch_env | RecordNew int domain_event

fun run_act :: "nat \<Rightarrow> outbox_act \<Rightarrow> event_bus \<Rightarrow> events_db \<Rightarrow> event_bus \<times> events_db" where
  "run_act n (RunBatch e) bus db = (let (bus', db', c) = processPendingBatch e n False bus db in (bus', db'))"
| "run_act n (RecordNew t e) bus db = (case saveToOutbox t e db of Inl x \<Rightarrow> (bus, db) | Inr db' \<Rightarrow> (bus, db'))"

fun run_acts :: "nat \<Rightarrow> outbox_act list \<Rightarrow> event_bus \<Rightarrow> events_db \<Rightarrow> event_bus \<times> events_db" where
  "run_acts n [] bus db = (bus, db)"
| "run_acts n (a # acts) bus db = (let (bus', db') = run_act n a bus db in run_acts n acts bus' db')"

text \<open>The batches of a run that start while the row \<open>i\<close> is due.\<close>

fun due_in :: "outbox_act \<Rightarrow> nat \<Rightarrow> events_db \<Rightarrow> bool" where
  "due_in (RunBatch e) i db = list_ex (\<lambda>r. ob_id r = i \<and> due (be_now e) r) (ed_outbox db)"
| "due_in (RecordNew t e) i db = False"

fun due_batches :: "nat \<Rightarrow> nat \<Rightarrow> outbox_act list \<Rightarrow> event_bus \<Rightarrow> events_db \<Rightarrow> nat" where
  "due_batches n i [] bus db = 0"
| "due_batches n i (a # acts) bus db =
    (let (bus', db') = run_act n a bus db in (if due_in a i db then 1 else 0) + due_batches n i acts bus' db')"

text \<open>The attempts a row has left, and those of the rows a batch takes before row \<open>i\<close>.\<close>

definition finished :: "outbox_row \<Rightarrow> bool" where
  "finished r \<longleftrightarrow> ob_status r = ObCompleted \<or> ob_status r = ObFailed"

definition attempts_left :: "outbox_row \<Rightarrow> nat" where
  "attempts_left r = (if finished r then 0 else MAX_RETRIES - ob_retry r)"

definition earlier_work :: "nat \<Rightarrow> events_db \<Rightarrow> nat" where
  "earlier_work i db = (\<Sum>r \<leftarrow> ed_outbox db. if ob_id r < i then attempts_left r else 0)"

lemma batch_other_row:
  assumes "outbox_ok db" "processPendingBatch env n False bus db = (bus', db', c)" "r \<in> set (ed_outbox db)"
    and "r \<notin> set (candidateEvents (be_now env) n db)"
  shows "r \<in> set (ed_outbox db')"
  using updated_in [OF assms(3), of "\<lambda>r. r \<in> set (candidateEvents (be_now env) n db)" "settled_row env bus"] assms(4)
  by (simp add: batch_as_update(1) [OF assms(1,2)])

lemma batch_taken_row:
  assumes "outbox_ok db" "processPendingBatch env n False bus db = (bus', db', c)" "r \<in> set (candidateEvents (be_now env) n db)"
  shows "settled_row env bus r \<in> set (ed_outbox db')"
  using updated_in [OF candidates_due(1) [OF assms(3)], of "\<lambda>r. r \<in> set (candidateEvents (be_now env) n db)" "settled_row env bus"]
    assms(3) by (simp add: batch_as_update(1) [OF assms(1,2)])

lemma insert_ok:
  assumes "outbox_ok db" "\<not> list_ex (\<lambda>r. ob_event r = de_id e) (ed_outbox db)"
  shows "outbox_ok (insert_outbox now e db)"
  using assms
  by (auto simp: outbox_ok_def insert_outbox_def outboxRowOf_def status_ok_def dlq_ok_def MAX_RETRIES_def OUTBOX_MAX_ATTEMPTS_def
      list_ex_iff less_SucI)

lemma save_cases:
  assumes "saveToOutbox t e db = Inr db'"
  shows "db' = insert_outbox t e db" "\<not> list_ex (\<lambda>r. ob_event r = de_id e) (ed_outbox db)"
  using assms by (auto simp: saveToOutbox_def split: if_splits)

lemma record_cases:
  assumes "run_act n (RecordNew t e) bus db = (bus', db')"
  shows "bus' = bus \<and> (db' = db \<or> db' = insert_outbox t e db \<and> \<not> list_ex (\<lambda>r. ob_event r = de_id e) (ed_outbox db))"
  using assms by (auto dest: save_cases split: sum.splits)

text \<open>Every attempt a batch makes is one less for its row.\<close>

lemma attempt_used:
  assumes "status_ok r" "due (be_now env) r"
  shows "Suc (attempts_left (settled_row env bus r)) \<le> attempts_left r"
proof -
  have "\<not> finished r" "ob_retry r < MAX_RETRIES"
    using assms failed_not_due by (auto simp: finished_def due_def)
  with settled_cases [OF assms(2) refl refl, of bus] show ?thesis by (auto simp: attempts_left_def finished_def)
qed

lemma length_filter_sum: "length (filter p xs) = (\<Sum>x \<leftarrow> xs. if p x then 1 else 0)"
  by (induction xs) simp_all

lemma same_length: "set xs = set ys \<Longrightarrow> distinct xs \<Longrightarrow> distinct ys \<Longrightarrow> length xs = length ys"
  by (metis distinct_card)

lemma batch_earlier_work:
  assumes "outbox_ok db" "processPendingBatch env n False bus db = (bus', db', c)"
  shows "earlier_work i db' + length (filter (\<lambda>q. ob_id q < i) (candidateEvents (be_now env) n db)) \<le> earlier_work i db"
proof -
  let ?taken = "candidateEvents (be_now env) n db"
  let ?w = "\<lambda>r. if ob_id r < i then attempts_left r else 0"
  have dist: "distinct (ed_outbox db)" "distinct ?taken"
    using assms(1) distinct_candidates by (auto simp: outbox_ok_def distinct_map)
  have "set (filter (\<lambda>q. ob_id q < i) ?taken) = set (filter (\<lambda>q. q \<in> set ?taken \<and> ob_id q < i) (ed_outbox db))"
    using candidates_due(1) by auto
  then have "length (filter (\<lambda>q. ob_id q < i) ?taken) = length (filter (\<lambda>q. q \<in> set ?taken \<and> ob_id q < i) (ed_outbox db))"
    by (rule same_length) (simp_all only: distinct_filter dist)
  also have "\<dots> = (\<Sum>q \<leftarrow> ed_outbox db. if q \<in> set ?taken \<and> ob_id q < i then 1 else 0)"
    by (rule length_filter_sum)
  finally have taken: "length (filter (\<lambda>q. ob_id q < i) ?taken) = (\<Sum>q \<leftarrow> ed_outbox db. if q \<in> set ?taken \<and> ob_id q < i then 1 else 0)" .
  have "earlier_work i db' = (\<Sum>q \<leftarrow> ed_outbox db. ?w (if q \<in> set ?taken then settled_row env bus q else q))"
    by (simp add: earlier_work_def batch_as_update(1) [OF assms] update_rows_def comp_def)
  then have "earlier_work i db' + length (filter (\<lambda>q. ob_id q < i) ?taken) =
      (\<Sum>q \<leftarrow> ed_outbox db. ?w (if q \<in> set ?taken then settled_row env bus q else q) + (if q \<in> set ?taken \<and> ob_id q < i then 1 else 0))"
    by (simp only: taken sum_list_addf)
  also have "\<dots> \<le> (\<Sum>q \<leftarrow> ed_outbox db. ?w q)"
  proof (rule sum_list_mono)
    fix q assume q: "q \<in> set (ed_outbox db)"
    then have "status_ok q" using assms(1) by (simp add: outbox_ok_def)
    then show "?w (if q \<in> set ?taken then settled_row env bus q else q) + (if q \<in> set ?taken \<and> ob_id q < i then 1 else 0) \<le> ?w q"
      using attempt_used [of q env bus] candidates_due(2) [of q] by auto
  qed
  finally show ?thesis by (simp add: earlier_work_def)
qed

text \<open>A due row that a batch passes over has a full batch of due rows before it.\<close>

lemma passed_over:
  assumes "outbox_ok db" "r \<in> set (ed_outbox db)" "due now r" "r \<notin> set (candidateEvents now n db)"
  shows "length (filter (\<lambda>q. ob_id q < ob_id r) (candidateEvents now n db)) = n"
proof -
  let ?l = "sort_key ob_id (filter (due now) (ed_outbox db))"
  have "r \<in> set (take n ?l @ drop n ?l)" using assms(2,3) by simp
  then have r: "r \<in> set (drop n ?l)" using assms(4) by (auto simp: candidateEvents_def simp del: append_take_drop_id)
  then have "n < length ?l" by (cases "n < length ?l") auto
  then have len: "length (take n ?l) = n" by simp
  have "sorted (map ob_id (take n ?l) @ map ob_id (drop n ?l))" by (metis append_take_drop_id map_append sorted_sort_key)
  then have "\<forall>q \<in> set (take n ?l). \<forall>x \<in> set (drop n ?l). ob_id q \<le> ob_id x" unfolding sorted_append by auto
  then have le: "\<forall>q \<in> set (take n ?l). ob_id q \<le> ob_id r" using r by blast
  have "ob_id q < ob_id r" if q: "q \<in> set (take n ?l)" for q
  proof -
    have c: "q \<in> set (candidateEvents now n db)" using q by (simp add: candidateEvents_def)
    then have "q \<in> set (ed_outbox db)" "q \<noteq> r" using assms(4) candidates_due(1) by blast+
    then have "ob_id q \<noteq> ob_id r" using assms(1,2) by (auto simp: outbox_ok_def distinct_map inj_on_def)
    with le q show ?thesis by fastforce
  qed
  then have "filter (\<lambda>q. ob_id q < ob_id r) (take n ?l) = take n ?l" by (simp add: filter_id_conv)
  with len show ?thesis by (simp add: candidateEvents_def)
qed

lemma act_keeps_ok:
  assumes "outbox_ok db" "run_act n a bus db = (bus', db')"
  shows "outbox_ok db' \<and> bus_handlers bus' = bus_handlers bus"
proof (cases a)
  case (RunBatch e)
  obtain c where "processPendingBatch e n False bus db = (bus', db', c)"
    using assms(2) by (auto simp: RunBatch split: prod.splits)
  with batch_keeps_ok [OF assms(1)] batch_as_update(2) [OF assms(1)] show ?thesis by blast
next
  case (RecordNew t e)
  with record_cases [of n t e bus db bus' db'] assms insert_ok [OF assms(1), of e t] show ?thesis by auto
qed

text \<open>A finished row keeps its state; no batch takes it again.\<close>

lemma act_keeps_finished:
  assumes "outbox_ok db" "run_act n a bus db = (bus', db')" "r \<in> set (ed_outbox db)" "finished r"
  shows "r \<in> set (ed_outbox db')"
proof (cases a)
  case (RunBatch e)
  obtain c where b: "processPendingBatch e n False bus db = (bus', db', c)"
    using assms(2) by (auto simp: RunBatch split: prod.splits)
  have "status_ok r" using assms(1,3) by (simp add: outbox_ok_def)
  then have "\<not> due (be_now e) r" using assms(4) failed_not_due by (auto simp: finished_def due_def)
  then show ?thesis using batch_other_row [OF assms(1) b assms(3)] candidates_due(2) by blast
next
  case (RecordNew t e)
  with record_cases [of n t e bus db bus' db'] assms show ?thesis by (auto simp: insert_outbox_def)
qed

text \<open>
  Progress: while a row is pending, each batch that starts when it is due takes it, or takes a full
  batch of earlier rows.
\<close>

definition steps_left :: "nat \<Rightarrow> outbox_row \<Rightarrow> events_db \<Rightarrow> nat" where
  "steps_left n r db = attempts_left r + earlier_work (ob_id r) db div n"

lemma batch_progress:
  assumes "outbox_ok db" "processPendingBatch e n False bus db = (bus', db', c)" "r \<in> set (ed_outbox db)" "ob_status r = ObPending" "0 < n"
  shows "\<exists>r' \<in> set (ed_outbox db'). ob_id r' = ob_id r \<and> ob_event r' = ob_event r \<and>
    (finished r' \<or> ob_status r' = ObPending \<and>
      steps_left n r' db' + (if due (be_now e) r then 1 else 0) \<le> steps_left n r db \<and>
      (ob_next r' = ob_next r \<or> (\<exists>u. ob_next r' = Some u \<and> u \<le> be_at e (ob_id r) + 300000)))"
proof -
  let ?taken = "candidateEvents (be_now e) n db"
  note w = batch_earlier_work [OF assms(1,2), of "ob_id r"]
  then have mono: "earlier_work (ob_id r) db' div n \<le> earlier_work (ob_id r) db div n" by (intro div_le_mono) simp
  show ?thesis
  proof (cases "r \<in> set ?taken")
    case True
    have due: "due (be_now e) r" using candidates_due(2) True by blast
    have "status_ok r" using assms(1,3) by (simp add: outbox_ok_def)
    from settled_cases [OF due refl refl, of bus] attempt_used [OF this due, of bus] batch_taken_row [OF assms(1,2) True] mono
    show ?thesis by (intro bexI [of _ "settled_row e bus r"]) (auto simp: finished_def steps_left_def)
  next
    case False
    have "Suc (earlier_work (ob_id r) db' div n) \<le> earlier_work (ob_id r) db div n" if "due (be_now e) r"
    proof -
      have "earlier_work (ob_id r) db' + n \<le> earlier_work (ob_id r) db"
        using w passed_over [OF assms(1,3) that False] by simp
      then have "(earlier_work (ob_id r) db' + n) div n \<le> earlier_work (ob_id r) db div n" by (rule div_le_mono)
      then show ?thesis using assms(5) by simp
    qed
    then show ?thesis using batch_other_row [OF assms(1-3) False] assms(4) mono
      by (intro bexI [of _ r]) (auto simp: steps_left_def)
  qed
qed

lemma act_progress:
  assumes "outbox_ok db" "run_act n a bus db = (bus', db')" "r \<in> set (ed_outbox db)" "ob_status r = ObPending" "0 < n"
  shows "\<exists>r' \<in> set (ed_outbox db'). ob_id r' = ob_id r \<and> ob_event r' = ob_event r \<and>
    (finished r' \<or> ob_status r' = ObPending \<and>
      steps_left n r' db' + (if due_in a (ob_id r) db then 1 else 0) \<le> steps_left n r db \<and>
      (ob_next r' = ob_next r \<or> (\<exists>e u. a = RunBatch e \<and> ob_next r' = Some u \<and> u \<le> be_at e (ob_id r) + 300000)))"
proof (cases a)
  case (RunBatch e)
  obtain c where b: "processPendingBatch e n False bus db = (bus', db', c)"
    using assms(2) by (auto simp: RunBatch split: prod.splits)
  have "due_in a (ob_id r) db = due (be_now e) r"
    using assms(1,3) by (auto simp: RunBatch list_ex_iff outbox_ok_def distinct_map inj_on_def)
  with batch_progress [OF assms(1) b assms(3-5)] show ?thesis by (auto simp: RunBatch)
next
  case (RecordNew t e)
  have "ob_id r < ed_nextOutbox db" using assms(1,3) by (simp add: outbox_ok_def)
  with RecordNew record_cases [of n t e bus db bus' db'] assms show ?thesis
    by (intro bexI [of _ r]) (auto simp: insert_outbox_def outboxRowOf_def steps_left_def earlier_work_def)
qed

text \<open>
  C27: one batch of the outbox worker. Exactly the due events it took are processed and counted; each
  comes out completed with every handler of its type and of all events among its completed ones, or
  pending with one more attempt counted and the next one due between five seconds and five minutes
  later, or, at the fifth failure, failed for good and quarantined in the dead-letter queue when that
  write works; no completed handler is forgotten, no other event is touched and no event is lost.
\<close>

theorem batch_settles_due:
  assumes "outbox_ok db" "processPendingBatch env n False bus db = (bus', db', c)"
    and "taken = candidateEvents (be_now env) n db"
  shows "bc_processed c = length taken \<and> bc_succeeded c + bc_failed c = length taken \<and> outbox_ok db' \<and>
    map ob_event (ed_outbox db') = map ob_event (ed_outbox db) \<and>
    (\<forall>r \<in> set (ed_outbox db) - set taken. r \<in> set (ed_outbox db')) \<and>
    (\<forall>r \<in> set taken. due (be_now env) r \<and> (\<exists>r' \<in> set (ed_outbox db'). ob_event r' = ob_event r \<and>
      set (ob_completed r) \<subseteq> set (ob_completed r') \<and>
      ((ob_status r' = ObCompleted \<and> set (bus_handlers bus (ob_type r)) \<union> set (bus_handlers bus ALL_EVENTS) \<subseteq> set (ob_completed r')) \<or>
       (ob_status r' = ObPending \<and> ob_retry r' = ob_retry r + 1 \<and> ob_retry r' < MAX_RETRIES \<and>
          (\<exists>u. ob_next r' = Some u \<and> be_at env (ob_id r) + 5000 \<le> u \<and> u \<le> be_at env (ob_id r) + 300000)) \<or>
       (ob_status r' = ObFailed \<and> ob_retry r' = MAX_RETRIES \<and> (be_dlqOk env (ob_id r) \<longrightarrow> quarantined db' (ob_event r))))))"
proof -
  note f = batch_as_update [OF assms(1,2), folded assms(3)]
  have "due (be_now env) r \<and> (\<exists>r' \<in> set (ed_outbox db'). ob_event r' = ob_event r \<and>
      set (ob_completed r) \<subseteq> set (ob_completed r') \<and>
      ((ob_status r' = ObCompleted \<and> set (bus_handlers bus (ob_type r)) \<union> set (bus_handlers bus ALL_EVENTS) \<subseteq> set (ob_completed r')) \<or>
       (ob_status r' = ObPending \<and> ob_retry r' = ob_retry r + 1 \<and> ob_retry r' < MAX_RETRIES \<and>
          (\<exists>u. ob_next r' = Some u \<and> be_at env (ob_id r) + 5000 \<le> u \<and> u \<le> be_at env (ob_id r) + 300000)) \<or>
       (ob_status r' = ObFailed \<and> ob_retry r' = MAX_RETRIES \<and> (be_dlqOk env (ob_id r) \<longrightarrow> quarantined db' (ob_event r)))))"
    if r: "r \<in> set taken" for r
  proof -
    have due: "due (be_now env) r" using candidates_due(2) r unfolding assms(3) by blast
    have "settled_row env bus r \<in> set (ed_outbox db')"
      using batch_taken_row [OF assms(1,2)] r unfolding assms(3) by blast
    moreover note settled_cases [OF due refl refl, of bus] f(6) [OF r]
    ultimately show ?thesis using due by (intro conjI bexI [of _ "settled_row env bus r"]) auto
  qed
  moreover have "r \<in> set (ed_outbox db')" if "r \<in> set (ed_outbox db) - set taken" for r
    using that updated_in [of r "ed_outbox db" "\<lambda>r. r \<in> set taken" "settled_row env bus"] by (simp add: f(1))
  moreover have "map ob_event (ed_outbox db') = map ob_event (ed_outbox db)" by (auto simp: f(1) update_rows_def comp_def)
  ultimately show ?thesis using f(3,4) batch_keeps_ok [OF assms(1,2)] by blast
qed

lemma acts_keep_finished:
  assumes "outbox_ok db" "q \<in> set (ed_outbox db)" "finished q" "run_acts n acts bus db = (bus', db')"
  shows "q \<in> set (ed_outbox db')"
  using assms
proof (induction acts arbitrary: bus db)
  case (Cons a acts)
  obtain b1 d1 where s: "run_act n a bus db = (b1, d1)" by (metis prod.exhaust)
  show ?case
    using Cons.IH [of d1 b1] Cons.prems act_keeps_ok [OF Cons.prems(1) s] act_keeps_finished [OF Cons.prems(1) s] s by simp
qed simp

lemma acts_progress:
  assumes "outbox_ok db" "q \<in> set (ed_outbox db)" "ob_status q = ObPending" "run_acts n acts bus db = (bus', db')" "0 < n"
  shows "\<exists>r' \<in> set (ed_outbox db'). ob_id r' = ob_id q \<and> ob_event r' = ob_event q \<and>
    (finished r' \<or> ob_status r' = ObPending \<and> due_batches n (ob_id q) acts bus db < steps_left n q db \<and>
      (ob_next r' = ob_next q \<or> (\<exists>e u. RunBatch e \<in> set acts \<and> ob_next r' = Some u \<and> u \<le> be_at e (ob_id q) + 300000)))"
  using assms
proof (induction acts arbitrary: bus db q)
  case Nil
  have "status_ok q" using Nil.prems by (simp add: outbox_ok_def)
  then have "0 < attempts_left q" using Nil.prems(3) by (auto simp: attempts_left_def finished_def status_ok_def)
  then show ?case using Nil.prems by (intro bexI [of _ q]) (auto simp: steps_left_def)
next
  case (Cons a acts)
  obtain b1 d1 where s: "run_act n a bus db = (b1, d1)" by (metis prod.exhaust)
  with Cons.prems(4) have rest: "run_acts n acts b1 d1 = (bus', db')" by simp
  have ok: "outbox_ok d1" using act_keeps_ok [OF Cons.prems(1) s] by blast
  from act_progress [OF Cons.prems(1) s Cons.prems(2,3,5)] obtain q1 where
    q1: "q1 \<in> set (ed_outbox d1)" "ob_id q1 = ob_id q" "ob_event q1 = ob_event q"
      "finished q1 \<or> ob_status q1 = ObPending \<and>
        steps_left n q1 d1 + (if due_in a (ob_id q) db then 1 else 0) \<le> steps_left n q db \<and>
        (ob_next q1 = ob_next q \<or> (\<exists>e u. a = RunBatch e \<and> ob_next q1 = Some u \<and> u \<le> be_at e (ob_id q) + 300000))" by blast
  show ?case
  proof (cases "finished q1")
    case True
    then show ?thesis using acts_keep_finished [OF ok q1(1) True rest] q1(2,3) by blast
  next
    case False
    with q1(4) have pend: "ob_status q1 = ObPending" by blast
    from q1(4) False have less: "steps_left n q1 d1 + (if due_in a (ob_id q) db then 1 else 0) \<le> steps_left n q db"
      and next1: "ob_next q1 = ob_next q \<or> (\<exists>e u. a = RunBatch e \<and> ob_next q1 = Some u \<and> u \<le> be_at e (ob_id q) + 300000)" by blast+
    from Cons.IH [OF ok q1(1) pend rest Cons.prems(5)] obtain r' where r': "r' \<in> set (ed_outbox db')" "ob_id r' = ob_id q" "ob_event r' = ob_event q"
      "finished r' \<or> ob_status r' = ObPending \<and> due_batches n (ob_id q) acts b1 d1 < steps_left n q1 d1 \<and>
        (ob_next r' = ob_next q1 \<or> (\<exists>e u. RunBatch e \<in> set acts \<and> ob_next r' = Some u \<and> u \<le> be_at e (ob_id q) + 300000))"
      unfolding q1(2,3) by blast
    have "due_batches n (ob_id q) (a # acts) bus db < steps_left n q db" if "due_batches n (ob_id q) acts b1 d1 < steps_left n q1 d1"
      using that less by (simp add: s)
    moreover have "ob_next r' = ob_next q \<or> (\<exists>e u. RunBatch e \<in> set (a # acts) \<and> ob_next r' = Some u \<and> u \<le> be_at e (ob_id q) + 300000)"
      if "ob_next r' = ob_next q1 \<or> (\<exists>e u. RunBatch e \<in> set acts \<and> ob_next r' = Some u \<and> u \<le> be_at e (ob_id q) + 300000)"
      using that next1 by auto
    ultimately show ?thesis using r' by blast
  qed
qed


section \<open>Handlers\<close>

lemma batch_keeps_completed:
  assumes "outbox_ok db" "processPendingBatch env n False bus db = (bus', db', c)" "r \<in> set (ed_outbox db)"
  shows "\<exists>r' \<in> set (ed_outbox db'). ob_event r' = ob_event r \<and> set (ob_completed r) \<subseteq> set (ob_completed r')"
proof (cases "r \<in> set (candidateEvents (be_now env) n db)")
  case True
  then have "due (be_now env) r" by (rule candidates_due(2))
  from settled_cases [OF this refl refl, of bus] batch_taken_row [OF assms(1,2) True] show ?thesis
    by (intro bexI [of _ "settled_row env bus r"]) auto
next
  case False
  then show ?thesis using batch_other_row [OF assms] by blast
qed

lemma acts_keep_completed:
  assumes "outbox_ok db" "r \<in> set (ed_outbox db)" "run_acts n acts bus db = (bus', db')"
  shows "\<exists>r' \<in> set (ed_outbox db'). ob_event r' = ob_event r \<and> set (ob_completed r) \<subseteq> set (ob_completed r')"
  using assms
proof (induction acts arbitrary: bus db r)
  case (Cons a acts)
  obtain bus1 db1 where s: "run_act n a bus db = (bus1, db1)" by (metis prod.exhaust)
  have "\<exists>r1 \<in> set (ed_outbox db1). ob_event r1 = ob_event r \<and> set (ob_completed r) \<subseteq> set (ob_completed r1)"
  proof (cases a)
    case (RunBatch e)
    obtain c where "processPendingBatch e n False bus db = (bus1, db1, c)" using s by (auto simp: RunBatch split: prod.splits)
    from batch_keeps_completed [OF Cons.prems(1) this Cons.prems(2)] show ?thesis .
  next
    case (RecordNew t e)
    with record_cases [of n t e bus db bus1 db1] s Cons.prems(2) show ?thesis by (auto simp: insert_outbox_def)
  qed
  then obtain r1 where r1: "r1 \<in> set (ed_outbox db1)" "ob_event r1 = ob_event r" "set (ob_completed r) \<subseteq> set (ob_completed r1)" by blast
  have "outbox_ok db1" "run_acts n acts bus1 db1 = (bus', db')" using act_keeps_ok [OF Cons.prems(1) s] Cons.prems(3) s by simp_all
  from Cons.IH [OF this(1) r1(1) this(2)] r1(2,3) show ?case by fastforce
qed auto

text \<open>What a dispatch records: the names it had and the handlers that resolved, whether the others failed or not.\<close>

lemma settled_completed:
  assumes "e = eventOfRow (be_iso env) (be_now env) r" "validateDomainEvent e = []" "targets = dispatch_targets bus e (ob_completed r)"
  shows "set (ob_completed (settled_row env bus r)) =
    set (ob_completed r) \<union> {targets ! j | j. j < length targets \<and> be_answers env (ob_id r) j = None}"
proof -
  let ?run = "snd (dispatchTracked bus e (ob_completed r) (be_answers env (ob_id r)))"
  obtain d where d: "?run = Inr d" using assms(2) by (simp add: dispatchTracked_def)
  have "ob_completed (settled_row env bus r) = dr_completed d"
    using d assms(1) by (simp add: settled_row_def row_outcome_def dispatch_outcome_def Let_def)
  with bus.completed [OF d] assms(3) show ?thesis by simp
qed

text \<open>
  C35: a handler that has resolved for an event is not run for it again. A batch that takes an event of a
  valid form tries its registered handlers that are not among its completed ones; afterwards the completed
  ones are the former together with exactly the tried handlers that resolved, also when others of them
  failed and the event is retried. After any further batches and new events a handler that resolved is
  still recorded with the event and no dispatch of the event runs it.
\<close>

theorem resolved_handlers_not_rerun:
  assumes "outbox_ok db" "processPendingBatch env n False bus db = (bus1, db1, c)"
    and "r \<in> set (candidateEvents (be_now env) n db)" "e = eventOfRow (be_iso env) (be_now env) r" "validateDomainEvent e = []"
    and "targets = dispatch_targets bus e (ob_completed r)" "run_acts n acts bus1 db1 = (bus', db')"
  shows "(\<exists>r1 \<in> set (ed_outbox db1). ob_event r1 = ob_event r \<and> set (ob_completed r1) =
      set (ob_completed r) \<union> {targets ! j | j. j < length targets \<and> be_answers env (ob_id r) j = None}) \<and>
    (\<exists>r' \<in> set (ed_outbox db'). ob_event r' = ob_event r \<and>
      (\<forall>j < length targets. be_answers env (ob_id r) j = None \<longrightarrow> targets ! j \<in> set (ob_completed r') \<and>
        (\<forall>e'. targets ! j \<notin> set (dispatch_targets bus' e' (ob_completed r')))))"
proof -
  let ?r1 = "settled_row env bus r"
  note r1 = batch_taken_row [OF assms(1-3)] settled_completed [OF assms(4-6)]
  from acts_keep_completed [OF batch_keeps_ok [OF assms(1,2)] r1(1) assms(7)] obtain r' where
    r': "r' \<in> set (ed_outbox db')" "ob_event r' = ob_event r" "set (ob_completed ?r1) \<subseteq> set (ob_completed r')" by auto
  have "targets ! j \<in> set (ob_completed r')" if "j < length targets" "be_answers env (ob_id r) j = None" for j
    using that r'(3) r1(2) by blast
  moreover have "h \<notin> set (dispatch_targets bus' e' (ob_completed r'))" if "h \<in> set (ob_completed r')" for h e'
    using that bus.tried_new [of h bus' e' "ob_completed r'"] by blast
  ultimately show ?thesis using r1 r' by (metis settled_key(2))
qed

section \<open>Recording\<close>

text \<open>
  C36: an event is recorded once. The first record writes one pending row for it, due at once, and keeps
  the outbox well-formed; with the same event id a second \<open>recordEventOnce\<close> changes nothing and says
  so, and \<open>saveToOutbox\<close> fails, which aborts the transaction it is part of.
\<close>

theorem event_recorded_once:
  assumes "outbox_ok db" "recordEventOnce now e db = (db', written)" "de_id e' = de_id e"
  shows "outbox_ok db' \<and> recordEventOnce now' e' db' = (db', False) \<and> saveToOutbox now' e' db' = Inl DuplicateEvent \<and>
    (written \<longrightarrow> ed_outbox db' = ed_outbox db @ [outboxRowOf (ed_nextOutbox db) now e] \<and>
      (\<forall>t. due t (outboxRowOf (ed_nextOutbox db) now e))) \<and>
    (\<not> written \<longrightarrow> db' = db)"
proof (cases "list_ex (\<lambda>r. ob_event r = de_id e) (ed_outbox db)")
  case True
  with assms show ?thesis by (auto simp: recordEventOnce_def saveToOutbox_def)
next
  case False
  with assms insert_ok [OF assms(1) False] show ?thesis
    by (auto simp: recordEventOnce_def saveToOutbox_def insert_outbox_def outboxRowOf_def due_def MAX_RETRIES_def OUTBOX_MAX_ATTEMPTS_def)
qed

section \<open>Purge\<close>

lemma delete_some_all: "length (filter p rows) \<le> n \<Longrightarrow> delete_some n p rows = filter (\<lambda>r. \<not> p r) rows"
proof (induction n p rows rule: delete_some.induct)
  case (1 p rows)
  then show ?case by (simp add: filter_id_conv filter_empty_conv)
qed auto

lemma delete_some_others: "filter (\<lambda>r. \<not> p r) (delete_some n p rows) = filter (\<lambda>r. \<not> p r) rows"
  by (induction n p rows rule: delete_some.induct) auto

lemma delete_batches_all:
  "delete_batches n p rows so_far = (filter (\<lambda>r. \<not> p r) rows, so_far + length (filter p rows))"
proof (induction n p rows so_far rule: delete_batches.induct)
  case (1 n p rows so_far)
  show ?case
  proof (cases "length (filter p rows) < Suc n")
    case True
    then show ?thesis by (subst delete_batches.simps) (simp add: deleted_count_def delete_some_all)
  next
    case False
    then show ?thesis using 1
      by (subst delete_batches.simps) (auto simp: deleted_count_def delete_some_others delete_some_left Let_def)
  qed
qed

lemma purge_as_filter:
  "purgeProcessedEvents now days batchSize db =
    (if batchSize < 1 then Inl BadBatchSize
     else
       let gone = purgeable (now - days * 86400000) (ed_dlq db)
       in Inr (db\<lparr>ed_outbox := filter (\<lambda>r. \<not> gone r) (ed_outbox db)\<rparr>, length (filter gone (ed_outbox db))))"
  by (simp add: purgeProcessedEvents_def deleteInBatches_def delete_batches_all Let_def mult.commute [of days])

text \<open>
  C37: the purge. With any positive batch size it ends, removes exactly the completed events processed
  before the cutoff whose dead-letter row, if any, has been replayed, and counts them; every pending,
  processing and failed event and the dead-letter queue stay as they are. A batch size below one is refused.
\<close>

theorem purge_removes_only_settled:
  "purgeProcessedEvents now days batchSize db =
    (if batchSize < 1 then Inl BadBatchSize
     else
       let gone = purgeable (now - days * 86400000) (ed_dlq db)
       in Inr (db\<lparr>ed_outbox := filter (\<lambda>r. \<not> gone r) (ed_outbox db)\<rparr>, length (filter gone (ed_outbox db)))) \<and>
   (\<forall>r \<in> set (ed_outbox db). ob_status r \<noteq> ObCompleted \<or> list_ex (\<lambda>d. dl_event d = ob_event r \<and> dl_status d \<noteq> Replayed) (ed_dlq db) \<longrightarrow>
     \<not> purgeable (now - days * 86400000) (ed_dlq db) r)"
  by (simp add: purge_as_filter) (auto simp: purgeable_def)

section \<open>Witnesses\<close>

definition demo_event :: domain_event where
  "demo_event = \<lparr>de_id = ''evt-1'', de_type = ''StockReceived'', de_aggType = ''Item'', de_aggId = ''7'',
    de_payload = JObj [(''itemId'', JNum 7)], de_meta = JObj [(''timestamp'', JStr ''t'')], de_occurred = Some 0\<rparr>"

definition demo_bus :: event_bus where
  "demo_bus = subscribe ''StockReceived'' ''reorder-check''
    \<lparr>bus_handlers = (\<lambda>_. []), bus_recent = [], bus_counts = (\<lambda>_. 0)\<rparr>"

definition demo_events :: events_db where
  "demo_events = insert_outbox 0 demo_event \<lparr>ed_outbox = [], ed_dlq = [], ed_nextOutbox = 1, ed_nextDlq = 1\<rparr>"

definition demo_row :: outbox_row where
  "demo_row = outboxRowOf 1 0 demo_event"

text \<open>A batch at time \<open>t\<close> whose handlers all fail.\<close>

definition failing_batch :: "int \<Rightarrow> batch_env" where
  "failing_batch t = \<lparr>be_now = t, be_worker = ''worker-1'', be_iso = (\<lambda>_. ''t''), be_at = (\<lambda>_. t + 10),
    be_answers = (\<lambda>_ _. Some ''down''), be_dlqOk = (\<lambda>_. True)\<rparr>"

lemma demo_ok: "outbox_ok demo_events"
  unfolding demo_events_def by (rule insert_ok) (simp_all add: outbox_ok_def dlq_ok_def)

lemma demo_rows: "ed_outbox demo_events = [demo_row]"
  by (simp add: demo_events_def demo_row_def insert_outbox_def)

lemma demo_row_facts: "ob_status demo_row = ObPending" "ob_next demo_row = None" "ob_retry demo_row = 0" "ob_completed demo_row = []"
  by (simp_all add: demo_row_def outboxRowOf_def)

lemma demo_due: "due t demo_row"
  by (simp add: due_def demo_row_facts MAX_RETRIES_def OUTBOX_MAX_ATTEMPTS_def)

lemma batch_settles_due_witness:
  "\<exists>bus' db' c. processPendingBatch (failing_batch 0) 25 False demo_bus demo_events = (bus', db', c) \<and> bc_processed c = 1"
proof -
  obtain bus' db' c where b: "processPendingBatch (failing_batch 0) 25 False demo_bus demo_events = (bus', db', c)" by (metis prod_cases3)
  have "candidateEvents (be_now (failing_batch 0)) 25 demo_events = [demo_row]"
    by (simp add: candidateEvents_def demo_rows demo_due)
  with batch_settles_due [OF demo_ok b refl] b show ?thesis by auto
qed

text \<open>
  A backlog larger than the batch: a batch takes one event, the event before \<open>evt-2\<close> has two attempts
  left and \<open>evt-2\<close> has one, so after three batches \<open>evt-2\<close> has failed for good.
\<close>

definition late_row :: outbox_row where
  "late_row = outboxRowOf 2 0 (demo_event\<lparr>de_id := ''evt-2''\<rparr>)\<lparr>ob_retry := 4\<rparr>"

definition demo_backlog :: events_db where
  "demo_backlog = \<lparr>ed_outbox = [demo_row\<lparr>ob_retry := 3\<rparr>, late_row], ed_dlq = [], ed_nextOutbox = 3, ed_nextDlq = 1\<rparr>"

definition three_batches :: "outbox_act list" where
  "three_batches = map (\<lambda>t. RunBatch (failing_batch t)) [0, 1000000, 2000000]"

lemma three_due: "due_batches 1 2 three_batches demo_bus demo_backlog = 3"
  by code_simp


text \<open>Two handlers: at the first attempt \<open>reorder-check\<close> resolves and \<open>audit\<close> fails, at the second every handler run fails.\<close>

definition two_handlers :: event_bus where
  "two_handlers = subscribe ''StockReceived'' ''audit'' demo_bus"

definition half_batch :: batch_env where
  "half_batch = (failing_batch 0)\<lparr>be_answers := (\<lambda>i j. if j = 0 then None else Some ''down'')\<rparr>"

lemma two_targets: "dispatch_targets two_handlers (eventOfRow (be_iso half_batch) (be_now half_batch) demo_row) [] = [''reorder-check'', ''audit'']"
  "validateDomainEvent (eventOfRow (be_iso half_batch) (be_now half_batch) demo_row) = []"
  by code_simp+

lemma resolved_handlers_not_rerun_witness:
  "\<exists>bus1 db1 c. processPendingBatch half_batch 25 False two_handlers demo_events = (bus1, db1, c) \<and>
    (\<exists>r1 \<in> set (ed_outbox db1). ob_event r1 = ''evt-1'' \<and> set (ob_completed r1) = {''reorder-check''}) \<and>
    (\<exists>r' \<in> set (ed_outbox (snd (run_acts 25 [RunBatch (failing_batch 1000000)] bus1 db1))). ob_event r' = ''evt-1'' \<and>
      ''reorder-check'' \<in> set (ob_completed r'))"
proof -
  obtain bus1 db1 c where b: "processPendingBatch half_batch 25 False two_handlers demo_events = (bus1, db1, c)" by (metis prod_cases3)
  obtain bus' db' where s: "run_acts 25 [RunBatch (failing_batch 1000000)] bus1 db1 = (bus', db')" by (metis prod.exhaust)
  have ev: "ob_event demo_row = ''evt-1''" by (simp add: demo_row_def outboxRowOf_def demo_event_def)
  have "demo_row \<in> set (candidateEvents (be_now half_batch) 25 demo_events)"
    by (simp add: candidateEvents_def demo_rows demo_due)
  note w = resolved_handlers_not_rerun [OF demo_ok b this refl two_targets(2) refl s, unfolded demo_row_facts two_targets(1)]
  have "{[''reorder-check'', ''audit''] ! j | j. j < length [''reorder-check'', ''audit''] \<and> be_answers half_batch (ob_id demo_row) j = None} =
      {''reorder-check''}" by (auto simp: half_batch_def)
  with w b s ev show ?thesis by (fastforce simp: half_batch_def)
qed

lemma event_recorded_once_witness: "recordEventOnce 5 demo_event demo_events = (demo_events, False)"
proof -
  let ?empty = "\<lparr>ed_outbox = [], ed_dlq = [], ed_nextOutbox = 1, ed_nextDlq = 1\<rparr> :: events_db"
  have "outbox_ok ?empty" "recordEventOnce 0 demo_event ?empty = (demo_events, True)"
    by (simp_all add: outbox_ok_def dlq_ok_def recordEventOnce_def demo_events_def)
  from event_recorded_once [OF this refl] show ?thesis by blast
qed

text \<open>An event completed at time \<open>1000\<close> and one that still waits: after 91 days the purge takes the first.\<close>

definition demo_purge :: events_db where
  "demo_purge = demo_events\<lparr>ed_outbox := [demo_row\<lparr>ob_id := 7, ob_status := ObCompleted, ob_processed := Some 1000\<rparr>, demo_row]\<rparr>"

lemma purge_removes_only_settled_witness:
  "purgeProcessedEvents 7862400000 90 5000 demo_purge = Inr (demo_purge\<lparr>ed_outbox := [demo_row]\<rparr>, 1) \<and>
   \<not> purgeable 86400000 (ed_dlq demo_purge) demo_row"
proof -
  have e: "ed_dlq demo_purge = []" "ed_outbox demo_purge = [demo_row\<lparr>ob_id := 7, ob_status := ObCompleted, ob_processed := Some 1000\<rparr>, demo_row]"
    by (simp_all add: demo_purge_def demo_events_def insert_outbox_def)
  show ?thesis
    using purge_removes_only_settled [of 7862400000 90 5000 demo_purge]
    by (simp add: e purgeable_def demo_row_facts)
qed

end
