(* ===== verification/DeadLetterClaims.thy ===== *)
theory DeadLetterClaims
  imports DeadLetter OutboxClaims
begin

text \<open>
  The properties of the dead-letter queue: replay, requeue and retry, and the invariant of both tables
  over every sequence of operations.
\<close>

section \<open>What the operations keep\<close>

text \<open>An update that changes no key and leaves every changed row in a state the invariant allows.\<close>

lemma outbox_ok_update:
  assumes "outbox_ok db" "\<And>r. ob_id (f r) = ob_id r" "\<And>r. ob_event (f r) = ob_event r"
    "\<And>r. r \<in> set (ed_outbox db) \<Longrightarrow> p r \<Longrightarrow> status_ok r \<Longrightarrow> status_ok (f r)"
  shows "outbox_ok (db\<lparr>ed_outbox := update_rows p f (ed_outbox db)\<rparr>)"
  using assms by (auto simp: outbox_ok_def dlq_ok_def map_update_rows in_update_rows)

lemma outbox_ok_dlq_update:
  assumes "outbox_ok db" "\<And>d. dl_id (f d) = dl_id d" "\<And>d. dl_event (f d) = dl_event d"
  shows "outbox_ok (db\<lparr>ed_dlq := update_rows p f (ed_dlq db)\<rparr>)"
  using assms by (auto simp: outbox_ok_def dlq_ok_def map_update_rows in_update_rows)

lemma resolution_keys [simp]:
  "dl_id (resolutionFields st u n t d) = dl_id d" "dl_event (resolutionFields st u n t d) = dl_event d"
  "dl_status (resolutionFields st u n t d) = st"
  by (simp_all add: resolutionFields_def)

lemma mark_replayed_ok:
  assumes "outbox_ok db"
  shows "outbox_ok (mark_replayed env dl payload db)"
proof -
  let ?f = "\<lambda>d. (resolutionFields Replayed (qe_user env) ''replayed'' (qe_now env) d)\<lparr>dl_payload := payload\<rparr>"
  let ?db1 = "db\<lparr>ed_dlq := update_rows (\<lambda>d. dl_id d = dl_id dl) ?f (ed_dlq db)\<rparr>"
  have "outbox_ok ?db1" by (rule outbox_ok_dlq_update [OF assms]) simp_all
  then have "outbox_ok (?db1\<lparr>ed_outbox := update_rows (\<lambda>r. ob_event r = dl_event dl)
         (\<lambda>r. r\<lparr>ob_status := ObCompleted, ob_retry := dl_retry dl, ob_error := None, ob_processed := Some (qe_now env),
            ob_payload := payload\<rparr>) (ed_outbox ?db1)\<rparr>)"
    by (rule outbox_ok_update) (simp_all add: status_ok_def)
  then show ?thesis by (simp add: mark_replayed_def)
qed

lemma set_completed_ok: "outbox_ok db \<Longrightarrow> outbox_ok (set_completed_handlers ev names db)"
  unfolding set_completed_handlers_def by (rule outbox_ok_update) (simp_all add: status_ok_def)

lemma mark_replay_failed_ok: "outbox_ok db \<Longrightarrow> outbox_ok (mark_replay_failed dl m db)"
  unfolding mark_replay_failed_def by (rule outbox_ok_dlq_update) simp_all

lemma replay_run_ok:
  assumes "outbox_ok db" "replay_run env dl payload answers (bus, db) = ((bus', db'), e)"
  shows "outbox_ok db' \<and> ed_dlq db' = ed_dlq db \<and> bus_handlers bus' = bus_handlers bus"
proof (cases "deadLetterDeliveryJobId env dl")
  case (Some job)
  with assms show ?thesis by (auto simp: replay_run_def)
next
  case None
  obtain bus1 dispatch where d: "dispatchTracked bus (replay_event env dl payload)
      (case List.find (\<lambda>r. ob_event r = dl_event dl) (ed_outbox db) of Some r \<Rightarrow> ob_completed r | None \<Rightarrow> []) answers = (bus1, dispatch)"
    by (metis prod.exhaust)
  then have h: "bus_handlers bus1 = bus_handlers bus" using bus_handlers_kept(1) by (metis fst_conv)
  show ?thesis
    using assms d h None set_completed_ok [OF assms(1)]
    by (cases dispatch) (auto simp: replay_run_def Let_def set_completed_handlers_def split: if_splits)
qed

text \<open>A run without an error leaves the event's row with every handler of the event completed.\<close>

lemma replay_run_completed:
  assumes "replay_run env dl payload answers (bus, db) = ((bus', db'), None)" "deadLetterDeliveryJobId env dl = None"
    and "r \<in> set (ed_outbox db')" "ob_event r = dl_event dl"
  shows "set (bus_handlers bus (dl_type dl)) \<union> set (bus_handlers bus ALL_EVENTS) \<subseteq> set (ob_completed r)"
proof -
  let ?row = "List.find (\<lambda>r. ob_event r = dl_event dl) (ed_outbox db)"
  let ?e = "replay_event env dl payload" and ?prev = "case ?row of Some r \<Rightarrow> ob_completed r | None \<Rightarrow> []"
  obtain bus1 dispatch where d: "dispatchTracked bus ?e ?prev answers = (bus1, dispatch)" by (metis prod.exhaust)
  from assms(1,2) d obtain x where x: "dispatch = Inr x" "dr_failures x = []"
    "db' = (if ?row \<noteq> None then set_completed_handlers (dl_event dl) (dr_completed x) db else db)"
    by (cases dispatch) (auto simp: replay_run_def Let_def split: if_splits)
  have row: "?row \<noteq> None"
  proof
    assume none: "?row = None"
    then have "r \<in> set (ed_outbox db)" using assms(3) x(3) by simp
    with none assms(4) show False by (auto simp: find_None_iff_set)
  qed
  then have "r \<in> set (update_rows (\<lambda>r. ob_event r = dl_event dl) (\<lambda>r. r\<lparr>ob_completed := dr_completed x\<rparr>) (ed_outbox db))"
    using assms(3) x(3) by (simp add: set_completed_handlers_def)
  then have "ob_completed r = dr_completed x" using assms(4) by (rule updated_where) simp
  moreover have "set (handlers_of bus ?e) \<subseteq> set (dr_completed x)"
    using bus.no_failure_all_resolved [of bus ?e ?prev answers x] d x by simp
  ultimately show ?thesis by (simp add: handlers_of_def replay_event_def)
qed

section \<open>Replay\<close>

lemma getById_found:
  assumes "getById i db = Some d"
  shows "d \<in> set (ed_dlq db)" "dl_id d = i"
  using find_SomeD [OF assms [unfolded getById_def]] by auto

lemma getById_updated:
  assumes "\<And>d. dl_id (f d) = dl_id d"
  shows "getById i (db\<lparr>ed_dlq := update_rows (\<lambda>d. dl_id d = i) f (ed_dlq db)\<rparr>) = map_option f (getById i db)"
proof -
  have "List.find (\<lambda>d. dl_id d = i) (update_rows (\<lambda>d. dl_id d = i) f ds) = map_option f (List.find (\<lambda>d. dl_id d = i) ds)" for ds
    using assms by (induction ds) (auto simp: update_rows_def)
  then show ?thesis by (simp add: getById_def)
qed

lemma getById_cong: "ed_dlq db' = ed_dlq db \<Longrightarrow> getById i db' = getById i db"
  by (simp add: getById_def)

lemma mark_replayed_row:
  assumes "getById i db = Some dl"
  shows "\<exists>d. getById i (mark_replayed env dl payload db) = Some d \<and> dl_status d = Replayed \<and> dl_event d = dl_event dl"
proof -
  let ?f = "\<lambda>d. (resolutionFields Replayed (qe_user env) ''replayed'' (qe_now env) d)\<lparr>dl_payload := payload\<rparr>"
  have "getById i (mark_replayed env dl payload db) =
      getById i (db\<lparr>ed_dlq := update_rows (\<lambda>d. dl_id d = i) ?f (ed_dlq db)\<rparr>)"
    using getById_found(2) [OF assms] by (simp add: getById_def mark_replayed_def)
  also have "\<dots> = Some (?f dl)" using assms getById_updated [of ?f i db] by simp
  finally show ?thesis by simp
qed

lemma mark_replay_failed_row:
  assumes "getById i db = Some dl"
  shows "getById i (mark_replay_failed dl m db) = Some (dl\<lparr>dl_reason := m, dl_stack := '''', dl_retry := dl_retry dl + 1\<rparr>)"
  using assms getById_found(2) [OF assms]
    getById_updated [of "\<lambda>d. d\<lparr>dl_reason := m, dl_stack := '''', dl_retry := dl_retry dl + 1\<rparr>" i db]
  by (simp add: mark_replay_failed_def)

lemma replay_facts:
  assumes "outbox_ok db" "replayEvent env i updated answers (bus, db) = ((bus', db'), result)"
  shows "outbox_ok db' \<and>
    (case result of
       Inr _ \<Rightarrow> \<exists>dl d. getById i db = Some dl \<and> dl_status dl \<noteq> Replayed \<and> getById i db' = Some d \<and> dl_status d = Replayed \<and>
         (\<forall>env' updated' answers' bus''. \<not> qe_busy env' i \<longrightarrow>
           replayEvent env' i updated' answers' (bus'', db') = ((bus'', db'), Inl DlqAlreadyReplayed)) \<and>
         (\<forall>r \<in> set (ed_outbox db'). ob_event r = dl_event dl \<longrightarrow> ob_status r = ObCompleted \<and>
           (deadLetterDeliveryJobId env dl = None \<longrightarrow>
             set (bus_handlers bus (dl_type dl)) \<union> set (bus_handlers bus ALL_EVENTS) \<subseteq> set (ob_completed r)))
     | Inl (DlqReplayFailed m) \<Rightarrow> \<exists>dl d. getById i db = Some dl \<and> getById i db' = Some d \<and> dl_status d = dl_status dl \<and>
         dl_status d \<noteq> Replayed \<and> dl_retry d = dl_retry dl + 1 \<and> dl_reason d = m
     | Inl _ \<Rightarrow> db' = db \<and> bus' = bus)"
proof (cases "qe_busy env i \<or> getById i db = None \<or> map_option dl_status (getById i db) = Some Replayed")
  case True
  then show ?thesis using assms
    by (auto simp: replayEvent_def withDeadLetterRowLock_def replayLocked_def split: if_splits option.splits)
next
  case False
  then obtain dl where rc: "\<not> qe_busy env i" "getById i db = Some dl" "dl_status dl \<noteq> Replayed" by auto
  let ?p = "js_or updated (dl_payload dl)"
  obtain bus1 db1 e where run: "replay_run env dl ?p answers (bus, db) = ((bus1, db1), e)" by (metis prod.exhaust)
  note ok = replay_run_ok [OF assms(1) run]
  have get1: "getById i db1 = Some dl" using rc(2) getById_cong [of db1 db i] ok by simp
  show ?thesis
  proof (cases e)
    case None
    then have eq: "bus' = bus1" "db' = mark_replayed env dl ?p db1" "result = Inr ()"
      using assms(2) rc run by (auto simp: replayEvent_def withDeadLetterRowLock_def replayLocked_def)
    from mark_replayed_row [OF get1, of env ?p] obtain d where d: "getById i db' = Some d" "dl_status d = Replayed" unfolding eq(2) by blast
    have again: "replayEvent env' i u a (b, db') = ((b, db'), Inl DlqAlreadyReplayed)" if "\<not> qe_busy env' i" for env' u a b
      using that d by (simp add: replayEvent_def withDeadLetterRowLock_def replayLocked_def)
    have rows: "ob_status r = ObCompleted \<and> (deadLetterDeliveryJobId env dl = None \<longrightarrow>
        set (bus_handlers bus (dl_type dl)) \<union> set (bus_handlers bus ALL_EVENTS) \<subseteq> set (ob_completed r))"
      if r: "r \<in> set (ed_outbox db')" "ob_event r = dl_event dl" for r
    proof -
      obtain q where q: "q \<in> set (ed_outbox db1)" "ob_event q = dl_event dl" "ob_completed r = ob_completed q" "ob_status r = ObCompleted"
        using r(1) [unfolded eq(2) mark_replayed_def, simplified] r(2) by (rule updated_where) simp
      with replay_run_completed [OF run [unfolded None] _ q(1,2)] show ?thesis by auto
    qed
    show ?thesis using rc d again rows mark_replayed_ok [OF conjunct1 [OF ok], of env dl ?p] by (auto simp: eq)
  next
    case (Some m)
    then have eq: "bus' = bus1" "db' = mark_replay_failed dl m db1" "result = Inl (DlqReplayFailed m)"
      using assms(2) rc run by (auto simp: replayEvent_def withDeadLetterRowLock_def replayLocked_def)
    show ?thesis using rc mark_replay_failed_row [OF get1, of m] mark_replay_failed_ok [OF conjunct1 [OF ok], of dl m]
      by (simp add: eq)
  qed
qed

text \<open>
  C32: a dead letter is replayed at most once. A replay that succeeds marks the row replayed, completes
  its outbox event with every handler done, and any later replay of the row is refused; one that fails
  leaves the row open with its reason and one more attempt; any other error changes nothing. The tables
  stay well-formed.
\<close>

theorem dead_letter_replayed_once:
  assumes "outbox_ok db" "replayEvent env i updated answers (bus, db) = ((bus', db'), result)"
  shows "outbox_ok db' \<and>
    (case result of
       Inr _ \<Rightarrow> \<exists>dl d. getById i db = Some dl \<and> dl_status dl \<noteq> Replayed \<and> getById i db' = Some d \<and> dl_status d = Replayed \<and>
         (\<forall>env' updated' answers' bus''. \<not> qe_busy env' i \<longrightarrow>
           replayEvent env' i updated' answers' (bus'', db') = ((bus'', db'), Inl DlqAlreadyReplayed)) \<and>
         (\<forall>r \<in> set (ed_outbox db'). ob_event r = dl_event dl \<longrightarrow> ob_status r = ObCompleted \<and>
           (deadLetterDeliveryJobId env dl = None \<longrightarrow>
             set (bus_handlers bus (dl_type dl)) \<union> set (bus_handlers bus ALL_EVENTS) \<subseteq> set (ob_completed r)))
     | Inl (DlqReplayFailed m) \<Rightarrow> \<exists>dl d. getById i db = Some dl \<and> getById i db' = Some d \<and> dl_status d = dl_status dl \<and>
         dl_status d \<noteq> Replayed \<and> dl_retry d = dl_retry dl + 1 \<and> dl_reason d = m
     | Inl _ \<Rightarrow> db' = db \<and> bus' = bus)"
  using assms by (rule replay_facts)

section \<open>Requeue\<close>

lemma in_filterD: "x \<in> set (filter P xs) \<Longrightarrow> x \<in> set xs \<and> P x"
  by simp

lemma key_member:
  assumes "inj_on k A" "set xs \<subseteq> A" "x \<in> A"
  shows "(k x \<in> set (map k xs)) = (x \<in> set xs)"
  using assms by (auto simp: inj_on_def)

lemma in_set_of_map_filter: "y \<in> set (set_of (map f (filter P xs))) \<longleftrightarrow> (\<exists>x \<in> set xs. P x \<and> f x = y)"
  by auto

lemma three_way: "(if a then Inr (x, r0) else if b then Inl e else Inr (y, r1)) = Inr (z, r) \<Longrightarrow> a \<and> z = x \<or> z = y"
  by (auto split: if_splits)

lemma written_tables:
  "a \<and> db' = db \<or> db' = db\<lparr>ed_outbox := rows, ed_dlq := ds\<rparr> \<Longrightarrow>
    (ed_outbox db' = rows \<or> (a \<and> db' = db)) \<and> (ed_dlq db' = ds \<or> (a \<and> db' = db)) \<and>
    ed_nextOutbox db' = ed_nextOutbox db \<and> ed_nextDlq db' = ed_nextDlq db"
  by auto

lemma disjoint_map: "(\<And>x. x \<in> set xs \<Longrightarrow> f x \<notin> B) \<Longrightarrow> set (map f xs) \<inter> B = {}"
  by auto

lemma reinsert_dlq [simp]: "ed_dlq (reinsert_rows env ds db) = ed_dlq db" "ed_nextDlq (reinsert_rows env ds db) = ed_nextDlq db"
  by (induction env ds db rule: reinsert_rows.induct) auto

lemma reinsert_keeps: "r \<in> set (ed_outbox db) \<Longrightarrow> r \<in> set (ed_outbox (reinsert_rows env ds db))"
  by (induction env ds db rule: reinsert_rows.induct) auto

lemma reinsert_only:
  "r \<in> set (ed_outbox (reinsert_rows env ds db)) \<Longrightarrow> r \<in> set (ed_outbox db) \<or> (\<exists>d \<in> set ds. \<exists>i. r = reinserted_row env i d)"
  by (induction env ds db rule: reinsert_rows.induct) fastforce+

lemma reinserted: "d \<in> set ds \<Longrightarrow> \<exists>i. reinserted_row env i d \<in> set (ed_outbox (reinsert_rows env ds db))"
proof (induction env ds db rule: reinsert_rows.induct)
  case (2 env d' ds db)
  then show ?case by (cases "d = d'") (auto intro!: exI [of _ "ed_nextOutbox db"] reinsert_keeps)
qed simp

lemma reinserted_facts [simp]:
  "ob_event (reinserted_row env i d) = dl_event d" "ob_status (reinserted_row env i d) = ObPending"
  "ob_retry (reinserted_row env i d) = 0" "ob_next (reinserted_row env i d) = None" "ob_id (reinserted_row env i d) = i"
  by (simp_all add: reinserted_row_def)

lemma reinsert_ok:
  assumes "outbox_ok db" "distinct (map dl_event ds)" "set (map dl_event ds) \<inter> set (map ob_event (ed_outbox db)) = {}"
  shows "outbox_ok (reinsert_rows env ds db)"
  using assms
proof (induction env ds db rule: reinsert_rows.induct)
  case (2 env d ds db)
  let ?db1 = "db\<lparr>ed_outbox := ed_outbox db @ [reinserted_row env (ed_nextOutbox db) d], ed_nextOutbox := ed_nextOutbox db + 1\<rparr>"
  have "outbox_ok ?db1" using 2(2-4)
    by (auto simp: outbox_ok_def dlq_ok_def status_ok_def MAX_RETRIES_def OUTBOX_MAX_ATTEMPTS_def less_SucI)
  then show ?case using 2 by auto
qed simp

lemma pending_due: "ob_status r = ObPending \<Longrightarrow> ob_retry r = 0 \<Longrightarrow> ob_next r = None \<Longrightarrow> due t r"
  by (simp add: due_def MAX_RETRIES_def OUTBOX_MAX_ATTEMPTS_def)

definition requeued :: "dlq_env \<Rightarrow> events_db \<Rightarrow> dlq_row list" where
  "requeued env db = filter (\<lambda>d. unresolved d \<and> \<not> qe_busy env (dl_id d) \<and> deadLetterDeliveryJobId env d = None) (ed_dlq db)"

lemma requeue_facts:
  assumes ok: "outbox_ok db" and run: "requeueUnresolvedToOutbox env db = (db', result)"
  shows "outbox_ok db' \<and>
    (\<forall>d \<in> set (requeued env db). \<exists>r \<in> set (ed_outbox db'). ob_event r = dl_event d \<and> ob_status r = ObPending \<and> (\<forall>t. due t r) \<and>
      (\<forall>q \<in> set (ed_outbox db). ob_event q = dl_event d \<longrightarrow> ob_completed r = ob_completed q)) \<and>
    (\<forall>d \<in> set (ed_dlq db'). unresolved d \<longrightarrow> qe_busy env (dl_id d)) \<and>
    (\<forall>r \<in> set (ed_outbox db). ob_event r \<notin> dl_event ` set (requeued env db) \<longrightarrow> r \<in> set (ed_outbox db')) \<and>
    set (rq_jobs result) = {j. \<exists>d \<in> set (ed_dlq db). unresolved d \<and> \<not> qe_busy env (dl_id d) \<and> deadLetterDeliveryJobId env d = Some j}"
proof -
  let ?pending = "lockIdleDeadLetterRows env (sort_key dl_id (filter unresolved (ed_dlq db)))"
  let ?rows = "filter (\<lambda>d. deadLetterDeliveryJobId env d = None) ?pending"
  let ?existing = "map ob_event (filter (\<lambda>r. ob_event r \<in> set (map dl_event ?rows)) (ed_outbox db))"
  let ?reset = "\<lambda>r. r\<lparr>ob_status := ObPending, ob_retry := 0, ob_next := None, ob_error := None, ob_processed := None,
              ob_lockedAt := None, ob_lockedBy := None\<rparr> :: outbox_row"
  let ?db1 = "db\<lparr>ed_outbox := update_rows (\<lambda>r. ob_event r \<in> set ?existing) ?reset (ed_outbox db)\<rparr>"
  let ?missing = "filter (\<lambda>d. dl_event d \<notin> set ?existing) ?rows"
  let ?db2 = "reinsert_rows env ?missing ?db1"
  have db': "db' = ?db2\<lparr>ed_dlq := update_rows (\<lambda>d. dl_id d \<in> set (map dl_id ?pending))
       (resolutionFields Replayed (qe_user env) ''requeued'' (qe_now env)) (ed_dlq ?db2)\<rparr>"
    and jobs: "rq_jobs result = List.map_filter (deadLetterDeliveryJobId env) ?pending"
    using run by (simp_all add: requeueUnresolvedToOutbox_def requeueDeliveryDeadLetters_def Let_def) auto
  have rows: "set ?rows = set (requeued env db)" by (auto simp: lockIdleDeadLetterRows_def requeued_def)
  have pend: "set ?pending = {d \<in> set (ed_dlq db). unresolved d \<and> \<not> qe_busy env (dl_id d)}"
    by (auto simp: lockIdleDeadLetterRows_def)
  have ex: "set ?existing = ob_event ` set (ed_outbox db) \<inter> dl_event ` set (requeued env db)" unfolding rows [symmetric] by auto
  have "distinct (map dl_event (ed_dlq db))" using ok by (simp add: outbox_ok_def dlq_ok_def)
  then have "inj_on dl_event (set (ed_dlq db))" "distinct (ed_dlq db)" by (simp_all add: distinct_map)
  then have dist: "distinct (map dl_event ?missing)"
    by (auto simp: distinct_map lockIdleDeadLetterRows_def intro: inj_on_subset)
  have ok1: "outbox_ok ?db1"
    by (rule outbox_ok_update [OF ok]) (simp_all add: status_ok_def MAX_RETRIES_def OUTBOX_MAX_ATTEMPTS_def)
  have events1: "map ob_event (ed_outbox ?db1) = map ob_event (ed_outbox db)" by (simp add: map_update_rows)
  have "dl_event d \<notin> set (map ob_event (ed_outbox ?db1))" if "d \<in> set ?missing" for d
  proof -
    have "d \<in> set ?rows \<and> dl_event d \<notin> set ?existing" using that by (rule in_filterD)
    then have "dl_event d \<notin> ob_event ` set (ed_outbox db)" unfolding ex rows by blast
    then show ?thesis unfolding events1 by simp
  qed
  then have "set (map dl_event ?missing) \<inter> set (map ob_event (ed_outbox ?db1)) = {}" by (rule disjoint_map)
  then have "outbox_ok ?db2" by (rule reinsert_ok [OF ok1 dist])
  then have okD: "outbox_ok db'" unfolding db' by (rule outbox_ok_dlq_update) simp_all
  have out: "ed_outbox db' = ed_outbox ?db2" unfolding db' by simp
  have put: "\<exists>r \<in> set (ed_outbox db'). ob_event r = dl_event d \<and> ob_status r = ObPending \<and> (\<forall>t. due t r) \<and>
      (\<forall>q \<in> set (ed_outbox db). ob_event q = dl_event d \<longrightarrow> ob_completed r = ob_completed q)"
    if d: "d \<in> set (requeued env db)" for d
  proof (cases "\<exists>q \<in> set (ed_outbox db). ob_event q = dl_event d")
    case True
    then obtain q where q: "q \<in> set (ed_outbox db)" "ob_event q = dl_event d" by blast
    with d have "ob_event q \<in> set ?existing" unfolding ex by (metis IntI imageI)
    then have "?reset q \<in> set (ed_outbox ?db1)" using updated_in [OF q(1), of "\<lambda>r. ob_event r \<in> set ?existing" ?reset] by simp
    then have "?reset q \<in> set (ed_outbox db')" unfolding out by (rule reinsert_keeps)
    moreover have "x = q" if "x \<in> set (ed_outbox db)" "ob_event x = dl_event d" for x
      using that q ok unfolding outbox_ok_def by (metis distinct_map inj_onD)
    ultimately show ?thesis using q(2) pending_due [of "?reset q"] by (intro bexI [of _ "?reset q"]) auto
  next
    case False
    with d have "d \<in> set ?missing" unfolding ex rows [symmetric] by auto
    from reinserted [OF this, of env ?db1] obtain i where "reinserted_row env i d \<in> set (ed_outbox db')" unfolding out by blast
    then show ?thesis using False pending_due [of "reinserted_row env i d"] by (intro bexI [of _ "reinserted_row env i d"]) auto
  qed
  have "qe_busy env (dl_id d)" if d: "d \<in> set (ed_dlq db')" "unresolved d" for d
  proof -
    from d obtain q where q: "q \<in> set (ed_dlq db)" "d = (if dl_id q \<in> set (map dl_id ?pending)
        then resolutionFields Replayed (qe_user env) ''requeued'' (qe_now env) q else q)"
      unfolding db' by (auto simp: in_update_rows)
    with d(2) have "dl_id q \<notin> set (map dl_id ?pending)" "d = q" by (auto simp: unresolved_def DLQ_RESOLVED_STATUSES_def split: if_splits)
    with q(1) d(2) show ?thesis using pend by (metis (no_types, lifting) image_eqI list.set_map mem_Collect_eq)
  qed
  moreover have "r \<in> set (ed_outbox db')" if "r \<in> set (ed_outbox db)" "ob_event r \<notin> dl_event ` set (requeued env db)" for r
  proof -
    have "ob_event r \<notin> set ?existing" using that(2) unfolding ex by blast
    then have "r \<in> set (ed_outbox ?db1)" using updated_in [OF that(1), of "\<lambda>r. ob_event r \<in> set ?existing" ?reset] by simp
    then show ?thesis unfolding out by (rule reinsert_keeps)
  qed
  moreover have "set (rq_jobs result) = {j. \<exists>d \<in> set (ed_dlq db). unresolved d \<and> \<not> qe_busy env (dl_id d) \<and> deadLetterDeliveryJobId env d = Some j}"
    unfolding jobs set_map_filter_eq pend by blast
  ultimately show ?thesis using okD put by blast
qed

text \<open>
  C33: putting the open dead letters back. Every open row that no other session replays has its event
  in the outbox afterwards, pending with all its attempts and due at once, with the handlers that had
  resolved still recorded (a row the outbox no longer had is inserted again); the rows of integration
  deliveries go to their own queue; afterwards only rows held by another session are open; events
  without an open row stay as they are, and the tables stay well-formed.
\<close>

theorem requeue_puts_back:
  assumes ok: "outbox_ok db" and run: "requeueUnresolvedToOutbox env db = (db', result)"
  shows "outbox_ok db' \<and>
    (\<forall>d \<in> set (requeued env db). \<exists>r \<in> set (ed_outbox db'). ob_event r = dl_event d \<and> ob_status r = ObPending \<and> (\<forall>t. due t r) \<and>
      (\<forall>q \<in> set (ed_outbox db). ob_event q = dl_event d \<longrightarrow> ob_completed r = ob_completed q)) \<and>
    (\<forall>d \<in> set (ed_dlq db'). unresolved d \<longrightarrow> qe_busy env (dl_id d)) \<and>
    (\<forall>r \<in> set (ed_outbox db). ob_event r \<notin> dl_event ` set (requeued env db) \<longrightarrow> r \<in> set (ed_outbox db')) \<and>
    set (rq_jobs result) = {j. \<exists>d \<in> set (ed_dlq db). unresolved d \<and> \<not> qe_busy env (dl_id d) \<and> deadLetterDeliveryJobId env d = Some j}"
  using assms by (rule requeue_facts)

section \<open>Retry of failed events\<close>

text \<open>An open dead letter of the event is held by another session.\<close>

definition busy_event :: "dlq_env \<Rightarrow> events_db \<Rightarrow> string \<Rightarrow> bool" where
  "busy_event env db ev \<longleftrightarrow> (\<exists>d \<in> set (ed_dlq db). dl_event d = ev \<and> unresolved d \<and> qe_busy env (dl_id d))"

definition retry_target :: "string option \<Rightarrow> outbox_row \<Rightarrow> bool" where
  "retry_target eventId r \<longleftrightarrow> ob_status r = ObFailed \<and> (case eventId of Some ev \<Rightarrow> ob_event r = ev | None \<Rightarrow> True)"

lemma retry_as_update:
  assumes ok: "outbox_ok db" and run: "retryFailedOutboxEvents env eventId db = Inr (db', result)"
  shows "ed_outbox db' = update_rows (\<lambda>r. retry_target eventId r \<and> \<not> busy_event env db (ob_event r))
      (\<lambda>r. r\<lparr>ob_status := ObPending, ob_retry := 0, ob_next := None, ob_error := None, ob_lockedAt := None, ob_lockedBy := None\<rparr>)
      (ed_outbox db)"
    and "ed_dlq db' = update_rows (\<lambda>d. unresolved d \<and> \<not> qe_busy env (dl_id d) \<and>
        (\<exists>r \<in> set (ed_outbox db). retry_target eventId r \<and> ob_event r = dl_event d))
      (resolutionFields Replayed (qe_user env) ''retried'' (qe_now env)) (ed_dlq db)"
    and "ed_nextOutbox db' = ed_nextOutbox db" "ed_nextDlq db' = ed_nextDlq db"
proof -
  let ?failed = "sort_key ob_id (filter (\<lambda>r. ob_status r = ObFailed \<and> (case eventId of Some ev \<Rightarrow> ob_event r = ev | None \<Rightarrow> True)) (ed_outbox db))"
  let ?dead = "sort_key dl_id (filter (\<lambda>d. dl_event d \<in> set (map ob_event ?failed) \<and> unresolved d) (ed_dlq db))"
  let ?idle = "lockIdleDeadLetterRows env ?dead"
  let ?busy = "set_of (map dl_event (filter (\<lambda>d. dl_id d \<notin> set (map dl_id ?idle)) ?dead))"
  let ?u = "\<lambda>r. r\<lparr>ob_status := ObPending, ob_retry := 0, ob_next := None, ob_error := None, ob_lockedAt := None, ob_lockedBy := None\<rparr> :: outbox_row"
  let ?v = "resolutionFields Replayed (qe_user env) ''retried'' (qe_now env)"
  have failed: "set ?failed = {r \<in> set (ed_outbox db). retry_target eventId r}" by (auto simp: retry_target_def)
  have dead: "set ?dead = {d \<in> set (ed_dlq db). unresolved d \<and> (\<exists>r \<in> set (ed_outbox db). retry_target eventId r \<and> ob_event r = dl_event d)}"
    by (auto simp: retry_target_def image_iff)
  have idle: "set ?idle = {d \<in> set ?dead. \<not> qe_busy env (dl_id d)}" by (auto simp: lockIdleDeadLetterRows_def)
  have inj: "inj_on dl_id (set (ed_dlq db))" "inj_on ob_id (set (ed_outbox db))"
    using ok by (simp_all add: outbox_ok_def dlq_ok_def distinct_map)
  have idleId: "dl_id d \<in> set (map dl_id ?idle) \<longleftrightarrow> d \<in> set ?idle" if "d \<in> set (ed_dlq db)" for d
  proof -
    have "set ?idle \<subseteq> set (ed_dlq db)" unfolding idle dead by blast
    then show ?thesis by (rule key_member [OF inj(1) _ that])
  qed
  have busy: "ob_event r \<in> set ?busy \<longleftrightarrow> busy_event env db (ob_event r)" if r: "r \<in> set ?failed" for r
  proof -
    have "ob_event r \<in> set ?busy \<longleftrightarrow> (\<exists>d \<in> set ?dead. dl_id d \<notin> set (map dl_id ?idle) \<and> dl_event d = ob_event r)"
      by (rule in_set_of_map_filter)
    also have "\<dots> \<longleftrightarrow> (\<exists>d \<in> set ?dead. qe_busy env (dl_id d) \<and> dl_event d = ob_event r)"
    proof -
      have "(dl_id d \<notin> set (map dl_id ?idle)) = qe_busy env (dl_id d)" if "d \<in> set ?dead" for d
        using idleId [of d] that unfolding idle dead by blast
      then show ?thesis by blast
    qed
    also have "\<dots> \<longleftrightarrow> busy_event env db (ob_event r)"
      using r unfolding busy_event_def dead failed by fastforce
    finally show ?thesis .
  qed
  let ?ids = "map ob_id (filter (\<lambda>r. ob_event r \<notin> set ?busy) ?failed)"
  have sel: "(ob_id r \<in> set ?ids) = (retry_target eventId r \<and> \<not> busy_event env db (ob_event r))" if r: "r \<in> set (ed_outbox db)" for r
  proof -
    have "set (filter (\<lambda>r. ob_event r \<notin> set ?busy) ?failed) \<subseteq> set (ed_outbox db)" using failed in_filterD by fast
    then have "ob_id r \<in> set ?ids \<longleftrightarrow> r \<in> set (filter (\<lambda>r. ob_event r \<notin> set ?busy) ?failed)" by (rule key_member [OF inj(2) _ r])
    also have "\<dots> \<longleftrightarrow> r \<in> set ?failed \<and> ob_event r \<notin> set ?busy" by (simp only: set_filter mem_Collect_eq)
    finally show ?thesis using busy [of r] r unfolding failed by blast
  qed
  let ?db1 = "db\<lparr>ed_outbox := update_rows (\<lambda>r. ob_id r \<in> set ?ids) ?u (ed_outbox db),
      ed_dlq := update_rows (\<lambda>d. dl_id d \<in> set (map dl_id ?idle)) ?v (ed_dlq db)\<rparr>"
  have "(if ?failed = [] then Inr (db, \<lparr>rt_retried = 0, rt_resolved = 0, rt_busy = []\<rparr>)
      else if eventId \<noteq> None \<and> ?busy \<noteq> [] then Inl DlqBusy
      else Inr (?db1, \<lparr>rt_retried = length ?ids, rt_resolved = length ?idle, rt_busy = ?busy\<rparr>)) = Inr (db', result)"
    using run unfolding retryFailedOutboxEvents_def Let_def res_bind_Inr by (elim exE conjE)
  then have "?failed = [] \<and> db' = db \<or> db' = ?db1" by (rule three_way)
  note w = written_tables [OF this]
  then have out: "ed_outbox db' = update_rows (\<lambda>r. ob_id r \<in> set ?ids) ?u (ed_outbox db) \<or> (?failed = [] \<and> db' = db)"
    and dlq: "ed_dlq db' = update_rows (\<lambda>d. dl_id d \<in> set (map dl_id ?idle)) ?v (ed_dlq db) \<or> (?failed = [] \<and> db' = db)"
    and nxt: "ed_nextOutbox db' = ed_nextOutbox db" "ed_nextDlq db' = ed_nextDlq db"
    by blast+
  show "ed_nextOutbox db' = ed_nextOutbox db" "ed_nextDlq db' = ed_nextDlq db" by fact+
  show "ed_outbox db' = update_rows (\<lambda>r. retry_target eventId r \<and> \<not> busy_event env db (ob_event r)) ?u (ed_outbox db)"
    using out
  proof
    assume "?failed = [] \<and> db' = db"
    then have e: "set ?failed = {}" "db' = db" by simp_all
    then show ?thesis unfolding failed by (intro update_rows_none [symmetric, THEN trans [rotated]] refl) (auto simp: update_rows_none)
  next
    assume "ed_outbox db' = update_rows (\<lambda>r. ob_id r \<in> set ?ids) ?u (ed_outbox db)"
    also have "\<dots> = update_rows (\<lambda>r. retry_target eventId r \<and> \<not> busy_event env db (ob_event r)) ?u (ed_outbox db)"
      unfolding update_rows_def by (rule map_cong [OF refl]) (simp only: sel)
    finally show ?thesis .
  qed
  have selD: "(dl_id d \<in> set (map dl_id ?idle)) = (unresolved d \<and> \<not> qe_busy env (dl_id d) \<and>
      (\<exists>r \<in> set (ed_outbox db). retry_target eventId r \<and> ob_event r = dl_event d))" if "d \<in> set (ed_dlq db)" for d
    unfolding idleId [OF that] idle dead using that by blast
  show "ed_dlq db' = update_rows (\<lambda>d. unresolved d \<and> \<not> qe_busy env (dl_id d) \<and>
        (\<exists>r \<in> set (ed_outbox db). retry_target eventId r \<and> ob_event r = dl_event d)) ?v (ed_dlq db)"
    using dlq
  proof
    assume "?failed = [] \<and> db' = db"
    then have e: "set ?failed = {}" "db' = db" by simp_all
    then show ?thesis unfolding failed by (auto simp: update_rows_none)
  next
    assume "ed_dlq db' = update_rows (\<lambda>d. dl_id d \<in> set (map dl_id ?idle)) ?v (ed_dlq db)"
    also have "\<dots> = update_rows (\<lambda>d. unresolved d \<and> \<not> qe_busy env (dl_id d) \<and>
        (\<exists>r \<in> set (ed_outbox db). retry_target eventId r \<and> ob_event r = dl_event d)) ?v (ed_dlq db)"
      unfolding update_rows_def by (rule map_cong [OF refl]) (simp only: selD)
    finally show ?thesis .
  qed
qed

lemma retry_facts:
  assumes "outbox_ok db" "retryFailedOutboxEvents env eventId db = Inr (db', result)"
  shows "outbox_ok db' \<and>
    (\<forall>r \<in> set (ed_outbox db). if retry_target eventId r \<and> \<not> busy_event env db (ob_event r)
      then \<exists>r' \<in> set (ed_outbox db'). ob_event r' = ob_event r \<and> ob_status r' = ObPending \<and> (\<forall>t. due t r') \<and> ob_completed r' = ob_completed r
      else r \<in> set (ed_outbox db')) \<and>
    (\<forall>d \<in> set (ed_dlq db'). unresolved d \<longrightarrow> (\<forall>r \<in> set (ed_outbox db). retry_target eventId r \<longrightarrow> ob_event r = dl_event d \<longrightarrow>
      qe_busy env (dl_id d)))"
proof -
  note u = retry_as_update [OF assms]
  let ?f = "\<lambda>r. r\<lparr>ob_status := ObPending, ob_retry := 0, ob_next := None, ob_error := None, ob_lockedAt := None, ob_lockedBy := None\<rparr> :: outbox_row"
  let ?p = "\<lambda>r. retry_target eventId r \<and> \<not> busy_event env db (ob_event r)"
  let ?q = "\<lambda>d. unresolved d \<and> \<not> qe_busy env (dl_id d) \<and> (\<exists>r \<in> set (ed_outbox db). retry_target eventId r \<and> ob_event r = dl_event d)"
  have "outbox_ok (db\<lparr>ed_outbox := update_rows ?p ?f (ed_outbox db)\<rparr>)"
    by (rule outbox_ok_update [OF assms(1)]) (simp_all add: status_ok_def MAX_RETRIES_def OUTBOX_MAX_ATTEMPTS_def)
  from outbox_ok_dlq_update [OF this, of "resolutionFields Replayed (qe_user env) ''retried'' (qe_now env)" ?q]
  have "outbox_ok db'" using u by (simp add: outbox_ok_def dlq_ok_def)
  moreover have "if ?p r then \<exists>r' \<in> set (ed_outbox db'). ob_event r' = ob_event r \<and> ob_status r' = ObPending \<and> (\<forall>t. due t r') \<and>
      ob_completed r' = ob_completed r else r \<in> set (ed_outbox db')" if "r \<in> set (ed_outbox db)" for r
  proof (cases "?p r")
    case True
    then have "?f r \<in> set (ed_outbox db')" using updated_in [OF that, of ?p ?f] unfolding u(1) by simp
    then show ?thesis using True pending_due [of "?f r"] by (auto intro!: bexI [of _ "?f r"])
  next
    case False
    from updated_in [OF that, of ?p ?f] have "r \<in> set (ed_outbox db')" unfolding u(1) if_not_P [OF False] .
    with False show ?thesis by (simp only: if_False)
  qed
  moreover have "qe_busy env (dl_id d)"
    if d: "d \<in> set (ed_dlq db')" "unresolved d" and r: "r \<in> set (ed_outbox db)" "retry_target eventId r" "ob_event r = dl_event d" for d r
  proof (rule ccontr)
    assume idle: "\<not> qe_busy env (dl_id d)"
    obtain q where q: "d = (if ?q q then resolutionFields Replayed (qe_user env) ''retried'' (qe_now env) q else q)"
      using d(1) unfolding u(2) in_update_rows by blast
    show False
    proof (cases "?q q")
      case True
      from q have "dl_status d = Replayed" unfolding if_P [OF True] by simp
      with d(2) show False by (simp add: unresolved_def DLQ_RESOLVED_STATUSES_def)
    next
      case False
      from q have "d = q" unfolding if_not_P [OF False] .
      with False d(2) idle r show False by blast
    qed
  qed
  ultimately show ?thesis by blast
qed

text \<open>
  C34: retrying failed events. Exactly the failed events asked for are pending again with all their
  attempts and due at once, unless an open dead letter of theirs is held by another session; every
  other event stays as it is; the open dead letters of the retried events are marked replayed, so the
  event is not replayed from there too; the tables stay well-formed.
\<close>

theorem retry_failed_events:
  assumes "outbox_ok db" "retryFailedOutboxEvents env eventId db = Inr (db', result)"
  shows "outbox_ok db' \<and>
    (\<forall>r \<in> set (ed_outbox db). if retry_target eventId r \<and> \<not> busy_event env db (ob_event r)
      then \<exists>r' \<in> set (ed_outbox db'). ob_event r' = ob_event r \<and> ob_status r' = ObPending \<and> (\<forall>t. due t r') \<and> ob_completed r' = ob_completed r
      else r \<in> set (ed_outbox db')) \<and>
    (\<forall>d \<in> set (ed_dlq db'). unresolved d \<longrightarrow> (\<forall>r \<in> set (ed_outbox db). retry_target eventId r \<longrightarrow> ob_event r = dl_event d \<longrightarrow>
      qe_busy env (dl_id d)))"
  using assms by (rule retry_facts)

section \<open>Every sequence of operations\<close>

inductive events_step :: "event_bus \<times> events_db \<Rightarrow> event_bus \<times> events_db \<Rightarrow> bool" where
  Record: "saveToOutbox now e db = Inr db' \<Longrightarrow> events_step (bus, db) (bus, db')"
| RecordOnce: "recordEventOnce now e db = (db', written) \<Longrightarrow> events_step (bus, db) (bus, db')"
| Batch: "processPendingBatch env n busy bus db = (bus', db', c) \<Longrightarrow> events_step (bus, db) (bus', db')"
| Recover: "recoverStuckEvents now m dlqOk db = (db', k) \<Longrightarrow> events_step (bus, db) (bus, db')"
| Purge: "purgeProcessedEvents now days batchSize db = Inr (db', k) \<Longrightarrow> events_step (bus, db) (bus, db')"
| Edit: "editPayload qenv i payload db = (db', res) \<Longrightarrow> events_step (bus, db) (bus, db')"
| Replay: "replayEvent qenv i payload answers (bus, db) = ((bus', db'), res) \<Longrightarrow> events_step (bus, db) (bus', db')"
| Dismiss: "dismissEvent qenv i notes db = (db', res) \<Longrightarrow> events_step (bus, db) (bus, db')"
| Requeue: "requeueUnresolvedToOutbox qenv db = (db', rr) \<Longrightarrow> events_step (bus, db) (bus, db')"
| PurgeResolved: "purgeResolved db = (db', k) \<Longrightarrow> events_step (bus, db) (bus, db')"
| Retry: "retryFailedOutboxEvents qenv ev db = Inr (db', rt) \<Longrightarrow> events_step (bus, db) (bus, db')"

definition kept_events :: "events_db \<Rightarrow> events_db \<Rightarrow> bool" where
  "kept_events db db' \<longleftrightarrow> (\<forall>r \<in> set (ed_outbox db). ob_status r = ObCompleted \<or> ob_event r \<in> ob_event ` set (ed_outbox db'))"

lemma kept_map: "map ob_event (ed_outbox db') = map ob_event (ed_outbox db) \<Longrightarrow> kept_events db db'"
  by (metis image_eqI kept_events_def list.set_map)

lemma recover_event_ok:
  assumes "outbox_ok db" "status_ok ev" "ob_status ev = ObProcessing"
  shows "outbox_ok (recover_event t dlqOk ev db) \<and>
    map ob_event (ed_outbox (recover_event t dlqOk ev db)) = map ob_event (ed_outbox db)"
proof -
  let ?fail = "db\<lparr>ed_outbox := update_rows (\<lambda>r. ob_id r = ob_id ev)
                (\<lambda>r. r\<lparr>ob_status := ObFailed, ob_retry := ob_retry ev + 1, ob_error := Some ''stuck in processing'', ob_processed := Some t,
                   ob_lockedAt := None, ob_lockedBy := None\<rparr>) (ed_outbox db)\<rparr>"
  let ?retry = "db\<lparr>ed_outbox := update_rows (\<lambda>r. ob_id r = ob_id ev)
            (\<lambda>r. r\<lparr>ob_status := ObPending, ob_retry := ob_retry ev + 1, ob_lockedAt := None, ob_lockedBy := None,
               ob_next := None, ob_error := Some ''stuck in processing''\<rparr>) (ed_outbox db)\<rparr>"
  show ?thesis
  proof (cases "MAX_RETRIES \<le> ob_retry ev + 1")
    case True
    have "outbox_ok ?fail" by (rule outbox_ok_update [OF assms(1)]) (use True in \<open>simp_all add: status_ok_def\<close>)
    moreover have "outbox_ok (moveToDeadLetter t p d)" if "outbox_ok d" for p d
      using that moved_dlq_ok by (simp add: outbox_ok_def)
    ultimately show ?thesis using True by (simp add: recover_event_def Let_def map_update_rows)
  next
    case False
    have "outbox_ok ?retry" by (rule outbox_ok_update [OF assms(1)]) (use False in \<open>simp_all add: status_ok_def\<close>)
    with False show ?thesis by (simp add: recover_event_def Let_def map_update_rows)
  qed
qed

lemma recover_ok:
  assumes "outbox_ok db"
  shows "outbox_ok (fst (recoverStuckEvents now m dlqOk db)) \<and>
    map ob_event (ed_outbox (fst (recoverStuckEvents now m dlqOk db))) = map ob_event (ed_outbox db)"
proof -
  have "outbox_ok (foldl (\<lambda>d ev. recover_event now dlqOk ev d) d evs) \<and>
      map ob_event (ed_outbox (foldl (\<lambda>d ev. recover_event now dlqOk ev d) d evs)) = map ob_event (ed_outbox d)"
    if "outbox_ok d" "\<forall>ev \<in> set evs. status_ok ev \<and> ob_status ev = ObProcessing" for d evs
    using that by (induction evs arbitrary: d) (auto simp: recover_event_ok)
  note fold = this [OF assms, of "filter (stuck (now - m * 60 * 1000)) (ed_outbox db)"]
  have "\<forall>ev \<in> set (filter (stuck (now - m * 60 * 1000)) (ed_outbox db)). status_ok ev \<and> ob_status ev = ObProcessing"
    using assms by (simp add: outbox_ok_def stuck_def)
  from fold [OF this] show ?thesis by (simp add: recoverStuckEvents_def Let_def)
qed

lemma delete_ok:
  assumes "outbox_ok db"
  shows "outbox_ok (db\<lparr>ed_outbox := filter P (ed_outbox db)\<rparr>)" "outbox_ok (db\<lparr>ed_dlq := filter Q (ed_dlq db)\<rparr>)"
  using assms by (auto simp: outbox_ok_def dlq_ok_def intro: distinct_map_filter)

lemma edit_ok:
  assumes "outbox_ok db" "editPayload env i p db = (db', res)"
  shows "outbox_ok db' \<and> map ob_event (ed_outbox db') = map ob_event (ed_outbox db)"
proof -
  let ?db1 = "db\<lparr>ed_dlq := update_rows (\<lambda>d. dl_id d = i) (\<lambda>d. d\<lparr>dl_payload := p\<rparr>) (ed_dlq db)\<rparr>"
  have ok1: "outbox_ok ?db1" by (rule outbox_ok_dlq_update [OF assms(1)]) simp_all
  have ok2: "outbox_ok (?db1\<lparr>ed_outbox := update_rows (\<lambda>r. ob_id r = n) (\<lambda>r. r\<lparr>ob_payload := p\<rparr>) (ed_outbox ?db1)\<rparr>)" for n
    by (rule outbox_ok_update [OF ok1]) (simp_all add: status_ok_def)
  show ?thesis using assms ok1 ok2
    by (auto simp: editPayload_def withDeadLetterRowLock_def Let_def map_update_rows split: if_splits option.splits)
qed

lemma dismiss_ok:
  assumes "outbox_ok db" "dismissEvent env i notes db = (db', res)"
  shows "outbox_ok db' \<and> ed_outbox db' = ed_outbox db"
proof -
  have "outbox_ok (db\<lparr>ed_dlq := update_rows (\<lambda>d. dl_id d = i) (resolutionFields Dismissed u n t) (ed_dlq db)\<rparr>)" for u n t
    by (rule outbox_ok_dlq_update [OF assms(1)]) simp_all
  with assms show ?thesis
    by (auto simp: dismissEvent_def withDeadLetterRowLock_def split: if_splits option.splits)
qed

lemma replay_run_events:
  "replay_run env d payload answers (bus, db) = ((bus', db'), e) \<Longrightarrow> map ob_event (ed_outbox db') = map ob_event (ed_outbox db)"
  by (auto simp: replay_run_def set_completed_handlers_def map_update_rows Let_def split_beta split: option.splits sum.splits if_splits)

lemma replay_events:
  assumes "replayEvent env i payload answers (bus, db) = ((bus', db'), res)"
  shows "map ob_event (ed_outbox db') = map ob_event (ed_outbox db)"
proof -
  have "map ob_event (ed_outbox (mark_replayed env d p db1)) = map ob_event (ed_outbox db1)"
    "map ob_event (ed_outbox (mark_replay_failed d m db1)) = map ob_event (ed_outbox db1)" for d p m db1
    by (simp_all add: mark_replayed_def mark_replay_failed_def map_update_rows)
  note marks = this
  show ?thesis
  proof (cases "qe_busy env i \<or> getById i db = None \<or> map_option dl_status (getById i db) = Some Replayed")
    case True
    with assms show ?thesis by (auto simp: replayEvent_def withDeadLetterRowLock_def replayLocked_def split: if_splits)
  next
    case False
    then obtain d where d: "\<not> qe_busy env i" "getById i db = Some d" "dl_status d \<noteq> Replayed" by auto
    obtain bus1 db1 e where run: "replay_run env d (js_or payload (dl_payload d)) answers (bus, db) = ((bus1, db1), e)"
      by (metis prod.exhaust)
    from assms d run marks replay_run_events [OF run] show ?thesis
      by (cases e) (auto simp: replayEvent_def withDeadLetterRowLock_def replayLocked_def)
  qed
qed

lemma events_step_keeps:
  assumes "events_step st st'" "outbox_ok (snd st)"
  shows "outbox_ok (snd st') \<and> kept_events (snd st) (snd st')"
  using assms
proof (induction rule: events_step.induct)
  case (Record now e db db' bus)
  then show ?case using insert_ok
    by (auto simp: saveToOutbox_def insert_outbox_def kept_events_def split: if_splits)
next
  case (RecordOnce now e db db' written bus)
  then show ?case using insert_ok
    by (auto simp: recordEventOnce_def insert_outbox_def kept_events_def split: if_splits)
next
  case (Batch env n busy bus db bus' db' c)
  then have ok: "outbox_ok db" by simp
  show ?case
  proof (cases busy)
    case True
    with Batch show ?thesis by (auto simp: processPendingBatch_def kept_events_def)
  next
    case False
    with Batch batch_keeps_ok [OF ok, of env n bus bus' db' c] batch_as_update(1) [OF ok, of env n bus bus' db' c]
    show ?thesis by (auto intro!: kept_map simp: update_rows_def)
  qed
next
  case (Recover now m dlqOk db db' k bus)
  with recover_ok [of db now m dlqOk] show ?case by (auto intro: kept_map)
next
  case (Purge now days batchSize db db' k bus)
  then have "db' = db\<lparr>ed_outbox := filter (\<lambda>r. \<not> purgeable (now - days * 86400000) (ed_dlq db) r) (ed_outbox db)\<rparr>"
    by (auto simp: purge_as_filter Let_def split: if_splits)
  with Purge delete_ok(1) [of db] show ?case by (auto simp: kept_events_def purgeable_def)
next
  case (Edit qenv i payload db db' res bus)
  with edit_ok [of db qenv i payload db' res] show ?case by (auto intro: kept_map)
next
  case (Replay qenv i payload answers bus db bus' db' res)
  with replay_facts [of db qenv i payload answers bus bus' db' res] replay_events [OF Replay(1)] show ?case
    by (simp add: kept_map)
next
  case (Dismiss qenv i nt db db' res bus)
  with dismiss_ok show ?case by (fastforce simp: kept_events_def)
next
  case (Requeue qenv db db' rr bus)
  then have f: "outbox_ok db'" "\<And>r. r \<in> set (ed_outbox db) \<Longrightarrow> ob_event r \<in> dl_event ` set (requeued qenv db) \<or> r \<in> set (ed_outbox db')"
    "\<And>d. d \<in> set (requeued qenv db) \<Longrightarrow> \<exists>r \<in> set (ed_outbox db'). ob_event r = dl_event d"
    using requeue_facts [of db qenv db' rr] by auto
  have "ob_event r \<in> ob_event ` set (ed_outbox db')" if "r \<in> set (ed_outbox db)" for r
    using f(2) [OF that] f(3) by (metis (mono_tags, lifting) image_iff)
  then show ?case using f(1) by (simp add: kept_events_def)
next
  case (PurgeResolved db db' k bus)
  with delete_ok(2) [of db] show ?case by (auto simp: purgeResolved_def delete_rows_def kept_events_def)
next
  case (Retry qenv ev db db' rt bus)
  then have ok: "outbox_ok db" "retryFailedOutboxEvents qenv ev db = Inr (db', rt)" by simp_all
  from retry_facts [OF ok] retry_as_update(1) [OF ok] show ?case by (simp add: kept_map map_update_rows)
qed

text \<open>
  C31: no event is lost. In every state the outbox and the dead-letter queue reach by any sequence of
  records, batches, recoveries, purges, replays, edits, dismissals, requeues and retries, the tables are
  well-formed (one row per event in each, no attempts left exactly for failed events), a failed event is
  never due again by itself, and the next operation removes an event from the outbox only if it has completed.
\<close>

theorem events_never_lost:
  assumes "events_step\<^sup>*\<^sup>* (bus0, db0) (bus, db)" "outbox_ok db0" "events_step (bus, db) (bus', db')" "r \<in> set (ed_outbox db)"
  shows "outbox_ok db \<and> outbox_ok db' \<and> (ob_status r = ObFailed \<longrightarrow> (\<forall>t. \<not> due t r)) \<and>
    (ob_status r = ObCompleted \<or> (\<exists>r' \<in> set (ed_outbox db'). ob_event r' = ob_event r))"
proof -
  have ok: "outbox_ok (snd (bus, db))"
    using assms(1)
  proof (induction rule: rtranclp_induct)
    case base
    show ?case using assms(2) by simp
  next
    case (step y z)
    then show ?case using events_step_keeps by blast
  qed
  with events_step_keeps [OF assms(3)] have "outbox_ok db'" "kept_events db db'" by auto
  moreover have "status_ok r" using ok assms(4) by (simp add: outbox_ok_def)
  then have "ob_status r = ObFailed \<longrightarrow> (\<forall>t. \<not> due t r)" using failed_not_due by blast
  ultimately show ?thesis using ok assms(4) unfolding kept_events_def by (metis image_iff snd_conv)
qed

section \<open>Witnesses\<close>

definition demo_dead :: events_db where
  "demo_dead = moveToDeadLetter 0 (failure_params demo_row ''down'') demo_events"

definition demo_qenv :: dlq_env where
  "demo_qenv = \<lparr>qe_now = 50, qe_user = Some 3, qe_iso = (\<lambda>_. ''t''), qe_number = (\<lambda>_. None), qe_busy = (\<lambda>_. False),
    qe_delivery = (\<lambda>_ _. None)\<rparr>"

lemma demo_dead_ok: "outbox_ok demo_dead"
  using demo_ok moved_dlq_ok by (simp add: outbox_ok_def demo_dead_def)

lemma demo_dead_row:
  "\<exists>d. ed_dlq demo_dead = [d] \<and> dl_id d = 1 \<and> dl_event d = ''evt-1'' \<and> dl_status d = Quarantined \<and> dl_source d = ''outbox'' \<and>
    ob_event demo_row = ''evt-1''"
  by (simp add: demo_dead_def moveToDeadLetter_def demo_events_def insert_outbox_def failure_params_def text_or_def demo_row_def
      outboxRowOf_def demo_event_def)

lemma dead_letter_replayed_once_witness:
  "\<exists>st' result. replayEvent demo_qenv 1 JNull (\<lambda>_. None) (demo_bus, demo_dead) = (st', result) \<and> outbox_ok (snd st')"
proof -
  obtain bus' db' result where "replayEvent demo_qenv 1 JNull (\<lambda>_. None) (demo_bus, demo_dead) = ((bus', db'), result)"
    by (metis prod.exhaust)
  with dead_letter_replayed_once [OF demo_dead_ok this] show ?thesis by auto
qed

lemma requeue_puts_back_witness:
  "\<exists>db' result. requeueUnresolvedToOutbox demo_qenv demo_dead = (db', result) \<and>
    (\<exists>r \<in> set (ed_outbox db'). ob_event r = ''evt-1'' \<and> ob_status r = ObPending)"
proof -
  obtain db' result where run: "requeueUnresolvedToOutbox demo_qenv demo_dead = (db', result)" by (metis prod.exhaust)
  obtain d where d: "ed_dlq demo_dead = [d]" "dl_event d = ''evt-1''" "dl_status d = Quarantined" "dl_source d = ''outbox''"
    using demo_dead_row by blast
  then have "d \<in> set (requeued demo_qenv demo_dead)"
    by (simp add: requeued_def unresolved_def DLQ_RESOLVED_STATUSES_def demo_qenv_def deadLetterDeliveryJobId_def
        DELIVERY_DEAD_LETTER_SOURCES_def)
  with requeue_puts_back [OF demo_dead_ok run] d(2) run show ?thesis by fastforce
qed

text \<open>Two events failed for good, both with an open dead letter; another session holds the one of \<open>evt-2\<close>.\<close>

definition dead_row :: "outbox_row \<Rightarrow> outbox_row" where
  "dead_row r = r\<lparr>ob_status := ObFailed, ob_retry := 5\<rparr>"

definition demo_failed :: events_db where
  "demo_failed = moveToDeadLetter 0 (failure_params late_row ''down'') (moveToDeadLetter 0 (failure_params demo_row ''down'')
    \<lparr>ed_outbox = [dead_row demo_row, dead_row late_row], ed_dlq = [], ed_nextOutbox = 3, ed_nextDlq = 1\<rparr>)"

definition busy_qenv :: dlq_env where
  "busy_qenv = demo_qenv\<lparr>qe_busy := (\<lambda>i. i = 2)\<rparr>"

lemma demo_failed_ok: "outbox_ok demo_failed"
proof -
  have "dlq_ok \<lparr>ed_outbox = [dead_row demo_row, dead_row late_row], ed_dlq = [], ed_nextOutbox = 3, ed_nextDlq = 1\<rparr>"
    by (simp add: dlq_ok_def)
  then have "dlq_ok demo_failed" unfolding demo_failed_def by (intro moved_dlq_ok)
  moreover have "status_ok (dead_row r)" for r by (simp add: status_ok_def dead_row_def MAX_RETRIES_def OUTBOX_MAX_ATTEMPTS_def)
  ultimately show ?thesis
    by (simp add: outbox_ok_def demo_failed_def) (simp add: dead_row_def demo_row_def late_row_def outboxRowOf_def demo_event_def)
qed

lemma retry_runs:
  "\<exists>db' result. retryFailedOutboxEvents busy_qenv None demo_failed = Inr (db', result) \<and>
    rt_retried result = 1 \<and> rt_resolved result = 1 \<and> rt_busy result = [''evt-2'']"
proof -
  have "case retryFailedOutboxEvents busy_qenv None demo_failed of Inl e \<Rightarrow> False
    | Inr (db', result) \<Rightarrow> rt_retried result = 1 \<and> rt_resolved result = 1 \<and> rt_busy result = [''evt-2'']"
    by code_simp
  then show ?thesis by (auto split: sum.splits prod.splits)
qed

lemma failed_rows:
  "retry_target None (dead_row demo_row)" "\<not> busy_event busy_qenv demo_failed (ob_event (dead_row demo_row))"
  "ob_event (dead_row demo_row) = ''evt-1''" "busy_event busy_qenv demo_failed (ob_event (dead_row late_row))"
  by code_simp+

lemma retry_failed_events_witness:
  "\<exists>db' result. retryFailedOutboxEvents busy_qenv None demo_failed = Inr (db', result) \<and> rt_retried result = 1 \<and> rt_busy result = [''evt-2''] \<and>
    (\<exists>r' \<in> set (ed_outbox db'). ob_event r' = ''evt-1'' \<and> ob_status r' = ObPending \<and> (\<forall>t. due t r')) \<and>
    dead_row late_row \<in> set (ed_outbox db') \<and>
    (\<forall>d \<in> set (ed_dlq db'). unresolved d \<and> dl_event d = ''evt-1'' \<longrightarrow> dl_id d = 2)"
proof -
  obtain db' result where run: "retryFailedOutboxEvents busy_qenv None demo_failed = Inr (db', result)" "rt_retried result = 1"
    "rt_busy result = [''evt-2'']" using retry_runs by blast
  have rows: "dead_row demo_row \<in> set (ed_outbox demo_failed)" "dead_row late_row \<in> set (ed_outbox demo_failed)"
    by (simp_all add: demo_failed_def)
  note w = retry_failed_events [OF demo_failed_ok run(1)]
  have "\<exists>r' \<in> set (ed_outbox db'). ob_event r' = ''evt-1'' \<and> ob_status r' = ObPending \<and> (\<forall>t. due t r')"
    using w rows(1) failed_rows(1-3) by fastforce
  moreover have "dead_row late_row \<in> set (ed_outbox db')" using w rows(2) failed_rows(4) by meson
  moreover have "qe_busy busy_qenv (dl_id d)" if "d \<in> set (ed_dlq db')" "unresolved d" "dl_event d = ''evt-1''" for d
    using w that rows(1) failed_rows(1,3) by metis
  ultimately show ?thesis using run by (auto simp: busy_qenv_def)
qed

lemma events_never_lost_witness:
  "outbox_ok demo_dead \<and> (\<exists>db'. events_step (demo_bus, demo_dead) (demo_bus, db') \<and> (\<exists>r' \<in> set (ed_outbox db'). ob_event r' = ''evt-1''))"
proof -
  obtain db' k where p: "purgeResolved demo_dead = (db', k)" by (metis prod.exhaust)
  have step: "events_step (demo_bus, demo_dead) (demo_bus, db')" by (rule events_step.PurgeResolved [OF p])
  have row: "demo_row \<in> set (ed_outbox demo_dead)" "ob_event demo_row = ''evt-1''"
    using demo_dead_row by (simp add: demo_dead_def demo_rows, blast)
  from events_never_lost [OF rtranclp.rtrancl_refl demo_dead_ok step row(1)] step row(2) demo_row_facts(1) show ?thesis by auto
qed

end
