(* ===== verification/EventDelivery.thy ===== *)
theory EventDelivery
  imports OutboxFacts
begin

text \<open>
  Several server processes deliver the events of one outbox. Each works through the batch it read when
  it started; the statements of the workers, the recoveries of stuck events and new records interleave in
  any order, and a worker may stop anywhere. A worker is idle, between two events of its batch, or in
  the dispatch of one; it remembers when its batch started (the time every claim of the batch stores)
  and, in a dispatch, when it claimed the event. A recovery is the list of stuck rows it has read and
  not yet updated: it reads them in one statement and updates each in another, by its identifier alone.
  The pace says how long a worker may take and whether recoveries may overlap.
\<close>

datatype worker =
    WIdle
  | WBatch (batch_start: int) (batch_rest: "outbox_row list")
  | WRunning (batch_start: int) (claimed_at: int) (running: outbox_row) (batch_rest: "outbox_row list")

record fleet =
  fl_now :: int
  fl_db :: events_db
  fl_workers :: "string \<Rightarrow> worker"
  fl_recoveries :: "string \<Rightarrow> outbox_row list"

text \<open>The threshold of the recovery, five minutes in milliseconds.\<close>

definition STUCK_MS :: int where
  "STUCK_MS = 300000"

datatype pace = AnyPace | DispatchWithin5Minutes | BatchWithin5Minutes | OneRecovery

fun in_pace :: "pace \<Rightarrow> int \<Rightarrow> worker \<Rightarrow> bool" where
  "in_pace DispatchWithin5Minutes t (WRunning b c raw rest) = (t < c + STUCK_MS)"
| "in_pace BatchWithin5Minutes t (WRunning b c raw rest) = (t < b + STUCK_MS)"
| "in_pace BatchWithin5Minutes t (WBatch b rest) = (t < b + STUCK_MS)"
| "in_pace OneRecovery t (WRunning b c raw rest) = (t < b + STUCK_MS)"
| "in_pace OneRecovery t (WBatch b rest) = (t < b + STUCK_MS)"
| "in_pace p t w = True"

definition may_recover :: "pace \<Rightarrow> fleet \<Rightarrow> bool" where
  "may_recover p s \<longleftrightarrow> (p = OneRecovery \<longrightarrow> (\<forall>v. fl_recoveries s v = []))"

inductive fleet_step :: "pace \<Rightarrow> fleet \<Rightarrow> fleet \<Rightarrow> bool" for p where
  Tick: "fl_now s \<le> t \<Longrightarrow> \<forall>w. in_pace p t (fl_workers s w) \<Longrightarrow> fleet_step p s (s\<lparr>fl_now := t\<rparr>)"
| Start: "fl_workers s w = WIdle \<Longrightarrow>
    fleet_step p s (s\<lparr>fl_workers := (fl_workers s)(w := WBatch (fl_now s) (candidateEvents (fl_now s) n (fl_db s)))\<rparr>)"
| Skip: "fl_workers s w = WBatch b (raw # rest) \<Longrightarrow> claim b w (ob_id raw) (fl_db s) = None \<Longrightarrow>
    fleet_step p s (s\<lparr>fl_workers := (fl_workers s)(w := WBatch b rest)\<rparr>)"
| Claim: "fl_workers s w = WBatch b (raw # rest) \<Longrightarrow> claim b w (ob_id raw) (fl_db s) = Some db1 \<Longrightarrow>
    fleet_step p s (s\<lparr>fl_db := db1, fl_workers := (fl_workers s)(w := WRunning b (fl_now s) raw rest)\<rparr>)"
| Finish: "fl_workers s w = WRunning b c raw rest \<Longrightarrow>
    fleet_step p s (s\<lparr>fl_db := settle_event env raw outcome (fl_db s), fl_workers := (fl_workers s)(w := WBatch b rest)\<rparr>)"
| End: "fl_workers s w = WBatch b [] \<Longrightarrow> fleet_step p s (s\<lparr>fl_workers := (fl_workers s)(w := WIdle)\<rparr>)"
| Crash: "fleet_step p s (s\<lparr>fl_workers := (fl_workers s)(w := WIdle)\<rparr>)"
| RecoverRead: "fl_recoveries s v = [] \<Longrightarrow> may_recover p s \<Longrightarrow>
    fleet_step p s (s\<lparr>fl_recoveries := (fl_recoveries s)(v := filter (stuck (fl_now s - STUCK_MS)) (ed_outbox (fl_db s)))\<rparr>)"
| RecoverRow: "fl_recoveries s v = ev # evs \<Longrightarrow>
    fleet_step p s (s\<lparr>fl_db := recover_event (fl_now s) dlqOk ev (fl_db s), fl_recoveries := (fl_recoveries s)(v := evs)\<rparr>)"
| RecoverStop: "fleet_step p s (s\<lparr>fl_recoveries := (fl_recoveries s)(v := [])\<rparr>)"
| Record: "saveToOutbox (fl_now s) e (fl_db s) = Inr db1 \<Longrightarrow> fleet_step p s (s\<lparr>fl_db := db1\<rparr>)"

text \<open>A recovery that nothing interrupts is \<open>recoverStuckEvents\<close>.\<close>

lemma recover_rows_run:
  assumes "fl_recoveries s v = evs"
  shows "(fleet_step p)\<^sup>*\<^sup>* s (s\<lparr>fl_db := foldl (\<lambda>d ev. recover_event (fl_now s) dlqOk ev d) (fl_db s) evs,
    fl_recoveries := (fl_recoveries s)(v := [])\<rparr>)"
  using assms
proof (induction evs arbitrary: s)
  case Nil
  then have "(fl_recoveries s)(v := []) = fl_recoveries s" by (metis fun_upd_triv)
  then show ?case by simp
next
  case (Cons ev evs)
  let ?s1 = "s\<lparr>fl_db := recover_event (fl_now s) dlqOk ev (fl_db s), fl_recoveries := (fl_recoveries s)(v := evs)\<rparr>"
  have "(fleet_step p)\<^sup>*\<^sup>* ?s1 (s\<lparr>fl_db := foldl (\<lambda>d ev. recover_event (fl_now s) dlqOk ev d) (fl_db s) (ev # evs),
      fl_recoveries := (fl_recoveries s)(v := [])\<rparr>)"
    by (rule Cons.IH [of ?s1, THEN back_subst [where P = "(fleet_step p)\<^sup>*\<^sup>* _"]]) (simp_all add: fun_eq_iff)
  with fleet_step.RecoverRow [OF Cons.prems, of p dlqOk] show ?case by (rule converse_rtranclp_into_rtranclp)
qed

lemma recovery_alone:
  assumes "fl_recoveries s v = []" "may_recover p s"
  shows "(fleet_step p)\<^sup>*\<^sup>* s (s\<lparr>fl_db := fst (recoverStuckEvents (fl_now s) 5 dlqOk (fl_db s))\<rparr>)"
proof -
  let ?evs = "filter (stuck (fl_now s - STUCK_MS)) (ed_outbox (fl_db s))"
  let ?s1 = "s\<lparr>fl_recoveries := (fl_recoveries s)(v := ?evs)\<rparr>"
  have idle: "(fl_recoveries s)(v := []) = fl_recoveries s" using assms(1) by (metis fun_upd_triv)
  from recover_rows_run [of ?s1 v ?evs p dlqOk] fleet_step.RecoverRead [OF assms] idle show ?thesis
    by (auto simp: recoverStuckEvents_def Let_def STUCK_MS_def intro: converse_rtranclp_into_rtranclp)
qed

section \<open>Exclusive claims\<close>

definition keys_ok :: "events_db \<Rightarrow> bool" where
  "keys_ok db \<longleftrightarrow> distinct (map ob_id (ed_outbox db)) \<and> (\<forall>r \<in> set (ed_outbox db). ob_id r < ed_nextOutbox db)"

text \<open>The row a worker dispatches is processing, locked by it at the start of its batch.\<close>

definition holds_claim :: "events_db \<Rightarrow> string \<Rightarrow> int \<Rightarrow> outbox_row \<Rightarrow> bool" where
  "holds_claim db w b raw \<longleftrightarrow> (\<exists>r \<in> set (ed_outbox db). ob_id r = ob_id raw \<and> ob_status r = ObProcessing \<and>
    ob_lockedBy r = Some w \<and> ob_lockedAt r = Some b)"

definition claims_ok :: "fleet \<Rightarrow> bool" where
  "claims_ok s \<longleftrightarrow> keys_ok (fl_db s) \<and>
    (\<forall>w. in_pace OneRecovery (fl_now s) (fl_workers s w)) \<and>
    (\<forall>w b c raw rest. fl_workers s w = WRunning b c raw rest \<longrightarrow> holds_claim (fl_db s) w b raw)"

text \<open>Every row a recovery has still to update is stuck in the table, too, and at most one recovery runs.\<close>

definition stuck_row :: "int \<Rightarrow> events_db \<Rightarrow> nat \<Rightarrow> bool" where
  "stuck_row now db i \<longleftrightarrow> (\<exists>r \<in> set (ed_outbox db). ob_id r = i \<and> stuck (now - STUCK_MS) r)"

definition recoveries_ok :: "fleet \<Rightarrow> bool" where
  "recoveries_ok s \<longleftrightarrow> (\<forall>v. distinct (map ob_id (fl_recoveries s v))) \<and>
    (\<forall>v. \<forall>ev \<in> set (fl_recoveries s v). stuck_row (fl_now s) (fl_db s) (ob_id ev)) \<and>
    (\<forall>v v'. fl_recoveries s v \<noteq> [] \<longrightarrow> fl_recoveries s v' \<noteq> [] \<longrightarrow> v = v')"

lemma same_key: "keys_ok db \<Longrightarrow> r \<in> set (ed_outbox db) \<Longrightarrow> q \<in> set (ed_outbox db) \<Longrightarrow> ob_id r = ob_id q \<Longrightarrow> r = q"
  by (auto simp: keys_ok_def distinct_map inj_on_def)

lemma holders_agree:
  "keys_ok db \<Longrightarrow> holds_claim db w b raw \<Longrightarrow> holds_claim db v c raw' \<Longrightarrow> ob_id raw = ob_id raw' \<Longrightarrow> w = v"
  unfolding holds_claim_def by (metis option.inject same_key)

text \<open>A row that no update touches keeps its claim.\<close>

lemma claim_kept:
  assumes "holds_claim db w b raw" "ed_outbox db' = update_rows p f (ed_outbox db)"
    "\<And>r. r \<in> set (ed_outbox db) \<Longrightarrow> ob_id r = ob_id raw \<Longrightarrow> ob_status r = ObProcessing \<Longrightarrow> ob_lockedAt r = Some b \<Longrightarrow> \<not> p r"
  shows "holds_claim db' w b raw"
  using assms updated_in [of _ "ed_outbox db" p f] unfolding holds_claim_def by fastforce

lemma keys_update:
  "keys_ok db \<Longrightarrow> (\<And>r. ob_id (f r) = ob_id r) \<Longrightarrow> ed_outbox db' = update_rows p f (ed_outbox db) \<Longrightarrow>
    ed_nextOutbox db' = ed_nextOutbox db \<Longrightarrow> keys_ok db'"
  by (auto simp: keys_ok_def map_update_rows in_update_rows)

lemma settle_update:
  "\<exists>f. (\<forall>r. ob_id (f r) = ob_id r) \<and> ed_outbox (settle_event env raw outcome db) = update_rows (\<lambda>r. ob_id r = ob_id raw) f (ed_outbox db) \<and>
    ed_nextOutbox (settle_event env raw outcome db) = ed_nextOutbox db"
proof (cases "snd outcome = ''''")
  case True
  show ?thesis
    by (rule exI [of _ "\<lambda>r. r\<lparr>ob_status := ObCompleted, ob_processed := Some (be_at env (ob_id raw)), ob_error := None,
        ob_lockedAt := None, ob_lockedBy := None, ob_completed := fst outcome\<rparr>"])
      (simp add: settle_event_def mark_completed_def Let_def True)
next
  case False
  let ?n = "ob_retry raw + 1" and ?t = "be_at env (ob_id raw)"
  show ?thesis
    by (rule exI [of _ "\<lambda>r. r\<lparr>ob_status := (if ?n \<ge> MAX_RETRIES then ObFailed else ObPending), ob_retry := ?n,
             ob_next := (if ?n \<ge> MAX_RETRIES then None else Some (?t + backoffSeconds ?n * 1000)),
             ob_error := Some (snd outcome), ob_processed := (if ?n \<ge> MAX_RETRIES then Some ?t else None),
             ob_lockedAt := None, ob_lockedBy := None, ob_completed := fst outcome\<rparr>"])
      (simp add: settle_event_def mark_failed_def Let_def False)
qed

lemma recover_update:
  "\<exists>f. (\<forall>r. ob_id (f r) = ob_id r) \<and> ed_outbox (recover_event t ok ev db) = update_rows (\<lambda>r. ob_id r = ob_id ev) f (ed_outbox db) \<and>
    ed_nextOutbox (recover_event t ok ev db) = ed_nextOutbox db"
proof (cases "MAX_RETRIES \<le> Suc (ob_retry ev)")
  case True
  show ?thesis
    by (rule exI [of _ "\<lambda>r. r\<lparr>ob_status := ObFailed, ob_retry := ob_retry ev + 1, ob_error := Some ''stuck in processing'',
        ob_processed := Some t, ob_lockedAt := None, ob_lockedBy := None\<rparr>"])
      (simp add: recover_event_def Let_def True)
next
  case False
  show ?thesis
    by (rule exI [of _ "\<lambda>r. r\<lparr>ob_status := ObPending, ob_retry := ob_retry ev + 1, ob_lockedAt := None, ob_lockedBy := None,
        ob_next := None, ob_error := Some ''stuck in processing''\<rparr>"])
      (simp add: recover_event_def Let_def False)
qed

lemma held_not_stuck:
  assumes "keys_ok db" "holds_claim db w b raw" "now < b + STUCK_MS" "stuck_row now db i"
  shows "ob_id raw \<noteq> i"
proof
  assume "ob_id raw = i"
  with assms(1,2,4) obtain r where "ob_lockedAt r = Some b" "stuck (now - STUCK_MS) r"
    unfolding holds_claim_def stuck_row_def by (metis same_key)
  with assms(3) show False by (simp add: stuck_def)
qed

text \<open>A row that no update touches stays stuck, and time alone does not free it.\<close>

lemma stuck_kept:
  assumes "stuck_row now db i" "ed_outbox db' = update_rows p f (ed_outbox db)" "now \<le> now'"
    "\<And>r. r \<in> set (ed_outbox db) \<Longrightarrow> ob_id r = i \<Longrightarrow> ob_status r = ObProcessing \<Longrightarrow> \<not> p r"
  shows "stuck_row now' db' i"
proof -
  from assms(1) obtain r where r: "r \<in> set (ed_outbox db)" "ob_id r = i" "stuck (now - STUCK_MS) r" by (auto simp: stuck_row_def)
  then have "r \<in> set (ed_outbox db')" using assms(2,4) updated_in [of r "ed_outbox db" p f] by (auto simp: stuck_def)
  moreover have "stuck (now' - STUCK_MS) r" using r(3) assms(3) by (auto simp: stuck_def split: option.splits)
  ultimately show ?thesis using r(2) by (auto simp: stuck_row_def)
qed

lemma claim_update:
  assumes "claim b w i db = Some db1"
  shows "ed_outbox db1 = update_rows (\<lambda>r. ob_id r = i \<and> due b r)
      (\<lambda>r. r\<lparr>ob_status := ObProcessing, ob_lockedAt := Some b, ob_lockedBy := Some w\<rparr>) (ed_outbox db)"
    "ed_nextOutbox db1 = ed_nextOutbox db" "\<exists>r \<in> set (ed_outbox db). ob_id r = i \<and> due b r"
  using assms by (auto simp: claim_def list_ex_iff split: if_splits)

lemma record_keeps:
  assumes "saveToOutbox t e db = Inr db1"
  shows "keys_ok db \<Longrightarrow> keys_ok db1" "holds_claim db w b raw \<Longrightarrow> holds_claim db1 w b raw"
    "stuck_row now db i \<Longrightarrow> stuck_row now db1 i"
  using assms
  by (fastforce simp: saveToOutbox_def insert_outbox_def keys_ok_def holds_claim_def stuck_row_def outboxRowOf_def less_SucI split: if_splits)+

lemma claim_step:
  assumes "claims_ok s" "recoveries_ok s" "fl_workers s w = WBatch b (raw # rest)" "claim b w (ob_id raw) (fl_db s) = Some db1"
    and s': "s' = s\<lparr>fl_db := db1, fl_workers := (fl_workers s)(w := WRunning b (fl_now s) raw rest)\<rparr>"
  shows "claims_ok s' \<and> recoveries_ok s'"
proof -
  note u = claim_update [OF assms(4)]
  have ok: "keys_ok (fl_db s)" using assms(1) by (simp add: claims_ok_def)
  have pace: "fl_now s < b + STUCK_MS" using assms(1,3) by (metis claims_ok_def in_pace.simps(5))
  have "keys_ok db1" by (rule keys_update [OF ok _ u(1,2)]) simp
  moreover have "holds_claim db1 w b raw"
  proof -
    from u(3) obtain r where r: "r \<in> set (ed_outbox (fl_db s))" "ob_id r = ob_id raw" "due b r" by blast
    let ?f = "\<lambda>r. r\<lparr>ob_status := ObProcessing, ob_lockedAt := Some b, ob_lockedBy := Some w\<rparr> :: outbox_row"
    have "?f r \<in> set (ed_outbox db1)"
      using updated_in [OF r(1), of "\<lambda>r. ob_id r = ob_id raw \<and> due b r" ?f] r(2,3) by (simp add: u(1))
    with r(2) show ?thesis unfolding holds_claim_def by (intro bexI [of _ "?f r"]) auto
  qed
  moreover have "holds_claim db1 v c x" if "holds_claim (fl_db s) v c x" for v c x
    by (rule claim_kept [OF that u(1)]) (auto simp: due_def)
  moreover have "stuck_row (fl_now s) db1 i" if "stuck_row (fl_now s) (fl_db s) i" for i
    by (rule stuck_kept [OF that u(1) order_refl]) (auto simp: due_def)
  ultimately show ?thesis using assms(1,2) pace by (auto simp: s' claims_ok_def recoveries_ok_def)
qed

lemma finish_step:
  assumes "claims_ok s" "recoveries_ok s" "fl_workers s w = WRunning b c raw rest"
    and s': "s' = s\<lparr>fl_db := settle_event env raw outcome (fl_db s), fl_workers := (fl_workers s)(w := WBatch b rest)\<rparr>"
  shows "claims_ok s' \<and> recoveries_ok s'"
proof -
  have ok: "keys_ok (fl_db s)" "holds_claim (fl_db s) w b raw" using assms(1,3) by (auto simp: claims_ok_def)
  have pace: "fl_now s < b + STUCK_MS" using assms(1,3) by (metis claims_ok_def in_pace.simps(4))
  from settle_update [of env raw outcome "fl_db s"] obtain f where f: "\<forall>r. ob_id (f r) = ob_id r"
    "ed_outbox (settle_event env raw outcome (fl_db s)) = update_rows (\<lambda>r. ob_id r = ob_id raw) f (ed_outbox (fl_db s))"
    "ed_nextOutbox (settle_event env raw outcome (fl_db s)) = ed_nextOutbox (fl_db s)" by blast
  have "keys_ok (settle_event env raw outcome (fl_db s))" using keys_update [OF ok(1) _ f(2,3)] f(1) by blast
  moreover have "holds_claim (settle_event env raw outcome (fl_db s)) v e x" if x: "holds_claim (fl_db s) v e x" "v \<noteq> w" for v e x
    by (rule claim_kept [OF x(1) f(2)]) (use holders_agree [OF ok(1) x(1) ok(2)] x(2) in auto)
  moreover have "stuck_row (fl_now s) (settle_event env raw outcome (fl_db s)) i" if i: "stuck_row (fl_now s) (fl_db s) i" for i
    by (rule stuck_kept [OF i f(2) order_refl]) (use held_not_stuck [OF ok pace i] in auto)
  ultimately show ?thesis using assms pace by (auto simp: claims_ok_def recoveries_ok_def)
qed

lemma recover_step:
  assumes "claims_ok s" "recoveries_ok s" "fl_recoveries s v = ev # evs"
    and s': "s' = s\<lparr>fl_db := recover_event (fl_now s) dlqOk ev (fl_db s), fl_recoveries := (fl_recoveries s)(v := evs)\<rparr>"
  shows "claims_ok s' \<and> recoveries_ok s'"
proof -
  have ok: "keys_ok (fl_db s)" using assms(1) by (simp add: claims_ok_def)
  have ev: "stuck_row (fl_now s) (fl_db s) (ob_id ev)" "distinct (map ob_id (ev # evs))"
    using assms(2,3) unfolding recoveries_ok_def by (metis list.set_intros(1))+
  have other: "fl_recoveries s v' = []" if "v' \<noteq> v" for v' using assms(2,3) that unfolding recoveries_ok_def by (metis list.distinct(1))
  from recover_update [of "fl_now s" dlqOk ev "fl_db s"] obtain f where f: "\<forall>r. ob_id (f r) = ob_id r"
    "ed_outbox (recover_event (fl_now s) dlqOk ev (fl_db s)) = update_rows (\<lambda>r. ob_id r = ob_id ev) f (ed_outbox (fl_db s))"
    "ed_nextOutbox (recover_event (fl_now s) dlqOk ev (fl_db s)) = ed_nextOutbox (fl_db s)" by blast
  have "keys_ok (recover_event (fl_now s) dlqOk ev (fl_db s))" using keys_update [OF ok _ f(2,3)] f(1) by blast
  moreover have "holds_claim (recover_event (fl_now s) dlqOk ev (fl_db s)) w b raw" if w: "fl_workers s w = WRunning b c raw rest" for w b c raw rest
  proof -
    have held: "holds_claim (fl_db s) w b raw" "fl_now s < b + STUCK_MS"
      using assms(1) w by (auto simp: claims_ok_def) (metis in_pace.simps(4))
    show ?thesis by (rule claim_kept [OF held(1) f(2)]) (use held_not_stuck [OF ok held ev(1)] in auto)
  qed
  moreover have "stuck_row (fl_now s) (recover_event (fl_now s) dlqOk ev (fl_db s)) (ob_id x)" if x: "x \<in> set evs" for x
  proof -
    have "stuck_row (fl_now s) (fl_db s) (ob_id x)" using assms(2,3) x unfolding recoveries_ok_def by (metis list.set_intros(2))
    then show ?thesis by (rule stuck_kept [OF _ f(2) order_refl]) (use ev(2) x in force)
  qed
  ultimately show ?thesis using assms(1) ev(2) other by (auto simp: s' claims_ok_def recoveries_ok_def)
qed

lemma fleet_step_claims:
  assumes "fleet_step OneRecovery s s'" "claims_ok s" "recoveries_ok s"
  shows "claims_ok s' \<and> recoveries_ok s'"
  using assms
proof (induction rule: fleet_step.induct)
  case (Tick s t)
  have "stuck_row t (fl_db s) i" if "stuck_row (fl_now s) (fl_db s) i" for i
    using stuck_kept [OF that, of "fl_db s" "\<lambda>r. False" id t] Tick(1) by (simp add: update_rows_def)
  with Tick show ?case by (auto simp: claims_ok_def recoveries_ok_def)
next
  case (Start s w n)
  then show ?case by (auto simp: claims_ok_def recoveries_ok_def STUCK_MS_def)
next
  case (Skip s w b raw rest)
  then have "in_pace OneRecovery (fl_now s) (WBatch b (raw # rest))" by (metis claims_ok_def)
  with Skip show ?case by (auto simp: claims_ok_def recoveries_ok_def)
next
  case (Claim s w b raw rest db1)
  then show ?case using claim_step by blast
next
  case (Finish s w b c raw rest env outcome)
  then show ?case using finish_step by blast
next
  case (RecoverRead s v)
  have "distinct (map ob_id (filter (stuck (fl_now s - STUCK_MS)) (ed_outbox (fl_db s))))"
    using RecoverRead(3) by (auto simp: claims_ok_def keys_ok_def intro: distinct_map_filter)
  with RecoverRead show ?case by (auto simp: claims_ok_def recoveries_ok_def may_recover_def stuck_row_def)
next
  case (RecoverRow s v ev evs dlqOk)
  then show ?case using recover_step by blast
next
  case (Record s e db1)
  then show ?case using record_keeps by (fastforce simp: claims_ok_def recoveries_ok_def)
qed (auto simp: claims_ok_def recoveries_ok_def)

text \<open>
  C29: an event is dispatched by one worker at a time. Let the statements of several workers, of the
  recovery of stuck events (the read of the stuck rows and the update of each) and new records interleave
  in any order, with workers and recoveries stopping anywhere; let every batch end within five minutes of
  its start, and let no recovery start while another one runs. Then no two workers are ever in a dispatch
  of the same event, and the row of an event in dispatch is marked processing and locked by its worker.
\<close>

theorem one_worker_per_event:
  assumes "(fleet_step OneRecovery)\<^sup>*\<^sup>* s0 s" "keys_ok (fl_db s0)" "\<forall>w. fl_workers s0 w = WIdle" "\<forall>v. fl_recoveries s0 v = []"
    and "fl_workers s w = WRunning b c raw rest"
  shows "(\<exists>r \<in> set (ed_outbox (fl_db s)). ob_id r = ob_id raw \<and> ob_status r = ObProcessing \<and> ob_lockedBy r = Some w) \<and>
    (\<forall>v b' c' raw' rest'. fl_workers s v = WRunning b' c' raw' rest' \<and> ob_id raw' = ob_id raw \<longrightarrow> v = w)"
proof -
  have "claims_ok s0 \<and> recoveries_ok s0" using assms(2-4) by (simp add: claims_ok_def recoveries_ok_def)
  with assms(1) have "claims_ok s \<and> recoveries_ok s" by (induction rule: rtranclp_induct) (auto dest: fleet_step_claims)
  then have keys: "keys_ok (fl_db s)" and holds: "\<And>w b c raw rest. fl_workers s w = WRunning b c raw rest \<Longrightarrow> holds_claim (fl_db s) w b raw"
    by (auto simp: claims_ok_def)
  then show ?thesis using holders_agree [OF keys] assms(5) by (metis holds_claim_def)
qed

section \<open>A batch longer than five minutes\<close>

text \<open>
  The bound is on the batch and not on the dispatch: a claim stores the time its batch started, so in a
  batch that has run for five minutes the recovery takes back an event the moment it is claimed, and a
  second worker dispatches it while the first still does. The rows of the run below.
\<close>

definition slow_event :: "string \<Rightarrow> domain_event" where
  "slow_event i = \<lparr>de_id = i, de_type = ''StockReceived'', de_aggType = ''Item'', de_aggId = ''7'',
    de_payload = JObj [], de_meta = JObj [(''timestamp'', JStr ''t'')], de_occurred = Some 0\<rparr>"

definition row_a :: outbox_row where "row_a = outboxRowOf 2 0 (slow_event ''a'')"
definition row_b :: outbox_row where "row_b = outboxRowOf 3 0 (slow_event ''b'')"

definition taken_row :: "int \<Rightarrow> string \<Rightarrow> outbox_row \<Rightarrow> outbox_row" where
  "taken_row b w r = r\<lparr>ob_status := ObProcessing, ob_lockedAt := Some b, ob_lockedBy := Some w\<rparr>"

definition completed_row :: "outbox_row \<Rightarrow> outbox_row" where
  "completed_row r = r\<lparr>ob_status := ObCompleted, ob_processed := Some 200000, ob_error := None, ob_lockedAt := None, ob_lockedBy := None,
     ob_completed := []\<rparr>"

definition recovered_row :: "outbox_row \<Rightarrow> outbox_row" where
  "recovered_row r = r\<lparr>ob_status := ObPending, ob_retry := 1, ob_lockedAt := None, ob_lockedBy := None, ob_next := None,
     ob_error := Some ''stuck in processing''\<rparr>"

definition two_rows :: "outbox_row \<Rightarrow> outbox_row \<Rightarrow> events_db" where
  "two_rows r q = \<lparr>ed_outbox = [r, q], ed_dlq = [], ed_nextOutbox = 4, ed_nextDlq = 1\<rparr>"

definition slow_fleet :: fleet where
  "slow_fleet = \<lparr>fl_now = 0, fl_db = two_rows row_a row_b, fl_workers = (\<lambda>_. WIdle), fl_recoveries = (\<lambda>_. [])\<rparr>"

definition done_env :: batch_env where
  "done_env = \<lparr>be_now = 0, be_worker = ''A'', be_iso = (\<lambda>_. ''t''), be_at = (\<lambda>_. 200000), be_answers = (\<lambda>_ _. None),
    be_dlqOk = (\<lambda>_. True)\<rparr>"

lemmas slow_defs = row_a_def row_b_def outboxRowOf_def slow_event_def taken_row_def completed_row_def recovered_row_def two_rows_def
  due_def MAX_RETRIES_def OUTBOX_MAX_ATTEMPTS_def update_rows_def

lemma slow_candidates:
  "candidateEvents 0 25 (two_rows row_a row_b) = [row_a, row_b]"
  "candidateEvents 310000 25 (two_rows (completed_row (taken_row 0 ''A'' row_a)) (recovered_row (taken_row 0 ''A'' row_b))) =
    [recovered_row (taken_row 0 ''A'' row_b)]"
  by (simp_all add: candidateEvents_def slow_defs)

lemma slow_claims:
  "claim 0 ''A'' 2 (two_rows row_a row_b) = Some (two_rows (taken_row 0 ''A'' row_a) row_b)"
  "claim 0 ''A'' 3 (two_rows (completed_row (taken_row 0 ''A'' row_a)) row_b) =
    Some (two_rows (completed_row (taken_row 0 ''A'' row_a)) (taken_row 0 ''A'' row_b))"
  "claim 310000 ''B'' 3 (two_rows (completed_row (taken_row 0 ''A'' row_a)) (recovered_row (taken_row 0 ''A'' row_b))) =
    Some (two_rows (completed_row (taken_row 0 ''A'' row_a)) (taken_row 310000 ''B'' (recovered_row (taken_row 0 ''A'' row_b))))"
  by (simp_all add: claim_def slow_defs)

lemma slow_finish:
  "settle_event done_env row_a ([], '''') (two_rows (taken_row 0 ''A'' row_a) row_b) = two_rows (completed_row (taken_row 0 ''A'' row_a)) row_b"
  by (simp add: settle_event_def mark_completed_def done_env_def slow_defs)

lemma slow_recover:
  "fst (recoverStuckEvents 310000 5 (\<lambda>_. True) (two_rows (completed_row (taken_row 0 ''A'' row_a)) (taken_row 0 ''A'' row_b))) =
    two_rows (completed_row (taken_row 0 ''A'' row_a)) (recovered_row (taken_row 0 ''A'' row_b))"
  by (simp add: recoverStuckEvents_def recover_event_def stuck_def slow_defs)

text \<open>The run: worker \<open>A\<close> claims the second event at 200 seconds, \<open>B\<close> claims it again at 310.\<close>

lemma slow_batch_run:
  "\<exists>s raw raw' rest'. (fleet_step DispatchWithin5Minutes)\<^sup>*\<^sup>* slow_fleet s \<and>
    fl_workers s ''A'' = WRunning 0 200000 raw [] \<and> fl_workers s ''B'' = WRunning 310000 310000 raw' rest' \<and>
    ob_event raw = ob_event raw' \<and> fl_now s - 200000 < STUCK_MS"
proof -
  let ?a = "taken_row 0 ''A'' row_a" and ?b = "taken_row 0 ''A'' row_b" and ?idle = "\<lambda>_. WIdle"
  let ?c = "completed_row ?a" and ?r = "recovered_row ?b"
  let ?st = "\<lambda>t db ws. \<lparr>fl_now = t, fl_db = db, fl_workers = ws, fl_recoveries = (\<lambda>_. [])\<rparr>"
  have id: "ob_id row_a = 2" "ob_id row_b = 3" "ob_id ?r = 3" by (simp_all add: slow_defs)
  note [simp] = slow_candidates slow_claims slow_finish slow_recover id slow_fleet_def STUCK_MS_def
  let ?R = "(fleet_step DispatchWithin5Minutes)\<^sup>*\<^sup>* slow_fleet"
  have 1: "?R (?st 0 (two_rows row_a row_b) (?idle(''A'' := WBatch 0 [row_a, row_b])))"
    using fleet_step.Start [of slow_fleet "''A''" DispatchWithin5Minutes 25] by (auto intro: r_into_rtranclp)
  have 2: "?R (?st 0 (two_rows ?a row_b) (?idle(''A'' := WRunning 0 0 row_a [row_b])))"
    by (rule rtranclp.rtrancl_into_rtrancl [OF 1])
      (rule fleet_step.Claim [where w = "''A''" and b = 0 and raw = row_a and rest = "[row_b]", THEN back_subst [where P = "fleet_step _ _"]], simp_all)
  have 3: "?R (?st 200000 (two_rows ?a row_b) (?idle(''A'' := WRunning 0 0 row_a [row_b])))"
    by (rule rtranclp.rtrancl_into_rtrancl [OF 2])
      (rule fleet_step.Tick [where t = 200000, THEN back_subst [where P = "fleet_step _ _"]], simp_all)
  have 4: "?R (?st 200000 (two_rows ?c row_b) (?idle(''A'' := WBatch 0 [row_b])))"
    by (rule rtranclp.rtrancl_into_rtrancl [OF 3])
      (rule fleet_step.Finish [where w = "''A''" and b = 0 and c = 0 and raw = row_a and rest = "[row_b]" and env = done_env and outcome = "([], '''')", THEN back_subst [where P = "fleet_step _ _"]], simp_all)
  have 5: "?R (?st 200000 (two_rows ?c ?b) (?idle(''A'' := WRunning 0 200000 row_b [])))"
    by (rule rtranclp.rtrancl_into_rtrancl [OF 4])
      (rule fleet_step.Claim [where w = "''A''" and b = 0 and raw = row_b and rest = "[]", THEN back_subst [where P = "fleet_step _ _"]], simp_all)
  have 6: "?R (?st 310000 (two_rows ?c ?b) (?idle(''A'' := WRunning 0 200000 row_b [])))"
    by (rule rtranclp.rtrancl_into_rtrancl [OF 5])
      (rule fleet_step.Tick [where t = 310000, THEN back_subst [where P = "fleet_step _ _"]], simp_all)
  have 7: "?R (?st 310000 (two_rows ?c ?r) (?idle(''A'' := WRunning 0 200000 row_b [])))"
    by (rule rtranclp_trans [OF 6])
      (rule recovery_alone [where v = "''P''" and dlqOk = "\<lambda>_. True", THEN back_subst [where P = "(fleet_step _)\<^sup>*\<^sup>* _"]], simp_all add: may_recover_def)
  have 8: "?R (?st 310000 (two_rows ?c ?r) (?idle(''A'' := WRunning 0 200000 row_b [], ''B'' := WBatch 310000 [?r])))"
    by (rule rtranclp.rtrancl_into_rtrancl [OF 7])
      (rule fleet_step.Start [where w = "''B''" and n = 25, THEN back_subst [where P = "fleet_step _ _"]], simp_all)
  have 9: "?R (?st 310000 (two_rows ?c (taken_row 310000 ''B'' ?r)) (?idle(''A'' := WRunning 0 200000 row_b [], ''B'' := WRunning 310000 310000 ?r [])))"
    by (rule rtranclp.rtrancl_into_rtrancl [OF 8])
      (rule fleet_step.Claim [where w = "''B''" and b = 310000 and raw = ?r and rest = "[]", THEN back_subst [where P = "fleet_step _ _"]], simp_all)
  have "ob_event row_b = ob_event ?r" by (simp add: slow_defs)
  with 9 show ?thesis
    by (intro exI [of _ "?st 310000 (two_rows ?c (taken_row 310000 ''B'' ?r))
      (?idle(''A'' := WRunning 0 200000 row_b [], ''B'' := WRunning 310000 310000 ?r []))"]) simp
qed

section \<open>Recoveries that overlap\<close>

text \<open>
  Worker \<open>A\<close> stops in a dispatch; at 310 seconds the recoveries \<open>P\<close> and \<open>Q\<close> read its event; \<open>P\<close>
  releases it, \<open>B\<close> claims it, \<open>Q\<close> releases it again, \<open>C\<close> claims it.
\<close>

definition freed_row :: outbox_row where
  "freed_row = recovered_row (taken_row 0 ''A'' row_a)"

lemma overlap_steps:
  "candidateEvents 0 (Suc 0) (two_rows row_a row_b) = [row_a]"
  "candidateEvents 310000 (Suc 0) (two_rows freed_row row_b) = [freed_row]"
  "filter (stuck 10000) (ed_outbox (two_rows (taken_row 0 ''A'' row_a) row_b)) = [taken_row 0 ''A'' row_a]"
  "recover_event 310000 (\<lambda>_. True) (taken_row 0 ''A'' row_a) (two_rows (taken_row 0 ''A'' row_a) row_b) = two_rows freed_row row_b"
  "claim 310000 w 2 (two_rows freed_row row_b) = Some (two_rows (taken_row 310000 w freed_row) row_b)"
  "recover_event 310000 (\<lambda>_. True) (taken_row 0 ''A'' row_a) (two_rows (taken_row 310000 ''B'' freed_row) row_b) =
    two_rows freed_row row_b"
  by (simp_all add: candidateEvents_def stuck_def recover_event_def claim_def freed_row_def slow_defs)

lemma overlapping_recoveries_run:
  "\<exists>s raw raw'. (fleet_step BatchWithin5Minutes)\<^sup>*\<^sup>* slow_fleet s \<and> fl_now s = 310000 \<and>
    fl_workers s ''B'' = WRunning 310000 310000 raw [] \<and> fl_workers s ''C'' = WRunning 310000 310000 raw' [] \<and>
    ob_event raw = ob_event raw'"
proof -
  let ?a = "taken_row 0 ''A'' row_a" and ?r = "freed_row" and ?idle = "\<lambda>_ :: string. WIdle" and ?none = "\<lambda>_ :: string. [] :: outbox_row list"
  let ?st = "\<lambda>t db ws rs. \<lparr>fl_now = t, fl_db = db, fl_workers = ws, fl_recoveries = rs\<rparr>"
  have id: "ob_id row_a = 2" "ob_id ?r = 2" by (simp_all add: freed_row_def slow_defs)
  note [simp] = overlap_steps slow_claims id slow_fleet_def STUCK_MS_def may_recover_def
  let ?R = "(fleet_step BatchWithin5Minutes)\<^sup>*\<^sup>* slow_fleet"
  have 1: "?R (?st 0 (two_rows row_a row_b) (?idle(''A'' := WBatch 0 [row_a])) ?none)"
    using fleet_step.Start [of slow_fleet "''A''" BatchWithin5Minutes 1] by (auto intro: r_into_rtranclp)
  have 2: "?R (?st 0 (two_rows ?a row_b) (?idle(''A'' := WRunning 0 0 row_a [])) ?none)"
    by (rule rtranclp.rtrancl_into_rtrancl [OF 1])
      (rule fleet_step.Claim [where w = "''A''" and b = 0 and raw = row_a and rest = "[]", THEN back_subst [where P = "fleet_step _ _"]], simp_all)
  have 3: "?R (?st 0 (two_rows ?a row_b) ?idle ?none)"
    by (rule rtranclp.rtrancl_into_rtrancl [OF 2])
      (rule fleet_step.Crash [where w = "''A''", THEN back_subst [where P = "fleet_step _ _"]], simp add: fun_eq_iff)
  have 4: "?R (?st 310000 (two_rows ?a row_b) ?idle ?none)"
    by (rule rtranclp.rtrancl_into_rtrancl [OF 3])
      (rule fleet_step.Tick [where t = 310000, THEN back_subst [where P = "fleet_step _ _"]], simp_all)
  have 5: "?R (?st 310000 (two_rows ?a row_b) ?idle (?none(''P'' := [?a])))"
    by (rule rtranclp.rtrancl_into_rtrancl [OF 4])
      (rule fleet_step.RecoverRead [where v = "''P''", THEN back_subst [where P = "fleet_step _ _"]], simp_all)
  have 6: "?R (?st 310000 (two_rows ?a row_b) ?idle (?none(''P'' := [?a], ''Q'' := [?a])))"
    by (rule rtranclp.rtrancl_into_rtrancl [OF 5])
      (rule fleet_step.RecoverRead [where v = "''Q''", THEN back_subst [where P = "fleet_step _ _"]], simp_all)
  have 7: "?R (?st 310000 (two_rows ?r row_b) ?idle (?none(''Q'' := [?a])))"
    by (rule rtranclp.rtrancl_into_rtrancl [OF 6])
      (rule fleet_step.RecoverRow [where v = "''P''" and ev = ?a and evs = "[]" and dlqOk = "\<lambda>_. True", THEN back_subst [where P = "fleet_step _ _"]],
        simp_all add: fun_eq_iff)
  have 8: "?R (?st 310000 (two_rows ?r row_b) (?idle(''B'' := WBatch 310000 [?r])) (?none(''Q'' := [?a])))"
    by (rule rtranclp.rtrancl_into_rtrancl [OF 7])
      (rule fleet_step.Start [where w = "''B''" and n = 1, THEN back_subst [where P = "fleet_step _ _"]], simp_all)
  have 9: "?R (?st 310000 (two_rows (taken_row 310000 ''B'' ?r) row_b) (?idle(''B'' := WRunning 310000 310000 ?r [])) (?none(''Q'' := [?a])))"
    by (rule rtranclp.rtrancl_into_rtrancl [OF 8])
      (rule fleet_step.Claim [where w = "''B''" and b = 310000 and raw = ?r and rest = "[]", THEN back_subst [where P = "fleet_step _ _"]], simp_all)
  have 10: "?R (?st 310000 (two_rows ?r row_b) (?idle(''B'' := WRunning 310000 310000 ?r [])) ?none)"
    by (rule rtranclp.rtrancl_into_rtrancl [OF 9])
      (rule fleet_step.RecoverRow [where v = "''Q''" and ev = ?a and evs = "[]" and dlqOk = "\<lambda>_. True", THEN back_subst [where P = "fleet_step _ _"]],
        simp_all add: fun_eq_iff)
  have 11: "?R (?st 310000 (two_rows ?r row_b) (?idle(''B'' := WRunning 310000 310000 ?r [], ''C'' := WBatch 310000 [?r])) ?none)"
    by (rule rtranclp.rtrancl_into_rtrancl [OF 10])
      (rule fleet_step.Start [where w = "''C''" and n = 1, THEN back_subst [where P = "fleet_step _ _"]], simp_all)
  have 12: "?R (?st 310000 (two_rows (taken_row 310000 ''C'' ?r) row_b) (?idle(''B'' := WRunning 310000 310000 ?r [], ''C'' := WRunning 310000 310000 ?r [])) ?none)"
    by (rule rtranclp.rtrancl_into_rtrancl [OF 11])
      (rule fleet_step.Claim [where w = "''C''" and b = 310000 and raw = ?r and rest = "[]", THEN back_subst [where P = "fleet_step _ _"]], simp_all)
  then show ?thesis
    by (intro exI [of _ "?st 310000 (two_rows (taken_row 310000 ''C'' ?r) row_b)
      (?idle(''B'' := WRunning 310000 310000 ?r [], ''C'' := WRunning 310000 310000 ?r [])) ?none"] exI [of _ ?r]) simp
qed

text \<open>
  C30: both conditions of C29 are needed. The pace of the whole batch matters, not that of a dispatch: two
  workers that spend less than five minutes on each dispatch can still dispatch the same event at the
  same time, since every claim of a batch stores the time the batch started, so the recovery takes the
  second event of a slow batch for stuck although its worker claimed it less than five minutes ago. And
  the recovery must run alone: when two recoveries read the same stuck event, the second update, by the
  identifier alone, releases the event a worker has claimed in between, so two workers dispatch it at
  the same time although every batch ends within five minutes of its start.
\<close>

theorem slow_batch_overlaps:
  "(\<exists>s raw raw' rest'. (fleet_step DispatchWithin5Minutes)\<^sup>*\<^sup>* slow_fleet s \<and>
    fl_workers s ''A'' = WRunning 0 200000 raw [] \<and> fl_workers s ''B'' = WRunning 310000 310000 raw' rest' \<and>
    ob_event raw = ob_event raw' \<and> fl_now s - 200000 < STUCK_MS) \<and>
  (\<exists>s raw raw'. (fleet_step BatchWithin5Minutes)\<^sup>*\<^sup>* slow_fleet s \<and> fl_now s = 310000 \<and>
    fl_workers s ''B'' = WRunning 310000 310000 raw [] \<and> fl_workers s ''C'' = WRunning 310000 310000 raw' [] \<and>
    ob_event raw = ob_event raw')"
  using slow_batch_run overlapping_recoveries_run by (rule conjI)

lemma one_worker_per_event_witness:
  "\<exists>s. (fleet_step OneRecovery)\<^sup>*\<^sup>* slow_fleet s \<and> fl_workers s ''A'' = WRunning 0 0 row_a [row_b] \<and>
    (\<exists>r \<in> set (ed_outbox (fl_db s)). ob_id r = 2 \<and> ob_lockedBy r = Some ''A'')"
proof -
  let ?idle = "\<lambda>_ :: string. WIdle" and ?none = "\<lambda>_ :: string. [] :: outbox_row list"
  let ?s1 = "\<lparr>fl_now = 0, fl_db = two_rows row_a row_b, fl_workers = ?idle(''A'' := WBatch 0 [row_a, row_b]), fl_recoveries = ?none\<rparr>"
  let ?s2 = "\<lparr>fl_now = 0, fl_db = two_rows (taken_row 0 ''A'' row_a) row_b, fl_workers = ?idle(''A'' := WRunning 0 0 row_a [row_b]),
    fl_recoveries = ?none\<rparr>"
  have id: "ob_id row_a = 2" by (simp add: slow_defs)
  note [simp] = slow_candidates slow_claims id slow_fleet_def
  have "fleet_step OneRecovery slow_fleet ?s1"
    by (rule fleet_step.Start [where w = "''A''" and n = 25, THEN back_subst [where P = "fleet_step _ _"]], simp_all)
  moreover have "fleet_step OneRecovery ?s1 ?s2"
    by (rule fleet_step.Claim [where w = "''A''" and b = 0 and raw = row_a and rest = "[row_b]", THEN back_subst [where P = "fleet_step _ _"]], simp_all)
  ultimately have run: "(fleet_step OneRecovery)\<^sup>*\<^sup>* slow_fleet ?s2" by auto
  have "keys_ok (fl_db slow_fleet)" by (simp add: keys_ok_def two_rows_def slow_defs)
  from one_worker_per_event [OF run this, of "''A''" 0 0 row_a "[row_b]"] run show ?thesis by (intro exI [of _ ?s2]) auto
qed

end
