(* ===== verification/VoucherBalance.thy ===== *)
theory VoucherBalance
  imports Decimal
begin

text \<open>
  When the rows of a journal voucher balance (\<open>lib/accounting/voucherCurrencyBalance.ts\<close>,
  \<open>lib/accounting/voucherFormCurrency.ts\<close> for the forms, \<open>services/accounting/voucherRowBalance.ts\<close> and
  the check of the request schema; the tolerance is that of \<open>lib/voucherBalance.ts\<close>). A voucher in one currency is compared in that currency; rows in several currencies, or of
  a manual voucher at several rates, are compared in rials, each row at its own rate. An amount is the
  value \<open>fin\<close> reads from the request; a missing or empty rate is \<open>None\<close>.
\<close>

section \<open>Rows, currencies and rates\<close>

text \<open>Why an operation on vouchers is refused: the errors of the accounting services, without their texts.\<close>

datatype source_kind = SrcDocument | SrcPayroll | SrcCheque | SrcBom | SrcTreasury | SrcOpening | SrcExpense

datatype posting_refusal = AccMissing | AccInactive | AccSummaryLevel | AccHasChildren

datatype voucher_error =
    VoucherNotFound | TooFewRows | NegativeAmount | EmptyRow | Unbalanced bool | RowRateRequired "nat list"
  | InvalidDate | PeriodClosed int | DateInFuture | DateTooEarly int | AccountNotPostable "(int \<times> posting_refusal) list"
  | ControlAccount | ControlReasonRequired | ControlReasonTooLong | DetailInvalid "nat list"
  | MakerCannotApprove | HasSource source_kind | OccConflict | NotDraft | HasActiveReversal nat
  | PermanentLocked | ApprovedLocked | ClosingLocked int | DraftNotReversible | ReversalOfReversal
  | AlreadyReversed nat | NoRows | CorrectionReasonRequired | CorrectionRowsRequired | PermanentNotCorrectable
  | ReversalLocked | InWorkflow | DuplicateSource | YearInvalid | YearNotEnded | YearAlreadyClosed int | YearNotClosed int
  | EarlierOpen "int list" | LaterClosed "int list" | YearHasDrafts nat | ReopenReasonRequired

record balance_row =
  br_debit :: rat
  br_credit :: rat
  br_currency :: "string option"
  br_rate :: "rat option"

definition VOUCHER_BALANCE_TOLERANCE :: rat where
  "VOUCHER_BALANCE_TOLERANCE = 1 / 100"

definition currencyCode :: "string option \<Rightarrow> string option" where
  "currencyCode value =
    (case value of
       None \<Rightarrow> None
     | Some v \<Rightarrow>
         let code = js_upper (js_trim v)
         in if code = '''' then None else if code = rial_fa then Some ''IRR'' else Some code)"

lemma currencyCode_IRR: "currencyCode (Some ''IRR'') = Some ''IRR''"
  by (simp add: currencyCode_def js_trim_def js_upper_def js_space_def char_upper_def Let_def rial_fa_def bytes_def)

lemma currencyCode_Nil: "currencyCode (Some '''') = None"
  by (simp add: currencyCode_def js_trim_def js_upper_def)

definition voucherRowCurrency :: "string option \<Rightarrow> string option \<Rightarrow> string" where
  "voucherRowCurrency rowCurrency voucherCurrency =
    (case currencyCode rowCurrency of
       Some c \<Rightarrow> c
     | None \<Rightarrow> (case currencyCode voucherCurrency of Some c \<Rightarrow> c | None \<Rightarrow> ''IRR''))"

definition voucherRowRate :: "string \<Rightarrow> rat option \<Rightarrow> rat option" where
  "voucherRowRate currency exchangeRate =
    (if currency = ''IRR'' then Some 1
     else (case exchangeRate of None \<Rightarrow> None | Some rate \<Rightarrow> if rate > 0 then Some rate else None))"

record resolved_row =
  rr_currency :: string
  rr_rate :: "rat option"
  rr_debit :: rat
  rr_credit :: rat

definition resolve_row :: "string option \<Rightarrow> 'a balance_row_scheme \<Rightarrow> resolved_row" where
  "resolve_row voucherCurrency row =
    (let currency = voucherRowCurrency (br_currency row) voucherCurrency
     in \<lparr>rr_currency = currency, rr_rate = voucherRowRate currency (br_rate row), rr_debit = br_debit row, rr_credit = br_credit row\<rparr>)"

text \<open>Row numbers, from 1, of the rows a condition selects.\<close>

definition row_numbers :: "('a \<Rightarrow> bool) \<Rightarrow> 'a list \<Rightarrow> nat list" where
  "row_numbers p rows = map fst (filter (\<lambda>x. p (snd x)) (enumerate 1 rows))"

definition toRial :: "decimal_lib \<Rightarrow> rat \<Rightarrow> resolved_row \<Rightarrow> rat" where
  "toRial L amount r =
    (if rr_currency r = ''IRR'' then amount
     else fin_round L (fin_multiply L amount (case rr_rate r of Some rate \<Rightarrow> rate | None \<Rightarrow> 0)) 0)"

section \<open>The balance of the rows\<close>

record currency_balance =
  cb_inRial :: bool
  cb_currency :: string
  cb_totalDebit :: rat
  cb_totalCredit :: rat
  cb_difference :: rat
  cb_isBalanced :: bool
  cb_rowsWithoutRate :: "nat list"

definition one_currency_and_rate :: "resolved_row list \<Rightarrow> bool" where
  "one_currency_and_rate rs \<longleftrightarrow> length (remdups (map rr_currency rs)) \<le> 1 \<and> length (remdups (map rr_rate rs)) \<le> 1"

definition computeVoucherCurrencyBalance :: "decimal_lib \<Rightarrow> 'a balance_row_scheme list \<Rightarrow> string option \<Rightarrow> currency_balance" where
  "computeVoucherCurrencyBalance L rows voucherCurrency =
    (let resolved = map (resolve_row voucherCurrency) rows;
         rowsWithoutRate = row_numbers (\<lambda>r. rr_rate r = None) resolved;
         single = one_currency_and_rate resolved;
         debits = map (\<lambda>r. if single then rr_debit r else toRial L (rr_debit r) r) resolved;
         credits = map (\<lambda>r. if single then rr_credit r else toRial L (rr_credit r) r) resolved;
         totalDebit = fm_sum L debits;
         totalCredit = fm_sum L credits;
         difference = fin_abs (fin_subtract L totalDebit totalCredit)
     in \<lparr>cb_inRial = \<not> single,
         cb_currency = (if single then (case resolved of r # _ \<Rightarrow> rr_currency r | [] \<Rightarrow> voucherRowCurrency None voucherCurrency) else ''IRR''),
         cb_totalDebit = fin_toNumber L totalDebit, cb_totalCredit = fin_toNumber L totalCredit,
         cb_difference = fin_toNumber L difference,
         cb_isBalanced = (rowsWithoutRate = [] \<and> totalDebit > 0 \<and> difference \<le> VOUCHER_BALANCE_TOLERANCE),
         cb_rowsWithoutRate = rowsWithoutRate\<rparr>)"

section \<open>The balance a form shows\<close>

text \<open>
  The forms of a manual voucher and of a correction (\<open>lib/accounting/voucherFormCurrency.ts\<close>): a row without a currency
  takes that of the voucher, a foreign row without a rate the rate of the voucher in the same currency; the rows are
  shown and sent with the currency and rate they get.
\<close>

record voucher_header =
  hc_currency :: string
  hc_rate :: "rat option"

definition positive_number :: "rat option \<Rightarrow> rat option" where
  "positive_number value = (case value of None \<Rightarrow> None | Some n \<Rightarrow> if n > 0 then Some n else None)"

definition voucherRowCurrencyRate :: "'a balance_row_scheme \<Rightarrow> voucher_header \<Rightarrow> string \<times> rat option" where
  "voucherRowCurrencyRate row header =
    (let headerCurrency = voucherRowCurrency (Some (hc_currency header)) None;
         currency = voucherRowCurrency (br_currency row) (Some headerCurrency)
     in if currency = ''IRR'' then (currency, None)
        else (currency, case positive_number (br_rate row) of Some n \<Rightarrow> Some n
               | None \<Rightarrow> if currency = headerCurrency then positive_number (hc_rate header) else None))"

definition withVoucherRowCurrency :: "'a balance_row_scheme list \<Rightarrow> voucher_header \<Rightarrow> 'a balance_row_scheme list" where
  "withVoucherRowCurrency rows header =
    map (\<lambda>row. row\<lparr>br_currency := Some (fst (voucherRowCurrencyRate row header)), br_rate := snd (voucherRowCurrencyRate row header)\<rparr>) rows"

definition voucherFormBalance :: "decimal_lib \<Rightarrow> 'a balance_row_scheme list \<Rightarrow> voucher_header \<Rightarrow> currency_balance" where
  "voucherFormBalance L rows header =
    computeVoucherCurrencyBalance L (withVoucherRowCurrency rows header) (Some (hc_currency header))"

section \<open>The checks of the server\<close>

definition rawTotals :: "decimal_lib \<Rightarrow> 'a balance_row_scheme list \<Rightarrow> voucher_error + rat \<times> rat" where
  "rawTotals L items =
    fold_res (\<lambda>item (sumDebit, sumCredit).
      if br_debit item < 0 \<or> br_credit item < 0 then Inl NegativeAmount
      else if br_debit item = 0 \<and> br_credit item = 0 then Inl EmptyRow
      else Inr (fin_add L sumDebit (br_debit item), fin_add L sumCredit (br_credit item))) items (0, 0)"

definition assertVoucherRowsBalanced ::
  "decimal_lib \<Rightarrow> 'a balance_row_scheme list \<Rightarrow> string option \<Rightarrow> bool \<Rightarrow> voucher_error + rat \<times> rat" where
  "assertVoucherRowsBalanced L items voucherCurrency manual =
    res_bind (rawTotals L items) (\<lambda>totals.
      let balance = computeVoucherCurrencyBalance L items voucherCurrency;
          currencies = remdups (map (\<lambda>item. voucherRowCurrency (br_currency item) voucherCurrency) items);
          checkRaw = (if manual then \<not> cb_inRial balance else length currencies \<le> 1)
      in if checkRaw then
           (if fin_abs (fin_subtract L (fst totals) (snd totals)) > VOUCHER_BALANCE_TOLERANCE then Inl (Unbalanced False)
            else Inr totals)
         else if cb_rowsWithoutRate balance \<noteq> [] then Inl (RowRateRequired (cb_rowsWithoutRate balance))
         else if \<not> cb_isBalanced balance then Inl (Unbalanced True)
         else Inr totals)"

definition manual_row :: "decimal_lib \<Rightarrow> string option \<Rightarrow> 'a balance_row_scheme \<Rightarrow> 'a balance_row_scheme" where
  "manual_row L voucherCurrency item =
    (let currency = voucherRowCurrency (br_currency item) voucherCurrency
     in item\<lparr>br_currency := Some currency,
             br_rate := map_option (\<lambda>rate. fin_round L rate 4) (voucherRowRate currency (br_rate item))\<rparr>)"

definition resolveManualVoucherRows ::
  "decimal_lib \<Rightarrow> 'a balance_row_scheme list \<Rightarrow> string option \<Rightarrow> voucher_error + 'a balance_row_scheme list \<times> rat \<times> rat" where
  "resolveManualVoucherRows L items voucherCurrency =
    (let missing = row_numbers (\<lambda>item. voucherRowRate (voucherRowCurrency (br_currency item) voucherCurrency) (br_rate item) = None) items
     in if missing \<noteq> [] then Inl (RowRateRequired missing)
        else
          let rows = map (manual_row L voucherCurrency) items
          in res_bind (assertVoucherRowsBalanced L rows voucherCurrency True) (\<lambda>totals. Inr (rows, totals)))"

text \<open>\<open>isVoucherBalancedForFinalize\<close> over the live rows of the stored voucher.\<close>

definition balanced_for_finalize :: "decimal_lib \<Rightarrow> rat \<Rightarrow> rat \<Rightarrow> string option \<Rightarrow> 'a balance_row_scheme list \<Rightarrow> bool" where
  "balanced_for_finalize L totalDebit totalCredit currency rows \<longleftrightarrow>
    (if fin_abs (fin_subtract L totalDebit totalCredit) \<le> VOUCHER_BALANCE_TOLERANCE then True
     else cb_isBalanced (computeVoucherCurrencyBalance L rows currency))"

text \<open>The refinement \<open>isVoucherBalanced\<close> of the request schemas.\<close>

definition filled_text :: "string option \<Rightarrow> bool" where
  "filled_text v \<longleftrightarrow> (case v of None \<Rightarrow> False | Some s \<Rightarrow> js_trim s \<noteq> '''')"

definition schema_isVoucherBalanced :: "decimal_lib \<Rightarrow> 'a balance_row_scheme list \<Rightarrow> string option \<Rightarrow> bool \<Rightarrow> bool" where
  "schema_isVoucherBalanced L rows voucherCurrency headerKnown \<longleftrightarrow>
    (let allHaveCurrency = list_all (\<lambda>row. filled_text (br_currency row)) rows;
         plainRows = list_all (\<lambda>row. \<not> filled_text (br_currency row) \<and> br_rate row = None) rows
     in if \<not> headerKnown \<and> \<not> allHaveCurrency \<and> \<not> plainRows then True
        else
          let balance = computeVoucherCurrencyBalance L rows voucherCurrency
          in cb_rowsWithoutRate balance \<noteq> [] \<or> cb_isBalanced balance)"

section \<open>The balance in exact arithmetic\<close>

text \<open>
  Rows within the bounds of the development: at most 1000 rows, amounts and rates below \<open>10 ^ 11\<close> with
  four decimals, and totals below \<open>10 ^ 11\<close> on each side.
\<close>

definition row_fits :: "'a balance_row_scheme \<Rightarrow> bool" where
  "row_fits r \<longleftrightarrow> money4 (br_debit r) \<and> money4 (br_credit r) \<and> (case br_rate r of None \<Rightarrow> True | Some x \<Rightarrow> money4 x)"

definition rows_fit :: "'a balance_row_scheme list \<Rightarrow> bool" where
  "rows_fit rows \<longleftrightarrow> length rows \<le> 1000 \<and> list_all row_fits rows \<and>
    sum_list (map (\<lambda>r. \<bar>br_debit r\<bar>) rows) < 10 ^ 11 \<and> sum_list (map (\<lambda>r. \<bar>br_credit r\<bar>) rows) < 10 ^ 11"

text \<open>The amount of a row in rials, at the rate of the row, rounded to a rial.\<close>

definition rial_amount :: "string \<Rightarrow> rat option \<Rightarrow> rat \<Rightarrow> rat" where
  "rial_amount currency rate a =
    (if currency = ''IRR'' then a else half_up (a * (case rate of Some x \<Rightarrow> x | None \<Rightarrow> 0)) 0)"

definition row_rial :: "string option \<Rightarrow> 'a balance_row_scheme \<Rightarrow> rat \<Rightarrow> rat" where
  "row_rial vc r a = (let c = voucherRowCurrency (br_currency r) vc in rial_amount c (voucherRowRate c (br_rate r)) a)"

definition rial_debit :: "string option \<Rightarrow> 'a balance_row_scheme list \<Rightarrow> rat" where
  "rial_debit vc rows = sum_list (map (\<lambda>r. row_rial vc r (br_debit r)) rows)"

definition rial_credit :: "string option \<Rightarrow> 'a balance_row_scheme list \<Rightarrow> rat" where
  "rial_credit vc rows = sum_list (map (\<lambda>r. row_rial vc r (br_credit r)) rows)"

definition raw_debit :: "'a balance_row_scheme list \<Rightarrow> rat" where
  "raw_debit rows = sum_list (map br_debit rows)"

definition raw_credit :: "'a balance_row_scheme list \<Rightarrow> rat" where
  "raw_credit rows = sum_list (map br_credit rows)"

definition same_currency :: "string option \<Rightarrow> 'a balance_row_scheme list \<Rightarrow> bool" where
  "same_currency vc rows \<longleftrightarrow>
    (\<forall>r \<in> set rows. \<forall>q \<in> set rows. voucherRowCurrency (br_currency r) vc = voucherRowCurrency (br_currency q) vc)"

definition same_rate :: "string option \<Rightarrow> 'a balance_row_scheme list \<Rightarrow> bool" where
  "same_rate vc rows \<longleftrightarrow>
    (\<forall>r \<in> set rows. \<forall>q \<in> set rows. rr_rate (resolve_row vc r) = rr_rate (resolve_row vc q))"

definition rated :: "string option \<Rightarrow> 'a balance_row_scheme list \<Rightarrow> bool" where
  "rated vc rows \<longleftrightarrow> (\<forall>r \<in> set rows. rr_rate (resolve_row vc r) \<noteq> None)"

definition entry_amounts :: "'a balance_row_scheme list \<Rightarrow> bool" where
  "entry_amounts rows \<longleftrightarrow>
    (\<forall>r \<in> set rows. 0 \<le> br_debit r \<and> 0 \<le> br_credit r \<and> \<not> (br_debit r = 0 \<and> br_credit r = 0))"

lemma remdups_le_1: "length (remdups xs) \<le> 1 \<longleftrightarrow> (\<forall>x \<in> set xs. \<forall>y \<in> set xs. x = y)"
proof
  assume "length (remdups xs) \<le> 1"
  then have "card (set xs) \<le> 1" by (simp add: length_remdups_card_conv)
  then have "card (set xs) \<le> Suc 0" by simp
  then show "\<forall>x \<in> set xs. \<forall>y \<in> set xs. x = y" by (simp add: card_le_Suc0_iff_eq)
next
  assume "\<forall>x \<in> set xs. \<forall>y \<in> set xs. x = y"
  then have "card (set xs) \<le> Suc 0" by (simp add: card_le_Suc0_iff_eq)
  then show "length (remdups xs) \<le> 1" by (simp add: length_remdups_card_conv)
qed

lemma one_currency_and_rate_rows:
  "one_currency_and_rate (map (resolve_row vc) rows) \<longleftrightarrow> same_currency vc rows \<and> same_rate vc rows"
  unfolding one_currency_and_rate_def remdups_le_1 same_currency_def same_rate_def
  by (simp add: resolve_row_def Let_def)

lemma row_numbers_Nil: "row_numbers p rows = [] \<longleftrightarrow> (\<forall>r \<in> set rows. \<not> p r)"
proof -
  have s: "set rows = snd ` set (enumerate 1 rows)" using map_snd_enumerate [of 1 rows] by (metis set_map)
  show ?thesis unfolding s by (simp add: row_numbers_def filter_empty_conv)
qed

lemma row_numbers_map: "row_numbers p (map f rows) = row_numbers (\<lambda>r. p (f r)) rows"
proof -
  have "enumerate n (map f rows) = map (\<lambda>(i, r). (i, f r)) (enumerate n rows)" for n
    by (induction rows arbitrary: n) auto
  then show ?thesis by (simp add: row_numbers_def filter_map comp_def case_prod_unfold)
qed

lemma abs_sum_list_le:
  fixes f :: "'a \<Rightarrow> rat"
  shows "\<bar>sum_list (map f xs)\<bar> \<le> sum_list (map (\<lambda>x. \<bar>f x\<bar>) xs)"
  by (induction xs) (auto intro: order_trans [OF abs_triangle_ineq])

lemma sum_list_le_const:
  fixes f :: "'a \<Rightarrow> rat"
  assumes "\<And>x. x \<in> set xs \<Longrightarrow> f x \<le> B"
  shows "sum_list (map f xs) \<le> of_nat (length xs) * B"
  using assms by (induction xs) (auto simp: algebra_simps intro: add_mono)

lemma scaled_sum_list4: "(\<And>x. x \<in> set xs \<Longrightarrow> scaled n (f x)) \<Longrightarrow> scaled n (sum_list (map f xs))"
  by (induction xs) (auto intro: scaled_add)

context decimal_js begin

lemma add_scaled26: "scaled 4 a \<Longrightarrow> scaled 4 b \<Longrightarrow> \<bar>a + b\<bar> < 10 ^ 26 \<Longrightarrow> fin_add L a b = a + b"
  by (rule add_exact, rule scaled_digits_fit [where dp = 4 and m = 26]) (auto intro: scaled_add)

lemma subtract_scaled26: "scaled 4 a \<Longrightarrow> scaled 4 b \<Longrightarrow> \<bar>a - b\<bar> < 10 ^ 26 \<Longrightarrow> fin_subtract L a b = a - b"
  by (rule subtract_exact, rule scaled_digits_fit [where dp = 4 and m = 26]) (auto intro: scaled_diff)

lemma foldl_add_exact:
  assumes "\<And>x. x \<in> set xs \<Longrightarrow> scaled 4 x" "scaled 4 a" "\<bar>a\<bar> + sum_list (map abs xs) < 10 ^ 26"
  shows "foldl (fin_add L) a xs = a + sum_list xs"
  using assms
proof (induction xs arbitrary: a)
  case (Cons x xs)
  have n: "0 \<le> sum_list (map abs xs)" by (rule sum_list_nonneg) auto
  have b: "\<bar>a + x\<bar> + sum_list (map abs xs) < 10 ^ 26" using Cons.prems(3) abs_triangle_ineq [of a x] by simp
  then have "\<bar>a + x\<bar> < 10 ^ 26" using n by linarith
  then have "fin_add L a x = a + x" using Cons.prems by (intro add_scaled26) auto
  moreover have "foldl (fin_add L) (a + x) xs = a + x + sum_list xs"
    using Cons.prems b by (intro Cons.IH) (auto intro: scaled_add)
  ultimately show ?case by (simp add: add.assoc)
qed simp

lemma fm_sum_exact:
  assumes "\<And>x. x \<in> set xs \<Longrightarrow> scaled 4 (f x)" "sum_list (map (\<lambda>x. \<bar>f x\<bar>) xs) < 10 ^ 26"
  shows "fm_sum L (map f xs) = sum_list (map f xs)"
  unfolding fm_sum_def using foldl_add_exact [of "map f xs" 0] assms by (auto simp: comp_def)

lemma toRial_exact:
  assumes "money4 a" "\<And>x. rr_rate r = Some x \<Longrightarrow> money4 x"
  shows "toRial L a r = rial_amount (rr_currency r) (rr_rate r) a"
proof -
  have "fin_multiply L a (case rr_rate r of Some x \<Rightarrow> x | None \<Rightarrow> 0) = a * (case rr_rate r of Some x \<Rightarrow> x | None \<Rightarrow> 0)"
  proof (cases "rr_rate r")
    case None
    then show ?thesis using multiply_exact [of a 0] scaled_digits_fit [of 0 0 0 30] by simp
  next
    case (Some x)
    have "\<bar>a\<bar> * \<bar>x\<bar> < 10 ^ 11 * 10 ^ 11"
      by (rule mult_strict_mono) (use assms Some in \<open>auto simp: money4_def\<close>)
    then show ?thesis using assms Some multiply_scaled [of a x] by (simp add: money4_def abs_mult)
  qed
  then show ?thesis by (simp add: toRial_def rial_amount_def round_half_up)
qed

end

lemma rial_amount_bound:
  assumes "money4 a" "\<And>x. rate = Some x \<Longrightarrow> money4 x"
  shows "scaled 4 (rial_amount c rate a)" "\<bar>rial_amount c rate a\<bar> \<le> 10 ^ 22 + 1"
proof -
  have m: "\<bar>a * (case rate of Some x \<Rightarrow> x | None \<Rightarrow> 0)\<bar> \<le> 10 ^ 22"
  proof (cases rate)
    case (Some x)
    have "\<bar>a\<bar> * \<bar>x\<bar> \<le> 10 ^ 11 * 10 ^ 11"
      by (rule mult_mono) (use assms Some in \<open>auto simp: money4_def\<close>)
    then show ?thesis using Some by (simp add: abs_mult)
  qed simp
  show "scaled 4 (rial_amount c rate a)"
    using assms(1) scaled_mono [OF scaled_half_up, of 0 4] by (auto simp: rial_amount_def money4_def)
  show "\<bar>rial_amount c rate a\<bar> \<le> 10 ^ 22 + 1"
  proof (cases "c = ''IRR''")
    case True
    then show ?thesis using assms(1) by (simp add: rial_amount_def money4_def)
  next
    case False
    define y where "y = a * (case rate of Some x \<Rightarrow> x | None \<Rightarrow> 0)"
    have "\<bar>half_up y 0 - y\<bar> \<le> 1" using half_up_error [of y 0] by simp
    with m show ?thesis using False unfolding y_def [symmetric] rial_amount_def by (simp add: abs_le_iff)
  qed
qed


lemma resolved_amounts [simp]: "rr_debit (resolve_row vc r) = br_debit r" "rr_credit (resolve_row vc r) = br_credit r"
  by (simp_all add: resolve_row_def Let_def)

lemma row_rate_money4: "row_fits r \<Longrightarrow> rr_rate (resolve_row vc r) = Some x \<Longrightarrow> money4 x"
  by (auto simp: row_fits_def resolve_row_def voucherRowRate_def Let_def money4_def split: if_splits option.splits)

lemma row_rial_bound:
  assumes "row_fits r" "money4 a" shows "scaled 4 (row_rial vc r a)" "\<bar>row_rial vc r a\<bar> \<le> 10 ^ 22 + 1"
  using rial_amount_bound [OF assms(2), of "rr_rate (resolve_row vc r)" "rr_currency (resolve_row vc r)"] row_rate_money4 [OF assms(1)]
  by (simp_all add: row_rial_def resolve_row_def Let_def)

lemma rows_fit_row: "rows_fit rows \<Longrightarrow> r \<in> set rows \<Longrightarrow> row_fits r"
  by (simp add: rows_fit_def list_all_iff)

lemma rows_fit_money4:
  "rows_fit rows \<Longrightarrow> r \<in> set rows \<Longrightarrow> money4 (br_debit r)" "rows_fit rows \<Longrightarrow> r \<in> set rows \<Longrightarrow> money4 (br_credit r)"
  using rows_fit_row by (auto simp: row_fits_def)

lemma rial_sum_bound:
  assumes "rows_fit rows" "\<And>r. r \<in> set rows \<Longrightarrow> money4 (f r)"
  shows "sum_list (map (\<lambda>r. \<bar>row_rial vc r (f r)\<bar>) rows) < 10 ^ 26 / 2"
    "scaled 4 (sum_list (map (\<lambda>r. row_rial vc r (f r)) rows))"
proof -
  have "sum_list (map (\<lambda>r. \<bar>row_rial vc r (f r)\<bar>) rows) \<le> of_nat (length rows) * (10 ^ 22 + 1)"
    by (rule sum_list_le_const) (use assms row_rial_bound(2) rows_fit_row in blast)
  also have "\<dots> \<le> 1000 * (10 ^ 22 + 1)" using assms(1) by (intro mult_right_mono) (auto simp: rows_fit_def)
  finally show "sum_list (map (\<lambda>r. \<bar>row_rial vc r (f r)\<bar>) rows) < 10 ^ 26 / 2" by simp
  show "scaled 4 (sum_list (map (\<lambda>r. row_rial vc r (f r)) rows))"
    by (rule scaled_sum_list4) (use assms row_rial_bound(1) rows_fit_row in blast)
qed

lemma raw_money4:
  assumes "rows_fit rows" shows "money4 (raw_debit rows)" "money4 (raw_credit rows)"
  using assms abs_sum_list_le [of br_debit rows] abs_sum_list_le [of br_credit rows]
  by (auto simp: money4_def raw_debit_def raw_credit_def rows_fit_def list_all_iff row_fits_def intro!: scaled_sum_list4)

lemma rial_scaled:
  assumes "rows_fit rows"
  shows "scaled 4 (rial_debit vc rows)" "\<bar>rial_debit vc rows\<bar> < 10 ^ 26 / 2"
    "scaled 4 (rial_credit vc rows)" "\<bar>rial_credit vc rows\<bar> < 10 ^ 26 / 2"
proof -
  note d = rial_sum_bound [OF assms, of br_debit vc] and c = rial_sum_bound [OF assms, of br_credit vc]
  show "scaled 4 (rial_debit vc rows)" "scaled 4 (rial_credit vc rows)"
    using d(2) c(2) rows_fit_money4 [OF assms] by (simp_all add: rial_debit_def rial_credit_def)
  show "\<bar>rial_debit vc rows\<bar> < 10 ^ 26 / 2" "\<bar>rial_credit vc rows\<bar> < 10 ^ 26 / 2"
    using abs_sum_list_le [of "\<lambda>r. row_rial vc r (br_debit r)" rows] abs_sum_list_le [of "\<lambda>r. row_rial vc r (br_credit r)" rows]
      d(1) c(1) rows_fit_money4 [OF assms] unfolding rial_debit_def rial_credit_def by (meson le_less_trans)+
qed

context decimal_js begin

lemma row_toRial:
  assumes "row_fits r" "money4 a" shows "toRial L a (resolve_row vc r) = row_rial vc r a"
proof -
  have "toRial L a (resolve_row vc r) = rial_amount (rr_currency (resolve_row vc r)) (rr_rate (resolve_row vc r)) a"
    by (rule toRial_exact [OF assms(2)]) (rule row_rate_money4 [OF assms(1)])
  then show ?thesis by (simp add: row_rial_def resolve_row_def Let_def)
qed

lemma fm_sum_raw:
  assumes "rows_fit rows"
  shows "fm_sum L (map br_debit rows) = raw_debit rows" "fm_sum L (map br_credit rows) = raw_credit rows"
  using assms unfolding raw_debit_def raw_credit_def
  by (auto intro!: fm_sum_exact simp: rows_fit_def list_all_iff row_fits_def money4_def)

lemma fm_sum_rial:
  assumes "rows_fit rows"
  shows "fm_sum L (map (\<lambda>r. toRial L (br_debit r) (resolve_row vc r)) rows) = rial_debit vc rows"
    "fm_sum L (map (\<lambda>r. toRial L (br_credit r) (resolve_row vc r)) rows) = rial_credit vc rows"
proof -
  have d: "map (\<lambda>r. toRial L (br_debit r) (resolve_row vc r)) rows = map (\<lambda>r. row_rial vc r (br_debit r)) rows"
    and c: "map (\<lambda>r. toRial L (br_credit r) (resolve_row vc r)) rows = map (\<lambda>r. row_rial vc r (br_credit r)) rows"
    by (simp_all add: row_toRial rows_fit_row [OF assms] rows_fit_money4 [OF assms])
  note b = rows_fit_row [OF assms] rows_fit_money4 [OF assms]
  show "fm_sum L (map (\<lambda>r. toRial L (br_debit r) (resolve_row vc r)) rows) = rial_debit vc rows"
    unfolding d rial_debit_def
    by (rule fm_sum_exact) (simp add: row_rial_bound(1) b, rule order_less_trans [OF rial_sum_bound(1) [OF assms b(2)]], assumption, simp)
  show "fm_sum L (map (\<lambda>r. toRial L (br_credit r) (resolve_row vc r)) rows) = rial_credit vc rows"
    unfolding c rial_credit_def
    by (rule fm_sum_exact) (simp add: row_rial_bound(1) b, rule order_less_trans [OF rial_sum_bound(1) [OF assms b(3)]], assumption, simp)
qed

text \<open>The computed balance, in exact arithmetic.\<close>

lemma currency_balance_exact:
  assumes "rows_fit rows"
  shows "cb_inRial (computeVoucherCurrencyBalance L rows vc) \<longleftrightarrow> \<not> (same_currency vc rows \<and> same_rate vc rows)"
    "cb_rowsWithoutRate (computeVoucherCurrencyBalance L rows vc) = [] \<longleftrightarrow> rated vc rows"
    "cb_isBalanced (computeVoucherCurrencyBalance L rows vc) \<longleftrightarrow> rated vc rows \<and>
      (if same_currency vc rows \<and> same_rate vc rows then 0 < raw_debit rows \<and> \<bar>raw_debit rows - raw_credit rows\<bar> \<le> 1 / 100
       else 0 < rial_debit vc rows \<and> \<bar>rial_debit vc rows - rial_credit vc rows\<bar> \<le> 1 / 100)"
proof -
  let ?cb = "computeVoucherCurrencyBalance L rows vc"
  have single: "one_currency_and_rate (map (resolve_row vc) rows) \<longleftrightarrow> same_currency vc rows \<and> same_rate vc rows"
    by (rule one_currency_and_rate_rows)
  have without: "row_numbers (\<lambda>r. rr_rate r = None) (map (resolve_row vc) rows) = [] \<longleftrightarrow> rated vc rows"
    by (simp add: row_numbers_map row_numbers_Nil rated_def)
  show "cb_inRial ?cb \<longleftrightarrow> \<not> (same_currency vc rows \<and> same_rate vc rows)"
    by (simp add: computeVoucherCurrencyBalance_def Let_def single)
  show "cb_rowsWithoutRate ?cb = [] \<longleftrightarrow> rated vc rows"
    by (simp add: computeVoucherCurrencyBalance_def Let_def without)
  show "cb_isBalanced ?cb \<longleftrightarrow> rated vc rows \<and>
      (if same_currency vc rows \<and> same_rate vc rows then 0 < raw_debit rows \<and> \<bar>raw_debit rows - raw_credit rows\<bar> \<le> 1 / 100
       else 0 < rial_debit vc rows \<and> \<bar>rial_debit vc rows - rial_credit vc rows\<bar> \<le> 1 / 100)"
  proof (cases "same_currency vc rows \<and> same_rate vc rows")
    case True
    have "fin_subtract L (raw_debit rows) (raw_credit rows) = raw_debit rows - raw_credit rows"
      by (rule subtract_scaled26) (use raw_money4 [OF assms] in \<open>auto simp: money4_def\<close>)
    then show ?thesis unfolding computeVoucherCurrencyBalance_def Let_def single if_P [OF True] map_map comp_def resolved_amounts
        fm_sum_raw [OF assms]
      by (simp add: without VOUCHER_BALANCE_TOLERANCE_def fin_abs_def)
  next
    case False
    have "fin_subtract L (rial_debit vc rows) (rial_credit vc rows) = rial_debit vc rows - rial_credit vc rows"
      by (rule subtract_scaled26) (use rial_scaled [OF assms, of vc] in \<open>auto simp: abs_less_iff\<close>)
    then show ?thesis unfolding computeVoucherCurrencyBalance_def Let_def single if_not_P [OF False] map_map comp_def resolved_amounts
        fm_sum_rial [OF assms]
      by (simp add: without VOUCHER_BALANCE_TOLERANCE_def fin_abs_def)
  qed
qed

end


section \<open>When rows are accepted\<close>

context decimal_js begin

lemma rawTotals_step:
  assumes "list_all row_fits rows" "scaled 4 a" "scaled 4 b"
    "\<bar>a\<bar> + sum_list (map (\<lambda>r. \<bar>br_debit r\<bar>) rows) < 10 ^ 26" "\<bar>b\<bar> + sum_list (map (\<lambda>r. \<bar>br_credit r\<bar>) rows) < 10 ^ 26"
  shows "fold_res (\<lambda>item (sumDebit, sumCredit).
      if br_debit item < 0 \<or> br_credit item < 0 then Inl NegativeAmount
      else if br_debit item = 0 \<and> br_credit item = 0 then Inl EmptyRow
      else Inr (fin_add L sumDebit (br_debit item), fin_add L sumCredit (br_credit item))) rows (a, b) = Inr t
    \<longleftrightarrow> entry_amounts rows \<and> t = (a + raw_debit rows, b + raw_credit rows)"
  using assms
proof (induction rows arbitrary: a b)
  case Nil
  then show ?case by (auto simp: entry_amounts_def raw_debit_def raw_credit_def)
next
  case (Cons r rows)
  have n: "0 \<le> sum_list (map (\<lambda>r. \<bar>br_debit r\<bar>) rows)" "0 \<le> sum_list (map (\<lambda>r. \<bar>br_credit r\<bar>) rows)"
    by (rule sum_list_nonneg; auto)+
  have f: "row_fits r" and m: "list_all row_fits rows" using Cons.prems(1) by simp_all
  have a: "money4 (br_debit r)" "money4 (br_credit r)" using f by (auto simp: row_fits_def)
  note m = a m
  have le: "\<bar>a + br_debit r\<bar> \<le> \<bar>a\<bar> + \<bar>br_debit r\<bar>" "\<bar>b + br_credit r\<bar> \<le> \<bar>b\<bar> + \<bar>br_credit r\<bar>" by (rule abs_triangle_ineq)+
  have p: "\<bar>a\<bar> + (\<bar>br_debit r\<bar> + sum_list (map (\<lambda>r. \<bar>br_debit r\<bar>) rows)) < 10 ^ 26"
    "\<bar>b\<bar> + (\<bar>br_credit r\<bar> + sum_list (map (\<lambda>r. \<bar>br_credit r\<bar>) rows)) < 10 ^ 26"
    using Cons.prems(4,5) by simp_all
  have lt: "\<bar>a + br_debit r\<bar> < 10 ^ 26" "\<bar>b + br_credit r\<bar> < 10 ^ 26" using n le p by linarith+
  have add: "fin_add L a (br_debit r) = a + br_debit r" "fin_add L b (br_credit r) = b + br_credit r"
    using lt Cons.prems(2,3) m by (auto intro!: add_scaled26 simp: money4_def)
  have sc: "scaled 4 (a + br_debit r)" "scaled 4 (b + br_credit r)" using Cons.prems(2,3) m by (auto intro: scaled_add simp: money4_def)
  have bb: "\<bar>a + br_debit r\<bar> + sum_list (map (\<lambda>r. \<bar>br_debit r\<bar>) rows) < 10 ^ 26"
    "\<bar>b + br_credit r\<bar> + sum_list (map (\<lambda>r. \<bar>br_credit r\<bar>) rows) < 10 ^ 26" using le p by linarith+
  note IH = Cons.IH [OF m(3) sc bb]
  show ?case
  proof (cases "br_debit r < 0 \<or> br_credit r < 0 \<or> (br_debit r = 0 \<and> br_credit r = 0)")
    case True
    then have "\<not> entry_amounts (r # rows)" by (auto simp: entry_amounts_def)
    with True show ?thesis by (elim disjE) simp_all
  next
    case False
    then have "entry_amounts (r # rows) \<longleftrightarrow> entry_amounts rows" by (auto simp: entry_amounts_def)
    moreover have "\<not> (br_debit r < 0 \<or> br_credit r < 0)" "\<not> (br_debit r = 0 \<and> br_credit r = 0)" using False by simp_all
    ultimately show ?thesis
      by (simp only: fold_res.simps prod.case if_not_P if_False res_bind_simps add IH) (simp add: raw_debit_def raw_credit_def add.assoc)
  qed
qed

lemma rawTotals_exact:
  assumes "rows_fit rows"
  shows "rawTotals L rows = Inr t \<longleftrightarrow> entry_amounts rows \<and> t = (raw_debit rows, raw_credit rows)"
  unfolding rawTotals_def using rawTotals_step [of rows 0 0 t] assms by (simp add: rows_fit_def)

lemma assert_balanced_exact:
  assumes "rows_fit rows"
  shows "assertVoucherRowsBalanced L rows vc manual = Inr t \<longleftrightarrow>
    entry_amounts rows \<and> t = (raw_debit rows, raw_credit rows) \<and>
    (if same_currency vc rows \<and> (manual \<longrightarrow> same_rate vc rows) then \<bar>raw_debit rows - raw_credit rows\<bar> \<le> 1 / 100
     else rated vc rows \<and> 0 < rial_debit vc rows \<and> \<bar>rial_debit vc rows - rial_credit vc rows\<bar> \<le> 1 / 100)"
proof -
  have sub: "fin_subtract L (raw_debit rows) (raw_credit rows) = raw_debit rows - raw_credit rows"
    by (rule subtract_scaled26) (use raw_money4 [OF assms] in \<open>auto simp: money4_def\<close>)
  have cur: "length (remdups (map (\<lambda>item. voucherRowCurrency (br_currency item) vc) rows)) \<le> 1 \<longleftrightarrow> same_currency vc rows"
    unfolding remdups_le_1 same_currency_def by auto
  note cb = currency_balance_exact [OF assms, of vc]
  define raw where "raw \<longleftrightarrow> same_currency vc rows \<and> (manual \<longrightarrow> same_rate vc rows)"
  have rule: "(if manual then \<not> cb_inRial (computeVoucherCurrencyBalance L rows vc)
      else length (remdups (map (\<lambda>item. voucherRowCurrency (br_currency item) vc) rows)) \<le> 1) \<longleftrightarrow> raw"
    unfolding cb(1) cur raw_def by auto
  have bal: "cb_isBalanced (computeVoucherCurrencyBalance L rows vc) \<longleftrightarrow>
      rated vc rows \<and> 0 < rial_debit vc rows \<and> \<bar>rial_debit vc rows - rial_credit vc rows\<bar> \<le> 1 / 100" if "\<not> raw"
  proof -
    have "\<not> (same_currency vc rows \<and> same_rate vc rows)" using that unfolding raw_def by blast
    then show ?thesis unfolding cb(3) by (simp only: if_not_P if_False)
  qed
  have "assertVoucherRowsBalanced L rows vc manual = Inr t \<longleftrightarrow>
      rawTotals L rows = Inr t \<and>
      (if raw then \<bar>fin_subtract L (fst t) (snd t)\<bar> \<le> 1 / 100
       else cb_rowsWithoutRate (computeVoucherCurrencyBalance L rows vc) = [] \<and> cb_isBalanced (computeVoucherCurrencyBalance L rows vc))"
    unfolding assertVoucherRowsBalanced_def Let_def rule
    by (cases "rawTotals L rows") (auto simp: fin_abs_def VOUCHER_BALANCE_TOLERANCE_def split: if_splits)
  also have "\<dots> \<longleftrightarrow> entry_amounts rows \<and> t = (raw_debit rows, raw_credit rows) \<and>
      (if raw then \<bar>raw_debit rows - raw_credit rows\<bar> \<le> 1 / 100
       else rated vc rows \<and> 0 < rial_debit vc rows \<and> \<bar>rial_debit vc rows - rial_credit vc rows\<bar> \<le> 1 / 100)"
    unfolding rawTotals_exact [OF assms] cb(2) using sub bal by (cases raw) auto
  finally show ?thesis unfolding raw_def .
qed

end

section \<open>The form and the server\<close>

text \<open>A currency code is read as itself again.\<close>

lemma upper_again: "char_upper (char_upper c) = char_upper c" "js_space (char_upper c) = js_space c"
  by (auto simp: char_upper_def js_space_def Let_def)

lemma trim_upper: "js_trim (js_upper s) = js_upper (js_trim s)"
proof -
  have "js_space \<circ> char_upper = js_space" by (simp add: fun_eq_iff upper_again)
  then have "dropWhile js_space (map char_upper xs) = map char_upper (dropWhile js_space xs)" for xs
    by (simp add: dropWhile_map)
  note drop = this
  show ?thesis by (simp only: js_trim_def js_upper_def drop rev_map)
qed

lemma trim_again: "js_trim (js_trim s) = js_trim s"
proof -
  define a where "a = dropWhile js_space s"
  define b where "b = dropWhile js_space (rev a)"
  have last: "dropWhile js_space b = b" by (simp add: b_def)
  have "dropWhile js_space (rev b) = rev b"
  proof (cases "b = []")
    case False
    obtain u where "rev a = u @ b" unfolding b_def by (metis takeWhile_dropWhile_id)
    then have a: "a = rev b @ rev u" by (metis rev_append rev_rev_ident)
    with False have ne: "a \<noteq> []" "hd a = hd (rev b)" by (simp_all add: hd_append)
    then have "\<not> js_space (hd (rev b))" using hd_dropWhile [of js_space s] by (simp add: a_def)
    then show ?thesis by (simp add: dropWhile_eq_self_iff)
  qed simp
  then show ?thesis using last by (simp add: js_trim_def flip: a_def b_def)
qed

lemma currencyCode_again: "currencyCode v = Some c \<Longrightarrow> currencyCode (Some c) = Some c"
proof -
  assume c: "currencyCode v = Some c"
  then obtain x where x: "v = Some x" by (cases v) (auto simp: currencyCode_def)
  let ?code = "js_upper (js_trim x)"
  have "js_upper (js_upper s) = js_upper s" for s by (simp add: js_upper_def upper_again)
  then have again: "js_upper (js_trim ?code) = ?code" by (simp add: trim_upper trim_again)
  from c have "c = (if ?code = rial_fa then ''IRR'' else ?code)" "?code \<noteq> ''''"
    by (auto simp: x currencyCode_def Let_def split: if_splits)
  then show ?thesis using again by (auto simp: currencyCode_IRR) (simp add: currencyCode_def Let_def)
qed

lemma voucherRowCurrency_again: "voucherRowCurrency (Some (voucherRowCurrency a b)) d = voucherRowCurrency a b"
proof -
  have "currencyCode (Some (voucherRowCurrency a b)) = Some (voucherRowCurrency a b)"
    using currencyCode_again currencyCode_IRR by (auto simp: voucherRowCurrency_def split: option.splits)
  then show ?thesis by (simp add: voucherRowCurrency_def)
qed

text \<open>The rows the server makes of sent ones with rates of four decimals count as the sent ones.\<close>

lemma map_same_counts:
  assumes "\<And>r. r \<in> set rows \<Longrightarrow> resolve_row vc (f r) = resolve_row vc r"
  shows "same_currency vc (map f rows) = same_currency vc rows" "same_rate vc (map f rows) = same_rate vc rows"
    "rated vc (map f rows) = rated vc rows" "raw_debit (map f rows) = raw_debit rows" "raw_credit (map f rows) = raw_credit rows"
    "rial_debit vc (map f rows) = rial_debit vc rows" "rial_credit vc (map f rows) = rial_credit vc rows"
    "entry_amounts (map f rows) = entry_amounts rows"
proof -
  have each: "voucherRowCurrency (br_currency (f r)) vc = voucherRowCurrency (br_currency r) vc" "rr_rate (resolve_row vc (f r)) = rr_rate (resolve_row vc r)"
    "br_debit (f r) = br_debit r" "br_credit (f r) = br_credit r" "row_rial vc (f r) a = row_rial vc r a" if "r \<in> set rows" for r a
    using assms [OF that] by (auto simp: resolve_row_def row_rial_def Let_def)
  show "same_currency vc (map f rows) = same_currency vc rows" "same_rate vc (map f rows) = same_rate vc rows"
    "rated vc (map f rows) = rated vc rows" "entry_amounts (map f rows) = entry_amounts rows"
    using each by (simp_all add: same_currency_def same_rate_def rated_def entry_amounts_def)
  show "raw_debit (map f rows) = raw_debit rows" "raw_credit (map f rows) = raw_credit rows"
    "rial_debit vc (map f rows) = rial_debit vc rows" "rial_credit vc (map f rows) = rial_credit vc rows"
    using each by (auto simp: raw_debit_def raw_credit_def rial_debit_def rial_credit_def comp_def intro!: arg_cong [where f = sum_list])
qed

lemma rial_needs_raw: "entry_amounts rows \<Longrightarrow> 0 < rial_debit vc rows \<Longrightarrow> 0 < raw_debit rows"
proof (rule ccontr)
  assume e: "entry_amounts rows" and r: "0 < rial_debit vc rows" and "\<not> 0 < raw_debit rows"
  moreover have "0 \<le> raw_debit rows" using e unfolding raw_debit_def entry_amounts_def by (intro sum_list_nonneg) auto
  ultimately have "sum_list (map br_debit rows) = 0" by (simp add: raw_debit_def)
  then have "\<forall>x \<in> set rows. br_debit x = 0" using e by (subst (asm) sum_list_nonneg_eq_0_iff) (auto simp: entry_amounts_def)
  then have "map (\<lambda>x. row_rial vc x (br_debit x)) rows = map (\<lambda>x. 0) rows"
    by (auto simp: row_rial_def rial_amount_def Let_def )
  then have "rial_debit vc rows = 0" by (simp add: rial_debit_def sum_list_0 del: map_eq_conv)
  with r show False by simp
qed

lemma sent_fit:
  assumes "rows_fit rows" "\<And>x. hc_rate header = Some x \<Longrightarrow> money4 x"
  shows "rows_fit (withVoucherRowCurrency rows header)"
proof -
  have "row_fits (r\<lparr>br_currency := c, br_rate := snd (voucherRowCurrencyRate r header)\<rparr>)" if "r \<in> set rows" for r c
    using rows_fit_row [OF assms(1) that] assms(2)
    by (auto simp: row_fits_def voucherRowCurrencyRate_def positive_number_def Let_def split: option.splits if_splits)
  with assms(1) show ?thesis by (simp add: rows_fit_def withVoucherRowCurrency_def list_all_iff comp_def)
qed

context decimal_js begin

lemma manual_row_counts:
  assumes "row_fits r" "voucherRowRate (voucherRowCurrency (br_currency r) vc) (br_rate r) \<noteq> None"
  shows "resolve_row vc (manual_row L vc r) = resolve_row vc r" "row_fits (manual_row L vc r)"
proof -
  obtain x where x: "voucherRowRate (voucherRowCurrency (br_currency r) vc) (br_rate r) = Some x" using assms(2) by auto
  then have m: "money4 x" "0 < x"
    using assms(1) by (auto simp: voucherRowRate_def row_fits_def money4_def split: if_splits option.splits)
  then have "fin_round L x 4 = x" by (simp add: round_half_up money4_def half_up_scaled)
  with x m show "resolve_row vc (manual_row L vc r) = resolve_row vc r" "row_fits (manual_row L vc r)"
    using assms(1) by (auto simp: manual_row_def resolve_row_def Let_def voucherRowCurrency_again voucherRowRate_def row_fits_def)
qed

lemma form_balance_is_server:
  assumes "rows_fit rows" "entry_amounts rows" "\<And>x. hc_rate header = Some x \<Longrightarrow> money4 x"
  defines "sent \<equiv> withVoucherRowCurrency rows header" and "vc \<equiv> Some (hc_currency header)"
  shows "cb_isBalanced (voucherFormBalance L rows header) \<longleftrightarrow> schema_isVoucherBalanced L sent vc known \<and>
    (\<exists>stored totals. resolveManualVoucherRows L sent vc = Inr (stored, totals)) \<and> 0 < raw_debit rows"
proof -
  have fit: "rows_fit sent" using sent_fit [OF assms(1,3)] by (simp add: sent_def)
  have amounts: "entry_amounts sent" "raw_debit sent = raw_debit rows"
    using assms(2) by (simp_all add: sent_def withVoucherRowCurrency_def entry_amounts_def raw_debit_def comp_def)
  have rated: "rated vc sent \<longleftrightarrow>
      row_numbers (\<lambda>item. voucherRowRate (voucherRowCurrency (br_currency item) vc) (br_rate item) = None) sent = []"
    by (simp add: row_numbers_Nil rated_def resolve_row_def Let_def)
  note form = currency_balance_exact(3) [OF fit, of vc]
  have schema: "schema_isVoucherBalanced L sent vc known" if "cb_isBalanced (computeVoucherCurrencyBalance L sent vc)"
    using that by (simp add: schema_isVoucherBalanced_def Let_def)
  show ?thesis
  proof (cases "rated vc sent")
    case False
    then show ?thesis using rated form
      by (simp add: voucherFormBalance_def flip: sent_def vc_def) (simp add: resolveManualVoucherRows_def Let_def)
  next
    case True
    let ?stored = "map (manual_row L vc) sent"
    have each: "resolve_row vc (manual_row L vc r) = resolve_row vc r" "row_fits (manual_row L vc r)" if "r \<in> set sent" for r
    proof -
      have "voucherRowRate (voucherRowCurrency (br_currency r) vc) (br_rate r) \<noteq> None"
        using True that by (auto simp: rated_def resolve_row_def Let_def)
      from manual_row_counts [OF rows_fit_row [OF fit that] this]
      show "resolve_row vc (manual_row L vc r) = resolve_row vc r" "row_fits (manual_row L vc r)" .
    qed
    have fit': "rows_fit ?stored" using fit each(2)
      by (simp add: rows_fit_def list_all_iff comp_def) (simp add: manual_row_def Let_def)
    note counts = map_same_counts [of sent vc "manual_row L vc", OF each(1)]
    have "(\<exists>stored totals. resolveManualVoucherRows L sent vc = Inr (stored, totals)) \<longleftrightarrow>
        (\<exists>totals. assertVoucherRowsBalanced L ?stored vc True = Inr totals)"
      using True by (auto simp: resolveManualVoucherRows_def Let_def res_bind_Inr rated)
    also have "\<dots> \<longleftrightarrow> (if same_currency vc sent \<and> same_rate vc sent then \<bar>raw_debit sent - raw_credit sent\<bar> \<le> 1 / 100
        else 0 < rial_debit vc sent \<and> \<bar>rial_debit vc sent - rial_credit vc sent\<bar> \<le> 1 / 100)"
      using assert_balanced_exact [OF fit', of vc True] True amounts(1) by (auto simp: counts)
    finally show ?thesis using form True schema rial_needs_raw [OF amounts(1), of vc] amounts(2)
      by (auto simp: voucherFormBalance_def simp flip: sent_def vc_def)
  qed
qed

end

text \<open>What a stored voucher satisfies: balanced in its raw amounts, or in rials with a rate on every row.\<close>

definition balanced_rows :: "string option \<Rightarrow> 'a balance_row_scheme list \<Rightarrow> bool" where
  "balanced_rows vc rows \<longleftrightarrow>
    \<bar>raw_debit rows - raw_credit rows\<bar> \<le> 1 / 100 \<or>
    (rated vc rows \<and> \<bar>rial_debit vc rows - rial_credit vc rows\<bar> \<le> 1 / 100)"

lemma balanced_rows_cong:
  assumes "map (resolve_row vc) rows = map (resolve_row vc) rows'"
  shows "balanced_rows vc rows = balanced_rows vc rows'"
proof -
  have r: "row_rial vc r a = rial_amount (rr_currency (resolve_row vc r)) (rr_rate (resolve_row vc r)) a" for r :: "'z balance_row_scheme" and a
    by (simp add: row_rial_def resolve_row_def Let_def)
  have d: "raw_debit rs = sum_list (map rr_debit (map (resolve_row vc) rs))"
    "raw_credit rs = sum_list (map rr_credit (map (resolve_row vc) rs))"
    "rial_debit vc rs = sum_list (map (\<lambda>q. rial_amount (rr_currency q) (rr_rate q) (rr_debit q)) (map (resolve_row vc) rs))"
    "rial_credit vc rs = sum_list (map (\<lambda>q. rial_amount (rr_currency q) (rr_rate q) (rr_credit q)) (map (resolve_row vc) rs))"
    "rated vc rs \<longleftrightarrow> (\<forall>q \<in> set (map (resolve_row vc) rs). rr_rate q \<noteq> None)" for rs :: "'z balance_row_scheme list"
    by (simp_all add: raw_debit_def raw_credit_def rial_debit_def rial_credit_def rated_def comp_def r)
  show ?thesis unfolding balanced_rows_def d assms by simp
qed

end
