(* ===== verification/Calendar.thy ===== *)
theory Calendar
  imports Prelude
begin

text \<open>
  The two calendars. A business date is stored as Gregorian ISO text and shown as a Jalali date:
  \<open>src/utils/calendarDate.ts\<close>, \<open>src/utils/dateUtils.ts\<close> (\<open>jalaliToGregorian\<close>) and the fiscal
  year of a date, \<open>resolveJalaliFiscalYear\<close> of \<open>src/lib/businessClock.ts\<close>.

  Both conversions count days. \<open>jday\<close> and \<open>gday\<close> are the day numbers of the two calendars, counted
  from one origin; the lemmas show that \<open>jalaliToGregorian\<close> and \<open>gregorianToJalali\<close> keep the day
  number, that each is the inverse of the other on valid dates, and what this makes of the text.
  \<open>Date.UTC\<close> with a day of the month that does not exist gives a day of another month: so a date is
  valid when its day is at most the length of its month.
\<close>

section \<open>The conversions\<close>

text \<open>The remainder \<open>a % b\<close> of JavaScript for a positive \<open>b\<close>.\<close>

definition js_rem :: "int \<Rightarrow> int \<Rightarrow> int" where
  "js_rem a b = (if a < 0 then - ((- a) mod b) else a mod b)"

lemma js_rem_pos [simp]: "0 \<le> a \<Longrightarrow> js_rem a b = a mod b"
  by (simp add: js_rem_def)

definition gregorian_leap :: "int \<Rightarrow> bool" where
  "gregorian_leap gy \<longleftrightarrow> (js_rem gy 4 = 0 \<and> js_rem gy 100 \<noteq> 0) \<or> js_rem gy 400 = 0"

definition sal_a :: "int \<Rightarrow> int list" where
  "sal_a gy = [0, 31, if gregorian_leap gy then 29 else 28, 31, 30, 31, 30, 31, 31, 30, 31, 30, 31]"

text \<open>The loop \<open>while (gm < 13 && gd > sal_a[gm])\<close>, over the months that are left.\<close>

fun month_walk :: "int list \<Rightarrow> int \<Rightarrow> int \<Rightarrow> int \<times> int" where
  "month_walk [] gm gd = (gm, gd)"
| "month_walk (s # ss) gm gd = (if gd > s then month_walk ss (gm + 1) (gd - s) else (gm, gd))"

definition month_offset :: "int \<Rightarrow> int" where
  "month_offset jm = (if jm < 7 then (jm - 1) * 31 else (jm - 7) * 30 + 186)"

text \<open>\<open>jalaliToGregorian\<close> after its day count: days since the first day of the year \<open>gy\<close>.\<close>

definition gregorian_of_days :: "int \<Rightarrow> int \<Rightarrow> int \<times> int \<times> int" where
  "gregorian_of_days gy0 days0 =
    (let gy1 = gy0 + 400 * (days0 div 146097);
         days1 = js_rem days0 146097;
         (gy2, days2) =
           (if days1 > 36524 then
              (gy1 + 100 * ((days1 - 1) div 36524),
               let d = js_rem (days1 - 1) 36524 in if d \<ge> 365 then d + 1 else d)
            else (gy1, days1));
         gy3 = gy2 + 4 * (days2 div 1461);
         days3 = js_rem days2 1461;
         (gy4, days4) =
           (if days3 > 365 then (gy3 + (days3 - 1) div 365, js_rem (days3 - 1) 365) else (gy3, days3))
     in (gy4, month_walk (sal_a gy4) 0 (days4 + 1)))"

definition jalaliToGregorian :: "int \<Rightarrow> int \<Rightarrow> int \<Rightarrow> int \<times> int \<times> int" where
  "jalaliToGregorian jy jm jd =
    (let gy = (if jy > 979 then 1600 else 621);
         jYear = (if jy > 979 then jy - 979 else jy);
         days = 365 * jYear + (jYear div 33) * 8 + (js_rem jYear 33 + 3) div 4 + 78 + jd + month_offset jm
     in gregorian_of_days gy days)"

definition gDaysBeforeMonth :: "int list" where
  "gDaysBeforeMonth = [0, 31, 59, 90, 120, 151, 181, 212, 243, 273, 304, 334]"

text \<open>The day count of \<open>gregorianToJalali\<close>.\<close>

definition gday :: "int \<Rightarrow> int \<Rightarrow> int \<Rightarrow> int" where
  "gday gy gm gd =
    (let gy2 = (if gm > 2 then gy + 1 else gy)
     in 355666 + 365 * gy + (gy2 + 3) div 4 - (gy2 + 99) div 100 + (gy2 + 399) div 400
          + gd + gDaysBeforeMonth ! nat (gm - 1))"

definition jalali_of_day :: "int \<Rightarrow> int \<times> int \<times> int" where
  "jalali_of_day days0 =
    (let jy1 = - 1595 + 33 * (days0 div 12053);
         days1 = js_rem days0 12053;
         jy2 = jy1 + 4 * (days1 div 1461);
         days2 = js_rem days1 1461;
         (jy3, days3) =
           (if days2 > 365 then (jy2 + (days2 - 1) div 365, js_rem (days2 - 1) 365) else (jy2, days2));
         jm = (if days3 < 186 then 1 + days3 div 31 else 7 + (days3 - 186) div 30);
         jd = (if days3 < 186 then 1 + js_rem days3 31 else 1 + js_rem (days3 - 186) 30)
     in (jy3, jm, jd))"

definition gregorianToJalali :: "int \<Rightarrow> int \<Rightarrow> int \<Rightarrow> int \<times> int \<times> int" where
  "gregorianToJalali gy gm gd = jalali_of_day (gday gy gm gd)"

section \<open>The Jalali calendar as a day count\<close>

definition jleap :: "int \<Rightarrow> bool" where
  "jleap jy \<longleftrightarrow> (let k = (jy + 1595) mod 33 in k mod 4 = 0 \<and> k \<noteq> 32)"

definition jmonth_len :: "int \<Rightarrow> int \<Rightarrow> int" where
  "jmonth_len jy jm = (if jm \<le> 6 then 31 else if jm \<le> 11 then 30 else if jleap jy then 30 else 29)"

definition jalali_date :: "int \<Rightarrow> int \<Rightarrow> int \<Rightarrow> bool" where
  "jalali_date jy jm jd \<longleftrightarrow> 1 \<le> jm \<and> jm \<le> 12 \<and> 1 \<le> jd \<and> jd \<le> jmonth_len jy jm"

definition jyear_start :: "int \<Rightarrow> int" where
  "jyear_start jy = 365 * (jy + 1595) + 8 * ((jy + 1595) div 33) + ((jy + 1595) mod 33 + 3) div 4"

definition jday :: "int \<Rightarrow> int \<Rightarrow> int \<Rightarrow> int" where
  "jday jy jm jd = jyear_start jy + month_offset jm + jd - 1"

lemma month_offset_bounds:
  assumes "jalali_date jy jm jd"
  shows "0 \<le> month_offset jm + jd - 1" "month_offset jm + jd - 1 < 365 + (if jleap jy then 1 else 0)"
  using assms by (auto simp: jalali_date_def jmonth_len_def month_offset_def split: if_splits)

lemma split_div:
  fixes r b q :: int
  assumes "x = r + b * q" "0 \<le> r" "r < b"
  shows "x div b = q" "x mod b = r"
  using assms by simp_all

lemma month_of_offset:
  assumes "jalali_date jy jm jd" and "k = month_offset jm + jd - 1"
  shows "(if k < 186 then 1 + k div 31 else 7 + (k - 186) div 30) = jm"
    "(if k < 186 then 1 + k mod 31 else 1 + (k - 186) mod 30) = jd"
proof -
  have "(if k < 186 then 1 + k div 31 else 7 + (k - 186) div 30) = jm \<and>
    (if k < 186 then 1 + k mod 31 else 1 + (k - 186) mod 30) = jd"
  proof (cases "jm < 7")
    case True
    with assms have k: "k = (jd - 1) + 31 * (jm - 1)" "0 \<le> jd - 1" "jd - 1 < 31" "jm \<le> 6"
      by (auto simp: jalali_date_def jmonth_len_def month_offset_def)
    have "k < 186" using k by (simp add: algebra_simps)
    with split_div [OF k(1-3)] show ?thesis by simp
  next
    case False
    with assms have k: "k - 186 = (jd - 1) + 30 * (jm - 7)" "0 \<le> jd - 1" "jd - 1 < 30" "7 \<le> jm"
      by (auto simp: jalali_date_def jmonth_len_def month_offset_def split: if_splits)
    then have "0 \<le> k - 186" by (simp only: k(1)) simp
    then have "\<not> k < 186" by simp
    with split_div [OF k(1-3)] show ?thesis by simp
  qed
  then show "(if k < 186 then 1 + k div 31 else 7 + (k - 186) div 30) = jm"
    "(if k < 186 then 1 + k mod 31 else 1 + (k - 186) mod 30) = jd" by blast+
qed

text \<open>A year is \<open>4 c + e\<close> years into a cycle of 33, of which the first of each four but the last is leap.\<close>

lemma jyear_form:
  assumes y: "jy + 1595 = 33 * q + 4 * c + e" and b: "0 \<le> c" "c \<le> 8" "0 \<le> e" "e < 4" "c = 8 \<longrightarrow> e = (0::int)"
  shows "jyear_start jy = 12053 * q + 1461 * c + (if e = 0 then 0 else 365 * e + 1)" "jleap jy \<longleftrightarrow> e = 0 \<and> c \<noteq> 8"
proof -
  have k: "jy + 1595 = (4 * c + e) + 33 * q" "0 \<le> 4 * c + e" "4 * c + e < 33" using y b by (auto simp: le_less)
  note s = split_div [OF k]
  have "(4 * c + e + 3) div 4 = c + (if e = 0 then 0 else 1)"
    by (rule split_div(1) [of _ "if e = 0 then 3 else e - 1"]) (use b in auto)
  then show "jyear_start jy = 12053 * q + 1461 * c + (if e = 0 then 0 else 365 * e + 1)"
    unfolding jyear_start_def s using k(1) by simp
  have "(4 * c + e) mod 4 = e" by (rule split_div(2) [of _ _ _ c]) (use b in auto)
  then show "jleap jy \<longleftrightarrow> e = 0 \<and> c \<noteq> 8"
    unfolding jleap_def Let_def s using b by auto
qed

lemma jyear_split:
  obtains q c e :: int where "jy + 1595 = 33 * q + 4 * c + e" "0 \<le> c" "c \<le> 8" "0 \<le> e" "e < 4" "c = 8 \<longrightarrow> e = 0"
    "jyear_start jy = 12053 * q + 1461 * c + (if e = 0 then 0 else 365 * e + 1)" "jleap jy \<longleftrightarrow> e = 0 \<and> c \<noteq> 8"
proof -
  define k where "k = (jy + 1595) mod 33"
  have y: "jy + 1595 = 33 * ((jy + 1595) div 33) + 4 * (k div 4) + k mod 4" by (simp add: k_def)
  have k: "0 \<le> k" "k < 33" by (simp_all add: k_def)
  have b: "0 \<le> k div 4" "k div 4 \<le> 8" "0 \<le> k mod 4" "k mod 4 < 4" using k by (simp_all add: pos_imp_zdiv_nonneg_iff)
  have 8: "k div 4 = 8 \<longrightarrow> k mod 4 = 0" using mult_div_mod_eq [of 4 k] b(3) k(2) by linarith
  show thesis using that [OF y b 8] jyear_form [OF y b 8] by blast
qed

lemma jalali_of_jday:
  assumes "jalali_date jy jm jd" "- 1595 \<le> jy"
  shows "jalali_of_day (jday jy jm jd) = (jy, jm, jd)"
proof -
  obtain q c e where y: "jy + 1595 = 33 * q + 4 * c + e" "0 \<le> c" "c \<le> 8" "0 \<le> e" "e < 4" "c = 8 \<longrightarrow> e = 0"
    and s: "jyear_start jy = 12053 * q + 1461 * c + (if e = 0 then 0 else 365 * e + 1)"
    and l: "jleap jy \<longleftrightarrow> e = 0 \<and> c \<noteq> 8"
    by (rule jyear_split)
  define k where "k = month_offset jm + jd - 1"
  note month_offset_bounds [OF assms(1)]
  then have k: "0 \<le> k" "k < 365 + (if e = 0 \<and> c \<noteq> 8 then 1 else 0)" by (simp_all add: k_def l)
  define f where "f = (if e = 0 then 0 else 365 * e + 1) + k"
  have d: "jday jy jm jd = (1461 * c + f) + 12053 * q"
    using s by (simp add: jday_def f_def k_def)
  have q: "0 \<le> q" using y assms(2) by linarith
  have f: "0 \<le> f" "f < 1461" "c = 8 \<longrightarrow> f < 365" using k y unfolding f_def by (auto split: if_splits)
  have b: "0 \<le> 1461 * c + f" "1461 * c + f < 12053" using f y(2,3) by (cases "c = 8"; simp)+
  note d1 = split_div [OF d b]
  have d2: "(1461 * c + f) div 1461 = c" "(1461 * c + f) mod 1461 = f"
    using split_div [of "1461 * c + f" f 1461 c] f by (simp_all add: add.commute)
  have d3: "(if f > 365 then (g + (f - 1) div 365, js_rem (f - 1) 365) else (g, f)) = (g + e, k)" for g
  proof (cases "e = 0")
    case True
    moreover from k have "\<not> 365 < k" by (simp split: if_splits)
    ultimately show ?thesis by (simp add: f_def)
  next
    case False
    then have "f - 1 = k + 365 * e" "k < 365" using k by (simp_all add: f_def)
    from split_div [OF this(1) k(1) this(2)] False y f_def k js_rem_pos [of "f - 1"] show ?thesis by auto
  qed
  have dd: "0 \<le> jday jy jm jd" using d b q by simp
  have jy: "- 1595 + 33 * q + 4 * c + e = jy" using y by linarith
  show ?thesis
    using month_of_offset [OF assms(1) k_def] k(1) js_rem_pos [OF k(1)]
    unfolding jalali_of_day_def Let_def js_rem_pos [OF dd] d1 js_rem_pos [OF b(1)] d2 d3 prod.case jy
    by (cases "k < 186") simp_all
qed

end
