(* ===== verification/CalendarDays.thy ===== *)
theory CalendarDays
  imports Calendar
begin

text \<open>
  The conversions between the calendars keep the day number: the Gregorian calendar as a day count,
  \<open>jalaliToGregorian\<close> and \<open>gregorianToJalali\<close> as inverses, and the days of a Jalali year.
\<close>

section \<open>The Gregorian calendar as a day count\<close>

definition gmonth_len :: "int \<Rightarrow> int \<Rightarrow> int" where
  "gmonth_len gy gm = sal_a gy ! nat gm"

definition gregorian_date :: "int \<Rightarrow> int \<Rightarrow> int \<Rightarrow> bool" where
  "gregorian_date gy gm gd \<longleftrightarrow> 1 \<le> gm \<and> gm \<le> 12 \<and> 1 \<le> gd \<and> gd \<le> gmonth_len gy gm"

definition gyear_start :: "int \<Rightarrow> int" where
  "gyear_start gy = 355667 + 365 * gy + (gy + 3) div 4 - (gy + 99) div 100 + (gy + 399) div 400"

definition gyear_day :: "int \<Rightarrow> int \<Rightarrow> int \<Rightarrow> int" where
  "gyear_day gy gm gd =
    gDaysBeforeMonth ! nat (gm - 1) + (if gm > 2 \<and> gregorian_leap gy then 1 else 0) + gd - 1"

lemma gyear_split:
  assumes y: "gy = 400 * A + 100 * b + 4 * c + e"
    and b: "0 \<le> A" "0 \<le> b" "b \<le> 3" "0 \<le> c" "c \<le> 24" "0 \<le> e" "e \<le> 3"
  shows "(gy + 3) div 4 = 100 * A + 25 * b + c + (if e = 0 then 0 else 1)"
    "(gy + 99) div 100 = 4 * A + b + (if c = 0 \<and> e = 0 then 0 else 1)"
    "(gy + 399) div 400 = A + (if b = 0 \<and> c = 0 \<and> e = 0 then 0 else 1)"
    "gy div 4 = 100 * A + 25 * b + c" "gy div 100 = 4 * A + b" "gy div 400 = A"
    "gregorian_leap gy \<longleftrightarrow> e = 0 \<and> (c \<noteq> 0 \<or> b = 0)"
proof -
  show "(gy + 3) div 4 = 100 * A + 25 * b + c + (if e = 0 then 0 else 1)"
    by (rule split_div(1) [of _ "if e = 0 then 3 else e - 1"]) (use y b in auto)
  show "(gy + 99) div 100 = 4 * A + b + (if c = 0 \<and> e = 0 then 0 else 1)"
    by (rule split_div(1) [of _ "if c = 0 \<and> e = 0 then 99 else 4 * c + e - 1"]) (use y b in auto)
  show "(gy + 399) div 400 = A + (if b = 0 \<and> c = 0 \<and> e = 0 then 0 else 1)"
    by (rule split_div(1) [of _ "if b = 0 \<and> c = 0 \<and> e = 0 then 399 else 100 * b + 4 * c + e - 1"]) (use y b in auto)
  have 4: "gy = e + 4 * (100 * A + 25 * b + c)" "0 \<le> e" "e < 4" using y b by simp_all
  have 100: "gy = (4 * c + e) + 100 * (4 * A + b)" "0 \<le> 4 * c + e" "4 * c + e < 100" using y b by simp_all
  have 400: "gy = (100 * b + 4 * c + e) + 400 * A" "0 \<le> 100 * b + 4 * c + e" "100 * b + 4 * c + e < 400" using y b by simp_all
  note d = split_div [OF 4] split_div [OF 100] split_div [OF 400]
  show "gy div 4 = 100 * A + 25 * b + c" "gy div 100 = 4 * A + b" "gy div 400 = A" by (rule d)+
  have "0 \<le> gy" using y b by simp
  then have "gregorian_leap gy \<longleftrightarrow> (e = 0 \<and> 4 * c + e \<noteq> 0) \<or> 100 * b + 4 * c + e = 0"
    unfolding gregorian_leap_def by (simp only: js_rem_pos d)
  also have "\<dots> \<longleftrightarrow> e = 0 \<and> (c \<noteq> 0 \<or> b = 0)"
  proof (cases "e = 0")
    case True
    then show ?thesis using b by auto
  next
    case False
    then have "0 < 100 * b + 4 * c + e" using b by simp
    with False show ?thesis by simp
  qed
  finally show "gregorian_leap gy \<longleftrightarrow> e = 0 \<and> (c \<noteq> 0 \<or> b = 0)" .
qed

lemma gyear_digits:
  assumes "0 \<le> gy"
  obtains A b c e :: int where "gy = 400 * A + 100 * b + 4 * c + e"
    "0 \<le> A" "0 \<le> b" "b \<le> 3" "0 \<le> c" "c \<le> 24" "0 \<le> e" "e \<le> 3"
proof -
  define r where "r = gy mod 400"
  define s where "s = r mod 100"
  have e: "gy = 400 * (gy div 400) + r" "r = 100 * (r div 100) + s" "s = 4 * (s div 4) + s mod 4"
    by (simp_all add: r_def s_def)
  have r: "0 \<le> r" "r < 400" and s: "0 \<le> s" "s < 100" by (simp_all add: r_def s_def)
  have rd: "0 \<le> r div 100" "r div 100 \<le> 3" using r e(2) s by linarith+
  have sm: "0 \<le> s mod 4" "s mod 4 \<le> 3" by simp_all
  then have sd: "0 \<le> s div 4" "s div 4 \<le> 24" using e(3) s by linarith+
  have y: "gy = 400 * (gy div 400) + 100 * (r div 100) + 4 * (s div 4) + s mod 4" using e by linarith
  have "0 \<le> gy div 400" using assms by (simp add: pos_imp_zdiv_nonneg_iff)
  from that [OF y this rd sd sm] show thesis .
qed

lemma leap_days:
  assumes "0 \<le> gy"
  shows "(gy + 4) div 4 - (gy + 100) div 100 + (gy + 400) div 400 =
    (gy + 3) div 4 - (gy + 99) div 100 + (gy + 399) div 400 + (if gregorian_leap gy then 1 else 0)"
proof -
  obtain A b c e where y: "gy = 400 * A + 100 * b + 4 * c + e"
    and b: "0 \<le> A" "0 \<le> b" "b \<le> 3" "0 \<le> c" "c \<le> 24" "0 \<le> e" "e \<le> 3"
    by (rule gyear_digits [OF assms])
  have s: "(gy + 4) div 4 = gy div 4 + 1" "(gy + 100) div 100 = gy div 100 + 1" "(gy + 400) div 400 = gy div 400 + 1"
    by simp_all
  show ?thesis unfolding s gyear_split [OF y b] by auto
qed

lemma gday_year: "0 \<le> gy \<Longrightarrow> gday gy gm gd = gyear_start gy + gyear_day gy gm gd"
proof (cases "gm > 2")
  case True
  have s: "gy + 1 + 3 = gy + 4" "gy + 1 + 99 = gy + 100" "gy + 1 + 399 = gy + 400" by simp_all
  assume "0 \<le> gy"
  from leap_days [OF this] True show ?thesis
    unfolding gday_def gyear_start_def gyear_day_def Let_def if_P [OF True] s by simp
next
  case False
  then show ?thesis unfolding gday_def gyear_start_def gyear_day_def Let_def if_not_P [OF False] by simp
qed

lemma gyear_succ:
  assumes "0 \<le> gy"
  shows "gyear_start (gy + 1) = gyear_start gy + 365 + (if gregorian_leap gy then 1 else 0)"
proof -
  have s: "gy + 1 + 3 = gy + 4" "gy + 1 + 99 = gy + 100" "gy + 1 + 399 = gy + 400" "365 * (gy + 1) = 365 * gy + 365" by simp_all
  show ?thesis using leap_days [OF assms] unfolding gyear_start_def s by linarith
qed

lemma gyear_start_mono:
  assumes "0 \<le> gy" "gy < gy'"
  shows "gyear_start gy + 365 + (if gregorian_leap gy then 1 else 0) \<le> gyear_start gy'"
proof -
  have "gyear_start (gy + 1) \<le> gyear_start (gy + 1 + int n)" for n
  proof (induction n)
    case (Suc n)
    then show ?case using gyear_succ [of "gy + 1 + int n"] assms by (simp add: algebra_simps split: if_splits)
  qed simp
  from this [of "nat (gy' - gy - 1)"] gyear_succ [OF assms(1)] assms(2) show ?thesis by simp
qed

lemma gyear_unique:
  assumes "gyear_start gy + k = gyear_start gy' + k'" "0 \<le> gy" "0 \<le> gy'" "0 \<le> k" "0 \<le> k'"
    "k < 365 + (if gregorian_leap gy then 1 else 0)" "k' < 365 + (if gregorian_leap gy' then 1 else 0)"
  shows "gy = gy'" "k = k'"
proof -
  have "\<not> gy < gy'" using gyear_start_mono [of gy gy'] assms by linarith
  moreover have "\<not> gy' < gy" using gyear_start_mono [of gy' gy] assms by linarith
  ultimately show "gy = gy'" by simp
  with assms(1) show "k = k'" by simp
qed

section \<open>A day of a Gregorian year\<close>

lemma months_12:
  fixes gm :: int
  assumes "1 \<le> gm" "gm \<le> 12"
  shows "gm = 1 \<or> gm = 2 \<or> gm = 3 \<or> gm = 4 \<or> gm = 5 \<or> gm = 6 \<or> gm = 7 \<or> gm = 8 \<or> gm = 9 \<or> gm = 10 \<or> gm = 11 \<or> gm = 12"
  using assms by presburger

lemma gyear_day_bounds:
  assumes "gregorian_date gy gm gd"
  shows "0 \<le> gyear_day gy gm gd" "gyear_day gy gm gd < 365 + (if gregorian_leap gy then 1 else 0)"
proof -
  define l :: int where "l = (if gregorian_leap gy then 1 else 0)"
  have l: "0 \<le> l" "l \<le> 1" by (simp_all add: l_def)
  have sal: "sal_a gy = [0, 31, 28 + l, 31, 30, 31, 30, 31, 31, 30, 31, 30, 31]" by (simp add: sal_a_def l_def)
  have day: "gyear_day gy gm gd = gDaysBeforeMonth ! nat (gm - 1) + (if gm > 2 then l else 0) + gd - 1"
    by (simp add: gyear_day_def l_def)
  from assms have g: "1 \<le> gm" "gm \<le> 12" "1 \<le> gd" "gd \<le> sal_a gy ! nat gm"
    by (simp_all add: gregorian_date_def gmonth_len_def)
  have "0 \<le> gyear_day gy gm gd \<and> gyear_day gy gm gd < 365 + l"
    using months_12 [OF g(1,2)] g(3,4) l unfolding day sal gDaysBeforeMonth_def
    by (elim disjE) simp_all
  then show "0 \<le> gyear_day gy gm gd" "gyear_day gy gm gd < 365 + (if gregorian_leap gy then 1 else 0)"
    by (simp_all add: l_def)
qed

lemma month_walk_day:
  assumes "gregorian_date gy gm gd"
  shows "month_walk (sal_a gy) 0 (gyear_day gy gm gd + 1) = (gm, gd)"
proof -
  define l :: int where "l = (if gregorian_leap gy then 1 else 0)"
  have l: "0 \<le> l" "l \<le> 1" by (simp_all add: l_def)
  have sal: "sal_a gy = [0, 31, 28 + l, 31, 30, 31, 30, 31, 31, 30, 31, 30, 31]" by (simp add: sal_a_def l_def)
  have day: "gyear_day gy gm gd + 1 = gDaysBeforeMonth ! nat (gm - 1) + (if gm > 2 then l else 0) + gd"
    by (simp add: gyear_day_def l_def)
  from assms have g: "1 \<le> gm" "gm \<le> 12" "1 \<le> gd" "gd \<le> sal_a gy ! nat gm"
    by (simp_all add: gregorian_date_def gmonth_len_def)
  show ?thesis
    using months_12 [OF g(1,2)] g(3,4) l unfolding day sal gDaysBeforeMonth_def
    by (elim disjE) simp_all
qed

lemma month_walk_date:
  assumes "0 \<le> k" "k < 365 + (if gregorian_leap gy then 1 else 0)"
  obtains gm gd where "month_walk (sal_a gy) 0 (k + 1) = (gm, gd)" "gregorian_date gy gm gd" "gyear_day gy gm gd = k"
proof -
  define l :: int where "l = (if gregorian_leap gy then 1 else 0)"
  have l: "0 \<le> l" "l \<le> 1" by (simp_all add: l_def)
  have sal: "sal_a gy = [0, 31, 28 + l, 31, 30, 31, 30, 31, 31, 30, 31, 30, 31]" by (simp add: sal_a_def l_def)
  have day: "gyear_day gy gm gd = gDaysBeforeMonth ! nat (gm - 1) + (if gm > 2 then l else 0) + gd - 1" for gm gd
    by (simp add: gyear_day_def l_def)
  note defs = sal day gregorian_date_def gmonth_len_def gDaysBeforeMonth_def
  have k: "0 \<le> k" "k < 365 + l" using assms by (simp_all add: l_def)
  then consider (m1) "0 \<le> k" "k < 31" | (m2) "31 \<le> k" "k < 59 + l" | (m3) "59 + l \<le> k" "k < 90 + l" | (m4) "90 + l \<le> k" "k < 120 + l" | (m5) "120 + l \<le> k" "k < 151 + l" | (m6) "151 + l \<le> k" "k < 181 + l" | (m7) "181 + l \<le> k" "k < 212 + l" | (m8) "212 + l \<le> k" "k < 243 + l" | (m9) "243 + l \<le> k" "k < 273 + l" | (m10) "273 + l \<le> k" "k < 304 + l" | (m11) "304 + l \<le> k" "k < 334 + l" | (m12) "334 + l \<le> k" "k < 365 + l"
    by (meson not_le)
  then show thesis
  proof cases
    case m1
    then show thesis using l by (intro that [of 1 "k + 1 - (0)"]) (simp_all add: defs)
  next
    case m2
    then show thesis using l by (intro that [of 2 "k + 1 - (31)"]) (simp_all add: defs)
  next
    case m3
    then show thesis using l by (intro that [of 3 "k + 1 - (59 + l)"]) (simp_all add: defs)
  next
    case m4
    then show thesis using l by (intro that [of 4 "k + 1 - (90 + l)"]) (simp_all add: defs)
  next
    case m5
    then show thesis using l by (intro that [of 5 "k + 1 - (120 + l)"]) (simp_all add: defs)
  next
    case m6
    then show thesis using l by (intro that [of 6 "k + 1 - (151 + l)"]) (simp_all add: defs)
  next
    case m7
    then show thesis using l by (intro that [of 7 "k + 1 - (181 + l)"]) (simp_all add: defs)
  next
    case m8
    then show thesis using l by (intro that [of 8 "k + 1 - (212 + l)"]) (simp_all add: defs)
  next
    case m9
    then show thesis using l by (intro that [of 9 "k + 1 - (243 + l)"]) (simp_all add: defs)
  next
    case m10
    then show thesis using l by (intro that [of 10 "k + 1 - (273 + l)"]) (simp_all add: defs)
  next
    case m11
    then show thesis using l by (intro that [of 11 "k + 1 - (304 + l)"]) (simp_all add: defs)
  next
    case m12
    then show thesis using l by (intro that [of 12 "k + 1 - (334 + l)"]) (simp_all add: defs)
  qed
qed

lemma greg_year_1600:
  assumes "0 \<le> A" "0 \<le> b" "b \<le> 3" "0 \<le> c" "c \<le> 24" "0 \<le> e" "e \<le> 3"
  shows "gyear_start (1600 + (400 * A + 100 * b + 4 * c + e)) = 940055 + 146097 * A + 36524 * b + 1461 * c + 365 * e +
    (if e = 0 then 0 else 1) - (if c = 0 \<and> e = 0 then 0 else 1) + (if b = 0 \<and> c = 0 \<and> e = 0 then 0 else 1)"
proof -
  have y: "1600 + (400 * A + 100 * b + 4 * c + e) = 400 * (A + 4) + 100 * b + 4 * c + e" by simp
  show ?thesis unfolding gyear_start_def gyear_split(1-3) [OF y add_nonneg_nonneg [OF assms(1) zero_le_numeral] assms(2-)]
    by simp
qed

lemma gregorian_walk:
  assumes "0 \<le> n"
  obtains gy k where "gregorian_of_days 1600 n = (gy, month_walk (sal_a gy) 0 (k + 1))" "1600 \<le> gy"
    "n + 940055 = gyear_start gy + k" "0 \<le> k" "k < 365 + (if gregorian_leap gy then 1 else 0)"
proof -
  define A where "A = n div 146097"
  define d1 where "d1 = n mod 146097"
  have n: "n = 146097 * A + d1" "0 \<le> d1" "d1 < 146097" "0 \<le> A"
    using assms by (simp_all add: A_def d1_def pos_imp_zdiv_nonneg_iff)
  define b where "b = (if d1 > 36524 then (d1 - 1) div 36524 else 0)"
  define m where "m = (if d1 > 36524 then (d1 - 1) mod 36524 else d1)"
  have b: "0 \<le> b" "b \<le> 3" "0 \<le> m" "b = 0 \<longrightarrow> m \<le> 36524" "b \<noteq> 0 \<longrightarrow> m < 36524"
    "d1 = (if b = 0 then m else 36524 * b + 1 + m)"
    using n(2,3) by (auto simp: b_def m_def)
  define d2 where "d2 = (if b \<noteq> 0 \<and> m \<ge> 365 then m + 1 else m)"
  have d2: "0 \<le> d2" "d2 \<le> 36524" using b by (auto simp: d2_def)
  define c where "c = d2 div 1461"
  define f where "f = d2 mod 1461"
  have c: "d2 = 1461 * c + f" "0 \<le> f" "f < 1461" "0 \<le> c" "c \<le> 24"
    using d2 by (simp_all add: c_def f_def)
  define e where "e = (if f > 365 then (f - 1) div 365 else 0)"
  define k where "k = (if f > 365 then (f - 1) mod 365 else f)"
  have e: "0 \<le> e" "e \<le> 3" "0 \<le> k" "e = 0 \<longrightarrow> k \<le> 365 \<and> f = k" "e \<noteq> 0 \<longrightarrow> k < 365 \<and> f = 365 * e + 1 + k"
    using c(2,3) by (auto simp: e_def k_def)
  define gy where "gy = 1600 + 400 * A + 100 * b + 4 * c + e"
  have h1: "(if d1 > 36524 then (g + 100 * ((d1 - 1) div 36524), let d = js_rem (d1 - 1) 36524 in if d \<ge> 365 then d + 1 else d)
      else (g, d1)) = (g + 100 * b, d2)" for g
  proof (cases "d1 > 36524")
    case True
    then have "b \<noteq> 0" using b by auto
    with True show ?thesis by (simp add: b_def m_def d2_def Let_def)
  qed (simp add: b_def m_def d2_def)
  have h2: "(if f > 365 then (g + (f - 1) div 365, js_rem (f - 1) 365) else (g, f)) = (g + e, k)" for g
    by (simp add: e_def k_def)
  have walk: "gregorian_of_days 1600 n = (gy, month_walk (sal_a gy) 0 (k + 1))"
    unfolding gregorian_of_days_def Let_def js_rem_pos [OF assms] A_def [symmetric] d1_def [symmetric]
      h1 [unfolded Let_def] prod.case js_rem_pos [OF d2(1)] c_def [symmetric] f_def [symmetric] h2
    by (simp add: gy_def)
  have leap: "gregorian_leap gy \<longleftrightarrow> e = 0 \<and> (c \<noteq> 0 \<or> b = 0)"
    by (rule gyear_split(7) [of gy "A + 4" b c e]) (use gy_def n(4) b(1,2) c(4,5) e(1,2) in simp_all)
  have y: "gy = 1600 + (400 * A + 100 * b + 4 * c + e)" by (simp add: gy_def)
  note start = greg_year_1600 [OF n(4) b(1,2) c(4,5) e(1,2), folded y]
  have "n + 940055 = gyear_start gy + k \<and> k < 365 + (if gregorian_leap gy then 1 else 0)"
  proof (cases "b \<noteq> 0 \<and> m < 365")
    case True
    then have "d2 = m" "d2 < 365" by (simp_all add: d2_def)
    moreover from this have "c = 0" using c by linarith
    moreover from calculation have f: "f = m" using c(1) by simp
    moreover have "e = 0" "k = f" using f True by (simp_all add: e_def k_def)
    ultimately show ?thesis using True n(1) b(6) start by (simp add: leap)
  next
    case False
    then have d: "d1 = 36524 * b + d2" "b \<noteq> 0 \<longrightarrow> 366 \<le> d2" using b(6) by (auto simp: d2_def)
    have ce: "b \<noteq> 0 \<longrightarrow> \<not> (c = 0 \<and> e = 0)" using d(2) c(1) e(4) by auto
    have nn: "n = 146097 * A + 36524 * b + 1461 * c + f" using n(1) d(1) c(1) by simp
    have f: "f = (if e = 0 then 0 else 365 * e + 1) + k" using e(4,5) by simp
    have x: "(if c = 0 \<and> e = 0 then 0 else 1) = (if b = 0 \<and> c = 0 \<and> e = 0 then 0 else (1 :: int))" using ce by auto
    have "n + 940055 = gyear_start gy + k" unfolding nn f start x by (cases "e = 0") simp_all
    moreover have "k < 365 + (if gregorian_leap gy then 1 else 0)" using e(4,5) ce unfolding leap by (cases "e = 0") auto
    ultimately show ?thesis by simp
  qed
  moreover have "1600 \<le> gy" using gy_def n(4) b(1) c(4) e(1) by simp
  ultimately show thesis using walk e(3) by (intro that [of gy k]) simp_all
qed


lemma gregorian_of_gday:
  assumes "gregorian_date gy gm gd" "1600 \<le> gy"
  shows "gregorian_of_days 1600 (gday gy gm gd - 940055) = (gy, gm, gd)"
proof -
  have start: "gyear_start 1600 = 940055" by (simp add: gyear_start_def)
  have "940055 \<le> gyear_start gy"
    using gyear_start_mono [of 1600 gy] assms(2) by (cases "gy = 1600") (simp_all add: start gregorian_leap_def)
  then have n: "0 \<le> gday gy gm gd - 940055"
    using assms gyear_day_bounds(1) [OF assms(1)] by (simp add: gday_year)
  obtain y k where w: "gregorian_of_days 1600 (gday gy gm gd - 940055) = (y, month_walk (sal_a y) 0 (k + 1))" "1600 \<le> y"
    and k: "gday gy gm gd - 940055 + 940055 = gyear_start y + k" "0 \<le> k" "k < 365 + (if gregorian_leap y then 1 else 0)"
    by (rule gregorian_walk [OF n])
  have "gyear_start gy + gyear_day gy gm gd = gyear_start y + k"
    using k(1) assms(2) by (simp add: gday_year)
  from gyear_unique [OF this _ _ gyear_day_bounds(1) [OF assms(1)] k(2) gyear_day_bounds(2) [OF assms(1)] k(3)]
  have "gy = y" "gyear_day gy gm gd = k" using assms(2) w(2) by simp_all
  with w(1) month_walk_day [OF assms(1)] show ?thesis by simp
qed

lemma gregorian_of_days_date:
  assumes "0 \<le> n"
  obtains gy gm gd where "gregorian_of_days 1600 n = (gy, gm, gd)" "gregorian_date gy gm gd" "1600 \<le> gy"
    "gday gy gm gd = n + 940055"
proof -
  obtain gy k where w: "gregorian_of_days 1600 n = (gy, month_walk (sal_a gy) 0 (k + 1))" "1600 \<le> gy"
    and k: "n + 940055 = gyear_start gy + k" "0 \<le> k" "k < 365 + (if gregorian_leap gy then 1 else 0)"
    by (rule gregorian_walk [OF assms])
  obtain gm gd where m: "month_walk (sal_a gy) 0 (k + 1) = (gm, gd)" "gregorian_date gy gm gd" "gyear_day gy gm gd = k"
    by (rule month_walk_date [OF k(2,3)])
  show thesis
    using w m k(1) by (intro that [of gy gm gd]) (simp_all add: gday_year)
qed

text \<open>From the Jalali year 980 on \<open>jalaliToGregorian\<close> keeps the day number.\<close>

lemma jalaliToGregorian_days:
  assumes "979 < jy" shows "jalaliToGregorian jy jm jd = gregorian_of_days 1600 (jday jy jm jd - 940055)"
proof -
  have t: "jy + 1595 = (jy - 979) + 33 * 78" by simp
  have "(jy + 1595) div 33 = (jy - 979) div 33 + 78" unfolding t by simp
  moreover have "(jy + 1595) mod 33 = (jy - 979) mod 33" by (simp only: t mod_mult_self2)
  ultimately have eq: "jday jy jm jd - 940055 =
      365 * (jy - 979) + ((jy - 979) div 33) * 8 + ((jy - 979) mod 33 + 3) div 4 + 78 + jd + month_offset jm"
    by (simp add: jday_def jyear_start_def)
  show ?thesis unfolding eq jalaliToGregorian_def Let_def using assms by simp
qed

lemma jyear_succ: "jyear_start (jy + 1) = jyear_start jy + 365 + (if jleap jy then 1 else 0)"
proof -
  obtain q c e where y: "jy + 1595 = 33 * q + 4 * c + e" and b: "0 \<le> c" "c \<le> 8" "0 \<le> e" "e < 4" "c = 8 \<longrightarrow> e = 0"
    by (rule jyear_split)
  note this_year = jyear_form [OF y b]
  consider "c = 8" "e = 0" | "c < 8" "e = 3" | "c < 8" "e < 3" using b by linarith
  then show ?thesis
  proof cases
    case 1
    then show ?thesis using this_year jyear_form(1) [of "jy + 1" "q + 1" 0 0] y by simp
  next
    case 2
    then show ?thesis using this_year jyear_form(1) [of "jy + 1" q "c + 1" 0] y b by simp
  next
    case 3
    then show ?thesis using this_year jyear_form(1) [of "jy + 1" q c "e + 1"] y b by auto
  qed
qed

lemma jyear_start_mono:
  assumes "jy < jy'"
  shows "jyear_start jy + 365 + (if jleap jy then 1 else 0) \<le> jyear_start jy'"
proof -
  have "jyear_start (jy + 1) \<le> jyear_start (jy + 1 + int n)" for n
  proof (induction n)
    case (Suc n)
    then show ?case using jyear_succ [of "jy + 1 + int n"] by (simp add: algebra_simps split: if_splits)
  qed simp
  from this [of "nat (jy' - jy - 1)"] jyear_succ [of jy] assms show ?thesis by simp
qed

lemma jalali_of_day_date:
  assumes "0 \<le> n"
  obtains jy jm jd where "jalali_of_day n = (jy, jm, jd)" "jalali_date jy jm jd" "jday jy jm jd = n" "- 1595 \<le> jy"
proof -
  define q where "q = n div 12053"
  define d1 where "d1 = n mod 12053"
  have n: "n = 12053 * q + d1" "0 \<le> d1" "d1 < 12053" "0 \<le> q"
    using assms by (simp_all add: q_def d1_def pos_imp_zdiv_nonneg_iff)
  define c where "c = d1 div 1461"
  define f where "f = d1 mod 1461"
  have c: "d1 = 1461 * c + f" "0 \<le> f" "f < 1461" "0 \<le> c" "c \<le> 8" using n(2,3) by (simp_all add: c_def f_def)
  have c8: "c = 8 \<longrightarrow> f < 365" using c(1) n(3) by auto
  define e where "e = (if f > 365 then (f - 1) div 365 else 0)"
  define k where "k = (if f > 365 then (f - 1) mod 365 else f)"
  have e: "0 \<le> e" "e \<le> 3" "0 \<le> k" "e = 0 \<longrightarrow> k \<le> 365 \<and> f = k" "e \<noteq> 0 \<longrightarrow> k < 365 \<and> f = 365 * e + 1 + k"
    "c = 8 \<longrightarrow> e = 0"
    using c(2,3) c8 by (auto simp: e_def k_def)
  define jy where "jy = - 1595 + 33 * q + 4 * c + e"
  have y: "jy + 1595 = 33 * q + 4 * c + e" by (simp add: jy_def)
  note form = jyear_form [OF y c(4,5) e(1) _ e(6)]
  have nk: "n = jyear_start jy + k" using form(1) e n(1) c(1) by auto
  have k: "k < 365 + (if jleap jy then 1 else 0)" using form(2) e c8 by auto
  define jm where "jm = (if k < 186 then 1 + k div 31 else 7 + (k - 186) div 30)"
  define jd where "jd = (if k < 186 then 1 + k mod 31 else 1 + (k - 186) mod 30)"
  have date: "jalali_date jy jm jd \<and> month_offset jm + jd - 1 = k"
  proof (cases "k < 186")
    case True
    then have m: "jm = 1 + k div 31" "jd = 1 + k mod 31" by (simp_all add: jm_def jd_def)
    have "0 \<le> k div 31" "k div 31 \<le> 5" using True e(3) by (simp_all add: pos_imp_zdiv_nonneg_iff)
    with m True e(3) show ?thesis by (simp add: jalali_date_def jmonth_len_def month_offset_def)
  next
    case False
    then have m: "jm = 7 + (k - 186) div 30" "jd = 1 + (k - 186) mod 30" by (simp_all add: jm_def jd_def)
    define u where "u = (k - 186) div 30"
    define v where "v = (k - 186) mod 30"
    have uv: "k = 186 + 30 * u + v" "0 \<le> v" "v < 30" by (simp_all add: u_def v_def)
    have "0 \<le> u" "u \<le> 5" using False k by (simp_all add: u_def pos_imp_zdiv_nonneg_iff split: if_splits)
    moreover have "u = 5 \<longrightarrow> v < 29 + (if jleap jy then 1 else 0)" using uv k by auto
    ultimately show ?thesis using uv unfolding m u_def [symmetric] v_def [symmetric]
      by (auto simp: jalali_date_def jmonth_len_def month_offset_def)
  qed
  have h: "(if f > 365 then (g + (f - 1) div 365, js_rem (f - 1) 365) else (g, f)) = (g + e, k)" for g
    by (simp add: e_def k_def)
  have "jalali_of_day n = (jy, jm, jd)"
    unfolding jalali_of_day_def Let_def js_rem_pos [OF assms] q_def [symmetric] d1_def [symmetric]
      js_rem_pos [OF n(2)] c_def [symmetric] f_def [symmetric] h prod.case
    using e(3) by (simp add: jy_def jm_def jd_def)
  then show thesis using date nk y n(4) c(4) e(1) by (intro that [of jy jm jd]) (simp_all add: jday_def)
qed

end
