(* ===== verification/CalendarText.thy ===== *)
theory CalendarText
  imports CalendarDays
begin

text \<open>
  Dates as texts: what the server accepts (\<open>toStorageDate\<close>), how a stored date is shown
  (\<open>isoToJalaliDate\<close>), the bounds of a fiscal year and the fiscal year of a date, with the
  regular expressions of the source as parsers over digits. The order of stored texts is the order of
  days, so a fiscal year is a range of texts.
\<close>


section \<open>The text of a date\<close>

text \<open>The input of the converters: null or undefined, a text, or a value whose text is no date (a number, an object).\<close>

datatype date_input = NoDate | DateText string | OtherInput

text \<open>Persian and Arabic digits, two bytes each in UTF-8, become ASCII digits.\<close>

fun toEnglishDigits :: "string \<Rightarrow> string" where
  "toEnglishDigits (a # b # s) =
    (let m = of_char a :: nat; n = of_char b :: nat
     in if m = 0xDB \<and> 0xB0 \<le> n \<and> n \<le> 0xB9 then char_of (n - 0x80) # toEnglishDigits s
        else if m = 0xD9 \<and> 0xA0 \<le> n \<and> n \<le> 0xA9 then char_of (n - 0x70) # toEnglishDigits s
        else a # toEnglishDigits (b # s))"
| "toEnglishDigits s = s"

definition is_digit :: "char \<Rightarrow> bool" where
  "is_digit c \<longleftrightarrow> 48 \<le> (of_char c :: nat) \<and> of_char c \<le> (57 :: nat)"

definition digit_value :: "char \<Rightarrow> nat" where
  "digit_value c = of_char c - 48"

text \<open>\<open>Number(text)\<close> for a text of digits.\<close>

definition number_of :: "string \<Rightarrow> int" where
  "number_of ds = foldl (\<lambda>n c. 10 * n + int (digit_value c)) 0 ds"

definition pad2 :: "nat \<Rightarrow> string" where
  "pad2 n = (if n < 10 then ''0'' @ show_nat n else show_nat n)"

text \<open>Exactly \<open>n\<close> digits, and the rest.\<close>

fun take_digits :: "nat \<Rightarrow> string \<Rightarrow> (string \<times> string) option" where
  "take_digits 0 s = Some ([], s)"
| "take_digits (Suc n) [] = None"
| "take_digits (Suc n) (c # s) =
    (if is_digit c then map_option (\<lambda>(ds, r). (c # ds, r)) (take_digits n s) else None)"

definition one_or_two :: "string \<Rightarrow> (string \<times> string) option" where
  "one_or_two s = (case take_digits 2 s of Some p \<Rightarrow> Some p | None \<Rightarrow> take_digits 1 s)"

text \<open>The optional time of \<open>DATE_PATTERN\<close>: hours and minutes, seconds with a fraction, a zone.\<close>

definition zone_suffix :: "string \<Rightarrow> bool" where
  "zone_suffix s \<longleftrightarrow> s = [] \<or> s = ''Z'' \<or>
    (case s of c # s1 \<Rightarrow> (c = CHR ''+'' \<or> c = CHR ''-'') \<and>
       (case take_digits 2 s1 of
          Some (_, s2) \<Rightarrow> s2 = [] \<or>
            (let s3 = (case s2 of d # r \<Rightarrow> if d = CHR '':'' then r else s2 | [] \<Rightarrow> s2)
             in (case take_digits 2 s3 of Some (_, r) \<Rightarrow> r = [] | None \<Rightarrow> False))
        | None \<Rightarrow> False)
     | [] \<Rightarrow> False)"

definition seconds_suffix :: "string \<Rightarrow> bool" where
  "seconds_suffix s \<longleftrightarrow>
    (case s of c # s1 \<Rightarrow>
       if c = CHR '':'' then
         (case take_digits 2 s1 of
            Some (_, s2) \<Rightarrow>
              (case s2 of d # s3 \<Rightarrow>
                 if d = CHR ''.'' then takeWhile is_digit s3 \<noteq> [] \<and> zone_suffix (dropWhile is_digit s3) else zone_suffix s2
               | [] \<Rightarrow> True)
          | None \<Rightarrow> False)
       else zone_suffix s
     | [] \<Rightarrow> True)"

definition time_suffix :: "string \<Rightarrow> bool" where
  "time_suffix s \<longleftrightarrow> s = [] \<or>
    (case s of c # s1 \<Rightarrow> (c = CHR ''T'' \<or> c = CHR '' '') \<and>
       (case take_digits 2 s1 of
          Some (_, d # s3) \<Rightarrow> d = CHR '':'' \<and>
            (case take_digits 2 s3 of Some (_, s4) \<Rightarrow> seconds_suffix s4 | None \<Rightarrow> False)
        | _ \<Rightarrow> False)
     | [] \<Rightarrow> False)"

definition is_separator :: "char \<Rightarrow> bool" where
  "is_separator c \<longleftrightarrow> c = CHR ''-'' \<or> c = CHR ''/''"

text \<open>\<open>DATE_PATTERN.exec(s)\<close>: year, month and day.\<close>

definition date_parts :: "string \<Rightarrow> (int \<times> int \<times> int) option" where
  "date_parts s =
    (case take_digits 4 s of
       Some (y, c1 # s1) \<Rightarrow>
         if \<not> is_separator c1 then None
         else (case one_or_two s1 of
           Some (m, c2 # s2) \<Rightarrow>
             if \<not> is_separator c2 then None
             else (case one_or_two s2 of
               Some (d, s3) \<Rightarrow> if time_suffix s3 then Some (number_of y, number_of m, number_of d) else None
             | None \<Rightarrow> None)
         | _ \<Rightarrow> None)
     | _ \<Rightarrow> None)"

definition JALALI_MIN_YEAR :: int where "JALALI_MIN_YEAR = 1300"
definition JALALI_MAX_YEAR :: int where "JALALI_MAX_YEAR = 1500"
definition GREGORIAN_MIN_YEAR :: int where "GREGORIAN_MIN_YEAR = 1900"
definition GREGORIAN_MAX_YEAR :: int where "GREGORIAN_MAX_YEAR = 2199"

definition isValidGregorian :: "int \<Rightarrow> int \<Rightarrow> int \<Rightarrow> bool" where
  "isValidGregorian y m d \<longleftrightarrow> (if m < 1 \<or> m > 12 \<or> d < 1 then False else d \<le> gmonth_len y m)"

definition isValidJalali :: "int \<Rightarrow> int \<Rightarrow> int \<Rightarrow> bool" where
  "isValidJalali y m d \<longleftrightarrow>
    (if m < 1 \<or> m > 12 \<or> d < 1 \<or> d > (if m \<le> 6 then 31 else 30) then False
     else let (gy, gm, gd) = jalaliToGregorian y m d; (ry, rm, rd) = gregorianToJalali gy gm gd
          in ry = y \<and> rm = m \<and> rd = d)"

definition date_text :: "string \<Rightarrow> int \<Rightarrow> int \<Rightarrow> int \<Rightarrow> string" where
  "date_text sep y m d = show_nat (nat y) @ sep @ pad2 (nat m) @ sep @ pad2 (nat d)"

definition toStorageDate :: "date_input \<Rightarrow> string option" where
  "toStorageDate value =
    (case value of
       NoDate \<Rightarrow> Some ''''
     | OtherInput \<Rightarrow> None
     | DateText v \<Rightarrow>
         let s = js_trim (toEnglishDigits v)
         in if s = '''' then Some ''''
            else (case date_parts s of
              None \<Rightarrow> None
            | Some (y, mo, d) \<Rightarrow>
                if y \<ge> GREGORIAN_MIN_YEAR \<and> y \<le> GREGORIAN_MAX_YEAR then
                  (if isValidGregorian y mo d then Some (date_text ''-'' y mo d) else None)
                else if y \<ge> JALALI_MIN_YEAR \<and> y \<le> JALALI_MAX_YEAR then
                  (if \<not> isValidJalali y mo d then None
                   else let (gy, gm, gd) = jalaliToGregorian y mo d in Some (date_text ''-'' gy gm gd))
                else None))"

fun split_on :: "char \<Rightarrow> string \<Rightarrow> string list" where
  "split_on c [] = [[]]"
| "split_on c (x # xs) =
    (if x = c then [] # split_on c xs
     else case split_on c xs of w # ws \<Rightarrow> (x # w) # ws | [] \<Rightarrow> [[x]])"

definition isoToJalaliDate :: "date_input \<Rightarrow> string" where
  "isoToJalaliDate value =
    (case toStorageDate value of
       None \<Rightarrow> ''''
     | Some stored \<Rightarrow>
         if stored = '''' then ''''
         else (case map number_of (split_on (CHR ''-'') stored) of
           gy # gm # gd # _ \<Rightarrow> (let (jy, jm, jd) = gregorianToJalali gy gm gd in date_text ''/'' jy jm jd)
         | _ \<Rightarrow> ''''))"

definition isStorageDate :: "string \<Rightarrow> bool" where
  "isStorageDate value \<longleftrightarrow> value \<noteq> '''' \<and> toStorageDate (DateText value) = Some value"

record year_bounds =
  firstDay :: string
  lastDay :: string
  nextFirstDay :: string

text \<open>\<open>a || b\<close> on texts that may be null.\<close>

definition text_or :: "string option \<Rightarrow> string option \<Rightarrow> string option" where
  "text_or a b = (if a = None \<or> a = Some '''' then b else a)"

definition jalaliYearBounds :: "int \<Rightarrow> year_bounds option" where
  "jalaliYearBounds jy =
    (if jy < JALALI_MIN_YEAR \<or> jy \<ge> JALALI_MAX_YEAR then None
     else
       let first = toStorageDate (DateText (show_nat (nat jy) @ ''/01/01''));
           last_day = text_or (toStorageDate (DateText (show_nat (nat jy) @ ''/12/30'')))
             (toStorageDate (DateText (show_nat (nat jy) @ ''/12/29'')));
           next_first = toStorageDate (DateText (show_nat (nat (jy + 1)) @ ''/01/01''))
       in case (text_or first None, text_or last_day None, text_or next_first None) of
            (Some a, Some b, Some c) \<Rightarrow> Some \<lparr>firstDay = a, lastDay = b, nextFirstDay = c\<rparr>
          | _ \<Rightarrow> None)"

section \<open>The fiscal year of a date\<close>

text \<open>The copy of the conversion in \<open>businessClock.ts\<close>.\<close>

definition clock_jalaliToGregorian :: "int \<Rightarrow> int \<Rightarrow> int \<Rightarrow> int \<times> int \<times> int" where
  "clock_jalaliToGregorian jy jm jd =
    (let gy = (if jy \<le> 979 then 621 else 1600);
         jYear = jy - (if jy \<le> 979 then 0 else 979);
         days = 365 * jYear + (jYear div 33) * 8 + (js_rem jYear 33 + 3) div 4 + 78 + jd +
           (if jm < 7 then (jm - 1) * 31 else (jm - 7) * 30 + 186)
     in gregorian_of_days gy days)"

text \<open>\<open>/^(1[345]\d{2})[-/]/\<close> and \<open>/^(\d{4})-(\d{2})-(\d{2})/\<close>.\<close>

definition jalali_prefix :: "string \<Rightarrow> int option" where
  "jalali_prefix s =
    (case take_digits 4 s of
       Some (y, c # _) \<Rightarrow>
         if y ! 0 = CHR ''1'' \<and> y ! 1 \<in> {CHR ''3'', CHR ''4'', CHR ''5''} \<and> is_separator c then Some (number_of y) else None
     | _ \<Rightarrow> None)"

definition iso_prefix :: "string \<Rightarrow> (int \<times> int \<times> int) option" where
  "iso_prefix s =
    (case take_digits 4 s of
       Some (y, c1 # s1) \<Rightarrow>
         if c1 \<noteq> CHR ''-'' then None
         else (case take_digits 2 s1 of
           Some (m, c2 # s2) \<Rightarrow>
             if c2 \<noteq> CHR ''-'' then None
             else (case take_digits 2 s2 of Some (d, _) \<Rightarrow> Some (number_of y, number_of m, number_of d) | None \<Rightarrow> None)
         | _ \<Rightarrow> None)
     | _ \<Rightarrow> None)"

text \<open>The fiscal year of a date text; \<open>current\<close> is the fiscal year of today.\<close>

definition resolveJalaliFiscalYear :: "int \<Rightarrow> string \<Rightarrow> int" where
  "resolveJalaliFiscalYear current dateLike =
    (let s = js_trim dateLike
     in if s = '''' then current
        else (case jalali_prefix s of
          Some y \<Rightarrow> y
        | None \<Rightarrow>
            (case iso_prefix s of
               Some (gY, gM, gD) \<Rightarrow>
                 let jy = gY - 621;
                     (ny, nm, nd) = clock_jalaliToGregorian jy 1 1;
                     beforeNowruz = (gM < nm \<or> (gM = nm \<and> gD < nd))
                 in if beforeNowruz then jy - 1 else jy
             | None \<Rightarrow>
                 (case take_digits 4 s of
                    Some (ds, _) \<Rightarrow>
                      let y = number_of ds
                      in if y \<ge> 1300 \<and> y \<le> 1500 then y else if y - 621 > 0 then y - 621 else current
                  | None \<Rightarrow> current))))"

text \<open>JavaScript's \<open><\<close> on texts; on ASCII the order of the character codes.\<close>

fun js_less :: "string \<Rightarrow> string \<Rightarrow> bool" where
  "js_less _ [] = False"
| "js_less [] (_ # _) = True"
| "js_less (a # s) (b # t) = ((of_char a :: nat) < of_char b \<or> (a = b \<and> js_less s t))"

section \<open>Digits\<close>

definition digit :: "nat \<Rightarrow> char" where
  "digit k = char_of (48 + k)"

lemma of_char_digit [simp]: "k < 10 \<Longrightarrow> of_char (digit k) = (48 + k :: nat)"
  by (simp add: digit_def)

lemma is_digit_digit [simp]: "k < 10 \<Longrightarrow> is_digit (digit k)"
  by (simp add: is_digit_def)

lemma digit_value_digit [simp]: "k < 10 \<Longrightarrow> digit_value (digit k) = k"
  by (simp add: digit_value_def)

lemma digit_inject [simp]: "j < 10 \<Longrightarrow> k < 10 \<Longrightarrow> digit j = digit k \<longleftrightarrow> j = k"
  by (metis of_char_digit add_left_cancel)

lemma digit_not:
  assumes "k < 10" "of_char c < (48::nat)" shows "digit k \<noteq> c"
proof
  assume "digit k = c"
  then have "of_char (digit k) = (of_char c :: nat)" by simp
  with assms show False by simp
qed

lemma digit_not_separator [simp]:
  assumes "k < 10" shows "\<not> is_separator (digit k)" "digit k \<noteq> CHR ''-''" "digit k \<noteq> CHR ''/''" "\<not> js_space (digit k)"
  using digit_not [OF assms] assms by (simp_all add: is_separator_def js_space_def)

lemma digit_0: "CHR ''0'' = digit 0"
  by code_simp

lemma show_nat_digit: "n < 10 \<Longrightarrow> show_nat n = [digit n]"
  by (subst show_nat.simps) (simp add: digit_def)

lemma show_nat_step: "10 \<le> n \<Longrightarrow> show_nat n = show_nat (n div 10) @ [digit (n mod 10)]"
  by (subst show_nat.simps) (simp add: digit_def)

lemma pad2_digits: "n < 100 \<Longrightarrow> pad2 n = [digit (n div 10), digit (n mod 10)]"
  by (auto simp: pad2_def show_nat_digit show_nat_step digit_0)

lemma show_nat_4:
  assumes "1000 \<le> n" "n < 10000" shows "show_nat n = pad2 (n div 100) @ pad2 (n mod 100)"
proof -
  have "show_nat n = [digit (n div 10 div 10 div 10), digit (n div 10 div 10 mod 10), digit (n div 10 mod 10), digit (n mod 10)]"
    using assms by (simp add: show_nat_step show_nat_digit)
  moreover have "n div 100 < 100" "n mod 100 < 100" using assms by simp_all
  moreover have "n mod 100 = 10 * (n div 10 mod 10) + n mod 10" using mod_mult2_eq [of n 10 10] by simp
  then have "n mod 100 div 10 = n div 10 mod 10" "n mod 100 mod 10 = n mod 10" by simp_all
  ultimately show ?thesis by (simp add: pad2_digits div_mult2_eq [symmetric])
qed

lemma take_digits_1: "take_digits 1 s = (case s of a # r \<Rightarrow> if is_digit a then Some ([a], r) else None | _ \<Rightarrow> None)"
  by (simp split: list.split)

lemma take_digits_2:
  "take_digits 2 s = (case s of a # b # r \<Rightarrow> if is_digit a \<and> is_digit b then Some ([a, b], r) else None | _ \<Rightarrow> None)"
  by (simp add: numeral_2_eq_2 split: list.split)

lemma take_digits_4:
  "take_digits 4 s = (case s of a # b # c # d # r \<Rightarrow>
    if is_digit a \<and> is_digit b \<and> is_digit c \<and> is_digit d then Some ([a, b, c, d], r) else None | _ \<Rightarrow> None)"
  by (simp add: eval_nat_numeral split: list.split)

lemma digits_value: "10 * int (n div 10) + int (n mod 10) = int n"
  by (metis mult_div_mod_eq of_nat_add of_nat_mult of_nat_numeral)

lemma number_of_2: "a < 10 \<Longrightarrow> b < 10 \<Longrightarrow> number_of [digit a, digit b] = 10 * int a + int b"
  by (simp add: number_of_def)

lemma number_of_4:
  "a < 10 \<Longrightarrow> b < 10 \<Longrightarrow> c < 10 \<Longrightarrow> d < 10 \<Longrightarrow>
    number_of [digit a, digit b, digit c, digit d] = 1000 * int a + 100 * int b + 10 * int c + int d"
  by (simp add: number_of_def)

text \<open>The texts of dates with a year of four digits.\<close>

definition text_date :: "int \<Rightarrow> int \<Rightarrow> int \<Rightarrow> bool" where
  "text_date y m d \<longleftrightarrow> 1000 \<le> y \<and> y < 10000 \<and> 0 \<le> m \<and> m < 100 \<and> 0 \<le> d \<and> d < 100"

lemma two_digits:
  fixes n :: int
  assumes "0 \<le> n" "n < 100"
  obtains a b where "pad2 (nat n) = [digit a, digit b]" "a < 10" "b < 10" "n = 10 * int a + int b"
proof
  have n: "nat n < 100" using assms by simp
  show "pad2 (nat n) = [digit (nat n div 10), digit (nat n mod 10)]" using n by (rule pad2_digits)
  show "nat n div 10 < 10" "nat n mod 10 < 10" using n by simp_all
  show "n = 10 * int (nat n div 10) + int (nat n mod 10)" using assms(1) by (simp only: digits_value nat_0_le)
qed

lemma four_digits:
  fixes n :: int
  assumes "1000 \<le> n" "n < 10000"
  obtains a b c d where "show_nat (nat n) = [digit a, digit b, digit c, digit d]" "a < 10" "b < 10" "c < 10" "d < 10"
    "n = 1000 * int a + 100 * int b + 10 * int c + int d"
proof -
  have n: "1000 \<le> nat n" "nat n < 10000" using assms by simp_all
  have "0 \<le> n div 100" "n div 100 < 100" "0 \<le> n mod 100" "n mod 100 < 100" using assms by simp_all
  then obtain a b c d where "pad2 (nat (n div 100)) = [digit a, digit b]" "pad2 (nat (n mod 100)) = [digit c, digit d]"
    "a < 10" "b < 10" "c < 10" "d < 10" "n div 100 = 10 * int a + int b" "n mod 100 = 10 * int c + int d"
    by (elim two_digits)
  moreover have "show_nat (nat n) = pad2 (nat (n div 100)) @ pad2 (nat (n mod 100))"
    using show_nat_4 [OF n] assms by (simp add: nat_div_distrib nat_mod_distrib)
  moreover have "n = 100 * (n div 100) + n mod 100" by simp
  ultimately show thesis by (intro that [of a b c d]) simp_all
qed

lemma date_text_form:
  assumes "text_date y m d"
  obtains d1 d2 d3 d4 d5 d6 d7 d8 where
    "date_text [c] y m d = [digit d1, digit d2, digit d3, digit d4, c, digit d5, digit d6, c, digit d7, digit d8]"
    "d1 < 10" "d2 < 10" "d3 < 10" "d4 < 10" "d5 < 10" "d6 < 10" "d7 < 10" "d8 < 10"
    "y = 1000 * int d1 + 100 * int d2 + 10 * int d3 + int d4" "m = 10 * int d5 + int d6" "d = 10 * int d7 + int d8"
proof -
  from assms have y: "1000 \<le> y" "y < 10000" and m: "0 \<le> m" "m < 100" and d: "0 \<le> d" "d < 100"
    by (simp_all add: text_date_def)
  obtain d1 d2 d3 d4 where 1: "show_nat (nat y) = [digit d1, digit d2, digit d3, digit d4]" "d1 < 10" "d2 < 10" "d3 < 10" "d4 < 10"
    "y = 1000 * int d1 + 100 * int d2 + 10 * int d3 + int d4" by (rule four_digits [OF y])
  obtain d5 d6 where 2: "pad2 (nat m) = [digit d5, digit d6]" "d5 < 10" "d6 < 10" "m = 10 * int d5 + int d6" by (rule two_digits [OF m])
  obtain d7 d8 where 3: "pad2 (nat d) = [digit d7, digit d8]" "d7 < 10" "d8 < 10" "d = 10 * int d7 + int d8" by (rule two_digits [OF d])
  show thesis
    by (rule that [of d1 d2 d3 d4 d5 d6 d7 d8]) (use 1 2 3 in \<open>simp_all only: date_text_def append.simps\<close>)
qed

lemma date_parts_text:
  assumes "text_date y m d" "is_separator c"
  shows "date_parts (date_text [c] y m d) = Some (y, m, d)"
proof -
  obtain d1 d2 d3 d4 d5 d6 d7 d8 where f: "date_text [c] y m d = [digit d1, digit d2, digit d3, digit d4, c, digit d5, digit d6, c, digit d7, digit d8]"
    and d: "d1 < 10" "d2 < 10" "d3 < 10" "d4 < 10" "d5 < 10" "d6 < 10" "d7 < 10" "d8 < 10"
    and v: "y = 1000 * int d1 + 100 * int d2 + 10 * int d3 + int d4" "m = 10 * int d5 + int d6" "d = 10 * int d7 + int d8"
    by (rule date_text_form [OF assms(1)])
  show ?thesis unfolding f using d assms(2)
    by (simp add: v date_parts_def one_or_two_def take_digits_4 take_digits_2 time_suffix_def number_of_2 number_of_4)
qed

lemma english_digit: "k < 10 \<Longrightarrow> toEnglishDigits (digit k # s) = digit k # toEnglishDigits s"
  by (cases s) (simp_all add: Let_def)

lemma english_separator: "is_separator c \<Longrightarrow> toEnglishDigits (c # s) = c # toEnglishDigits s"
  by (cases s) (auto simp: is_separator_def Let_def)

lemma drop_digit: "k < 10 \<Longrightarrow> dropWhile js_space (digit k # s) = digit k # s"
  by simp

lemma english_text:
  assumes "text_date y m d" "is_separator c"
  shows "toEnglishDigits (date_text [c] y m d) = date_text [c] y m d" "js_trim (date_text [c] y m d) = date_text [c] y m d"
    "date_text [c] y m d \<noteq> []"
proof -
  obtain d1 d2 d3 d4 d5 d6 d7 d8 where f: "date_text [c] y m d = [digit d1, digit d2, digit d3, digit d4, c, digit d5, digit d6, c, digit d7, digit d8]"
    and k: "d1 < 10" "d2 < 10" "d3 < 10" "d4 < 10" "d5 < 10" "d6 < 10" "d7 < 10" "d8 < 10"
    and "y = 1000 * int d1 + 100 * int d2 + 10 * int d3 + int d4" "m = 10 * int d5 + int d6" "d = 10 * int d7 + int d8"
    by (rule date_text_form [OF assms(1)])
  show "toEnglishDigits (date_text [c] y m d) = date_text [c] y m d"
    unfolding f by (simp only: english_digit [OF k(1)] english_digit [OF k(2)] english_digit [OF k(3)] english_digit [OF k(4)]
      english_digit [OF k(5)] english_digit [OF k(6)] english_digit [OF k(7)] english_digit [OF k(8)]
      english_separator [OF assms(2)] toEnglishDigits.simps(2))
  show "js_trim (date_text [c] y m d) = date_text [c] y m d"
    unfolding f js_trim_def by (simp only: drop_digit [OF k(1)] drop_digit [OF k(8)] rev.simps append.simps)
  show "date_text [c] y m d \<noteq> []" unfolding f by simp
qed

lemma split_text:
  assumes "text_date y m d"
  shows "map number_of (split_on CHR ''-'' (date_text ''-'' y m d)) = [y, m, d]"
proof -
  obtain d1 d2 d3 d4 d5 d6 d7 d8 where f: "date_text ''-'' y m d = [digit d1, digit d2, digit d3, digit d4, CHR ''-'', digit d5, digit d6, CHR ''-'', digit d7, digit d8]"
    and d: "d1 < 10" "d2 < 10" "d3 < 10" "d4 < 10" "d5 < 10" "d6 < 10" "d7 < 10" "d8 < 10"
    and v: "y = 1000 * int d1 + 100 * int d2 + 10 * int d3 + int d4" "m = 10 * int d5 + int d6" "d = 10 * int d7 + int d8"
    by (rule date_text_form [OF assms(1)])
  show ?thesis unfolding f using d by (simp add: v number_of_2 number_of_4)
qed
section \<open>What the converters accept\<close>

lemma gmonth_len_bounds:
  assumes "1 \<le> m" "m \<le> 12" shows "28 \<le> gmonth_len y m" "gmonth_len y m \<le> 31"
  using months_12 [OF assms] by (auto simp: gmonth_len_def sal_a_def)

lemma jmonth_len_bounds: "jmonth_len y m \<le> 31"
  by (simp add: jmonth_len_def)

lemma gregorian_text: "gregorian_date y m d \<Longrightarrow> 1000 \<le> y \<Longrightarrow> y < 10000 \<Longrightarrow> text_date y m d"
  using gmonth_len_bounds [of m y] by (auto simp: gregorian_date_def text_date_def)

lemma jalali_text: "jalali_date y m d \<Longrightarrow> 1000 \<le> y \<Longrightarrow> y < 10000 \<Longrightarrow> text_date y m d"
  using jmonth_len_bounds [of y m] by (auto simp: jalali_date_def text_date_def)

lemma isValidGregorian_date: "isValidGregorian y m d \<longleftrightarrow> gregorian_date y m d"
  by (auto simp: isValidGregorian_def gregorian_date_def)

text \<open>A Jalali date of the accepted years and the Gregorian date of the same day.\<close>

lemma jalali_day_window:
  assumes "1300 \<le> y" "y \<le> 1500" "0 \<le> k" "k < 365 + (if jleap y then 1 else 0)"
  shows "jyear_start 1300 \<le> jyear_start y + k" "jyear_start y + k < jyear_start 1501"
proof -
  show "jyear_start 1300 \<le> jyear_start y + k"
    using jyear_start_mono [of 1300 y] assms by (cases "y = 1300") (auto split: if_splits)
  show "jyear_start y + k < jyear_start 1501" using jyear_start_mono [of y 1501] assms by simp
qed

lemma window_years:
  assumes "gregorian_date gy gm gd" "0 \<le> gy" "jyear_start 1300 \<le> gday gy gm gd" "gday gy gm gd < jyear_start 1501"
  shows "1900 \<le> gy" "gy \<le> 2199"
proof -
  have s: "gyear_start 1900 \<le> jyear_start 1300" "jyear_start 1501 \<le> gyear_start 2199"
    by (simp_all add: gyear_start_def jyear_start_def)
  have g: "gday gy gm gd = gyear_start gy + gyear_day gy gm gd" using assms(2) by (rule gday_year)
  note b = gyear_day_bounds [OF assms(1)]
  show "1900 \<le> gy"
  proof (rule ccontr)
    assume "\<not> 1900 \<le> gy"
    with gyear_start_mono [of gy 1900] assms(2) b g s assms(3) show False by simp
  qed
  show "gy \<le> 2199"
  proof (rule ccontr)
    assume "\<not> gy \<le> 2199"
    with gyear_start_mono [of 2199 gy] b g s assms(4) show False by (simp split: if_splits)
  qed
qed

lemma jalali_to_gregorian:
  assumes "jalali_date y m d" "1300 \<le> y" "y \<le> 1500"
  obtains gy gm gd where "jalaliToGregorian y m d = (gy, gm, gd)" "gregorian_date gy gm gd" "gday gy gm gd = jday y m d"
    "1900 \<le> gy" "gy \<le> 2199"
proof -
  have jd: "jday y m d = jyear_start y + (month_offset m + d - 1)" by (simp add: jday_def)
  note w = jalali_day_window [OF assms(2,3) month_offset_bounds [OF assms(1)], folded jd]
  have "940055 \<le> jyear_start 1300" by (simp add: jyear_start_def)
  with w have n: "0 \<le> jday y m d - 940055" by simp
  obtain gy gm gd where g: "gregorian_of_days 1600 (jday y m d - 940055) = (gy, gm, gd)" "gregorian_date gy gm gd" "1600 \<le> gy"
    "gday gy gm gd = jday y m d - 940055 + 940055" by (rule gregorian_of_days_date [OF n])
  have gd: "gday gy gm gd = jday y m d" using g(4) by simp
  from g(3) have "0 \<le> gy" by simp
  note years = window_years [OF g(2) this w [folded gd]]
  show thesis using g gd years assms(2) by (intro that [of gy gm gd]) (simp_all add: jalaliToGregorian_days)
qed

lemma jalali_to_gregorian_to_jalali:
  assumes "jalali_date y m d" "1300 \<le> y" "y \<le> 1500"
  shows "(case jalaliToGregorian y m d of (gy, gm, gd) \<Rightarrow> gregorianToJalali gy gm gd) = (y, m, d)"
  by (rule jalali_to_gregorian [OF assms]) (use jalali_of_jday [OF assms(1)] assms(2) in \<open>simp add: gregorianToJalali_def\<close>)

lemma isValidJalali_date:
  assumes "1300 \<le> y" "y \<le> 1500"
  shows "isValidJalali y m d \<longleftrightarrow> jalali_date y m d"
proof (cases "jalali_date y m d")
  case True
  with jalali_to_gregorian_to_jalali [OF True assms] show ?thesis
    by (auto simp: isValidJalali_def jalali_date_def jmonth_len_def Let_def split: if_splits prod.splits)
next
  case False
  show ?thesis
  proof (cases "m < 1 \<or> m > 12 \<or> d < 1 \<or> d > (if m \<le> 6 then 31 else 30)")
    case True
    with False show ?thesis by (simp add: isValidJalali_def)
  next
    case range: False
    with False have m: "m = 12" "d = 30" "\<not> jleap y" by (auto simp: jalali_date_def jmonth_len_def split: if_splits)
    define n where "n = jday y 12 30"
    have next_year: "n = jday (y + 1) 1 1"
      using m(3) jyear_succ [of y] by (simp add: n_def jday_def month_offset_def)
    have jd: "jday (y + 1) 1 1 = jyear_start (y + 1)" by (simp add: jday_def month_offset_def)
    have "940055 \<le> n"
      using jalali_day_window(1) [OF assms, of 0] jyear_succ [of y] m(3) by (simp add: next_year jd jyear_start_def [of 1300])
    then have n: "0 \<le> n - 940055" by simp
    obtain gy gm gd where g: "gregorian_of_days 1600 (n - 940055) = (gy, gm, gd)" "gday gy gm gd = n - 940055 + 940055"
      by (rule gregorian_of_days_date [OF n])
    have "gregorianToJalali gy gm gd = (y + 1, 1, 1)"
      using jalali_of_jday [of "y + 1" 1 1] assms g(2) next_year
      by (simp add: gregorianToJalali_def jalali_date_def jmonth_len_def)
    with g(1) assms False show ?thesis
      by (simp add: isValidJalali_def m jalaliToGregorian_days n_def [symmetric])
  qed
qed

lemma toStorageDate_iso:
  assumes "gregorian_date y m d" "1900 \<le> y" "y \<le> 2199"
  shows "toStorageDate (DateText (date_text ''-'' y m d)) = Some (date_text ''-'' y m d)"
proof -
  have t: "text_date y m d" using assms by (simp add: gregorian_text)
  have "is_separator CHR ''-''" by (simp add: is_separator_def)
  note e = english_text [OF t this] date_parts_text [OF t this]
  show ?thesis
    unfolding toStorageDate_def Let_def date_input.case e(1,2) using e(3,4) assms
    by (simp add: isValidGregorian_date GREGORIAN_MIN_YEAR_def GREGORIAN_MAX_YEAR_def)
qed

lemma toStorageDate_jalali:
  assumes "jalali_date y m d" "1300 \<le> y" "y \<le> 1500"
  shows "toStorageDate (DateText (date_text ''/'' y m d)) =
    (case jalaliToGregorian y m d of (gy, gm, gd) \<Rightarrow> Some (date_text ''-'' gy gm gd))"
proof -
  have t: "text_date y m d" using assms by (simp add: jalali_text)
  have "is_separator CHR ''/''" by (simp add: is_separator_def)
  note e = english_text [OF t this] date_parts_text [OF t this]
  show ?thesis
    unfolding toStorageDate_def Let_def date_input.case e(1,2) using e(3,4) assms
    by (simp add: isValidJalali_date GREGORIAN_MIN_YEAR_def GREGORIAN_MAX_YEAR_def JALALI_MIN_YEAR_def JALALI_MAX_YEAR_def)
qed

text \<open>Every result of \<open>toStorageDate\<close> but the empty one is the ISO text of a Gregorian date.\<close>

lemma toStorageDate_cases:
  assumes "toStorageDate v = Some s" "s \<noteq> ''''"
  obtains gy gm gd where "s = date_text ''-'' gy gm gd" "gregorian_date gy gm gd" "1900 \<le> gy" "gy \<le> 2199"
proof (cases v)
  case (DateText u)
  with assms obtain y m d where p: "date_parts (js_trim (toEnglishDigits u)) = Some (y, m, d)" and
    s: "(if 1900 \<le> y \<and> y \<le> 2199 then if gregorian_date y m d then Some (date_text ''-'' y m d) else None
      else if 1300 \<le> y \<and> y \<le> 1500 then if \<not> isValidJalali y m d then None
        else case jalaliToGregorian y m d of (gy, gm, gd) \<Rightarrow> Some (date_text ''-'' gy gm gd) else None) = Some s"
    by (auto simp: toStorageDate_def Let_def isValidGregorian_date GREGORIAN_MIN_YEAR_def GREGORIAN_MAX_YEAR_def JALALI_MIN_YEAR_def JALALI_MAX_YEAR_def
        split: option.splits if_splits)
  show thesis
  proof (cases "1900 \<le> y \<and> y \<le> 2199")
    case True
    with s that [of y m d] show thesis by (auto split: if_splits)
  next
    case False
    with s have y: "1300 \<le> y" "y \<le> 1500" and v: "isValidJalali y m d"
      and r: "(case jalaliToGregorian y m d of (gy, gm, gd) \<Rightarrow> Some (date_text ''-'' gy gm gd)) = Some s"
      by (auto split: if_splits)
    from v have "jalali_date y m d" by (simp add: isValidJalali_date [OF y])
    from jalali_to_gregorian [OF this y] obtain gy gm gd where
      "jalaliToGregorian y m d = (gy, gm, gd)" "gregorian_date gy gm gd" "1900 \<le> gy" "gy \<le> 2199" by metis
    with r that [of gy gm gd] show thesis by simp
  qed
qed (use assms in \<open>simp_all add: toStorageDate_def\<close>)

lemma isoToJalaliDate_iso:
  assumes "toStorageDate v = Some (date_text ''-'' gy gm gd)" "gregorian_date gy gm gd" "1900 \<le> gy" "gy \<le> 2199"
  shows "isoToJalaliDate v = (case gregorianToJalali gy gm gd of (jy, jm, jd) \<Rightarrow> date_text ''/'' jy jm jd)"
proof -
  have t: "text_date gy gm gd" using assms by (simp add: gregorian_text)
  have "is_separator CHR ''-''" by (simp add: is_separator_def)
  from english_text(3) [OF t this] show ?thesis
    unfolding isoToJalaliDate_def assms(1) option.case split_text [OF t] by simp
qed

section \<open>The order of texts is the order of days\<close>

lemma js_less_digit [simp]:
  "j < 10 \<Longrightarrow> k < 10 \<Longrightarrow> js_less (digit j # s) (digit k # t) \<longleftrightarrow> j < k \<or> (j = k \<and> js_less s t)"
  by auto

lemma js_less_same: "js_less (c # s) (c # t) \<longleftrightarrow> js_less s t"
  by simp

lemma two_digits_order:
  assumes "b < 10" "b' < (10::nat)"
  shows "10 * int a + int b < 10 * int a' + int b' \<longleftrightarrow> a < a' \<or> (a = a' \<and> b < b')"
    "10 * int a + int b = 10 * int a' + int b' \<longleftrightarrow> a = a' \<and> b = b'"
proof -
  consider "a < a'" | "a = a'" | "a' < a" by linarith
  then show "10 * int a + int b < 10 * int a' + int b' \<longleftrightarrow> a < a' \<or> (a = a' \<and> b < b')"
    using assms by cases simp_all
  consider "a < a'" | "a = a'" | "a' < a" by linarith
  then show "10 * int a + int b = 10 * int a' + int b' \<longleftrightarrow> a = a' \<and> b = b'"
    using assms by cases simp_all
qed

lemma four_digits_order:
  assumes "b < 10" "c < 10" "d < 10" "b' < 10" "c' < 10" "d' < (10::nat)"
  shows "1000 * int a + 100 * int b + 10 * int c + int d < 1000 * int a' + 100 * int b' + 10 * int c' + int d' \<longleftrightarrow>
      a < a' \<or> (a = a' \<and> (b < b' \<or> (b = b' \<and> (c < c' \<or> (c = c' \<and> d < d')))))"
    "1000 * int a + 100 * int b + 10 * int c + int d = 1000 * int a' + 100 * int b' + 10 * int c' + int d' \<longleftrightarrow>
      a = a' \<and> b = b' \<and> c = c' \<and> d = d'"
proof -
  have e: "1000 * int a + 100 * int b + 10 * int c + int d = 10 * int (100 * a + 10 * b + c) + int d" for a b c d by simp
  have f: "(100 * a + 10 * b + c < 100 * a' + 10 * b' + c') = (10 * int (10 * a + b) + int c < 10 * int (10 * a' + b') + int c')"
    "(100 * a + 10 * b + c = 100 * a' + 10 * b' + c') = (10 * int (10 * a + b) + int c = 10 * int (10 * a' + b') + int c')" by auto
  have g: "(10 * a + b < 10 * a' + b') = (10 * int a + int b < 10 * int a' + int b')"
    "(10 * a + b = 10 * a' + b') = (10 * int a + int b = 10 * int a' + int b')" by auto
  show "1000 * int a + 100 * int b + 10 * int c + int d < 1000 * int a' + 100 * int b' + 10 * int c' + int d' \<longleftrightarrow>
      a < a' \<or> (a = a' \<and> (b < b' \<or> (b = b' \<and> (c < c' \<or> (c = c' \<and> d < d')))))"
    "1000 * int a + 100 * int b + 10 * int c + int d = 1000 * int a' + 100 * int b' + 10 * int c' + int d' \<longleftrightarrow>
      a = a' \<and> b = b' \<and> c = c' \<and> d = d'"
    unfolding e two_digits_order [OF assms(3,6)] f two_digits_order [OF assms(2,5)] g two_digits_order [OF assms(1,4)] by auto
qed

lemma js_less_text:
  assumes "text_date y m d" "text_date y' m' d'"
  shows "js_less (date_text [c] y m d) (date_text [c] y' m' d') \<longleftrightarrow> y < y' \<or> (y = y' \<and> (m < m' \<or> (m = m' \<and> d < d')))"
proof -
  obtain d1 d2 d3 d4 d5 d6 d7 d8 where f: "date_text [c] y m d = [digit d1, digit d2, digit d3, digit d4, c, digit d5, digit d6, c, digit d7, digit d8]"
    and k: "d1 < 10" "d2 < 10" "d3 < 10" "d4 < 10" "d5 < 10" "d6 < 10" "d7 < 10" "d8 < 10"
    and v: "y = 1000 * int d1 + 100 * int d2 + 10 * int d3 + int d4" "m = 10 * int d5 + int d6" "d = 10 * int d7 + int d8"
    by (rule date_text_form [OF assms(1)])
  obtain e1 e2 e3 e4 e5 e6 e7 e8 where f': "date_text [c] y' m' d' = [digit e1, digit e2, digit e3, digit e4, c, digit e5, digit e6, c, digit e7, digit e8]"
    and k': "e1 < 10" "e2 < 10" "e3 < 10" "e4 < 10" "e5 < 10" "e6 < 10" "e7 < 10" "e8 < 10"
    and v': "y' = 1000 * int e1 + 100 * int e2 + 10 * int e3 + int e4" "m' = 10 * int e5 + int e6" "d' = 10 * int e7 + int e8"
    by (rule date_text_form [OF assms(2)])
  have lt4: "y < y' \<longleftrightarrow> d1 < e1 \<or> (d1 = e1 \<and> (d2 < e2 \<or> (d2 = e2 \<and> (d3 < e3 \<or> (d3 = e3 \<and> d4 < e4)))))"
    unfolding v v' by (rule four_digits_order(1)) (fact k k')+
  have eq4: "y = y' \<longleftrightarrow> d1 = e1 \<and> d2 = e2 \<and> d3 = e3 \<and> d4 = e4"
    unfolding v v' by (rule four_digits_order(2)) (fact k k')+
  have m: "m < m' \<longleftrightarrow> d5 < e5 \<or> (d5 = e5 \<and> d6 < e6)" "m = m' \<longleftrightarrow> d5 = e5 \<and> d6 = e6"
    unfolding v v' using k k' by (simp_all add: two_digits_order)
  have d: "d < d' \<longleftrightarrow> d7 < e7 \<or> (d7 = e7 \<and> d8 < e8)" unfolding v v' using k k' by (simp add: two_digits_order)
  show ?thesis unfolding f f' js_less_digit [OF k(1) k'(1)] js_less_digit [OF k(2) k'(2)] js_less_digit [OF k(3) k'(3)]
      js_less_digit [OF k(4) k'(4)] js_less_digit [OF k(5) k'(5)] js_less_digit [OF k(6) k'(6)] js_less_digit [OF k(7) k'(7)]
      js_less_digit [OF k(8) k'(8)] js_less_same lt4 eq4 m d
    by auto
qed

definition month_start :: "int \<Rightarrow> int \<Rightarrow> int" where
  "month_start gy gm = gDaysBeforeMonth ! nat (gm - 1) + (if gm > 2 \<and> gregorian_leap gy then 1 else 0)"

lemma month_start_succ:
  assumes "1 \<le> gm" "gm < 12" shows "month_start gy (gm + 1) = month_start gy gm + gmonth_len gy gm"
  using months_12 [OF assms(1) less_imp_le [OF assms(2)]] assms
  by (elim disjE) (simp_all add: month_start_def gmonth_len_def gDaysBeforeMonth_def sal_a_def)

lemma month_start_mono:
  assumes "1 \<le> gm" "gm < gm'" "gm' \<le> 12" shows "month_start gy gm + gmonth_len gy gm \<le> month_start gy gm'"
proof -
  have "gm + 1 + int n \<le> 12 \<Longrightarrow> month_start gy (gm + 1) \<le> month_start gy (gm + 1 + int n)" for n
  proof (induction n)
    case (Suc n)
    then show ?case
      using month_start_succ [of "gm + 1 + int n" gy] gmonth_len_bounds [of "gm + 1 + int n" gy] assms(1) by (simp add: algebra_simps)
  qed simp
  from this [of "nat (gm' - gm - 1)"] month_start_succ [of gm gy] assms show ?thesis by simp
qed

lemma gday_order:
  assumes "gregorian_date y m d" "gregorian_date y' m' d'" "0 \<le> y" "0 \<le> y'"
  shows "gday y m d < gday y' m' d' \<longleftrightarrow> y < y' \<or> (y = y' \<and> (m < m' \<or> (m = m' \<and> d < d')))"
proof -
  note b = gyear_day_bounds [OF assms(1)] and b' = gyear_day_bounds [OF assms(2)]
  have day: "gyear_day gy gm gd = month_start gy gm + gd - 1" for gy gm gd by (simp add: gyear_day_def month_start_def)
  from assms have m: "1 \<le> m" "m \<le> 12" "1 \<le> d" "d \<le> gmonth_len y m" "1 \<le> m'" "m' \<le> 12" "1 \<le> d'" "d' \<le> gmonth_len y' m'"
    by (simp_all add: gregorian_date_def)
  have less: "gday y m d < gday y' m' d'" if "y < y'"
    using gyear_start_mono [OF assms(3) that] b b' assms(3,4) by (simp add: gday_year)
  have more: "gday y' m' d' < gday y m d" if "y' < y"
    using gyear_start_mono [OF assms(4) that] b b' assms(3,4) by (simp add: gday_year)
  have month: "gday y m d < gday y m' d' \<longleftrightarrow> m < m' \<or> (m = m' \<and> d < d')" if "y = y'"
  proof -
    consider "m < m'" | "m = m'" | "m' < m" by linarith
    then show ?thesis
    proof cases
      case 1
      with month_start_mono [of m m' y] m assms(3) that show ?thesis by (simp add: gday_year day)
    next
      case 2
      with assms(3) show ?thesis by (simp add: gday_year day)
    next
      case 3
      with month_start_mono [of m' m y] m assms(3) that show ?thesis by (simp add: gday_year day)
    qed
  qed
  consider "y < y'" | "y = y'" | "y' < y" by linarith
  then show ?thesis using less more month by cases auto
qed

lemma gday_inject:
  assumes "gregorian_date y m d" "gregorian_date y' m' d'" "0 \<le> y" "0 \<le> y'" "gday y m d = gday y' m' d'"
  shows "y = y' \<and> m = m' \<and> d = d'"
  using gday_order [OF assms(1-4)] gday_order [OF assms(2,1,4,3)] assms(5) by auto

section \<open>The days of a fiscal year\<close>

lemma toStorageDate_jalali_text:
  assumes "text_date y m d" "1300 \<le> y" "y \<le> 1500"
  shows "toStorageDate (DateText (date_text ''/'' y m d)) =
    (if jalali_date y m d then (case jalaliToGregorian y m d of (gy, gm, gd) \<Rightarrow> Some (date_text ''-'' gy gm gd)) else None)"
proof -
  have "is_separator CHR ''/''" by (simp add: is_separator_def)
  note e = english_text [OF assms(1) this] date_parts_text [OF assms(1) this]
  show ?thesis
    unfolding toStorageDate_def Let_def date_input.case e(1,2) using e(3,4) assms
    by (simp add: isValidJalali_date GREGORIAN_MIN_YEAR_def GREGORIAN_MAX_YEAR_def JALALI_MIN_YEAR_def JALALI_MAX_YEAR_def)
qed

lemma pad2_values: "pad2 (nat 1) = ''01''" "pad2 (nat 12) = ''12''" "pad2 (nat 29) = ''29''" "pad2 (nat 30) = ''30''"
  by code_simp+

text \<open>\<open>storage_day s n\<close>: the text is the stored form of the day with number \<open>n\<close>.\<close>

definition storage_day :: "string \<Rightarrow> int \<Rightarrow> bool" where
  "storage_day s n \<longleftrightarrow> (\<exists>y m d. s = date_text ''-'' y m d \<and> gregorian_date y m d \<and> 1900 \<le> y \<and> y \<le> 2199 \<and> gday y m d = n)"

lemma storage_day_less:
  assumes "storage_day s n" "storage_day t k" shows "js_less s t \<longleftrightarrow> n < k"
proof -
  obtain y m d y' m' d' where s: "s = date_text ''-'' y m d" "gregorian_date y m d" "1900 \<le> y" "y \<le> 2199" "gday y m d = n"
    and t: "t = date_text ''-'' y' m' d'" "gregorian_date y' m' d'" "1900 \<le> y'" "y' \<le> 2199" "gday y' m' d' = k"
    using assms unfolding storage_day_def by blast
  have "text_date y m d" "text_date y' m' d'" using s t by (simp_all add: gregorian_text)
  from js_less_text [OF this] gday_order [OF s(2) t(2)] s t show ?thesis by simp
qed

lemma storage_day_unique: "storage_day s n \<Longrightarrow> storage_day s k \<Longrightarrow> n = k"
proof (rule ccontr)
  assume d: "storage_day s n" "storage_day s k" "n \<noteq> k"
  have "\<not> js_less s s" by (induction s) auto
  with storage_day_less [OF d(1,2)] storage_day_less [OF d(2,1)] d(3) show False by linarith
qed

lemma storage_day_text:
  assumes "storage_day s n" "storage_day t n" shows "s = t"
proof -
  obtain y m d y' m' d' where s: "s = date_text ''-'' y m d" "gregorian_date y m d" "1900 \<le> y" "gday y m d = n"
    and t: "t = date_text ''-'' y' m' d'" "gregorian_date y' m' d'" "1900 \<le> y'" "gday y' m' d' = n"
    using assms unfolding storage_day_def by blast
  from gday_inject [OF s(2) t(2)] s t show ?thesis by simp
qed

lemma toStorageDate_day:
  assumes "toStorageDate v = Some s" "s \<noteq> ''''" obtains n where "storage_day s n"
  using toStorageDate_cases [OF assms] unfolding storage_day_def by metis

lemma storage_day_stored:
  assumes "storage_day s n" shows "toStorageDate (DateText s) = Some s" "s \<noteq> ''''"
  using assms toStorageDate_iso english_text(3) [OF gregorian_text] unfolding storage_day_def
  by (auto simp: is_separator_def)

lemma storage_day_jalali:
  assumes "jalali_date y m d" "1300 \<le> y" "y \<le> 1500"
  obtains s where "toStorageDate (DateText (date_text ''/'' y m d)) = Some s" "storage_day s (jday y m d)"
proof -
  obtain gy gm gd where "jalaliToGregorian y m d = (gy, gm, gd)" "gregorian_date gy gm gd" "gday gy gm gd = jday y m d"
    "1900 \<le> gy" "gy \<le> 2199" by (rule jalali_to_gregorian [OF assms])
  with toStorageDate_jalali [OF assms] show thesis
    by (intro that [of "date_text ''-'' gy gm gd"]) (auto simp: storage_day_def)
qed

lemma jalaliYearBounds_days:
  assumes "1300 \<le> jy" "jy < 1500"
  obtains b where "jalaliYearBounds jy = Some b" "storage_day (firstDay b) (jyear_start jy)"
    "storage_day (lastDay b) (jyear_start (jy + 1) - 1)" "storage_day (nextFirstDay b) (jyear_start (jy + 1))"
proof -
  have jan: "jalali_date y 1 1" "jday y 1 1 = jyear_start y" for y
    by (simp_all add: jalali_date_def jmonth_len_def jday_def month_offset_def)
  obtain s1 where s1: "toStorageDate (DateText (date_text ''/'' jy 1 1)) = Some s1" "storage_day s1 (jyear_start jy)"
    using storage_day_jalali [OF jan(1), of jy] assms by (auto simp: jan(2))
  obtain s3 where s3: "toStorageDate (DateText (date_text ''/'' (jy + 1) 1 1)) = Some s3" "storage_day s3 (jyear_start (jy + 1))"
    using storage_day_jalali [OF jan(1), of "jy + 1"] assms by (auto simp: jan(2))
  have len: "jyear_start (jy + 1) - 1 = jday jy 12 (if jleap jy then 30 else 29)"
    using jyear_succ [of jy] by (simp add: jday_def month_offset_def)
  obtain s2 where s2: "text_or (toStorageDate (DateText (date_text ''/'' jy 12 30))) (toStorageDate (DateText (date_text ''/'' jy 12 29))) = Some s2"
    "storage_day s2 (jyear_start (jy + 1) - 1)"
  proof (cases "jleap jy")
    case True
    then have "jalali_date jy 12 30" by (simp add: jalali_date_def jmonth_len_def)
    from storage_day_jalali [OF this assms(1) less_imp_le [OF assms(2)]] obtain s where
      "toStorageDate (DateText (date_text ''/'' jy 12 30)) = Some s" "storage_day s (jday jy 12 30)" by blast
    with True storage_day_stored(2) that [of s] show thesis by (simp add: text_or_def len)
  next
    case False
    then have j: "\<not> jalali_date jy 12 30" "jalali_date jy 12 29" by (simp_all add: jalali_date_def jmonth_len_def)
    have "text_date jy 12 30" using assms by (simp add: text_date_def)
    from toStorageDate_jalali_text [OF this] j(1) assms have "toStorageDate (DateText (date_text ''/'' jy 12 30)) = None" by simp
    moreover from storage_day_jalali [OF j(2) assms(1) less_imp_le [OF assms(2)]] obtain s where
      "toStorageDate (DateText (date_text ''/'' jy 12 29)) = Some s" "storage_day s (jday jy 12 29)" by blast
    ultimately show thesis using False that [of s] by (simp add: text_or_def len)
  qed
  have t: "show_nat (nat y) @ ''/01/01'' = date_text ''/'' y 1 1" "show_nat (nat y) @ ''/12/30'' = date_text ''/'' y 12 30"
    "show_nat (nat y) @ ''/12/29'' = date_text ''/'' y 12 29" for y
    unfolding date_text_def pad2_values by simp_all
  have e: "s1 \<noteq> ''''" "s2 \<noteq> ''''" "s3 \<noteq> ''''" using s1 s2 s3 storage_day_stored(2) by blast+
  have "jalaliYearBounds jy = Some \<lparr>firstDay = s1, lastDay = s2, nextFirstDay = s3\<rparr>"
    unfolding jalaliYearBounds_def t Let_def s1(1) s2(1) s3(1) using assms e by (simp add: text_or_def JALALI_MIN_YEAR_def JALALI_MAX_YEAR_def)
  from that [OF this, unfolded year_bounds.select_convs, OF s1(2) s2(2) s3(2)] show thesis .
qed

lemma clock_same: "clock_jalaliToGregorian = jalaliToGregorian"
  by (intro ext) (simp add: clock_jalaliToGregorian_def jalaliToGregorian_def month_offset_def Let_def)

lemma nowruz_window:
  assumes "1899 \<le> y" "y \<le> 2200" shows "gyear_start y \<le> jyear_start (y - 621) \<and> jyear_start (y - 621) < gyear_start (y + 1)"
proof -
  define q r s where "q = (y + 974) div 33" and "r = (y + 974) mod 33" and "s = (r + 3) div 4"
  have j: "33 * q + r = y + 974" "0 \<le> r" "r < 33" "4 * s \<le> r + 3" "r + 3 < 4 * s + 4"
    by (simp_all add: q_def r_def s_def)
  define a b c where "a = (y + 3) div 4" and "b = (y + 99) div 100" and "c = (y + 399) div 400"
  have g: "4 * a \<le> y + 3" "y + 3 < 4 * a + 4" "100 * b \<le> y + 99" "y + 99 < 100 * b + 100" "400 * c \<le> y + 399" "y + 399 < 400 * c + 400"
    unfolding a_def b_def c_def by linarith+
  have e: "y - 621 + 1595 = y + 974" by simp
  have js: "jyear_start (y - 621) = 365 * (y + 974) + 8 * q + s" unfolding jyear_start_def e q_def r_def s_def by (rule refl)
  have gs: "gyear_start y = 355667 + 365 * y + a - b + c" by (simp add: gyear_start_def a_def b_def c_def)
  have m: "365 * (y + 974) = 365 * y + 355510" by simp
  have "gyear_start y \<le> jyear_start (y - 621)" unfolding js gs m using assms j g by linarith
  moreover have "jyear_start (y - 621) < gyear_start y + 365" unfolding js gs m using assms j g by linarith
  ultimately show ?thesis using gyear_succ [of y] assms by (auto split: if_splits)
qed

lemma nowruz:
  assumes "1900 \<le> y" "y \<le> 2199"
  obtains m d where "clock_jalaliToGregorian (y - 621) 1 1 = (y, m, d)" "gregorian_date y m d" "gday y m d = jyear_start (y - 621)"
proof -
  have j: "jday (y - 621) 1 1 = jyear_start (y - 621)" by (simp add: jday_def month_offset_def)
  have "gyear_start 1900 \<le> gyear_start y" using gyear_start_mono [of 1900 y] assms by (cases "y = 1900") (auto split: if_splits)
  then have n: "0 \<le> jyear_start (y - 621) - 940055" using nowruz_window [of y] assms by (simp add: gyear_start_def [of 1900])
  obtain gy gm gd where g: "gregorian_of_days 1600 (jyear_start (y - 621) - 940055) = (gy, gm, gd)" "gregorian_date gy gm gd" "1600 \<le> gy"
    "gday gy gm gd = jyear_start (y - 621) - 940055 + 940055" by (rule gregorian_of_days_date [OF n])
  have w: "gyear_start y \<le> gday gy gm gd" "gday gy gm gd < gyear_start (y + 1)" using nowruz_window [of y] assms g(4) by simp_all
  have gd: "gday gy gm gd = gyear_start gy + gyear_day gy gm gd" using g(3) by (simp add: gday_year)
  have "\<not> gy < y" using gyear_start_mono [of gy y] g(3) gyear_day_bounds [OF g(2)] w gd by linarith
  moreover have "\<not> y < gy"
  proof
    assume "y < gy"
    then have "gyear_start (y + 1) \<le> gyear_start gy"
      using gyear_start_mono [of "y + 1" gy] assms by (cases "gy = y + 1") (auto split: if_splits)
    with w gd gyear_day_bounds(1) [OF g(2)] show False by simp
  qed
  ultimately have "gy = y" by simp
  with g assms show thesis by (intro that [of gm gd]) (simp_all add: clock_same jalaliToGregorian_days j)
qed

lemma digits_1345: "CHR ''1'' = digit 1" "CHR ''3'' = digit 3" "CHR ''4'' = digit 4" "CHR ''5'' = digit 5"
  by code_simp+

lemma iso_prefix_text:
  assumes "gregorian_date y m d" "1900 \<le> y" "y \<le> 2199"
  shows "jalali_prefix (date_text ''-'' y m d) = None" "iso_prefix (date_text ''-'' y m d) = Some (y, m, d)"
proof -
  have "text_date y m d" using assms by (simp add: gregorian_text)
  then obtain d1 d2 d3 d4 d5 d6 d7 d8 where f: "date_text ''-'' y m d = [digit d1, digit d2, digit d3, digit d4, CHR ''-'', digit d5, digit d6, CHR ''-'', digit d7, digit d8]"
    and k: "d1 < 10" "d2 < 10" "d3 < 10" "d4 < 10" "d5 < 10" "d6 < 10" "d7 < 10" "d8 < 10"
    and v: "y = 1000 * int d1 + 100 * int d2 + 10 * int d3 + int d4" "m = 10 * int d5 + int d6" "d = 10 * int d7 + int d8"
    by (rule date_text_form)
  have "d1 = 1 \<longrightarrow> d2 \<noteq> 3 \<and> d2 \<noteq> 4 \<and> d2 \<noteq> 5" using assms(2) k(3,4) v(1) by auto
  then show "jalali_prefix (date_text ''-'' y m d) = None"
    unfolding f jalali_prefix_def digits_1345 using k by (simp add: take_digits_4)
  show "iso_prefix (date_text ''-'' y m d) = Some (y, m, d)"
    unfolding f iso_prefix_def using k by (simp add: take_digits_4 take_digits_2 number_of_2 number_of_4 v)
qed

lemma resolve_year_window:
  assumes "storage_day s n"
  shows "jyear_start (resolveJalaliFiscalYear cur s) \<le> n \<and> n < jyear_start (resolveJalaliFiscalYear cur s + 1)"
proof -
  obtain y m d where s: "s = date_text ''-'' y m d" "gregorian_date y m d" "1900 \<le> y" "y \<le> 2199" "gday y m d = n"
    using assms unfolding storage_day_def by blast
  have t: "text_date y m d" using s by (simp add: gregorian_text)
  have "is_separator CHR ''-''" by (simp add: is_separator_def)
  note e = english_text [OF t this]
  obtain nm nd where nr: "clock_jalaliToGregorian (y - 621) 1 1 = (y, nm, nd)" "gregorian_date y nm nd"
    "gday y nm nd = jyear_start (y - 621)" by (rule nowruz [OF s(3,4)])
  have r: "resolveJalaliFiscalYear cur s = (if m < nm \<or> (m = nm \<and> d < nd) then y - 621 - 1 else y - 621)"
    unfolding s(1) resolveJalaliFiscalYear_def Let_def e(2) iso_prefix_text [OF s(2-4)] using e(3) nr(1) by simp
  have o: "m < nm \<or> (m = nm \<and> d < nd) \<longleftrightarrow> n < jyear_start (y - 621)"
    using gday_order [OF s(2) nr(2)] s(3,5) nr(3) by simp
  have g: "n = gyear_start y + gyear_day y m d" using s(3,5) by (simp add: gday_year)
  have "jyear_start (y - 622) < gyear_start y" using nowruz_window [of "y - 1"] s(3,4) by simp
  moreover have "gyear_start (y + 1) \<le> jyear_start (y - 620)" using nowruz_window [of "y + 1"] s(3,4) by simp
  ultimately show ?thesis
    unfolding r o using g gyear_day_bounds [OF s(2)] gyear_succ [of y] s(3) by (auto simp: algebra_simps split: if_splits)
qed

lemma jyear_unique:
  assumes "jyear_start a \<le> n" "n < jyear_start (a + 1)" "jyear_start b \<le> n" "n < jyear_start (b + 1)"
  shows "a = b"
proof -
  have le: "jyear_start (x + 1) \<le> jyear_start z" if "x < z" for x z
    using jyear_start_mono [OF that] jyear_succ [of x] by simp
  from le [of a b] le [of b a] assms show ?thesis by linarith
qed

lemma first_storage_days:
  "storage_day ''1921-03-21'' (jyear_start 1300)" "storage_day ''2122-03-20'' (jyear_start 1501 - 1)"
proof -
  have t: "''1921-03-21'' = date_text ''-'' 1921 3 21" "''2122-03-20'' = date_text ''-'' 2122 3 20" by code_simp+
  have "gregorian_date 1921 3 21" "gday 1921 3 21 = jyear_start 1300" "gregorian_date 2122 3 20" "gday 2122 3 20 = jyear_start 1501 - 1"
    by (simp_all add: gregorian_date_def gmonth_len_def sal_a_def gday_def gDaysBeforeMonth_def jyear_start_def)
  then show "storage_day ''1921-03-21'' (jyear_start 1300)" "storage_day ''2122-03-20'' (jyear_start 1501 - 1)"
    unfolding storage_day_def using t by (intro exI conjI; simp)+
qed

lemma storage_day_jalali_form:
  assumes "storage_day s n"
  obtains y m d where "jalali_of_day n = (y, m, d)" "jalali_date y m d" "jday y m d = n" "1000 \<le> y" "y < 1900"
    "isoToJalaliDate (DateText s) = date_text ''/'' y m d"
proof -
  obtain gy gm gd where s: "s = date_text ''-'' gy gm gd" "gregorian_date gy gm gd" "1900 \<le> gy" "gy \<le> 2199" "gday gy gm gd = n"
    using assms unfolding storage_day_def by blast
  have g: "n = gyear_start gy + gyear_day gy gm gd" using s(3,5) by (simp add: gday_year)
  have "gyear_start 1900 \<le> gyear_start gy" using gyear_start_mono [of 1900 gy] s(3) by (cases "gy = 1900") (auto split: if_splits)
  then have lo: "gyear_start 1900 \<le> n" using g gyear_day_bounds(1) [OF s(2)] by simp
  have "gyear_start gy + 365 + (if gregorian_leap gy then 1 else 0) \<le> gyear_start 2200" using gyear_start_mono [of gy 2200] s(3,4) by simp
  then have hi: "n < gyear_start 2200" using g gyear_day_bounds(2) [OF s(2)] by simp
  have n: "0 \<le> n" using lo by (simp add: gyear_start_def)
  obtain y m d where j: "jalali_of_day n = (y, m, d)" "jalali_date y m d" "jday y m d = n" "- 1595 \<le> y"
    by (rule jalali_of_day_date [OF n])
  note b = month_offset_bounds [OF j(2)]
  have jd: "n = jyear_start y + (month_offset m + d - 1)" using j(3) by (simp add: jday_def)
  have "1000 \<le> y"
  proof (rule ccontr)
    assume "\<not> 1000 \<le> y"
    then have "jyear_start y + 365 + (if jleap y then 1 else 0) \<le> jyear_start 1000" using jyear_start_mono [of y 1000] by simp
    moreover have "jyear_start 1000 \<le> gyear_start 1900" by (simp add: jyear_start_def gyear_start_def)
    ultimately show False using lo jd b(2) by simp
  qed
  moreover have "y < 1900"
  proof (rule ccontr)
    assume "\<not> y < 1900"
    then have "jyear_start 1899 + 365 + (if jleap 1899 then 1 else 0) \<le> jyear_start y" using jyear_start_mono [of 1899 y] by simp
    moreover have "gyear_start 2200 \<le> jyear_start 1899" by (simp add: jyear_start_def gyear_start_def)
    ultimately show False using hi jd b(1) by (simp split: if_splits)
  qed
  moreover have "isoToJalaliDate (DateText s) = date_text ''/'' y m d"
    using isoToJalaliDate_iso [of "DateText s", OF _ s(2-4)] toStorageDate_iso [OF s(2-4)] j(1) s(5)
    by (simp add: s(1) gregorianToJalali_def)
  ultimately show thesis using j by (intro that [of y m d]) simp_all
qed

lemma isoToJalaliDate_stored:
  assumes "toStorageDate v = Some s" "s \<noteq> ''''"
  shows "isoToJalaliDate (DateText s) = isoToJalaliDate v"
proof -
  obtain n where "storage_day s n" by (rule toStorageDate_day [OF assms])
  from storage_day_stored(1) [OF this] assms(1) show ?thesis unfolding isoToJalaliDate_def by simp
qed

lemma jyear_of_day:
  assumes "jalali_date y m d" "jday y m d = n"
  shows "n < jyear_start k \<longleftrightarrow> y < k"
proof -
  note b = month_offset_bounds [OF assms(1)]
  have jd: "n = jyear_start y + (month_offset m + d - 1)" using assms(2) by (simp add: jday_def)
  show ?thesis using jyear_start_mono [of y k] jyear_start_mono [of k y] jd b
    by (cases y k rule: linorder_cases) (simp_all split: if_splits)
qed

section \<open>The properties\<close>

text \<open>
  C38: the round trip of a date. Whatever spelling of a date the server accepts (Jalali or Gregorian,
  Persian digits, a time behind it), the stored text is accepted unchanged, is shown as the same
  Jalali date as the input, and that Jalali text is stored as the same day again, for every day the
  Jalali years 1300 to 1500 hold. A Gregorian day before or after these years is stored, but the
  Jalali text it is shown with is refused.
\<close>

theorem stored_date_roundtrip:
  assumes "toStorageDate v = Some s" "s \<noteq> ''''"
  shows "isStorageDate s \<and> isoToJalaliDate (DateText s) = isoToJalaliDate v \<and>
    toStorageDate (DateText (isoToJalaliDate v)) =
      (if js_less s ''1921-03-21'' \<or> js_less ''2122-03-20'' s then None else Some s)"
proof -
  obtain n where n: "storage_day s n" by (rule toStorageDate_day [OF assms])
  note same = isoToJalaliDate_stored [OF assms]
  obtain y m d where j: "jalali_of_day n = (y, m, d)" "jalali_date y m d" "jday y m d = n" "1000 \<le> y" "y < 1900"
    and t: "isoToJalaliDate (DateText s) = date_text ''/'' y m d" by (rule storage_day_jalali_form [OF n])
  note year = jyear_of_day [OF j(2,3)]
  have before: "js_less s ''1921-03-21'' \<longleftrightarrow> y < 1300"
    using storage_day_less [OF n first_storage_days(1)] year [of 1300] by simp
  have after: "js_less ''2122-03-20'' s \<longleftrightarrow> 1500 < y"
    using storage_day_less [OF first_storage_days(2) n] year [of 1501] by auto
  have "toStorageDate (DateText (date_text ''/'' y m d)) = (if y < 1300 \<or> 1500 < y then None else Some s)"
  proof (cases "y < 1300 \<or> 1500 < y")
    case True
    have x: "text_date y m d" using j by (simp add: jalali_text)
    have "is_separator CHR ''/''" by (simp add: is_separator_def)
    note e = english_text [OF x this] date_parts_text [OF x this]
    show ?thesis unfolding toStorageDate_def Let_def date_input.case e(1,2) using e(3,4) True j(5)
      by (auto simp: GREGORIAN_MIN_YEAR_def JALALI_MIN_YEAR_def JALALI_MAX_YEAR_def)
  next
    case False
    then obtain u where u: "toStorageDate (DateText (date_text ''/'' y m d)) = Some u" "storage_day u n"
      using storage_day_jalali [OF j(2)] j(3) by (metis not_less)
    have "u = s" by (rule storage_day_text [OF u(2) n])
    with u False show ?thesis by simp
  qed
  then show ?thesis
    using storage_day_stored [OF n] by (auto simp: same [symmetric] t before after isStorageDate_def)
qed


text \<open>
  C39: a fiscal year is a range of stored dates. The year the server computes of a stored date (the
  Gregorian year less 621, or one less before Nowruz) is \<open>jy\<close> exactly for the dates whose text lies
  between the first and the last day of \<open>jy\<close>, as the queries of the year-end closing compare texts,
  and exactly for those before the first day of the next year: no date falls between two years.
\<close>

theorem fiscal_year_is_date_range:
  assumes "isStorageDate s" "1300 \<le> jy" "jy < 1500"
  shows "\<exists>b. jalaliYearBounds jy = Some b \<and>
    (resolveJalaliFiscalYear current s = jy \<longleftrightarrow> \<not> js_less s (firstDay b) \<and> \<not> js_less (lastDay b) s) \<and>
    (resolveJalaliFiscalYear current s = jy \<longleftrightarrow> \<not> js_less s (firstDay b) \<and> js_less s (nextFirstDay b))"
proof -
  from assms(1) have "toStorageDate (DateText s) = Some s" "s \<noteq> ''''" by (simp_all add: isStorageDate_def)
  then obtain n where n: "storage_day s n" by (rule toStorageDate_day)
  obtain b where b: "jalaliYearBounds jy = Some b" "storage_day (firstDay b) (jyear_start jy)"
    "storage_day (lastDay b) (jyear_start (jy + 1) - 1)" "storage_day (nextFirstDay b) (jyear_start (jy + 1))"
    by (rule jalaliYearBounds_days [OF assms(2,3)])
  have y: "resolveJalaliFiscalYear current s = jy \<longleftrightarrow> jyear_start jy \<le> n \<and> n < jyear_start (jy + 1)"
    using resolve_year_window [OF n, of current] jyear_unique [of jy n "resolveJalaliFiscalYear current s"] by auto
  show ?thesis
    using b(1) storage_day_less [OF n b(2)] storage_day_less [OF b(3) n] storage_day_less [OF n b(4)]
    by (intro exI [of _ b]) (auto simp: y)
qed

lemma jday_order:
  assumes "jalali_date y m d" "jalali_date y' m' d'"
  shows "jday y m d < jday y' m' d' \<longleftrightarrow> y < y' \<or> (y = y' \<and> (m < m' \<or> (m = m' \<and> d < d')))"
proof -
  have month: "month_offset m + d - 1 < month_offset m' + d' - 1 \<longleftrightarrow> m < m' \<or> (m = m' \<and> d < d')" if "y = y'"
    using assms that by (auto simp: jalali_date_def jmonth_len_def month_offset_def split: if_splits)
  note b = month_offset_bounds [OF assms(1)] month_offset_bounds [OF assms(2)]
  consider "y < y'" | "y = y'" | "y' < y" by linarith
  then show ?thesis
  proof cases
    case 1
    with jyear_start_mono [of y y'] b show ?thesis by (simp add: jday_def)
  next
    case 2
    with month show ?thesis by (simp add: jday_def)
  next
    case 3
    with jyear_start_mono [of y' y] b show ?thesis by (simp add: jday_def)
  qed
qed

text \<open>
  C40: stored dates compare as the user's dates do. Two Jalali dates are accepted exactly when their day
  exists (30 Esfand in leap years only), and the text order of what is stored, by which every query and
  guard compares dates, is the order of year, month and day.
\<close>

theorem stored_dates_in_order:
  assumes "text_date y m d" "1300 \<le> y" "y \<le> 1500" "text_date y' m' d'" "1300 \<le> y'" "y' \<le> 1500"
  shows "(toStorageDate (DateText (date_text ''/'' y m d)) = None \<longleftrightarrow> \<not> jalali_date y m d) \<and>
    (\<forall>s t. toStorageDate (DateText (date_text ''/'' y m d)) = Some s \<longrightarrow> toStorageDate (DateText (date_text ''/'' y' m' d')) = Some t \<longrightarrow>
      (js_less s t \<longleftrightarrow> y < y' \<or> (y = y' \<and> (m < m' \<or> (m = m' \<and> d < d')))))"
proof -
  have valid: "toStorageDate (DateText (date_text ''/'' a b c)) = None \<longleftrightarrow> \<not> jalali_date a b c"
    if "text_date a b c" "1300 \<le> a" "a \<le> 1500" for a b c
    using toStorageDate_jalali_text [OF that] by (auto split: prod.splits)
  have day: "jalali_date a b c \<and> storage_day u (jday a b c)"
    if "text_date a b c" "1300 \<le> a" "a \<le> 1500" "toStorageDate (DateText (date_text ''/'' a b c)) = Some u" for a b c u
  proof -
    from valid [OF that(1-3)] that(4) have j: "jalali_date a b c" by simp
    from storage_day_jalali [OF j that(2,3)] that(4) j show ?thesis by auto
  qed
  show ?thesis
  proof (intro conjI allI impI)
    show "toStorageDate (DateText (date_text ''/'' y m d)) = None \<longleftrightarrow> \<not> jalali_date y m d"
      by (rule valid [OF assms(1-3)])
    fix s t
    assume st: "toStorageDate (DateText (date_text ''/'' y m d)) = Some s" "toStorageDate (DateText (date_text ''/'' y' m' d')) = Some t"
    note a = day [OF assms(1-3) st(1)] and b = day [OF assms(4-6) st(2)]
    show "js_less s t \<longleftrightarrow> y < y' \<or> (y = y' \<and> (m < m' \<or> (m = m' \<and> d < d')))"
      unfolding storage_day_less [OF conjunct2 [OF a] conjunct2 [OF b]] by (rule jday_order [OF conjunct1 [OF a] conjunct1 [OF b]])
  qed
qed

section \<open>Witnesses\<close>

lemma stored_date_roundtrip_witness:
  "toStorageDate (DateText ''1405/6/31 08:30'') = Some ''2026-09-22'' \<and> isStorageDate ''2026-09-22'' \<and>
    toStorageDate (DateText (isoToJalaliDate (DateText ''1405/6/31 08:30''))) = Some ''2026-09-22''"
proof -
  have s: "toStorageDate (DateText ''1405/6/31 08:30'') = Some ''2026-09-22''" by code_simp
  have "\<not> js_less ''2026-09-22'' ''1921-03-21''" "\<not> js_less ''2122-03-20'' ''2026-09-22''" by code_simp+
  with stored_date_roundtrip [OF s] s show ?thesis by simp
qed

lemma fiscal_year_is_date_range_witness:
  "\<exists>b. jalaliYearBounds 1403 = Some b \<and> \<not> js_less (lastDay b) ''2025-03-20''"
proof -
  have "isStorageDate ''2025-03-20''" "resolveJalaliFiscalYear 0 ''2025-03-20'' = 1403" by code_simp+
  with fiscal_year_is_date_range [of "''2025-03-20''" 1403 0] show ?thesis by auto
qed

lemma stored_dates_in_order_witness:
  "toStorageDate (DateText ''1404/12/30'') = None \<and> js_less ''2025-03-20'' ''2025-03-21''"
proof -
  have "toStorageDate (DateText (date_text ''/'' 1403 12 30)) = Some ''2025-03-20''"
    "toStorageDate (DateText (date_text ''/'' 1404 1 1)) = Some ''2025-03-21''" by code_simp+
  with stored_dates_in_order [of 1403 12 30 1404 1 1] have "js_less ''2025-03-20'' ''2025-03-21''" by (simp add: text_date_def)
  moreover have "date_text ''/'' 1404 12 30 = ''1404/12/30''" "\<not> jalali_date 1404 12 30" by code_simp+
  with stored_dates_in_order [of 1404 12 30 1404 1 1] have "toStorageDate (DateText ''1404/12/30'') = None" by (simp add: text_date_def)
  ultimately show ?thesis by simp
qed
end
