(* ===== verification/VoucherTables.thy ===== *)
theory VoucherTables
  imports VoucherBalance CalendarText
begin

text \<open>
  The tables of the journal (vouchers, their rows, fiscal periods, open workflows), the records the
  voucher service reads from other tables, and the checks every operation composes: the fiscal period
  (\<open>fiscalPeriod.service.ts\<close>), the source of a voucher and its active reversal
  (\<open>voucherSource.ts\<close>), the maker and checker rule, the workflow lock, posting and control
  accounts, the detail of a manual row and the date of a manual voucher. Texts for people
  (descriptions, messages, attachments) are left out: no operation reads them.
\<close>

section \<open>Tables\<close>

datatype vstatus = VDraft | VApproved | VPermanent

record voucher =
  v_id :: nat
  v_number :: nat
  v_manual :: string
  v_date :: string
  v_type :: string
  v_status :: vstatus
  v_debit :: rat
  v_credit :: rat
  v_module :: string
  v_ref_id :: "nat option"
  v_ref :: string
  v_document :: "nat option"
  v_payroll :: "nat option"
  v_cheque :: "nat option"
  v_bom :: "nat option"
  v_year :: "int option"
  v_currency :: string
  v_created :: "nat option"
  v_username :: string
  v_approved :: "nat option"
  v_updated :: "nat option"
  v_reason :: string
  v_version :: nat
  v_deleted :: bool

record vitem =
  vi_voucher :: nat
  vi_account :: int
  vi_order :: nat
  vi_dtype :: string
  vi_did :: "int option"
  vi_dname :: string
  vi_debit :: rat
  vi_credit :: rat
  vi_currency :: string
  vi_rate :: rat
  vi_deleted :: bool

record fiscal_period =
  fp_year :: int
  fp_closed :: bool
  fp_closed_by :: "string option"
  fp_voucher :: "nat option"

record ledger_db =
  ld_vouchers :: "voucher list"
  ld_items :: "vitem list"
  ld_periods :: "fiscal_period list"
  ld_workflows :: "nat list"
  ld_next_id :: nat
  ld_next_number :: nat

text \<open>What the service reads from the rest of the database, the clock and the settings.\<close>

record account_row =
  ac_id :: int
  ac_code :: string
  ac_name :: string
  ac_level :: string
  ac_type :: string
  ac_parent :: "int option"
  ac_active :: bool
  ac_deleted :: bool

record bank_row =
  bk_id :: int
  bk_account :: int
  bk_title :: string
  bk_deleted :: bool

record party_info =
  py_id :: int
  py_name :: string
  py_kind :: string
  py_deleted :: bool

record person_row =
  pe_id :: int
  pe_full :: string
  pe_first :: string
  pe_last :: string
  pe_deleted :: bool

record project_row =
  pj_id :: int
  pj_title :: string
  pj_code :: string
  pj_deleted :: bool

record ledger_env =
  le_today :: string
  le_accounts :: "account_row list"
  le_mapped :: "int list"
  le_banks :: "bank_row list"
  le_parties :: "party_info list"
  le_people :: "person_row list"
  le_projects :: "project_row list"
  le_cheque_vouchers :: "nat list"
  le_treasury_vouchers :: "nat list"
  le_expense_vouchers :: "nat list"
  le_roles :: "(nat \<times> string) list"
  le_workflow_active :: bool

text \<open>JavaScript's \<open>a || b\<close> on texts and on ids.\<close>

definition str_or :: "string option \<Rightarrow> string \<Rightarrow> string" where
  "str_or v d = (case v of None \<Rightarrow> d | Some s \<Rightarrow> if s = '''' then d else s)"

definition trim_or :: "string option \<Rightarrow> string" where
  "trim_or v = (case v of None \<Rightarrow> '''' | Some s \<Rightarrow> js_trim s)"

definition id_or :: "'a::zero option \<Rightarrow> 'a option" where
  "id_or v = (case v of None \<Rightarrow> None | Some n \<Rightarrow> if n = 0 then None else Some n)"

section \<open>Selecting rows\<close>

definition live_voucher :: "ledger_db \<Rightarrow> nat \<Rightarrow> voucher option" where
  "live_voucher s i = List.find (\<lambda>v. v_id v = i \<and> \<not> v_deleted v) (ld_vouchers s)"

definition any_voucher :: "ledger_db \<Rightarrow> nat \<Rightarrow> voucher option" where
  "any_voucher s i = List.find (\<lambda>v. v_id v = i) (ld_vouchers s)"

definition item_of :: "nat \<Rightarrow> vitem \<Rightarrow> bool" where
  "item_of i x \<longleftrightarrow> vi_voucher x = i \<and> \<not> vi_deleted x"

definition live_items :: "ledger_db \<Rightarrow> nat \<Rightarrow> vitem list" where
  "live_items s i = filter (item_of i) (ld_items s)"

definition ordered_items :: "ledger_db \<Rightarrow> nat \<Rightarrow> vitem list" where
  "ordered_items s i = sort_key vi_order (live_items s i)"

definition balance_row_of :: "vitem \<Rightarrow> balance_row" where
  "balance_row_of x = \<lparr>br_debit = vi_debit x, br_credit = vi_credit x, br_currency = Some (vi_currency x), br_rate = Some (vi_rate x)\<rparr>"

definition isVoucherBalancedForFinalize :: "decimal_lib \<Rightarrow> ledger_db \<Rightarrow> voucher \<Rightarrow> bool" where
  "isVoucherBalancedForFinalize L s v =
    balanced_for_finalize L (v_debit v) (v_credit v) (Some (v_currency v)) (map balance_row_of (live_items s (v_id v)))"

section \<open>Fiscal periods\<close>

definition yearOf :: "ledger_env \<Rightarrow> string \<Rightarrow> int" where
  "yearOf E date = resolveJalaliFiscalYear (resolveJalaliFiscalYear 0 (le_today E)) date"

definition period_of :: "ledger_db \<Rightarrow> int \<Rightarrow> fiscal_period option" where
  "period_of s year = List.find (\<lambda>p. fp_year p = year) (ld_periods s)"

definition year_closed :: "ledger_db \<Rightarrow> int \<Rightarrow> bool" where
  "year_closed s year = (case period_of s year of None \<Rightarrow> False | Some p \<Rightarrow> fp_closed p)"

definition ensureRow :: "int \<Rightarrow> ledger_db \<Rightarrow> ledger_db" where
  "ensureRow year s =
    (case period_of s year of
       Some _ \<Rightarrow> s
     | None \<Rightarrow> s\<lparr>ld_periods := ld_periods s @ [\<lparr>fp_year = year, fp_closed = False, fp_closed_by = None, fp_voucher = None\<rparr>]\<rparr>)"

definition assertOpen :: "ledger_env \<Rightarrow> string \<Rightarrow> ledger_db \<Rightarrow> voucher_error + ledger_db" where
  "assertOpen E date s =
    (if date = '''' then Inr s
     else
       let year = yearOf E date; s1 = ensureRow year s
       in if year_closed s1 year then Inl (PeriodClosed year) else Inr s1)"

definition isClosed :: "ledger_env \<Rightarrow> string \<Rightarrow> ledger_db \<Rightarrow> bool" where
  "isClosed E date s = (if date = '''' then False else year_closed s (yearOf E date))"

section \<open>The source of a voucher, reversals\<close>

definition REVERSAL_REFERENCE_PREFIXES :: "string list" where
  "REVERSAL_REFERENCE_PREFIXES = [''REV-V'', ''VOID-REPOST-V'', ''RE-REV-V'']"

definition isReversalReference :: "string \<Rightarrow> bool" where
  "isReversalReference ref = list_ex (\<lambda>p. starts_with p ref) REVERSAL_REFERENCE_PREFIXES"

definition treasury_opening :: "ledger_db \<Rightarrow> voucher \<Rightarrow> bool" where
  "treasury_opening s v \<longleftrightarrow>
    v_module v = ''treasury_opening'' \<and> v_type v \<in> {''opening'', ''adjustment''} \<and>
    \<not> isReversalReference (v_ref v) \<and> \<not> starts_with ''CORR-V'' (v_ref v) \<and>
    list_ex (\<lambda>x. vi_dtype x = ''bank_account'' \<and> vi_did x \<noteq> None \<and> vi_did x = map_option int (v_ref_id v)) (live_items s (v_id v))"

definition own_source :: "ledger_env \<Rightarrow> ledger_db \<Rightarrow> voucher \<Rightarrow> source_kind option" where
  "own_source E s v =
    (if v_document v \<noteq> None then Some SrcDocument
     else if v_payroll v \<noteq> None then Some SrcPayroll
     else if v_cheque v \<noteq> None \<or> v_id v \<in> set (le_cheque_vouchers E) then Some SrcCheque
     else if v_bom v \<noteq> None then Some SrcBom
     else if v_id v \<in> set (le_treasury_vouchers E) then Some SrcTreasury
     else if treasury_opening s v then Some SrcOpening
     else if v_id v \<in> set (le_expense_vouchers E) then Some SrcExpense
     else None)"

text \<open>The recursive query follows a reversal to its original, at most five times; the nearest source counts.\<close>

fun source_chain :: "nat \<Rightarrow> ledger_env \<Rightarrow> ledger_db \<Rightarrow> voucher \<Rightarrow> source_kind option" where
  "source_chain depth E s v =
    (case own_source E s v of
       Some k \<Rightarrow> Some k
     | None \<Rightarrow>
         (case depth of
            0 \<Rightarrow> None
          | Suc d \<Rightarrow>
              if isReversalReference (v_ref v) then
                (case v_ref_id v of
                   None \<Rightarrow> None
                 | Some i \<Rightarrow> (case any_voucher s i of None \<Rightarrow> None | Some original \<Rightarrow> source_chain d E s original))
              else None))"

definition voucherSourceKind :: "ledger_env \<Rightarrow> ledger_db \<Rightarrow> nat \<Rightarrow> source_kind option" where
  "voucherSourceKind E s i = (case any_voucher s i of None \<Rightarrow> None | Some v \<Rightarrow> source_chain 5 E s v)"

definition assertVoucherWithoutSource :: "ledger_env \<Rightarrow> ledger_db \<Rightarrow> nat \<Rightarrow> voucher_error + unit" where
  "assertVoucherWithoutSource E s i = (case voucherSourceKind E s i of None \<Rightarrow> Inr () | Some k \<Rightarrow> Inl (HasSource k))"

definition rev_ref :: "voucher \<Rightarrow> string" where
  "rev_ref v = ''REV-V'' @ show_nat (v_number v)"

definition void_repost_ref :: "voucher \<Rightarrow> string" where
  "void_repost_ref v = ''VOID-REPOST-V'' @ show_nat (v_number v)"

definition active_reversal_of :: "voucher \<Rightarrow> voucher \<Rightarrow> bool" where
  "active_reversal_of original r \<longleftrightarrow>
    v_ref_id r = Some (v_id original) \<and> v_ref r \<in> {rev_ref original, void_repost_ref original} \<and> \<not> v_deleted r"

definition findActiveReversal :: "ledger_db \<Rightarrow> voucher \<Rightarrow> voucher option" where
  "findActiveReversal s original = List.find (active_reversal_of original) (ld_vouchers s)"

definition assertNoActiveReversal :: "ledger_db \<Rightarrow> voucher \<Rightarrow> voucher_error + unit" where
  "assertNoActiveReversal s v =
    (case findActiveReversal s v of None \<Rightarrow> Inr () | Some r \<Rightarrow> Inl (HasActiveReversal (v_number r)))"

definition assertNotYearEndClosing :: "voucher \<Rightarrow> voucher_error + unit" where
  "assertNotYearEndClosing v = (case v_year v of None \<Rightarrow> Inr () | Some y \<Rightarrow> Inl (ClosingLocked y))"

text \<open>\<open>voucherActiveReversals\<close> over a page of vouchers: the number of the first active reversal of each.\<close>

definition voucherActiveReversals :: "ledger_db \<Rightarrow> voucher list \<Rightarrow> nat \<Rightarrow> nat option" where
  "voucherActiveReversals s page i =
    (if i = 0 then None
     else case List.find (\<lambda>v. v_id v = i) (rev page) of
       None \<Rightarrow> None
     | Some v \<Rightarrow> map_option v_number (List.find (active_reversal_of v) (ld_vouchers s)))"

section \<open>Who may approve\<close>

definition SYSTEM_ADMIN_ROLE :: string where "SYSTEM_ADMIN_ROLE = ''admin''"

definition is_admin :: "ledger_env \<Rightarrow> nat \<Rightarrow> bool" where
  "is_admin E u \<longleftrightarrow> map_of (le_roles E) u = Some SYSTEM_ADMIN_ROLE"

definition makerApprovalRefusal :: "ledger_env \<Rightarrow> ledger_db \<Rightarrow> voucher \<Rightarrow> vstatus \<Rightarrow> nat option \<Rightarrow> bool" where
  "makerApprovalRefusal E s v target actor =
    (if v_status v \<noteq> VDraft \<or> (target \<noteq> VApproved \<and> target \<noteq> VPermanent) then False
     else (case id_or actor of
       None \<Rightarrow> False
     | Some u \<Rightarrow>
         if Some u \<noteq> v_created v \<and> Some u \<noteq> v_updated v then False
         else if v_year v \<noteq> None then False
         else if voucherSourceKind E s (v_id v) \<noteq> None then False
         else \<not> is_admin E u))"

definition assertNotApprovedByMaker :: "ledger_env \<Rightarrow> ledger_db \<Rightarrow> voucher \<Rightarrow> vstatus \<Rightarrow> nat option \<Rightarrow> voucher_error + unit" where
  "assertNotApprovedByMaker E s v target actor = res_guard (\<not> makerApprovalRefusal E s v target actor) MakerCannotApprove"

definition assertManualApprovedCreateAllowed :: "ledger_env \<Rightarrow> nat option \<Rightarrow> voucher_error + unit" where
  "assertManualApprovedCreateAllowed E actor =
    (case id_or actor of
       Some u \<Rightarrow> if is_admin E u then Inr () else Inl MakerCannotApprove
     | None \<Rightarrow> Inl MakerCannotApprove)"

section \<open>Workflows\<close>

definition assertVoucherNotInWorkflow :: "ledger_db \<Rightarrow> nat \<Rightarrow> voucher_error + unit" where
  "assertVoucherNotInWorkflow s i = res_guard (i \<notin> set (ld_workflows s)) InWorkflow"

definition terminateVoucherWorkflows :: "nat \<Rightarrow> ledger_db \<Rightarrow> ledger_db" where
  "terminateVoucherWorkflows i s = s\<lparr>ld_workflows := filter (\<lambda>j. j \<noteq> i) (ld_workflows s)\<rparr>"

text \<open>\<open>maybeStartEntityWorkflow\<close>: a workflow runs for the voucher when its type has an active definition.\<close>

definition start_workflow :: "ledger_env \<Rightarrow> nat \<Rightarrow> ledger_db \<Rightarrow> ledger_db" where
  "start_workflow E i s = (if le_workflow_active E then s\<lparr>ld_workflows := ld_workflows s @ [i]\<rparr> else s)"

section \<open>Manual rows: accounts, details, date\<close>

record vrow = balance_row +
  vr_account :: int
  vr_dtype :: "string option"
  vr_did :: "int option"
  vr_dname :: "string option"

definition POSTING_ACCOUNT_LEVELS :: "string list" where
  "POSTING_ACCOUNT_LEVELS = [''subsidiary'', ''detailed'']"

definition postingRefusal :: "account_row option \<Rightarrow> bool \<Rightarrow> posting_refusal option" where
  "postingRefusal account hasActiveChild =
    (case account of
       None \<Rightarrow> Some AccMissing
     | Some a \<Rightarrow>
         if ac_deleted a then Some AccMissing
         else if \<not> ac_active a then Some AccInactive
         else if ac_level a \<notin> set POSTING_ACCOUNT_LEVELS then Some AccSummaryLevel
         else if hasActiveChild then Some AccHasChildren
         else None)"

definition with_children :: "account_row list \<Rightarrow> int \<Rightarrow> bool" where
  "with_children accounts i = list_ex (\<lambda>a. ac_parent a = Some i \<and> \<not> ac_deleted a \<and> ac_active a) accounts"

definition postingAccountsOf :: "account_row list \<Rightarrow> account_row list" where
  "postingAccountsOf accounts =
    (let parents = remdups (concat (map (\<lambda>a. case id_or (ac_parent a) of Some p \<Rightarrow> if \<not> ac_deleted a \<and> ac_active a then [p] else [] | None \<Rightarrow> []) accounts))
     in filter (\<lambda>a. postingRefusal (Some a) (ac_id a \<in> set parents) = None) accounts)"

definition assertPostingAccounts :: "ledger_env \<Rightarrow> int list \<Rightarrow> voucher_error + unit" where
  "assertPostingAccounts E accountIds =
    (let ids = filter (\<lambda>i. i > 0) (rev (remdups (rev accountIds)));
         missing = (if list_ex (\<lambda>i. i \<le> 0) accountIds then [(0, AccMissing)] else []);
         refusals = missing @ List.map_filter (\<lambda>i.
           map_option (\<lambda>reason. (i, reason))
             (postingRefusal (List.find (\<lambda>a. ac_id a = i) (le_accounts E)) (with_children (le_accounts E) i))) ids
     in if refusals = [] then Inr () else Inl (AccountNotPostable refusals))"

text \<open>\<open>controlAccountsById\<close>: the accounts of treasury accounts, of the mapped concepts, the posting
  accounts under them and the inventory group; \<open>le_mapped\<close> is what \<open>resolveAccount\<close> finds for the concepts.\<close>

definition account_known :: "ledger_env \<Rightarrow> int \<Rightarrow> bool" where
  "account_known E i = list_ex (\<lambda>a. ac_id a = i) (le_accounts E)"

definition controlAccountsById :: "ledger_env \<Rightarrow> int list" where
  "controlAccountsById E =
    (let treasury = filter (account_known E) (map bk_account (filter (\<lambda>b. \<not> bk_deleted b) (le_banks E)));
         found = treasury @ le_mapped E;
         posting = (\<lambda>a. ac_level a \<in> set POSTING_ACCOUNT_LEVELS \<and> \<not> ac_deleted a);
         children = map ac_id (filter (\<lambda>a. posting a \<and> (case ac_parent a of Some p \<Rightarrow> p \<in> set found | None \<Rightarrow> False)) (le_accounts E));
         inventory = map ac_id (filter (\<lambda>a. posting a \<and> starts_with ''14'' (ac_code a) \<and> ac_active a) (le_accounts E))
     in remdups (found @ children @ inventory))"

definition CONTROL_REASON_MAX :: nat where "CONTROL_REASON_MAX = 500"

text \<open>\<open>length\<close> of a text: its UTF-16 units, counted on the UTF-8 bytes.\<close>

definition text_length :: "string \<Rightarrow> nat" where
  "text_length s = sum_list (map (\<lambda>c. let n = of_char c :: nat in if n < 128 then 1 else if n < 192 then 0 else if n < 240 then 1 else 2) s)"

definition assertManualControlRows ::
  "ledger_env \<Rightarrow> 'a vrow_scheme list \<Rightarrow> bool \<times> string option \<Rightarrow> int list \<Rightarrow> voucher_error + string" where
  "assertManualControlRows E rows adjustment replaced =
    (let control = controlAccountsById E;
         hit = list_ex (\<lambda>r. vr_account r \<in> set control) rows;
         all_hit = hit \<or> list_ex (\<lambda>a. a \<in> set control) replaced;
         reason = trim_or (snd adjustment)
     in if \<not> all_hit then Inr ''''
        else if \<not> fst adjustment then Inl ControlAccount
        else if \<not> hit then Inr ''''
        else if reason = '''' then Inl ControlReasonRequired
        else if text_length reason > CONTROL_REASON_MAX then Inl ControlReasonTooLong
        else Inr reason)"

definition assertMayChangeControlVoucher :: "ledger_env \<Rightarrow> ledger_db \<Rightarrow> nat \<Rightarrow> bool \<Rightarrow> voucher_error + unit" where
  "assertMayChangeControlVoucher E s i mayAdjust =
    (if mayAdjust then Inr ()
     else res_guard (\<not> list_ex (\<lambda>x. vi_account x \<in> set (controlAccountsById E)) (live_items s i)) ControlAccount)"

definition VOUCHER_DETAILED_TYPES :: "string list" where
  "VOUCHER_DETAILED_TYPES = [''none'', ''customer'', ''supplier'', ''personnel'', ''project'', ''bank_account'', ''other'']"

definition voucherDetailedTypeFromStored :: "string option \<Rightarrow> string" where
  "voucherDetailedTypeFromStored value =
    (case value of
       None \<Rightarrow> ''none''
     | Some t \<Rightarrow> if t = '''' then ''none'' else if t \<in> set VOUCHER_DETAILED_TYPES then t else ''other'')"

definition voucherProjectLabel :: "project_row \<Rightarrow> string" where
  "voucherProjectLabel p = (if pj_code p \<noteq> '''' then js_trim (pj_title p @ '' ('' @ pj_code p @ '')'') else pj_title p)"

definition voucherPersonnelName :: "person_row \<Rightarrow> string" where
  "voucherPersonnelName p = (if pe_full p \<noteq> '''' then pe_full p else js_trim (pe_first p @ '' '' @ pe_last p))"

text \<open>The detail of one row: \<open>None\<close> when the row names no live record of its type.\<close>

definition resolve_detail :: "ledger_env \<Rightarrow> 'a vrow_scheme \<Rightarrow> 'a vrow_scheme option" where
  "resolve_detail E row =
    (let t = voucherDetailedTypeFromStored (vr_dtype row);
         named = (\<lambda>i name. row\<lparr>vr_dtype := Some t, vr_did := Some i, vr_dname := Some name\<rparr>)
     in if t = ''none'' then Some (row\<lparr>vr_dtype := Some t, vr_did := None, vr_dname := Some ''''\<rparr>)
        else if t = ''other'' then Some (row\<lparr>vr_dtype := Some t, vr_did := None\<rparr>)
        else (case vr_did row of
          None \<Rightarrow> None
        | Some i \<Rightarrow>
            if i \<le> 0 then None
            else if t = ''customer'' \<or> t = ''supplier'' then
              (case List.find (\<lambda>p. py_id p = i \<and> \<not> py_deleted p) (le_parties E) of
                 None \<Rightarrow> None
               | Some p \<Rightarrow>
                   let kind = (if py_kind p = '''' then ''customer'' else py_kind p)
                   in if kind \<noteq> t \<and> kind \<noteq> ''both'' then None else Some (named i (py_name p)))
            else if t = ''personnel'' then
              map_option (\<lambda>p. named i (voucherPersonnelName p)) (List.find (\<lambda>p. pe_id p = i \<and> \<not> pe_deleted p) (le_people E))
            else if t = ''project'' then
              map_option (\<lambda>p. named i (voucherProjectLabel p)) (List.find (\<lambda>p. pj_id p = i \<and> \<not> pj_deleted p) (le_projects E))
            else
              map_option (\<lambda>b. named i (bk_title b)) (List.find (\<lambda>b. bk_id b = i \<and> \<not> bk_deleted b) (le_banks E))))"

definition resolveManualRowDetails :: "ledger_env \<Rightarrow> 'a vrow_scheme list \<Rightarrow> voucher_error + 'a vrow_scheme list" where
  "resolveManualRowDetails E rows =
    (let problems = row_numbers (\<lambda>row. resolve_detail E row = None) rows
     in if problems \<noteq> [] then Inl (DetailInvalid problems)
        else Inr (map (\<lambda>row. case resolve_detail E row of Some r \<Rightarrow> r | None \<Rightarrow> row) rows))"

text \<open>\<open>earliestVoucherYear\<close>: the year of the oldest live voucher. The pattern of a storage date.\<close>

definition storage_pattern :: "string \<Rightarrow> bool" where
  "storage_pattern s \<longleftrightarrow> take 2 s \<in> {''19'', ''20'', ''21''} \<and> iso_prefix s \<noteq> None"

definition js_min :: "string \<Rightarrow> string \<Rightarrow> string" where
  "js_min a b = (if js_less b a then b else a)"

definition earliestVoucherYear :: "ledger_env \<Rightarrow> ledger_db \<Rightarrow> int option" where
  "earliestVoucherYear E s =
    (let dates = map v_date (filter (\<lambda>v. \<not> v_deleted v) (ld_vouchers s));
         first_iso = (case filter storage_pattern dates of [] \<Rightarrow> [] | d # ds \<Rightarrow> [foldl js_min d ds]);
         years = map (yearOf E) (first_iso @ filter (\<lambda>d. \<not> storage_pattern d) dates)
     in case years of [] \<Rightarrow> None | y # ys \<Rightarrow> Some (foldl min y ys))"

text \<open>No day before the first fiscal year of the books, at the latest last year.\<close>

definition assertNotTooEarly :: "ledger_env \<Rightarrow> ledger_db \<Rightarrow> int \<Rightarrow> string \<Rightarrow> voucher_error + unit" where
  "assertNotTooEarly E s previousYear day =
    (let firstYear = (case earliestVoucherYear E s of None \<Rightarrow> previousYear | Some y \<Rightarrow> min y previousYear)
     in (case jalaliYearBounds firstYear of
           Some c \<Rightarrow> if js_less day (firstDay c) then Inl (DateTooEarly firstYear) else Inr ()
         | None \<Rightarrow> Inr ()))"

definition assertManualVoucherDate :: "ledger_env \<Rightarrow> ledger_db \<Rightarrow> string \<Rightarrow> voucher_error + unit" where
  "assertManualVoucherDate E s day =
    (if js_less (le_today E) day then Inl DateInFuture
     else
       let previousYear = yearOf E (le_today E) - 1
       in case jalaliYearBounds previousYear of
            Some b \<Rightarrow> if \<not> js_less day (firstDay b) then Inr () else assertNotTooEarly E s previousYear day
          | None \<Rightarrow> assertNotTooEarly E s previousYear day)"

end
