(* ===== verification/Voucher.thy ===== *)
theory Voucher
  imports VoucherTables
begin

text \<open>
  The voucher service (\<open>services/accounting/voucher.service.ts\<close>): creating, editing, deleting, voiding,
  reversing, correcting, approving and finalizing journal vouchers, each as one transaction over the
  tables of \<open>VoucherTables\<close>. An operation that throws leaves the tables as they were. Also what the list of vouchers
  shows of a voucher and which actions its row menu offers (\<open>lib/accounting/voucherRowActions.ts\<close>).
\<close>

section \<open>Writing rows\<close>

text \<open>\<open>moneyOr\<close>: the fallback for a missing or zero amount.\<close>

definition moneyOr :: "rat option \<Rightarrow> rat \<Rightarrow> rat" where
  "moneyOr v fallback = (case v of None \<Rightarrow> fallback | Some x \<Rightarrow> if x = 0 then fallback else x)"

definition VOUCHER_ITEM_INSERT_CHUNK :: nat where "VOUCHER_ITEM_INSERT_CHUNK = 500"

function insertVoucherItems :: "vitem list \<Rightarrow> ledger_db \<Rightarrow> ledger_db" where
  "insertVoucherItems rows s =
    (if rows = [] then s
     else insertVoucherItems (drop VOUCHER_ITEM_INSERT_CHUNK rows)
       (s\<lparr>ld_items := ld_items s @ take VOUCHER_ITEM_INSERT_CHUNK rows\<rparr>))"
  by pat_completeness auto

termination
  by (relation "measure (\<lambda>(rows, _). length rows)") (auto simp: VOUCHER_ITEM_INSERT_CHUNK_def)

declare insertVoucherItems.simps [simp del]

definition input_item :: "decimal_lib \<Rightarrow> nat \<Rightarrow> nat \<times> 'a vrow_scheme \<Rightarrow> vitem" where
  "input_item L i = (\<lambda>(idx, row).
    \<lparr>vi_voucher = i, vi_account = vr_account row, vi_order = idx + 1, vi_dtype = str_or (vr_dtype row) ''none'',
     vi_did = id_or (vr_did row), vi_dname = trim_or (vr_dname row), vi_debit = fin_toDb L (br_debit row),
     vi_credit = fin_toDb L (br_credit row), vi_currency = str_or (br_currency row) ''IRR'',
     vi_rate = fin_toDb L (moneyOr (br_rate row) 1), vi_deleted = False\<rparr>)"

text \<open>A row of a reversal: debit and credit change sides.\<close>

definition reversed_item :: "decimal_lib \<Rightarrow> nat \<Rightarrow> nat \<times> vitem \<Rightarrow> vitem" where
  "reversed_item L i = (\<lambda>(idx, x).
    \<lparr>vi_voucher = i, vi_account = vi_account x, vi_order = idx + 1, vi_dtype = str_or (Some (vi_dtype x)) ''none'',
     vi_did = id_or (vi_did x), vi_dname = vi_dname x, vi_debit = fin_toDb L (vi_credit x),
     vi_credit = fin_toDb L (vi_debit x), vi_currency = str_or (Some (vi_currency x)) ''IRR'',
     vi_rate = fin_toDb L (moneyOr (Some (vi_rate x)) 1), vi_deleted = False\<rparr>)"

definition getNextVoucherNumber :: "ledger_db \<Rightarrow> nat \<times> ledger_db" where
  "getNextVoucherNumber s = (ld_next_number s, s\<lparr>ld_next_number := ld_next_number s + 1\<rparr>)"

text \<open>The insert of a header; the partial unique indexes refuse a second live voucher of one document or payroll.\<close>

definition same_source :: "voucher \<Rightarrow> voucher \<Rightarrow> bool" where
  "same_source v w \<longleftrightarrow> \<not> v_deleted w \<and>
    ((v_document v \<noteq> None \<and> v_document w = v_document v) \<or> (v_payroll v \<noteq> None \<and> v_payroll w = v_payroll v))"

definition insert_voucher :: "voucher \<Rightarrow> ledger_db \<Rightarrow> voucher_error + ledger_db" where
  "insert_voucher v s =
    (if list_ex (same_source v) (ld_vouchers s) then Inl DuplicateSource
     else Inr (s\<lparr>ld_vouchers := ld_vouchers s @ [v\<lparr>v_id := ld_next_id s\<rparr>], ld_next_id := ld_next_id s + 1\<rparr>))"

definition set_voucher :: "nat \<Rightarrow> (voucher \<Rightarrow> voucher) \<Rightarrow> ledger_db \<Rightarrow> ledger_db" where
  "set_voucher i f s = s\<lparr>ld_vouchers := update_rows (\<lambda>v. v_id v = i) f (ld_vouchers s)\<rparr>"

definition delete_items :: "nat \<Rightarrow> ledger_db \<Rightarrow> ledger_db" where
  "delete_items i s = s\<lparr>ld_items := update_rows (item_of i) (vi_deleted_update (\<lambda>_. True)) (ld_items s)\<rparr>"

definition soft_delete :: "nat \<Rightarrow> ledger_db \<Rightarrow> ledger_db" where
  "soft_delete i s = terminateVoucherWorkflows i (delete_items i (set_voucher i (v_deleted_update (\<lambda>_. True)) s))"

section \<open>Creating a voucher\<close>

record create_data =
  cd_date :: date_input
  cd_type :: "string option"
  cd_status :: "vstatus option"
  cd_manual :: "string option"
  cd_module :: "string option"
  cd_ref_id :: "nat option"
  cd_ref :: "string option"
  cd_document :: "nat option"
  cd_payroll :: "nat option"
  cd_cheque :: "nat option"
  cd_bom :: "nat option"
  cd_year :: "int option"
  cd_currency :: "string option"
  cd_user :: "nat option"
  cd_username :: "string option"
  cd_manual_entry :: bool
  cd_control :: "(bool \<times> string option) option"
  cd_items :: "vrow list"

definition requireStorageDate :: "date_input \<Rightarrow> voucher_error + string" where
  "requireStorageDate value = (case toStorageDate value of None \<Rightarrow> Inl InvalidDate | Some d \<Rightarrow> Inr d)"

definition date_or_today :: "ledger_env \<Rightarrow> date_input \<Rightarrow> voucher_error + string" where
  "date_or_today E value = res_bind (requireStorageDate value) (\<lambda>d. Inr (str_or (Some d) (le_today E)))"

definition control_or :: "(bool \<times> string option) option \<Rightarrow> bool \<times> string option" where
  "control_or c = (case c of None \<Rightarrow> (False, None) | Some a \<Rightarrow> a)"

text \<open>The balance check, with the manual rows completed by currency and rate.\<close>

definition checked_rows ::
  "decimal_lib \<Rightarrow> bool \<Rightarrow> string option \<Rightarrow> vrow list \<Rightarrow> voucher_error + vrow list \<times> rat \<times> rat" where
  "checked_rows L manualEntry currency items =
    (if manualEntry then resolveManualVoucherRows L items currency
     else res_bind (assertVoucherRowsBalanced L items currency False) (\<lambda>totals. Inr (items, totals)))"

text \<open>The rules for manual rows: posting accounts, control accounts, details. The reason and the rows to store.\<close>

definition manual_checks ::
  "ledger_env \<Rightarrow> bool \<Rightarrow> (bool \<times> string option) option \<Rightarrow> int list \<Rightarrow> vrow list \<Rightarrow> voucher_error + string \<times> vrow list" where
  "manual_checks E manualEntry control replaced rows =
    (if \<not> manualEntry then Inr ('''', rows)
     else
       res_bind (assertPostingAccounts E (map vr_account rows)) (\<lambda>_.
       res_bind (assertManualControlRows E rows (control_or control) replaced) (\<lambda>reason.
       res_bind (resolveManualRowDetails E rows) (\<lambda>items. Inr (reason, items)))))"

definition new_voucher :: "decimal_lib \<Rightarrow> create_data \<Rightarrow> string \<Rightarrow> nat \<Rightarrow> rat \<Rightarrow> rat \<Rightarrow> string \<Rightarrow> voucher" where
  "new_voucher L d date num sumDebit sumCredit reason =
    \<lparr>v_id = 0, v_number = num, v_manual = trim_or (cd_manual d), v_date = date, v_type = str_or (cd_type d) ''general'',
     v_status = (case cd_status d of None \<Rightarrow> VDraft | Some st \<Rightarrow> st), v_debit = fin_toDb L sumDebit, v_credit = fin_toDb L sumCredit,
     v_module = str_or (cd_module d) ''manual'', v_ref_id = id_or (cd_ref_id d), v_ref = trim_or (cd_ref d),
     v_document = cd_document d, v_payroll = cd_payroll d, v_cheque = cd_cheque d, v_bom = cd_bom d, v_year = cd_year d,
     v_currency = str_or (cd_currency d) ''IRR'', v_created = id_or (cd_user d), v_username = str_or (cd_username d) '''',
     v_approved = (if cd_status d = Some VApproved then id_or (cd_user d) else None), v_updated = None,
     v_reason = reason, v_version = 1, v_deleted = False\<rparr>"

definition create_write ::
  "decimal_lib \<Rightarrow> ledger_env \<Rightarrow> create_data \<Rightarrow> string \<Rightarrow> rat \<times> rat \<Rightarrow> string \<Rightarrow> vrow list \<Rightarrow> ledger_db \<Rightarrow> voucher_error + nat \<times> ledger_db" where
  "create_write L E d date tot reason items s =
    (let (num, s1) = getNextVoucherNumber s;
         v = new_voucher L d date num (fst tot) (snd tot) reason;
         i = ld_next_id s1
     in res_bind (insert_voucher v s1) (\<lambda>s2.
          let s3 = insertVoucherItems (map (input_item L i) (enumerate 0 items)) s2
          in Inr (i, if cd_manual_entry d \<and> v_status v = VDraft then start_workflow E i s3 else s3)))"

definition createJournalVoucher :: "decimal_lib \<Rightarrow> ledger_env \<Rightarrow> create_data \<Rightarrow> ledger_db \<Rightarrow> voucher_error + nat \<times> ledger_db" where
  "createJournalVoucher L E d s =
    (if length (cd_items d) < 2 then Inl TooFewRows
     else
       res_bind (checked_rows L (cd_manual_entry d) (cd_currency d) (cd_items d)) (\<lambda>(balancedRows, tot).
       res_bind (date_or_today E (cd_date d)) (\<lambda>voucherDate.
       res_bind (assertOpen E voucherDate s) (\<lambda>s1.
       res_bind (if cd_manual_entry d then assertManualVoucherDate E s1 voucherDate else Inr ()) (\<lambda>_.
       res_bind (manual_checks E (cd_manual_entry d) (cd_control d) [] balancedRows) (\<lambda>(reason, items).
       res_bind (if cd_manual_entry d \<and> cd_status d = Some VApproved then assertManualApprovedCreateAllowed E (cd_user d) else Inr ()) (\<lambda>_.
       create_write L E d voucherDate tot reason items s1)))))))"

section \<open>Editing and deleting a draft\<close>

record update_data =
  ud_date :: date_input
  ud_type :: "string option"
  ud_manual :: "string option"
  ud_status :: "vstatus option"
  ud_manual_entry :: bool
  ud_expected :: "nat option"
  ud_user :: "nat option"
  ud_control :: "(bool \<times> string option) option"
  ud_items :: "vrow list option"

definition checkOccVersion :: "voucher \<Rightarrow> nat option \<Rightarrow> voucher_error + unit" where
  "checkOccVersion v expected = (case expected of None \<Rightarrow> Inr () | Some n \<Rightarrow> res_guard (v_version v = n) OccConflict)"

definition updated_date :: "date_input \<Rightarrow> voucher_error + string option" where
  "updated_date value =
    (if value = NoDate \<or> value = DateText '''' then Inr None
     else res_bind (requireStorageDate value) (\<lambda>d. Inr (if d = '''' then None else Some d)))"

definition update_dates :: "ledger_env \<Rightarrow> update_data \<Rightarrow> voucher \<Rightarrow> ledger_db \<Rightarrow> voucher_error + string option \<times> ledger_db" where
  "update_dates E u existing s =
    res_bind (updated_date (ud_date u)) (\<lambda>newDate.
      (case newDate of
         Some d \<Rightarrow>
           res_bind (assertOpen E d s) (\<lambda>s1.
           res_bind (if ud_manual_entry u then assertManualVoucherDate E s1 d else Inr ()) (\<lambda>_. Inr (newDate, s1)))
       | None \<Rightarrow> res_bind (assertOpen E (v_date existing) s) (\<lambda>s1. Inr (newDate, s1))))"

definition replaces_rows :: "update_data \<Rightarrow> bool" where
  "replaces_rows u \<longleftrightarrow> (case ud_items u of None \<Rightarrow> False | Some items \<Rightarrow> length items \<ge> 2)"

text \<open>The rows of an edit: their tot, the reason for a control account, the tables with the rows replaced.\<close>

definition update_items ::
  "decimal_lib \<Rightarrow> ledger_env \<Rightarrow> update_data \<Rightarrow> voucher \<Rightarrow> ledger_db \<Rightarrow> voucher_error + (rat \<times> rat) \<times> string option \<times> ledger_db" where
  "update_items L E u existing s =
    (case ud_items u of
       Some sent \<Rightarrow>
         if length sent \<ge> 2 then
           res_bind (checked_rows L (ud_manual_entry u) (Some (v_currency existing)) sent) (\<lambda>(balancedRows, tot).
           res_bind (manual_checks E (ud_manual_entry u) (ud_control u) (map vi_account (live_items s (v_id existing))) balancedRows) (\<lambda>(reason, items).
             Inr (tot, if ud_manual_entry u then Some reason else None,
               insertVoucherItems (map (input_item L (v_id existing)) (enumerate 0 items)) (delete_items (v_id existing) s))))
         else Inr ((v_debit existing, v_credit existing), None, s)
     | None \<Rightarrow> Inr ((v_debit existing, v_credit existing), None, s))"

definition update_header ::
  "decimal_lib \<Rightarrow> update_data \<Rightarrow> string option \<Rightarrow> rat \<times> rat \<Rightarrow> string option \<Rightarrow> voucher \<Rightarrow> voucher" where
  "update_header L u newDate tot reason v =
    v\<lparr>v_date := (case newDate of Some d \<Rightarrow> d | None \<Rightarrow> v_date v),
      v_type := str_or (ud_type u) (v_type v),
      v_manual := (case ud_manual u of Some t \<Rightarrow> js_trim t | None \<Rightarrow> v_manual v),
      v_status := (case ud_status u of Some st \<Rightarrow> st | None \<Rightarrow> v_status v),
      v_updated := (case id_or (ud_user u) of Some n \<Rightarrow> Some n | None \<Rightarrow> v_updated v),
      v_reason := (case reason of Some r \<Rightarrow> r | None \<Rightarrow> v_reason v),
      v_debit := fin_toDb L (fst tot), v_credit := fin_toDb L (snd tot), v_version := v_version v + 1\<rparr>"

definition updateJournalVoucher :: "decimal_lib \<Rightarrow> ledger_env \<Rightarrow> nat \<Rightarrow> update_data \<Rightarrow> ledger_db \<Rightarrow> voucher_error + ledger_db" where
  "updateJournalVoucher L E i u s =
    (case live_voucher s i of
       None \<Rightarrow> Inl VoucherNotFound
     | Some existing \<Rightarrow>
         res_bind (if ud_manual_entry u then assertVoucherWithoutSource E s i else Inr ()) (\<lambda>_.
         res_bind (checkOccVersion existing (ud_expected u)) (\<lambda>_.
         res_bind (res_guard (v_status existing = VDraft) NotDraft) (\<lambda>_.
         res_bind (update_dates E u existing s) (\<lambda>(newDate, s1).
         res_bind (if ud_manual_entry u \<and> \<not> replaces_rows u then assertMayChangeControlVoucher E s1 i (fst (control_or (ud_control u))) else Inr ()) (\<lambda>_.
         res_bind (update_items L E u existing s1) (\<lambda>(tot, reason, s2).
           Inr (set_voucher i (update_header L u newDate tot reason) s2))))))))"

definition deleteJournalVoucher :: "ledger_env \<Rightarrow> nat \<Rightarrow> bool \<Rightarrow> ledger_db \<Rightarrow> voucher_error + ledger_db" where
  "deleteJournalVoucher E i mayAdjust s =
    (case live_voucher s i of
       None \<Rightarrow> Inl VoucherNotFound
     | Some existing \<Rightarrow>
         res_bind (assertVoucherWithoutSource E s i) (\<lambda>_.
         res_bind (assertNoActiveReversal s existing) (\<lambda>_.
         res_bind (res_guard (v_status existing \<noteq> VPermanent) PermanentLocked) (\<lambda>_.
         res_bind (res_guard (v_status existing \<noteq> VApproved) ApprovedLocked) (\<lambda>_.
         res_bind (assertMayChangeControlVoucher E s i mayAdjust) (\<lambda>_.
         res_bind (assertOpen E (v_date existing) s) (\<lambda>s1. Inr (soft_delete i s1))))))))"

section \<open>Reversal, voiding, correction\<close>

record reverse_params =
  rp_voucher :: nat
  rp_date :: date_input
  rp_user :: "nat option"
  rp_username :: "string option"
  rp_reversal_of_reversal :: bool
  rp_year_end :: bool
  rp_manual_entry :: bool
  rp_may_adjust :: bool

text \<open>The prefixes \<open>reverseVoucher\<close> and \<open>correctVoucher\<close> test; \<open>RE-REV-V\<close> is not among them.\<close>

definition reversal_of_original :: "string \<Rightarrow> bool" where
  "reversal_of_original ref \<longleftrightarrow> starts_with ''REV-V'' ref \<or> starts_with ''VOID-REPOST-V'' ref"

definition expected_ref :: "voucher \<Rightarrow> string" where
  "expected_ref v = (if reversal_of_original (v_ref v) then ''RE-REV-V'' @ show_nat (v_number v) else rev_ref v)"

definition reversal_header ::
  "decimal_lib \<Rightarrow> voucher \<Rightarrow> string \<Rightarrow> string \<Rightarrow> int option \<Rightarrow> string \<Rightarrow> rat \<times> rat \<Rightarrow> nat option \<Rightarrow> string option \<Rightarrow> nat \<Rightarrow> voucher" where
  "reversal_header L original date vtype year ref totals user username num =
    \<lparr>v_id = 0, v_number = num, v_manual = '''', v_date = date, v_type = vtype, v_status = VApproved,
     v_debit = fin_toDb L (snd totals), v_credit = fin_toDb L (fst totals), v_module = str_or (Some (v_module original)) ''manual'',
     v_ref_id = Some (v_id original), v_ref = ref, v_document = None, v_payroll = None, v_cheque = None, v_bom = None,
     v_year = year, v_currency = str_or (Some (v_currency original)) ''IRR'', v_created = id_or user,
     v_username = str_or username '''', v_approved = None, v_updated = None, v_reason = '''', v_version = 1, v_deleted = False\<rparr>"

definition reversal_guards :: "ledger_env \<Rightarrow> reverse_params \<Rightarrow> voucher \<Rightarrow> ledger_db \<Rightarrow> voucher_error + unit" where
  "reversal_guards E p original s =
    res_bind (if rp_year_end p then Inr () else assertNotYearEndClosing original) (\<lambda>_.
    res_bind (if rp_manual_entry p then assertVoucherWithoutSource E s (v_id original) else Inr ()) (\<lambda>_.
    res_bind (res_guard (v_status original \<noteq> VDraft) DraftNotReversible) (\<lambda>_.
    res_bind (res_guard (\<not> (reversal_of_original (v_ref original) \<and> \<not> rp_reversal_of_reversal p)) ReversalOfReversal) (\<lambda>_.
    res_bind (case List.find (\<lambda>r. v_ref_id r = Some (v_id original) \<and> v_ref r = expected_ref original \<and> \<not> v_deleted r) (ld_vouchers s) of
        Some r \<Rightarrow> Inl (AlreadyReversed (v_number r)) | None \<Rightarrow> Inr ()) (\<lambda>_.
    res_bind (case (if reversal_of_original (v_ref original) then None else findActiveReversal s original) of
        Some r \<Rightarrow> Inl (AlreadyReversed (v_number r)) | None \<Rightarrow> Inr ()) (\<lambda>_.
    if rp_manual_entry p then assertMayChangeControlVoucher E s (v_id original) (rp_may_adjust p) else Inr ()))))))"

definition reverseVoucher :: "decimal_lib \<Rightarrow> ledger_env \<Rightarrow> reverse_params \<Rightarrow> ledger_db \<Rightarrow> voucher_error + nat \<times> ledger_db" where
  "reverseVoucher L E p s =
    (case live_voucher s (rp_voucher p) of
       None \<Rightarrow> Inl VoucherNotFound
     | Some original \<Rightarrow>
         res_bind (reversal_guards E p original s) (\<lambda>_.
         let originalItems = ordered_items s (v_id original)
         in res_bind (res_guard (originalItems \<noteq> []) NoRows) (\<lambda>_.
         res_bind (date_or_today E (rp_date p)) (\<lambda>reversalDate.
         res_bind (assertOpen E reversalDate s) (\<lambda>s1.
         res_bind (if rp_manual_entry p then assertManualVoucherDate E s1 reversalDate else Inr ()) (\<lambda>_.
         let (num, s2) = getNextVoucherNumber s1;
             v = reversal_header L original reversalDate (if v_year original \<noteq> None then v_type original else ''adjustment'')
               (v_year original) (expected_ref original) (v_debit original, v_credit original) (rp_user p) (rp_username p) num;
             i = ld_next_id s2
         in res_bind (insert_voucher v s2) (\<lambda>s3.
            Inr (i, terminateVoucherWorkflows (v_id original)
              (insertVoucherItems (map (reversed_item L i) (enumerate 0 originalItems)) s3)))))))))"

datatype void_outcome = VoidDeleted | VoidReversed nat

definition voidSourceVoucher :: "decimal_lib \<Rightarrow> ledger_env \<Rightarrow> reverse_params \<Rightarrow> ledger_db \<Rightarrow> voucher_error + void_outcome \<times> ledger_db" where
  "voidSourceVoucher L E p s =
    (case live_voucher s (rp_voucher p) of
       None \<Rightarrow> Inl VoucherNotFound
     | Some existing \<Rightarrow>
         if v_status existing = VDraft then
           res_bind (assertOpen E (v_date existing) s) (\<lambda>s1. Inr (VoidDeleted, soft_delete (v_id existing) s1))
         else
           res_bind (reverseVoucher L E (p\<lparr>rp_voucher := v_id existing, rp_manual_entry := False, rp_may_adjust := False\<rparr>) s) (\<lambda>(i, s1).
             Inr (VoidReversed i, s1)))"

text \<open>\<open>getJournalVoucherById\<close>: header and rows with their amounts as JavaScript numbers, and what the list shows beside them.\<close>

record voucher_view =
  vw_voucher :: voucher
  vw_items :: "vitem list"
  vw_source :: "source_kind option"
  vw_reversed_by :: "nat option"
  vw_in_workflow :: bool

definition item_number :: "decimal_lib \<Rightarrow> vitem \<Rightarrow> vitem" where
  "item_number L x = x\<lparr>vi_debit := fin_toNumber L (vi_debit x), vi_credit := fin_toNumber L (vi_credit x), vi_rate := fin_toNumber L (vi_rate x)\<rparr>"

definition getJournalVoucherById :: "decimal_lib \<Rightarrow> ledger_env \<Rightarrow> nat \<Rightarrow> ledger_db \<Rightarrow> voucher_error + voucher_view" where
  "getJournalVoucherById L E i s =
    (case live_voucher s i of
       None \<Rightarrow> Inl VoucherNotFound
     | Some v \<Rightarrow>
         Inr \<lparr>vw_voucher = v\<lparr>v_debit := fin_toNumber L (v_debit v), v_credit := fin_toNumber L (v_credit v)\<rparr>,
              vw_items = map (item_number L) (filter (\<lambda>x. account_known E (vi_account x)) (ordered_items s i)),
              vw_source = voucherSourceKind E s i, vw_reversed_by = voucherActiveReversals s [v] i,
              vw_in_workflow = (i \<in> set (ld_workflows s))\<rparr>)"

record correct_params =
  cp_voucher :: nat
  cp_date :: date_input
  cp_reason :: string
  cp_items :: "vrow list"
  cp_user :: "nat option"
  cp_username :: "string option"
  cp_may_adjust :: bool

definition correction_data :: "correct_params \<Rightarrow> voucher \<Rightarrow> string \<Rightarrow> create_data" where
  "correction_data p original date =
    \<lparr>cd_date = DateText date, cd_type = Some (str_or (Some (v_type original)) ''general''), cd_status = Some VDraft, cd_manual = None,
     cd_module = Some (str_or (Some (v_module original)) ''manual''), cd_ref_id = Some (v_id original),
     cd_ref = Some (''CORR-V'' @ show_nat (v_number original)), cd_document = None, cd_payroll = None, cd_cheque = None, cd_bom = None,
     cd_year = None, cd_currency = Some (str_or (Some (v_currency original)) ''IRR''), cd_user = cp_user p, cd_username = cp_username p,
     cd_manual_entry = True, cd_control = Some (cp_may_adjust p, Some (cp_reason p)), cd_items = cp_items p\<rparr>"

text \<open>What \<open>correctVoucher\<close> checks of the voucher before the date of the correction and after it.\<close>

definition correction_guards :: "ledger_env \<Rightarrow> voucher \<Rightarrow> ledger_db \<Rightarrow> voucher_error + unit" where
  "correction_guards E original s =
    res_bind (assertVoucherWithoutSource E s (v_id original)) (\<lambda>_.
    res_bind (res_guard (v_status original \<noteq> VPermanent) PermanentNotCorrectable) (\<lambda>_.
    res_bind (assertNotYearEndClosing original) (\<lambda>_.
    res_bind (res_guard (v_status original \<noteq> VDraft) DraftNotReversible) (\<lambda>_.
    res_guard (\<not> reversal_of_original (v_ref original)) ReversalOfReversal))))"

definition correction_late_guards :: "ledger_env \<Rightarrow> bool \<Rightarrow> voucher \<Rightarrow> ledger_db \<Rightarrow> voucher_error + unit" where
  "correction_late_guards E mayAdjust original s =
    res_bind (case findActiveReversal s original of Some r \<Rightarrow> Inl (AlreadyReversed (v_number r)) | None \<Rightarrow> Inr ()) (\<lambda>_.
      assertMayChangeControlVoucher E s (v_id original) mayAdjust)"

definition correctVoucher :: "decimal_lib \<Rightarrow> ledger_env \<Rightarrow> correct_params \<Rightarrow> ledger_db \<Rightarrow> voucher_error + (nat \<times> nat) \<times> ledger_db" where
  "correctVoucher L E p s =
    (if js_trim (cp_reason p) = '''' then Inl CorrectionReasonRequired
     else if length (cp_items p) < 2 then Inl CorrectionRowsRequired
     else
       res_bind (getJournalVoucherById L E (cp_voucher p) s) (\<lambda>view.
       let original = vw_voucher view
       in res_bind (correction_guards E original s) (\<lambda>_.
       res_bind (date_or_today E (cp_date p)) (\<lambda>correctionDate.
       res_bind (assertOpen E correctionDate s) (\<lambda>s1.
       res_bind (assertManualVoucherDate E s1 correctionDate) (\<lambda>_.
       res_bind (correction_late_guards E (cp_may_adjust p) original s1) (\<lambda>_.
       let (num, s2) = getNextVoucherNumber s1;
           v = reversal_header L original correctionDate ''adjustment'' None (rev_ref original) (v_debit original, v_credit original)
             (cp_user p) (cp_username p) num;
           revId = ld_next_id s2
       in res_bind (insert_voucher v s2) (\<lambda>s3.
          let s4 = insertVoucherItems (map (reversed_item L revId) (enumerate 0 (vw_items view))) s3
          in res_bind (createJournalVoucher L E (correction_data p original correctionDate) s4) (\<lambda>(corrId, s5).
             Inr ((revId, corrId), terminateVoucherWorkflows (v_id original) s5))))))))))"

section \<open>Approving and finalizing\<close>

definition make_permanent :: "nat \<Rightarrow> nat option \<Rightarrow> ledger_db \<Rightarrow> ledger_db" where
  "make_permanent i user = set_voucher i (\<lambda>v. v\<lparr>v_status := VPermanent, v_approved := id_or user\<rparr>)"

definition finalizeJournalVoucher :: "decimal_lib \<Rightarrow> ledger_env \<Rightarrow> nat \<Rightarrow> nat option \<Rightarrow> ledger_db \<Rightarrow> voucher_error + ledger_db" where
  "finalizeJournalVoucher L E i user s =
    (case any_voucher s i of
       None \<Rightarrow> Inl VoucherNotFound
     | Some existing \<Rightarrow>
         if v_deleted existing then Inl VoucherNotFound
         else if v_status existing = VPermanent then Inr s
         else
           res_bind (assertVoucherNotInWorkflow s i) (\<lambda>_.
           res_bind (assertNotApprovedByMaker E s existing VPermanent user) (\<lambda>_.
           res_bind (assertOpen E (v_date existing) s) (\<lambda>s1.
           res_bind (res_guard (isVoucherBalancedForFinalize L s1 existing) (Unbalanced True)) (\<lambda>_.
             Inr (make_permanent i user s1))))))"

datatype batch_refusal = RefMissing | RefDeleted | RefPermanent | RefWorkflow | RefMaker | RefClosed | RefUnbalanced

record batch_result =
  bt_done :: "nat list"
  bt_refused :: "(nat \<times> batch_refusal) list"

definition refuse_in :: "nat \<Rightarrow> batch_refusal \<Rightarrow> batch_result \<Rightarrow> batch_result" where
  "refuse_in i why b = b\<lparr>bt_refused := bt_refused b @ [(i, why)]\<rparr>"

definition done_in :: "nat \<Rightarrow> batch_result \<Rightarrow> batch_result" where
  "done_in i b = b\<lparr>bt_done := bt_done b @ [i]\<rparr>"

text \<open>Distinct positive ids in ascending order, the order in which rows are locked.\<close>

definition sorted_ids :: "int list \<Rightarrow> nat list" where
  "sorted_ids ids = sort (map nat (filter (\<lambda>i. i > 0) (remdups ids)))"

definition finalize_one ::
  "decimal_lib \<Rightarrow> ledger_env \<Rightarrow> nat list \<Rightarrow> nat option \<Rightarrow> nat \<Rightarrow> batch_result \<times> ledger_db \<Rightarrow> voucher_error + batch_result \<times> ledger_db" where
  "finalize_one L E inWorkflow user i = (\<lambda>(b, s).
    (case any_voucher s i of
       None \<Rightarrow> Inr (refuse_in i RefMissing b, s)
     | Some existing \<Rightarrow>
         if v_deleted existing then Inr (refuse_in i RefDeleted b, s)
         else if v_status existing = VPermanent then Inr (refuse_in i RefPermanent b, s)
         else if i \<in> set inWorkflow then Inr (refuse_in i RefWorkflow b, s)
         else if makerApprovalRefusal E s existing VPermanent user then Inr (refuse_in i RefMaker b, s)
         else if isClosed E (v_date existing) s then Inr (refuse_in i RefClosed b, s)
         else res_bind (assertOpen E (v_date existing) s) (\<lambda>s1.
           if \<not> isVoucherBalancedForFinalize L s1 existing then Inr (refuse_in i RefUnbalanced b, s1)
           else Inr (done_in i b, make_permanent i user s1))))"

definition finalizeJournalVouchers ::
  "decimal_lib \<Rightarrow> ledger_env \<Rightarrow> int list \<Rightarrow> nat option \<Rightarrow> ledger_db \<Rightarrow> voucher_error + batch_result \<times> ledger_db" where
  "finalizeJournalVouchers L E ids user s =
    fold_res (finalize_one L E (ld_workflows s) user) (sorted_ids ids) (\<lparr>bt_done = [], bt_refused = []\<rparr>, s)"

definition approve_one ::
  "ledger_env \<Rightarrow> nat list \<Rightarrow> nat option \<Rightarrow> nat \<Rightarrow> batch_result \<times> ledger_db \<Rightarrow> voucher_error + batch_result \<times> ledger_db" where
  "approve_one E inWorkflow user i = (\<lambda>(b, s).
    (case any_voucher s i of
       None \<Rightarrow> Inr (b, s)
     | Some existing \<Rightarrow>
         if v_deleted existing \<or> v_status existing \<noteq> VDraft then Inr (b, s)
         else if i \<in> set inWorkflow then Inr (refuse_in i RefWorkflow b, s)
         else if makerApprovalRefusal E s existing VApproved user then Inr (refuse_in i RefMaker b, s)
         else res_bind (assertOpen E (v_date existing) s) (\<lambda>s1.
           Inr (done_in i b, set_voucher i (\<lambda>v. v\<lparr>v_status := VApproved, v_approved := id_or user\<rparr>) s1))))"

text \<open>The result names every id that was asked for, and counts those approved.\<close>

record approve_result =
  ap_count :: nat
  ap_ids :: "nat list"
  ap_refused :: "(nat \<times> batch_refusal) list"

definition approveJournalVouchers :: "ledger_env \<Rightarrow> int list \<Rightarrow> nat option \<Rightarrow> ledger_db \<Rightarrow> voucher_error + approve_result \<times> ledger_db" where
  "approveJournalVouchers E ids user s =
    res_bind (fold_res (approve_one E (ld_workflows s) user) (sorted_ids ids) (\<lparr>bt_done = [], bt_refused = []\<rparr>, s)) (\<lambda>(b, s').
      Inr (\<lparr>ap_count = length (bt_done b), ap_ids = sorted_ids ids, ap_refused = bt_refused b\<rparr>, s'))"

definition back_to_draft_guards :: "ledger_env \<Rightarrow> voucher \<Rightarrow> ledger_db \<Rightarrow> voucher_error + unit" where
  "back_to_draft_guards E existing s =
    res_bind (assertVoucherWithoutSource E s (v_id existing)) (\<lambda>_.
    res_bind (assertNotYearEndClosing existing) (\<lambda>_.
    res_bind (assertNoActiveReversal s existing) (\<lambda>_.
    res_guard (\<not> isReversalReference (v_ref existing)) ReversalLocked)))"

definition applyVoucherStatus ::
  "decimal_lib \<Rightarrow> ledger_env \<Rightarrow> nat \<Rightarrow> vstatus \<Rightarrow> nat option \<Rightarrow> nat option \<Rightarrow> ledger_db \<Rightarrow> voucher_error + ledger_db" where
  "applyVoucherStatus L E i status user actingFor s =
    (case live_voucher s i of
       None \<Rightarrow> Inl VoucherNotFound
     | Some existing \<Rightarrow>
         res_bind (if status = VDraft \<and> v_status existing \<noteq> VDraft then back_to_draft_guards E existing s else Inr ()) (\<lambda>_.
         res_bind (res_guard (\<not> (v_status existing = VPermanent \<and> status \<noteq> VPermanent)) PermanentLocked) (\<lambda>_.
         res_bind (assertNotApprovedByMaker E s existing status user) (\<lambda>_.
         res_bind (if id_or actingFor \<noteq> None \<and> actingFor \<noteq> user then assertNotApprovedByMaker E s existing status actingFor else Inr ()) (\<lambda>_.
         res_bind (assertOpen E (v_date existing) s) (\<lambda>s1.
         res_bind (res_guard (status = VPermanent \<longrightarrow> isVoucherBalancedForFinalize L s1 existing) (Unbalanced True)) (\<lambda>_.
           Inr (set_voucher i (\<lambda>v. v\<lparr>v_status := status,
             v_approved := (if status = VDraft then None
               else (case id_or user of Some u \<Rightarrow> Some u | None \<Rightarrow> id_or (v_approved existing)))\<rparr>) s1))))))))"

definition setVoucherStatus :: "decimal_lib \<Rightarrow> ledger_env \<Rightarrow> nat \<Rightarrow> vstatus \<Rightarrow> nat option \<Rightarrow> ledger_db \<Rightarrow> voucher_error + ledger_db" where
  "setVoucherStatus L E i status user s =
    res_bind (if live_voucher s i \<noteq> None then assertVoucherNotInWorkflow s i else Inr ()) (\<lambda>_.
      applyVoucherStatus L E i status user None s)"

text \<open>A step of the voucher's workflow: the state keys \<open>draft\<close>, \<open>approved\<close> and \<open>permanent\<close> set the status.\<close>

definition status_of_step :: "string \<Rightarrow> vstatus option" where
  "status_of_step key =
    (if key = ''draft'' then Some VDraft else if key = ''approved'' then Some VApproved
     else if key = ''permanent'' then Some VPermanent else None)"

definition applyVoucherWorkflowStep ::
  "decimal_lib \<Rightarrow> ledger_env \<Rightarrow> string \<Rightarrow> int \<Rightarrow> nat option \<Rightarrow> nat option \<Rightarrow> ledger_db \<Rightarrow> voucher_error + ledger_db" where
  "applyVoucherWorkflowStep L E key entityId performedBy actingFor s =
    (case status_of_step key of
       None \<Rightarrow> Inr s
     | Some status \<Rightarrow> if entityId \<le> 0 then Inr s else applyVoucherStatus L E (nat entityId) status performedBy actingFor s)"

section \<open>The row menu of the list\<close>

datatype row_action = ActEdit | ActDelete | ActRevertToDraft | ActReverse | ActCorrect | ActWorkflow

record row_facts =
  rf_status :: vstatus
  rf_source :: "source_kind option"
  rf_year :: "int option"
  rf_ref :: string
  rf_reversed_by :: "nat option"
  rf_in_workflow :: bool

definition voucherRowActions :: "row_facts \<Rightarrow> bool \<Rightarrow> row_action list" where
  "voucherRowActions v canApprove =
    (let locked = (rf_source v \<noteq> None \<or> rf_year v \<noteq> None);
         reversal = isReversalReference (rf_ref v);
         reversed = (rf_reversed_by v \<noteq> None)
     in (if locked then []
         else (if rf_status v = VDraft then [ActEdit, ActDelete] else []) @
           (if \<not> reversal \<and> \<not> reversed \<and> \<not> rf_in_workflow v \<and> rf_status v = VApproved \<and> canApprove then [ActRevertToDraft] else []) @
           (if \<not> reversal \<and> \<not> reversed \<and> (rf_status v = VApproved \<or> rf_status v = VPermanent) then [ActReverse] else []) @
           (if \<not> reversal \<and> \<not> reversed \<and> rf_status v = VApproved then [ActCorrect] else []))
        @ [ActWorkflow])"

datatype primary_action = PrimApprove | PrimFinalize | PrimLocked | PrimInWorkflow

definition voucherPrimaryAction :: "vstatus \<Rightarrow> bool \<Rightarrow> bool \<Rightarrow> bool \<Rightarrow> primary_action option" where
  "voucherPrimaryAction status canApprove canFinalize inWorkflow =
    (if status = VPermanent then Some PrimLocked
     else if inWorkflow \<and> (status = VDraft \<or> status = VApproved) then Some PrimInWorkflow
     else if status = VDraft then (if canApprove then Some PrimApprove else None)
     else if status = VApproved then (if canFinalize then Some PrimFinalize else None)
     else None)"

definition view_facts :: "voucher_view \<Rightarrow> row_facts" where
  "view_facts w =
    \<lparr>rf_status = v_status (vw_voucher w), rf_source = vw_source w, rf_year = v_year (vw_voucher w), rf_ref = v_ref (vw_voucher w),
     rf_reversed_by = vw_reversed_by w, rf_in_workflow = vw_in_workflow w\<rparr>"

end
