(* ===== verification/VoucherFacts.thy ===== *)
theory VoucherFacts
  imports Voucher "HOL-Library.Multiset"
begin

text \<open>
  Lemmas on the tables of the journal: the abstract journal of live vouchers, what each write does to it,
  and that the rows the service stores balance.
\<close>

section \<open>The journal\<close>

text \<open>The abstract state: the live vouchers with their live rows.\<close>

type_synonym journal = "nat \<Rightarrow> (voucher \<times> vitem list) option"

definition journal_of :: "ledger_db \<Rightarrow> journal" where
  "journal_of s i = map_option (\<lambda>v. (v, live_items s i)) (live_voucher s i)"

definition book_year :: "string \<Rightarrow> int" where
  "book_year date = resolveJalaliFiscalYear 0 date"

text \<open>The tables are well formed: serial ids and numbers, foreign keys, one row per fiscal year, stored dates.\<close>

definition ledger_wf :: "ledger_db \<Rightarrow> bool" where
  "ledger_wf s \<longleftrightarrow>
    distinct (map v_id (ld_vouchers s)) \<and> (\<forall>v \<in> set (ld_vouchers s). v_id v < ld_next_id s) \<and>
    distinct (map v_number (ld_vouchers s)) \<and> (\<forall>v \<in> set (ld_vouchers s). v_number v < ld_next_number s) \<and>
    (\<forall>x \<in> set (ld_items s). vi_voucher x \<in> v_id ` set (ld_vouchers s)) \<and>
    (\<forall>x \<in> set (ld_items s). \<not> vi_deleted x \<longrightarrow> (\<exists>v \<in> set (ld_vouchers s). v_id v = vi_voucher x \<and> \<not> v_deleted v)) \<and>
    distinct (map fp_year (ld_periods s)) \<and>
    (\<forall>v \<in> set (ld_vouchers s). isStorageDate (v_date v))"

lemma ledger_wfD:
  assumes "ledger_wf s"
  shows "distinct (map v_id (ld_vouchers s))" "\<And>v. v \<in> set (ld_vouchers s) \<Longrightarrow> v_id v < ld_next_id s"
    "distinct (map v_number (ld_vouchers s))" "\<And>v. v \<in> set (ld_vouchers s) \<Longrightarrow> v_number v < ld_next_number s"
    "\<And>x. x \<in> set (ld_items s) \<Longrightarrow> vi_voucher x \<in> v_id ` set (ld_vouchers s)"
    "\<And>x. x \<in> set (ld_items s) \<Longrightarrow> \<not> vi_deleted x \<Longrightarrow> \<exists>v \<in> set (ld_vouchers s). v_id v = vi_voucher x \<and> \<not> v_deleted v"
    "distinct (map fp_year (ld_periods s))" "\<And>v. v \<in> set (ld_vouchers s) \<Longrightarrow> isStorageDate (v_date v)"
  using assms unfolding ledger_wf_def by blast+

lemma id_inject: "distinct (map f xs) \<Longrightarrow> x \<in> set xs \<Longrightarrow> y \<in> set xs \<Longrightarrow> f x = f y \<Longrightarrow> x = y"
  by (auto simp: distinct_map inj_on_def)

lemma live_voucher_iff:
  assumes "distinct (map v_id (ld_vouchers s))"
  shows "live_voucher s i = Some v \<longleftrightarrow> v \<in> set (ld_vouchers s) \<and> v_id v = i \<and> \<not> v_deleted v"
proof
  assume "live_voucher s i = Some v"
  then show "v \<in> set (ld_vouchers s) \<and> v_id v = i \<and> \<not> v_deleted v" unfolding live_voucher_def by (auto dest: find_SomeD)
next
  assume v: "v \<in> set (ld_vouchers s) \<and> v_id v = i \<and> \<not> v_deleted v"
  then have "live_voucher s i \<noteq> None" unfolding live_voucher_def by (auto simp: find_None_iff)
  then obtain w where w: "live_voucher s i = Some w" by auto
  then have "w \<in> set (ld_vouchers s)" "v_id w = i" unfolding live_voucher_def by (auto dest: find_SomeD)
  with v have "w = v" by (auto intro: id_inject [OF assms])
  with w show "live_voucher s i = Some v" by simp
qed

lemma any_voucher_iff:
  assumes "distinct (map v_id (ld_vouchers s))"
  shows "any_voucher s i = Some v \<longleftrightarrow> v \<in> set (ld_vouchers s) \<and> v_id v = i"
proof
  assume "any_voucher s i = Some v"
  then show "v \<in> set (ld_vouchers s) \<and> v_id v = i" unfolding any_voucher_def by (auto dest: find_SomeD)
next
  assume v: "v \<in> set (ld_vouchers s) \<and> v_id v = i"
  then have "any_voucher s i \<noteq> None" unfolding any_voucher_def by (auto simp: find_None_iff)
  then obtain w where w: "any_voucher s i = Some w" by auto
  then have "w \<in> set (ld_vouchers s)" "v_id w = i" unfolding any_voucher_def by (auto dest: find_SomeD)
  with v have "w = v" by (auto intro: id_inject [OF assms])
  with w show "any_voucher s i = Some v" by simp
qed

lemma live_any:
  assumes "distinct (map v_id (ld_vouchers s))"
  shows "live_voucher s i = Some v \<longleftrightarrow> any_voucher s i = Some v \<and> \<not> v_deleted v"
  by (auto simp: live_voucher_iff [OF assms] any_voucher_iff [OF assms])

lemma journal_iff:
  assumes "ledger_wf s"
  shows "journal_of s i = Some (v, rows) \<longleftrightarrow> v \<in> set (ld_vouchers s) \<and> v_id v = i \<and> \<not> v_deleted v \<and> rows = live_items s i"
  using live_voucher_iff [OF ledger_wfD(1) [OF assms], of i v] by (auto simp: journal_of_def)

lemma journal_None:
  assumes "ledger_wf s"
  shows "journal_of s i = None \<longleftrightarrow> (\<forall>v \<in> set (ld_vouchers s). v_id v = i \<longrightarrow> v_deleted v)"
  unfolding journal_of_def live_voucher_def by (auto simp: find_None_iff)

lemma journal_fresh: "ledger_wf s \<Longrightarrow> ld_next_id s \<le> i \<Longrightarrow> journal_of s i = None"
  unfolding journal_None using ledger_wfD(2) by fastforce

section \<open>What the writes do to the journal\<close>

lemma insertVoucherItems_eq: "insertVoucherItems rows s = s\<lparr>ld_items := ld_items s @ rows\<rparr>"
proof (induction rows s rule: insertVoucherItems.induct)
  case (1 rows s)
  show ?case
  proof (cases "rows = []")
    case True
    then show ?thesis by (subst insertVoucherItems.simps) simp
  next
    case False
    have "insertVoucherItems rows s = insertVoucherItems (drop VOUCHER_ITEM_INSERT_CHUNK rows)
        (s\<lparr>ld_items := ld_items s @ take VOUCHER_ITEM_INSERT_CHUNK rows\<rparr>)"
      using False by (subst insertVoucherItems.simps) (rule if_not_P)
    then show ?thesis using 1 [OF False] by simp
  qed
qed

lemma journal_cong:
  assumes "ld_vouchers s' = ld_vouchers s" "ld_items s' = ld_items s"
  shows "journal_of s' = journal_of s"
  using assms by (simp add: journal_of_def live_voucher_def live_items_def fun_eq_iff)

lemma wf_cong:
  assumes "ledger_wf s" "ld_vouchers s' = ld_vouchers s" "ld_items s' = ld_items s" "ld_next_id s' = ld_next_id s"
    "ld_next_number s \<le> ld_next_number s'" "distinct (map fp_year (ld_periods s'))"
  shows "ledger_wf s'"
  using assms unfolding ledger_wf_def by (auto intro: less_le_trans)

text \<open>Operations on the tables beside vouchers and rows.\<close>

lemma journal_side [simp]:
  "journal_of (terminateVoucherWorkflows i s) = journal_of s" "journal_of (start_workflow E i s) = journal_of s"
  "journal_of (ensureRow y s) = journal_of s"
  by (rule journal_cong; simp add: terminateVoucherWorkflows_def start_workflow_def ensureRow_def split: option.split)+

lemma wf_side [simp]:
  assumes "ledger_wf s"
  shows "ledger_wf (terminateVoucherWorkflows i s)" "ledger_wf (start_workflow E i s)" "ledger_wf (ensureRow y s)"
proof -
  have "period_of s y = None \<Longrightarrow> y \<notin> fp_year ` set (ld_periods s)" by (auto simp: period_of_def find_None_iff)
  then show "ledger_wf (ensureRow y s)"
    by (intro wf_cong [OF assms]) (auto simp: ensureRow_def ledger_wfD(7) [OF assms] split: option.splits)
qed (rule wf_cong [OF assms]; simp add: terminateVoucherWorkflows_def start_workflow_def ledger_wfD(7) [OF assms])+

lemma find_map: "List.find p (map g xs) = map_option g (List.find (\<lambda>x. p (g x)) xs)"
  by (induction xs) auto

lemma live_set_voucher:
  assumes "\<And>v. v_id (f v) = v_id v" "\<And>v. v_deleted (f v) = v_deleted v"
  shows "live_voucher (set_voucher i f s) j = (if j = i then map_option f (live_voucher s i) else live_voucher s j)"
proof -
  let ?g = "\<lambda>v. if v_id v = i then f v else v"
  have p: "(v_id (?g v) = j \<and> \<not> v_deleted (?g v)) = (v_id v = j \<and> \<not> v_deleted v)" for v using assms by simp
  have m: "live_voucher (set_voucher i f s) j = map_option ?g (live_voucher s j)"
    unfolding live_voucher_def set_voucher_def update_rows_def by (simp add: find_map p)
  show ?thesis
  proof (cases "live_voucher s j")
    case (Some v)
    then have "v_id v = j" unfolding live_voucher_def by (auto dest: find_SomeD)
    with Some m show ?thesis by auto
  qed (use m in auto)
qed

lemma journal_set_voucher:
  assumes "\<And>v. v_id (f v) = v_id v" "\<And>v. v_deleted (f v) = v_deleted v" "ledger_wf s" "journal_of s i = Some (v, rows)"
  shows "journal_of (set_voucher i f s) = (journal_of s)(i \<mapsto> (f v, rows))"
proof -
  have "live_items (set_voucher i f s) j = live_items s j" for j by (simp add: live_items_def set_voucher_def)
  moreover have "live_voucher s i = Some v" "rows = live_items s i" using assms(4) by (auto simp: journal_of_def)
  ultimately show ?thesis
    using live_set_voucher [OF assms(1,2)] by (auto simp: journal_of_def fun_eq_iff)
qed

lemma wf_set_voucher:
  assumes "\<And>v. v_id (f v) = v_id v" "\<And>v. v_deleted (f v) = v_deleted v" "\<And>v. v_number (f v) = v_number v" "ledger_wf s"
    "\<And>v. v \<in> set (ld_vouchers s) \<Longrightarrow> v_id v = i \<Longrightarrow> isStorageDate (v_date (f v))"
  shows "ledger_wf (set_voucher i f s)"
proof -
  have m: "map v_id (ld_vouchers (set_voucher i f s)) = map v_id (ld_vouchers s)"
    "map v_number (ld_vouchers (set_voucher i f s)) = map v_number (ld_vouchers s)"
    using assms(1,3) by (simp_all add: set_voucher_def map_update_rows)
  have ids: "v_id ` set (ld_vouchers (set_voucher i f s)) = v_id ` set (ld_vouchers s)" using m(1) by (metis list.set_map)
  have up: "\<exists>q \<in> set (ld_vouchers (set_voucher i f s)). v_id q = v_id v \<and> v_deleted q = v_deleted v" if "v \<in> set (ld_vouchers s)" for v
    by (rule bexI [where x = "if v_id v = i then f v else v"])
      (use updated_in [OF that, of "\<lambda>v. v_id v = i" f] assms(1,2) in \<open>simp_all add: set_voucher_def\<close>)
  note w = ledger_wfD [OF assms(4)]
  have fk: "\<exists>v \<in> set (ld_vouchers (set_voucher i f s)). v_id v = vi_voucher x \<and> \<not> v_deleted v"
    if "x \<in> set (ld_items s)" "\<not> vi_deleted x" for x
    using w(6) [OF that] up by metis
  show ?thesis unfolding ledger_wf_def m ids
    using w(1,2,3,4,5,7,8) assms fk by (auto simp: set_voucher_def in_update_rows)
qed

lemma live_items_other:
  assumes "ld_items s' = update_rows (item_of i) f (ld_items s)" "\<And>x. vi_voucher (f x) = vi_voucher x" "j \<noteq> i"
  shows "live_items s' j = live_items s j"
proof -
  have "filter (item_of j) (update_rows (item_of i) f xs) = filter (item_of j) xs" for xs
    using assms(2,3) by (induction xs) (auto simp: update_rows_def item_of_def)
  then show ?thesis by (simp add: live_items_def assms(1))
qed

lemma live_items_deleted:
  assumes "ld_items s' = update_rows (item_of i) (vi_deleted_update (\<lambda>_. True)) (ld_items s)"
  shows "live_items s' i = []"
proof -
  have "filter (item_of i) (update_rows (item_of i) (vi_deleted_update (\<lambda>_. True)) xs) = []" for xs
    by (induction xs) (auto simp: update_rows_def item_of_def)
  then show ?thesis unfolding live_items_def assms .
qed

lemma item_delete_simps [simp]:
  "ld_vouchers (delete_items i s) = ld_vouchers s" "ld_next_id (delete_items i s) = ld_next_id s"
  "ld_next_number (delete_items i s) = ld_next_number s" "ld_periods (delete_items i s) = ld_periods s"
  "ld_items (delete_items i s) = update_rows (item_of i) (vi_deleted_update (\<lambda>_. True)) (ld_items s)"
  by (simp_all add: delete_items_def)

lemma wf_items:
  assumes "ledger_wf s" "ld_vouchers s' = ld_vouchers s" "ld_next_id s' = ld_next_id s" "ld_next_number s' = ld_next_number s"
    "ld_periods s' = ld_periods s"
    "\<And>x. x \<in> set (ld_items s') \<Longrightarrow> \<exists>q \<in> set (ld_items s). vi_voucher x = vi_voucher q \<and> (\<not> vi_deleted x \<longrightarrow> \<not> vi_deleted q)"
  shows "ledger_wf s'"
proof -
  note w = ledger_wfD [OF assms(1)]
  have "vi_voucher x \<in> v_id ` set (ld_vouchers s)" if "x \<in> set (ld_items s')" for x
    using assms(6) [OF that] w(5) by metis
  moreover have "\<exists>v \<in> set (ld_vouchers s). v_id v = vi_voucher x \<and> \<not> v_deleted v" if "x \<in> set (ld_items s')" "\<not> vi_deleted x" for x
    using assms(6) [OF that(1)] that(2) w(6) by metis
  ultimately show ?thesis unfolding ledger_wf_def assms(2-5) using w(1-4,7,8) by blast
qed

lemma wf_delete_items:
  assumes "ledger_wf s" shows "ledger_wf (delete_items i s)"
proof (rule wf_items [OF assms])
  fix x assume "x \<in> set (ld_items (delete_items i s))"
  then obtain q where "q \<in> set (ld_items s)" "x = (if item_of i q then vi_deleted_update (\<lambda>_. True) q else q)"
    by (auto simp: in_update_rows)
  then show "\<exists>q \<in> set (ld_items s). vi_voucher x = vi_voucher q \<and> (\<not> vi_deleted x \<longrightarrow> \<not> vi_deleted q)"
    by (intro bexI [of _ q]) (simp_all split: if_splits)
qed simp_all

lemma journal_soft_delete:
  assumes "ledger_wf s"
  shows "journal_of (soft_delete i s) = (journal_of s)(i := None)" "ledger_wf (soft_delete i s)"
proof -
  let ?f = "v_deleted_update (\<lambda>_. True)"
  have items: "ld_items (soft_delete i s) = update_rows (item_of i) (vi_deleted_update (\<lambda>_. True)) (ld_items s)"
    and vs: "ld_vouchers (soft_delete i s) = update_rows (\<lambda>v. v_id v = i) ?f (ld_vouchers s)"
    by (simp_all add: soft_delete_def terminateVoucherWorkflows_def set_voucher_def delete_items_def)
  have li: "live_items (soft_delete i s) j = live_items s j" if "j \<noteq> i" for j
    by (rule live_items_other [OF items]) (use that in auto)
  have lv: "live_voucher (soft_delete i s) j = (if j = i then None else live_voucher s j)" for j
  proof -
    have "List.find (\<lambda>v. v_id v = j \<and> \<not> v_deleted v) (map (\<lambda>v. if v_id v = i then ?f v else v) xs) =
        (if j = i then None else List.find (\<lambda>v. v_id v = j \<and> \<not> v_deleted v) xs)" for xs
      by (induction xs) auto
    from this [of "ld_vouchers s"] show ?thesis unfolding live_voucher_def vs update_rows_def by simp
  qed
  show "journal_of (soft_delete i s) = (journal_of s)(i := None)" using li lv by (auto simp: journal_of_def fun_eq_iff)
  note w = ledger_wfD [OF assms]
  have m: "map v_id (ld_vouchers (soft_delete i s)) = map v_id (ld_vouchers s)"
    "map v_number (ld_vouchers (soft_delete i s)) = map v_number (ld_vouchers s)"
    by (simp_all add: vs map_update_rows)
  have ids: "v_id ` set (ld_vouchers (soft_delete i s)) = v_id ` set (ld_vouchers s)" using m(1) by (metis list.set_map)
  have rest: "ld_next_id (soft_delete i s) = ld_next_id s" "ld_next_number (soft_delete i s) = ld_next_number s"
    "ld_periods (soft_delete i s) = ld_periods s"
    by (simp_all add: soft_delete_def terminateVoucherWorkflows_def set_voucher_def delete_items_def)
  have fk: "\<exists>v \<in> set (ld_vouchers (soft_delete i s)). v_id v = vi_voucher x \<and> \<not> v_deleted v"
    if x: "x \<in> set (ld_items (soft_delete i s))" "\<not> vi_deleted x" for x
  proof -
    obtain q where q: "q \<in> set (ld_items s)" "x = (if item_of i q then vi_deleted_update (\<lambda>_. True) q else q)"
      using x(1) unfolding items in_update_rows by blast
    with x(2) have "x = q" "vi_voucher q \<noteq> i" "\<not> vi_deleted q" by (auto simp: item_of_def split: if_splits)
    moreover from w(6) [OF q(1)] this obtain v where "v \<in> set (ld_vouchers s)" "v_id v = vi_voucher q" "\<not> v_deleted v" by blast
    ultimately show ?thesis using updated_in [of v "ld_vouchers s" "\<lambda>v. v_id v = i" ?f] unfolding vs by fastforce
  qed
  show "ledger_wf (soft_delete i s)" unfolding ledger_wf_def m ids rest
    using w(1-5,7,8) fk unfolding items vs by (auto simp: in_update_rows)
qed

lemma live_items_append:
  assumes "ld_items s' = ld_items s @ rows" "\<And>x. x \<in> set rows \<Longrightarrow> vi_voucher x = i \<and> \<not> vi_deleted x"
  shows "live_items s' j = (if j = i then live_items s i @ rows else live_items s j)"
proof -
  have "filter (item_of i) rows = rows" using assms(2) by (simp add: filter_id_conv item_of_def)
  moreover have "j \<noteq> i \<Longrightarrow> filter (item_of j) rows = []" using assms(2) by (auto simp: filter_empty_conv item_of_def)
  ultimately show ?thesis by (simp add: live_items_def assms(1))
qed

text \<open>A voucher posted: the next id, its rows appended.\<close>

lemma journal_post:
  assumes "ledger_wf s" "ld_vouchers s' = ld_vouchers s @ [v\<lparr>v_id := ld_next_id s\<rparr>]" "ld_items s' = ld_items s @ rows"
    "ld_next_id s' = ld_next_id s + 1" "v_number v = ld_next_number s" "ld_next_number s' = ld_next_number s + 1"
    "ld_periods s' = ld_periods s" "\<And>x. x \<in> set rows \<Longrightarrow> vi_voucher x = ld_next_id s \<and> \<not> vi_deleted x"
    "\<not> v_deleted v" "isStorageDate (v_date v)"
  shows "journal_of s' = (journal_of s)(ld_next_id s \<mapsto> (v\<lparr>v_id := ld_next_id s\<rparr>, rows))" "ledger_wf s'"
proof -
  let ?i = "ld_next_id s"
  note w = ledger_wfD [OF assms(1)]
  have old: "List.find (\<lambda>v. v_id v = ?i \<and> \<not> v_deleted v) (ld_vouchers s) = None"
    unfolding find_None_iff_set using w(2) less_irrefl by metis
  have fresh: "?i \<notin> v_id ` set (ld_vouchers s)" "ld_next_number s \<notin> v_number ` set (ld_vouchers s)"
    using w(2,4) by (metis imageE less_irrefl)+
  have lv: "live_voucher s' j = (if j = ?i then Some (v\<lparr>v_id := ?i\<rparr>) else live_voucher s j)" for j
    using old assms(9) by (auto simp: live_voucher_def assms(2) find_append split: option.splits)
  have none: "live_items s ?i = []"
    using w(5) w(2) by (force simp: live_items_def filter_empty_conv item_of_def)
  have li: "live_items s' j = (if j = ?i then rows else live_items s j)" for j
    using live_items_append [OF assms(3) assms(8)] none by simp
  show "journal_of s' = (journal_of s)(?i \<mapsto> (v\<lparr>v_id := ?i\<rparr>, rows))" using lv li by (auto simp: journal_of_def fun_eq_iff)
  show "ledger_wf s'" unfolding ledger_wf_def assms(2,3,4,6,7)
    using w assms(5,8,9,10) fresh by (auto simp: less_Suc_eq)
qed

text \<open>An edit: the live rows of a voucher replaced, then its header.\<close>

lemma wf_rows_replaced:
  assumes "ledger_wf s" "live_voucher s i = Some v" "\<And>x. x \<in> set rows \<Longrightarrow> vi_voucher x = i \<and> \<not> vi_deleted x"
  shows "ledger_wf (insertVoucherItems rows (delete_items i s))"
    "journal_of (insertVoucherItems rows (delete_items i s)) = (journal_of s)(i \<mapsto> (v, rows))"
proof -
  let ?s = "insertVoucherItems rows (delete_items i s)"
  have v: "v \<in> set (ld_vouchers s)" "v_id v = i" "\<not> v_deleted v"
    using assms(2) live_voucher_iff [OF ledger_wfD(1) [OF assms(1)]] by auto
  note w = wf_delete_items [OF assms(1), of i]
  have "\<exists>w \<in> set (ld_vouchers s). v_id w = vi_voucher x \<and> \<not> v_deleted w" if "x \<in> set rows" for x
    using v assms(3) [OF that] by auto
  then show "ledger_wf ?s" using w assms(3) unfolding insertVoucherItems_eq ledger_wf_def by fastforce
  have "live_items ?s j = (if j = i then rows else live_items s j)" for j
    using live_items_append [of ?s "delete_items i s" rows i j] assms(3) live_items_deleted [of "delete_items i s" i s]
      live_items_other [of "delete_items i s" i _ s j]
    by (auto simp: insertVoucherItems_eq)
  then show "journal_of ?s = (journal_of s)(i \<mapsto> (v, rows))"
    using assms(2) by (auto simp: journal_of_def fun_eq_iff insertVoucherItems_eq live_voucher_def)
qed
section \<open>Entries of the journal\<close>

text \<open>
  A voucher with its live rows: the header holds the sums of the rows, amounts are not negative and
  within bounds, and the rows balance.
\<close>

fun entry_ok :: "voucher \<times> vitem list \<Rightarrow> bool" where
  "entry_ok (v, rows) \<longleftrightarrow>
    rows \<noteq> [] \<and> v_currency v \<noteq> '''' \<and>
    (\<forall>x \<in> set rows. vi_voucher x = v_id v \<and> \<not> vi_deleted x \<and> vi_currency x \<noteq> '''' \<and>
      money4 (vi_debit x) \<and> money4 (vi_credit x) \<and> money4 (vi_rate x) \<and> 0 \<le> vi_debit x \<and> 0 \<le> vi_credit x) \<and>
    v_debit v = sum_list (map vi_debit rows) \<and> v_credit v = sum_list (map vi_credit rows) \<and>
    money4 (v_debit v) \<and> money4 (v_credit v) \<and>
    balanced_rows (Some (v_currency v)) (map balance_row_of rows)"

declare entry_ok.simps [simp del]

lemma char_upper_upper: "char_upper (char_upper c) = char_upper c"
proof (cases "97 \<le> (of_char c :: nat) \<and> of_char c \<le> (122 :: nat)")
  case True
  then have "of_char c - 32 < (256 :: nat)" by linarith
  then have "of_char (char_of (of_char c - 32 :: nat)) = (of_char c - 32 :: nat)" by simp
  with True show ?thesis by (auto simp: char_upper_def Let_def)
next
  case False
  then have "char_upper c = c" unfolding char_upper_def Let_def by (rule if_not_P)
  then show ?thesis by simp
qed

lemma js_space_upper: "js_space (char_upper c) = js_space c"
proof (cases "97 \<le> (of_char c :: nat) \<and> of_char c \<le> (122 :: nat)")
  case True
  then have "of_char c - 32 < (256 :: nat)" by linarith
  then have "of_char (char_of (of_char c - 32 :: nat)) = (of_char c - 32 :: nat)" by simp
  with True show ?thesis by (auto simp: char_upper_def js_space_def Let_def)
next
  case False
  then have "char_upper c = c" unfolding char_upper_def Let_def by (rule if_not_P)
  then show ?thesis by simp
qed

lemma js_trim_upper: "js_trim (js_upper s) = js_upper (js_trim s)"
  by (simp add: js_trim_def js_upper_def dropWhile_map rev_map comp_def js_space_upper)

lemma js_upper_upper: "js_upper (js_upper s) = js_upper s"
  by (simp add: js_upper_def char_upper_upper)

lemma js_trim_trim: "js_trim (js_trim s) = js_trim s"
proof -
  define t where "t = dropWhile js_space s"
  define u where "u = rev (dropWhile js_space (rev t))"
  have ru: "rev u = dropWhile js_space (rev t)" by (simp add: u_def)
  obtain w where w: "t = u @ w" unfolding u_def by (metis rev_append rev_rev_ident takeWhile_dropWhile_id)
  have t: "t = [] \<or> \<not> js_space (hd t)" unfolding t_def by (metis hd_dropWhile)
  have "dropWhile js_space u = u"
  proof (cases u)
    case (Cons c r)
    with w t show ?thesis by simp
  qed simp
  moreover have "dropWhile js_space (rev u) = rev u" unfolding ru by simp
  ultimately show ?thesis by (simp add: js_trim_def flip: t_def u_def)
qed

lemma currencyCode_idem:
  assumes "currencyCode v = Some c" shows "c \<noteq> ''''" "currencyCode (Some c) = Some c"
proof -
  note irr = currencyCode_IRR
  obtain w where w: "v = Some w" "js_upper (js_trim w) \<noteq> ''''"
    using assms by (auto simp: currencyCode_def Let_def split: option.splits if_splits)
  have c: "c = ''IRR'' \<or> (c = js_upper (js_trim w) \<and> c \<noteq> rial_fa)"
    using assms w by (auto simp: currencyCode_def Let_def split: if_splits)
  then show "c \<noteq> ''''" using w by auto
  have e: "js_upper (js_trim (js_upper (js_trim w))) = js_upper (js_trim w)"
    by (simp add: js_trim_upper js_upper_upper js_trim_trim)
  from c show "currencyCode (Some c) = Some c"
  proof
    assume "c = js_upper (js_trim w) \<and> c \<noteq> rial_fa"
    then show ?thesis using e w(2) by (auto simp: currencyCode_def Let_def)
  qed (simp add: irr)
qed

lemma voucherRowCurrency_fixed: "voucherRowCurrency (Some (voucherRowCurrency r vc)) vc' = voucherRowCurrency r vc"
  by (auto simp: voucherRowCurrency_def currencyCode_idem(2) currencyCode_IRR split: option.split)

lemma voucherRowCurrency_nonempty: "voucherRowCurrency r vc \<noteq> ''''"
  by (auto simp: voucherRowCurrency_def currencyCode_idem(1) split: option.split)

lemma voucherRowCurrency_header: "voucherRowCurrency r (Some (str_or vc ''IRR'')) = voucherRowCurrency r vc"
  using currencyCode_IRR currencyCode_Nil by (auto simp: voucherRowCurrency_def str_or_def currencyCode_def split: option.split)

definition stored_currency_agrees :: "string option \<Rightarrow> 'a balance_row_scheme \<Rightarrow> bool" where
  "stored_currency_agrees vc r \<longleftrightarrow> voucherRowCurrency (Some (str_or (br_currency r) ''IRR'')) vc = voucherRowCurrency (br_currency r) vc"

text \<open>Automatic vouchers name the currency of each row, or have one currency.\<close>

definition currencies_kept :: "string option \<Rightarrow> 'a balance_row_scheme list \<Rightarrow> bool" where
  "currencies_kept vc rows \<longleftrightarrow> same_currency vc rows \<or> (\<forall>r \<in> set rows. stored_currency_agrees vc r)"

definition checked_balance :: "string option \<Rightarrow> 'a balance_row_scheme list \<Rightarrow> bool" where
  "checked_balance vc rows \<longleftrightarrow> rows_fit rows \<and> entry_amounts rows \<and>
    (\<bar>raw_debit rows - raw_credit rows\<bar> \<le> 1 / 100 \<or>
      (rated vc rows \<and> \<bar>rial_debit vc rows - rial_credit vc rows\<bar> \<le> 1 / 100 \<and> (\<forall>r \<in> set rows. stored_currency_agrees vc r)))"

text \<open>Completing the details of rows leaves amounts, currencies and rates alone.\<close>

definition row_money :: "'a vrow_scheme \<Rightarrow> rat \<times> rat \<times> string option \<times> rat option \<times> int" where
  "row_money r = (br_debit r, br_credit r, br_currency r, br_rate r, vr_account r)"

lemma checked_balance_cong:
  assumes "map row_money rows = map row_money rows'"
  shows "checked_balance vc rows = checked_balance vc rows'" "raw_debit rows = raw_debit rows'" "raw_credit rows = raw_credit rows'"
proof -
  have s: "raw_debit rs = sum_list (map fst (map row_money rs))" "raw_credit rs = sum_list (map (\<lambda>m. fst (snd m)) (map row_money rs))"
    "rial_debit vc rs = sum_list (map (\<lambda>(d, c, u, r, a). row_rial vc \<lparr>br_debit = d, br_credit = c, br_currency = u, br_rate = r\<rparr> d) (map row_money rs))"
    "rial_credit vc rs = sum_list (map (\<lambda>(d, c, u, r, a). row_rial vc \<lparr>br_debit = d, br_credit = c, br_currency = u, br_rate = r\<rparr> c) (map row_money rs))"
    "rated vc rs \<longleftrightarrow> (\<forall>(d, c, u, r, a) \<in> set (map row_money rs). rr_rate (resolve_row vc \<lparr>br_debit = d, br_credit = c, br_currency = u, br_rate = r\<rparr>) \<noteq> None)"
    "(\<forall>r \<in> set rs. stored_currency_agrees vc r) \<longleftrightarrow> (\<forall>(d, c, u, r, a) \<in> set (map row_money rs). stored_currency_agrees vc \<lparr>br_debit = d, br_credit = c, br_currency = u, br_rate = r\<rparr>)"
    "entry_amounts rs \<longleftrightarrow> (\<forall>(d, c, u, r, a) \<in> set (map row_money rs). 0 \<le> d \<and> 0 \<le> c \<and> \<not> (d = 0 \<and> c = 0))"
    "rows_fit rs \<longleftrightarrow> length (map row_money rs) \<le> 1000 \<and>
      (\<forall>(d, c, u, r, a) \<in> set (map row_money rs). row_fits \<lparr>br_debit = d, br_credit = c, br_currency = u, br_rate = r\<rparr>) \<and>
      sum_list (map (\<lambda>m. \<bar>fst m\<bar>) (map row_money rs)) < 10 ^ 11 \<and> sum_list (map (\<lambda>m. \<bar>fst (snd m)\<bar>) (map row_money rs)) < 10 ^ 11"
    for rs :: "'z vrow_scheme list"
    by (simp_all add: raw_debit_def raw_credit_def rial_debit_def rial_credit_def rated_def entry_amounts_def rows_fit_def list_all_iff
      row_money_def comp_def row_rial_def resolve_row_def row_fits_def stored_currency_agrees_def Let_def)
  show "checked_balance vc rows = checked_balance vc rows'" unfolding checked_balance_def s assms ..
  show "raw_debit rows = raw_debit rows'" "raw_credit rows = raw_credit rows'" unfolding s(1,2) assms by (rule refl)+
qed

lemma resolve_detail_money: "resolve_detail E r = Some q \<Longrightarrow> row_money q = row_money r"
  by (auto simp: resolve_detail_def row_money_def Let_def split: if_splits option.splits)

lemma manual_checks_money:
  assumes "manual_checks E m control replaced rows = Inr (reason, items)"
  shows "map row_money items = map row_money rows"
proof (cases m)
  case True
  then obtain p where d: "resolveManualRowDetails E rows = Inr items"
    using assms by (auto simp: manual_checks_def res_bind_Inr)
  have "row_money (case resolve_detail E r of Some q \<Rightarrow> q | None \<Rightarrow> r) = row_money r" for r
    by (auto split: option.split dest: resolve_detail_money)
  then show ?thesis using d by (auto simp: resolveManualRowDetails_def Let_def split: if_splits)
qed (use assms in \<open>simp add: manual_checks_def\<close>)
section \<open>Stored rows balance\<close>

lemma sum_enumerate: "map (\<lambda>x. f (snd x)) (enumerate n xs) = map f xs"
  by (induction xs arbitrary: n) auto

lemma input_item_simps [simp]:
  "vi_voucher (input_item L i p) = i" "vi_deleted (input_item L i p) = False" "vi_account (input_item L i p) = vr_account (snd p)"
  "vi_debit (input_item L i p) = fin_toDb L (br_debit (snd p))" "vi_credit (input_item L i p) = fin_toDb L (br_credit (snd p))"
  "vi_currency (input_item L i p) = str_or (br_currency (snd p)) ''IRR''"
  "vi_rate (input_item L i p) = fin_toDb L (moneyOr (br_rate (snd p)) 1)"
  by (simp_all add: input_item_def split: prod.split)

lemma reversed_item_simps [simp]:
  "vi_voucher (reversed_item L i p) = i" "vi_deleted (reversed_item L i p) = False" "vi_account (reversed_item L i p) = vi_account (snd p)"
  "vi_debit (reversed_item L i p) = fin_toDb L (vi_credit (snd p))" "vi_credit (reversed_item L i p) = fin_toDb L (vi_debit (snd p))"
  "vi_currency (reversed_item L i p) = str_or (Some (vi_currency (snd p))) ''IRR''"
  "vi_rate (reversed_item L i p) = fin_toDb L (moneyOr (Some (vi_rate (snd p))) 1)"
  "vi_did (reversed_item L i p) = id_or (vi_did (snd p))" "vi_dtype (reversed_item L i p) = str_or (Some (vi_dtype (snd p))) ''none''"
  by (simp_all add: reversed_item_def split: prod.split)

lemma balance_row_of_simps [simp]:
  "br_debit (balance_row_of x) = vi_debit x" "br_credit (balance_row_of x) = vi_credit x"
  "br_currency (balance_row_of x) = Some (vi_currency x)" "br_rate (balance_row_of x) = Some (vi_rate x)"
  by (simp_all add: balance_row_of_def)

context decimal_js begin

lemma toDb_money4 [simp]: "money4 x \<Longrightarrow> fin_toDb L x = x"
  by (simp add: fin_toDb_def round_half_up money4_def)

lemma moneyOr_money4: "(\<And>x. r = Some x \<Longrightarrow> money4 x) \<Longrightarrow> money4 (moneyOr r 1)"
  by (auto simp: moneyOr_def money4_def split: option.split)

lemma stored_resolve:
  assumes "row_fits r" "rr_rate (resolve_row vc r) \<noteq> None" "stored_currency_agrees vc r"
  shows "resolve_row vc (balance_row_of (input_item L i (k, r))) = resolve_row vc r"
proof -
  have m: "money4 (br_debit r)" "money4 (br_credit r)" "\<And>x. br_rate r = Some x \<Longrightarrow> money4 x"
    using assms(1) by (auto simp: row_fits_def split: option.splits)
  let ?c = "voucherRowCurrency (br_currency r) vc"
  have c: "voucherRowCurrency (Some (str_or (br_currency r) ''IRR'')) vc = ?c" using assms(3) by (simp add: stored_currency_agrees_def)
  have "voucherRowRate ?c (Some (fin_toDb L (moneyOr (br_rate r) 1))) = voucherRowRate ?c (br_rate r)"
  proof (cases "?c = ''IRR''")
    case False
    then obtain x where "br_rate r = Some x" "0 < x"
      using assms(2) by (auto simp: resolve_row_def Let_def voucherRowRate_def split: option.splits if_splits)
    then show ?thesis using m(3) by (simp add: moneyOr_def)
  qed (simp add: voucherRowRate_def)
  then show ?thesis using c m by (simp add: resolve_row_def Let_def)
qed

lemma stored_sums:
  assumes "rows_fit rows"
  shows "map vi_debit (map (input_item L i) (enumerate n rows)) = map br_debit rows"
    "map vi_credit (map (input_item L i) (enumerate n rows)) = map br_credit rows"
proof -
  have "map vi_debit (map (input_item L i) (enumerate n rows)) = map (\<lambda>p. fin_toDb L (br_debit (snd p))) (enumerate n rows)"
    "map vi_credit (map (input_item L i) (enumerate n rows)) = map (\<lambda>p. fin_toDb L (br_credit (snd p))) (enumerate n rows)" by simp_all
  note e = this [unfolded sum_enumerate [of "\<lambda>r. fin_toDb L (br_debit r)"] sum_enumerate [of "\<lambda>r. fin_toDb L (br_credit r)"]]
  show "map vi_debit (map (input_item L i) (enumerate n rows)) = map br_debit rows"
    "map vi_credit (map (input_item L i) (enumerate n rows)) = map br_credit rows"
    unfolding e using rows_fit_money4 [OF assms] by auto
qed

lemma raw_of_items: "raw_debit (map balance_row_of xs) = sum_list (map vi_debit xs)" "raw_credit (map balance_row_of xs) = sum_list (map vi_credit xs)"
  by (simp_all add: raw_debit_def raw_credit_def comp_def)

lemma stored_balanced:
  assumes "checked_balance vc rows"
  shows "balanced_rows (Some (str_or vc ''IRR'')) (map balance_row_of (map (input_item L i) (enumerate n rows)))"
proof -
  let ?stored = "map balance_row_of (map (input_item L i) (enumerate n rows))"
  have fit: "rows_fit rows" using assms by (simp add: checked_balance_def)
  have raw: "raw_debit ?stored = raw_debit rows" "raw_credit ?stored = raw_credit rows"
    unfolding raw_of_items stored_sums [OF fit] by (simp_all add: raw_debit_def raw_credit_def)
  have vc: "resolve_row (Some (str_or vc ''IRR'')) r = resolve_row vc r" for r :: "'z balance_row_scheme"
    by (simp add: resolve_row_def voucherRowCurrency_header)
  have bal: "balanced_rows (Some (str_or vc ''IRR'')) rs = balanced_rows vc rs" for rs :: "'z balance_row_scheme list"
    by (simp add: balanced_rows_def rated_def rial_debit_def rial_credit_def row_rial_def voucherRowCurrency_header vc)
  from assms consider "\<bar>raw_debit rows - raw_credit rows\<bar> \<le> 1 / 100" | "rated vc rows" "\<bar>rial_debit vc rows - rial_credit vc rows\<bar> \<le> 1 / 100"
    "\<forall>r \<in> set rows. stored_currency_agrees vc r"
    by (auto simp: checked_balance_def)
  then have "balanced_rows vc ?stored"
  proof cases
    case 1
    then show ?thesis unfolding balanced_rows_def raw by simp
  next
    case 2
    have "resolve_row vc (balance_row_of (input_item L i p)) = resolve_row vc (snd p)" if "p \<in> set (enumerate n rows)" for p
    proof -
      have "snd p \<in> set rows" using that by (metis imageI map_snd_enumerate set_map)
      then show ?thesis
        using stored_resolve [of "snd p" vc i "fst p"] rows_fit_row [OF fit] 2(1,3) by (simp add: rated_def)
    qed
    then have "map (resolve_row vc) ?stored = map (\<lambda>p. resolve_row vc (snd p)) (enumerate n rows)" by simp
    also have "\<dots> = map (resolve_row vc) rows" by (rule sum_enumerate)
    finally have "balanced_rows vc ?stored = balanced_rows vc rows" by (rule balanced_rows_cong)
    then show ?thesis using 2 by (simp add: balanced_rows_def)
  qed
  then show ?thesis unfolding bal .
qed

lemma input_entry_ok:
  assumes "checked_balance vc rows" "v_id v = i" "v_currency v = str_or vc ''IRR''" "rows \<noteq> []"
    "v_debit v = raw_debit rows" "v_credit v = raw_credit rows"
  shows "entry_ok (v, map (input_item L i) (enumerate 0 rows))"
proof -
  have fit: "rows_fit rows" and ent: "entry_amounts rows" using assms(1) by (simp_all add: checked_balance_def)
  have mem: "snd p \<in> set rows" if "p \<in> set (enumerate 0 rows)" for p using that by (metis imageI map_snd_enumerate set_map)
  have each: "vi_voucher x = v_id v \<and> \<not> vi_deleted x \<and> vi_currency x \<noteq> '''' \<and> money4 (vi_debit x) \<and> money4 (vi_credit x) \<and>
      money4 (vi_rate x) \<and> 0 \<le> vi_debit x \<and> 0 \<le> vi_credit x"
    if x: "x \<in> set (map (input_item L i) (enumerate 0 rows))" for x
  proof -
    obtain p where p: "x = input_item L i p" "snd p \<in> set rows" using x mem by auto
    have r: "row_fits (snd p)" by (rule rows_fit_row [OF fit p(2)])
    then have "money4 (br_debit (snd p))" "money4 (br_credit (snd p))" "money4 (moneyOr (br_rate (snd p)) 1)"
      by (auto simp: row_fits_def intro!: moneyOr_money4)
    moreover have "0 \<le> br_debit (snd p)" "0 \<le> br_credit (snd p)" using ent p(2) by (auto simp: entry_amounts_def)
    ultimately show ?thesis using p assms(2) by (auto simp: str_or_def split: option.split)
  qed
  show ?thesis unfolding entry_ok.simps assms(5,6) stored_sums [OF fit]
    using each assms(3,4) stored_balanced [OF assms(1), of i 0] raw_money4 [OF fit]
    by (auto simp: raw_debit_def raw_credit_def str_or_def enumerate_eq_zip split: option.split)
qed

end
lemma sum_list_mset_cong:
  fixes f :: "'a \<Rightarrow> rat"
  shows "mset xs = mset ys \<Longrightarrow> sum_list (map f xs) = sum_list (map f ys)"
  by (metis mset_map sum_mset_sum_list)

lemma mset_ordered_items: "mset (ordered_items s i) = mset (live_items s i)"
  by (simp add: ordered_items_def)

definition swap_row :: "resolved_row \<Rightarrow> resolved_row" where
  "swap_row r = r\<lparr>rr_debit := rr_credit r, rr_credit := rr_debit r\<rparr>"

context decimal_js begin

lemma reversed_resolve:
  assumes "money4 (vi_debit x)" "money4 (vi_credit x)" "money4 (vi_rate x)" "vi_currency x \<noteq> ''''"
    "rr_rate (resolve_row vc (balance_row_of x)) \<noteq> None"
  shows "resolve_row vc (balance_row_of (reversed_item L i (k, x))) = swap_row (resolve_row vc (balance_row_of x))"
proof -
  let ?c = "voucherRowCurrency (Some (vi_currency x)) vc"
  have "voucherRowRate ?c (Some (fin_toDb L (moneyOr (Some (vi_rate x)) 1))) = voucherRowRate ?c (Some (vi_rate x))"
  proof (cases "?c = ''IRR''")
    case False
    then have "0 < vi_rate x" using assms(5) by (auto simp: resolve_row_def Let_def voucherRowRate_def split: if_splits)
    then show ?thesis using assms(3) by (simp add: moneyOr_def)
  qed (simp add: voucherRowRate_def)
  then show ?thesis using assms(1,2,4) by (simp add: resolve_row_def Let_def swap_row_def str_or_def)
qed

lemma reversed_entry_ok:
  assumes "entry_ok (v, rows)" "mset orig = mset rows" "v_id w = i" "v_currency w = v_currency v"
    "v_debit w = v_credit v" "v_credit w = v_debit v"
  shows "entry_ok (w, map (reversed_item L i) (enumerate 0 orig))"
proof -
  let ?new = "map (reversed_item L i) (enumerate 0 orig)"
  let ?vc = "Some (v_currency v)"
  have each: "vi_currency x \<noteq> ''''" "money4 (vi_debit x)" "money4 (vi_credit x)" "money4 (vi_rate x)" "0 \<le> vi_debit x" "0 \<le> vi_credit x"
    if "x \<in> set orig" for x
    using assms(1) that mset_eq_setD [OF assms(2)] by (auto simp: entry_ok.simps)
  have mem: "snd p \<in> set orig" if "p \<in> set (enumerate 0 orig)" for p using that by (metis imageI map_snd_enumerate set_map)
  have "map vi_debit ?new = map (\<lambda>p. fin_toDb L (vi_credit (snd p))) (enumerate 0 orig)"
    "map vi_credit ?new = map (\<lambda>p. fin_toDb L (vi_debit (snd p))) (enumerate 0 orig)" by simp_all
  note e = this [unfolded sum_enumerate [of "\<lambda>x. fin_toDb L (vi_credit x)"] sum_enumerate [of "\<lambda>x. fin_toDb L (vi_debit x)"]]
  have sums: "sum_list (map vi_debit ?new) = sum_list (map vi_credit rows)" "sum_list (map vi_credit ?new) = sum_list (map vi_debit rows)"
    unfolding e sum_list_mset_cong [OF assms(2), symmetric] using each by (simp_all cong: map_cong)
  have bal: "balanced_rows ?vc (map balance_row_of ?new)"
  proof (cases "\<bar>raw_debit (map balance_row_of rows) - raw_credit (map balance_row_of rows)\<bar> \<le> 1 / 100")
    case True
    then show ?thesis unfolding balanced_rows_def raw_of_items sums by (simp add: abs_minus_commute)
  next
    case False
    then have rated: "rated ?vc (map balance_row_of rows)"
      and gap: "\<bar>rial_debit ?vc (map balance_row_of rows) - rial_credit ?vc (map balance_row_of rows)\<bar> \<le> 1 / 100"
      using assms(1) by (auto simp: entry_ok.simps balanced_rows_def)
    have rate: "rr_rate (resolve_row ?vc (balance_row_of x)) \<noteq> None" if "x \<in> set orig" for x
      using rated that mset_eq_setD [OF assms(2)] by (auto simp: rated_def)
    have sw: "resolve_row ?vc (balance_row_of (reversed_item L i p)) = swap_row (resolve_row ?vc (balance_row_of (snd p)))"
      if "p \<in> set (enumerate 0 orig)" for p
      using reversed_resolve [of "snd p" ?vc i "fst p"] each [OF mem [OF that]] rate [OF mem [OF that]] by simp
    have row: "row_rial vc r a = rial_amount (rr_currency (resolve_row vc r)) (rr_rate (resolve_row vc r)) a" for r :: "'z balance_row_scheme" and vc a
      by (simp add: row_rial_def resolve_row_def Let_def)
    let ?f = "\<lambda>g x. let r = resolve_row ?vc (balance_row_of x) in rial_amount (rr_currency r) (rr_rate r) (g r)"
    have new: "rated ?vc (map balance_row_of ?new)"
      using sw rate mem by (auto simp: rated_def swap_row_def)
    have nd: "row_rial ?vc (balance_row_of (reversed_item L i p)) (br_debit (balance_row_of (reversed_item L i p))) = ?f rr_credit (snd p)"
      "row_rial ?vc (balance_row_of (reversed_item L i p)) (br_credit (balance_row_of (reversed_item L i p))) = ?f rr_debit (snd p)"
      if "p \<in> set (enumerate 0 orig)" for p
      by (simp_all add: row sw [OF that] swap_row_def each [OF mem [OF that]] Let_def)
    have "rial_debit ?vc (map balance_row_of ?new) = sum_list (map (\<lambda>p. ?f rr_credit (snd p)) (enumerate 0 orig))"
      "rial_credit ?vc (map balance_row_of ?new) = sum_list (map (\<lambda>p. ?f rr_debit (snd p)) (enumerate 0 orig))"
      unfolding rial_debit_def rial_credit_def map_map comp_def by (simp_all only: nd cong: map_cong)
    then have "rial_debit ?vc (map balance_row_of ?new) = rial_credit ?vc (map balance_row_of rows)"
      "rial_credit ?vc (map balance_row_of ?new) = rial_debit ?vc (map balance_row_of rows)"
      unfolding sum_enumerate [of "?f rr_credit"] sum_enumerate [of "?f rr_debit"] sum_list_mset_cong [OF assms(2)]
      by (simp_all add: rial_debit_def rial_credit_def row comp_def Let_def)
    with new gap show ?thesis by (simp add: balanced_rows_def abs_minus_commute)
  qed
  have "\<forall>x \<in> set ?new. vi_voucher x = v_id w \<and> \<not> vi_deleted x \<and> vi_currency x \<noteq> '''' \<and>
      money4 (vi_debit x) \<and> money4 (vi_credit x) \<and> money4 (vi_rate x) \<and> 0 \<le> vi_debit x \<and> 0 \<le> vi_credit x"
    using each mem assms(3) by (auto simp: str_or_def moneyOr_def money4_def)
  moreover have "orig \<noteq> []" using assms(1,2) by (auto simp: entry_ok.simps)
  then have "?new \<noteq> []" by (cases orig) simp_all
  moreover have "v_debit w = sum_list (map vi_debit ?new)" "v_credit w = sum_list (map vi_credit ?new)" "money4 (v_debit w)" "money4 (v_credit w)"
    "v_currency w \<noteq> ''''" unfolding sums assms(4-6) using assms(1) by (auto simp: entry_ok.simps)
  ultimately show ?thesis using bal unfolding entry_ok.simps assms(4) by blast
qed

text \<open>Rows a service accepted.\<close>

lemma resolveManual_Inr:
  assumes "resolveManualVoucherRows L items vc = Inr (rows, tot)"
  shows "rows = map (manual_row L vc) items" "assertVoucherRowsBalanced L rows vc True = Inr tot"
    "\<forall>r \<in> set items. voucherRowRate (voucherRowCurrency (br_currency r) vc) (br_rate r) \<noteq> None"
proof -
  let ?missing = "row_numbers (\<lambda>item. voucherRowRate (voucherRowCurrency (br_currency item) vc) (br_rate item) = None) items"
  have m: "?missing = []" using assms by (rule contrapos_pp) (simp add: resolveManualVoucherRows_def Let_def)
  then show "\<forall>r \<in> set items. voucherRowRate (voucherRowCurrency (br_currency r) vc) (br_rate r) \<noteq> None"
    by (simp add: row_numbers_Nil)
  have "res_bind (assertVoucherRowsBalanced L (map (manual_row L vc) items) vc True) (\<lambda>t. Inr (map (manual_row L vc) items, t)) = Inr (rows, tot)"
    using assms m by (simp add: resolveManualVoucherRows_def Let_def)
  then show "rows = map (manual_row L vc) items" "assertVoucherRowsBalanced L rows vc True = Inr tot"
    by (auto simp: res_bind_Inr)
qed

lemma checked_rows_ok:
  assumes "checked_rows L m vc items = Inr (rows, tot)" "rows_fit items" "m \<or> currencies_kept vc items"
  shows "checked_balance vc rows" "tot = (raw_debit rows, raw_credit rows)" "length rows = length items"
proof -
  have goal: "checked_balance vc rows \<and> tot = (raw_debit rows, raw_credit rows) \<and> length rows = length items"
  proof (cases m)
    case False
    then have a: "assertVoucherRowsBalanced L items vc False = Inr tot" "rows = items"
      using assms(1) by (auto simp: checked_rows_def res_bind_Inr)
    have "currencies_kept vc items" using assms(3) False by simp
    note b = assert_balanced_exact [THEN iffD1, OF assms(2) a(1)]
    show ?thesis
    proof (cases "same_currency vc items")
      case True
      then have "\<bar>raw_debit items - raw_credit items\<bar> \<le> 1 / 100" using b by simp
      then show ?thesis using b assms(2) a(2) unfolding checked_balance_def by blast
    next
      case False
      then have "rated vc items" "\<bar>rial_debit vc items - rial_credit vc items\<bar> \<le> 1 / 100" using b by simp_all
      moreover have "\<forall>r \<in> set items. stored_currency_agrees vc r"
        using \<open>currencies_kept vc items\<close> False by (simp add: currencies_kept_def)
      ultimately show ?thesis using b assms(2) a(2) unfolding checked_balance_def by blast
    qed
  next
    case True
    then have r: "rows = map (manual_row L vc) items" and b: "assertVoucherRowsBalanced L rows vc True = Inr tot"
      and rated: "\<forall>r \<in> set items. voucherRowRate (voucherRowCurrency (br_currency r) vc) (br_rate r) \<noteq> None"
      using resolveManual_Inr [of items vc rows tot] assms(1) by (simp_all add: checked_rows_def)
    have fits: "row_fits (manual_row L vc r)" if "r \<in> set items" for r
    proof -
      have f: "row_fits r" by (rule rows_fit_row [OF assms(2) that])
      have "voucherRowRate (voucherRowCurrency (br_currency r) vc) (br_rate r) \<noteq> None" using rated that by simp
      then obtain x where x: "voucherRowRate (voucherRowCurrency (br_currency r) vc) (br_rate r) = Some x" by auto
      then have "money4 x" using f by (auto simp: voucherRowRate_def row_fits_def money4_def split: if_splits option.splits)
      then show ?thesis using f x by (simp add: manual_row_def Let_def row_fits_def round_half_up money4_def)
    qed
    have am: "br_debit (manual_row L vc r) = br_debit r" "br_credit (manual_row L vc r) = br_credit r" for r :: vrow
      by (simp_all add: manual_row_def Let_def)
    have fit: "rows_fit rows" using assms(2) fits unfolding r by (simp add: rows_fit_def list_all_iff comp_def am)
    have agree: "stored_currency_agrees vc q" if "q \<in> set rows" for q
      using that voucherRowCurrency_nonempty
      by (auto simp: r manual_row_def Let_def stored_currency_agrees_def str_or_def)
    note e = assert_balanced_exact [THEN iffD1, OF fit b]
    have "\<bar>raw_debit rows - raw_credit rows\<bar> \<le> 1 / 100 \<or> (rated vc rows \<and> \<bar>rial_debit vc rows - rial_credit vc rows\<bar> \<le> 1 / 100)"
      using e by (cases "same_currency vc rows \<and> same_rate vc rows") auto
    then have "checked_balance vc rows" using e fit agree unfolding checked_balance_def by blast
    then show ?thesis using e r by simp
  qed
  then show "checked_balance vc rows" "tot = (raw_debit rows, raw_credit rows)" "length rows = length items" by simp_all
qed

end
end
