(* ===== verification/VoucherRun.thy ===== *)
theory VoucherRun
  imports VoucherFacts
begin

text \<open>
  The abstract specification of the journal and the refinement: a journal maps ids to balanced entries
  and changes by posting, editing, removing and setting a status (\<open>jstep\<close>); every operation of the voucher
  service that succeeds is a sequence of such moves (\<open>refines\<close>) and keeps the invariant \<open>books_ok\<close>.
\<close>

section \<open>What a journal may do\<close>

definition reverses :: "voucher \<Rightarrow> voucher \<Rightarrow> bool" where
  "reverses r original \<longleftrightarrow> v_ref_id r = Some (v_id original) \<and> v_ref r \<in> {rev_ref original, void_repost_ref original}"

definition reversed_in :: "journal \<Rightarrow> voucher \<Rightarrow> bool" where
  "reversed_in J v \<longleftrightarrow> (\<exists>k r p. J k = Some (r, p) \<and> reverses r v)"

text \<open>What an edit keeps: identity, status, source and references of a voucher.\<close>

definition same_identity :: "voucher \<Rightarrow> voucher \<Rightarrow> bool" where
  "same_identity v w \<longleftrightarrow> v_id w = v_id v \<and> v_number w = v_number v \<and> v_status w = v_status v \<and> v_ref w = v_ref v \<and>
    v_ref_id w = v_ref_id v \<and> v_document w = v_document v \<and> v_payroll w = v_payroll v \<and> v_cheque w = v_cheque v \<and>
    v_bom w = v_bom v \<and> v_year w = v_year v \<and> v_currency w = v_currency v \<and> v_created w = v_created v \<and> v_module w = v_module v"

text \<open>
  The abstract specification: the journal as a map from ids to balanced entries, and its four moves
  while the fiscal years \<open>shut\<close> are closed.
\<close>

inductive jstep :: "(int \<Rightarrow> bool) \<Rightarrow> journal \<Rightarrow> journal \<Rightarrow> bool" for shut where
  post: "jstep shut J (J(i \<mapsto> (v, rows)))"
    if "J i = None" "v_id v = i" "entry_ok (v, rows)" "\<not> shut (book_year (v_date v))" "v_status v \<noteq> VPermanent"
      "\<And>w q k. J k = Some (w, q) \<Longrightarrow> reverses v w \<Longrightarrow>
        v_status w \<noteq> VDraft \<and> v_status v \<noteq> VDraft \<and> isReversalReference (v_ref v) \<and> \<not> reversed_in J w"
      "\<not> reverses v v" "\<And>w q k. J k = Some (w, q) \<Longrightarrow> \<not> reverses w v"
| edit: "jstep shut J (J(i \<mapsto> (w, rows')))"
    if "J i = Some (v, rows)" "v_status v = VDraft" "same_identity v w" "entry_ok (w, rows')" "\<not> shut (book_year (v_date w))"
| remove: "jstep shut J (J(i := None))"
    if "J i = Some (v, rows)" "v_status v = VDraft" "\<not> shut (book_year (v_date v))"
| status: "jstep shut J (J(i \<mapsto> (v\<lparr>v_status := st, v_approved := a\<rparr>, rows)))"
    if "J i = Some (v, rows)" "\<not> shut (book_year (v_date v))" "v_status v = VPermanent \<Longrightarrow> st = VPermanent"
      "st = VDraft \<Longrightarrow> v_status v = VDraft \<or> (\<not> isReversalReference (v_ref v) \<and> v_year v = None \<and> \<not> reversed_in J v)"

text \<open>What holds of every reachable journal.\<close>

definition journal_ok :: "journal \<Rightarrow> bool" where
  "journal_ok J \<longleftrightarrow>
    (\<forall>i v rows. J i = Some (v, rows) \<longrightarrow> v_id v = i \<and> entry_ok (v, rows)) \<and>
    (\<forall>i v rows k w q. J i = Some (v, rows) \<longrightarrow> J k = Some (w, q) \<longrightarrow> reverses v w \<longrightarrow>
      v_status w \<noteq> VDraft \<and> v_status v \<noteq> VDraft \<and> isReversalReference (v_ref v)) \<and>
    (\<forall>i v rows i' v' rows' k w q. J i = Some (v, rows) \<longrightarrow> J i' = Some (v', rows') \<longrightarrow> J k = Some (w, q) \<longrightarrow>
      reverses v w \<longrightarrow> reverses v' w \<longrightarrow> i = i')"

lemma journal_okD:
  assumes "journal_ok J"
  shows "J i = Some (v, rows) \<Longrightarrow> v_id v = i" "J i = Some (v, rows) \<Longrightarrow> entry_ok (v, rows)"
    "J i = Some (v, rows) \<Longrightarrow> J k = Some (w, q) \<Longrightarrow> reverses v w \<Longrightarrow> v_status w \<noteq> VDraft"
    "J i = Some (v, rows) \<Longrightarrow> J k = Some (w, q) \<Longrightarrow> reverses v w \<Longrightarrow> v_status v \<noteq> VDraft"
    "J i = Some (v, rows) \<Longrightarrow> J k = Some (w, q) \<Longrightarrow> reverses v w \<Longrightarrow> isReversalReference (v_ref v)"
    "J i = Some (v, rows) \<Longrightarrow> J i' = Some (v', rows') \<Longrightarrow> J k = Some (w, q) \<Longrightarrow> reverses v w \<Longrightarrow> reverses v' w \<Longrightarrow> i = i'"
  using assms unfolding journal_ok_def by blast+

lemma journal_okI:
  assumes "\<And>i v rows. J i = Some (v, rows) \<Longrightarrow> v_id v = i" "\<And>i v rows. J i = Some (v, rows) \<Longrightarrow> entry_ok (v, rows)"
    "\<And>i v rows k w q. J i = Some (v, rows) \<Longrightarrow> J k = Some (w, q) \<Longrightarrow> reverses v w \<Longrightarrow>
      v_status w \<noteq> VDraft \<and> v_status v \<noteq> VDraft \<and> isReversalReference (v_ref v)"
    "\<And>i v rows i' v' rows' k w q. J i = Some (v, rows) \<Longrightarrow> J i' = Some (v', rows') \<Longrightarrow> J k = Some (w, q) \<Longrightarrow> reverses v w \<Longrightarrow> reverses v' w \<Longrightarrow> i = i'"
  shows "journal_ok J"
  using assms unfolding journal_ok_def by blast

lemma reverses_identity:
  assumes "same_identity v w" shows "reverses w u = reverses v u" "reverses u w = reverses u v"
  using assms by (auto simp: same_identity_def reverses_def rev_ref_def void_repost_ref_def)

text \<open>A change of one entry that keeps who reverses whom.\<close>

lemma journal_ok_change:
  assumes "journal_ok J" "J i = Some (v, rows)" "v_id w = v_id v" "entry_ok (w, rows')"
    "\<And>u. reverses w u = reverses v u" "\<And>u. reverses u w = reverses u v"
    "v_status w = VDraft \<Longrightarrow> v_status v = VDraft \<or> (\<not> isReversalReference (v_ref v) \<and> \<not> reversed_in J v)" "v_ref w = v_ref v"
  shows "journal_ok (J(i \<mapsto> (w, rows')))"
proof (rule journal_okI)
  let ?J = "J(i \<mapsto> (w, rows'))"
  note ok = journal_okD [OF assms(1)]
  have old: "\<exists>u' q'. J k = Some (u', q') \<and> (\<forall>x. reverses u x = reverses u' x) \<and> (\<forall>x. reverses x u = reverses x u') \<and> v_ref u = v_ref u' \<and>
      (v_status u = VDraft \<longrightarrow> v_status u' = VDraft \<or> (\<not> isReversalReference (v_ref u') \<and> \<not> reversed_in J u'))"
    if "?J k = Some (u, q)" for k u q
    using that assms(2,5-8) by (cases "k = i") auto
  show "v_id u = k" if "?J k = Some (u, q)" for k u q
    using that assms(2,3) ok(1) by (cases "k = i") auto
  show "entry_ok (u, q)" if "?J k = Some (u, q)" for k u q
    using that assms(4) ok(2) by (cases "k = i") auto
  show "v_status x \<noteq> VDraft \<and> v_status u \<noteq> VDraft \<and> isReversalReference (v_ref u)"
    if u: "?J k = Some (u, q)" and x: "?J l = Some (x, p)" and r: "reverses u x" for k u q l x p
  proof -
    obtain u' q' where u': "J k = Some (u', q')" "\<forall>y. reverses u y = reverses u' y" "v_ref u = v_ref u'"
      "v_status u = VDraft \<longrightarrow> v_status u' = VDraft \<or> (\<not> isReversalReference (v_ref u') \<and> \<not> reversed_in J u')" using old [OF u] by blast
    obtain x' p' where x': "J l = Some (x', p')" "\<forall>y. reverses y x = reverses y x'"
      "v_status x = VDraft \<longrightarrow> v_status x' = VDraft \<or> (\<not> isReversalReference (v_ref x') \<and> \<not> reversed_in J x')" using old [OF x] by blast
    have r': "reverses u' x'" using r u'(2) x'(2) by blast
    then have "reversed_in J x'" using u'(1) unfolding reversed_in_def by blast
    with ok(3-5) [OF u'(1) x'(1) r'] u'(3,4) x'(3) show ?thesis by auto
  qed
  show "k = k'" if u: "?J k = Some (u, q)" "?J k' = Some (u', q')" and x: "?J l = Some (x, p)" and r: "reverses u x" "reverses u' x"
    for k u q k' u' q' l x p
  proof -
    obtain a b where a: "J k = Some (a, b)" "\<forall>y. reverses u y = reverses a y" using old [OF u(1)] by blast
    obtain a' b' where a': "J k' = Some (a', b')" "\<forall>y. reverses u' y = reverses a' y" using old [OF u(2)] by blast
    obtain c d where c: "J l = Some (c, d)" "\<forall>y. reverses y x = reverses y c" using old [OF x] by blast
    have "reverses a c" "reverses a' c" using r a(2) a'(2) c(2) by blast+
    then show ?thesis by (rule ok(6) [OF a(1) a'(1) c(1)])
  qed
qed

lemma entry_ok_status: "entry_ok (v\<lparr>v_status := st, v_approved := a\<rparr>, rows) = entry_ok (v, rows)"
  by (simp add: entry_ok.simps)

lemma jstep_ok:
  assumes "jstep shut J J'" "journal_ok J" shows "journal_ok J'"
  using assms(1)
proof cases
  case (post i v rows)
  note ok = journal_okD [OF assms(2)]
  have new: "J' k = Some (u, q) \<longleftrightarrow> (k = i \<and> u = v \<and> q = rows) \<or> (k \<noteq> i \<and> J k = Some (u, q))" for k u q
    using post(1) by auto
  have ne: "J k = Some (u, q) \<Longrightarrow> k \<noteq> i" for k u q using post(2) by auto
  show ?thesis
  proof (rule journal_okI)
    fix k u q l x p assume u: "J' k = Some (u, q)" and x: "J' l = Some (x, p)" and r: "reverses u x"
    have x': "J l = Some (x, p)" using x u r post(8) post(9) [of k u q] unfolding new by metis
    from u [unfolded new] show "v_status x \<noteq> VDraft \<and> v_status u \<noteq> VDraft \<and> isReversalReference (v_ref u)"
    proof
      assume "k = i \<and> u = v \<and> q = rows"
      then show ?thesis using post(7) [OF x'] r by simp
    next
      assume "k \<noteq> i \<and> J k = Some (u, q)"
      then have "J k = Some (u, q)" by simp
      from ok(3-5) [OF this x' r] show ?thesis by simp
    qed
  next
    fix k u q k' u' q' l x p
    assume u: "J' k = Some (u, q)" "J' k' = Some (u', q')" and x: "J' l = Some (x, p)" and r: "reverses u x" "reverses u' x"
    have x': "J l = Some (x, p)" using x u(1) r(1) post(8) post(9) [of k u q] unfolding new by metis
    have no: "\<not> (J j = Some (y, z) \<and> reverses y x \<and> reverses v x)" for j y z
      using post(7) [OF x'] unfolding reversed_in_def by blast
    show "k = k'"
    proof (cases "k = i"; cases "k' = i")
      assume "k \<noteq> i" "k' \<noteq> i"
      with u have "J k = Some (u, q)" "J k' = Some (u', q')" unfolding new by simp_all
      from ok(6) [OF this x' r] show ?thesis .
    next
      assume "k = i" "k' \<noteq> i"
      with u have "u = v" "J k' = Some (u', q')" unfolding new by simp_all
      with no r show ?thesis by blast
    next
      assume "k \<noteq> i" "k' = i"
      with u have "u' = v" "J k = Some (u, q)" unfolding new by simp_all
      with no r show ?thesis by blast
    qed simp
  qed (use ok(1,2) post(3,4) new in auto)
next
  case (edit i v rows w rows')
  show ?thesis unfolding edit(1)
    by (rule journal_ok_change [OF assms(2) edit(2)])
      (use edit(3-5) reverses_identity [OF edit(4)] in \<open>auto simp: same_identity_def\<close>)
next
  case (remove i v rows)
  note ok = journal_okD [OF assms(2)]
  have new: "J' k = Some (u, q) \<longleftrightarrow> k \<noteq> i \<and> J k = Some (u, q)" for k u q using remove(1) by auto
  show ?thesis
  proof (rule journal_okI)
    fix k u q l x p k' u' q'
    assume u: "J' k = Some (u, q)"
    then have u: "J k = Some (u, q)" unfolding new by simp
    from ok(1) [OF u] ok(2) [OF u] show "v_id u = k" "entry_ok (u, q)" .
    assume "J' l = Some (x, p)" and r: "reverses u x"
    then have x: "J l = Some (x, p)" unfolding new by simp
    from ok(3-5) [OF u x r] show "v_status x \<noteq> VDraft \<and> v_status u \<noteq> VDraft \<and> isReversalReference (v_ref u)" by simp
    assume "J' k' = Some (u', q')" and r': "reverses u' x"
    then have u': "J k' = Some (u', q')" unfolding new by simp
    from ok(6) [OF u u' x r r'] show "k = k'" .
  qed
next
  case (status i v rows st a)
  have id: "reverses (v\<lparr>v_status := st, v_approved := a\<rparr>) u = reverses v u" "reverses u (v\<lparr>v_status := st, v_approved := a\<rparr>) = reverses u v" for u
    by (simp_all add: reverses_def rev_ref_def void_repost_ref_def)
  show ?thesis unfolding status(1)
    by (rule journal_ok_change [OF assms(2) status(2)])
      (use status(5) id journal_okD(2) [OF assms(2) status(2)] in \<open>auto simp: entry_ok_status\<close>)
qed

section \<open>Dates and periods\<close>

lemma stored_isStorageDate:
  assumes "toStorageDate v = Some s" "s \<noteq> ''''" shows "isStorageDate s"
proof -
  obtain n where "storage_day s n" by (rule toStorageDate_day [OF assms])
  then show ?thesis using storage_day_stored by (simp add: isStorageDate_def)
qed

lemma year_of_storage:
  assumes "isStorageDate s" shows "resolveJalaliFiscalYear current s = book_year s"
proof -
  from assms have "toStorageDate (DateText s) = Some s" "s \<noteq> ''''" by (simp_all add: isStorageDate_def)
  then obtain n where n: "storage_day s n" by (rule toStorageDate_day)
  show ?thesis unfolding book_year_def
    using jyear_unique resolve_year_window [OF n, of current] resolve_year_window [OF n, of 0] by blast
qed

text \<open>The environment of a step: today is a stored date, and rows name known accounts (a foreign key).\<close>

definition books_env :: "ledger_env \<Rightarrow> ledger_db \<Rightarrow> bool" where
  "books_env E s \<longleftrightarrow> isStorageDate (le_today E) \<and> (\<forall>x \<in> set (ld_items s). account_known E (vi_account x))"

lemma ensureRow_simps [simp]:
  "ld_vouchers (ensureRow y s) = ld_vouchers s" "ld_items (ensureRow y s) = ld_items s"
  "ld_next_id (ensureRow y s) = ld_next_id s" "ld_next_number (ensureRow y s) = ld_next_number s" "ld_workflows (ensureRow y s) = ld_workflows s"
  by (simp_all add: ensureRow_def split: option.split)

lemma year_closed_ensureRow [simp]: "year_closed (ensureRow y s) = year_closed s"
proof
  fix z
  show "year_closed (ensureRow y s) z = year_closed s z"
    by (auto simp: year_closed_def ensureRow_def period_of_def find_append split: option.split)
qed

lemma year_closed_cong: "ld_periods s' = ld_periods s \<Longrightarrow> year_closed s' = year_closed s"
  by (simp add: year_closed_def period_of_def fun_eq_iff)

lemma assertOpen_Inr:
  assumes "assertOpen E date s = Inr s1" "isStorageDate date"
  shows "s1 = ensureRow (book_year date) s" "\<not> year_closed s (book_year date)"
  using assms year_of_storage [OF assms(2)]
  by (auto simp: assertOpen_def yearOf_def Let_def isStorageDate_def split: if_splits)

lemma date_or_today_stored:
  assumes "date_or_today E v = Inr d" "isStorageDate (le_today E)" shows "isStorageDate d"
  using assms stored_isStorageDate
  by (auto simp: date_or_today_def requireStorageDate_def str_or_def res_bind_Inr split: option.splits if_splits)

lemma updated_date_stored: "updated_date v = Inr (Some d) \<Longrightarrow> isStorageDate d"
  using stored_isStorageDate
  by (auto simp: updated_date_def requireStorageDate_def res_bind_Inr split: option.splits if_splits)

section \<open>Operations refine moves of the journal\<close>

text \<open>Reversal references name an earlier voucher.\<close>

definition refs_ok :: "ledger_db \<Rightarrow> bool" where
  "refs_ok s \<longleftrightarrow> (\<forall>v \<in> set (ld_vouchers s). isReversalReference (v_ref v) \<longrightarrow> (\<exists>j < ld_next_id s. v_ref_id v = Some j))"

definition books_ok :: "ledger_db \<Rightarrow> bool" where
  "books_ok s \<longleftrightarrow> ledger_wf s \<and> refs_ok s \<and> journal_ok (journal_of s)"

definition refines :: "ledger_db \<Rightarrow> ledger_db \<Rightarrow> bool" where
  "refines s s' \<longleftrightarrow> ledger_wf s' \<and> refs_ok s' \<and> year_closed s' = year_closed s \<and> (jstep (year_closed s))\<^sup>*\<^sup>* (journal_of s) (journal_of s')"

lemma jsteps_ok: "(jstep c)\<^sup>*\<^sup>* J J' \<Longrightarrow> journal_ok J \<Longrightarrow> journal_ok J'"
  by (induction rule: rtranclp_induct) (auto dest: jstep_ok)

lemma refines_ok: "refines s s' \<Longrightarrow> books_ok s \<Longrightarrow> books_ok s'"
  by (auto simp: refines_def books_ok_def dest: jsteps_ok)

lemma refines_refl: "books_ok s \<Longrightarrow> refines s s"
  by (simp add: refines_def books_ok_def)

lemma refines_trans: "refines s t \<Longrightarrow> refines t u \<Longrightarrow> refines s u"
  by (auto simp: refines_def intro: rtranclp_trans)

lemma refines_step:
  assumes "ledger_wf s'" "refs_ok s'" "year_closed s' = year_closed s" "jstep (year_closed s) (journal_of s) (journal_of s')"
  shows "refines s s'"
  using assms by (simp add: refines_def r_into_rtranclp)

lemma refs_cong: "refs_ok s \<Longrightarrow> ld_vouchers s' = ld_vouchers s \<Longrightarrow> ld_next_id s \<le> ld_next_id s' \<Longrightarrow> refs_ok s'"
  unfolding refs_ok_def by (metis less_le_trans)

text \<open>Tables beside vouchers and rows do not matter.\<close>

lemma workflow_simps [simp]:
  "ld_vouchers (terminateVoucherWorkflows i s) = ld_vouchers s" "ld_items (terminateVoucherWorkflows i s) = ld_items s"
  "ld_periods (terminateVoucherWorkflows i s) = ld_periods s" "ld_next_id (terminateVoucherWorkflows i s) = ld_next_id s"
  "ld_vouchers (start_workflow E i s) = ld_vouchers s" "ld_items (start_workflow E i s) = ld_items s"
  "ld_periods (start_workflow E i s) = ld_periods s" "ld_next_id (start_workflow E i s) = ld_next_id s"
  by (simp_all add: terminateVoucherWorkflows_def start_workflow_def)

lemma year_closed_workflow [simp]:
  "year_closed (terminateVoucherWorkflows i s) = year_closed s" "year_closed (start_workflow E i s) = year_closed s"
  by (rule year_closed_cong; simp)+

lemma refs_side [simp]:
  assumes "refs_ok s"
  shows "refs_ok (terminateVoucherWorkflows i s)" "refs_ok (start_workflow E i s)" "refs_ok (ensureRow y s)"
  by (rule refs_cong [OF assms]; simp)+

lemma refines_side:
  assumes "refines s s'"
  shows "refines s (terminateVoucherWorkflows i s')" "refines s (start_workflow E i s')" "refines s (ensureRow y s')"
  using assms unfolding refines_def by simp_all

lemma refines_from_side:
  assumes "refines (ensureRow y s) s'" shows "refines s s'"
  using assms unfolding refines_def by simp

lemma books_side [simp]:
  assumes "books_ok s" shows "books_ok (ensureRow y s)"
  using assms unfolding books_ok_def by simp

lemma reverses_reference: "reverses r w \<Longrightarrow> isReversalReference (v_ref r)"
  by (auto simp: reverses_def rev_ref_def void_repost_ref_def isReversalReference_def REVERSAL_REFERENCE_PREFIXES_def starts_with_def)

lemma journal_id: "journal_of s k = Some (w, q) \<Longrightarrow> v_id w = k"
  by (auto simp: journal_of_def live_voucher_def dest: find_SomeD)

lemma journal_member: "journal_of s k = Some (w, q) \<Longrightarrow> w \<in> set (ld_vouchers s) \<and> \<not> v_deleted w"
  by (auto simp: journal_of_def live_voucher_def dest: find_SomeD)

lemma post_refines:
  assumes "books_ok s" "insert_voucher v (s\<lparr>ld_next_number := ld_next_number s + 1\<rparr>) = Inr s2" "v_number v = ld_next_number s"
    "\<not> v_deleted v" "isStorageDate (v_date v)" "\<not> year_closed s (book_year (v_date v))" "v_status v \<noteq> VPermanent"
    "entry_ok (v\<lparr>v_id := ld_next_id s\<rparr>, rows)"
    "isReversalReference (v_ref v) \<Longrightarrow> \<exists>j < ld_next_id s. v_ref_id v = Some j"
    "\<And>w q k. journal_of s k = Some (w, q) \<Longrightarrow> reverses v w \<Longrightarrow>
      v_status w \<noteq> VDraft \<and> v_status v \<noteq> VDraft \<and> \<not> reversed_in (journal_of s) w"
  shows "refines s (insertVoucherItems rows s2)"
    "journal_of (insertVoucherItems rows s2) = (journal_of s)(ld_next_id s \<mapsto> (v\<lparr>v_id := ld_next_id s\<rparr>, rows))"
    "ld_next_id s2 = ld_next_id s + 1"
proof -
  let ?i = "ld_next_id s" and ?s' = "insertVoucherItems rows s2"
  have wf: "ledger_wf s" and refs: "refs_ok s" using assms(1) by (simp_all add: books_ok_def)
  have s2: "s2 = s\<lparr>ld_next_number := ld_next_number s + 1, ld_vouchers := ld_vouchers s @ [v\<lparr>v_id := ?i\<rparr>], ld_next_id := ?i + 1\<rparr>"
    using assms(2) by (auto simp: insert_voucher_def split: if_splits)
  show "ld_next_id s2 = ld_next_id s + 1" by (simp add: s2)
  have rows: "vi_voucher x = ?i \<and> \<not> vi_deleted x" if "x \<in> set rows" for x
    using assms(8) that by (simp add: entry_ok.simps)
  have fields: "ld_vouchers ?s' = ld_vouchers s @ [v\<lparr>v_id := ?i\<rparr>]" "ld_items ?s' = ld_items s @ rows" "ld_next_id ?s' = ?i + 1"
    "ld_next_number ?s' = ld_next_number s + 1" "ld_periods ?s' = ld_periods s"
    by (simp_all add: insertVoucherItems_eq s2)
  note post = journal_post [OF wf fields(1-3) assms(3) fields(4,5) rows assms(4,5)]
  from post(1) show j: "journal_of ?s' = (journal_of s)(?i \<mapsto> (v\<lparr>v_id := ?i\<rparr>, rows))" .
  have refs': "refs_ok ?s'"
    using refs assms(9) unfolding refs_ok_def fields by (auto intro: less_SucI)
  have same: "reverses (v\<lparr>v_id := ?i\<rparr>) w = reverses v w" for w by (simp add: reverses_def)
  have no_self: "\<not> reverses (v\<lparr>v_id := ?i\<rparr>) (v\<lparr>v_id := ?i\<rparr>)"
    using assms(9) reverses_reference [of "v\<lparr>v_id := ?i\<rparr>" "v\<lparr>v_id := ?i\<rparr>"] by (auto simp: reverses_def)
  have no_old: "\<not> reverses w (v\<lparr>v_id := ?i\<rparr>)" if "journal_of s k = Some (w, q)" for w q k
  proof
    assume r: "reverses w (v\<lparr>v_id := ?i\<rparr>)"
    from refs journal_member [OF that] reverses_reference [OF r] obtain j where "j < ?i" "v_ref_id w = Some j"
      unfolding refs_ok_def by blast
    with r show False by (simp add: reverses_def)
  qed
  have "jstep (year_closed s) (journal_of s) ((journal_of s)(?i \<mapsto> (v\<lparr>v_id := ?i\<rparr>, rows)))"
  proof (rule jstep.post)
    show "journal_of s ?i = None" by (rule journal_fresh [OF wf]) simp
    show "v_status w \<noteq> VDraft \<and> v_status (v\<lparr>v_id := ?i\<rparr>) \<noteq> VDraft \<and> isReversalReference (v_ref (v\<lparr>v_id := ?i\<rparr>)) \<and> \<not> reversed_in (journal_of s) w"
      if "journal_of s k = Some (w, q)" "reverses (v\<lparr>v_id := ?i\<rparr>) w" for w q k
      using assms(10) [OF that(1)] that(2) reverses_reference unfolding same by simp
  qed (use assms no_self no_old in auto)
  with j post(2) refs' show "refines s ?s'"
    by (intro refines_step) (auto simp: year_closed_cong [OF fields(5)])
qed

lemma number_bump: "s\<lparr>ld_next_number := ld_next_number s + 1\<rparr> = snd (getNextVoucherNumber s)"
  by (simp add: getNextVoucherNumber_def)

text \<open>What a caller of \<open>createJournalVoucher\<close> keeps to.\<close>

definition create_ok :: "create_data \<Rightarrow> bool" where
  "create_ok d \<longleftrightarrow> rows_fit (cd_items d) \<and> (cd_manual_entry d \<or> currencies_kept (cd_currency d) (cd_items d)) \<and>
    cd_status d \<noteq> Some VPermanent \<and> \<not> isReversalReference (trim_or (cd_ref d))"

lemma new_voucher_simps [simp]:
  "v_id (new_voucher L d date num sd sc why) = 0" "v_number (new_voucher L d date num sd sc why) = num"
  "v_date (new_voucher L d date num sd sc why) = date" "v_ref (new_voucher L d date num sd sc why) = trim_or (cd_ref d)"
  "v_debit (new_voucher L d date num sd sc why) = fin_toDb L sd" "v_credit (new_voucher L d date num sd sc why) = fin_toDb L sc"
  "v_currency (new_voucher L d date num sd sc why) = str_or (cd_currency d) ''IRR''"
  "v_deleted (new_voucher L d date num sd sc why) = False"
  "v_status (new_voucher L d date num sd sc why) = (case cd_status d of None \<Rightarrow> VDraft | Some st \<Rightarrow> st)"
  "v_created (new_voucher L d date num sd sc why) = id_or (cd_user d)" "v_year (new_voucher L d date num sd sc why) = cd_year d"
  "v_version (new_voucher L d date num sd sc why) = 1"
  by (simp_all add: new_voucher_def)

lemma create_Inr:
  assumes "createJournalVoucher L E d s = Inr (i, s')"
  obtains rows tot date s1 reason items where
    "checked_rows L (cd_manual_entry d) (cd_currency d) (cd_items d) = Inr (rows, tot)" "date_or_today E (cd_date d) = Inr date"
    "assertOpen E date s = Inr s1" "manual_checks E (cd_manual_entry d) (cd_control d) [] rows = Inr (reason, items)"
    "create_write L E d date tot reason items s1 = Inr (i, s')" "2 \<le> length (cd_items d)"
    "cd_manual_entry d \<Longrightarrow> cd_status d = Some VApproved \<Longrightarrow> assertManualApprovedCreateAllowed E (cd_user d) = Inr ()"
proof -
  have n: "\<not> length (cd_items d) < 2" using assms by (auto simp: createJournalVoucher_def)
  note a = assms [unfolded createJournalVoucher_def if_not_P [OF n] res_bind_Inr case_prod_unfold]
  from a obtain p date s1 q where
    "checked_rows L (cd_manual_entry d) (cd_currency d) (cd_items d) = Inr p" "date_or_today E (cd_date d) = Inr date"
    "assertOpen E date s = Inr s1" "manual_checks E (cd_manual_entry d) (cd_control d) [] (fst p) = Inr q"
    "create_write L E d date (snd p) (fst q) (snd q) s1 = Inr (i, s')"
    "(if cd_manual_entry d \<and> cd_status d = Some VApproved then assertManualApprovedCreateAllowed E (cd_user d) else Inr ()) = Inr ()" by auto
  then show thesis by (intro that [of "fst p" "snd p" date s1 "fst q" "snd q"]) (use n in auto)
qed

text \<open>Account, debit and credit of a row: no check of the service changes them.\<close>

definition row_amounts :: "'a vrow_scheme \<Rightarrow> int \<times> rat \<times> rat" where
  "row_amounts r = (vr_account r, br_debit r, br_credit r)"

lemma manual_row_amounts: "row_amounts (manual_row L vc r) = row_amounts r"
  by (simp add: row_amounts_def manual_row_def Let_def)

lemma row_money_amounts: "map row_money rows = map row_money rows' \<Longrightarrow> map row_amounts rows = map row_amounts rows'"
proof -
  assume a: "map row_money rows = map row_money rows'"
  have r: "row_amounts r = (case row_money r of (d, c, _, _, n) \<Rightarrow> (n, d, c))" for r :: "'z vrow_scheme"
    by (simp add: row_amounts_def row_money_def)
  have "map row_amounts rows = map (\<lambda>(d, c, _, _, n). (n, d, c)) (map row_money rows)"
    "map row_amounts rows' = map (\<lambda>(d, c, _, _, n). (n, d, c)) (map row_money rows')" by (simp_all add: r)
  with a show ?thesis by simp
qed

context decimal_js begin

lemma checked_rows_amounts: "checked_rows L m vc items = Inr (rows, tot) \<Longrightarrow> map row_amounts rows = map row_amounts items"
proof (cases m)
  case True
  assume "checked_rows L m vc items = Inr (rows, tot)"
  then have "rows = map (manual_row L vc) items" using resolveManual_Inr(1) [of items vc rows tot] True by (simp add: checked_rows_def)
  then show ?thesis by (simp add: manual_row_amounts)
qed (auto simp: checked_rows_def res_bind_Inr)

lemma create_posts:
  assumes "books_ok s" "isStorageDate (le_today E)" "create_ok d" "createJournalVoucher L E d s = Inr (i, s')"
  shows "refines s s'" "\<exists>date reason (items :: vrow list). i = ld_next_id s \<and> rows_fit items \<and> map row_amounts items = map row_amounts (cd_items d) \<and>
    date_or_today E (cd_date d) = Inr date \<and> \<not> year_closed s (book_year date) \<and> (\<not> cd_manual_entry d \<longrightarrow> items = cd_items d \<and> reason = '''') \<and>
    journal_of s' = (journal_of s)(i \<mapsto>
      ((new_voucher L d date (ld_next_number s) (raw_debit items) (raw_credit items) reason)\<lparr>v_id := i\<rparr>, map (input_item L i) (enumerate 0 items)))"
proof -
  from assms(4) obtain rows tot date s1 reason items where
    c: "checked_rows L (cd_manual_entry d) (cd_currency d) (cd_items d) = Inr (rows, tot)" and d: "date_or_today E (cd_date d) = Inr date"
    and o: "assertOpen E date s = Inr s1" and m: "manual_checks E (cd_manual_entry d) (cd_control d) [] rows = Inr (reason, items)"
    and w: "create_write L E d date tot reason items s1 = Inr (i, s')" and n: "2 \<le> length (cd_items d)"
    by (rule create_Inr)
  have ok: "rows_fit (cd_items d)" "cd_manual_entry d \<or> currencies_kept (cd_currency d) (cd_items d)" "cd_status d \<noteq> Some VPermanent"
    "\<not> isReversalReference (trim_or (cd_ref d))" using assms(3) by (simp_all add: create_ok_def)
  have date: "isStorageDate date" by (rule date_or_today_stored [OF d assms(2)])
  have s1: "s1 = ensureRow (book_year date) s" "\<not> year_closed s (book_year date)" by (rule assertOpen_Inr [OF o date])+
  have b1: "books_ok s1" using assms(1) by (simp add: s1)
  note cr = checked_rows_ok [OF c ok(1,2)]
  have money: "map row_money items = map row_money rows" by (rule manual_checks_money [OF m])
  have amounts: "map row_amounts items = map row_amounts (cd_items d)"
    using row_money_amounts [OF money] checked_rows_amounts [OF c] by simp
  have auto_rows: "\<not> cd_manual_entry d \<longrightarrow> items = cd_items d \<and> reason = ''''"
    using c m by (auto simp: checked_rows_def manual_checks_def res_bind_Inr)
  have bal: "checked_balance (cd_currency d) items" and raw: "raw_debit rows = raw_debit items" "raw_credit rows = raw_credit items"
    using cr(1) checked_balance_cong [OF money] by auto
  have ne: "items \<noteq> []" using n cr(3) money by (metis list.size(3) map_is_Nil_conv not_numeral_le_zero)
  have fit: "rows_fit items" using bal by (simp add: checked_balance_def)
  let ?i = "ld_next_id s1"
  let ?v = "new_voucher L d date (ld_next_number s1) (fst tot) (snd tot) reason"
  let ?rows = "map (input_item L ?i) (enumerate 0 items)"
  from w obtain s2 where s2: "insert_voucher ?v (s1\<lparr>ld_next_number := ld_next_number s1 + 1\<rparr>) = Inr s2" and i: "i = ?i"
    and s': "s' = (if cd_manual_entry d \<and> v_status ?v = VDraft then start_workflow E ?i (insertVoucherItems ?rows s2) else insertVoucherItems ?rows s2)"
    unfolding create_write_def getNextVoucherNumber_def by (auto simp: Let_def res_bind_Inr)
  have e: "entry_ok (?v\<lparr>v_id := ?i\<rparr>, ?rows)"
    by (rule input_entry_ok [OF bal]) (use ne cr(2) raw raw_money4 [OF fit] in simp_all)
  have st: "v_status ?v \<noteq> VPermanent" using ok(3) by (auto split: option.split)
  have ref: "\<not> isReversalReference (v_ref ?v)" using ok(4) by simp
  note post = post_refines [OF b1 s2 _ _ _ _ st e]
  have "refines s1 (insertVoucherItems ?rows s2)"
    by (rule post(1)) (use date s1 ref reverses_reference [of ?v] in auto)
  then have "refines s1 s'" unfolding s' using refines_side by simp
  then show "refines s s'" unfolding s1 by (rule refines_from_side)
  have "journal_of (insertVoucherItems ?rows s2) = (journal_of s1)(?i \<mapsto> (?v\<lparr>v_id := ?i\<rparr>, ?rows))"
    by (rule post(2)) (use date s1 ref reverses_reference [of ?v] in auto)
  then have "journal_of s' = (journal_of s)(i \<mapsto> (?v\<lparr>v_id := i\<rparr>, map (input_item L i) (enumerate 0 items)))"
    unfolding s' using s1(1) i by simp
  moreover have "fst tot = raw_debit items" "snd tot = raw_credit items" "ld_next_number s1 = ld_next_number s" "i = ld_next_id s"
    using cr(2) raw s1(1) i by simp_all
  ultimately have "i = ld_next_id s \<and> rows_fit items \<and> map row_amounts items = map row_amounts (cd_items d) \<and>
    date_or_today E (cd_date d) = Inr date \<and> \<not> year_closed s (book_year date) \<and> (\<not> cd_manual_entry d \<longrightarrow> items = cd_items d \<and> reason = '''') \<and>
    journal_of s' = (journal_of s)(i \<mapsto>
      ((new_voucher L d date (ld_next_number s) (raw_debit items) (raw_credit items) reason)\<lparr>v_id := i\<rparr>, map (input_item L i) (enumerate 0 items)))"
    using fit amounts d s1(2) auto_rows by metis
  then show "\<exists>date reason (items :: vrow list). i = ld_next_id s \<and> rows_fit items \<and> map row_amounts items = map row_amounts (cd_items d) \<and>
    date_or_today E (cd_date d) = Inr date \<and> \<not> year_closed s (book_year date) \<and> (\<not> cd_manual_entry d \<longrightarrow> items = cd_items d \<and> reason = '''') \<and>
    journal_of s' = (journal_of s)(i \<mapsto>
      ((new_voucher L d date (ld_next_number s) (raw_debit items) (raw_credit items) reason)\<lparr>v_id := i\<rparr>, map (input_item L i) (enumerate 0 items)))"
    by blast
qed

lemmas create_refines = create_posts(1)

end

definition update_ok :: "update_data \<Rightarrow> voucher \<Rightarrow> bool" where
  "update_ok u v \<longleftrightarrow> ud_status u = None \<and>
    (\<forall>items. ud_items u = Some items \<longrightarrow> rows_fit items \<and> (ud_manual_entry u \<or> currencies_kept (Some (v_currency v)) items))"

lemma update_header_simps [simp]:
  "v_id (update_header L u nd tot why v) = v_id v" "v_deleted (update_header L u nd tot why v) = v_deleted v"
  "v_number (update_header L u nd tot why v) = v_number v" "v_ref (update_header L u nd tot why v) = v_ref v"
  "v_ref_id (update_header L u nd tot why v) = v_ref_id v" "v_currency (update_header L u nd tot why v) = v_currency v"
  "v_date (update_header L u nd tot why v) = (case nd of Some d \<Rightarrow> d | None \<Rightarrow> v_date v)"
  "v_debit (update_header L u nd tot why v) = fin_toDb L (fst tot)" "v_credit (update_header L u nd tot why v) = fin_toDb L (snd tot)"
  "v_status (update_header L u nd tot why v) = (case ud_status u of Some st \<Rightarrow> st | None \<Rightarrow> v_status v)"
  by (simp_all add: update_header_def)

lemma update_header_identity: "ud_status u = None \<Longrightarrow> same_identity v (update_header L u nd tot why v)"
  by (simp add: same_identity_def update_header_def)

lemma refs_set_voucher:
  assumes "\<And>v. v_ref (f v) = v_ref v" "\<And>v. v_ref_id (f v) = v_ref_id v" "refs_ok s"
  shows "refs_ok (set_voucher i f s)"
  using assms unfolding refs_ok_def set_voucher_def by (fastforce simp: in_update_rows split: if_splits)

lemma refs_rows [simp]: "refs_ok (insertVoucherItems rows s) = refs_ok s" "refs_ok (delete_items i s) = refs_ok s"
  by (simp_all add: refs_ok_def insertVoucherItems_eq)

lemma year_closed_rows [simp]:
  "year_closed (insertVoucherItems rows s) = year_closed s" "year_closed (delete_items i s) = year_closed s"
  "year_closed (set_voucher i f s) = year_closed s"
  by (rule year_closed_cong; simp add: insertVoucherItems_eq set_voucher_def)+

lemma update_dates_Inr:
  assumes "update_dates E u v s = Inr (nd, s1)" "isStorageDate (v_date v)"
  shows "\<exists>y. s1 = ensureRow y s" "isStorageDate (case nd of Some d \<Rightarrow> d | None \<Rightarrow> v_date v)"
    "\<not> year_closed s (book_year (case nd of Some d \<Rightarrow> d | None \<Rightarrow> v_date v))"
proof -
  obtain n where n: "updated_date (ud_date u) = Inr n"
    and r: "(case n of Some d \<Rightarrow>
           res_bind (assertOpen E d s) (\<lambda>s1.
           res_bind (if ud_manual_entry u then assertManualVoucherDate E s1 d else Inr ()) (\<lambda>_. Inr (n, s1)))
       | None \<Rightarrow> res_bind (assertOpen E (v_date v) s) (\<lambda>s1. Inr (n, s1))) = Inr (nd, s1)"
    using assms(1) unfolding update_dates_def res_bind_Inr by blast
  have "nd = n \<and> (\<exists>d. isStorageDate d \<and> assertOpen E d s = Inr s1 \<and> (case n of Some d \<Rightarrow> d | None \<Rightarrow> v_date v) = d)"
  proof (cases n)
    case None
    then show ?thesis using r assms(2) by (auto simp: res_bind_Inr)
  next
    case (Some d)
    then show ?thesis using r updated_date_stored [of "ud_date u" d] n by (auto simp: res_bind_Inr)
  qed
  then obtain d where d: "isStorageDate d" "assertOpen E d s = Inr s1" "(case nd of Some d \<Rightarrow> d | None \<Rightarrow> v_date v) = d" by auto
  show "\<exists>y. s1 = ensureRow y s" "isStorageDate (case nd of Some d \<Rightarrow> d | None \<Rightarrow> v_date v)"
    "\<not> year_closed s (book_year (case nd of Some d \<Rightarrow> d | None \<Rightarrow> v_date v))"
    unfolding d(3) using d(1) assertOpen_Inr [OF d(2,1)] by auto
qed

context decimal_js begin

text \<open>The rows of an edit: the journal entry has the new rows, their sums are the new tot.\<close>

lemma update_items_entry:
  assumes "ledger_wf s" "refs_ok s" "live_voucher s i = Some v" "entry_ok (v, live_items s i)" "update_ok u v"
    "update_items L E u v s = Inr (tot, reason, s2)"
  obtains rows where "journal_of s2 = (journal_of s)(i \<mapsto> (v, rows))" "ledger_wf s2" "refs_ok s2" "year_closed s2 = year_closed s"
    "\<And>w. v_id w = v_id v \<Longrightarrow> v_currency w = v_currency v \<Longrightarrow> v_debit w = fin_toDb L (fst tot) \<Longrightarrow> v_credit w = fin_toDb L (snd tot) \<Longrightarrow> entry_ok (w, rows)"
proof (cases "replaces_rows u")
  case False
  then have e: "tot = (v_debit v, v_credit v)" "s2 = s"
    using assms(6) by (auto simp: replaces_rows_def update_items_def split: option.splits if_splits)
  have j: "(journal_of s)(i \<mapsto> (v, live_items s i)) = journal_of s"
    using assms(3) by (auto simp: journal_of_def fun_eq_iff)
  have m: "money4 (v_debit v)" "money4 (v_credit v)" using assms(4) by (auto simp: entry_ok.simps)
  show thesis
    by (rule that [of "live_items s i"]) (use j e assms(1,2,4) m in \<open>auto simp: entry_ok.simps\<close>)
next
  case True
  then obtain sent where sent: "ud_items u = Some sent" "2 \<le> length sent" by (auto simp: replaces_rows_def split: option.splits)
  have vid: "v_id v = i" using assms(3) by (auto simp: live_voucher_def dest: find_SomeD)
  obtain p q where c: "checked_rows L (ud_manual_entry u) (Some (v_currency v)) sent = Inr p"
    and m: "manual_checks E (ud_manual_entry u) (ud_control u) (map vi_account (live_items s (v_id v))) (fst p) = Inr q"
    and t: "tot = snd p" "s2 = insertVoucherItems (map (input_item L (v_id v)) (enumerate 0 (snd q))) (delete_items (v_id v) s)"
    using assms(6) sent by (auto simp: update_items_def res_bind_Inr case_prod_unfold)
  have "rows_fit sent" "ud_manual_entry u \<or> currencies_kept (Some (v_currency v)) sent" using assms(5) sent by (auto simp: update_ok_def)
  moreover have "checked_rows L (ud_manual_entry u) (Some (v_currency v)) sent = Inr (fst p, snd p)" using c by simp
  ultimately have cr: "checked_balance (Some (v_currency v)) (fst p)" "snd p = (raw_debit (fst p), raw_credit (fst p))" "length (fst p) = length sent"
    by (blast dest: checked_rows_ok)+
  have "manual_checks E (ud_manual_entry u) (ud_control u) (map vi_account (live_items s (v_id v))) (fst p) = Inr (fst q, snd q)" using m by simp
  then have money: "map row_money (snd q) = map row_money (fst p)" by (rule manual_checks_money)
  have bal: "checked_balance (Some (v_currency v)) (snd q)" and raw: "raw_debit (fst p) = raw_debit (snd q)" "raw_credit (fst p) = raw_credit (snd q)"
    using cr(1) checked_balance_cong [OF money] by auto
  have ne: "snd q \<noteq> []" using sent(2) cr(3) money by (metis list.size(3) map_is_Nil_conv not_numeral_le_zero)
  have cur: "str_or (Some (v_currency v)) ''IRR'' = v_currency v" using assms(4) by (simp add: entry_ok.simps str_or_def)
  have fit: "rows_fit (snd q)" using bal by (simp add: checked_balance_def)
  let ?rows = "map (input_item L i) (enumerate 0 (snd q))"
  have mem: "vi_voucher x = i \<and> \<not> vi_deleted x" if "x \<in> set ?rows" for x using that by auto
  have s2: "s2 = insertVoucherItems ?rows (delete_items i s)" using t(2) vid by simp
  note rep = wf_rows_replaced [OF assms(1,3) mem, of ?rows]
  show thesis
  proof (rule that [of ?rows])
    show "journal_of s2 = (journal_of s)(i \<mapsto> (v, ?rows))" unfolding s2 by (rule rep(2)) simp
    show "ledger_wf s2" unfolding s2 by (rule rep(1)) simp
    show "refs_ok s2" "year_closed s2 = year_closed s" unfolding s2 using assms(2) by simp_all
    show "entry_ok (w, ?rows)" if "v_id w = v_id v" "v_currency w = v_currency v" "v_debit w = fin_toDb L (fst tot)" "v_credit w = fin_toDb L (snd tot)" for w
      by (rule input_entry_ok [OF bal]) (use that vid cur ne cr(2) raw t(1) raw_money4 [OF fit] in simp_all)
  qed
qed

lemma update_refines:
  assumes "books_ok s" "updateJournalVoucher L E i u s = Inr s'" "\<And>v. live_voucher s i = Some v \<Longrightarrow> update_ok u v"
  shows "refines s s'"
proof -
  have wf: "ledger_wf s" and refs: "refs_ok s" and ok: "journal_ok (journal_of s)" using assms(1) by (simp_all add: books_ok_def)
  obtain v where v: "live_voucher s i = Some v" using assms(2) by (cases "live_voucher s i") (auto simp: updateJournalVoucher_def)
  note a = assms(2) [unfolded updateJournalVoucher_def v option.case res_bind_Inr case_prod_unfold]
  from a obtain p q where draft: "v_status v = VDraft" and d: "update_dates E u v s = Inr p" and it: "update_items L E u v (snd p) = Inr q"
    and s': "s' = set_voucher i (update_header L u (fst p) (fst q) (fst (snd q))) (snd (snd q))"
    by (auto simp: res_guard_Inr)
  have j: "journal_of s i = Some (v, live_items s i)" using v by (simp add: journal_of_def)
  have ent: "entry_ok (v, live_items s i)" by (rule journal_okD(2) [OF ok j])
  have vd: "isStorageDate (v_date v)" using wf j by (auto simp: journal_iff intro: ledger_wfD(8))
  have "update_dates E u v s = Inr (fst p, snd p)" using d by simp
  note dates = update_dates_Inr [OF this vd]
  from dates(1) obtain y where y: "snd p = ensureRow y s" by blast
  have vi: "live_voucher (ensureRow y s) i = live_voucher s i" "live_items (ensureRow y s) i = live_items s i"
    by (simp_all add: live_voucher_def live_items_def)
  have u: "update_ok u v" by (rule assms(3) [OF v])
  obtain rows where r: "journal_of (snd (snd q)) = (journal_of s)(i \<mapsto> (v, rows))" "ledger_wf (snd (snd q))" "refs_ok (snd (snd q))"
      "year_closed (snd (snd q)) = year_closed s"
      "\<And>w. v_id w = v_id v \<Longrightarrow> v_currency w = v_currency v \<Longrightarrow> v_debit w = fin_toDb L (fst (fst q)) \<Longrightarrow> v_credit w = fin_toDb L (snd (fst q)) \<Longrightarrow> entry_ok (w, rows)"
    using update_items_entry [of "ensureRow y s" i v u E "fst q" "fst (snd q)" "snd (snd q)"] wf refs v ent u it y vi
    by (simp add: surjective_pairing [symmetric]) blast
  let ?f = "update_header L u (fst p) (fst q) (fst (snd q))"
  have j2: "journal_of (snd (snd q)) i = Some (v, rows)" using r(1) by simp
  have one: "w = v" if "w \<in> set (ld_vouchers (snd (snd q)))" "v_id w = i" for w
  proof -
    have "v \<in> set (ld_vouchers (snd (snd q)))" "v_id v = i" using j2 r(2) by (auto simp: journal_iff)
    then show ?thesis using id_inject [OF ledger_wfD(1) [OF r(2)] that(1)] that(2) by simp
  qed
  have js: "journal_of s' = (journal_of s)(i \<mapsto> (?f v, rows))"
    unfolding s' using journal_set_voucher [OF _ _ r(2) j2, of ?f] r(1) by simp
  have w: "ledger_wf s'" unfolding s' by (rule wf_set_voucher) (use r(2) dates(2) one in auto)
  have rf: "refs_ok s'" unfolding s' by (rule refs_set_voucher) (use r(3) in auto)
  have yc: "year_closed s' = year_closed s" unfolding s' using r(4) by simp
  have st: "ud_status u = None" using u by (simp add: update_ok_def)
  have "jstep (year_closed s) (journal_of s) ((journal_of s)(i \<mapsto> (?f v, rows)))"
  proof (rule jstep.edit [where v = v])
    show "journal_of s i = Some (v, live_items s i)" by (rule j)
    show "v_status v = VDraft" by (rule draft)
    show "same_identity v (?f v)" by (rule update_header_identity [OF st])
    show "entry_ok (?f v, rows)" by (rule r(5)) simp_all
    show "\<not> year_closed s (book_year (v_date (?f v)))" using dates(3) by simp
  qed
  with js have "jstep (year_closed s) (journal_of s) (journal_of s')" by simp
  then show ?thesis using w rf yc by (intro refines_step)
qed

end

section \<open>Deleting, status changes\<close>

lemma refs_soft_delete: "refs_ok s \<Longrightarrow> refs_ok (soft_delete i s)"
  unfolding soft_delete_def by (intro refs_side(1)) (simp add: refs_set_voucher)

lemma books_journal:
  assumes "books_ok s" "live_voucher s i = Some v"
  shows "journal_of s i = Some (v, live_items s i)" "entry_ok (v, live_items s i)" "isStorageDate (v_date v)" "v_id v = i"
    "v \<in> set (ld_vouchers s)" "\<not> v_deleted v"
proof -
  have wf: "ledger_wf s" and ok: "journal_ok (journal_of s)" using assms(1) by (simp_all add: books_ok_def)
  show j: "journal_of s i = Some (v, live_items s i)" using assms(2) by (simp add: journal_of_def)
  then show "entry_ok (v, live_items s i)" by (rule journal_okD(2) [OF ok])
  show "isStorageDate (v_date v)" "v_id v = i" "v \<in> set (ld_vouchers s)" "\<not> v_deleted v"
    using wf j by (auto simp: journal_iff intro: ledger_wfD(8))
qed

lemma live_ensureRow [simp]: "live_voucher (ensureRow y s) i = live_voucher s i" "live_items (ensureRow y s) i = live_items s i"
  "ordered_items (ensureRow y s) i = ordered_items s i"
  by (simp_all add: live_voucher_def live_items_def ordered_items_def)

lemma soft_delete_refines:
  assumes "books_ok s" "live_voucher s i = Some v" "v_status v = VDraft" "assertOpen E (v_date v) s = Inr s1"
  shows "refines s (soft_delete i s1)"
proof -
  note b = books_journal [OF assms(1,2)]
  note o = assertOpen_Inr [OF assms(4) b(3)]
  have wf: "ledger_wf s1" and refs: "refs_ok s1" using assms(1) o by (simp_all add: books_ok_def)
  note d = journal_soft_delete [OF wf, of i]
  have yc: "year_closed (soft_delete i s1) = year_closed s" by (simp add: o(1) soft_delete_def)
  have "jstep (year_closed s) (journal_of s) ((journal_of s)(i := None))"
    by (rule jstep.remove [where v = v]) (use b assms(3) o(2) in auto)
  then show ?thesis by (intro refines_step) (use d refs yc o(1) in \<open>simp_all add: refs_soft_delete\<close>)
qed

lemma delete_refines:
  assumes "books_ok s" "deleteJournalVoucher E i may s = Inr s'"
  shows "refines s s'"
proof -
  obtain v where v: "live_voucher s i = Some v" using assms(2) by (cases "live_voucher s i") (auto simp: deleteJournalVoucher_def)
  note a = assms(2) [unfolded deleteJournalVoucher_def v option.case res_bind_Inr res_guard_Inr]
  from a obtain s1 where "v_status v \<noteq> VPermanent" "v_status v \<noteq> VApproved" "assertOpen E (v_date v) s = Inr s1" "s' = soft_delete i s1" by auto
  then show ?thesis using soft_delete_refines [OF assms(1) v] by (metis vstatus.exhaust)
qed

lemma status_refines:
  assumes "books_ok s" "live_voucher s i = Some v" "v_status v = VPermanent \<Longrightarrow> st = VPermanent"
    "st = VDraft \<Longrightarrow> v_status v = VDraft \<or> (\<not> isReversalReference (v_ref v) \<and> v_year v = None \<and> \<not> reversed_in (journal_of s) v)"
    "assertOpen E (v_date v) s = Inr s1"
  shows "refines s (set_voucher i (\<lambda>w. w\<lparr>v_status := st, v_approved := g w\<rparr>) s1)"
    "journal_of (set_voucher i (\<lambda>w. w\<lparr>v_status := st, v_approved := g w\<rparr>) s1) =
      (journal_of s)(i \<mapsto> (v\<lparr>v_status := st, v_approved := g v\<rparr>, live_items s i))"
proof -
  let ?f = "\<lambda>w. w\<lparr>v_status := st, v_approved := g w\<rparr>"
  note b = books_journal [OF assms(1,2)]
  note o = assertOpen_Inr [OF assms(5) b(3)]
  have wf: "ledger_wf s1" and refs: "refs_ok s1" using assms(1) o by (simp_all add: books_ok_def)
  have j1: "journal_of s1 i = Some (v, live_items s i)" using b(1) o(1) by simp
  show js: "journal_of (set_voucher i ?f s1) = (journal_of s)(i \<mapsto> (?f v, live_items s i))"
    using journal_set_voucher [OF _ _ wf j1, of ?f] o(1) by simp
  have w: "ledger_wf (set_voucher i ?f s1)" by (rule wf_set_voucher) (use wf in \<open>auto intro: ledger_wfD(8)\<close>)
  have r: "refs_ok (set_voucher i ?f s1)" by (rule refs_set_voucher) (use refs in auto)
  have y: "year_closed (set_voucher i ?f s1) = year_closed s" by (simp add: o(1))
  have "jstep (year_closed s) (journal_of s) ((journal_of s)(i \<mapsto> (?f v, live_items s i)))"
    by (rule jstep.status [where v = v]) (use b(1) assms(3,4) o(2) in auto)
  with w r y js show "refines s (set_voucher i ?f s1)" by (intro refines_step) simp_all
qed

lemma active_reversal_iff:
  assumes "ledger_wf s"
  shows "findActiveReversal s v = None \<longleftrightarrow> \<not> reversed_in (journal_of s) v"
proof -
  have "reversed_in (journal_of s) v \<longleftrightarrow> (\<exists>r \<in> set (ld_vouchers s). \<not> v_deleted r \<and> reverses r v)"
    unfolding reversed_in_def by (auto simp: journal_iff [OF assms])
  then show ?thesis unfolding findActiveReversal_def find_None_iff_set by (auto simp: active_reversal_of_def reverses_def)
qed

lemma finalize_refines:
  assumes "books_ok s" "finalizeJournalVoucher L E i user s = Inr s'"
  shows "refines s s'"
proof -
  obtain v where v: "any_voucher s i = Some v" using assms(2) by (cases "any_voucher s i") (auto simp: finalizeJournalVoucher_def)
  note a = assms(2) [unfolded finalizeJournalVoucher_def v option.case]
  have del: "\<not> v_deleted v" using a by auto
  have live: "live_voucher s i = Some v" using assms(1) v del by (simp add: live_any [OF ledger_wfD(1)] books_ok_def)
  show ?thesis
  proof (cases "v_status v = VPermanent")
    case True
    then show ?thesis using a del refines_refl [OF assms(1)] by simp
  next
    case False
    note a' = a [unfolded if_not_P [OF del] if_not_P [OF False] res_bind_Inr res_guard_Inr]
    from a' obtain s1 where "assertOpen E (v_date v) s = Inr s1" "s' = make_permanent i user s1" by auto
    then show ?thesis using status_refines(1) [OF assms(1) live, of VPermanent E s1 "\<lambda>_. id_or user"] False by (simp add: make_permanent_def)
  qed
qed

lemma apply_status_refines:
  assumes "books_ok s" "applyVoucherStatus L E i st user acting s = Inr s'"
  shows "refines s s'"
proof -
  have wf: "ledger_wf s" using assms(1) by (simp add: books_ok_def)
  obtain v where v: "live_voucher s i = Some v" using assms(2) by (cases "live_voucher s i") (auto simp: applyVoucherStatus_def)
  note a = assms(2) [unfolded applyVoucherStatus_def v option.case res_bind_Inr res_guard_Inr]
  from a obtain s1 where g: "(if st = VDraft \<and> v_status v \<noteq> VDraft then back_to_draft_guards E v s else Inr ()) = Inr ()"
    and p: "\<not> (v_status v = VPermanent \<and> st \<noteq> VPermanent)" and o: "assertOpen E (v_date v) s = Inr s1"
    and s': "s' = set_voucher i (\<lambda>w. w\<lparr>v_status := st, v_approved := (if st = VDraft then None
          else (case id_or user of Some u \<Rightarrow> Some u | None \<Rightarrow> id_or (v_approved v)))\<rparr>) s1" by auto
  have draft: "v_status v = VDraft \<or> (\<not> isReversalReference (v_ref v) \<and> v_year v = None \<and> \<not> reversed_in (journal_of s) v)" if "st = VDraft"
    using g that by (auto simp: back_to_draft_guards_def res_bind_Inr res_guard_Inr assertNotYearEndClosing_def assertNoActiveReversal_def
      active_reversal_iff [OF wf] split: option.splits)
  show ?thesis unfolding s' by (rule status_refines(1) [OF assms(1) v _ _ o]) (use p draft in auto)
qed

lemma set_status_refines: "books_ok s \<Longrightarrow> setVoucherStatus L E i st user s = Inr s' \<Longrightarrow> refines s s'"
  by (auto simp: setVoucherStatus_def res_bind_Inr intro: apply_status_refines)

lemma workflow_step_refines: "books_ok s \<Longrightarrow> applyVoucherWorkflowStep L E key n by_user acting s = Inr s' \<Longrightarrow> refines s s'"
  by (auto simp: applyVoucherWorkflowStep_def split: option.splits if_splits intro: apply_status_refines refines_refl)

lemma approve_one_refines:
  assumes "books_ok (snd b)" "approve_one E W user i b = Inr b'"
  shows "refines (snd b) (snd b')"
proof -
  let ?s = "snd b"
  note a = assms(2) [unfolded approve_one_def case_prod_unfold]
  show ?thesis
  proof (cases "any_voucher ?s i")
    case None
    then show ?thesis using a refines_refl [OF assms(1)] by auto
  next
    case (Some v)
    note a' = a [unfolded Some option.case]
    show ?thesis
    proof (cases "v_deleted v \<or> v_status v \<noteq> VDraft \<or> i \<in> set W \<or> makerApprovalRefusal E ?s v VApproved user")
      case True
      then show ?thesis using a' refines_refl [OF assms(1)] by (auto split: if_splits)
    next
      case False
      then have c: "\<not> (v_deleted v \<or> v_status v \<noteq> VDraft)" "\<not> i \<in> set W" "\<not> makerApprovalRefusal E ?s v VApproved user" by auto
      have live: "live_voucher ?s i = Some v" using assms(1) Some c(1) by (simp add: live_any [OF ledger_wfD(1)] books_ok_def)
      from a' [unfolded c [THEN if_not_P] res_bind_Inr] obtain s1 where "assertOpen E (v_date v) ?s = Inr s1"
        "snd b' = set_voucher i (\<lambda>v. v\<lparr>v_status := VApproved, v_approved := id_or user\<rparr>) s1" by auto
      then show ?thesis using status_refines(1) [OF assms(1) live, of VApproved E s1 "\<lambda>_. id_or user"] c by simp
    qed
  qed
qed

lemma finalize_one_refines:
  assumes "books_ok (snd b)" "finalize_one L E W user i b = Inr b'"
  shows "refines (snd b) (snd b')"
proof -
  let ?s = "snd b"
  note a = assms(2) [unfolded finalize_one_def case_prod_unfold]
  show ?thesis
  proof (cases "any_voucher ?s i")
    case None
    then show ?thesis using a refines_refl [OF assms(1)] by auto
  next
    case (Some v)
    note a' = a [unfolded Some option.case]
    show ?thesis
    proof (cases "v_deleted v \<or> v_status v = VPermanent \<or> i \<in> set W \<or> makerApprovalRefusal E ?s v VPermanent user \<or> isClosed E (v_date v) ?s")
      case True
      then show ?thesis using a' refines_refl [OF assms(1)] by (auto split: if_splits)
    next
      case False
      then have c: "\<not> v_deleted v" "\<not> v_status v = VPermanent" "\<not> i \<in> set W" "\<not> makerApprovalRefusal E ?s v VPermanent user"
        "\<not> isClosed E (v_date v) ?s" by auto
      have live: "live_voucher ?s i = Some v" using assms(1) Some c(1) by (simp add: live_any [OF ledger_wfD(1)] books_ok_def)
      note vd = books_journal(3) [OF assms(1) live]
      from a' [unfolded c [THEN if_not_P] res_bind_Inr] obtain s1 where o: "assertOpen E (v_date v) ?s = Inr s1"
        and s': "snd b' = (if \<not> isVoucherBalancedForFinalize L s1 v then s1 else make_permanent i user s1)" by (auto split: if_splits)
      show ?thesis
      proof (cases "isVoucherBalancedForFinalize L s1 v")
        case True
        then show ?thesis using s' status_refines(1) [OF assms(1) live _ _ o, of VPermanent "\<lambda>_. id_or user"] c by (simp add: make_permanent_def)
      next
        case False
        then show ?thesis using s' assertOpen_Inr(1) [OF o vd] refines_side(3) [OF refines_refl [OF assms(1)]] by simp
      qed
    qed
  qed
qed

lemma fold_refines:
  assumes "fold_res f xs (b :: batch_result \<times> ledger_db) = Inr b'" "books_ok (snd b)"
    "\<And>x c c'. books_ok (snd c) \<Longrightarrow> f x c = Inr c' \<Longrightarrow> refines (snd c) (snd c')"
  shows "refines (snd b) (snd b')"
  by (rule fold_res_invariant [OF assms(1), where P = "\<lambda>c. refines (snd b) (snd c)"])
    (use assms(2,3) refines_refl refines_trans refines_ok in blast)+

lemma finalize_all_refines: "books_ok s \<Longrightarrow> finalizeJournalVouchers L E ids user s = Inr (b, s') \<Longrightarrow> refines s s'"
  unfolding finalizeJournalVouchers_def using fold_refines [of _ "sorted_ids ids" _ "(b, s')"] finalize_one_refines by fastforce

lemma approve_all_refines: "books_ok s \<Longrightarrow> approveJournalVouchers E ids user s = Inr (b, s') \<Longrightarrow> refines s s'"
proof -
  assume ok: "books_ok s" and "approveJournalVouchers E ids user s = Inr (b, s')"
  then obtain c where "fold_res (approve_one E (ld_workflows s) user) (sorted_ids ids) (\<lparr>bt_done = [], bt_refused = []\<rparr>, s) = Inr (c, s')"
    by (auto simp: approveJournalVouchers_def res_bind_Inr)
  from fold_refines [OF this] ok approve_one_refines show "refines s s'" by fastforce
qed

section \<open>Reversals and corrections\<close>

lemma reversal_header_simps [simp]:
  "v_number (reversal_header L v date t y ref tot u un num) = num" "v_deleted (reversal_header L v date t y ref tot u un num) = False"
  "v_date (reversal_header L v date t y ref tot u un num) = date" "v_status (reversal_header L v date t y ref tot u un num) = VApproved"
  "v_ref (reversal_header L v date t y ref tot u un num) = ref" "v_ref_id (reversal_header L v date t y ref tot u un num) = Some (v_id v)"
  "v_currency (reversal_header L v date t y ref tot u un num) = str_or (Some (v_currency v)) ''IRR''"
  "v_debit (reversal_header L v date t y ref tot u un num) = fin_toDb L (snd tot)"
  "v_credit (reversal_header L v date t y ref tot u un num) = fin_toDb L (fst tot)"
  by (simp_all add: reversal_header_def)

lemma re_rev_not_reversal: "''RE-REV-V'' @ a \<noteq> rev_ref v" "''RE-REV-V'' @ a \<noteq> void_repost_ref v"
  by (simp_all add: rev_ref_def void_repost_ref_def)

context decimal_js begin

lemma reversal_post:
  assumes "books_ok s" "live_voucher s i = Some v" "v_status v \<noteq> VDraft" "isStorageDate date" "\<not> year_closed s (book_year date)"
    "insert_voucher (reversal_header L v date t y ref (v_debit v, v_credit v) u un (ld_next_number s)) (s\<lparr>ld_next_number := ld_next_number s + 1\<rparr>) = Inr s2"
    "mset orig = mset (live_items s i)" "ref \<in> {rev_ref v, void_repost_ref v} \<Longrightarrow> \<not> reversed_in (journal_of s) v"
  shows "refines s (insertVoucherItems (map (reversed_item L (ld_next_id s)) (enumerate 0 orig)) s2)"
    "journal_of (insertVoucherItems (map (reversed_item L (ld_next_id s)) (enumerate 0 orig)) s2) = (journal_of s)(ld_next_id s \<mapsto>
      ((reversal_header L v date t y ref (v_debit v, v_credit v) u un (ld_next_number s))\<lparr>v_id := ld_next_id s\<rparr>,
        map (reversed_item L (ld_next_id s)) (enumerate 0 orig)))"
proof -
  let ?i = "ld_next_id s"
  let ?h = "reversal_header L v date t y ref (v_debit v, v_credit v) u un (ld_next_number s)"
  let ?rows = "map (reversed_item L ?i) (enumerate 0 orig)"
  note b = books_journal [OF assms(1,2)]
  have m: "money4 (v_debit v)" "money4 (v_credit v)" "str_or (Some (v_currency v)) ''IRR'' = v_currency v"
    using b(2) by (auto simp: entry_ok.simps str_or_def)
  have e: "entry_ok (?h\<lparr>v_id := ?i\<rparr>, ?rows)"
    by (rule reversed_entry_ok [OF b(2) assms(7)]) (simp_all add: m)
  have id: "\<exists>j < ?i. v_ref_id ?h = Some j"
    using assms(1) b(4,5) by (auto simp: books_ok_def dest: ledger_wfD(2))
  have one: "w = v" if "journal_of s k = Some (w, q)" "reverses ?h w" for w q k
  proof -
    have "v_id w = i" using that(2) b(4) by (simp add: reverses_def)
    with journal_id [OF that(1)] that(1) b(1) show ?thesis by simp
  qed
  have c: "v_status w \<noteq> VDraft \<and> v_status ?h \<noteq> VDraft \<and> \<not> reversed_in (journal_of s) w"
    if "journal_of s k = Some (w, q)" "reverses ?h w" for w q k
    using one [OF that] that(2) assms(3,8) by (auto simp: reverses_def)
  note p = post_refines [OF assms(1,6) _ _ _ _ _ e id c]
  show "refines s (insertVoucherItems ?rows s2)" by (rule p(1)) (use assms(4,5) in simp_all)
  show "journal_of (insertVoucherItems ?rows s2) = (journal_of s)(?i \<mapsto> (?h\<lparr>v_id := ?i\<rparr>, ?rows))"
    by (rule p(2)) (use assms(4,5) in simp_all)
qed

lemma reverse_Inr:
  assumes "books_ok s" "isStorageDate (le_today E)" "reverseVoucher L E p s = Inr (k, s')"
  obtains v date s1 s2 where "live_voucher s (rp_voucher p) = Some v" "v_status v \<noteq> VDraft" "isStorageDate date" "s1 = ensureRow (book_year date) s"
    "\<not> year_closed s (book_year date)" "k = ld_next_id s" "ordered_items s (rp_voucher p) \<noteq> []"
    "insert_voucher (reversal_header L v date (if v_year v \<noteq> None then v_type v else ''adjustment'') (v_year v) (expected_ref v)
      (v_debit v, v_credit v) (rp_user p) (rp_username p) (ld_next_number s1)) (s1\<lparr>ld_next_number := ld_next_number s1 + 1\<rparr>) = Inr s2"
    "s' = terminateVoucherWorkflows (v_id v) (insertVoucherItems (map (reversed_item L k) (enumerate 0 (ordered_items s (rp_voucher p)))) s2)"
    "reversal_guards E p v s = Inr ()" "date_or_today E (rp_date p) = Inr date"
proof -
  obtain v where v: "live_voucher s (rp_voucher p) = Some v" using assms(3) by (cases "live_voucher s (rp_voucher p)") (auto simp: reverseVoucher_def)
  note b = books_journal [OF assms(1) v]
  note a = assms(3) [unfolded reverseVoucher_def v option.case Let_def getNextVoucherNumber_def case_prod_unfold fst_conv snd_conv res_bind_Inr res_guard_Inr]
  from a obtain date s1 s2 where d: "date_or_today E (rp_date p) = Inr date" and o: "assertOpen E date s = Inr s1"
    and g: "reversal_guards E p v s = Inr ()" "ordered_items s (v_id v) \<noteq> []"
    and ins: "insert_voucher (reversal_header L v date (if v_year v \<noteq> None then v_type v else ''adjustment'') (v_year v) (expected_ref v)
      (v_debit v, v_credit v) (rp_user p) (rp_username p) (ld_next_number s1)) (s1\<lparr>ld_next_number := ld_next_number s1 + 1\<rparr>) = Inr s2"
    and r: "k = ld_next_id s1" "s' = terminateVoucherWorkflows (v_id v) (insertVoucherItems (map (reversed_item L (ld_next_id s1)) (enumerate 0 (ordered_items s (v_id v)))) s2)"
    by auto
  have date: "isStorageDate date" by (rule date_or_today_stored [OF d assms(2)])
  note s1 = assertOpen_Inr [OF o date]
  have st: "v_status v \<noteq> VDraft" using g(1) by (auto simp: reversal_guards_def res_bind_Inr res_guard_Inr)
  show thesis
    by (rule that [OF v st date s1 _ _ ins _ g(1) d]) (use r s1 g(2) b(4) in simp_all)
qed

lemma reverse_refines:
  assumes "books_ok s" "isStorageDate (le_today E)" "reverseVoucher L E p s = Inr (k, s')"
  shows "refines s s'"
proof -
  from assms obtain v date s1 s2 where v: "live_voucher s (rp_voucher p) = Some v" "v_status v \<noteq> VDraft" and date: "isStorageDate date"
    and s1: "s1 = ensureRow (book_year date) s" "\<not> year_closed s (book_year date)" and k: "k = ld_next_id s"
    and ins: "insert_voucher (reversal_header L v date (if v_year v \<noteq> None then v_type v else ''adjustment'') (v_year v) (expected_ref v)
      (v_debit v, v_credit v) (rp_user p) (rp_username p) (ld_next_number s1)) (s1\<lparr>ld_next_number := ld_next_number s1 + 1\<rparr>) = Inr s2"
    and s': "s' = terminateVoucherWorkflows (v_id v) (insertVoucherItems (map (reversed_item L k) (enumerate 0 (ordered_items s (rp_voucher p)))) s2)"
    and g: "reversal_guards E p v s = Inr ()" and "date_or_today E (rp_date p) = Inr date" by (rule reverse_Inr)
  have b1: "books_ok s1" using assms(1) s1 by simp
  have wf: "ledger_wf s" using assms(1) by (simp add: books_ok_def)
  have v1: "live_voucher s1 (rp_voucher p) = Some v" using v(1) s1(1) by simp
  have nr: "\<not> reversed_in (journal_of s1) v" if "expected_ref v \<in> {rev_ref v, void_repost_ref v}"
  proof -
    have "\<not> reversal_of_original (v_ref v)" using that re_rev_not_reversal by (auto simp: expected_ref_def)
    then have "findActiveReversal s v = None" using g by (auto simp: reversal_guards_def res_bind_Inr split: option.splits)
    then show ?thesis using active_reversal_iff [OF wf] s1(1) by simp
  qed
  have "refines s1 (insertVoucherItems (map (reversed_item L (ld_next_id s1)) (enumerate 0 (ordered_items s (rp_voucher p)))) s2)"
    by (rule reversal_post(1) [OF b1 v1 v(2) date _ ins]) (use s1 nr mset_ordered_items in auto)
  then have "refines s1 s'" unfolding s' k using s1(1) refines_side by simp
  then show ?thesis unfolding s1 by (rule refines_from_side)
qed

lemma void_refines:
  assumes "books_ok s" "isStorageDate (le_today E)" "voidSourceVoucher L E p s = Inr (r, s')"
  shows "refines s s'"
proof -
  obtain v where v: "live_voucher s (rp_voucher p) = Some v" using assms(3) by (cases "live_voucher s (rp_voucher p)") (auto simp: voidSourceVoucher_def)
  note b = books_journal [OF assms(1) v]
  note a = assms(3) [unfolded voidSourceVoucher_def v option.case]
  show ?thesis
  proof (cases "v_status v = VDraft")
    case True
    note a' = a [unfolded if_P [OF True] res_bind_Inr]
    from a' obtain s1 where "assertOpen E (v_date v) s = Inr s1" "s' = soft_delete (v_id v) s1" by auto
    then show ?thesis using soft_delete_refines [OF assms(1) v True] b(4) by simp
  next
    case False
    note a' = a [unfolded if_not_P [OF False] res_bind_Inr case_prod_unfold]
    from a' obtain x where "reverseVoucher L E (p\<lparr>rp_voucher := v_id v, rp_manual_entry := False, rp_may_adjust := False\<rparr>) s = Inr x" "s' = snd x" by auto
    then show ?thesis using reverse_refines [OF assms(1,2), of _ "fst x" "snd x"] by simp
  qed
qed

text \<open>Reading a voucher back as numbers loses nothing.\<close>

lemma view_exact:
  assumes "books_ok s" "books_env E s" "live_voucher s i = Some v" "getJournalVoucherById L E i s = Inr w"
  shows "vw_voucher w = v" "vw_items w = ordered_items s i"
    "vw_source w = voucherSourceKind E s i" "vw_reversed_by w = voucherActiveReversals s [vw_voucher w] i" "vw_in_workflow w = (i \<in> set (ld_workflows s))"
proof -
  note b = books_journal [OF assms(1,3)]
  have m: "fin_toNumber L x = x" if "money4 x" for x using that by (intro toNumber_scaled) (auto simp: money4_def)
  have w: "vw_voucher w = v\<lparr>v_debit := fin_toNumber L (v_debit v), v_credit := fin_toNumber L (v_credit v)\<rparr>"
    "vw_items w = map (item_number L) (filter (\<lambda>x. account_known E (vi_account x)) (ordered_items s i))"
    using assms(3,4) by (auto simp: getJournalVoucherById_def)
  have "money4 (v_debit v)" "money4 (v_credit v)" using b(2) by (auto simp: entry_ok.simps)
  then show v: "vw_voucher w = v" by (simp add: m w(1))
  have mem: "x \<in> set (live_items s i)" if "x \<in> set (ordered_items s i)" for x using that by (simp add: ordered_items_def)
  have "account_known E (vi_account x)" "item_number L x = x" if "x \<in> set (ordered_items s i)" for x
    using mem [OF that] assms(2) b(2) m by (auto simp: books_env_def live_items_def item_number_def entry_ok.simps)
  then show "vw_items w = ordered_items s i" unfolding w(2) by (simp add: map_idI)
  show "vw_source w = voucherSourceKind E s i" "vw_in_workflow w = (i \<in> set (ld_workflows s))" "vw_reversed_by w = voucherActiveReversals s [vw_voucher w] i"
    using assms(3,4) v by (auto simp: getJournalVoucherById_def)
qed

lemma correct_Inr:
  assumes "books_ok s" "books_env E s" "correctVoucher L E p s = Inr (ks, s')"
  obtains v date s1 s2 s4 s5 where "live_voucher s (cp_voucher p) = Some v" "v_status v = VApproved" "isStorageDate date" "s1 = ensureRow (book_year date) s"
    "\<not> year_closed s (book_year date)" "findActiveReversal s v = None" "correction_guards E v s = Inr ()"
    "insert_voucher (reversal_header L v date ''adjustment'' None (rev_ref v) (v_debit v, v_credit v) (cp_user p) (cp_username p) (ld_next_number s1))
      (s1\<lparr>ld_next_number := ld_next_number s1 + 1\<rparr>) = Inr s2"
    "s4 = insertVoucherItems (map (reversed_item L (ld_next_id s1)) (enumerate 0 (ordered_items s (cp_voucher p)))) s2"
    "createJournalVoucher L E (correction_data p v date) s4 = Inr (snd ks, s5)" "fst ks = ld_next_id s1"
    "s' = terminateVoucherWorkflows (v_id v) s5"
proof -
  have n1: "\<not> js_trim (cp_reason p) = ''''" using assms(3) by (auto simp: correctVoucher_def)
  have n2: "\<not> length (cp_items p) < 2" using assms(3) [unfolded correctVoucher_def if_not_P [OF n1]] by auto
  note n = n1 n2
  note a = assms(3) [unfolded correctVoucher_def n [THEN if_not_P] res_bind_Inr]
  from a obtain w where w: "getJournalVoucherById L E (cp_voucher p) s = Inr w" by blast
  then obtain v where v: "live_voucher s (cp_voucher p) = Some v"
    by (cases "live_voucher s (cp_voucher p)") (auto simp: getJournalVoucherById_def)
  note b = books_journal [OF assms(1) v]
  note vw = view_exact [OF assms(1,2) v w]
  have env: "isStorageDate (le_today E)" using assms(2) by (simp add: books_env_def)
  from a [unfolded w Let_def getNextVoucherNumber_def case_prod_unfold fst_conv snd_conv] obtain date s1 s2 x where g: "correction_guards E v s = Inr ()"
    and d: "date_or_today E (cp_date p) = Inr date" and o: "assertOpen E date s = Inr s1"
    and f: "correction_late_guards E (cp_may_adjust p) v s1 = Inr ()"
    and ins: "insert_voucher (reversal_header L v date ''adjustment'' None (rev_ref v) (v_debit v, v_credit v) (cp_user p) (cp_username p) (ld_next_number s1))
      (s1\<lparr>ld_next_number := ld_next_number s1 + 1\<rparr>) = Inr s2"
    and c: "createJournalVoucher L E (correction_data p v date) (insertVoucherItems (map (reversed_item L (ld_next_id s1)) (enumerate 0 (ordered_items s (cp_voucher p)))) s2) = Inr x"
    and r: "ks = (ld_next_id s1, fst x)" "s' = terminateVoucherWorkflows (v_id v) (snd x)"
    by (auto simp: res_bind_Inr vw)
  have date: "isStorageDate date" by (rule date_or_today_stored [OF d env])
  note s1 = assertOpen_Inr [OF o date]
  have "v_status v \<noteq> VDraft" "v_status v \<noteq> VPermanent" using g by (auto simp: correction_guards_def res_bind_Inr res_guard_Inr)
  then have st: "v_status v = VApproved" by (cases "v_status v") auto
  have fa: "findActiveReversal s v = None" using f s1(1)
    by (auto simp: correction_late_guards_def findActiveReversal_def res_bind_Inr split: option.splits)
  show thesis
    by (rule that [OF v st date s1 fa g ins refl]) (use c r in \<open>simp_all\<close>)
qed

lemma correction_ref: "\<not> isReversalReference (trim_or (Some (''CORR-V'' @ show_nat n)))"
proof -
  have "take 1 (js_trim (CHR ''C'' # t)) = ''C''" for t
  proof -
    have "dropWhile js_space (CHR ''C'' # t) = CHR ''C'' # t" by (simp add: js_space_def)
    moreover have "dropWhile js_space (rev t @ [CHR ''C'']) = dropWhile js_space (rev t) @ [CHR ''C'']"
      by (cases "\<forall>c \<in> set t. js_space c") (auto simp: dropWhile_append3 dropWhile_append1 js_space_def)
    ultimately show ?thesis by (simp add: js_trim_def)
  qed
  from this [of "''ORR-V'' @ show_nat n"] show ?thesis
    by (cases "js_trim (''CORR-V'' @ show_nat n)")
      (auto simp: trim_or_def isReversalReference_def REVERSAL_REFERENCE_PREFIXES_def starts_with_def)
qed

lemma correct_refines:
  assumes "books_ok s" "books_env E s" "rows_fit (cp_items p)" "correctVoucher L E p s = Inr (ks, s')"
  shows "refines s s'"
proof -
  from assms(1,2,4) obtain v date s1 s2 s4 s5 where v: "live_voucher s (cp_voucher p) = Some v" "v_status v = VApproved" and date: "isStorageDate date"
    and s1: "s1 = ensureRow (book_year date) s" "\<not> year_closed s (book_year date)" and fa: "findActiveReversal s v = None"
    and ins: "insert_voucher (reversal_header L v date ''adjustment'' None (rev_ref v) (v_debit v, v_credit v) (cp_user p) (cp_username p) (ld_next_number s1))
      (s1\<lparr>ld_next_number := ld_next_number s1 + 1\<rparr>) = Inr s2"
    and s4: "s4 = insertVoucherItems (map (reversed_item L (ld_next_id s1)) (enumerate 0 (ordered_items s (cp_voucher p)))) s2"
    and c: "createJournalVoucher L E (correction_data p v date) s4 = Inr (snd ks, s5)"
    and s': "s' = terminateVoucherWorkflows (v_id v) s5" by (rule correct_Inr)
  have env: "isStorageDate (le_today E)" using assms(2) by (simp add: books_env_def)
  have b1: "books_ok s1" using assms(1) s1 by simp
  have wf: "ledger_wf s" using assms(1) by (simp add: books_ok_def)
  have v1: "live_voucher s1 (cp_voucher p) = Some v" using v(1) s1(1) by simp
  have nr: "\<not> reversed_in (journal_of s1) v" using active_reversal_iff [OF wf] fa s1(1) by simp
  have r1: "refines s1 s4" unfolding s4
    by (rule reversal_post(1) [OF b1 v1 _ date _ ins]) (use s1 nr v(2) mset_ordered_items in auto)
  then have b4: "books_ok s4" using b1 by (rule refines_ok)
  have ok: "create_ok (correction_data p v date)" unfolding create_ok_def correction_data_def using assms(3) correction_ref by simp
  have "refines s4 s5" by (rule create_refines [OF b4 env ok c])
  then have "refines s1 s'" unfolding s' using r1 refines_trans refines_side by blast
  then show ?thesis unfolding s1 by (rule refines_from_side)
qed

end
end
