(* ===== verification/VoucherSteps.thy ===== *)
theory VoucherSteps
  imports VoucherRun
begin

text \<open>
  Runs of the voucher service as a step relation, what the moves of the journal preserve (permanent vouchers, the entries
  of a closed year), rows that change sides, and the loop that finalizes many vouchers.
\<close>

section \<open>Runs of the voucher service\<close>

text \<open>One operation that succeeds. Each step has its own environment: the day, the accounts, the roles.\<close>

inductive voucher_step :: "decimal_lib \<Rightarrow> ledger_db \<Rightarrow> ledger_db \<Rightarrow> bool" for L where
  create: "voucher_step L s s'" if "books_env E s" "create_ok d" "createJournalVoucher L E d s = Inr (i, s')"
| update: "voucher_step L s s'" if "books_env E s" "updateJournalVoucher L E i u s = Inr s'" "\<And>v. live_voucher s i = Some v \<Longrightarrow> update_ok u v"
| delete: "voucher_step L s s'" if "books_env E s" "deleteJournalVoucher E i may s = Inr s'"
| reverse: "voucher_step L s s'" if "books_env E s" "reverseVoucher L E p s = Inr (i, s')"
| void: "voucher_step L s s'" if "books_env E s" "voidSourceVoucher L E p s = Inr (r, s')"
| correct: "voucher_step L s s'" if "books_env E s" "rows_fit (cp_items c)" "correctVoucher L E c s = Inr (ks, s')"
| finalize: "voucher_step L s s'" if "books_env E s" "finalizeJournalVoucher L E i user s = Inr s'"
| finalize_all: "voucher_step L s s'" if "books_env E s" "finalizeJournalVouchers L E ids user s = Inr (b, s')"
| approve_all: "voucher_step L s s'" if "books_env E s" "approveJournalVouchers E ids user s = Inr (b, s')"
| set_status: "voucher_step L s s'" if "books_env E s" "setVoucherStatus L E i st user s = Inr s'"
| workflow: "voucher_step L s s'" if "books_env E s" "applyVoucherWorkflowStep L E key n user acting s = Inr s'"


context decimal_js begin

lemma voucher_step_refines:
  assumes "voucher_step L s s'" "books_ok s" shows "refines s s'"
  using assms
proof cases
  case create
  then show ?thesis using create_refines [OF assms(2)] by (auto simp: books_env_def)
next
  case reverse
  then show ?thesis using reverse_refines [OF assms(2)] by (auto simp: books_env_def)
next
  case void
  then show ?thesis using void_refines [OF assms(2)] by (auto simp: books_env_def)
next
  case finalize
  show ?thesis by (rule finalize_refines [OF assms(2) finalize(2)])
next
  case finalize_all
  show ?thesis by (rule finalize_all_refines [OF assms(2) finalize_all(2)])
next
  case approve_all
  show ?thesis by (rule approve_all_refines [OF assms(2) approve_all(2)])
next
  case set_status
  show ?thesis by (rule set_status_refines [OF assms(2) set_status(2)])
next
  case workflow
  show ?thesis by (rule workflow_step_refines [OF assms(2) workflow(2)])
qed (use assms(2) update_refines delete_refines correct_refines in blast)+

lemma voucher_run_refines:
  assumes "(voucher_step L)\<^sup>*\<^sup>* s s'" "books_ok s" shows "refines s s'"
  using assms(1)
proof (induction rule: rtranclp_induct)
  case base
  show ?case by (rule refines_refl [OF assms(2)])
next
  case (step t u)
  then show ?case using voucher_step_refines refines_ok [OF step.IH assms(2)] refines_trans by blast
qed

end

text \<open>What moves of the journal preserve.\<close>

lemma jstep_permanent:
  assumes "jstep shut J J'" "J i = Some (v, rows)" "v_status v = VPermanent"
  shows "\<exists>a. J' i = Some (v\<lparr>v_approved := a\<rparr>, rows)"
  using assms(1)
proof cases
  case (status k w q st a)
  show ?thesis
  proof (cases "k = i")
    case True
    then have "w = v" "q = rows" "st = VPermanent" using status assms(2,3) by auto
    then have "v\<lparr>v_status := st, v_approved := a\<rparr> = v\<lparr>v_approved := a\<rparr>" using assms(3) by simp
    then show ?thesis using status(1) True \<open>w = v\<close> \<open>q = rows\<close> by auto
  qed (use status assms(2) in \<open>auto intro: exI [of _ "v_approved v"]\<close>)
qed (use assms(2,3) in \<open>auto intro: exI [of _ "v_approved v"]\<close>)

lemma jsteps_permanent:
  assumes "(jstep shut)\<^sup>*\<^sup>* J J'" "J i = Some (v, rows)" "v_status v = VPermanent"
  shows "\<exists>a. J' i = Some (v\<lparr>v_approved := a\<rparr>, rows)"
  using assms(1)
proof (induction rule: rtranclp_induct)
  case base
  show ?case using assms(2) by (auto intro: exI [of _ "v_approved v"])
next
  case (step K K')
  then obtain a where "K i = Some (v\<lparr>v_approved := a\<rparr>, rows)" by blast
  from jstep_permanent [OF step.hyps(2) this] assms(3) show ?case by auto
qed

text \<open>The entries of one year.\<close>

definition year_entries :: "journal \<Rightarrow> int \<Rightarrow> journal" where
  "year_entries J y = (\<lambda>i. case J i of None \<Rightarrow> None | Some (v, rows) \<Rightarrow> if book_year (v_date v) = y then Some (v, rows) else None)"

definition no_drafts :: "journal \<Rightarrow> int \<Rightarrow> bool" where
  "no_drafts J y \<longleftrightarrow> (\<forall>i v rows. J i = Some (v, rows) \<longrightarrow> book_year (v_date v) = y \<longrightarrow> v_status v \<noteq> VDraft)"

lemma jstep_closed_year:
  assumes "jstep shut J J'" "shut y" "no_drafts J y"
  shows "year_entries J' y = year_entries J y"
  using assms(1)
proof cases
  case (edit i v rows w q)
  then have "book_year (v_date v) \<noteq> y" using assms(3) unfolding no_drafts_def by blast
  then show ?thesis using edit assms(2) by (auto simp: year_entries_def fun_eq_iff)
next
  case (remove i v rows)
  then have "book_year (v_date v) \<noteq> y" using assms(3) unfolding no_drafts_def by blast
  then show ?thesis using remove by (auto simp: year_entries_def fun_eq_iff)
qed (use assms(2) in \<open>auto simp: year_entries_def fun_eq_iff\<close>)

lemma no_drafts_year: "year_entries J' y = year_entries J y \<Longrightarrow> no_drafts J y \<Longrightarrow> no_drafts J' y"
  unfolding no_drafts_def
proof (intro allI impI)
  fix i v rows
  assume e: "year_entries J' y = year_entries J y" and n: "\<forall>i v rows. J i = Some (v, rows) \<longrightarrow> book_year (v_date v) = y \<longrightarrow> v_status v \<noteq> VDraft"
    and j: "J' i = Some (v, rows)" "book_year (v_date v) = y"
  have "year_entries J' y i = Some (v, rows)" using j by (simp add: year_entries_def)
  then have "year_entries J y i = Some (v, rows)" using e by simp
  then have "J i = Some (v, rows)" by (auto simp: year_entries_def split: option.splits if_splits)
  with n j(2) show "v_status v \<noteq> VDraft" by blast
qed

lemma jsteps_closed_year:
  assumes "(jstep shut)\<^sup>*\<^sup>* J J'" "shut y" "no_drafts J y"
  shows "year_entries J' y = year_entries J y"
  using assms(1)
proof (induction rule: rtranclp_induct)
  case (step K K')
  then show ?case using jstep_closed_year [OF step.hyps(2) assms(2)] no_drafts_year assms(3) by metis
qed simp


section \<open>Rows that change sides\<close>

text \<open>What the rows book on one account, currency and detail.\<close>

definition row_key :: "vitem \<Rightarrow> int \<times> string \<times> int option" where
  "row_key x = (vi_account x, vi_currency x, id_or (vi_did x))"

definition net_of :: "int \<times> string \<times> int option \<Rightarrow> vitem list \<Rightarrow> rat" where
  "net_of key rows = sum_list (map (\<lambda>x. vi_debit x - vi_credit x) (filter (\<lambda>x. row_key x = key) rows))"

lemma id_or_id_or [simp]: "id_or (id_or v) = id_or v"
  by (auto simp: id_or_def split: option.split)

lemma net_of_mset: "mset xs = mset ys \<Longrightarrow> net_of key xs = net_of key ys"
  unfolding net_of_def by (rule sum_list_mset_cong) simp

context decimal_js begin

lemma net_of_reversed:
  assumes "\<And>x. x \<in> set xs \<Longrightarrow> money4 (vi_debit x) \<and> money4 (vi_credit x) \<and> vi_currency x \<noteq> ''''"
  shows "net_of key (map (reversed_item L k) (enumerate n xs)) = - net_of key xs"
  using assms
proof (induction xs arbitrary: n)
  case (Cons x xs)
  have "row_key (reversed_item L k (n, x)) = row_key x" using Cons.prems [of x] by (simp add: row_key_def str_or_def)
  then show ?case using Cons.IH [of "Suc n"] Cons.prems by (simp add: net_of_def)
qed (simp add: net_of_def)

text \<open>A reversal posts one approved voucher that takes the original back.\<close>

lemma reverse_entry:
  assumes "books_ok s" "isStorageDate (le_today E)" "reverseVoucher L E p s = Inr (k, s')"
  shows "\<exists>v date. journal_of s (rp_voucher p) = Some (v, live_items s (rp_voucher p)) \<and> v_status v \<noteq> VDraft \<and> k = ld_next_id s \<and>
    date_or_today E (rp_date p) = Inr date \<and> isStorageDate date \<and> \<not> year_closed s (book_year date) \<and>
    journal_of s' = (journal_of s)(k \<mapsto>
      ((reversal_header L v date (if v_year v \<noteq> None then v_type v else ''adjustment'') (v_year v) (expected_ref v)
          (v_debit v, v_credit v) (rp_user p) (rp_username p) (ld_next_number s))\<lparr>v_id := k\<rparr>,
        map (reversed_item L k) (enumerate 0 (ordered_items s (rp_voucher p)))))"
proof -
  from assms obtain v date s1 s2 where v: "live_voucher s (rp_voucher p) = Some v" "v_status v \<noteq> VDraft" and date: "isStorageDate date"
    and s1: "s1 = ensureRow (book_year date) s" "\<not> year_closed s (book_year date)" and k: "k = ld_next_id s"
    and ins: "insert_voucher (reversal_header L v date (if v_year v \<noteq> None then v_type v else ''adjustment'') (v_year v) (expected_ref v)
      (v_debit v, v_credit v) (rp_user p) (rp_username p) (ld_next_number s1)) (s1\<lparr>ld_next_number := ld_next_number s1 + 1\<rparr>) = Inr s2"
    and s': "s' = terminateVoucherWorkflows (v_id v) (insertVoucherItems (map (reversed_item L k) (enumerate 0 (ordered_items s (rp_voucher p)))) s2)"
    and g: "reversal_guards E p v s = Inr ()" and d: "date_or_today E (rp_date p) = Inr date" by (rule reverse_Inr)
  note b = books_journal [OF assms(1) v(1)]
  have wf: "ledger_wf s" using assms(1) by (simp add: books_ok_def)
  have b1: "books_ok s1" and v1: "live_voucher s1 (rp_voucher p) = Some v" using assms(1) v(1) s1 by simp_all
  have nr: "\<not> reversed_in (journal_of s1) v" if "expected_ref v \<in> {rev_ref v, void_repost_ref v}"
  proof -
    have "\<not> reversal_of_original (v_ref v)" using that re_rev_not_reversal by (auto simp: expected_ref_def)
    then have "findActiveReversal s v = None" using g by (auto simp: reversal_guards_def res_bind_Inr split: option.splits)
    then show ?thesis using active_reversal_iff [OF wf] s1(1) by simp
  qed
  note j = reversal_post(2) [OF b1 v1 v(2) date _ ins]
  show ?thesis
    by (rule exI [of _ v], rule exI [of _ date])
      (use b(1) v(2) d date s1 k s' nr mset_ordered_items j [of "ordered_items s (rp_voucher p)"] in auto)
qed

lemma reverse_posts:
  assumes "books_ok s" "isStorageDate (le_today E)" "reverseVoucher L E p s = Inr (k, s')"
  shows "\<exists>v rows r rows'. journal_of s (rp_voucher p) = Some (v, rows) \<and> v_status v \<noteq> VDraft \<and> journal_of s k = None \<and>
    journal_of s' = (journal_of s)(k \<mapsto> (r, rows')) \<and> v_status r = VApproved \<and> v_ref_id r = Some (v_id v) \<and> v_ref r = expected_ref v \<and>
    \<not> year_closed s (book_year (v_date r)) \<and> v_debit r = v_credit v \<and> v_credit r = v_debit v \<and>
    (\<forall>key. net_of key rows' = - net_of key rows)"
proof -
  let ?i = "rp_voucher p"
  obtain v date where v: "journal_of s ?i = Some (v, live_items s ?i)" "v_status v \<noteq> VDraft" "k = ld_next_id s"
    and open_date: "\<not> year_closed s (book_year date)"
    and j: "journal_of s' = (journal_of s)(k \<mapsto>
      ((reversal_header L v date (if v_year v \<noteq> None then v_type v else ''adjustment'') (v_year v) (expected_ref v)
          (v_debit v, v_credit v) (rp_user p) (rp_username p) (ld_next_number s))\<lparr>v_id := k\<rparr>,
        map (reversed_item L k) (enumerate 0 (ordered_items s ?i))))"
    using reverse_entry [OF assms] by blast
  have wf: "ledger_wf s" and "journal_ok (journal_of s)" using assms(1) by (simp_all add: books_ok_def)
  then have e: "entry_ok (v, live_items s ?i)" using journal_okD(2) v(1) by blast
  have mem: "money4 (vi_debit x) \<and> money4 (vi_credit x) \<and> vi_currency x \<noteq> ''''" if "x \<in> set (ordered_items s ?i)" for x
    using that e by (auto simp: ordered_items_def entry_ok.simps)
  have net: "net_of key (map (reversed_item L k) (enumerate 0 (ordered_items s ?i))) = - net_of key (live_items s ?i)" for key
    using net_of_reversed [OF mem] net_of_mset [OF mset_ordered_items] by simp
  have m: "money4 (v_debit v)" "money4 (v_credit v)" using e by (auto simp: entry_ok.simps)
  let ?r = "(reversal_header L v date (if v_year v \<noteq> None then v_type v else ''adjustment'') (v_year v) (expected_ref v)
      (v_debit v, v_credit v) (rp_user p) (rp_username p) (ld_next_number s))\<lparr>v_id := k\<rparr>"
  show ?thesis
    using v(1,2) j net open_date journal_fresh [OF wf, of k] v(3) m
    by (intro exI [of _ v] exI [of _ "live_items s ?i"] exI [of _ ?r] exI [of _ "map (reversed_item L k) (enumerate 0 (ordered_items s ?i))"]) simp
qed

end

section \<open>Changes of status leave sources alone\<close>

definition restatus :: "voucher \<Rightarrow> voucher \<Rightarrow> bool" where
  "restatus v w \<longleftrightarrow> (\<exists>st a. w = v\<lparr>v_status := st, v_approved := a\<rparr>)"

lemma restatus_refl [simp]: "restatus v v"
proof -
  have "v = v\<lparr>v_status := v_status v, v_approved := v_approved v\<rparr>" by simp
  then show ?thesis unfolding restatus_def by blast
qed

lemma restatus_trans:
  assumes "restatus u v" "restatus v w" shows "restatus u w"
proof -
  from assms obtain st a st' a' where "v = u\<lparr>v_status := st, v_approved := a\<rparr>" "w = v\<lparr>v_status := st', v_approved := a'\<rparr>"
    unfolding restatus_def by blast
  then have "w = u\<lparr>v_status := st', v_approved := a'\<rparr>" by simp
  then show ?thesis unfolding restatus_def by blast
qed

definition status_only :: "ledger_db \<Rightarrow> ledger_db \<Rightarrow> bool" where
  "status_only s t \<longleftrightarrow> ld_items t = ld_items s \<and> (\<exists>f. ld_vouchers t = map f (ld_vouchers s) \<and> (\<forall>v. restatus v (f v)))"

lemma status_only_refl: "status_only s s"
  unfolding status_only_def by (intro conjI exI [of _ id]) simp_all

lemma status_only_trans:
  assumes "status_only s t" "status_only t u" shows "status_only s u"
proof -
  from assms obtain f g where f: "ld_vouchers t = map f (ld_vouchers s)" "\<And>v. restatus v (f v)"
    and g: "ld_vouchers u = map g (ld_vouchers t)" "\<And>v. restatus v (g v)"
    and i: "ld_items u = ld_items s" unfolding status_only_def by metis
  have "restatus v ((g \<circ> f) v)" for v using restatus_trans [OF f(2) [of v] g(2) [of "f v"]] by simp
  then show ?thesis unfolding status_only_def using f(1) g(1) i by (intro conjI exI [of _ "g \<circ> f"]) auto
qed

lemma status_only_set: "status_only s (set_voucher i (\<lambda>v. v\<lparr>v_status := st, v_approved := g v\<rparr>) s)"
proof -
  let ?f = "\<lambda>v. if v_id v = i then v\<lparr>v_status := st, v_approved := g v\<rparr> else v"
  have "restatus v (?f v)" for v by (cases "v_id v = i") (auto simp: restatus_def [of _ "v\<lparr>v_status := st, v_approved := g v\<rparr>"])
  then show ?thesis unfolding status_only_def by (intro conjI exI [of _ ?f]) (simp_all add: set_voucher_def update_rows_def)
qed

lemma status_only_ensureRow: "status_only s (ensureRow y s)"
  using status_only_refl [of s] unfolding status_only_def by simp

lemma own_source_status:
  assumes "ld_items t = ld_items s" "restatus v w" shows "own_source E t w = own_source E s v"
proof -
  from assms(2) obtain st a where w: "w = v\<lparr>v_status := st, v_approved := a\<rparr>" unfolding restatus_def by blast
  have f: "v_document w = v_document v" "v_payroll w = v_payroll v" "v_cheque w = v_cheque v" "v_id w = v_id v" "v_bom w = v_bom v"
    "v_module w = v_module v" "v_type w = v_type v" "v_ref w = v_ref v" "v_ref_id w = v_ref_id v"
    by (simp_all add: w)
  show ?thesis unfolding own_source_def treasury_opening_def live_items_def assms(1) f ..
qed

lemma status_only_any:
  assumes "status_only s t"
  shows "any_voucher t i = None \<longleftrightarrow> any_voucher s i = None"
    "any_voucher s i = Some v \<Longrightarrow> \<exists>w. any_voucher t i = Some w \<and> restatus v w"
proof -
  from assms obtain f where f: "ld_vouchers t = map f (ld_vouchers s)" "\<And>v. restatus v (f v)"
    unfolding status_only_def by blast
  have "v_id (f v) = v_id v" for v using f(2) [of v] by (auto simp: restatus_def)
  then have e: "any_voucher t i = map_option f (any_voucher s i)" unfolding any_voucher_def f(1) find_map by simp
  show "any_voucher t i = None \<longleftrightarrow> any_voucher s i = None" unfolding e by simp
  show "\<exists>w. any_voucher t i = Some w \<and> restatus v w" if "any_voucher s i = Some v"
    using f(2) [of v] that unfolding e by simp
qed

lemma source_chain_status:
  assumes "status_only s t" "restatus v w" shows "source_chain d E t w = source_chain d E s v"
  using assms(2)
proof (induction d arbitrary: v w)
  case 0
  have "ld_items t = ld_items s" using assms(1) by (simp add: status_only_def)
  then show ?case by (simp add: own_source_status [OF _ 0] split: option.split)
next
  case (Suc d)
  have i: "ld_items t = ld_items s" using assms(1) by (simp add: status_only_def)
  have k: "(case any_voucher t k of None \<Rightarrow> None | Some w \<Rightarrow> source_chain d E t w) =
      (case any_voucher s k of None \<Rightarrow> None | Some w \<Rightarrow> source_chain d E s w)" for k
  proof (cases "any_voucher s k")
    case None
    then show ?thesis using status_only_any(1) [OF assms(1), of k] by simp
  next
    case (Some x)
    then obtain y where "any_voucher t k = Some y" "restatus x y" using status_only_any(2) [OF assms(1)] by blast
    then show ?thesis using Some Suc.IH by simp
  qed
  have "v_ref w = v_ref v" "v_ref_id w = v_ref_id v" using Suc.prems by (auto simp: restatus_def)
  then show ?case by (simp add: own_source_status [OF i Suc.prems] k split: option.split)
qed

lemma source_kind_status:
  assumes "status_only s t" shows "voucherSourceKind E t i = voucherSourceKind E s i"
proof (cases "any_voucher s i")
  case None
  then show ?thesis using status_only_any(1) [OF assms, of i] by (simp add: voucherSourceKind_def)
next
  case (Some x)
  then obtain y where "any_voucher t i = Some y" "restatus x y" using status_only_any(2) [OF assms] by blast
  then show ?thesis using Some source_chain_status [OF assms] by (simp add: voucherSourceKind_def)
qed

lemma maker_status:
  assumes "status_only s t" shows "makerApprovalRefusal E t v st u = makerApprovalRefusal E s v st u"
  unfolding makerApprovalRefusal_def source_kind_status [OF assms] ..


section \<open>Finalizing many vouchers\<close>

text \<open>Why a voucher cannot be finalized in the given tables, if anything forbids it.\<close>

definition finalize_refusal :: "decimal_lib \<Rightarrow> ledger_env \<Rightarrow> nat list \<Rightarrow> nat option \<Rightarrow> ledger_db \<Rightarrow> nat \<Rightarrow> batch_refusal option" where
  "finalize_refusal L E inWorkflow user s i =
    (case any_voucher s i of
       None \<Rightarrow> Some RefMissing
     | Some v \<Rightarrow>
         if v_deleted v then Some RefDeleted
         else if v_status v = VPermanent then Some RefPermanent
         else if i \<in> set inWorkflow then Some RefWorkflow
         else if makerApprovalRefusal E s v VPermanent user then Some RefMaker
         else if isClosed E (v_date v) s then Some RefClosed
         else if \<not> isVoucherBalancedForFinalize L s v then Some RefUnbalanced
         else None)"

definition permanent :: "nat option \<Rightarrow> voucher \<Rightarrow> voucher" where
  "permanent user v = v\<lparr>v_status := VPermanent, v_approved := id_or user\<rparr>"

lemma assertOpen_not_closed:
  assumes "\<not> isClosed E date s" shows "\<exists>t. assertOpen E date s = Inr t \<and> (t = s \<or> (\<exists>y. t = ensureRow y s))"
  using assms by (auto simp: isClosed_def assertOpen_def Let_def split: if_splits)

lemma balanced_items: "ld_items t = ld_items s \<Longrightarrow> isVoucherBalancedForFinalize L t v = isVoucherBalancedForFinalize L s v"
  by (simp add: isVoucherBalancedForFinalize_def live_items_def)

lemma finalize_one_eq:
  "\<exists>t. (t = s \<or> (\<exists>y. t = ensureRow y s)) \<and>
    finalize_one L E W user i (b, s) =
      Inr (case finalize_refusal L E W user s i of Some why \<Rightarrow> (refuse_in i why b, t) | None \<Rightarrow> (done_in i b, make_permanent i user t))"
proof (cases "any_voucher s i")
  case None
  then show ?thesis by (auto simp: finalize_one_def finalize_refusal_def)
next
  case (Some v)
  show ?thesis
  proof (cases "v_deleted v \<or> v_status v = VPermanent \<or> i \<in> set W \<or> makerApprovalRefusal E s v VPermanent user \<or> isClosed E (v_date v) s")
    case True
    then show ?thesis using Some by (auto simp: finalize_one_def finalize_refusal_def)
  next
    case False
    then have c: "\<not> v_deleted v" "\<not> v_status v = VPermanent" "\<not> i \<in> set W" "\<not> makerApprovalRefusal E s v VPermanent user"
      "\<not> isClosed E (v_date v) s" by auto
    from assertOpen_not_closed [OF c(5)] obtain t where t: "assertOpen E (v_date v) s = Inr t" "t = s \<or> (\<exists>y. t = ensureRow y s)" by blast
    have "ld_items t = ld_items s" using t(2) by auto
    then have bal: "isVoucherBalancedForFinalize L t v = isVoucherBalancedForFinalize L s v" by (rule balanced_items)
    show ?thesis
      by (intro exI [of _ t] conjI t(2))
        (simp add: finalize_one_def finalize_refusal_def Some c [THEN if_not_P] t(1) bal)
  qed
qed

lemma finalize_refusal_cong:
  assumes "status_only s t" "year_closed t = year_closed s" "any_voucher t i = any_voucher s i"
  shows "finalize_refusal L E W user t i = finalize_refusal L E W user s i"
proof -
  have i: "ld_items t = ld_items s" using assms(1) by (simp add: status_only_def)
  show ?thesis
    unfolding finalize_refusal_def assms(3) maker_status [OF assms(1)] isClosed_def assms(2) balanced_items [OF i] ..
qed

lemma any_make_permanent: "i \<noteq> j \<Longrightarrow> any_voucher (make_permanent i user s) j = any_voucher s j"
proof -
  assume "i \<noteq> j"
  then have "List.find (\<lambda>v. v_id v = j) (update_rows (\<lambda>v. v_id v = i) (\<lambda>v. v\<lparr>v_status := VPermanent, v_approved := id_or user\<rparr>) xs) =
      List.find (\<lambda>v. v_id v = j) xs" for xs
    by (induction xs) (auto simp: update_rows_def)
  then show ?thesis by (simp add: any_voucher_def make_permanent_def set_voucher_def)
qed

lemma any_ensureRow [simp]: "any_voucher (ensureRow y s) i = any_voucher s i"
  by (simp add: any_voucher_def)

lemma finalize_fold:
  assumes "distinct ids" "status_only s t" "year_closed t = year_closed s" "\<And>i. i \<in> set ids \<Longrightarrow> any_voucher t i = any_voucher s i"
  shows "\<exists>t'. fold_res (finalize_one L E W user) ids (b, t) =
      Inr (\<lparr>bt_done = bt_done b @ filter (\<lambda>i. finalize_refusal L E W user s i = None) ids,
            bt_refused = bt_refused b @ List.map_filter (\<lambda>i. map_option (\<lambda>why. (i, why)) (finalize_refusal L E W user s i)) ids\<rparr>, t') \<and>
    ld_vouchers t' = map (\<lambda>v. if v_id v \<in> set ids \<and> finalize_refusal L E W user s (v_id v) = None then permanent user v else v) (ld_vouchers t) \<and>
    ld_items t' = ld_items t \<and> year_closed t' = year_closed t"
  using assms
proof (induction ids arbitrary: b t)
  case Nil
  show ?case by (intro exI [of _ t]) (simp add: List.map_filter_simps)
next
  case (Cons i ids)
  from finalize_one_eq [of t L E W user i b] obtain u where u: "u = t \<or> (\<exists>y. u = ensureRow y t)"
    and one: "finalize_one L E W user i (b, t) =
      Inr (case finalize_refusal L E W user t i of Some why \<Rightarrow> (refuse_in i why b, u) | None \<Rightarrow> (done_in i b, make_permanent i user u))" by blast
  have r: "finalize_refusal L E W user t i = finalize_refusal L E W user s i"
    by (rule finalize_refusal_cong [OF Cons.prems(2,3)]) (use Cons.prems(4) in simp)
  have uf: "status_only s u" "year_closed u = year_closed s" "ld_vouchers u = ld_vouchers t" "ld_items u = ld_items t" "any_voucher u = any_voucher t"
    using u Cons.prems(2,3) status_only_trans status_only_ensureRow by (auto simp: fun_eq_iff)
  show ?case
  proof (cases "finalize_refusal L E W user s i")
    case (Some why)
    from Cons.IH [of u "refuse_in i why b"] Cons.prems(1,4) uf obtain t' where
      "fold_res (finalize_one L E W user) ids (refuse_in i why b, u) =
        Inr (\<lparr>bt_done = bt_done (refuse_in i why b) @ filter (\<lambda>i. finalize_refusal L E W user s i = None) ids,
          bt_refused = bt_refused (refuse_in i why b) @ List.map_filter (\<lambda>i. map_option (\<lambda>why. (i, why)) (finalize_refusal L E W user s i)) ids\<rparr>, t')"
      "ld_vouchers t' = map (\<lambda>v. if v_id v \<in> set ids \<and> finalize_refusal L E W user s (v_id v) = None then permanent user v else v) (ld_vouchers u)"
      "ld_items t' = ld_items u" "year_closed t' = year_closed u" by auto
    then show ?thesis using Some one r uf Cons.prems(3)
      by (intro exI [of _ t']) (auto simp: refuse_in_def List.map_filter_simps)
  next
    case None
    let ?u = "make_permanent i user u"
    have so: "status_only s ?u" unfolding make_permanent_def by (rule status_only_trans [OF uf(1) status_only_set])
    have yc: "year_closed ?u = year_closed s" using uf(2) by (simp add: make_permanent_def)
    have av: "any_voucher ?u j = any_voucher s j" if "j \<in> set ids" for j
      using that Cons.prems(1,4) any_make_permanent [of i j user u] uf(5) by auto
    from Cons.IH [OF _ so yc av, of "done_in i b"] Cons.prems(1) obtain t' where t':
      "fold_res (finalize_one L E W user) ids (done_in i b, ?u) =
        Inr (\<lparr>bt_done = bt_done (done_in i b) @ filter (\<lambda>i. finalize_refusal L E W user s i = None) ids,
          bt_refused = bt_refused (done_in i b) @ List.map_filter (\<lambda>i. map_option (\<lambda>why. (i, why)) (finalize_refusal L E W user s i)) ids\<rparr>, t')"
      "ld_vouchers t' = map (\<lambda>v. if v_id v \<in> set ids \<and> finalize_refusal L E W user s (v_id v) = None then permanent user v else v) (ld_vouchers ?u)"
      "ld_items t' = ld_items ?u" "year_closed t' = year_closed ?u" by auto
    have vs: "ld_vouchers ?u = map (\<lambda>v. if v_id v = i then permanent user v else v) (ld_vouchers t)"
      by (simp add: make_permanent_def set_voucher_def update_rows_def permanent_def uf(3))
    have "ld_vouchers t' = map (\<lambda>v. if v_id v \<in> set (i # ids) \<and> finalize_refusal L E W user s (v_id v) = None then permanent user v else v) (ld_vouchers t)"
      unfolding t'(2) vs map_map comp_def using None Cons.prems(1) by (intro map_cong) (auto simp: permanent_def)
    then show ?thesis using None one r t' uf(4) yc Cons.prems(3)
      by (intro exI [of _ t']) (auto simp: done_in_def make_permanent_def set_voucher_def List.map_filter_simps)
  qed
qed

section \<open>Reversal guards, sorted ids\<close>

lemma isReversalReference_cases: "isReversalReference ref \<longleftrightarrow> reversal_of_original ref \<or> starts_with ''RE-REV-V'' ref"
  by (auto simp: isReversalReference_def REVERSAL_REFERENCE_PREFIXES_def reversal_of_original_def)

lemma reversal_guard_iff:
  assumes "\<not> starts_with ''RE-REV-V'' (v_ref v)" "rp_manual_entry p" "\<not> rp_reversal_of_reversal p" "\<not> rp_year_end p"
  shows "reversal_guards E p v s = Inr () \<longleftrightarrow>
    v_year v = None \<and> voucherSourceKind E s (v_id v) = None \<and> v_status v \<noteq> VDraft \<and> \<not> isReversalReference (v_ref v) \<and> findActiveReversal s v = None \<and>
    assertMayChangeControlVoucher E s (v_id v) (rp_may_adjust p) = Inr ()"
proof (cases "reversal_of_original (v_ref v)")
  case True
  then show ?thesis using assms
    by (auto simp: reversal_guards_def res_bind_Inr res_guard_Inr isReversalReference_cases)
next
  case False
  then have e: "expected_ref v = rev_ref v" by (simp add: expected_ref_def)
  have "List.find (\<lambda>r. v_ref_id r = Some (v_id v) \<and> v_ref r = rev_ref v \<and> \<not> v_deleted r) (ld_vouchers s) = None"
    if "findActiveReversal s v = None"
    using that by (auto simp: findActiveReversal_def find_None_iff_set active_reversal_of_def)
  then show ?thesis using False assms e
    by (auto simp: reversal_guards_def res_bind_Inr res_guard_Inr isReversalReference_cases assertNotYearEndClosing_def assertVoucherWithoutSource_def
      split: option.splits)
qed

lemma view_reversed:
  assumes "i \<noteq> 0" "v_id v = i" shows "voucherActiveReversals s [v] i \<noteq> None \<longleftrightarrow> findActiveReversal s v \<noteq> None"
  using assms by (simp add: voucherActiveReversals_def findActiveReversal_def)

lemma sorted_ids_facts: "distinct (sorted_ids ids)" "sorted (sorted_ids ids)" "set (sorted_ids ids) = nat ` {i \<in> set ids. 0 < i}"
proof -
  have "inj_on nat (set (filter (\<lambda>i. i > 0) (remdups ids)))" by (auto simp: inj_on_def)
  then show "distinct (sorted_ids ids)" by (simp add: sorted_ids_def distinct_map)
qed (auto simp: sorted_ids_def)

lemma sort_enumerated:
  assumes "\<And>k x. f (h (k, x)) = Suc k"
  shows "sort_key f (map h (enumerate n xs)) = map h (enumerate n xs)"
proof (rule properties_for_sort_key)
  have "f (h p) = Suc (fst p)" for p using assms [of "fst p" "snd p"] by simp
  then have "map f (map h (enumerate n xs)) = map (\<lambda>p. Suc (fst p)) (enumerate n xs)" by (simp add: comp_def)
  also have "\<dots> = map Suc (map fst (enumerate n xs))" by (simp only: map_map comp_def)
  also have "\<dots> = map Suc [n..<n + length xs]" by simp
  finally show "sorted (map f (map h (enumerate n xs)))" by (simp add: sorted_map)
qed simp_all

end
