(* ===== verification/VoucherExample.thy ===== *)
theory VoucherExample
  imports VoucherSteps
begin

text \<open>
  A small ledger for the witnesses: two accounts, one clerk and one administrator, and one draft voucher
  that \<open>createJournalVoucher\<close> posted.
\<close>

definition cash :: account_row where
  "cash = \<lparr>ac_id = 1, ac_code = ''1101'', ac_name = ''cash'', ac_level = ''subsidiary'', ac_type = ''asset'', ac_parent = None, ac_active = True, ac_deleted = False\<rparr>"

definition sales :: account_row where
  "sales = \<lparr>ac_id = 2, ac_code = ''4101'', ac_name = ''sales'', ac_level = ''subsidiary'', ac_type = ''revenue'', ac_parent = None, ac_active = True, ac_deleted = False\<rparr>"

definition example_env :: ledger_env where
  "example_env = \<lparr>le_today = ''2024-05-09'', le_accounts = [cash, sales], le_mapped = [], le_banks = [], le_parties = [], le_people = [],
    le_projects = [], le_cheque_vouchers = [], le_treasury_vouchers = [], le_expense_vouchers = [], le_roles = [(1, ''admin''), (2, ''accountant'')],
    le_workflow_active = False\<rparr>"

definition empty_books :: ledger_db where
  "empty_books = \<lparr>ld_vouchers = [], ld_items = [], ld_periods = [], ld_workflows = [], ld_next_id = 1, ld_next_number = 1\<rparr>"

definition row_of :: "int \<Rightarrow> rat \<Rightarrow> rat \<Rightarrow> vrow" where
  "row_of a d c = \<lparr>br_debit = d, br_credit = c, br_currency = Some ''IRR'', br_rate = Some 1, vr_account = a, vr_dtype = None, vr_did = None, vr_dname = None\<rparr>"

definition example_data :: create_data where
  "example_data = \<lparr>cd_date = DateText ''2024-05-09'', cd_type = Some ''general'', cd_status = Some VDraft, cd_manual = None, cd_module = None,
    cd_ref_id = None, cd_ref = None, cd_document = None, cd_payroll = None, cd_cheque = None, cd_bom = None, cd_year = None, cd_currency = Some ''IRR'',
    cd_user = Some 2, cd_username = None, cd_manual_entry = False, cd_control = None, cd_items = [row_of 1 250 0, row_of 2 0 250]\<rparr>"

definition example_open :: ledger_db where
  "example_open = ensureRow 1403 empty_books"

definition example_draft :: voucher where
  "example_draft = (new_voucher ref_lib example_data ''2024-05-09'' 1 250 250 '''')\<lparr>v_id := 1\<rparr>"

definition example_items :: "vitem list" where
  "example_items = map (input_item ref_lib 1) (enumerate 0 (cd_items example_data))"

definition example_books :: ledger_db where
  "example_books = example_open\<lparr>ld_next_number := 2, ld_next_id := 2, ld_vouchers := [example_draft], ld_items := example_items\<rparr>"

lemma example_date: "isStorageDate ''2024-05-09''" "book_year ''2024-05-09'' = 1403"
  by code_simp+

lemma yearOf_stored: "isStorageDate date \<Longrightarrow> yearOf E date = book_year date"
  by (simp add: yearOf_def year_of_storage)

lemma assertOpen_stored:
  "isStorageDate date \<Longrightarrow> assertOpen E date s =
    (if year_closed s (book_year date) then Inl (PeriodClosed (book_year date)) else Inr (ensureRow (book_year date) s))"
  by (auto simp: assertOpen_def yearOf_stored Let_def isStorageDate_def)

lemma example_open_date: "assertOpen example_env ''2024-05-09'' empty_books = Inr example_open"
  by (simp add: assertOpen_stored example_date example_open_def year_closed_def period_of_def empty_books_def)

lemma row_of_simps [simp]:
  "br_debit (row_of a d c) = d" "br_credit (row_of a d c) = c" "br_currency (row_of a d c) = Some ''IRR''" "br_rate (row_of a d c) = Some 1"
  by (simp_all add: row_of_def)

lemma voucherRowCurrency_IRR: "voucherRowCurrency (Some ''IRR'') vc = ''IRR''"
  by (simp add: voucherRowCurrency_def currencyCode_IRR)

lemma example_fit: "rows_fit (cd_items example_data)"
  by (simp add: rows_fit_def example_data_def row_fits_def money4_def)

lemma example_rows: "assertVoucherRowsBalanced ref_lib (cd_items example_data) (Some ''IRR'') False = Inr (250, 250)"
  unfolding ref.assert_balanced_exact [OF example_fit]
  by (simp add: example_data_def entry_amounts_def raw_debit_def raw_credit_def same_currency_def voucherRowCurrency_IRR)

lemma example_data_simps:
  "length (cd_items example_data) = 2" "cd_manual_entry example_data = False" "cd_currency example_data = Some ''IRR''"
  "cd_date example_data = DateText ''2024-05-09''" "cd_control example_data = None" "cd_status example_data = Some VDraft"
  by (simp_all add: example_data_def)

lemma example_created: "createJournalVoucher ref_lib example_env example_data empty_books = Inr (1, example_books)"
proof -
  have o: "ld_next_id example_open = 1" "ld_next_number example_open = 1" "ld_vouchers example_open = []" "ld_items example_open = []"
    by (simp_all add: example_open_def empty_books_def)
  have "create_write ref_lib example_env example_data ''2024-05-09'' (250, 250) '''' (cd_items example_data) example_open = Inr (1, example_books)"
    by (simp add: create_write_def getNextVoucherNumber_def Let_def insert_voucher_def o example_data_simps insertVoucherItems_eq
      example_books_def example_draft_def example_items_def)
  moreover have "date_or_today example_env (DateText ''2024-05-09'') = Inr ''2024-05-09''"
    using example_date(1) by (simp add: date_or_today_def requireStorageDate_def isStorageDate_def str_or_def)
  ultimately show ?thesis
    by (simp add: createJournalVoucher_def example_data_simps example_rows example_open_date checked_rows_def manual_checks_def)
qed

lemma empty_books_ok: "books_ok empty_books"
  by (auto simp: books_ok_def ledger_wf_def refs_ok_def journal_ok_def journal_of_def live_voucher_def empty_books_def)

lemma example_env_ok: "books_env example_env empty_books" "books_env example_env example_books"
  using example_date by (auto simp: books_env_def example_env_def empty_books_def example_books_def example_items_def example_data_def
    row_of_def account_known_def cash_def sales_def)

lemma example_create_ok: "create_ok example_data"
proof -
  have "currencies_kept (Some ''IRR'') (cd_items example_data)"
    by (simp add: currencies_kept_def same_currency_def voucherRowCurrency_IRR example_data_def)
  then show ?thesis by (simp add: create_ok_def example_data_simps example_fit) (simp add: example_data_def trim_or_def isReversalReference_def REVERSAL_REFERENCE_PREFIXES_def starts_with_def)
qed

lemma example_books_ok: "books_ok example_books"
  using refines_ok [OF ref.create_refines [OF empty_books_ok _ example_create_ok example_created] empty_books_ok] example_date
  by (simp add: example_env_def)

lemma example_env_simps [simp]:
  "le_cheque_vouchers example_env = []" "le_treasury_vouchers example_env = []" "le_expense_vouchers example_env = []"
  "le_roles example_env = [(1, ''admin''), (2, ''accountant'')]" "le_today example_env = ''2024-05-09''" "le_workflow_active example_env = False"
  by (simp_all add: example_env_def)

lemma example_draft_simps [simp]:
  "v_id example_draft = 1" "v_number example_draft = 1" "v_date example_draft = ''2024-05-09''" "v_status example_draft = VDraft"
  "v_deleted example_draft = False" "v_document example_draft = None" "v_payroll example_draft = None" "v_cheque example_draft = None"
  "v_bom example_draft = None" "v_year example_draft = None" "v_ref example_draft = ''''" "v_ref_id example_draft = None"
  "v_module example_draft = ''manual''" "v_created example_draft = Some 2" "v_updated example_draft = None" "v_currency example_draft = ''IRR''"
  "v_debit example_draft = 250" "v_credit example_draft = 250" "v_type example_draft = ''general''" "v_version example_draft = 1"
  by (simp_all add: example_draft_def new_voucher_def example_data_def trim_or_def str_or_def id_or_def money4_def)

lemma example_books_simps [simp]:
  "ld_vouchers example_books = [example_draft]" "ld_items example_books = example_items" "ld_workflows example_books = []"
  "ld_next_id example_books = 2" "ld_next_number example_books = 2" "year_closed example_books = (\<lambda>_. False)"
  "ld_periods example_books = [\<lparr>fp_year = 1403, fp_closed = False, fp_closed_by = None, fp_voucher = None\<rparr>]"
  by (simp_all add: example_books_def example_open_def empty_books_def year_closed_def period_of_def ensureRow_def fun_eq_iff)

lemma example_source: "own_source example_env s example_draft = None" "voucherSourceKind example_env example_books 1 = None"
  by (simp_all add: own_source_def treasury_opening_def voucherSourceKind_def any_voucher_def source_chain.simps [of 5] isReversalReference_def
    REVERSAL_REFERENCE_PREFIXES_def starts_with_def)

lemma example_open_books: "ensureRow 1403 example_books = example_books"
  by (simp add: ensureRow_def period_of_def)

lemma example_assert_open: "assertOpen example_env ''2024-05-09'' example_books = Inr example_books"
  by (simp add: assertOpen_stored example_date example_open_books)

definition example_approved :: ledger_db where
  "example_approved = set_voucher 1 (\<lambda>v. v\<lparr>v_status := VApproved, v_approved := Some 1\<rparr>) example_books"

lemma example_approval: "setVoucherStatus ref_lib example_env 1 VApproved (Some 1) example_books = Inr example_approved"
  by (simp add: setVoucherStatus_def applyVoucherStatus_def live_voucher_def assertVoucherNotInWorkflow_def res_guard_def
    assertNotApprovedByMaker_def makerApprovalRefusal_def id_or_def example_assert_open example_approved_def)

lemma example_approved_ok: "books_ok example_approved"
  using refines_ok [OF set_status_refines [OF example_books_ok example_approval] example_books_ok] .

lemma example_items_of: "live_items s 1 = example_items" "live_items s (Suc 0) = example_items" if "ld_items s = example_items"
  using that by (simp_all add: live_items_def example_items_def example_data_def item_of_def)

lemma example_env_all: "books_env example_env s" if "ld_items s = example_items"
  using example_env_ok(2) that by (simp add: books_env_def)

lemma show_1: "show_nat (Suc 0) = ''1''"
proof -
  have "char_of (49 :: nat) = CHR ''1''" by code_simp
  then show ?thesis by (simp add: show_nat.simps [of "Suc 0"])
qed

lemma example_run:
  "(voucher_step ref_lib)\<^sup>*\<^sup>* empty_books example_books" "voucher_step ref_lib example_books example_approved"
  using voucher_step.create [OF example_env_ok(1) example_create_ok example_created] voucher_step.set_status [OF example_env_ok(2) example_approval]
  by auto

lemma example_approved_entry: "journal_of example_approved 1 = Some (example_draft\<lparr>v_status := VApproved, v_approved := Some 1\<rparr>, example_items)"
proof -
  have "journal_of example_books 1 = Some (example_draft, example_items)"
    by (simp add: journal_of_def live_voucher_def live_items_def example_items_def example_data_def item_of_def)
  then show ?thesis
    using journal_set_voucher [of "\<lambda>v. v\<lparr>v_status := VApproved, v_approved := Some 1\<rparr>" example_books 1] example_books_ok
    by (simp add: example_approved_def books_ok_def)
qed

definition approved_draft :: voucher where
  "approved_draft = example_draft\<lparr>v_status := VApproved, v_approved := Some 1\<rparr>"

lemma example_approved_simps [simp]:
  "ld_vouchers example_approved = [approved_draft]" "ld_items example_approved = example_items" "ld_workflows example_approved = []"
  "year_closed example_approved = (\<lambda>_. False)" "ensureRow 1403 example_approved = example_approved"
proof -
  show "year_closed example_approved = (\<lambda>_. False)"
    using year_closed_cong [of example_approved example_books] by (simp add: example_approved_def set_voucher_def)
qed (simp_all add: example_approved_def approved_draft_def set_voucher_def update_rows_def ensureRow_def period_of_def)

lemma approved_draft_simps [simp]:
  "v_id approved_draft = 1" "v_number approved_draft = 1" "v_date approved_draft = ''2024-05-09''" "v_status approved_draft = VApproved"
  "v_deleted approved_draft = False" "v_debit approved_draft = 250" "v_credit approved_draft = 250" "v_currency approved_draft = ''IRR''"
  "v_ref approved_draft = ''''" "v_year approved_draft = None"
  by (simp_all add: approved_draft_def)

definition example_final :: ledger_db where
  "example_final = make_permanent 1 (Some 1) example_approved"

lemma example_finalized: "finalizeJournalVoucher ref_lib example_env 1 (Some 1) example_approved = Inr example_final"
proof -
  have "isVoucherBalancedForFinalize ref_lib example_approved approved_draft"
    by (simp add: isVoucherBalancedForFinalize_def balanced_for_finalize_def VOUCHER_BALANCE_TOLERANCE_def ref.subtract_scaled26 fin_abs_def)
  then show ?thesis
    by (simp add: finalizeJournalVoucher_def any_voucher_def 
      assertVoucherNotInWorkflow_def res_guard_def assertNotApprovedByMaker_def makerApprovalRefusal_def assertOpen_stored example_date
      example_final_def)
qed


lemma example_final_simps [simp]:
  "ld_vouchers example_final = [approved_draft\<lparr>v_status := VPermanent\<rparr>]" "ld_items example_final = example_items" "ld_workflows example_final = []"
  "year_closed example_final = (\<lambda>_. False)" "ensureRow 1403 example_final = example_final"
proof -
  show "year_closed example_final = (\<lambda>_. False)"
    using year_closed_cong [of example_final example_approved] by (simp add: example_final_def make_permanent_def set_voucher_def)
qed (simp_all add: example_final_def make_permanent_def set_voucher_def update_rows_def ensureRow_def period_of_def id_or_def
    example_approved_def [unfolded set_voucher_def] approved_draft_def)

lemma example_final_ok: "books_ok example_final"
  by (rule refines_ok [OF finalize_refines [OF example_approved_ok example_finalized] example_approved_ok])

lemma example_final_entry: "journal_of example_final 1 = Some (approved_draft\<lparr>v_status := VPermanent\<rparr>, example_items)"
  by (simp add: journal_of_def live_voucher_def example_items_of)

definition example_reversal :: reverse_params where
  "example_reversal = \<lparr>rp_voucher = 1, rp_date = NoDate, rp_user = Some 2, rp_username = None, rp_reversal_of_reversal = False,
    rp_year_end = False, rp_manual_entry = False, rp_may_adjust = False\<rparr>"

definition reversal_voucher :: voucher where
  "reversal_voucher = (reversal_header ref_lib approved_draft ''2024-05-09'' ''adjustment'' None ''REV-V1'' (250, 250) (Some 2) None 2)\<lparr>v_id := 2\<rparr>"

definition example_reversed :: ledger_db where
  "example_reversed = example_approved\<lparr>ld_vouchers := [approved_draft, reversal_voucher], ld_next_id := 3, ld_next_number := 3,
    ld_items := example_items @ map (reversed_item ref_lib 2) (enumerate 0 (ordered_items example_approved 1))\<rparr>"

lemma example_reverse: "reverseVoucher ref_lib example_env example_reversal example_approved = Inr (2, example_reversed)"
proof -
  have n: "ld_next_id example_approved = 2" "ld_next_number example_approved = 2"
    by (simp_all add: example_approved_def set_voucher_def)
  have r: "rev_ref approved_draft = ''REV-V1''" by (simp add: rev_ref_def show_1)
  have e: "expected_ref approved_draft = ''REV-V1''" by (simp add: expected_ref_def reversal_of_original_def starts_with_def r)
  have rows: "ordered_items example_approved (Suc 0) \<noteq> []"
    by (simp add: ordered_items_def example_items_of) (simp add: example_items_def example_data_def)
  have g: "reversal_guards example_env example_reversal approved_draft example_approved = Inr ()"
    by (simp add: reversal_guards_def example_reversal_def assertNotYearEndClosing_def res_guard_def reversal_of_original_def starts_with_def
      e findActiveReversal_def active_reversal_of_def) (simp add: approved_draft_def)
  have src: "v_document (reversal_header ref_lib v d t y ref tot u un num) = None" "v_payroll (reversal_header ref_lib v d t y ref tot u un num) = None"
    for v d t y ref tot u un num by (simp_all add: reversal_header_def)
  have d: "date_or_today example_env NoDate = Inr ''2024-05-09''"
    by (simp add: date_or_today_def requireStorageDate_def toStorageDate_def str_or_def)
  have p: "rp_voucher example_reversal = 1" "rp_date example_reversal = NoDate" "rp_manual_entry example_reversal = False"
    "rp_user example_reversal = Some 2" "rp_username example_reversal = None" by (simp_all add: example_reversal_def)
  show ?thesis
    by (simp add: reverseVoucher_def live_voucher_def p g rows res_guard_def d assertOpen_stored example_date getNextVoucherNumber_def Let_def
      insert_voucher_def same_source_def src e n insertVoucherItems_eq terminateVoucherWorkflows_def example_reversed_def reversal_voucher_def)
qed

lemma example_reversed_ok: "books_ok example_reversed"
  by (rule refines_ok [OF ref.reverse_refines [OF example_approved_ok _ example_reverse] example_approved_ok]) (simp add: example_date)

lemma example_reversed_entries:
  "journal_of example_reversed 1 = Some (approved_draft, live_items example_reversed 1)"
  "journal_of example_reversed 2 = Some (reversal_voucher, live_items example_reversed 2)"
  by (simp_all add: journal_of_def live_voucher_def example_reversed_def reversal_voucher_def)

definition example_closed :: ledger_db where
  "example_closed = example_final\<lparr>ld_periods := [\<lparr>fp_year = 1403, fp_closed = True, fp_closed_by = Some ''admin'', fp_voucher = None\<rparr>]\<rparr>"

end
