(* ===== verification/VoucherClaims.thy ===== *)
theory VoucherClaims
  imports VoucherExample
begin

text \<open>
  The properties of journal vouchers: what the balance checks accept, that runs of the service refine the abstract journal and keep
  its invariants, reversals, the maker rule, the row menu, the batch that finalizes, and reading back.
\<close>

section \<open>Balance checks\<close>

text \<open>
  C15: which rows a voucher may have. The server accepts the rows exactly when no amount is negative and no row is empty,
  and either the raw sums of a voucher in one currency (for a manual voucher also at one rate) differ by at most 0.01, or every row
  has a rate and the sums in rials are positive and differ by at most 0.01. The totals it stores are the exact raw sums.
\<close>

theorem voucher_rows_accepted:
  assumes "decimal_js L" "rows_fit rows"
  shows "assertVoucherRowsBalanced L rows vc manual = Inr totals \<longleftrightarrow>
    (\<forall>r \<in> set rows. 0 \<le> br_debit r \<and> 0 \<le> br_credit r \<and> (br_debit r \<noteq> 0 \<or> br_credit r \<noteq> 0)) \<and>
    totals = (sum_list (map br_debit rows), sum_list (map br_credit rows)) \<and>
    (if same_currency vc rows \<and> (manual \<longrightarrow> same_rate vc rows)
     then \<bar>sum_list (map br_debit rows) - sum_list (map br_credit rows)\<bar> \<le> 1 / 100
     else (\<forall>r \<in> set rows. rr_rate (resolve_row vc r) \<noteq> None) \<and> 0 < rial_debit vc rows \<and>
       \<bar>rial_debit vc rows - rial_credit vc rows\<bar> \<le> 1 / 100)"
proof -
  have e: "entry_amounts rows \<longleftrightarrow> (\<forall>r \<in> set rows. 0 \<le> br_debit r \<and> 0 \<le> br_credit r \<and> (br_debit r \<noteq> 0 \<or> br_credit r \<noteq> 0))"
    by (auto simp: entry_amounts_def)
  show ?thesis
    using decimal_js.assert_balanced_exact [OF assms, of vc manual totals]
    unfolding e raw_debit_def raw_credit_def rated_def .
qed

lemma voucher_rows_accepted_witness:
  "assertVoucherRowsBalanced ref_lib [row_of 1 250 0, row_of 2 0 250] (Some ''IRR'') False = Inr (250, 250) \<and>
   (\<forall>t. assertVoucherRowsBalanced ref_lib [row_of 1 250 0, row_of 2 0 249] (Some ''IRR'') False \<noteq> Inr t)"
proof -
  have f: "rows_fit [row_of 1 250 0, row_of 2 0 c]" if "c = 250 \<or> c = 249" for c
    using that by (auto simp: rows_fit_def row_fits_def money4_def)
  have c: "same_currency (Some ''IRR'') [row_of 1 250 0, row_of 2 0 c]" for c
    by (simp add: same_currency_def voucherRowCurrency_IRR)
  show ?thesis
    using voucher_rows_accepted [OF ref.decimal_js_axioms f [of 250], of "Some ''IRR''" False] c [of 250]
      voucher_rows_accepted [OF ref.decimal_js_axioms f [of 249], of "Some ''IRR''" False] c [of 249]
    by simp
qed

text \<open>
  C16: the balance a voucher form shows is the verdict of the server. For rows with entered amounts (a header currency
  and rate, rows with or without their own), the form calls the voucher balanced exactly when the request schema and the
  server's check of manual rows accept the rows the form sends, and the debit total is positive; the server alone
  also accepts one-sided amounts within the tolerance of 0.01. At most 1000 rows, amounts and rates of four decimals
  below 10^11, totals below 10^11.
\<close>

theorem form_agrees_with_server:
  assumes "decimal_js L" "rows_fit rows" "entry_amounts rows" "\<And>x. hc_rate header = Some x \<Longrightarrow> money4 x"
    and "sent = withVoucherRowCurrency rows header" "vc = Some (hc_currency header)"
  shows "cb_isBalanced (voucherFormBalance L rows header) \<longleftrightarrow> schema_isVoucherBalanced L sent vc known \<and>
    (\<exists>stored totals. resolveManualVoucherRows L sent vc = Inr (stored, totals)) \<and> 0 < sum_list (map br_debit rows)"
  using decimal_js.form_balance_is_server [OF assms(1-4), of header known] unfolding assms(5,6) raw_debit_def by blast

text \<open>A voucher in dollars at 600000 rials: 100 dollars against 60000000 rials.\<close>

definition dollar_header :: voucher_header where
  "dollar_header = \<lparr>hc_currency = ''USD'', hc_rate = Some 600000\<rparr>"

definition dollar_rows :: "balance_row list" where
  "dollar_rows = [\<lparr>br_debit = 100, br_credit = 0, br_currency = None, br_rate = None\<rparr>,
    \<lparr>br_debit = 0, br_credit = 60000000, br_currency = Some ''IRR'', br_rate = None\<rparr>]"

lemma currencyCode_USD: "currencyCode (Some ''USD'') = Some ''USD''"
  by (simp add: currencyCode_def js_trim_def js_upper_def js_space_def char_upper_def Let_def rial_fa_def bytes_def)

lemma form_agrees_with_server_witness:
  "\<exists>stored totals. resolveManualVoucherRows ref_lib (withVoucherRowCurrency dollar_rows dollar_header) (Some ''USD'') = Inr (stored, totals)"
proof -
  let ?sent = "withVoucherRowCurrency dollar_rows dollar_header"
  have f: "rows_fit dollar_rows" by (simp add: rows_fit_def row_fits_def money4_def scaled_def dollar_rows_def)
  have e: "entry_amounts dollar_rows" by (simp add: entry_amounts_def dollar_rows_def)
  have h: "hc_rate dollar_header = Some x \<Longrightarrow> money4 x" for x by (auto simp: dollar_header_def money4_def scaled_def)
  have sent: "?sent = [\<lparr>br_debit = 100, br_credit = 0, br_currency = Some ''USD'', br_rate = Some 600000\<rparr>,
      \<lparr>br_debit = 0, br_credit = 60000000, br_currency = Some ''IRR'', br_rate = None\<rparr>]"
    by (simp add: withVoucherRowCurrency_def voucherRowCurrencyRate_def dollar_rows_def dollar_header_def voucherRowCurrency_def
        currencyCode_USD currencyCode_IRR positive_number_def Let_def currencyCode_def [of None])
  have "rated (Some ''USD'') ?sent" "\<not> same_currency (Some ''USD'') ?sent" "rial_debit (Some ''USD'') ?sent = 60000000" "rial_credit (Some ''USD'') ?sent = 60000000"
    by (simp_all add: sent rated_def same_currency_def rial_debit_def rial_credit_def row_rial_def rial_amount_def resolve_row_def
        voucherRowCurrency_def currencyCode_USD currencyCode_IRR voucherRowRate_def Let_def scaled_def)
  then have "cb_isBalanced (voucherFormBalance ref_lib dollar_rows dollar_header)"
    unfolding voucherFormBalance_def using ref.currency_balance_exact(3) [OF sent_fit [OF f h], of dollar_header "Some ''USD''"]
    by (simp add: dollar_header_def)
  moreover have "hc_currency dollar_header = ''USD''" by (simp add: dollar_header_def)
  ultimately show ?thesis
    using form_agrees_with_server [where header = dollar_header, OF ref.decimal_js_axioms f e h refl refl] by (metis prod.collapse)
qed

section \<open>Runs\<close>

text \<open>
  C8: every run of the voucher service refines the abstract journal. Whatever sequence of create, edit, delete, reverse, void,
  correct, approve, finalize and workflow operations succeeds, the journal of live vouchers changes only by the moves of
  \<open>jstep\<close> (a balanced entry posted in an open year, a draft edited or removed, a status set), and no operation opens or closes a year.
\<close>

theorem ledger_refines_journal:
  assumes "decimal_js L" "books_ok s" "(voucher_step L)\<^sup>*\<^sup>* s s'"
  shows "(jstep (year_closed s))\<^sup>*\<^sup>* (journal_of s) (journal_of s') \<and> year_closed s' = year_closed s"
  using decimal_js.voucher_run_refines [OF assms(1,3,2)] by (simp add: refines_def)

lemma ledger_refines_journal_witness:
  "(jstep (year_closed empty_books))\<^sup>*\<^sup>* (journal_of empty_books) (journal_of example_approved) \<and> journal_of example_approved 1 \<noteq> None"
  using ledger_refines_journal [OF ref.decimal_js_axioms empty_books_ok rtranclp.rtrancl_into_rtrancl [OF example_run]] example_approved_entry by simp

text \<open>
  C21: the tables stay well formed: ids and voucher numbers are unique and below their counters, every row belongs to a voucher,
  a live row to a live voucher, one row per fiscal year, every date a stored date.
\<close>

theorem voucher_tables_wellformed:
  assumes "decimal_js L" "books_ok s" "(voucher_step L)\<^sup>*\<^sup>* s s'"
  shows "ledger_wf s'"
  using decimal_js.voucher_run_refines [OF assms(1,3,2)] by (simp add: refines_def)

lemma voucher_tables_wellformed_witness: "ledger_wf example_approved"
  by (rule voucher_tables_wellformed [OF ref.decimal_js_axioms empty_books_ok rtranclp.rtrancl_into_rtrancl [OF example_run]])

text \<open>
  C7: in every state the service reaches each live voucher has rows, its header holds the exact sums of its rows, no amount is
  negative, and debit and credit balance within 0.01, in raw amounts or in rials at the rates of the rows.
\<close>

theorem books_stay_balanced:
  assumes "decimal_js L" "books_ok s" "(voucher_step L)\<^sup>*\<^sup>* s s'" "journal_of s' i = Some (v, rows)"
  shows "rows \<noteq> [] \<and> v_debit v = sum_list (map vi_debit rows) \<and> v_credit v = sum_list (map vi_credit rows) \<and>
    (\<forall>x \<in> set rows. 0 \<le> vi_debit x \<and> 0 \<le> vi_credit x) \<and>
    (\<bar>v_debit v - v_credit v\<bar> \<le> 1 / 100 \<or>
      (\<forall>r \<in> set (map balance_row_of rows). rr_rate (resolve_row (Some (v_currency v)) r) \<noteq> None) \<and>
      \<bar>rial_debit (Some (v_currency v)) (map balance_row_of rows) - rial_credit (Some (v_currency v)) (map balance_row_of rows)\<bar> \<le> 1 / 100)"
proof -
  have "books_ok s'" by (rule refines_ok [OF decimal_js.voucher_run_refines [OF assms(1,3,2)] assms(2)])
  then have "entry_ok (v, rows)" using assms(4) by (auto simp: books_ok_def dest: journal_okD(2))
  then show ?thesis unfolding entry_ok.simps balanced_rows_def decimal_js.raw_of_items [OF assms(1)] rated_def by auto
qed

lemma books_stay_balanced_witness:
  "\<bar>v_debit (example_draft\<lparr>v_status := VApproved, v_approved := Some 1\<rparr>) - v_credit (example_draft\<lparr>v_status := VApproved, v_approved := Some 1\<rparr>)\<bar> \<le> 1 / 100 \<and>
   250 = sum_list (map vi_debit example_items)"
  using books_stay_balanced [OF ref.decimal_js_axioms empty_books_ok rtranclp.rtrancl_into_rtrancl [OF example_run] example_approved_entry] by simp

text \<open>
  C9: a permanent voucher is final. No sequence of operations removes it or changes its rows or its header; only the name of who
  approved it may change (setting the status permanent once more overwrites it).
\<close>

theorem permanent_is_final:
  assumes "decimal_js L" "books_ok s" "(voucher_step L)\<^sup>*\<^sup>* s s'" "journal_of s i = Some (v, rows)" "v_status v = VPermanent"
  shows "\<exists>a. journal_of s' i = Some (v\<lparr>v_approved := a\<rparr>, rows)"
proof -
  have "(jstep (year_closed s))\<^sup>*\<^sup>* (journal_of s) (journal_of s')"
    using decimal_js.voucher_run_refines [OF assms(1,3,2)] by (simp add: refines_def)
  then show ?thesis by (rule jsteps_permanent) (use assms(4,5) in auto)
qed

lemma permanent_is_final_witness:
  "\<exists>s'. setVoucherStatus ref_lib example_env 1 VPermanent (Some 2) example_final = Inr s' \<and>
    (\<exists>a. journal_of s' 1 = Some (approved_draft\<lparr>v_status := VPermanent, v_approved := a\<rparr>, example_items))"
proof -
  let ?s = "set_voucher 1 (\<lambda>v. v\<lparr>v_status := VPermanent, v_approved := Some 2\<rparr>) example_final"
  have "isVoucherBalancedForFinalize ref_lib example_final (approved_draft\<lparr>v_status := VPermanent\<rparr>)"
    by (simp add: isVoucherBalancedForFinalize_def balanced_for_finalize_def VOUCHER_BALANCE_TOLERANCE_def ref.subtract_scaled26 fin_abs_def)
  then have set: "setVoucherStatus ref_lib example_env 1 VPermanent (Some 2) example_final = Inr ?s"
    by (simp add: setVoucherStatus_def applyVoucherStatus_def live_voucher_def assertVoucherNotInWorkflow_def res_guard_def
      assertNotApprovedByMaker_def makerApprovalRefusal_def id_or_def assertOpen_stored example_date)
  have "(voucher_step ref_lib)\<^sup>*\<^sup>* example_final ?s"
    using voucher_step.set_status [OF example_env_all set] by (simp add: r_into_rtranclp)
  from permanent_is_final [OF ref.decimal_js_axioms example_final_ok this example_final_entry] set show ?thesis by simp
qed

text \<open>
  C10: the vouchers dated in a closed fiscal year are frozen. When the year has no drafts (closing it requires that), no operation
  adds, changes or removes a voucher dated in it.
\<close>

theorem closed_year_is_frozen:
  assumes "decimal_js L" "books_ok s" "(voucher_step L)\<^sup>*\<^sup>* s s'" "year_closed s y"
    "\<And>i v rows. journal_of s i = Some (v, rows) \<Longrightarrow> book_year (v_date v) = y \<Longrightarrow> v_status v \<noteq> VDraft" "book_year (v_date v) = y"
  shows "journal_of s' i = Some (v, rows) \<longleftrightarrow> journal_of s i = Some (v, rows)"
proof -
  have "no_drafts (journal_of s) y" using assms(5) unfolding no_drafts_def by blast
  then have e: "year_entries (journal_of s') y = year_entries (journal_of s) y"
    using jsteps_closed_year decimal_js.voucher_run_refines [OF assms(1,3,2)] assms(4) unfolding refines_def by blast
  have "journal_of t i = Some (v, rows) \<longleftrightarrow> year_entries (journal_of t) y i = Some (v, rows)" for t
    using assms(6) by (auto simp: year_entries_def split: option.splits)
  then show ?thesis using e by simp
qed

lemma closed_year_is_frozen_witness:
  "\<exists>b s'. approveJournalVouchers example_env [1] (Some 2) example_closed = Inr (b, s') \<and>
    journal_of s' 1 = Some (approved_draft\<lparr>v_status := VPermanent\<rparr>, example_items)"
proof -
  have j: "journal_of example_closed = journal_of example_final" by (rule journal_cong) (simp_all add: example_closed_def)
  have n: "ld_next_id example_closed = ld_next_id example_final" "ld_next_number example_closed = ld_next_number example_final"
    by (simp_all add: example_closed_def)
  have "ledger_wf example_closed"
    by (rule wf_cong [of example_final]) (use example_final_ok n in \<open>simp_all add: books_ok_def\<close>, simp_all add: example_closed_def)
  moreover have "refs_ok example_closed" by (rule refs_cong [of example_final]) (use example_final_ok n in \<open>simp_all add: books_ok_def\<close>, simp add: example_closed_def)
  ultimately have ok: "books_ok example_closed" using example_final_ok j by (simp add: books_ok_def)
  have a: "approveJournalVouchers example_env [1] (Some 2) example_closed = Inr (\<lparr>ap_count = 0, ap_ids = [1], ap_refused = []\<rparr>, example_closed)"
    by (simp add: approveJournalVouchers_def sorted_ids_def approve_one_def any_voucher_def example_closed_def)
  have run: "(voucher_step ref_lib)\<^sup>*\<^sup>* example_closed example_closed" by simp
  have c: "year_closed example_closed 1403" by (simp add: year_closed_def period_of_def example_closed_def)
  have d: "v_status v \<noteq> VDraft" if "journal_of example_closed i = Some (v, rows)" for i v rows
  proof -
    have "v \<in> set (ld_vouchers example_final)" using journal_member [of example_final i v rows] that j by simp
    then show ?thesis by simp
  qed
  have "journal_of example_closed 1 = Some (approved_draft\<lparr>v_status := VPermanent\<rparr>, example_items)"
    using closed_year_is_frozen [OF ref.decimal_js_axioms ok run c d, where v = "approved_draft\<lparr>v_status := VPermanent\<rparr>" and i = 1 and rows = example_items]
      example_final_entry j by (simp add: example_date)
  with a show ?thesis by simp
qed

text \<open>
  C11: a voucher has at most one active reversal, and neither the reversal nor the reversed voucher is a draft.
\<close>

theorem one_active_reversal:
  assumes "decimal_js L" "books_ok s" "(voucher_step L)\<^sup>*\<^sup>* s s'"
    "journal_of s' k = Some (r, p)" "journal_of s' k' = Some (r', p')" "journal_of s' i = Some (v, rows)"
    "v_ref_id r = Some i" "v_ref r \<in> {rev_ref v, void_repost_ref v}" "v_ref_id r' = Some i" "v_ref r' \<in> {rev_ref v, void_repost_ref v}"
  shows "k = k' \<and> v_status r \<noteq> VDraft \<and> v_status v \<noteq> VDraft"
proof -
  have "books_ok s'" by (rule refines_ok [OF decimal_js.voucher_run_refines [OF assms(1,3,2)] assms(2)])
  then have ok: "journal_ok (journal_of s')" by (simp add: books_ok_def)
  have "v_id v = i" by (rule journal_id [OF assms(6)])
  then have "reverses r v" "reverses r' v" using assms(7-10) by (simp_all add: reverses_def)
  with journal_okD(3,4) [OF ok assms(4,6)] journal_okD(6) [OF ok assms(4,5,6)] show ?thesis by simp
qed

lemma one_active_reversal_witness:
  "v_status approved_draft \<noteq> VDraft \<and> v_ref_id reversal_voucher = Some 1"
proof -
  have "v_ref_id reversal_voucher = Some 1" "v_ref reversal_voucher \<in> {rev_ref approved_draft, void_repost_ref approved_draft}"
    by (simp_all add: reversal_voucher_def rev_ref_def show_1)
  moreover have "(voucher_step ref_lib)\<^sup>*\<^sup>* example_approved example_reversed"
    using voucher_step.reverse [OF example_env_all example_reverse] by (simp add: r_into_rtranclp)
  ultimately show ?thesis
    using one_active_reversal [OF ref.decimal_js_axioms example_approved_ok _ example_reversed_entries(2) example_reversed_entries(2) example_reversed_entries(1)]
    by blast
qed

text \<open>
  C12: a reversal posts one approved voucher, in an open year, that names the original and takes it back: header sums swapped, and on
  every account, currency and detail the rows book the opposite. Nothing else in the journal changes.
\<close>

theorem reversal_cancels:
  assumes "decimal_js L" "books_ok s" "isStorageDate (le_today E)" "reverseVoucher L E p s = Inr (k, s')"
  shows "\<exists>v rows r rows'. journal_of s (rp_voucher p) = Some (v, rows) \<and> v_status v \<noteq> VDraft \<and> journal_of s k = None \<and>
    journal_of s' = (journal_of s)(k \<mapsto> (r, rows')) \<and> v_status r = VApproved \<and> v_ref_id r = Some (v_id v) \<and> v_ref r = expected_ref v \<and>
    \<not> year_closed s (book_year (v_date r)) \<and> v_debit r = v_credit v \<and> v_credit r = v_debit v \<and>
    (\<forall>key. net_of key rows' = - net_of key rows)"
  by (rule decimal_js.reverse_posts [OF assms])

lemma reversal_cancels_witness:
  "journal_of example_reversed 1 = journal_of example_approved 1 \<and>
   (\<exists>r rows'. journal_of example_reversed 2 = Some (r, rows') \<and> net_of (1, ''IRR'', None) rows' = - 250)"
proof -
  have t: "isStorageDate (le_today example_env)" by (simp add: example_date)
  obtain v rows r rows' where r: "journal_of example_approved 1 = Some (v, rows)" "journal_of example_approved 2 = None"
    "journal_of example_reversed = (journal_of example_approved)(2 \<mapsto> (r, rows'))" "\<forall>key. net_of key rows' = - net_of key rows"
    using reversal_cancels [OF ref.decimal_js_axioms example_approved_ok t example_reverse] by (auto simp: example_reversal_def)
  have "net_of (1, ''IRR'', None) example_items = 250"
    by (simp add: net_of_def row_key_def example_items_def example_data_def input_item_def id_or_def str_or_def row_of_def ref.toDb_money4 money4_def)
  moreover have "rows = example_items" using r(1) example_approved_entry by simp
  ultimately show ?thesis using r by auto
qed

section \<open>Who approves\<close>

text \<open>
  C17: who entered or last edited a manual draft cannot approve or finalize it, unless an administrator: not by its page, not by a
  workflow step taken in his name, and the batch operations refuse the voucher and leave the tables alone.
\<close>

theorem maker_cannot_approve:
  assumes "live_voucher s i = Some v" "any_voucher s i = Some v" "v_status v = VDraft" "v_year v = None" "voucherSourceKind E s (v_id v) = None"
    "u \<noteq> 0" "v_created v = Some u \<or> v_updated v = Some u" "map_of (le_roles E) u \<noteq> Some ''admin''" "st \<noteq> VDraft"
  shows "(\<forall>s'. setVoucherStatus L E i st (Some u) s \<noteq> Inr s') \<and>
    (\<forall>actor s'. applyVoucherStatus L E i st actor (Some u) s \<noteq> Inr s') \<and>
    (\<forall>s'. finalizeJournalVoucher L E i (Some u) s \<noteq> Inr s') \<and>
    (\<forall>W b. finalize_one L E W (Some u) i (b, s) = Inr (refuse_in i (if i \<in> set W then RefWorkflow else RefMaker) b, s)) \<and>
    (\<forall>W b. approve_one E W (Some u) i (b, s) = Inr (refuse_in i (if i \<in> set W then RefWorkflow else RefMaker) b, s))"
proof -
  have m: "makerApprovalRefusal E s v t (Some u)" if "t \<noteq> VDraft" for t
    using assms(3-8) that by (cases t) (auto simp: makerApprovalRefusal_def id_or_def is_admin_def SYSTEM_ADMIN_ROLE_def)
  have del: "\<not> v_deleted v" using assms(1) by (auto simp: live_voucher_def dest: find_SomeD)
  have app: "applyVoucherStatus L E i st actor (Some u) s \<noteq> Inr s'" for actor s'
    using m [OF assms(9)] assms(1,6,9)
    by (auto simp: applyVoucherStatus_def res_bind_Inr res_guard_Inr assertNotApprovedByMaker_def id_or_def)
  have own: "applyVoucherStatus L E i st (Some u) None s \<noteq> Inr s'" for s'
    using m [OF assms(9)] assms(1) by (auto simp: applyVoucherStatus_def res_bind_Inr res_guard_Inr assertNotApprovedByMaker_def)
  show ?thesis
    using app own m [of VPermanent] m [of VApproved] assms(2,3) del
    by (auto simp: setVoucherStatus_def finalizeJournalVoucher_def finalize_one_def approve_one_def res_bind_Inr res_guard_Inr assertNotApprovedByMaker_def)
qed

lemma maker_cannot_approve_witness:
  "(\<forall>s'. setVoucherStatus ref_lib example_env 1 VApproved (Some 2) example_books \<noteq> Inr s') \<and>
   setVoucherStatus ref_lib example_env 1 VApproved (Some 1) example_books = Inr example_approved"
proof -
  have v: "live_voucher example_books 1 = Some example_draft" "any_voucher example_books 1 = Some example_draft"
    by (simp_all add: live_voucher_def any_voucher_def)
  show ?thesis
    using maker_cannot_approve [OF v, of example_env 2 VApproved ref_lib] example_approval example_source(2) by simp
qed

section \<open>The row menu\<close>

text \<open>
  C18: what the row menu of the voucher list offers. Reversal and correction pass the server's guards on the voucher exactly when the
  menu offers them and the user may change it: without \<open>accounting.control_adjustment\<close> the server refuses a voucher with a row on a
  control account, which the menu does not look at. (A \<open>RE-REV-V\<close> voucher is never offered, and the guards do not refuse it.) Back to
  draft is offered exactly when a user who may approve is not refused by the guards. A delete that is offered goes through in an open
  period, unless the voucher has a row on a control account and the user lacks that permission.
\<close>

theorem row_menu_matches_server:
  assumes "decimal_js L" "books_ok s" "books_env E s" "i \<noteq> 0" "live_voucher s i = Some v" "getJournalVoucherById L E i s = Inr w"
    "rp_manual_entry p" "\<not> rp_reversal_of_reversal p" "\<not> rp_year_end p"
  shows "(ActReverse \<in> set (voucherRowActions (view_facts w) can) \<and> assertMayChangeControlVoucher E s i (rp_may_adjust p) = Inr () \<longleftrightarrow>
      reversal_guards E p v s = Inr () \<and> \<not> starts_with ''RE-REV-V'' (v_ref v)) \<and>
    (ActCorrect \<in> set (voucherRowActions (view_facts w) can) \<and> assertMayChangeControlVoucher E s i adj = Inr () \<longleftrightarrow>
      correction_guards E v s = Inr () \<and> correction_late_guards E adj v s = Inr () \<and> \<not> starts_with ''RE-REV-V'' (v_ref v)) \<and>
    (ActRevertToDraft \<in> set (voucherRowActions (view_facts w) can) \<longleftrightarrow>
      can \<and> v_status v = VApproved \<and> i \<notin> set (ld_workflows s) \<and> back_to_draft_guards E v s = Inr ()) \<and>
    (ActDelete \<in> set (voucherRowActions (view_facts w) can) \<longrightarrow>
      (\<forall>s1. assertOpen E (v_date v) s = Inr s1 \<longrightarrow> deleteJournalVoucher E i adj s =
        (case assertMayChangeControlVoucher E s i adj of Inl e \<Rightarrow> Inl e | Inr u \<Rightarrow> Inr (soft_delete i s1))))"
proof -
  note vw = decimal_js.view_exact [OF assms(1-3,5,6)]
  note b = books_journal [OF assms(2,5)]
  have wf: "ledger_wf s" and ok: "journal_ok (journal_of s)" using assms(2) by (simp_all add: books_ok_def)
  have f: "view_facts w = \<lparr>rf_status = v_status v, rf_source = voucherSourceKind E s i, rf_year = v_year v, rf_ref = v_ref v,
      rf_reversed_by = voucherActiveReversals s [v] i, rf_in_workflow = (i \<in> set (ld_workflows s))\<rparr>"
    by (simp add: view_facts_def vw)
  note rv = view_reversed [OF assms(4) b(4), of s]
  have rev: "ActReverse \<in> set (voucherRowActions (view_facts w) can) \<and> assertMayChangeControlVoucher E s i (rp_may_adjust p) = Inr () \<longleftrightarrow>
      reversal_guards E p v s = Inr () \<and> \<not> starts_with ''RE-REV-V'' (v_ref v)"
  proof (cases "starts_with ''RE-REV-V'' (v_ref v)")
    case True
    then show ?thesis by (simp add: f voucherRowActions_def Let_def isReversalReference_cases)
  next
    case False
    then show ?thesis unfolding reversal_guard_iff [OF False assms(7-9)] b(4)
      using rv by (cases "v_status v") (auto simp: f voucherRowActions_def Let_def)
  qed
  have cor: "ActCorrect \<in> set (voucherRowActions (view_facts w) can) \<and> assertMayChangeControlVoucher E s i adj = Inr () \<longleftrightarrow>
      correction_guards E v s = Inr () \<and> correction_late_guards E adj v s = Inr () \<and> \<not> starts_with ''RE-REV-V'' (v_ref v)"
    using rv b(4) by (cases "v_status v")
      (auto simp: f voucherRowActions_def Let_def correction_guards_def correction_late_guards_def res_bind_Inr res_guard_Inr isReversalReference_cases
        assertVoucherWithoutSource_def assertNotYearEndClosing_def split: option.splits)
  have drafts: "ActRevertToDraft \<in> set (voucherRowActions (view_facts w) can) \<longleftrightarrow>
      can \<and> v_status v = VApproved \<and> i \<notin> set (ld_workflows s) \<and> back_to_draft_guards E v s = Inr ()"
    using rv b(4) by (cases "v_status v")
      (auto simp: f voucherRowActions_def Let_def back_to_draft_guards_def res_bind_Inr res_guard_Inr
        assertVoucherWithoutSource_def assertNotYearEndClosing_def assertNoActiveReversal_def split: option.splits)
  have del: "deleteJournalVoucher E i adj s = (case assertMayChangeControlVoucher E s i adj of Inl e \<Rightarrow> Inl e | Inr u \<Rightarrow> Inr (soft_delete i s1))"
    if "ActDelete \<in> set (voucherRowActions (view_facts w) can)" "assertOpen E (v_date v) s = Inr s1" for s1
  proof -
    have c: "v_status v = VDraft" "voucherSourceKind E s i = None"
      using that(1) by (auto simp: f voucherRowActions_def Let_def split: if_splits)
    have "\<not> reversed_in (journal_of s) v" using journal_okD(3) [OF ok _ b(1)] c(1) unfolding reversed_in_def by blast
    then have "findActiveReversal s v = None" using active_reversal_iff [OF wf] by simp
    then show ?thesis using c that(2) assms(5)
      by (auto simp: deleteJournalVoucher_def assertVoucherWithoutSource_def assertNoActiveReversal_def res_guard_def split: sum.splits)
  qed
  show ?thesis using rev cor drafts del by blast
qed

text \<open>The cash account of the example as the account of a mapped concept, a control account.\<close>

definition control_env :: ledger_env where
  "control_env = example_env\<lparr>le_mapped := [1]\<rparr>"

lemma control_env_source: "voucherSourceKind control_env s i = voucherSourceKind example_env s i"
proof -
  have own: "own_source control_env s v = own_source example_env s v" for v by (simp add: control_env_def own_source_def)
  have "source_chain n control_env s v = source_chain n example_env s v" for n v
    by (induction n arbitrary: v) (simp_all add: own split: option.split)
  then show ?thesis by (simp only: voucherSourceKind_def)
qed

lemma row_menu_matches_server_witness:
  "\<exists>w. getJournalVoucherById ref_lib control_env 1 example_approved = Inr w \<and> ActReverse \<in> set (voucherRowActions (view_facts w) True) \<and>
    ActDelete \<notin> set (voucherRowActions (view_facts w) True) \<and>
    reversal_guards control_env (example_reversal\<lparr>rp_manual_entry := True, rp_may_adjust := False\<rparr>) approved_draft example_approved \<noteq> Inr ()"
proof -
  let ?p = "\<lambda>adj. example_reversal\<lparr>rp_manual_entry := True, rp_may_adjust := adj\<rparr>"
  have v: "live_voucher example_approved 1 = Some approved_draft" by (simp add: live_voucher_def)
  then obtain w where w: "getJournalVoucherById ref_lib control_env 1 example_approved = Inr w" by (simp add: getJournalVoucherById_def)
  have "status_only example_books example_approved" unfolding example_approved_def by (rule status_only_set)
  then have src: "voucherSourceKind control_env example_approved 1 = None"
    using source_kind_status example_source(2) by (simp add: control_env_source)
  have env: "books_env control_env example_approved"
    using example_env_all [of example_approved] by (simp add: books_env_def control_env_def account_known_def)
  have p: "rp_manual_entry (?p adj)" "\<not> rp_reversal_of_reversal (?p adj)" "\<not> rp_year_end (?p adj)" for adj
    by (simp_all add: example_reversal_def)
  have "\<not> starts_with ''RE-REV-V'' (v_ref approved_draft)" "\<not> isReversalReference (v_ref approved_draft)"
    by (simp_all add: starts_with_def isReversalReference_def REVERSAL_REFERENCE_PREFIXES_def)
  moreover have "findActiveReversal example_approved approved_draft = None"
    by (simp add: findActiveReversal_def active_reversal_of_def) (simp add: approved_draft_def)
  ultimately have g: "reversal_guards control_env (?p True) approved_draft example_approved = Inr ()" "\<not> starts_with ''RE-REV-V'' (v_ref approved_draft)"
    using reversal_guard_iff [of approved_draft "?p True"] p src by (simp_all add: assertMayChangeControlVoucher_def)
  note menu = row_menu_matches_server [OF ref.decimal_js_axioms example_approved_ok env _ v w p, where can = True]
  have offered: "ActReverse \<in> set (voucherRowActions (view_facts w) True)" using menu [of True] g by simp
  have "assertMayChangeControlVoucher control_env example_approved 1 False \<noteq> Inr ()"
  proof -
    have "1 \<in> set (controlAccountsById control_env)" by (simp add: control_env_def controlAccountsById_def Let_def)
    moreover have "\<exists>x \<in> set (live_items example_approved 1). vi_account x = 1"
      by (simp add: example_items_of example_items_def example_data_def input_item_def row_of_def)
    ultimately have "list_ex (\<lambda>x. vi_account x \<in> set (controlAccountsById control_env)) (live_items example_approved 1)"
      unfolding list_ex_iff by metis
    then show ?thesis by (simp only: assertMayChangeControlVoucher_def res_guard_def) simp
  qed
  then have "reversal_guards control_env (?p False) approved_draft example_approved \<noteq> Inr ()" using menu [of False] g(2) by auto
  moreover have "ActDelete \<notin> set (voucherRowActions (view_facts w) True)"
    using w v by (auto simp: getJournalVoucherById_def voucherRowActions_def view_facts_def Let_def)
  ultimately show ?thesis using w offered by blast
qed

section \<open>Finalizing many vouchers\<close>

text \<open>
  C19: finalizing many vouchers never throws. Each distinct positive id is finalized or refused by what the tables said of it at
  the start, whatever happens to the others; the finalized vouchers are permanent, all other vouchers and all rows are as they were.
\<close>

theorem finalize_batch_outcome:
  "\<exists>s'. finalizeJournalVouchers L E ids user s =
      Inr (\<lparr>bt_done = filter (\<lambda>i. finalize_refusal L E (ld_workflows s) user s i = None) (sorted_ids ids),
            bt_refused = List.map_filter (\<lambda>i. map_option (\<lambda>why. (i, why)) (finalize_refusal L E (ld_workflows s) user s i)) (sorted_ids ids)\<rparr>, s') \<and>
    ld_vouchers s' = map (\<lambda>v. if v_id v \<in> set (sorted_ids ids) \<and> finalize_refusal L E (ld_workflows s) user s (v_id v) = None
      then v\<lparr>v_status := VPermanent, v_approved := id_or user\<rparr> else v) (ld_vouchers s) \<and>
    ld_items s' = ld_items s \<and> year_closed s' = year_closed s"
  using finalize_fold [OF sorted_ids_facts(1) status_only_refl refl refl, of L E "ld_workflows s" user ids "\<lparr>bt_done = [], bt_refused = []\<rparr>" s]
  unfolding permanent_def finalizeJournalVouchers_def by simp

section \<open>Reading back\<close>

text \<open>
  C20: a created voucher reads back as it was sent: the same accounts, debits and credits in the same order, their sums in the
  header, the status and the maker of the request, version 1 and the next voucher number.
\<close>

theorem created_voucher_reads_back:
  assumes "decimal_js L" "books_ok s" "isStorageDate (le_today E)" "create_ok d" "createJournalVoucher L E d s = Inr (i, s')" "books_env E s'"
  shows "\<exists>w. getJournalVoucherById L E i s' = Inr w \<and> map (\<lambda>x. (vi_account x, vi_debit x, vi_credit x)) (vw_items w) = map row_amounts (cd_items d) \<and>
    v_debit (vw_voucher w) = sum_list (map br_debit (cd_items d)) \<and> v_credit (vw_voucher w) = sum_list (map br_credit (cd_items d)) \<and>
    v_status (vw_voucher w) = (case cd_status d of None \<Rightarrow> VDraft | Some st \<Rightarrow> st) \<and> v_created (vw_voucher w) = id_or (cd_user d) \<and>
    v_version (vw_voucher w) = 1 \<and> v_number (vw_voucher w) = ld_next_number s"
proof -
  note post = decimal_js.create_posts [OF assms(1-5)]
  from post(2) obtain date reason and items :: "vrow list" where i: "i = ld_next_id s" and fit: "rows_fit items"
    and am: "map row_amounts items = map row_amounts (cd_items d)"
    and j: "journal_of s' = (journal_of s)(i \<mapsto>
      ((new_voucher L d date (ld_next_number s) (raw_debit items) (raw_credit items) reason)\<lparr>v_id := i\<rparr>, map (input_item L i) (enumerate 0 items)))" by blast
  let ?v = "(new_voucher L d date (ld_next_number s) (raw_debit items) (raw_credit items) reason)\<lparr>v_id := i\<rparr>"
  have ok: "books_ok s'" by (rule refines_ok [OF post(1) assms(2)])
  have live: "live_voucher s' i = Some ?v" and rows: "live_items s' i = map (input_item L i) (enumerate 0 items)"
    using fun_cong [OF j, of i] by (auto simp: journal_of_def)
  from live obtain w where w: "getJournalVoucherById L E i s' = Inr w" by (simp add: getJournalVoucherById_def)
  note vw = decimal_js.view_exact [OF assms(1) ok assms(6) live w]
  have "vw_items w = map (input_item L i) (enumerate 0 items)"
    unfolding vw(2) ordered_items_def rows by (rule sort_enumerated) (simp add: input_item_def)
  moreover have "fin_toDb L (br_debit (snd p)) = br_debit (snd p)" "fin_toDb L (br_credit (snd p)) = br_credit (snd p)" if "p \<in> set (enumerate 0 items)" for p
  proof -
    have "snd p \<in> set items" using that by (metis imageI map_snd_enumerate set_map)
    then show "fin_toDb L (br_debit (snd p)) = br_debit (snd p)" "fin_toDb L (br_credit (snd p)) = br_credit (snd p)"
      using rows_fit_money4 [OF fit] decimal_js.toDb_money4 [OF assms(1)] by auto
  qed
  ultimately have "map (\<lambda>x. (vi_account x, vi_debit x, vi_credit x)) (vw_items w) = map (\<lambda>p. row_amounts (snd p)) (enumerate 0 items)"
    by (simp add: row_amounts_def)
  also have "\<dots> = map row_amounts (cd_items d)" unfolding sum_enumerate am ..
  finally have r: "map (\<lambda>x. (vi_account x, vi_debit x, vi_credit x)) (vw_items w) = map row_amounts (cd_items d)" .
  have "raw_debit rs = sum_list (map (\<lambda>m. fst (snd m)) (map row_amounts rs))" "raw_credit rs = sum_list (map (\<lambda>m. snd (snd m)) (map row_amounts rs))"
    for rs :: "vrow list" by (simp_all add: raw_debit_def raw_credit_def row_amounts_def comp_def)
  note sums = this [of items, unfolded am, folded this]
  have "raw_debit items = raw_debit (cd_items d)" "raw_credit items = raw_credit (cd_items d)" by (rule sums)+
  moreover have "fin_toDb L (raw_debit items) = raw_debit items" "fin_toDb L (raw_credit items) = raw_credit items"
    using raw_money4 [OF fit] decimal_js.toDb_money4 [OF assms(1)] by auto
  ultimately have "v_debit ?v = sum_list (map br_debit (cd_items d))" "v_credit ?v = sum_list (map br_credit (cd_items d))"
    by (simp_all add: raw_debit_def raw_credit_def)
  then show ?thesis using w r vw(1) by (intro exI [of _ w]) simp
qed

lemma created_voucher_reads_back_witness:
  "\<exists>w. getJournalVoucherById ref_lib example_env 1 example_books = Inr w \<and>
    map (\<lambda>x. (vi_account x, vi_debit x, vi_credit x)) (vw_items w) = [(1, 250, 0), (2, 0, 250)] \<and> v_debit (vw_voucher w) = 250"
proof -
  have "isStorageDate (le_today example_env)" by (simp add: example_date)
  from created_voucher_reads_back [OF ref.decimal_js_axioms empty_books_ok this example_create_ok example_created example_env_ok(2)]
  show ?thesis by (auto simp: example_data_def row_amounts_def row_of_def)
qed

end
