(* ===== verification/FiscalYear.thy ===== *)
theory FiscalYear
  imports VoucherSteps
begin

text \<open>
  Fiscal years: when and in which order they are closed (\<open>services/accounting/fiscalYearOrder.ts\<close>), the rows
  of \<open>fiscal_periods\<close> that closing and reopening write (\<open>fiscalPeriod.service.ts\<close>), and reopening the last closed
  year (\<open>fiscalYearReopen.ts\<close>), which takes back the vouchers the closing issued.
\<close>

section \<open>When and in which order\<close>

definition boundsOf :: "int \<Rightarrow> voucher_error + year_bounds" where
  "boundsOf year = (case jalaliYearBounds year of None \<Rightarrow> Inl YearInvalid | Some b \<Rightarrow> Inr b)"

definition isFiscalYearEnded :: "int \<Rightarrow> string \<Rightarrow> voucher_error + bool" where
  "isFiscalYearEnded year todayIso = res_bind (boundsOf year) (\<lambda>b. Inr (\<not> js_less todayIso (nextFirstDay b)))"

definition assertFiscalYearEnded :: "int \<Rightarrow> string \<Rightarrow> voucher_error + unit" where
  "assertFiscalYearEnded year todayIso = res_bind (isFiscalYearEnded year todayIso) (\<lambda>ended. res_guard ended YearNotEnded)"

text \<open>The years of a range with a live voucher; a date that is no storage date is read as the service reads it.\<close>

definition fiscalYearsWithVouchers :: "ledger_env \<Rightarrow> ledger_db \<Rightarrow> int \<Rightarrow> int \<Rightarrow> int list" where
  "fiscalYearsWithVouchers E s fromYear toYear =
    (if toYear < fromYear then []
     else
       let dates = map v_date (filter (\<lambda>v. \<not> v_deleted v) (ld_vouchers s));
           holds = (\<lambda>y. case jalaliYearBounds y of
             None \<Rightarrow> False
           | Some b \<Rightarrow> list_ex (\<lambda>d. \<not> js_less d (firstDay b) \<and> js_less d (nextFirstDay b) \<and> storage_pattern d) dates);
           legacy = filter (\<lambda>y. fromYear \<le> y \<and> y \<le> toYear) (map (yearOf E) (filter (\<lambda>d. \<not> storage_pattern d) dates))
       in remdups (filter holds [fromYear..toYear] @ legacy))"

definition findEarlierOpenYears :: "ledger_env \<Rightarrow> ledger_db \<Rightarrow> int \<Rightarrow> int list" where
  "findEarlierOpenYears E s year =
    (case earliestVoucherYear E s of
       None \<Rightarrow> []
     | Some first \<Rightarrow>
         if first \<ge> year then []
         else
           let closed = map fp_year (filter (\<lambda>p. fp_closed p \<and> fp_year p < year) (ld_periods s))
           in sort (filter (\<lambda>y. y \<notin> set closed) (fiscalYearsWithVouchers E s first (year - 1))))"

definition assertEarlierYearsClosed :: "ledger_env \<Rightarrow> ledger_db \<Rightarrow> int \<Rightarrow> voucher_error + unit" where
  "assertEarlierYearsClosed E s year =
    (let open_years = findEarlierOpenYears E s year
     in if open_years = [] then Inr () else Inl (EarlierOpen open_years))"

section \<open>The rows of the fiscal years\<close>

definition lockForClosing :: "int \<Rightarrow> ledger_db \<Rightarrow> voucher_error + ledger_db" where
  "lockForClosing year s =
    (let s1 = ensureRow year s in if year_closed s1 year then Inl (YearAlreadyClosed year) else Inr s1)"

definition lockForReopen :: "int \<Rightarrow> ledger_db \<Rightarrow> voucher_error + unit" where
  "lockForReopen year s = res_guard (year_closed s year) (YearNotClosed year)"

definition markOpen :: "int \<Rightarrow> ledger_db \<Rightarrow> ledger_db" where
  "markOpen year s = s\<lparr>ld_periods := update_rows (\<lambda>p. fp_year p = year)
    (\<lambda>p. p\<lparr>fp_closed := False, fp_closed_by := None, fp_voucher := None\<rparr>) (ld_periods s)\<rparr>"

text \<open>\<open>closedBy || 'system'\<close>, in Persian.\<close>

definition system_fa :: string where
  "system_fa = bytes [0xd8, 0xb3, 0xdb, 0x8c, 0xd8, 0xb3, 0xd8, 0xaa, 0xd9, 0x85]"

definition markClosed :: "int \<Rightarrow> nat option \<Rightarrow> string option \<Rightarrow> ledger_db \<Rightarrow> ledger_db" where
  "markClosed year closingVoucherId closedBy s =
    (let values = (\<lambda>p. p\<lparr>fp_closed := True, fp_closed_by := Some (str_or closedBy system_fa), fp_voucher := closingVoucherId\<rparr>)
     in case period_of s year of
          Some _ \<Rightarrow> s\<lparr>ld_periods := update_rows (\<lambda>p. fp_year p = year) values (ld_periods s)\<rparr>
        | None \<Rightarrow> s\<lparr>ld_periods := ld_periods s @ [values \<lparr>fp_year = year, fp_closed = True, fp_closed_by = None, fp_voucher = None\<rparr>]\<rparr>)"

section \<open>The dates of a closing\<close>

record closing_dates =
  cl_year :: int
  cl_start :: string
  cl_closing :: string
  cl_opening :: string

definition closing_year :: "string \<Rightarrow> int option" where
  "closing_year rawYear =
    (case take_digits 4 (js_trim (toEnglishDigits rawYear)) of
       Some (ds, []) \<Rightarrow> Some (number_of ds)
     | _ \<Rightarrow> None)"

text \<open>\<open>mustEqual\<close>: a date the caller sends is the date of the closing.\<close>

definition must_equal :: "date_input \<Rightarrow> string \<Rightarrow> voucher_error + unit" where
  "must_equal value expected =
    (case value of
       NoDate \<Rightarrow> Inr ()
     | DateText t \<Rightarrow> if js_trim t = '''' then Inr () else res_guard (toStorageDate value = Some expected) InvalidDate
     | OtherInput \<Rightarrow> Inl InvalidDate)"

definition resolveFiscalClosingDates :: "string \<Rightarrow> date_input \<Rightarrow> date_input \<Rightarrow> voucher_error + closing_dates" where
  "resolveFiscalClosingDates rawYear closingDateInput openingDateInput =
    (case closing_year rawYear of
       None \<Rightarrow> Inl YearInvalid
     | Some year \<Rightarrow>
         (case jalaliYearBounds year of
            None \<Rightarrow> Inl YearInvalid
          | Some b \<Rightarrow>
              res_bind (must_equal closingDateInput (lastDay b)) (\<lambda>_.
              res_bind (must_equal openingDateInput (nextFirstDay b)) (\<lambda>_.
                Inr \<lparr>cl_year = year, cl_start = firstDay b, cl_closing = lastDay b, cl_opening = nextFirstDay b\<rparr>))))"

section \<open>Reopening the last closed year\<close>

text \<open>The vouchers of the last closing run that are in effect, the latest first.\<close>

definition in_closing_run :: "ledger_db \<Rightarrow> int \<Rightarrow> voucher \<Rightarrow> bool" where
  "in_closing_run s year v \<longleftrightarrow>
    \<not> v_deleted v \<and> v_year v = Some year \<and> \<not> isReversalReference (v_ref v) \<and> \<not> list_ex (active_reversal_of v) (ld_vouchers s)"

definition activeClosingRunVouchers :: "ledger_db \<Rightarrow> int \<Rightarrow> voucher list" where
  "activeClosingRunVouchers s year = rev (sort_key v_id (filter (in_closing_run s year) (ld_vouchers s)))"

record reopen_params =
  ro_year :: string
  ro_reason :: "string option"
  ro_user :: "nat option"
  ro_username :: "string option"

definition reopen_void ::
  "decimal_lib \<Rightarrow> ledger_env \<Rightarrow> reopen_params \<Rightarrow> voucher \<Rightarrow> (nat \<times> void_outcome) list \<times> ledger_db \<Rightarrow>
    voucher_error + (nat \<times> void_outcome) list \<times> ledger_db" where
  "reopen_void L E p v = (\<lambda>(voided, s).
    res_bind (voidSourceVoucher L E
      \<lparr>rp_voucher = v_id v, rp_date = DateText (v_date v), rp_user = ro_user p, rp_username = ro_username p,
       rp_reversal_of_reversal = False, rp_year_end = True, rp_manual_entry = False, rp_may_adjust = False\<rparr> s)
      (\<lambda>(outcome, s1). Inr (voided @ [(v_id v, outcome)], s1)))"

definition reopenFiscalYear ::
  "decimal_lib \<Rightarrow> ledger_env \<Rightarrow> reopen_params \<Rightarrow> ledger_db \<Rightarrow> voucher_error + (int \<times> (nat \<times> void_outcome) list) \<times> ledger_db" where
  "reopenFiscalYear L E p s =
    res_bind (resolveFiscalClosingDates (ro_year p) NoDate NoDate) (\<lambda>d.
    let year = cl_year d
    in if trim_or (ro_reason p) = '''' then Inl ReopenReasonRequired
       else
         res_bind (lockForReopen year s) (\<lambda>_.
         let later = rev (sort (map fp_year (filter (\<lambda>q. fp_year q > year \<and> fp_closed q) (ld_periods s))))
         in if later \<noteq> [] then Inl (LaterClosed later)
            else
              let s1 = markOpen year s
              in res_bind (fold_res (reopen_void L E p) (activeClosingRunVouchers s1 year) ([], s1)) (\<lambda>(voided, s2).
                   Inr ((year, voided), s2))))"


section \<open>Facts\<close>

lemma journal_markOpen [simp]: "journal_of (markOpen year s) = journal_of s"
  by (rule journal_cong) (simp_all add: markOpen_def)

lemma markOpen_simps [simp]:
  "ld_vouchers (markOpen year s) = ld_vouchers s" "ld_items (markOpen year s) = ld_items s" "ld_next_id (markOpen year s) = ld_next_id s"
  "ld_next_number (markOpen year s) = ld_next_number s"
  by (simp_all add: markOpen_def)

lemma period_years: "map fp_year (update_rows p f xs) = map fp_year xs" if "\<And>x. fp_year (f x) = fp_year x"
  using that by (simp add: map_update_rows)

lemma books_markOpen: "books_ok s \<Longrightarrow> books_ok (markOpen year s)"
  unfolding books_ok_def
  using wf_cong [of s "markOpen year s"] refs_cong [of s "markOpen year s"]
  by (simp add: ledger_wfD(7)) (simp add: markOpen_def period_years ledger_wfD(7))

lemma find_update: "List.find (\<lambda>p. k p = y) (update_rows (\<lambda>p. k p = z) f xs) =
    (if y = z then map_option f (List.find (\<lambda>p. k p = y) xs) else List.find (\<lambda>p. k p = y) xs)"
  if "\<And>x. k (f x) = k x"
  using that by (induction xs) (auto simp: update_rows_def)

lemma year_closed_markOpen: "year_closed (markOpen year s) = (year_closed s)(year := False)"
proof
  fix y
  show "year_closed (markOpen year s) y = ((year_closed s)(year := False)) y"
    using find_update [of fp_year "\<lambda>p. p\<lparr>fp_closed := False, fp_closed_by := None, fp_voucher := None\<rparr>" y year "ld_periods s"]
    by (simp add: year_closed_def period_of_def markOpen_def split: option.split)
qed

lemma year_closed_markClosed: "year_closed (markClosed year v who s) = (year_closed s)(year := True)"
proof
  fix y
  show "year_closed (markClosed year v who s) y = ((year_closed s)(year := True)) y"
    using find_update [of fp_year "\<lambda>p. p\<lparr>fp_closed := True, fp_closed_by := Some (str_or who system_fa), fp_voucher := v\<rparr>" y year "ld_periods s"]
    by (auto simp: year_closed_def period_of_def markClosed_def Let_def find_append split: option.split)
qed

text \<open>What a reversal takes back.\<close>

definition takes_back :: "voucher \<Rightarrow> vitem list \<Rightarrow> voucher \<Rightarrow> vitem list \<Rightarrow> bool" where
  "takes_back v rows r q \<longleftrightarrow> v_ref_id r = Some (v_id v) \<and> v_ref r = rev_ref v \<and> v_status r = VApproved \<and> v_date r = v_date v \<and>
    v_year r = v_year v \<and> (\<forall>key. net_of key q = - net_of key rows)"

text \<open>A draft of the run is gone; any other voucher stands beside its reversal.\<close>

definition taken_back :: "journal \<Rightarrow> voucher \<Rightarrow> vitem list \<Rightarrow> bool" where
  "taken_back J v rows \<longleftrightarrow>
    (if v_status v = VDraft then J (v_id v) = None
     else J (v_id v) = Some (v, rows) \<and> (\<exists>k r q. J k = Some (r, q) \<and> takes_back v rows r q))"

lemma date_or_today_stored_text: "isStorageDate d \<Longrightarrow> date_or_today E (DateText d) = Inr d"
  by (simp add: date_or_today_def requireStorageDate_def isStorageDate_def str_or_def)

lemma soft_delete_next [simp]: "ld_next_id (soft_delete i s) = ld_next_id s"
  by (simp add: soft_delete_def set_voucher_def)

context decimal_js begin

lemma reverse_next_id:
  assumes "books_ok s" "isStorageDate (le_today E)" "reverseVoucher L E p s = Inr (k, s')"
  shows "ld_next_id s' = ld_next_id s + 1"
  using assms by (rule reverse_Inr) (auto simp: insert_voucher_def insertVoucherItems_eq split: if_splits)

lemma void_entry:
  assumes "books_ok s" "isStorageDate (le_today E)" "journal_of s (v_id v) = Some (v, rows)" "\<not> isReversalReference (v_ref v)"
    "voidSourceVoucher L E \<lparr>rp_voucher = v_id v, rp_date = DateText (v_date v), rp_user = u, rp_username = un, rp_reversal_of_reversal = False,
      rp_year_end = True, rp_manual_entry = False, rp_may_adjust = False\<rparr> s = Inr (oc, s')"
  shows "ld_next_id s \<le> ld_next_id s' \<and>
    (if v_status v = VDraft then journal_of s' = (journal_of s)(v_id v := None)
     else \<exists>k r q. ld_next_id s \<le> k \<and> journal_of s' = (journal_of s)(k \<mapsto> (r, q)) \<and> takes_back v rows r q)"
proof -
  let ?p = "\<lparr>rp_voucher = v_id v, rp_date = DateText (v_date v), rp_user = u, rp_username = un, rp_reversal_of_reversal = False,
      rp_year_end = True, rp_manual_entry = False, rp_may_adjust = False\<rparr>"
  have wf: "ledger_wf s" using assms(1) by (simp add: books_ok_def)
  have live: "live_voucher s (v_id v) = Some v" using assms(3) by (auto simp: journal_of_def)
  have stored: "isStorageDate (v_date v)" using ledger_wfD(8) [OF wf] journal_member [OF assms(3)] by blast
  note a = assms(5) [unfolded voidSourceVoucher_def reverse_params.select_convs live option.case]
  show ?thesis
  proof (cases "v_status v = VDraft")
    case True
    from a [unfolded if_P [OF True] res_bind_Inr] obtain s1 where o: "assertOpen E (v_date v) s = Inr s1" "s' = soft_delete (v_id v) s1" by auto
    have s1: "s1 = ensureRow (book_year (v_date v)) s" by (rule assertOpen_Inr(1) [OF o(1) stored])
    have "journal_of s' = (journal_of s)(v_id v := None)"
      using journal_soft_delete(1) [of s1 "v_id v"] wf o(2) s1 by simp
    then show ?thesis using True o(2) s1 by simp
  next
    case False
    from a [unfolded if_not_P [OF False] res_bind_Inr case_prod_unfold] obtain k where r: "reverseVoucher L E ?p s = Inr (k, s')" by auto
    from reverse_entry [OF assms(1,2) r] obtain w date where w: "journal_of s (v_id v) = Some (w, live_items s (v_id v))" "k = ld_next_id s"
      and d: "date_or_today E (DateText (v_date v)) = Inr date"
      and j: "journal_of s' = (journal_of s)(k \<mapsto>
        ((reversal_header L w date (if v_year w \<noteq> None then v_type w else ''adjustment'') (v_year w) (expected_ref w)
          (v_debit w, v_credit w) u un (ld_next_number s))\<lparr>v_id := k\<rparr>, map (reversed_item L k) (enumerate 0 (ordered_items s (v_id v)))))" by auto
    have eq: "w = v" "date = v_date v" "rows = live_items s (v_id v)"
      using w(1) assms(3) d date_or_today_stored_text [OF stored] by simp_all
    have e: "entry_ok (v, rows)" using assms(1,3) by (auto simp: books_ok_def dest: journal_okD(2))
    have mem: "money4 (vi_debit x) \<and> money4 (vi_credit x) \<and> vi_currency x \<noteq> ''''" if "x \<in> set (ordered_items s (v_id v))" for x
      using that e eq(3) by (auto simp: ordered_items_def entry_ok.simps)
    have net: "net_of key (map (reversed_item L k) (enumerate 0 (ordered_items s (v_id v)))) = - net_of key rows" for key
      using net_of_reversed [OF mem] net_of_mset [OF mset_ordered_items] eq(3) by simp
    have ref: "expected_ref v = rev_ref v"
      using assms(4) by (auto simp: expected_ref_def reversal_of_original_def isReversalReference_def REVERSAL_REFERENCE_PREFIXES_def)
    define r where "r = (reversal_header L v (v_date v) (if v_year v \<noteq> None then v_type v else ''adjustment'') (v_year v) (rev_ref v)
        (v_debit v, v_credit v) u un (ld_next_number s))\<lparr>v_id := k\<rparr>"
    have "takes_back v rows r (map (reversed_item L k) (enumerate 0 (ordered_items s (v_id v))))"
      using net by (simp add: takes_back_def reversal_header_def r_def)
    then have "\<exists>k r q. ld_next_id s \<le> k \<and> journal_of s' = (journal_of s)(k \<mapsto> (r, q)) \<and> takes_back v rows r q"
      using j [unfolded eq(1,2) ref, folded r_def] w(2) by blast
    then show ?thesis using False reverse_next_id [OF assms(1,2) r] by simp
  qed
qed

end

text \<open>The run that reopening takes back, and what it leaves.\<close>

definition run_member :: "journal \<Rightarrow> voucher \<Rightarrow> bool" where
  "run_member J v \<longleftrightarrow> (\<exists>rows. J (v_id v) = Some (v, rows)) \<and> \<not> isReversalReference (v_ref v)"

definition run_undone :: "journal \<Rightarrow> nat \<Rightarrow> voucher list \<Rightarrow> journal \<Rightarrow> bool" where
  "run_undone J n vs J' \<longleftrightarrow>
    (\<forall>i e. i \<notin> v_id ` set vs \<longrightarrow> J i = Some e \<longrightarrow> J' i = Some e) \<and>
    (\<forall>v \<in> set vs. \<forall>rows. J (v_id v) = Some (v, rows) \<longrightarrow> taken_back J' v rows) \<and>
    (\<forall>k e. J' k = Some e \<longrightarrow> J k = Some e \<or>
      (n \<le> k \<and> (\<exists>v \<in> set vs. \<exists>rows r q. J (v_id v) = Some (v, rows) \<and> e = (r, q) \<and> takes_back v rows r q)))"

lemma run_undone_Nil: "run_undone J n [] J"
  by (simp add: run_undone_def)

lemma run_undoneD:
  assumes "run_undone J n vs J'"
  shows "i \<notin> v_id ` set vs \<Longrightarrow> J i = Some e \<Longrightarrow> J' i = Some e"
    "v \<in> set vs \<Longrightarrow> J (v_id v) = Some (v, rows) \<Longrightarrow> taken_back J' v rows"
    "J' k = Some e \<Longrightarrow> J k = Some e \<or> (n \<le> k \<and> (\<exists>v \<in> set vs. \<exists>rows r q. J (v_id v) = Some (v, rows) \<and> e = (r, q) \<and> takes_back v rows r q))"
  using assms unfolding run_undone_def by blast+

text \<open>One voucher taken back, then the rest of the run.\<close>

lemma run_undone_Cons:
  assumes "J (v_id v) = Some (v, rows)" "v_id v \<notin> v_id ` set vs" "n \<le> n'" "v_id v < n" "\<And>i e. J i = Some e \<Longrightarrow> i < n"
    "if v_status v = VDraft then J1 = J(v_id v := None) else \<exists>k r q. n \<le> k \<and> J1 = J(k \<mapsto> (r, q)) \<and> takes_back v rows r q"
    "run_undone J1 n' vs J'" "\<And>w. w \<in> set vs \<Longrightarrow> \<exists>q. J (v_id w) = Some (w, q)" "\<And>i e. J1 i = Some e \<Longrightarrow> i < n'"
  shows "run_undone J n (v # vs) J'"
proof -
  note u = run_undoneD [OF assms(7)]
  have same: "J1 (v_id w) = J (v_id w)" if "w \<in> set vs" for w
  proof -
    have "v_id w \<noteq> v_id v" using that assms(2) by (metis imageI)
    moreover have "v_id w < n" using assms(5,8) that by blast
    ultimately show ?thesis using assms(6) by (auto split: if_splits)
  qed
  have old: "J1 i = Some e" if "i \<noteq> v_id v" "J i = Some e" for i e
    using that assms(5) [OF that(2)] assms(6) by (auto split: if_splits)
  have v: "taken_back J' v rows"
  proof (cases "v_status v = VDraft")
    case True
    then have "J1 (v_id v) = None" using assms(6) by simp
    then have "J' (v_id v) = None"
      using u(3) [of "v_id v"] assms(3,4) by (cases "J' (v_id v)") auto
    with True show ?thesis by (simp add: taken_back_def)
  next
    case False
    then obtain k r q where k: "n \<le> k" "J1 = J(k \<mapsto> (r, q))" "takes_back v rows r q" using assms(6) by auto
    then have "J1 (v_id v) = Some (v, rows)" "J1 k = Some (r, q)" using assms(1,4) by auto
    moreover have "k \<notin> v_id ` set vs" using assms(5,8) k(1) by fastforce
    ultimately have "J' (v_id v) = Some (v, rows)" "J' k = Some (r, q)" using u(1) assms(2) by blast+
    with False k(3) show ?thesis unfolding taken_back_def by auto
  qed
  have new: "J k = Some e \<or> (n \<le> k \<and> (\<exists>w \<in> set (v # vs). \<exists>rows r q. J (v_id w) = Some (w, rows) \<and> e = (r, q) \<and> takes_back w rows r q))"
    if "J' k = Some e" for k e
    using u(3) [OF that]
  proof
    assume "J1 k = Some e"
    then show ?thesis using assms(1,6) by (auto split: if_splits)
  next
    assume "n' \<le> k \<and> (\<exists>v\<in>set vs. \<exists>rows r q. J1 (v_id v) = Some (v, rows) \<and> e = (r, q) \<and> takes_back v rows r q)"
    then show ?thesis using same assms(3) by fastforce
  qed
  show ?thesis unfolding run_undone_def
  proof (intro conjI allI impI ballI)
    fix i e assume "i \<notin> v_id ` set (v # vs)" "J i = Some e"
    then show "J' i = Some e" using old u(1) by auto
  next
    fix w q assume "w \<in> set (v # vs)" "J (v_id w) = Some (w, q)"
    then show "taken_back J' w q" using v assms(1) u(2) [of w q] same by auto
  next
    fix k e assume "J' k = Some e"
    then show "J k = Some e \<or> (n \<le> k \<and> (\<exists>w \<in> set (v # vs). \<exists>rows r q. J (v_id w) = Some (w, rows) \<and> e = (r, q) \<and> takes_back w rows r q))"
      by (rule new)
  qed
qed

lemma journal_bound: "ledger_wf s \<Longrightarrow> journal_of s i = Some e \<Longrightarrow> i < ld_next_id s"
  using journal_fresh [of s i] by (cases "i < ld_next_id s") auto

context decimal_js begin

lemma reopen_fold:
  assumes "fold_res (reopen_void L E p) vs (acc, s) = Inr (voided, s')" "books_ok s" "isStorageDate (le_today E)" "distinct (map v_id vs)"
    "\<And>v. v \<in> set vs \<Longrightarrow> run_member (journal_of s) v"
  shows "refines s s' \<and> map fst voided = map fst acc @ map v_id vs \<and> run_undone (journal_of s) (ld_next_id s) vs (journal_of s')"
  using assms
proof (induction vs arbitrary: acc s)
  case Nil
  then show ?case by (simp add: refines_refl run_undone_Nil)
next
  case (Cons v vs)
  let ?p = "\<lparr>rp_voucher = v_id v, rp_date = DateText (v_date v), rp_user = ro_user p, rp_username = ro_username p,
       rp_reversal_of_reversal = False, rp_year_end = True, rp_manual_entry = False, rp_may_adjust = False\<rparr>"
  from Cons.prems(1) obtain oc t where o: "voidSourceVoucher L E ?p s = Inr (oc, t)"
    and rest: "fold_res (reopen_void L E p) vs (acc @ [(v_id v, oc)], t) = Inr (voided, s')"
    by (auto simp: res_bind_Inr reopen_void_def [of L E p v])
  obtain rows where v: "journal_of s (v_id v) = Some (v, rows)" "\<not> isReversalReference (v_ref v)"
    using Cons.prems(5) [of v] by (auto simp: run_member_def)
  have wf: "ledger_wf s" using Cons.prems(2) by (simp add: books_ok_def)
  have ref: "refines s t" by (rule void_refines [OF Cons.prems(2,3) o])
  then have t: "books_ok t" using refines_ok Cons.prems(2) by blast
  then have wft: "ledger_wf t" by (simp add: books_ok_def)
  note e = void_entry [OF Cons.prems(2,3) v o]
  have ids: "v_id v \<notin> v_id ` set vs" using Cons.prems(4) by simp
  have keep: "journal_of t (v_id w) = journal_of s (v_id w)" if w: "w \<in> set vs" for w
  proof -
    obtain q where "journal_of s (v_id w) = Some (w, q)" using Cons.prems(5) [of w] w by (auto simp: run_member_def)
    then have "v_id w < ld_next_id s" "v_id w \<noteq> v_id v" using journal_bound [OF wf] ids w by (blast, metis imageI)
    then show ?thesis using e by (auto split: if_splits)
  qed
  have mem: "run_member (journal_of t) w" if "w \<in> set vs" for w
    using Cons.prems(5) [of w] keep [OF that] that by (simp add: run_member_def)
  have ih: "refines t s' \<and> map fst voided = map fst (acc @ [(v_id v, oc)]) @ map v_id vs \<and> run_undone (journal_of t) (ld_next_id t) vs (journal_of s')"
    by (rule Cons.IH [OF rest t Cons.prems(3) _ mem]) (use Cons.prems(4) in auto)
  have run: "run_undone (journal_of s) (ld_next_id s) (v # vs) (journal_of s')"
  proof (rule run_undone_Cons [OF v(1) ids conjunct1 [OF e] _ journal_bound [OF wf] conjunct2 [OF e] _ _ journal_bound [OF wft]])
    show "v_id v < ld_next_id s" by (rule journal_bound [OF wf v(1)])
    show "run_undone (journal_of t) (ld_next_id t) vs (journal_of s')" using ih by blast
    show "\<exists>q. journal_of s (v_id w) = Some (w, q)" if "w \<in> set vs" for w
      using Cons.prems(5) [of w] that by (auto simp: run_member_def)
  qed
  show ?case using ih run refines_trans [OF ref] by simp
qed

end

lemma in_closing_run_iff:
  assumes "ledger_wf s"
  shows "v \<in> set (activeClosingRunVouchers s year) \<longleftrightarrow>
    (\<exists>rows. journal_of s (v_id v) = Some (v, rows)) \<and> v_year v = Some year \<and> \<not> isReversalReference (v_ref v) \<and> \<not> reversed_in (journal_of s) v"
proof -
  have "list_ex (active_reversal_of v) (ld_vouchers s) \<longleftrightarrow> findActiveReversal s v \<noteq> None"
    by (auto simp: findActiveReversal_def find_None_iff list_ex_iff)
  then have "list_ex (active_reversal_of v) (ld_vouchers s) \<longleftrightarrow> reversed_in (journal_of s) v" using active_reversal_iff [OF assms, of v] by simp
  then show ?thesis
    unfolding activeClosingRunVouchers_def by (auto simp: in_closing_run_def journal_iff [OF assms])
qed

lemma takes_back_reverses: "takes_back v rows r q \<Longrightarrow> reverses r v \<and> isReversalReference (v_ref r)"
  by (auto simp: takes_back_def reverses_def rev_ref_def isReversalReference_def REVERSAL_REFERENCE_PREFIXES_def starts_with_def)

text \<open>After the run is undone nothing of it is in effect.\<close>

lemma run_undone_empty:
  assumes "ledger_wf s" "ledger_wf s'" "run_undone (journal_of s) n (activeClosingRunVouchers s year) (journal_of s')"
  shows "activeClosingRunVouchers s' year = []"
proof -
  note u = run_undoneD [OF assms(3)]
  have False if v: "v \<in> set (activeClosingRunVouchers s' year)" for v
  proof -
    obtain rows where j: "journal_of s' (v_id v) = Some (v, rows)" and y: "v_year v = Some year" and r: "\<not> isReversalReference (v_ref v)"
      and nr: "\<not> reversed_in (journal_of s') v" using v by (auto simp: in_closing_run_iff [OF assms(2)])
    have j0: "journal_of s (v_id v) = Some (v, rows)" using u(3) [OF j] r takes_back_reverses by blast
    have "\<not> reversed_in (journal_of s) v"
    proof
      assume "reversed_in (journal_of s) v"
      then obtain k q p where q: "journal_of s k = Some (q, p)" "reverses q v" unfolding reversed_in_def by blast
      have "k \<notin> v_id ` set (activeClosingRunVouchers s year)"
      proof
        assume "k \<in> v_id ` set (activeClosingRunVouchers s year)"
        then obtain w where "w \<in> set (activeClosingRunVouchers s year)" "v_id w = k" by blast
        with q(1) have "\<not> isReversalReference (v_ref q)" by (auto simp: in_closing_run_iff [OF assms(1)])
        with reverses_reference [OF q(2)] show False by blast
      qed
      from u(1) [OF this q(1)] q(2) nr show False unfolding reversed_in_def by blast
    qed
    then have "v \<in> set (activeClosingRunVouchers s year)" using j0 y r by (auto simp: in_closing_run_iff [OF assms(1)])
    from u(2) [OF this j0] j have "\<exists>k r q. journal_of s' k = Some (r, q) \<and> takes_back v rows r q"
      by (auto simp: taken_back_def split: if_splits)
    with nr show False using takes_back_reverses unfolding reversed_in_def by blast
  qed
  then show ?thesis by (metis last_in_set)
qed

lemma sort_Nil: "sort xs = [] \<longleftrightarrow> xs = []"
  by (metis length_0_conv length_sort)

lemma closed_period: "year_closed s y \<Longrightarrow> \<exists>p \<in> set (ld_periods s). fp_year p = y \<and> fp_closed p"
  by (auto simp: year_closed_def period_of_def dest: find_SomeD split: option.splits)

context decimal_js begin

lemma reopen_exact:
  assumes "books_ok s" "isStorageDate (le_today E)" "reopenFiscalYear L E p s = Inr ((year, voided), s')"
  shows "year_closed s year \<and> (\<forall>y > year. \<not> year_closed s y) \<and> year_closed s' = (year_closed s)(year := False) \<and> books_ok s' \<and>
    map fst voided = map v_id (activeClosingRunVouchers s year) \<and>
    run_undone (journal_of s) (ld_next_id s) (activeClosingRunVouchers s year) (journal_of s') \<and> activeClosingRunVouchers s' year = []"
proof -
  let ?s1 = "markOpen year s"
  note a = assms(3) [unfolded reopenFiscalYear_def Let_def res_bind_Inr case_prod_unfold]
  from a have lock: "lockForReopen year s = Inr ()"
    and later: "filter (\<lambda>q. fp_year q > year \<and> fp_closed q) (ld_periods s) = []"
    and f: "fold_res (reopen_void L E p) (activeClosingRunVouchers ?s1 year) ([], ?s1) = Inr (voided, s')"
    by (auto simp: res_bind_Inr sort_Nil split: if_splits)
  have run: "activeClosingRunVouchers ?s1 year = activeClosingRunVouchers s year"
    by (simp add: activeClosingRunVouchers_def in_closing_run_def cong: filter_cong)
  have wf: "ledger_wf s" using assms(1) by (simp add: books_ok_def)
  have b1: "books_ok ?s1" by (rule books_markOpen [OF assms(1)])
  have "distinct (map v_id (filter (in_closing_run s year) (ld_vouchers s)))" by (rule distinct_map_filter [OF ledger_wfD(1) [OF wf]])
  then have dist: "distinct (map v_id (activeClosingRunVouchers s year))"
    unfolding activeClosingRunVouchers_def rev_map [symmetric] distinct_rev
    by (metis distinct_map distinct_sort set_sort)
  have mem: "run_member (journal_of ?s1) v" if "v \<in> set (activeClosingRunVouchers s year)" for v
    using that by (auto simp: run_member_def in_closing_run_iff [OF wf])
  note r = reopen_fold [OF f [unfolded run] b1 assms(2) dist mem]
  then have ref: "refines ?s1 s'" and undone: "run_undone (journal_of s) (ld_next_id s) (activeClosingRunVouchers s year) (journal_of s')"
    by simp_all
  have "books_ok s'" by (rule refines_ok [OF ref b1])
  moreover have "\<not> year_closed s y" if "y > year" for y
    using later that closed_period [of s y] by (auto simp: filter_empty_conv)
  moreover have "year_closed s' = (year_closed s)(year := False)"
    using ref year_closed_markOpen by (simp add: refines_def)
  ultimately show ?thesis
    using lock r undone run_undone_empty [OF wf _ undone] by (simp add: lockForReopen_def res_guard_Inr books_ok_def)
qed

end
end
