(* ===== verification/FiscalClaims.thy ===== *)
theory FiscalClaims
  imports FiscalYear VoucherExample
begin

text \<open>
  The properties of fiscal years: reopening takes back exactly the vouchers of the closing.
\<close>

section \<open>Reopening\<close>

text \<open>
  C13: reopening a fiscal year. Only the last closed year reopens, and no other year changes. Of the vouchers in effect that
  the closing of the year issued, a draft is removed and every other one stays beside one approved reversal of the same day and
  year that books the opposite on every account; all other vouchers are as they were, nothing else is posted, and afterwards
  nothing of the closing is in effect.
\<close>

theorem reopening_takes_back_closing:
  assumes "decimal_js L" "books_ok s" "isStorageDate (le_today E)" "reopenFiscalYear L E p s = Inr ((year, voided), s')"
  shows "year_closed s year \<and> (\<forall>y > year. \<not> year_closed s y) \<and> year_closed s' = (year_closed s)(year := False) \<and>
    map fst voided = map v_id (activeClosingRunVouchers s year) \<and>
    (\<forall>v \<in> set (activeClosingRunVouchers s year). \<forall>rows. journal_of s (v_id v) = Some (v, rows) \<longrightarrow> taken_back (journal_of s') v rows) \<and>
    (\<forall>i e. i \<notin> v_id ` set (activeClosingRunVouchers s year) \<longrightarrow> journal_of s i = Some e \<longrightarrow> journal_of s' i = Some e) \<and>
    (\<forall>i e. journal_of s' i = Some e \<longrightarrow> journal_of s i = Some e \<or>
      (\<exists>v \<in> set (activeClosingRunVouchers s year). \<exists>rows. journal_of s (v_id v) = Some (v, rows) \<and> takes_back v rows (fst e) (snd e))) \<and>
    activeClosingRunVouchers s' year = []"
proof -
  note r = decimal_js.reopen_exact [OF assms]
  then have u: "run_undone (journal_of s) (ld_next_id s) (activeClosingRunVouchers s year) (journal_of s')" by blast
  have "journal_of s i = Some e \<or>
      (\<exists>v \<in> set (activeClosingRunVouchers s year). \<exists>rows. journal_of s (v_id v) = Some (v, rows) \<and> takes_back v rows (fst e) (snd e))"
    if "journal_of s' i = Some e" for i e
    using run_undoneD(3) [OF u that] by auto
  then show ?thesis using r run_undoneD(1,2) [OF u] by blast
qed

text \<open>A year 1402 that was closed with one voucher.\<close>

definition run_data :: create_data where
  "run_data = example_data\<lparr>cd_date := DateText ''2024-03-19'', cd_type := Some ''closing'', cd_status := Some VApproved,
    cd_ref := Some ''CLOSE-TEMP-1402'', cd_year := Some 1402\<rparr>"

definition run_voucher :: voucher where
  "run_voucher = (new_voucher ref_lib run_data ''2024-03-19'' 1 250 250 '''')\<lparr>v_id := 1\<rparr>"

definition run_books :: ledger_db where
  "run_books = (ensureRow 1402 empty_books)\<lparr>ld_next_number := 2, ld_next_id := 2, ld_vouchers := [run_voucher], ld_items := example_items\<rparr>"

definition closed_books :: ledger_db where
  "closed_books = markClosed 1402 (Some 1) (Some ''admin'') run_books"

lemma run_date: "isStorageDate ''2024-03-19''" "book_year ''2024-03-19'' = 1402"
  by code_simp+

lemma run_data_simps [simp]:
  "cd_items run_data = cd_items example_data" "cd_manual_entry run_data = False" "cd_currency run_data = Some ''IRR''"
  "cd_date run_data = DateText ''2024-03-19''" "cd_control run_data = None" "cd_status run_data = Some VApproved" "cd_ref run_data = Some ''CLOSE-TEMP-1402''"
  by (simp_all add: run_data_def example_data_def)

lemma run_voucher_simps [simp]:
  "v_id run_voucher = 1" "v_number run_voucher = 1" "v_date run_voucher = ''2024-03-19''" "v_status run_voucher = VApproved"
  "v_deleted run_voucher = False" "v_document run_voucher = None" "v_payroll run_voucher = None" "v_year run_voucher = Some 1402"
  "v_ref run_voucher = ''CLOSE-TEMP-1402''" "v_ref_id run_voucher = None" "v_debit run_voucher = 250" "v_credit run_voucher = 250"
  "v_type run_voucher = ''closing''"
  by (simp_all add: run_voucher_def new_voucher_def run_data_def example_data_def trim_or_def js_trim_def js_space_def str_or_def id_or_def money4_def)

lemma run_created: "createJournalVoucher ref_lib example_env run_data empty_books = Inr (1, run_books)"
proof -
  let ?s = "ensureRow 1402 empty_books"
  have o: "ld_next_id ?s = 1" "ld_next_number ?s = 1" "ld_vouchers ?s = []" "ld_items ?s = []" and
    e: "ld_next_id empty_books = 1" "ld_next_number empty_books = 1" "ld_vouchers empty_books = []" "ld_items empty_books = []"
    by (simp_all add: empty_books_def)
  have n: "length (cd_items example_data) = 2" by (simp add: example_data_simps)
  have "create_write ref_lib example_env run_data ''2024-03-19'' (250, 250) '''' (cd_items example_data) ?s = Inr (1, run_books)"
    by (simp add: create_write_def getNextVoucherNumber_def Let_def insert_voucher_def o e insertVoucherItems_eq
      run_books_def run_voucher_def example_items_def)
  moreover have "assertOpen example_env ''2024-03-19'' empty_books = Inr ?s"
    by (simp add: assertOpen_stored run_date year_closed_def period_of_def empty_books_def)
  ultimately show ?thesis
    using date_or_today_stored_text [OF run_date(1)]
    by (simp add: createJournalVoucher_def n example_rows checked_rows_def manual_checks_def)
qed

lemma run_create_ok: "create_ok run_data"
  using example_create_ok
  by (simp add: create_ok_def example_data_simps)
    (simp add: trim_or_def js_trim_def js_space_def isReversalReference_def REVERSAL_REFERENCE_PREFIXES_def starts_with_def)

lemma run_books_simps [simp]:
  "ld_vouchers run_books = [run_voucher]" "ld_items run_books = example_items" "ld_next_id run_books = 2" "ld_next_number run_books = 2"
  "ld_periods run_books = [\<lparr>fp_year = 1402, fp_closed = False, fp_closed_by = None, fp_voucher = None\<rparr>]" "ld_workflows run_books = []"
  by (simp_all add: run_books_def empty_books_def ensureRow_def period_of_def)

lemma run_books_ok: "books_ok run_books"
  using refines_ok [OF ref.create_refines [OF empty_books_ok _ run_create_ok run_created] empty_books_ok] example_date by simp

lemma closed_books_simps [simp]:
  "ld_vouchers closed_books = [run_voucher]" "ld_items closed_books = example_items" "ld_next_id closed_books = 2" "ld_next_number closed_books = 2"
  "ld_periods closed_books = [\<lparr>fp_year = 1402, fp_closed = True, fp_closed_by = Some ''admin'', fp_voucher = Some 1\<rparr>]"
  "ld_workflows closed_books = []"
  by (simp_all add: closed_books_def markClosed_def period_of_def update_rows_def str_or_def)


lemma closed_books_ok: "books_ok closed_books"
proof -
  have j: "journal_of closed_books = journal_of run_books" by (rule journal_cong) simp_all
  have "ledger_wf closed_books"
    by (rule wf_cong [of run_books]) (use run_books_ok in \<open>simp_all add: books_ok_def\<close>)
  moreover have "refs_ok closed_books" by (rule refs_cong [of run_books]) (use run_books_ok in \<open>simp_all add: books_ok_def\<close>)
  ultimately show ?thesis using run_books_ok j by (simp add: books_ok_def)
qed

definition run_reopening :: reopen_params where
  "run_reopening = \<lparr>ro_year = ''1402'', ro_reason = Some ''late'', ro_user = Some 1, ro_username = None\<rparr>"

definition run_reversal :: voucher where
  "run_reversal = (reversal_header ref_lib run_voucher ''2024-03-19'' ''closing'' (Some 1402) ''REV-V1'' (250, 250) (Some 1) None 2)\<lparr>v_id := 2\<rparr>"

definition reopened_books :: ledger_db where
  "reopened_books = (markOpen 1402 closed_books)\<lparr>ld_vouchers := [run_voucher, run_reversal], ld_next_id := 3, ld_next_number := 3,
    ld_items := example_items @ map (reversed_item ref_lib 2) (enumerate 0 (ordered_items closed_books 1))\<rparr>"

lemma run_reversed:
  "voidSourceVoucher ref_lib example_env \<lparr>rp_voucher = 1, rp_date = DateText ''2024-03-19'', rp_user = Some 1, rp_username = None,
     rp_reversal_of_reversal = False, rp_year_end = True, rp_manual_entry = False, rp_may_adjust = False\<rparr> (markOpen 1402 closed_books) =
    Inr (VoidReversed 2, reopened_books)"
proof -
  let ?s = "markOpen 1402 closed_books"
  have op: "year_closed ?s 1402 = False" "ensureRow 1402 ?s = ?s"
    by (simp_all add: markOpen_def year_closed_def period_of_def ensureRow_def update_rows_def)
  have w: "ld_workflows ?s = []" by (simp add: markOpen_def)
  have r: "rev_ref run_voucher = ''REV-V1''" by (simp add: rev_ref_def show_1)
  have x: "expected_ref run_voucher = ''REV-V1''" by (simp add: expected_ref_def reversal_of_original_def starts_with_def r)
  have li: "live_items ?s (Suc 0) = example_items" by (rule example_items_of(2)) simp
  have rows: "ordered_items ?s (Suc 0) \<noteq> []" "ordered_items ?s (Suc 0) = ordered_items closed_books 1"
    "ordered_items closed_books (Suc 0) \<noteq> []"
    by (simp_all add: ordered_items_def li example_items_of) (simp_all add: example_items_def example_data_def)
  have src: "v_document (reversal_header ref_lib v d t y ref tot u un num) = None" "v_payroll (reversal_header ref_lib v d t y ref tot u un num) = None"
    for v d t y ref tot u un num by (simp_all add: reversal_header_def)
  have g: "reversal_guards example_env \<lparr>rp_voucher = Suc 0, rp_date = DateText ''2024-03-19'', rp_user = Some (Suc 0), rp_username = None,
     rp_reversal_of_reversal = False, rp_year_end = True, rp_manual_entry = False, rp_may_adjust = False\<rparr> run_voucher ?s = Inr ()"
    by (simp add: reversal_guards_def res_guard_def reversal_of_original_def starts_with_def
      x findActiveReversal_def active_reversal_of_def)
  show ?thesis
    by (simp add: voidSourceVoucher_def reverseVoucher_def live_voucher_def g rows res_guard_def date_or_today_stored_text run_date
      assertOpen_stored op getNextVoucherNumber_def Let_def insert_voucher_def same_source_def src x insertVoucherItems_eq
      terminateVoucherWorkflows_def reopened_books_def run_reversal_def w)
qed

lemma run_reopened: "reopenFiscalYear ref_lib example_env run_reopening closed_books = Inr ((1402, [(1, VoidReversed 2)]), reopened_books)"
proof -
  have d: "resolveFiscalClosingDates ''1402'' NoDate NoDate =
    Inr \<lparr>cl_year = 1402, cl_start = ''2023-03-21'', cl_closing = ''2024-03-19'', cl_opening = ''2024-03-20''\<rparr>" by code_simp
  have run: "activeClosingRunVouchers (markOpen 1402 closed_books) 1402 = [run_voucher]"
    by (simp add: activeClosingRunVouchers_def in_closing_run_def active_reversal_of_def isReversalReference_def
      REVERSAL_REFERENCE_PREFIXES_def starts_with_def)
  have c: "lockForReopen 1402 closed_books = Inr ()" by (simp add: lockForReopen_def res_guard_def year_closed_def period_of_def)
  have t: "trim_or (Some ''late'') = ''late''" by (simp add: trim_or_def js_trim_def js_space_def)
  show ?thesis
    using run_reversed by (simp add: reopenFiscalYear_def run_reopening_def d run c t reopen_void_def)
qed

lemma reopening_takes_back_closing_witness:
  "reopenFiscalYear ref_lib example_env run_reopening closed_books = Inr ((1402, [(1, VoidReversed 2)]), reopened_books) \<and>
   \<not> year_closed reopened_books 1402 \<and> taken_back (journal_of reopened_books) run_voucher example_items"
proof -
  have t: "isStorageDate (le_today example_env)" by (simp add: example_date)
  have run: "run_voucher \<in> set (activeClosingRunVouchers closed_books 1402)"
    by (simp add: activeClosingRunVouchers_def in_closing_run_def active_reversal_of_def isReversalReference_def
      REVERSAL_REFERENCE_PREFIXES_def starts_with_def)
  have j: "journal_of closed_books (v_id run_voucher) = Some (run_voucher, example_items)"
    by (simp add: journal_of_def live_voucher_def example_items_of)
  show ?thesis
    using reopening_takes_back_closing [OF ref.decimal_js_axioms closed_books_ok t run_reopened] run j run_reopened by simp
qed
end
