(* ===== verification/TrialBalance.thy ===== *)
theory TrialBalance
  imports FiscalYear
begin

text \<open>
  The trial balance (\<open>services/accounting/accountingReport.service.ts\<close>, \<open>trialBalanceDetail.ts\<close>): the rows of
  approved and permanent vouchers grouped as the query groups them, added up per account and carried up the chart of
  accounts, and per detail. The levels of one kind of account and the detail level are modelled; the tree
  shows the same numbers nested. Collations (the \<open>ORDER BY\<close> of the database, \<open>localeCompare\<close> of the runtime) are
  fields of the environment, and no number depends on them.
\<close>

section \<open>Dates\<close>

text \<open>\<open>/^(\d{4})[-/](\d{1,2})[-/](\d{1,2})/\<close>.\<close>

definition date_start :: "string \<Rightarrow> (int \<times> int \<times> int) option" where
  "date_start s =
    (case take_digits 4 s of
       Some (y, c1 # s1) \<Rightarrow>
         if \<not> is_separator c1 then None
         else (case one_or_two s1 of
           Some (m, c2 # s2) \<Rightarrow>
             if \<not> is_separator c2 then None
             else (case one_or_two s2 of Some (d, _) \<Rightarrow> Some (number_of y, number_of m, number_of d) | None \<Rightarrow> None)
         | _ \<Rightarrow> None)
     | _ \<Rightarrow> None)"

definition normalizeDateToIso :: "string \<Rightarrow> string option" where
  "normalizeDateToIso dateLike =
    (let s = js_trim dateLike
     in if s = '''' then None
        else (case date_start s of
          Some (y, m, d) \<Rightarrow>
            if 1300 \<le> y \<and> y \<le> 1500 then
              (let (gy, gm, gd) = clock_jalaliToGregorian y m d in Some (date_text ''-'' gy gm gd))
            else Some (date_text ''-'' y m d)
        | None \<Rightarrow>
            (case take_digits 4 s of
               Some (ds, []) \<Rightarrow>
                 if 1300 \<le> number_of ds \<and> number_of ds \<le> 1500 then
                   (let (gy, gm, gd) = clock_jalaliToGregorian (number_of ds) 12 29 in Some (date_text ''-'' gy gm gd))
                 else Some s
             | _ \<Rightarrow> Some (take 10 s))))"

section \<open>The environment\<close>

text \<open>
  Beside the tables the voucher service reads: cheques with their numbers, items with name and code, the items of
  opening vouchers, the two collations, and the accounts that the account mapping resolves or creates for the closing.
\<close>

record trial_env =
  te_books :: ledger_env
  te_cheques :: "(int \<times> string) list"
  te_items :: "(int \<times> string \<times> string) list"
  te_openings :: "(nat \<times> int) list"
  te_order :: "string \<Rightarrow> string \<Rightarrow> bool"
  te_locale :: "string \<Rightarrow> string \<Rightarrow> bool"
  te_summary :: int
  te_retained :: int

fun insert_by :: "('k \<Rightarrow> 'k \<Rightarrow> bool) \<Rightarrow> ('a \<Rightarrow> 'k) \<Rightarrow> 'a \<Rightarrow> 'a list \<Rightarrow> 'a list" where
  "insert_by le key x [] = [x]"
| "insert_by le key x (y # ys) = (if le (key x) (key y) then x # y # ys else y # insert_by le key x ys)"

definition sort_by :: "('k \<Rightarrow> 'k \<Rightarrow> bool) \<Rightarrow> ('a \<Rightarrow> 'k) \<Rightarrow> 'a list \<Rightarrow> 'a list" where
  "sort_by le key xs = foldr (insert_by le key) xs []"

definition getAllAccounts :: "trial_env \<Rightarrow> account_row list" where
  "getAllAccounts E = sort_by (te_order E) ac_code (filter (\<lambda>a. \<not> ac_deleted a) (le_accounts (te_books E)))"

definition account_of :: "trial_env \<Rightarrow> int \<Rightarrow> account_row option" where
  "account_of E i = List.find (\<lambda>a. ac_id a = i) (getAllAccounts E)"

section \<open>The rows of the query\<close>

definition reported :: "voucher \<Rightarrow> bool" where
  "reported v \<longleftrightarrow> \<not> v_deleted v \<and> (v_status v = VApproved \<or> v_status v = VPermanent)"

definition posted_rows :: "ledger_db \<Rightarrow> (voucher \<times> vitem) list" where
  "posted_rows s = concat (map (\<lambda>v. map (Pair v) (live_items s (v_id v))) (filter reported (ld_vouchers s)))"

definition voucherItemCurrency :: "voucher \<Rightarrow> vitem \<Rightarrow> string" where
  "voucherItemCurrency v x = js_upper (str_or (Some (vi_currency x)) (str_or (Some (v_currency v)) ''IRR''))"

definition voucherItemRate :: "vitem \<Rightarrow> rat" where
  "voucherItemRate x = (if vi_rate x = 0 then 1 else vi_rate x)"

definition yearEndClosingVoucher :: "voucher \<Rightarrow> bool" where
  "yearEndClosingVoucher v \<longleftrightarrow> v_type v = ''closing'' \<and> v_year v \<noteq> None"

record group_key =
  gk_date :: string
  gk_closing :: bool
  gk_currency :: string
  gk_account :: int
  gk_dtype :: string
  gk_did :: "int option"
  gk_dname :: string
  gk_module :: string
  gk_cheque :: "nat option"
  gk_opening :: "nat option"

definition group_of :: "voucher \<times> vitem \<Rightarrow> group_key" where
  "group_of = (\<lambda>(v, x).
    \<lparr>gk_date = v_date v, gk_closing = yearEndClosingVoucher v, gk_currency = voucherItemCurrency v x, gk_account = vi_account x,
     gk_dtype = vi_dtype x, gk_did = vi_did x, gk_dname = vi_dname x, gk_module = v_module v, gk_cheque = v_cheque v,
     gk_opening = (if v_module v = ''item_opening'' then Some (v_id v) else None)\<rparr>)"

record trial_group =
  tg_key :: group_key
  tg_debit :: rat
  tg_credit :: rat
  tg_debit_irr :: rat
  tg_credit_irr :: rat

definition groupedItems :: "ledger_db \<Rightarrow> trial_group list" where
  "groupedItems s =
    map (\<lambda>k. let rows = map snd (filter (\<lambda>r. group_of r = k) (posted_rows s))
      in \<lparr>tg_key = k, tg_debit = sum_list (map vi_debit rows), tg_credit = sum_list (map vi_credit rows),
          tg_debit_irr = sum_list (map (\<lambda>x. half_up (vi_debit x * voucherItemRate x) 0) rows),
          tg_credit_irr = sum_list (map (\<lambda>x. half_up (vi_credit x * voucherItemRate x) 0) rows)\<rparr>)
      (remdups (map group_of (posted_rows s)))"

section \<open>Turnovers\<close>

record turnover =
  tu_initial_debit :: rat
  tu_initial_credit :: rat
  tu_period_debit :: rat
  tu_period_credit :: rat

definition emptyTurnover :: turnover where
  "emptyTurnover = \<lparr>tu_initial_debit = 0, tu_initial_credit = 0, tu_period_debit = 0, tu_period_credit = 0\<rparr>"

definition addTurnover :: "decimal_lib \<Rightarrow> bool \<Rightarrow> rat \<Rightarrow> rat \<Rightarrow> turnover \<Rightarrow> turnover" where
  "addTurnover L isBeforeStart d c t =
    (if isBeforeStart then t\<lparr>tu_initial_debit := fin_add L (tu_initial_debit t) d, tu_initial_credit := fin_add L (tu_initial_credit t) c\<rparr>
     else t\<lparr>tu_period_debit := fin_add L (tu_period_debit t) d, tu_period_credit := fin_add L (tu_period_credit t) c\<rparr>)"

text \<open>A JavaScript \<open>Map\<close> in insertion order, and the change of one entry.\<close>

fun map_update :: "'k \<Rightarrow> ('v option \<Rightarrow> 'v) \<Rightarrow> ('k \<times> 'v) list \<Rightarrow> ('k \<times> 'v) list" where
  "map_update k f [] = [(k, f None)]"
| "map_update k f ((j, v) # m) = (if j = k then (j, f (Some v)) # m else (j, v) # map_update k f m)"

definition accumulate :: "decimal_lib \<Rightarrow> ('k \<times> bool \<times> rat \<times> rat) list \<Rightarrow> ('k \<times> turnover) list" where
  "accumulate L entries = foldl (\<lambda>m (k, before, d, c). map_update k
    (\<lambda>t. addTurnover L before d c (case t of None \<Rightarrow> emptyTurnover | Some t \<Rightarrow> t)) m) [] entries"

record trial_params =
  tb_start :: "string option"
  tb_end :: "string option"
  tb_currency :: "string option"
  tb_include_closing :: bool
  tb_closing_from_start :: bool

definition iso_or_none :: "string option \<Rightarrow> string option" where
  "iso_or_none d = (case d of None \<Rightarrow> None | Some t \<Rightarrow> normalizeDateToIso t)"

definition yearEndClosingCutoff :: "bool \<Rightarrow> string option \<Rightarrow> string option" where
  "yearEndClosingCutoff includeClosing from_day = (if includeClosing then None else from_day)"

definition closing_cutoff :: "trial_params \<Rightarrow> string option" where
  "closing_cutoff P = yearEndClosingCutoff (tb_include_closing P)
    (case (if tb_closing_from_start P then iso_or_none (tb_start P) else None) of
       Some d \<Rightarrow> Some d | None \<Rightarrow> iso_or_none (tb_end P))"

text \<open>What a group adds, or \<open>None\<close> when the loop goes on without it.\<close>

definition counted :: "trial_params \<Rightarrow> trial_group \<Rightarrow> (bool \<times> rat \<times> rat) option" where
  "counted P g =
    (let k = tg_key g;
         isBaseView = (case tb_currency P of None \<Rightarrow> True | Some c \<Rightarrow> c = '''' \<or> c = ''all'');
         convert = (isBaseView \<and> gk_currency k \<noteq> ''IRR'');
         d = (if convert then tg_debit_irr g else tg_debit g);
         c = (if convert then tg_credit_irr g else tg_credit g);
         vDate = (case normalizeDateToIso (gk_date k) of Some t \<Rightarrow> t | None \<Rightarrow> take 10 (gk_date k));
         isBeforeStart = (case iso_or_none (tb_start P) of None \<Rightarrow> False | Some b \<Rightarrow> js_less vDate b);
         isAfterEnd = (case iso_or_none (tb_end P) of None \<Rightarrow> False | Some e \<Rightarrow> js_less e vDate);
         cut = (case closing_cutoff P of None \<Rightarrow> False | Some f \<Rightarrow> gk_closing k \<and> \<not> js_less vDate f)
     in if \<not> isBaseView \<and> Some (gk_currency k) \<noteq> map_option js_upper (tb_currency P) then None
        else if isAfterEnd \<or> cut then None
        else Some (isBeforeStart, d, c))"

definition counted_groups :: "trial_params \<Rightarrow> ledger_db \<Rightarrow> (group_key \<times> bool \<times> rat \<times> rat) list" where
  "counted_groups P s = List.map_filter (\<lambda>g. map_option (Pair (tg_key g)) (counted P g)) (groupedItems s)"

definition accountTurnover :: "decimal_lib \<Rightarrow> trial_params \<Rightarrow> ledger_db \<Rightarrow> (int \<times> turnover) list" where
  "accountTurnover L P s = accumulate L (map (\<lambda>(k, e). (gk_account k, e)) (counted_groups P s))"

lemma filter_length_le: "(\<And>x. q x \<Longrightarrow> p x) \<Longrightarrow> length (filter q xs) \<le> length (filter p xs)"
  by (induction xs) (auto simp: le_SucI)

lemma filter_length_less: "a \<in> set xs \<Longrightarrow> p a \<Longrightarrow> \<not> q a \<Longrightarrow> (\<And>x. q x \<Longrightarrow> p x) \<Longrightarrow> length (filter q xs) < length (filter p xs)"
  using filter_length_le [of q p] by (induction xs) (auto simp: less_Suc_eq_le intro: less_SucI)

text \<open>The account and those above it, each once: an old cycle of parents does not loop.\<close>

function climb :: "account_row list \<Rightarrow> int list \<Rightarrow> int option \<Rightarrow> int list" where
  "climb accounts climbed i =
    (case i of
       None \<Rightarrow> []
     | Some k \<Rightarrow>
         (case List.find (\<lambda>a. ac_id a = k) accounts of
            None \<Rightarrow> []
          | Some a \<Rightarrow> if k \<in> set climbed then [] else k # climb accounts (k # climbed) (id_or (ac_parent a))))"
  by pat_completeness auto

termination
proof (relation "measure (\<lambda>(accounts, climbed, _). length (filter (\<lambda>a. ac_id a \<notin> set climbed) accounts))")
  fix accounts :: "account_row list" and climbed :: "int list" and i k a
  assume a: "List.find (\<lambda>a. ac_id a = k) accounts = Some a" and k: "k \<notin> set climbed"
  have "a \<in> set accounts" "ac_id a = k" using find_SomeD [OF a] by simp_all
  then have "length (filter (\<lambda>a. ac_id a \<notin> set (k # climbed)) accounts) < length (filter (\<lambda>a. ac_id a \<notin> set climbed) accounts)"
    using k by (intro filter_length_less [of a]) auto
  then show "((accounts, k # climbed, id_or (ac_parent a)), (accounts, climbed, i))
      \<in> measure (\<lambda>(accounts, climbed, _). length (filter (\<lambda>a. ac_id a \<notin> set climbed) accounts))" by simp
qed simp

declare climb.simps [simp del]

definition aggTurnover :: "decimal_lib \<Rightarrow> trial_env \<Rightarrow> (int \<times> turnover) list \<Rightarrow> (int \<times> turnover) list" where
  "aggTurnover L E turnovers =
    accumulate L (concat (map (\<lambda>(i, t). concat (map (\<lambda>a.
      [(a, True, tu_initial_debit t, tu_initial_credit t), (a, False, tu_period_debit t, tu_period_credit t)])
      (climb (getAllAccounts E) [] (Some i)))) turnovers))"

section \<open>Rows\<close>

record balance_columns =
  bc_initial_debit :: rat
  bc_initial_credit :: rat
  bc_debit_turnover :: rat
  bc_credit_turnover :: rat
  bc_total_debit :: rat
  bc_total_credit :: rat
  bc_debit_balance :: rat
  bc_credit_balance :: rat

definition balanceColumns :: "decimal_lib \<Rightarrow> turnover \<Rightarrow> balance_columns" where
  "balanceColumns L t =
    (let totD = fin_add L (tu_initial_debit t) (tu_period_debit t);
         totC = fin_add L (tu_initial_credit t) (tu_period_credit t);
         diff = fin_subtract L totD totC;
         initDiff = fin_subtract L (tu_initial_debit t) (tu_initial_credit t);
         debit = (\<lambda>x. if x > 0 then fin_toNumber L x else 0);
         credit = (\<lambda>x. if x < 0 then fin_toNumber L (fin_abs x) else 0)
     in \<lparr>bc_initial_debit = debit initDiff, bc_initial_credit = credit initDiff,
         bc_debit_turnover = fin_toNumber L (tu_period_debit t), bc_credit_turnover = fin_toNumber L (tu_period_credit t),
         bc_total_debit = fin_toNumber L totD, bc_total_credit = fin_toNumber L totC,
         bc_debit_balance = debit diff, bc_credit_balance = credit diff\<rparr>)"

text \<open>A row of an account: the accounts of one level.\<close>

definition account_rows :: "decimal_lib \<Rightarrow> trial_env \<Rightarrow> string \<Rightarrow> trial_params \<Rightarrow> ledger_db \<Rightarrow> (account_row \<times> balance_columns) list" where
  "account_rows L E level P s =
    (let agg = aggTurnover L E (accountTurnover L P s)
     in map (\<lambda>a. (a, balanceColumns L (case map_of agg (ac_id a) of None \<Rightarrow> emptyTurnover | Some t \<Rightarrow> t)))
       (filter (\<lambda>a. ac_level a = level) (getAllAccounts E)))"

section \<open>Details\<close>

definition GENERAL_DETAIL_NAME :: string where
  "GENERAL_DETAIL_NAME = bytes [0xd8, 0xb3, 0xd8, 0xa7, 0xdb, 0x8c, 0xd8, 0xb1, 0x20, 0x2f, 0x20, 0xd8, 0xb9, 0xd9, 0x85, 0xd9, 0x88, 0xd9, 0x85, 0xdb, 0x8c]"

definition ITEM_OPENING_ROW_PREFIX :: string where
  "ITEM_OPENING_ROW_PREFIX = bytes [0xd9, 0x85, 0xd9, 0x88, 0xd8, 0xac, 0xd9, 0x88, 0xd8, 0xaf, 0xdb, 0x8c, 0x20, 0xd8, 0xa7, 0xd9, 0x88, 0xd9, 0x84, 0xdb, 0x8c, 0xd9, 0x87, 0x20]"

definition ENTITY_DETAIL_TYPES :: "string list" where
  "ENTITY_DETAIL_TYPES = [''customer'', ''supplier'', ''personnel'', ''project'', ''bank_account'']"

definition NAMED_LEGACY_TYPES :: "string list" where
  "NAMED_LEGACY_TYPES = [''customer'', ''supplier'', ''personnel'']"

definition isManualReferenceModule :: "string \<Rightarrow> bool" where
  "isManualReferenceModule m \<longleftrightarrow> m = '''' \<or> m = ''manual''"

text \<open>\<open>openingVoucherItems\<close>: the items joined to an opening voucher.\<close>

definition openingVoucherItems :: "trial_env \<Rightarrow> nat \<Rightarrow> (int \<times> string) list" where
  "openingVoucherItems E v = List.map_filter (\<lambda>(w, i). if w = v then map_option (\<lambda>(_, name, _). (i, name)) (List.find (\<lambda>(j, _). j = i) (te_items E)) else None)
    (te_openings E)"

definition itemOfOpeningRow :: "(int \<times> string) list \<Rightarrow> string \<Rightarrow> int option" where
  "itemOfOpeningRow voucherItems storedName =
    (let name = js_trim storedName
     in if voucherItems = [] \<or> \<not> starts_with ITEM_OPENING_ROW_PREFIX name then None
        else (case filter (\<lambda>(_, n). js_trim (ITEM_OPENING_ROW_PREFIX @ n) = name) voucherItems of
          [(i, _)] \<Rightarrow> Some i
        | _ \<Rightarrow> (case voucherItems of [(i, _)] \<Rightarrow> Some i | _ \<Rightarrow> None)))"

record detail_ref =
  dr_type :: string
  dr_id :: "int option"
  dr_stored :: string

definition trialBalanceDetailKey ::
  "int \<Rightarrow> string \<Rightarrow> int option \<Rightarrow> string \<Rightarrow> bool \<Rightarrow> (string \<times> int) option \<Rightarrow> string \<times> detail_ref" where
  "trialBalanceDetailKey accountId dtype did dname manualEntry stableRef =
    (let t = str_or (Some dtype) ''other'';
         i = (case did of Some n \<Rightarrow> if n > 0 then Some n else None | None \<Rightarrow> None);
         storedName = js_trim dname;
         key = (\<lambda>rest. show_nat (nat accountId) @ ''__'' @ rest)
     in case (if t \<in> set ENTITY_DETAIL_TYPES then i else None) of
          Some n \<Rightarrow> (key (t @ ''__'' @ show_nat (nat n)), \<lparr>dr_type = t, dr_id = Some n, dr_stored = storedName\<rparr>)
        | None \<Rightarrow>
            if storedName \<noteq> '''' \<and> (t \<in> set NAMED_LEGACY_TYPES \<or> manualEntry) then
              (key (t @ ''__name__'' @ storedName), \<lparr>dr_type = t, dr_id = None, dr_stored = storedName\<rparr>)
            else (case stableRef of
              Some (kind, n) \<Rightarrow> (key (kind @ ''__'' @ show_nat (nat n)),
                \<lparr>dr_type = kind, dr_id = Some n, dr_stored = (if storedName \<noteq> '''' then storedName else GENERAL_DETAIL_NAME)\<rparr>)
            | None \<Rightarrow> (key ''general'', \<lparr>dr_type = ''other'', dr_id = None, dr_stored = GENERAL_DETAIL_NAME\<rparr>)))"

definition detail_of :: "trial_env \<Rightarrow> group_key \<Rightarrow> string \<times> detail_ref" where
  "detail_of E k =
    (let openingItemId = (case gk_opening k of None \<Rightarrow> None | Some v \<Rightarrow> itemOfOpeningRow (openingVoucherItems E v) (gk_dname k));
         stableRef = (case id_or (gk_cheque k) of
           Some c \<Rightarrow> Some (''cheque'', int c)
         | None \<Rightarrow> (case id_or openingItemId of Some i \<Rightarrow> Some (''item'', i) | None \<Rightarrow> None))
     in trialBalanceDetailKey (gk_account k) (gk_dtype k) (gk_did k) (gk_dname k) (isManualReferenceModule (gk_module k)) stableRef)"

text \<open>\<open>currentDetailNames\<close> and \<open>detailDisplayName\<close>.\<close>

definition current_name :: "trial_env \<Rightarrow> string \<Rightarrow> int \<Rightarrow> string option" where
  "current_name E t i =
    (if t = ''customer'' \<or> t = ''supplier'' then map_option py_name (List.find (\<lambda>p. py_id p = i) (le_parties (te_books E)))
     else if t = ''personnel'' then map_option pe_full (List.find (\<lambda>p. pe_id p = i) (le_people (te_books E)))
     else if t = ''project'' then map_option voucherProjectLabel (List.find (\<lambda>p. pj_id p = i) (le_projects (te_books E)))
     else if t = ''bank_account'' then map_option bk_title (List.find (\<lambda>b. bk_id b = i) (le_banks (te_books E)))
     else if t = ''cheque'' then map_option (\<lambda>(_, n). bytes [0xda, 0x86, 0xda, 0xa9, 0x20] @ n) (List.find (\<lambda>(c, _). c = i) (te_cheques E))
     else if t = ''item'' then map_option (\<lambda>(_, name, code). ITEM_OPENING_ROW_PREFIX @ name @ '' ('' @ code @ '')'') (List.find (\<lambda>(c, _). c = i) (te_items E))
     else None)"

definition detailDisplayName :: "trial_env \<Rightarrow> detail_ref \<Rightarrow> string" where
  "detailDisplayName E ref =
    (let current = (case dr_id ref of None \<Rightarrow> '''' | Some i \<Rightarrow> trim_or (current_name E (dr_type ref) i))
     in if current \<noteq> '''' then current else if dr_stored ref \<noteq> '''' then dr_stored ref else GENERAL_DETAIL_NAME)"

text \<open>The entries of the detail map: the account and reference of the first group of each key, and its turnover.\<close>

definition detailed_entries :: "trial_env \<Rightarrow> (group_key \<times> bool \<times> rat \<times> rat) list \<Rightarrow> (string \<times> bool \<times> rat \<times> rat) list" where
  "detailed_entries E groups = map (\<lambda>(k, e). (fst (detail_of E k), e)) groups"

definition first_of_detail :: "trial_env \<Rightarrow> (group_key \<times> bool \<times> rat \<times> rat) list \<Rightarrow> string \<Rightarrow> group_key option" where
  "first_of_detail E groups dKey = map_option fst (List.find (\<lambda>(k, _). fst (detail_of E k) = dKey) groups)"

record detailed_row =
  de_account :: int
  de_code :: string
  de_name :: string
  de_type :: string
  de_dtype :: string
  de_did :: "int option"
  de_dname :: string
  de_columns :: balance_columns

definition detailed_row_of :: "decimal_lib \<Rightarrow> trial_env \<Rightarrow> group_key \<Rightarrow> turnover \<Rightarrow> detailed_row" where
  "detailed_row_of L E k t =
    (let ref = snd (detail_of E k); parentAcc = account_of E (gk_account k); name = detailDisplayName E ref;
         code = (case parentAcc of Some a \<Rightarrow> str_or (Some (ac_code a)) ''0000'' | None \<Rightarrow> ''0000'');
         parentName = (case parentAcc of Some a \<Rightarrow> str_or (Some (ac_name a)) (bytes [0xd8, 0xad, 0xd8, 0xb3, 0xd8, 0xa7, 0xd8, 0xa8, 0x20, 0xd9, 0x85, 0xd8, 0xb9, 0xdb, 0x8c, 0xd9, 0x86]) | None \<Rightarrow> bytes [0xd8, 0xad, 0xd8, 0xb3, 0xd8, 0xa7, 0xd8, 0xa8, 0x20, 0xd9, 0x85, 0xd8, 0xb9, 0xdb, 0x8c, 0xd9, 0x86])
     in \<lparr>de_account = gk_account k, de_code = code @ ''-'' @ (case id_or (dr_id ref) of Some i \<Rightarrow> show_nat (nat i) | None \<Rightarrow> ''D''),
         de_name = name @ '' ('' @ parentName @ '')'',
         de_type = (case parentAcc of Some a \<Rightarrow> str_or (Some (ac_type a)) ''asset'' | None \<Rightarrow> ''asset''),
         de_dtype = dr_type ref, de_did = dr_id ref, de_dname = name, de_columns = balanceColumns L t\<rparr>)"

definition detailed_rows_of :: "decimal_lib \<Rightarrow> trial_env \<Rightarrow> (group_key \<times> bool \<times> rat \<times> rat) list \<Rightarrow> detailed_row list" where
  "detailed_rows_of L E groups =
    sort_by (te_locale E) de_code
      (List.map_filter (\<lambda>(dKey, t). map_option (\<lambda>k. detailed_row_of L E k t) (first_of_detail E groups dKey))
        (accumulate L (detailed_entries E groups)))"

definition detailed_rows :: "decimal_lib \<Rightarrow> trial_env \<Rightarrow> trial_params \<Rightarrow> ledger_db \<Rightarrow> detailed_row list" where
  "detailed_rows L E P s = detailed_rows_of L E (counted_groups P s)"

end
