(* ===== verification/YearClosing.thy ===== *)
theory YearClosing
  imports TrialBalance
begin

text \<open>
  Closing a fiscal year (\<open>services/accounting/fiscalYear.service.ts\<close>, \<open>closingRowDetail.ts\<close>): the preview, and the
  closing with its vouchers, which zero the temporary accounts, carry the profit to retained earnings, close the
  balance sheet and open the next year. Two closings of one year never run at once (an advisory
  lock), so the lock is always acquired here.
\<close>

section \<open>The preview\<close>

definition draft_in_year :: "trial_env \<Rightarrow> closing_dates \<Rightarrow> voucher \<Rightarrow> bool" where
  "draft_in_year E d v \<longleftrightarrow>
    \<not> v_deleted v \<and> v_status v = VDraft \<and>
    ((\<not> js_less (v_date v) (cl_start d) \<and> js_less (v_date v) (cl_opening d)) \<or> iso_prefix (v_date v) = None \<or> jalali_prefix (v_date v) \<noteq> None) \<and>
    yearOf (te_books E) (v_date v) = cl_year d"

definition findDraftVouchersOfYear :: "trial_env \<Rightarrow> closing_dates \<Rightarrow> ledger_db \<Rightarrow> voucher list" where
  "findDraftVouchersOfYear E d s =
    sort_by (\<lambda>(a, m) (b, n). js_less a b \<or> (a = b \<and> m \<le> n)) (\<lambda>v. (v_date v, v_number v)) (filter (draft_in_year E d) (ld_vouchers s))"

definition netOf :: "decimal_lib \<Rightarrow> rat \<Rightarrow> rat \<Rightarrow> rat" where
  "netOf L left right = fin_toNumber L (fin_round L (fin_subtract L left right) 4)"

record closing_account =
  ca_account :: account_row
  ca_balance :: rat
  ca_debit :: bool
  ca_amount :: rat

definition temporary_type :: "string \<Rightarrow> bool" where
  "temporary_type t \<longleftrightarrow> t = ''revenue'' \<or> t = ''cost_of_sales'' \<or> t = ''expense''"

definition temporary_account :: "decimal_lib \<Rightarrow> account_row \<times> balance_columns \<Rightarrow> closing_account option" where
  "temporary_account L = (\<lambda>(a, c).
    (if \<not> temporary_type (ac_type a) then None
     else if ac_type a = ''revenue'' then
       (let netCredit = netOf L (bc_credit_turnover c) (bc_debit_turnover c)
        in if netCredit = 0 then None
           else Some \<lparr>ca_account = a, ca_balance = netCredit, ca_debit = (netCredit > 0), ca_amount = \<bar>netCredit\<bar>\<rparr>)
     else
       (let netDebit = netOf L (bc_debit_turnover c) (bc_credit_turnover c)
        in if netDebit = 0 then None
           else Some \<lparr>ca_account = a, ca_balance = netDebit, ca_debit = (\<not> netDebit > 0), ca_amount = \<bar>netDebit\<bar>\<rparr>)))"

definition permanent_account :: "decimal_lib \<Rightarrow> account_row \<times> balance_columns \<Rightarrow> closing_account option" where
  "permanent_account L = (\<lambda>(a, c).
    (if temporary_type (ac_type a) then None
     else if ac_type a = ''asset'' then
       (let bal = netOf L (bc_debit_balance c) (bc_credit_balance c)
        in if bal = 0 then None else Some \<lparr>ca_account = a, ca_balance = bal, ca_debit = (\<not> bal > 0), ca_amount = \<bar>bal\<bar>\<rparr>)
     else if ac_type a = ''liability'' \<or> ac_type a = ''equity'' then
       (let bal = netOf L (bc_credit_balance c) (bc_debit_balance c)
        in if bal = 0 then None else Some \<lparr>ca_account = a, ca_balance = bal, ca_debit = (bal > 0), ca_amount = \<bar>bal\<bar>\<rparr>)
     else None))"

record closing_preview =
  pv_temporary :: "closing_account list"
  pv_permanent :: "closing_account list"
  pv_revenues :: rat
  pv_cost_of_sales :: rat
  pv_expenses :: rat
  pv_temporary_debit :: rat
  pv_temporary_credit :: rat
  pv_net_profit :: rat
  pv_drafts :: "voucher list"
  pv_ended :: bool
  pv_earlier :: "int list"

definition closing_trial :: "string \<Rightarrow> trial_params" where
  "closing_trial endDate =
    \<lparr>tb_start = None, tb_end = Some endDate, tb_currency = None, tb_include_closing = True, tb_closing_from_start = False\<rparr>"

definition dec_sum :: "decimal_lib \<Rightarrow> rat list \<Rightarrow> rat" where
  "dec_sum L xs = foldl (fin_add L) 0 xs"

definition balances_of :: "(string \<Rightarrow> bool) \<Rightarrow> closing_account list \<Rightarrow> rat list" where
  "balances_of p accounts = map ca_balance (filter (\<lambda>t. p (ac_type (ca_account t))) accounts)"

definition amounts_of :: "bool \<Rightarrow> closing_account list \<Rightarrow> rat list" where
  "amounts_of debit accounts = map ca_amount (filter (\<lambda>t. ca_debit t = debit) accounts)"

text \<open>The preview at the resolved dates; \<open>getFiscalYearClosingPreview\<close> resolves them first.\<close>

definition preview_at :: "decimal_lib \<Rightarrow> trial_env \<Rightarrow> closing_dates \<Rightarrow> ledger_db \<Rightarrow> voucher_error + closing_preview" where
  "preview_at L E d s =
    (let draftVouchers = findDraftVouchersOfYear E d s
     in res_bind (isFiscalYearEnded (cl_year d) (le_today (te_books E))) (\<lambda>yearEnded.
        let earlierOpenYears = findEarlierOpenYears (te_books E) s (cl_year d);
            trial = account_rows L E ''subsidiary'' (closing_trial (cl_closing d)) s;
            temporary = List.map_filter (temporary_account L) trial;
            permanent = List.map_filter (permanent_account L) trial;
            revenues = dec_sum L (balances_of (\<lambda>t. t = ''revenue'') temporary);
            costs = dec_sum L (balances_of (\<lambda>t. t = ''cost_of_sales'') temporary);
            expenses = dec_sum L (balances_of (\<lambda>t. t = ''expense'') temporary);
            rounded = (\<lambda>x. fin_toNumber L (fin_round L x 4))
        in Inr \<lparr>pv_temporary = temporary, pv_permanent = permanent, pv_revenues = rounded revenues, pv_cost_of_sales = rounded costs,
             pv_expenses = rounded expenses, pv_temporary_debit = rounded (dec_sum L (amounts_of True temporary)),
             pv_temporary_credit = rounded (dec_sum L (amounts_of False temporary)),
             pv_net_profit = rounded (fin_subtract L (fin_subtract L revenues costs) expenses),
             pv_drafts = draftVouchers, pv_ended = yearEnded, pv_earlier = earlierOpenYears\<rparr>))"

definition getFiscalYearClosingPreview ::
  "decimal_lib \<Rightarrow> trial_env \<Rightarrow> string \<Rightarrow> date_input \<Rightarrow> date_input \<Rightarrow> ledger_db \<Rightarrow> voucher_error + closing_preview" where
  "getFiscalYearClosingPreview L E rawYear closingDate openingDate s =
    res_bind (resolveFiscalClosingDates rawYear closingDate openingDate) (\<lambda>d. preview_at L E d s)"

section \<open>The rows of the closing vouchers\<close>

definition closing_row :: "int \<Rightarrow> string \<Rightarrow> int option \<Rightarrow> string \<Rightarrow> rat \<Rightarrow> rat \<Rightarrow> vrow" where
  "closing_row account dtype did dname debit credit =
    \<lparr>br_debit = debit, br_credit = credit, br_currency = None, br_rate = None, vr_account = account, vr_dtype = Some dtype, vr_did = did,
     vr_dname = Some dname\<rparr>"

definition summary_fa :: string where
  "summary_fa = bytes [0xd8, 0xae, 0xd9, 0x84, 0xd8, 0xa7, 0xd8, 0xb5, 0xd9, 0x87, 0x20, 0xd8, 0xb3, 0xd9, 0x88, 0xd8, 0xaf, 0x20, 0xd9, 0x88, 0x20, 0xd8, 0xb2, 0xdb, 0x8c, 0xd8, 0xa7, 0xd9, 0x86]"

definition retained_fa :: string where
  "retained_fa = bytes [0xd8, 0xb3, 0xd9, 0x88, 0xd8, 0xaf, 0x20, 0xd8, 0xa7, 0xd9, 0x86, 0xd8, 0xa8, 0xd8, 0xa7, 0xd8, 0xb4, 0xd8, 0xaa, 0xd9, 0x87]"

definition retained_loss_fa :: string where
  "retained_loss_fa = bytes [0xd8, 0xb2, 0xdb, 0x8c, 0xd8, 0xa7, 0xd9, 0x86, 0x20, 0xd8, 0xa7, 0xd9, 0x86, 0xd8, 0xa8, 0xd8, 0xa7, 0xd8, 0xb4, 0xd8, 0xaa, 0xd9, 0x87]"

text \<open>Voucher 1: every temporary account back to zero, the difference to the summary account.\<close>

definition temporary_row :: "decimal_lib \<Rightarrow> closing_account \<Rightarrow> vrow" where
  "temporary_row L t =
    (let a = ca_account t; amt = fin_toNumber L (ca_amount t)
     in if ca_debit t then closing_row (ac_id a) ''other'' None (ac_name a) amt 0
        else closing_row (ac_id a) ''other'' None (ac_name a) 0 amt)"

definition temporary_items :: "decimal_lib \<Rightarrow> trial_env \<Rightarrow> closing_account list \<Rightarrow> vrow list" where
  "temporary_items L E temporary =
    (let diff = fin_subtract L (dec_sum L (amounts_of True temporary)) (dec_sum L (amounts_of False temporary))
     in map (temporary_row L) temporary @
       (if diff > 0 then [closing_row (te_summary E) ''other'' None summary_fa 0 (fin_toNumber L (fin_round L diff 4))]
        else if diff < 0 then [closing_row (te_summary E) ''other'' None summary_fa (fin_toNumber L (fin_round L (fin_abs diff) 4)) 0]
        else []))"

text \<open>Voucher 2: the profit or loss of the year to retained earnings.\<close>

definition profit_items :: "decimal_lib \<Rightarrow> trial_env \<Rightarrow> rat \<Rightarrow> vrow list" where
  "profit_items L E profit =
    (if profit > 0 then
       (let n = fin_toNumber L (fin_round L profit 4)
        in [closing_row (te_summary E) ''other'' None summary_fa n 0, closing_row (te_retained E) ''other'' None retained_fa 0 n])
     else
       (let n = fin_toNumber L (fin_round L (fin_abs profit) 4)
        in [closing_row (te_retained E) ''other'' None retained_loss_fa n 0, closing_row (te_summary E) ''other'' None summary_fa 0 n]))"

text \<open>Voucher 3: one row per detail with a balance. \<open>closingRowDetail\<close> names it.\<close>

definition closingRowDetail :: "detailed_row \<Rightarrow> string \<Rightarrow> string \<times> int option \<times> string" where
  "closingRowDetail r accountName =
    (let t = str_or (Some (de_dtype r)) ''other'';
         i = (case de_did r of Some n \<Rightarrow> if n > 0 then Some n else None | None \<Rightarrow> None);
         name = js_trim (de_dname r)
     in case (if t \<in> set ENTITY_DETAIL_TYPES then i else None) of
          Some n \<Rightarrow> (t, Some n, if name \<noteq> '''' then name else accountName)
        | None \<Rightarrow>
            if name \<noteq> '''' \<and> t \<in> set NAMED_LEGACY_TYPES then (t, None, name)
            else (''other'', None, if name \<noteq> '''' \<and> name \<noteq> GENERAL_DETAIL_NAME then name else accountName))"

definition permanent_row :: "decimal_lib \<Rightarrow> trial_env \<Rightarrow> detailed_row \<Rightarrow> vrow option" where
  "permanent_row L E r =
    (let (t, i, name) = closingRowDetail r (case account_of E (de_account r) of Some a \<Rightarrow> ac_name a | None \<Rightarrow> de_name r);
         row = closing_row (de_account r) t i name;
         rounded = (\<lambda>x. fin_toNumber L (fin_round L x 4));
         c = de_columns r
     in if de_type r = ''asset'' then
          (let bal = fin_subtract L (bc_debit_balance c) (bc_credit_balance c)
           in if bal > 0 then Some (row 0 (rounded bal)) else if bal < 0 then Some (row (rounded (fin_abs bal)) 0) else None)
        else if de_type r = ''liability'' \<or> de_type r = ''equity'' then
          (let bal = fin_subtract L (bc_credit_balance c) (bc_debit_balance c)
           in if bal > 0 then Some (row (rounded bal) 0) else if bal < 0 then Some (row 0 (rounded (fin_abs bal))) else None)
        else None)"

definition permanent_items :: "decimal_lib \<Rightarrow> trial_env \<Rightarrow> string \<Rightarrow> ledger_db \<Rightarrow> vrow list" where
  "permanent_items L E closingDate s = List.map_filter (permanent_row L E) (detailed_rows L E (closing_trial closingDate) s)"

text \<open>Voucher 4: the same rows with debit and credit swapped.\<close>

definition opening_row :: "vrow \<Rightarrow> vrow" where
  "opening_row r = r\<lparr>br_debit := br_credit r, br_credit := br_debit r\<rparr>"

section \<open>The closing\<close>

record closing_params =
  cg_year :: string
  cg_closing :: date_input
  cg_opening :: date_input
  cg_open_next :: bool
  cg_user :: "nat option"
  cg_username :: "string option"

definition closing_data :: "closing_params \<Rightarrow> int \<Rightarrow> string \<Rightarrow> string \<Rightarrow> string \<Rightarrow> vrow list \<Rightarrow> create_data" where
  "closing_data p year date vtype ref items =
    \<lparr>cd_date = DateText date, cd_type = Some vtype, cd_status = Some VApproved, cd_manual = None, cd_module = Some ''manual'', cd_ref_id = None,
     cd_ref = Some ref, cd_document = None, cd_payroll = None, cd_cheque = None, cd_bom = None, cd_year = Some year, cd_currency = None,
     cd_user = cg_user p, cd_username = cg_username p, cd_manual_entry = False, cd_control = None, cd_items = items\<rparr>"

text \<open>The vouchers created so far, with reference and type, and the tables.\<close>

type_synonym closing_run = "(nat \<times> string \<times> string) list \<times> ledger_db"

definition closing_voucher ::
  "decimal_lib \<Rightarrow> trial_env \<Rightarrow> closing_params \<Rightarrow> int \<Rightarrow> string \<Rightarrow> string \<Rightarrow> string \<Rightarrow> vrow list \<Rightarrow> closing_run \<Rightarrow> voucher_error + closing_run" where
  "closing_voucher L E p year date vtype ref items = (\<lambda>(created, s).
    res_bind (createJournalVoucher L (te_books E) (closing_data p year date vtype ref items) s) (\<lambda>(i, s1). Inr (created @ [(i, ref, vtype)], s1)))"

definition year_ref :: "string \<Rightarrow> int \<Rightarrow> string" where
  "year_ref prefix year = prefix @ show_nat (nat year)"

definition closing_id :: "int \<Rightarrow> (nat \<times> string \<times> string) list \<Rightarrow> nat option" where
  "closing_id year created =
    (case List.find (\<lambda>(_, ref, _). ref = year_ref ''CLOSING-'' year) created of
       Some v \<Rightarrow> Some (fst v)
     | None \<Rightarrow> map_option fst (List.find (\<lambda>(_, _, t). t = ''closing'') (rev created)))"

definition close_vouchers ::
  "decimal_lib \<Rightarrow> trial_env \<Rightarrow> closing_params \<Rightarrow> closing_dates \<Rightarrow> closing_preview \<Rightarrow> ledger_db \<Rightarrow> voucher_error + closing_run" where
  "close_vouchers L E p d preview s =
    (let year = cl_year d; items1 = temporary_items L E (pv_temporary preview); profit = pv_net_profit preview
     in res_bind (if pv_temporary preview \<noteq> [] \<and> length items1 \<ge> 2
          then closing_voucher L E p year (cl_closing d) ''closing'' (year_ref ''CLOSE-TEMP-'' year) items1 ([], s) else Inr ([], s)) (\<lambda>r1.
        res_bind (if profit \<noteq> 0
          then closing_voucher L E p year (cl_closing d) ''closing'' (year_ref ''CLOSE-PROFIT-'' year) (profit_items L E profit) r1 else Inr r1) (\<lambda>r2.
        let items3 = permanent_items L E (cl_closing d) (snd r2)
        in res_bind (if length items3 \<ge> 2
             then closing_voucher L E p year (cl_closing d) ''closing'' (year_ref ''CLOSING-'' year) items3 r2 else Inr r2) (\<lambda>r3.
           if cg_open_next p \<and> length items3 \<ge> 2
             then closing_voucher L E p year (cl_opening d) ''opening'' (year_ref ''OPENING-'' (year + 1)) (map opening_row items3) r3 else Inr r3))))"

record closing_result =
  cr_year :: int
  cr_net_profit :: rat
  cr_vouchers :: "nat list"

definition executeFiscalYearClosing ::
  "decimal_lib \<Rightarrow> trial_env \<Rightarrow> closing_params \<Rightarrow> ledger_db \<Rightarrow> voucher_error + closing_result \<times> ledger_db" where
  "executeFiscalYearClosing L E p s =
    res_bind (resolveFiscalClosingDates (cg_year p) (cg_closing p) (cg_opening p)) (\<lambda>d.
    res_bind (assertFiscalYearEnded (cl_year d) (le_today (te_books E))) (\<lambda>_.
    res_bind (lockForClosing (cl_year d) s) (\<lambda>s1.
    res_bind (assertEarlierYearsClosed (te_books E) s1 (cl_year d)) (\<lambda>_.
    res_bind (preview_at L E d s1) (\<lambda>preview.
      if pv_drafts preview \<noteq> [] then Inl (YearHasDrafts (length (pv_drafts preview)))
      else
        res_bind (close_vouchers L E p d preview s1) (\<lambda>(created, s2).
          Inr (\<lparr>cr_year = cl_year d, cr_net_profit = pv_net_profit preview, cr_vouchers = map fst created\<rparr>,
            markClosed (cl_year d) (closing_id (cl_year d) created) (cg_username p) s2)))))))"

end
