(* ===== verification/ClosingFacts.thy ===== *)
theory ClosingFacts
  imports YearClosing
begin

text \<open>
  What the trial balance computes when the numbers fit: for every account the exact sums of the rows posted on it and below it.
\<close>

section \<open>Maps and sums\<close>

lemma map_of_update: "map_of (map_update k f m) = (map_of m)(k := Some (f (map_of m k)))"
  by (induction m) (auto simp: fun_eq_iff)

lemma map_update_keys: "fst ` set (map_update k f m) = insert k (fst ` set m)"
proof (induction m)
  case (Cons e m)
  then show ?case by (cases e) (simp add: insert_commute)
qed simp

lemma distinct_update: "distinct (map fst m) \<Longrightarrow> distinct (map fst (map_update k f m))"
proof (induction m)
  case (Cons e m)
  have "fst e \<notin> fst ` set (map_update k f m)" if "fst e \<noteq> k" using Cons.prems that unfolding map_update_keys by simp
  with Cons show ?case by (cases e) auto
qed simp

lemma sum_groups:
  fixes f :: "'a \<Rightarrow> 'b::comm_monoid_add"
  assumes "finite K" "\<And>r. r \<in> set xs \<Longrightarrow> q (g r) \<Longrightarrow> g r \<in> K" "\<And>k. k \<in> K \<Longrightarrow> q k"
  shows "(\<Sum>k\<in>K. sum_list (map f (filter (\<lambda>r. g r = k) xs))) = sum_list (map f (filter (\<lambda>r. q (g r)) xs))"
  using assms(2)
proof (induction xs)
  case (Cons r xs)
  have "(\<Sum>k\<in>K. sum_list (map f (filter (\<lambda>r. g r = k) (r # xs)))) =
      (\<Sum>k\<in>K. (if g r = k then f r else 0) + sum_list (map f (filter (\<lambda>r. g r = k) xs)))"
    by (rule sum.cong) simp_all
  also have "\<dots> = (\<Sum>k\<in>K. if g r = k then f r else 0) + sum_list (map f (filter (\<lambda>r. q (g r)) xs))"
    unfolding sum.distrib using Cons by simp
  also have "(\<Sum>k\<in>K. if g r = k then f r else 0) = (if g r \<in> K then f r else 0)" by (rule sum.delta' [OF assms(1)])
  also have "(g r \<in> K) = q (g r)" using Cons.prems [of r] assms(3) by auto
  finally show ?case by simp
qed simp

lemma sum_filter_if: "sum_list (map f (filter p xs)) = sum_list (map (\<lambda>x. if p x then f x else (0::'a::monoid_add)) xs)"
  by (induction xs) auto

lemma sum_list_le_filter:
  fixes f :: "'a \<Rightarrow> rat"
  assumes "\<And>x. x \<in> set xs \<Longrightarrow> 0 \<le> f x" shows "sum_list (map f (filter p xs)) \<le> sum_list (map f xs)"
  using assms by (induction xs) (auto intro: add_increasing)

text \<open>The entries of one key that come before the period, or within it.\<close>

definition side :: "'k \<Rightarrow> bool \<Rightarrow> ('k \<times> bool \<times> rat \<times> rat \<Rightarrow> rat) \<Rightarrow> ('k \<times> bool \<times> rat \<times> rat) list \<Rightarrow> rat" where
  "side k b f es = sum_list (map f (filter (\<lambda>e. fst e = k \<and> fst (snd e) = b) es))"

abbreviation debit_part :: "'k \<times> bool \<times> rat \<times> rat \<Rightarrow> rat" where "debit_part \<equiv> (\<lambda>e. fst (snd (snd e)))"
abbreviation credit_part :: "'k \<times> bool \<times> rat \<times> rat \<Rightarrow> rat" where "credit_part \<equiv> (\<lambda>e. snd (snd (snd e)))"

definition entries_fit :: "('k \<times> bool \<times> rat \<times> rat) list \<Rightarrow> bool" where
  "entries_fit es \<longleftrightarrow> (\<forall>e \<in> set es. scaled 4 (debit_part e) \<and> scaled 4 (credit_part e)) \<and>
    sum_list (map (\<lambda>e. \<bar>debit_part e\<bar> + \<bar>credit_part e\<bar>) es) < 10 ^ 26"

lemma side_bound:
  assumes "f = debit_part \<or> f = credit_part"
  shows "\<bar>side k b f es\<bar> \<le> sum_list (map (\<lambda>e. \<bar>debit_part e\<bar> + \<bar>credit_part e\<bar>) es)"
proof -
  have "\<bar>side k b f es\<bar> \<le> sum_list (map (\<lambda>e. \<bar>f e\<bar>) (filter (\<lambda>e. fst e = k \<and> fst (snd e) = b) es))"
    unfolding side_def by (rule abs_sum_list_le)
  also have "\<dots> \<le> sum_list (map (\<lambda>e. \<bar>f e\<bar>) es)" by (rule sum_list_le_filter) simp
  also have "\<dots> \<le> sum_list (map (\<lambda>e. \<bar>debit_part e\<bar> + \<bar>credit_part e\<bar>) es)" using assms by (intro sum_list_mono) auto
  finally show ?thesis .
qed

lemma side_snoc: "side k b f (es @ [e]) = side k b f es + (if fst e = k \<and> fst (snd e) = b then f e else 0)"
  by (simp add: side_def)

lemma side_scaled: "(\<And>e. e \<in> set es \<Longrightarrow> scaled 4 (f e)) \<Longrightarrow> scaled 4 (side k b f es)"
  unfolding side_def by (rule scaled_sum_list4) auto

definition turnover_of :: "'k \<Rightarrow> ('k \<times> bool \<times> rat \<times> rat) list \<Rightarrow> turnover" where
  "turnover_of k es = \<lparr>tu_initial_debit = side k True debit_part es, tu_initial_credit = side k True credit_part es,
    tu_period_debit = side k False debit_part es, tu_period_credit = side k False credit_part es\<rparr>"

lemma accumulate_keys: "fst ` set (accumulate L es) = fst ` set es" "distinct (map fst (accumulate L es))"
  unfolding accumulate_def by (induction es rule: rev_induct) (auto simp: map_update_keys distinct_update case_prod_unfold)

lemma accumulate_snoc: "accumulate L (es @ [(k, b, d, c)]) =
    map_update k (\<lambda>t. addTurnover L b d c (case t of None \<Rightarrow> emptyTurnover | Some t \<Rightarrow> t)) (accumulate L es)"
  by (simp add: accumulate_def)

context decimal_js begin

lemma accumulate_exact:
  assumes "entries_fit es"
  shows "map_of (accumulate L es) k = (if k \<in> fst ` set es then Some (turnover_of k es) else None)"
  using assms
proof (induction es arbitrary: k rule: rev_induct)
  case (snoc e es)
  obtain j b d c where e: "e = (j, b, d, c)" by (cases e) auto
  have fit: "entries_fit es" and sc: "scaled 4 d" "scaled 4 c" using snoc.prems by (auto simp: entries_fit_def e)
  have total: "sum_list (map (\<lambda>e. \<bar>debit_part e\<bar> + \<bar>credit_part e\<bar>) es) + (\<bar>d\<bar> + \<bar>c\<bar>) < 10 ^ 26"
    using snoc.prems by (simp add: entries_fit_def e)
  have sc_side: "scaled 4 (side j b' f es)" if "f = debit_part \<or> f = credit_part" for b' f
    by (rule side_scaled) (use fit that in \<open>auto simp: entries_fit_def\<close>)
  have add: "fin_add L (side j b debit_part es) d = side j b debit_part es + d" "fin_add L (side j b credit_part es) c = side j b credit_part es + c"
    by (rule add_scaled26; (rule sc sc_side)?; use side_bound [of debit_part j b es] side_bound [of credit_part j b es] total in \<open>simp; linarith?\<close>)+
  have empty: "side j b' f es = 0" if "j \<notin> fst ` set es" for b' f
  proof -
    have "filter (\<lambda>e. fst e = j \<and> fst (snd e) = b') es = []" using that by (auto simp: filter_empty_conv)
    then show ?thesis by (simp add: side_def)
  qed
  have old: "(case map_of (accumulate L es) j of None \<Rightarrow> emptyTurnover | Some t \<Rightarrow> t) = turnover_of j es"
    using snoc.IH [OF fit] empty by (auto simp: turnover_of_def emptyTurnover_def)
  have new: "addTurnover L b d c (turnover_of j es) = turnover_of j (es @ [e])"
    using add by (cases b) (simp_all add: addTurnover_def turnover_of_def side_snoc e)
  have other: "turnover_of k (es @ [e]) = turnover_of k es" if "k \<noteq> j" for k
    using that by (simp add: turnover_of_def side_snoc e)
  show ?case
    unfolding e accumulate_snoc map_of_update using snoc.IH [OF fit] old new other by (auto simp: e fun_eq_iff)
qed (simp add: accumulate_def)

end


section \<open>Stored dates\<close>

lemma normalize_stored:
  assumes "isStorageDate s" shows "normalizeDateToIso s = Some s"
proof -
  from assms have "toStorageDate (DateText s) = Some s" "s \<noteq> ''''" by (simp_all add: isStorageDate_def)
  then obtain n where "storage_day s n" by (rule toStorageDate_day)
  then obtain y m d where s: "s = date_text ''-'' y m d" "gregorian_date y m d" "1900 \<le> y" "y \<le> 2199"
    unfolding storage_day_def by blast
  have t: "text_date y m d" using s by (simp add: gregorian_text)
  have sep: "is_separator CHR ''-''" by (simp add: is_separator_def)
  note e = english_text [OF t sep]
  obtain d1 d2 d3 d4 d5 d6 d7 d8 where f: "date_text ''-'' y m d = [digit d1, digit d2, digit d3, digit d4, CHR ''-'', digit d5, digit d6, CHR ''-'', digit d7, digit d8]"
    and k: "d1 < 10" "d2 < 10" "d3 < 10" "d4 < 10" "d5 < 10" "d6 < 10" "d7 < 10" "d8 < 10"
    and v: "y = 1000 * int d1 + 100 * int d2 + 10 * int d3 + int d4" "m = 10 * int d5 + int d6" "d = 10 * int d7 + int d8"
    by (rule date_text_form [OF t])
  have "date_start (date_text ''-'' y m d) = Some (y, m, d)"
    unfolding f date_start_def using k sep by (simp add: take_digits_4 one_or_two_def take_digits_2 number_of_2 number_of_4 v)
  then show ?thesis unfolding s(1) normalizeDateToIso_def Let_def e(2) using s(3,4) e(3) by simp
qed

section \<open>The rows of a trial balance\<close>

text \<open>Debit and credit of a posted row in the view of all currencies.\<close>

definition row_debit :: "voucher \<times> vitem \<Rightarrow> rat" where
  "row_debit = (\<lambda>(v, x). if voucherItemCurrency v x = ''IRR'' then vi_debit x else half_up (vi_debit x * voucherItemRate x) 0)"

definition row_credit :: "voucher \<times> vitem \<Rightarrow> rat" where
  "row_credit = (\<lambda>(v, x). if voucherItemCurrency v x = ''IRR'' then vi_credit x else half_up (vi_credit x * voucherItemRate x) 0)"

text \<open>The turnover of all posted rows is below \<open>10 ^ 11\<close>.\<close>

definition books_fit :: "ledger_db \<Rightarrow> bool" where
  "books_fit s \<longleftrightarrow> sum_list (map (\<lambda>r. \<bar>row_debit r\<bar> + \<bar>row_credit r\<bar>) (posted_rows s)) < 10 ^ 11"

text \<open>What rows up to a day add up to.\<close>

definition posted :: "(voucher \<times> vitem \<Rightarrow> rat) \<Rightarrow> string \<Rightarrow> (voucher \<times> vitem \<Rightarrow> bool) \<Rightarrow> (voucher \<times> vitem) list \<Rightarrow> rat" where
  "posted f e p rows = sum_list (map f (filter (\<lambda>r. \<not> js_less e (v_date (fst r)) \<and> p r) rows))"

lemma posted_row:
  assumes "r \<in> set (posted_rows s)"
  shows "reported (fst r)" "fst r \<in> set (ld_vouchers s)" "snd r \<in> set (live_items s (v_id (fst r)))"
  using assms by (auto simp: posted_rows_def)

lemma posted_row_journal:
  assumes "ledger_wf s" "r \<in> set (posted_rows s)"
  shows "journal_of s (v_id (fst r)) = Some (fst r, live_items s (v_id (fst r)))"
  using posted_row [OF assms(2)] by (auto simp: journal_iff [OF assms(1)] reported_def)

text \<open>Posted rows have stored dates and amounts with four decimals.\<close>

definition trial_ok :: "ledger_db \<Rightarrow> bool" where
  "trial_ok s \<longleftrightarrow> (\<forall>r \<in> set (posted_rows s). scaled 4 (row_debit r) \<and> scaled 4 (row_credit r) \<and> isStorageDate (v_date (fst r)))"

lemma posted_row_ok:
  assumes "trial_ok s" "r \<in> set (posted_rows s)"
  shows "scaled 4 (row_debit r)" "scaled 4 (row_credit r)" "isStorageDate (v_date (fst r))"
  using assms by (auto simp: trial_ok_def)

lemma row_amount_scaled:
  assumes "scaled 4 (vi_debit x)" "scaled 4 (vi_credit x)" shows "scaled 4 (row_debit (v, x))" "scaled 4 (row_credit (v, x))"
  using assms scaled_mono [OF scaled_half_up [of 0], of 4] by (simp_all add: row_debit_def row_credit_def)

lemma books_trial_ok:
  assumes "books_ok s" shows "trial_ok s"
proof -
  have wf: "ledger_wf s" using assms by (simp add: books_ok_def)
  have "scaled 4 (row_debit r) \<and> scaled 4 (row_credit r) \<and> isStorageDate (v_date (fst r))" if "r \<in> set (posted_rows s)" for r
  proof -
    obtain v x where r: "r = (v, x)" by (cases r)
    note j = posted_row_journal [OF wf that]
    have "entry_ok (v, live_items s (v_id v))" using assms j r by (auto simp: books_ok_def dest: journal_okD(2))
    then have "money4 (vi_debit x)" "money4 (vi_credit x)" using posted_row(3) [OF that] r by (auto simp: entry_ok.simps)
    then show ?thesis using ledger_wfD(8) [OF wf] posted_row(2) [OF that] r by (simp add: row_amount_scaled money4_def)
  qed
  then show ?thesis by (simp add: trial_ok_def)
qed

lemma groupedItems_keys: "map tg_key (groupedItems s) = remdups (map group_of (posted_rows s))"
  by (simp add: groupedItems_def Let_def comp_def)

lemma group_simps [simp]: "gk_date (group_of r) = v_date (fst r)" "gk_account (group_of r) = vi_account (snd r)"
    "gk_currency (group_of r) = voucherItemCurrency (fst r) (snd r)"
  by (simp_all add: group_of_def case_prod_unfold)

lemma map_filter_if: "List.map_filter (\<lambda>k. if p k then None else Some (f k)) xs = map f (filter (\<lambda>k. \<not> p k) xs)"
  by (induction xs) (simp_all add: List.map_filter_simps)

text \<open>A group of the closing trial balance counts with the exact sums of its rows.\<close>

definition key_sum :: "(voucher \<times> vitem \<Rightarrow> rat) \<Rightarrow> ledger_db \<Rightarrow> group_key \<Rightarrow> rat" where
  "key_sum f s k = sum_list (map f (filter (\<lambda>r. group_of r = k) (posted_rows s)))"

lemma key_sum_cong: "(\<And>r. group_of r = k \<Longrightarrow> f r = g r) \<Longrightarrow> key_sum f s k = key_sum g s k"
  unfolding key_sum_def by (intro arg_cong [of _ _ sum_list] map_cong) auto

definition counted_keys :: "string \<Rightarrow> ledger_db \<Rightarrow> group_key list" where
  "counted_keys e s = filter (\<lambda>k. \<not> js_less e (gk_date k)) (remdups (map group_of (posted_rows s)))"

lemma counted_closing:
  assumes "trial_ok s" "isStorageDate e"
  shows "counted_groups (closing_trial e) s = map (\<lambda>k. (k, False, key_sum row_debit s k, key_sum row_credit s k)) (counted_keys e s)"
proof -
  have c: "counted (closing_trial e) g = (if js_less e (gk_date (tg_key g)) then None
      else Some (False, key_sum row_debit s (tg_key g), key_sum row_credit s (tg_key g)))" if g: "g \<in> set (groupedItems s)" for g
  proof -
    obtain k where k: "k \<in> group_of ` set (posted_rows s)" "g = (let rows = map snd (filter (\<lambda>r. group_of r = k) (posted_rows s))
      in \<lparr>tg_key = k, tg_debit = sum_list (map vi_debit rows), tg_credit = sum_list (map vi_credit rows),
          tg_debit_irr = sum_list (map (\<lambda>x. half_up (vi_debit x * voucherItemRate x) 0) rows),
          tg_credit_irr = sum_list (map (\<lambda>x. half_up (vi_credit x * voucherItemRate x) 0) rows)\<rparr>)"
      using g unfolding groupedItems_def by auto
    have stored: "isStorageDate (gk_date k)" using k(1) posted_row_ok(3) [OF assms(1)] by auto
    have d: "(if gk_currency k \<noteq> ''IRR'' then tg_debit_irr g else tg_debit g) = key_sum row_debit s k"
      "(if gk_currency k \<noteq> ''IRR'' then tg_credit_irr g else tg_credit g) = key_sum row_credit s k"
      unfolding key_sum_def k(2) Let_def
      by (auto simp: row_debit_def row_credit_def case_prod_unfold comp_def intro!: arg_cong [of _ _ sum_list] map_cong)
    have "tg_key g = k" by (simp add: k(2) Let_def)
    then show ?thesis
      using d normalize_stored [OF stored] normalize_stored [OF assms(2)]
      by (simp add: counted_def closing_trial_def Let_def iso_or_none_def closing_cutoff_def yearEndClosingCutoff_def)
  qed
  have "counted_groups (closing_trial e) s = List.map_filter (\<lambda>g. if js_less e (gk_date (tg_key g)) then None
      else Some (tg_key g, False, key_sum row_debit s (tg_key g), key_sum row_credit s (tg_key g))) (groupedItems s)"
    unfolding counted_groups_def by (rule map_filter_cong) (simp add: c)
  also have "\<dots> = List.map_filter (\<lambda>k. if js_less e (gk_date k) then None
      else Some (k, False, key_sum row_debit s k, key_sum row_credit s k)) (map tg_key (groupedItems s))"
    by (simp add: map_filter_map comp_def)
  also have "\<dots> = map (\<lambda>k. (k, False, key_sum row_debit s k, key_sum row_credit s k)) (counted_keys e s)"
    unfolding groupedItems_keys counted_keys_def by (rule map_filter_if)
  finally show ?thesis .
qed

text \<open>The turnover that the rows with a property add up to.\<close>

definition plain_turnover :: "rat \<Rightarrow> rat \<Rightarrow> turnover" where
  "plain_turnover d c = \<lparr>tu_initial_debit = 0, tu_initial_credit = 0, tu_period_debit = d, tu_period_credit = c\<rparr>"

lemma key_sums:
  assumes "\<And>k. p k \<Longrightarrow> \<not> js_less e (gk_date k)"
  shows "sum_list (map (key_sum f s) (filter p (remdups (map group_of (posted_rows s))))) = sum_list (map f (filter (\<lambda>r. p (group_of r)) (posted_rows s)))"
proof -
  let ?ks = "filter p (remdups (map group_of (posted_rows s)))"
  have "sum_list (map (key_sum f s) ?ks) = (\<Sum>k\<in>set ?ks. key_sum f s k)"
    by (rule sum_list_distinct_conv_sum_set) simp
  also have "\<dots> = sum_list (map f (filter (\<lambda>r. p (group_of r)) (posted_rows s)))"
    unfolding key_sum_def by (rule sum_groups) auto
  finally show ?thesis .
qed

lemma key_sum_abs: "\<bar>key_sum f s k\<bar> \<le> key_sum (\<lambda>r. \<bar>f r\<bar>) s k"
  unfolding key_sum_def by (rule abs_sum_list_le)

lemma key_sum_add: "key_sum (\<lambda>r. f r + g r) s k = key_sum f s k + key_sum g s k"
  unfolding key_sum_def by (rule sum_list_addf)

lemma closing_entries:
  fixes h :: "group_key \<Rightarrow> 'k"
  assumes "trial_ok s" "isStorageDate e" "books_fit s"
  defines "es \<equiv> map (\<lambda>(k, x). (h k, x)) (counted_groups (closing_trial e) s)"
  shows "entries_fit es" "fst ` set es = (\<lambda>r. h (group_of r)) ` {r \<in> set (posted_rows s). \<not> js_less e (v_date (fst r))}"
    "turnover_of j es = plain_turnover (posted row_debit e (\<lambda>r. h (group_of r) = j) (posted_rows s)) (posted row_credit e (\<lambda>r. h (group_of r) = j) (posted_rows s))"
    "sum_list (map (\<lambda>e. \<bar>debit_part e\<bar> + \<bar>credit_part e\<bar>) es) < 10 ^ 11"
proof -
  have es: "es = map (\<lambda>k. (h k, False, key_sum row_debit s k, key_sum row_credit s k)) (counted_keys e s)"
    unfolding es_def counted_closing [OF assms(1,2)] by (simp add: comp_def)
  let ?w = "\<lambda>r. \<bar>row_debit r\<bar> + \<bar>row_credit r\<bar>"
  have "sum_list (map (\<lambda>e. \<bar>debit_part e\<bar> + \<bar>credit_part e\<bar>) es) \<le> sum_list (map (key_sum ?w s) (counted_keys e s))"
    unfolding es map_map comp_def fst_conv snd_conv key_sum_add by (intro sum_list_mono add_mono key_sum_abs)
  also have "\<dots> = sum_list (map ?w (filter (\<lambda>r. \<not> js_less e (gk_date (group_of r))) (posted_rows s)))"
    unfolding counted_keys_def by (rule key_sums)
  also have "\<dots> \<le> sum_list (map ?w (posted_rows s))" by (rule sum_list_le_filter) simp
  finally show w: "sum_list (map (\<lambda>e. \<bar>debit_part e\<bar> + \<bar>credit_part e\<bar>) es) < 10 ^ 11"
    using assms(3) by (simp add: books_fit_def)
  have sc: "scaled 4 (key_sum row_debit s k)" "scaled 4 (key_sum row_credit s k)" for k
    unfolding key_sum_def using posted_row_ok(1,2) [OF assms(1)] by (auto intro!: scaled_sum_list4)
  show "entries_fit es" unfolding entries_fit_def using w sc by (auto simp: es)
  have keys: "set (counted_keys e s) = group_of ` {r \<in> set (posted_rows s). \<not> js_less e (v_date (fst r))}"
    by (auto simp: counted_keys_def)
  show "fst ` set es = (\<lambda>r. h (group_of r)) ` {r \<in> set (posted_rows s). \<not> js_less e (v_date (fst r))}"
    by (simp add: es image_image keys)
  have one: "side j False f es = posted g e (\<lambda>r. h (group_of r) = j) (posted_rows s)" "side j True f es = 0"
    if "f = debit_part \<and> g = row_debit \<or> f = credit_part \<and> g = row_credit" for f g
  proof -
    have "side j False f es = sum_list (map (key_sum g s) (filter (\<lambda>k. \<not> js_less e (gk_date k) \<and> h k = j) (remdups (map group_of (posted_rows s)))))"
      using that unfolding side_def es filter_map map_map counted_keys_def filter_filter
      by (intro arg_cong [of _ _ sum_list]) (auto simp: comp_def conj_commute intro!: map_cong)
    also have "\<dots> = posted g e (\<lambda>r. h (group_of r) = j) (posted_rows s)"
      unfolding posted_def by (subst key_sums) auto
    finally show "side j False f es = posted g e (\<lambda>r. h (group_of r) = j) (posted_rows s)" .
    show "side j True f es = 0" by (simp add: side_def es filter_map comp_def)
  qed
  show "turnover_of j es = plain_turnover (posted row_debit e (\<lambda>r. h (group_of r) = j) (posted_rows s)) (posted row_credit e (\<lambda>r. h (group_of r) = j) (posted_rows s))"
    using one [of debit_part row_debit] one [of credit_part row_credit] by (simp add: turnover_of_def plain_turnover_def)
qed

section \<open>Accounts and what is below them\<close>

definition below :: "trial_env \<Rightarrow> int \<Rightarrow> int \<Rightarrow> bool" where
  "below E a i \<longleftrightarrow> a \<in> set (climb (getAllAccounts E) [] (Some i))"

lemma climb_distinct: "distinct (climb accounts climbed i) \<and> set climbed \<inter> set (climb accounts climbed i) = {}"
proof (induction accounts climbed i rule: climb.induct)
  case (1 accounts climbed i)
  show ?case
  proof (cases i)
    case (Some k)
    show ?thesis
    proof (cases "List.find (\<lambda>a. ac_id a = k) accounts")
      case (Some a)
      show ?thesis
      proof (cases "k \<in> set climbed")
        case False
        from 1 [OF \<open>i = Some k\<close> Some False] show ?thesis
          by (subst (1 2) climb.simps) (use \<open>i = Some k\<close> Some False in auto)
      qed (subst (1 2) climb.simps, use \<open>i = Some k\<close> Some in simp)
    qed (subst (1 2) climb.simps, use \<open>i = Some k\<close> in simp)
  qed (subst (1 2) climb.simps, simp)
qed

lemma climb_accounts: "k \<in> set (climb accounts climbed i) \<Longrightarrow> \<exists>a \<in> set accounts. ac_id a = k"
proof (induction accounts climbed i rule: climb.induct)
  case (1 accounts climbed i)
  from 1(2) show ?case
    by (subst (asm) climb.simps) (auto split: option.splits if_splits dest!: sym [of "Some _"] dest: find_SomeD 1(1))
qed

lemma set_insert_by: "set (insert_by le key x xs) = insert x (set xs)"
  by (induction xs) auto

lemma set_sort_by [simp]: "set (sort_by le key xs) = set xs"
  by (induction xs) (simp_all add: sort_by_def set_insert_by)

lemma mset_insert_by: "mset (insert_by le key x xs) = add_mset x (mset xs)"
  by (induction xs) auto

lemma mset_sort_by [simp]: "mset (sort_by le key xs) = mset xs"
  by (induction xs) (simp_all add: sort_by_def mset_insert_by)

text \<open>Splitting a sum over rows by the account they are posted on.\<close>

lemma posted_below:
  fixes f :: "voucher \<times> vitem \<Rightarrow> rat"
  assumes "finite K" "\<And>r. r \<in> set rows \<Longrightarrow> \<not> js_less e (v_date (fst r)) \<Longrightarrow> vi_account (snd r) \<in> K"
  shows "(\<Sum>i \<in> {i \<in> K. p i}. posted f e (\<lambda>r. vi_account (snd r) = i) rows) = posted f e (\<lambda>r. p (vi_account (snd r))) rows"
proof -
  have "(\<Sum>i \<in> {i \<in> K. p i}. sum_list (map f (filter (\<lambda>r. vi_account (snd r) = i) (filter (\<lambda>r. \<not> js_less e (v_date (fst r))) rows)))) =
      sum_list (map f (filter (\<lambda>r. p (vi_account (snd r))) (filter (\<lambda>r. \<not> js_less e (v_date (fst r))) rows)))"
    by (rule sum_groups) (use assms in auto)
  then show ?thesis by (simp add: posted_def conj_commute)
qed

text \<open>The entries that \<open>aggTurnover\<close> adds up.\<close>

definition agg_entries :: "trial_env \<Rightarrow> (int \<times> turnover) list \<Rightarrow> (int \<times> bool \<times> rat \<times> rat) list" where
  "agg_entries E ts = concat (map (\<lambda>(i, t). concat (map (\<lambda>a.
      [(a, True, tu_initial_debit t, tu_initial_credit t), (a, False, tu_period_debit t, tu_period_credit t)])
      (climb (getAllAccounts E) [] (Some i)))) ts)"

lemma side_append: "side k b f (xs @ ys) = side k b f xs + side k b f ys"
  by (simp add: side_def)

lemma side_pairs:
  assumes "distinct as"
  shows "side a b f (concat (map (\<lambda>a. [(a, True, x, y), (a, False, z, w)]) as)) =
    (if a \<in> set as then (if b then f (a, True, x, y) else f (a, False, z, w)) else 0)"
  using assms
proof (induction as)
  case (Cons k as)
  then show ?case by (cases b) (auto simp: side_def)
qed (simp add: side_def)

lemma side_agg:
  assumes "f = debit_part \<or> f = credit_part"
  shows "side a b f (agg_entries E ts) = sum_list (map (\<lambda>(i, t). if below E a i then
    (if b then f (a, True, tu_initial_debit t, tu_initial_credit t) else f (a, False, tu_period_debit t, tu_period_credit t)) else 0) ts)"
proof (induction ts)
  case (Cons e ts)
  obtain i t where e: "e = (i, t)" by (cases e)
  have "agg_entries E (e # ts) = concat (map (\<lambda>a. [(a, True, tu_initial_debit t, tu_initial_credit t), (a, False, tu_period_debit t, tu_period_credit t)])
      (climb (getAllAccounts E) [] (Some i))) @ agg_entries E ts" by (simp add: agg_entries_def e)
  then show ?case
    using Cons side_pairs [OF conjunct1 [OF climb_distinct]] by (simp add: side_append e below_def)
qed (simp add: agg_entries_def side_def)

context decimal_js begin

lemma account_turnover_exact:
  assumes "trial_ok s" "isStorageDate e" "books_fit s"
  shows "map_of (accountTurnover L (closing_trial e) s) i =
      (if \<exists>r \<in> set (posted_rows s). \<not> js_less e (v_date (fst r)) \<and> vi_account (snd r) = i
       then Some (plain_turnover (posted row_debit e (\<lambda>r. vi_account (snd r) = i) (posted_rows s)) (posted row_credit e (\<lambda>r. vi_account (snd r) = i) (posted_rows s)))
       else None)"
    "distinct (map fst (accountTurnover L (closing_trial e) s))"
    "fst ` set (accountTurnover L (closing_trial e) s) = (\<lambda>r. vi_account (snd r)) ` {r \<in> set (posted_rows s). \<not> js_less e (v_date (fst r))}"
proof -
  note c = closing_entries [OF assms, where h = gk_account]
  show "map_of (accountTurnover L (closing_trial e) s) i =
      (if \<exists>r \<in> set (posted_rows s). \<not> js_less e (v_date (fst r)) \<and> vi_account (snd r) = i
       then Some (plain_turnover (posted row_debit e (\<lambda>r. vi_account (snd r) = i) (posted_rows s)) (posted row_credit e (\<lambda>r. vi_account (snd r) = i) (posted_rows s)))
       else None)"
    unfolding accountTurnover_def accumulate_exact [OF c(1)] c(2) c(3) [where j = i] group_simps
    by (rule if_cong) (auto simp del: split_paired_Ex split_paired_All)
  show "distinct (map fst (accountTurnover L (closing_trial e) s))" unfolding accountTurnover_def by (rule accumulate_keys)
  show "fst ` set (accountTurnover L (closing_trial e) s) = (\<lambda>r. vi_account (snd r)) ` {r \<in> set (posted_rows s). \<not> js_less e (v_date (fst r))}"
    unfolding accountTurnover_def accumulate_keys(1) c(2) by simp
qed

end

lemma posted_bound:
  assumes "books_fit s" "f = row_debit \<or> f = row_credit" shows "\<bar>posted f e p (posted_rows s)\<bar> < 10 ^ 11"
proof -
  have "\<bar>posted f e p (posted_rows s)\<bar> \<le> sum_list (map (\<lambda>r. \<bar>f r\<bar>) (filter (\<lambda>r. \<not> js_less e (v_date (fst r)) \<and> p r) (posted_rows s)))"
    unfolding posted_def by (rule abs_sum_list_le)
  also have "\<dots> \<le> sum_list (map (\<lambda>r. \<bar>f r\<bar>) (posted_rows s))" by (rule sum_list_le_filter) simp
  also have "\<dots> \<le> sum_list (map (\<lambda>r. \<bar>row_debit r\<bar> + \<bar>row_credit r\<bar>) (posted_rows s))" using assms(2) by (intro sum_list_mono) auto
  finally show ?thesis using assms(1) by (simp add: books_fit_def)
qed

lemma posted_scaled:
  assumes "trial_ok s" "f = row_debit \<or> f = row_credit" shows "scaled 4 (posted f e p (posted_rows s))"
  unfolding posted_def using assms posted_row_ok(1,2) [OF assms(1)] by (auto intro!: scaled_sum_list4)

lemma climb_length: "length (climb (getAllAccounts E) [] i) \<le> length (getAllAccounts E)"
proof -
  have "set (climb (getAllAccounts E) [] i) \<subseteq> set (map ac_id (getAllAccounts E))" using climb_accounts by fastforce
  then have "card (set (climb (getAllAccounts E) [] i)) \<le> card (set (map ac_id (getAllAccounts E)))" by (intro card_mono) auto
  also have "\<dots> \<le> length (map ac_id (getAllAccounts E))" by (rule card_length)
  finally show ?thesis using climb_distinct [of "getAllAccounts E" "[]" i] by (simp add: distinct_card)
qed

text \<open>The chart of accounts: at most a million accounts.\<close>

definition chart_fits :: "trial_env \<Rightarrow> bool" where
  "chart_fits E \<longleftrightarrow> length (getAllAccounts E) \<le> 10 ^ 6"

lemma sum_list_concat_map: "sum_list (map f (concat xss)) = sum_list (map (\<lambda>xs. sum_list (map f xs)) xss)"
  by (induction xss) auto

lemma agg_weight:
  fixes t :: turnover
  assumes "chart_fits E" "tu_initial_debit t = 0" "tu_initial_credit t = 0"
  shows "sum_list (map (\<lambda>e. \<bar>debit_part e\<bar> + \<bar>credit_part e\<bar>) (concat (map (\<lambda>a.
      [(a, True, tu_initial_debit t, tu_initial_credit t), (a, False, tu_period_debit t, tu_period_credit t)])
      (climb (getAllAccounts E) [] (Some i))))) \<le> 10 ^ 6 * (\<bar>tu_period_debit t\<bar> + \<bar>tu_period_credit t\<bar>)"
proof -
  let ?w = "\<bar>tu_period_debit t\<bar> + \<bar>tu_period_credit t\<bar>" and ?as = "climb (getAllAccounts E) [] (Some i)"
  have "sum_list (map (\<lambda>e. \<bar>debit_part e\<bar> + \<bar>credit_part e\<bar>) (concat (map (\<lambda>a.
      [(a, True, tu_initial_debit t, tu_initial_credit t), (a, False, tu_period_debit t, tu_period_credit t)]) ?as))) = of_nat (length ?as) * ?w"
    unfolding sum_list_concat_map map_map comp_def using assms(2,3) by (simp add: sum_list_triv)
  also have "length ?as \<le> 10 ^ 6" using climb_length [of E "Some i"] assms(1) unfolding chart_fits_def by linarith
  then have "of_nat (length ?as) * ?w \<le> of_nat (10 ^ 6) * ?w" by (intro mult_right_mono of_nat_mono) auto
  finally show ?thesis by simp
qed

lemma sum_list_scaled: "(\<And>x. x \<in> set xs \<Longrightarrow> f x \<le> k * (g x :: rat)) \<Longrightarrow> sum_list (map f xs) \<le> k * sum_list (map g xs)"
  by (induction xs) (auto simp: algebra_simps intro: add_mono)

lemma sum_list_zero: "(\<And>x. x \<in> set xs \<Longrightarrow> f x = 0) \<Longrightarrow> sum_list (map f xs) = (0::rat)"
  by (induction xs) auto

context decimal_js begin

lemma account_turnover_entry:
  assumes "trial_ok s" "isStorageDate e" "books_fit s" "(i, t) \<in> set (accountTurnover L (closing_trial e) s)"
  shows "t = plain_turnover (posted row_debit e (\<lambda>r. vi_account (snd r) = i) (posted_rows s)) (posted row_credit e (\<lambda>r. vi_account (snd r) = i) (posted_rows s))"
proof -
  have "map_of (accountTurnover L (closing_trial e) s) i = Some t"
    using assms(4) account_turnover_exact(2) [OF assms(1-3)] by simp
  then show ?thesis using account_turnover_exact(1) [OF assms(1-3), of i] by (auto split: if_splits)
qed

lemma account_turnover_weight:
  assumes "trial_ok s" "isStorageDate e" "books_fit s"
  shows "sum_list (map (\<lambda>(i, t). \<bar>tu_period_debit t\<bar> + \<bar>tu_period_credit t\<bar>) (accountTurnover L (closing_trial e) s)) < 10 ^ 11"
proof -
  let ?ts = "accountTurnover L (closing_trial e) s" and ?rows = "filter (\<lambda>r. \<not> js_less e (v_date (fst r))) (posted_rows s)"
  let ?w = "\<lambda>r. \<bar>row_debit r\<bar> + \<bar>row_credit r\<bar>" and ?d = "\<lambda>f i. posted f e (\<lambda>r. vi_account (snd r) = i) (posted_rows s)"
  have part: "\<bar>?d row_debit i\<bar> + \<bar>?d row_credit i\<bar> \<le> sum_list (map ?w (filter (\<lambda>r. vi_account (snd r) = i) ?rows))" for i
    unfolding posted_def sum_list_addf by (auto simp: conj_commute intro!: add_mono abs_sum_list_le)
  have "sum_list (map (\<lambda>(i, t). \<bar>tu_period_debit t\<bar> + \<bar>tu_period_credit t\<bar>) ?ts) = sum_list (map (\<lambda>p. \<bar>?d row_debit (fst p)\<bar> + \<bar>?d row_credit (fst p)\<bar>) ?ts)"
    by (intro arg_cong [of _ _ sum_list] map_cong refl) (auto dest!: account_turnover_entry [OF assms] simp: plain_turnover_def)
  also have "\<dots> \<le> sum_list (map (\<lambda>p. sum_list (map ?w (filter (\<lambda>r. vi_account (snd r) = fst p) ?rows))) ?ts)"
    by (intro sum_list_mono part)
  also have "\<dots> = (\<Sum>i\<in>fst ` set ?ts. sum_list (map ?w (filter (\<lambda>r. vi_account (snd r) = i) ?rows)))"
    using sum_list_distinct_conv_sum_set [OF account_turnover_exact(2) [OF assms], of "\<lambda>i. sum_list (map ?w (filter (\<lambda>r. vi_account (snd r) = i) ?rows))"]
    by (simp add: comp_def)
  also have "\<dots> = sum_list (map ?w (filter (\<lambda>r. True) ?rows))"
    by (rule sum_groups) (auto simp: account_turnover_exact(3) [OF assms])
  also have "\<dots> \<le> sum_list (map ?w (posted_rows s))" using sum_list_le_filter [of "posted_rows s" ?w] by simp
  finally show ?thesis using assms(3) by (simp add: books_fit_def)
qed

lemma agg_exact:
  assumes "trial_ok s" "isStorageDate e" "books_fit s" "chart_fits E"
  shows "(case map_of (aggTurnover L E (accountTurnover L (closing_trial e) s)) a of None \<Rightarrow> emptyTurnover | Some t \<Rightarrow> t) =
    plain_turnover (posted row_debit e (\<lambda>r. below E a (vi_account (snd r))) (posted_rows s)) (posted row_credit e (\<lambda>r. below E a (vi_account (snd r))) (posted_rows s))"
proof -
  let ?ts = "accountTurnover L (closing_trial e) s"
  let ?es = "agg_entries E ?ts"
  note entry = account_turnover_entry [OF assms(1-3)]
  have zero: "tu_initial_debit t = 0 \<and> tu_initial_credit t = 0 \<and> scaled 4 (tu_period_debit t) \<and> scaled 4 (tu_period_credit t)"
    if "(i, t) \<in> set ?ts" for i t
    using entry [OF that] posted_scaled [OF assms(1)] by (simp add: plain_turnover_def)
  have "sum_list (map (\<lambda>e. \<bar>debit_part e\<bar> + \<bar>credit_part e\<bar>) ?es) \<le> 10 ^ 6 * sum_list (map (\<lambda>(i, t). \<bar>tu_period_debit t\<bar> + \<bar>tu_period_credit t\<bar>) ?ts)"
    unfolding agg_entries_def sum_list_concat_map map_map comp_def
    by (rule sum_list_scaled) (use agg_weight [OF assms(4)] zero in auto)
  also have "\<dots> < 10 ^ 6 * 10 ^ 11" using account_turnover_weight [OF assms(1-3)] by simp
  also have "\<dots> \<le> 10 ^ 26" by simp
  finally have fit: "entries_fit ?es" using zero by (auto simp: entries_fit_def agg_entries_def)
  have agg: "aggTurnover L E ?ts = accumulate L ?es" by (simp add: aggTurnover_def agg_entries_def)
  have side: "side a False f ?es = posted g e (\<lambda>r. below E a (vi_account (snd r))) (posted_rows s)" "side a True f ?es = 0"
    if fg: "f = debit_part \<and> g = row_debit \<or> f = credit_part \<and> g = row_credit" for f g
  proof -
    have f: "f = debit_part \<or> f = credit_part" using fg by auto
    show "side a True f ?es = 0" unfolding side_agg [OF f] by (rule sum_list_zero) (use zero fg in auto)
    let ?g = "\<lambda>i. posted g e (\<lambda>r. vi_account (snd r) = i) (posted_rows s)"
    have "side a False f ?es = sum_list (map (\<lambda>p. if below E a (fst p) then ?g (fst p) else 0) ?ts)"
      unfolding side_agg [OF f] by (intro arg_cong [of _ _ sum_list] map_cong refl) (use fg in \<open>auto dest!: entry simp: plain_turnover_def\<close>)
    also have "\<dots> = (\<Sum>i\<in>fst ` set ?ts. if below E a i then ?g i else 0)"
      using sum_list_distinct_conv_sum_set [OF account_turnover_exact(2) [OF assms(1-3)], of "\<lambda>i. if below E a i then ?g i else 0"] by (simp add: comp_def)
    also have "\<dots> = (\<Sum>i\<in>{i \<in> fst ` set ?ts. below E a i}. ?g i)" by (rule sum.inter_filter [symmetric]) simp
    also have "\<dots> = posted g e (\<lambda>r. below E a (vi_account (snd r))) (posted_rows s)"
      by (rule posted_below) (auto simp: account_turnover_exact(3) [OF assms(1-3)])
    finally show "side a False f ?es = posted g e (\<lambda>r. below E a (vi_account (snd r))) (posted_rows s)" .
  qed
  have t: "turnover_of a ?es = plain_turnover (posted row_debit e (\<lambda>r. below E a (vi_account (snd r))) (posted_rows s))
      (posted row_credit e (\<lambda>r. below E a (vi_account (snd r))) (posted_rows s))"
    using side [of debit_part row_debit] side [of credit_part row_credit] by (simp add: turnover_of_def plain_turnover_def)
  moreover have "turnover_of a ?es = emptyTurnover" if no: "a \<notin> fst ` set ?es"
  proof -
    have "side a b f ?es = 0" for b f
    proof -
      have "filter (\<lambda>e. fst e = a \<and> fst (snd e) = b) ?es = []" using no by (auto simp: filter_empty_conv)
      then show ?thesis by (simp add: side_def)
    qed
    then show ?thesis by (simp add: turnover_of_def emptyTurnover_def)
  qed
  ultimately show ?thesis unfolding agg accumulate_exact [OF fit] by auto
qed

end
end
