(* ===== verification/ClosingRun.thy ===== *)
theory ClosingRun
  imports ClosingFacts
begin

text \<open>
  What the vouchers of a closing do to the books: each is posted on its day with exactly its rows, and the first one books the
  opposite of every temporary account.
\<close>

section \<open>Exact columns and amounts\<close>

definition closing_effect :: "closing_account \<Rightarrow> rat" where
  "closing_effect t = (if ca_debit t then ca_amount t else - ca_amount t)"

context decimal_js begin

lemma balance_plain:
  assumes "scaled 4 d" "scaled 4 c" "\<bar>d\<bar> < 10 ^ 11" "\<bar>c\<bar> < 10 ^ 11" "\<bar>d - c\<bar> < 10 ^ 11"
  shows "bc_debit_turnover (balanceColumns L (plain_turnover d c)) = d" "bc_credit_turnover (balanceColumns L (plain_turnover d c)) = c"
    "bc_debit_balance (balanceColumns L (plain_turnover d c)) = (if c < d then d - c else 0)"
    "bc_credit_balance (balanceColumns L (plain_turnover d c)) = (if d < c then c - d else 0)"
proof -
  have z: "fin_add L 0 d = d" "fin_add L 0 c = c" using add_scaled4 [of 0 d] add_scaled4 [of 0 c] assms by simp_all
  have sub: "fin_subtract L d c = d - c" using assms by (intro subtract_scaled4)
  have num: "fin_toNumber L d = d" "fin_toNumber L c = c" "fin_toNumber L (d - c) = d - c" "fin_toNumber L (c - d) = c - d"
    using assms scaled_diff [of 4 d c] scaled_diff [of 4 c d] by (simp_all add: toNumber_scaled abs_minus_commute)
  have abs: "d < c \<Longrightarrow> fin_abs (d - c) = c - d" by (simp add: fin_abs_def)
  show "bc_debit_turnover (balanceColumns L (plain_turnover d c)) = d" "bc_credit_turnover (balanceColumns L (plain_turnover d c)) = c"
    "bc_debit_balance (balanceColumns L (plain_turnover d c)) = (if c < d then d - c else 0)"
    "bc_credit_balance (balanceColumns L (plain_turnover d c)) = (if d < c then c - d else 0)"
    using z sub num abs by (simp_all add: balanceColumns_def plain_turnover_def Let_def)
qed

lemma netOf_exact: "scaled 4 l \<Longrightarrow> scaled 4 r \<Longrightarrow> \<bar>l - r\<bar> < 10 ^ 11 \<Longrightarrow> netOf L l r = l - r"
  by (simp add: netOf_def subtract_scaled4 number_round4 scaled_diff)

text \<open>The closing entry of a temporary account is the opposite of its balance.\<close>

lemma temporary_entry:
  assumes "scaled 4 d" "scaled 4 c" "\<bar>d\<bar> < 10 ^ 11" "\<bar>c\<bar> < 10 ^ 11" "\<bar>d - c\<bar> < 10 ^ 11" "temporary_type (ac_type a)"
  shows "temporary_account L (a, balanceColumns L (plain_turnover d c)) = None \<Longrightarrow> d = c"
    "temporary_account L (a, balanceColumns L (plain_turnover d c)) = Some t \<Longrightarrow>
      ca_account t = a \<and> closing_effect t = c - d \<and> scaled 4 (ca_amount t) \<and> \<bar>ca_amount t\<bar> < 10 ^ 11 \<and> ca_amount t \<noteq> 0"
proof -
  have n: "netOf L d c = d - c" "netOf L c d = c - d" using assms by (simp_all add: netOf_exact abs_minus_commute)
  note b = balance_plain(1,2) [OF assms(1-5)]
  show "temporary_account L (a, balanceColumns L (plain_turnover d c)) = None \<Longrightarrow> d = c"
    using assms(6) by (auto simp: temporary_account_def b n Let_def split: if_splits)
  show "temporary_account L (a, balanceColumns L (plain_turnover d c)) = Some t \<Longrightarrow>
      ca_account t = a \<and> closing_effect t = c - d \<and> scaled 4 (ca_amount t) \<and> \<bar>ca_amount t\<bar> < 10 ^ 11 \<and> ca_amount t \<noteq> 0"
    using assms scaled_abs [OF scaled_diff [OF assms(1,2)]] scaled_abs [OF scaled_diff [OF assms(2,1)]]
    by (auto simp: temporary_account_def b n Let_def closing_effect_def abs_minus_commute split: if_splits)
qed

end
section \<open>A voucher posted\<close>

definition no_currency :: "vrow list \<Rightarrow> bool" where
  "no_currency items \<longleftrightarrow> (\<forall>r \<in> set items. br_currency r = None)"

definition adds_voucher :: "decimal_lib \<Rightarrow> int \<Rightarrow> string \<Rightarrow> vrow list \<Rightarrow> ledger_db \<Rightarrow> ledger_db \<Rightarrow> bool" where
  "adds_voucher L year date items s s' \<longleftrightarrow> ledger_wf s' \<and> year_closed s' = year_closed s \<and>
    (\<exists>v. v_id v = ld_next_id s \<and> v_status v = VApproved \<and> v_year v = Some year \<and> v_date v = date \<and>
      (let rows = map (input_item L (v_id v)) (enumerate 0 items)
       in journal_of s' = (journal_of s)(v_id v \<mapsto> (v, rows)) \<and> posted_rows s' = posted_rows s @ map (Pair v) rows))"

lemma posted_rows_cong: "ld_vouchers s' = ld_vouchers s \<Longrightarrow> ld_items s' = ld_items s \<Longrightarrow> posted_rows s' = posted_rows s"
  by (simp add: posted_rows_def live_items_def)

lemma posted_rows_ensureRow [simp]: "posted_rows (ensureRow y s) = posted_rows s"
  by (rule posted_rows_cong) simp_all

lemma posted_rows_post:
  assumes "ledger_wf s" "ld_vouchers s' = ld_vouchers s @ [v]" "ld_items s' = ld_items s @ rows" "v_id v = ld_next_id s" "reported v"
    "\<And>x. x \<in> set rows \<Longrightarrow> vi_voucher x = ld_next_id s \<and> \<not> vi_deleted x"
  shows "posted_rows s' = posted_rows s @ map (Pair v) rows"
proof -
  note w = ledger_wfD [OF assms(1)]
  note li = live_items_append [OF assms(3,6)]
  have "live_items s (ld_next_id s) = []"
    using w(2,5) by (force simp: live_items_def filter_empty_conv item_of_def)
  then have new: "live_items s' (v_id v) = rows" using li assms(4) by simp
  have "live_items s' (v_id w) = live_items s (v_id w)" if "w \<in> set (ld_vouchers s)" for w
    using li w(2) [OF that] by simp
  then have old: "concat (map (\<lambda>v. map (Pair v) (live_items s' (v_id v))) (filter reported (ld_vouchers s))) = posted_rows s"
    unfolding posted_rows_def by (intro arg_cong [of _ _ concat] map_cong) auto
  show ?thesis
    unfolding posted_rows_def [of s'] assms(2) filter_append map_append concat_append old by (simp add: assms(5) new)
qed

lemma new_rows: "x \<in> set (map (input_item L i) (enumerate n items)) \<Longrightarrow> vi_voucher x = i \<and> \<not> vi_deleted x"
  by (auto simp: input_item_def)

lemma create_approved:
  assumes "createJournalVoucher L E d s = Inr (i, s')" "ledger_wf s" "cd_date d = DateText date" "isStorageDate date" "\<not> cd_manual_entry d"
    "cd_status d = Some VApproved" "cd_year d = Some year"
  shows "i = ld_next_id s" "adds_voucher L year date (cd_items d) s s'"
proof -
  from assms(1) obtain rows tot date' s1 reason items where
    c: "checked_rows L (cd_manual_entry d) (cd_currency d) (cd_items d) = Inr (rows, tot)" and d: "date_or_today E (cd_date d) = Inr date'"
    and o: "assertOpen E date' s = Inr s1" and m: "manual_checks E (cd_manual_entry d) (cd_control d) [] rows = Inr (reason, items)"
    and w: "create_write L E d date' tot reason items s1 = Inr (i, s')" by (rule create_Inr)
  have date: "date' = date" using d assms(3,4) date_or_today_stored_text by simp
  have items: "items = cd_items d" using c m assms(5) by (auto simp: checked_rows_def manual_checks_def res_bind_Inr)
  have s1: "s1 = ensureRow (book_year date) s" by (rule assertOpen_Inr [OF o [unfolded date] assms(4)])
  then have wf1: "ledger_wf s1" and j1: "journal_of s1 = journal_of s" and n1: "ld_next_id s1 = ld_next_id s"
    and p1: "posted_rows s1 = posted_rows s" and y1: "year_closed s1 = year_closed s" using assms(2) by simp_all
  let ?v = "new_voucher L d date (ld_next_number s1) (fst tot) (snd tot) reason" and ?i = "ld_next_id s"
  let ?rows = "map (input_item L ?i) (enumerate 0 (cd_items d))"
  have f: "i = ?i" "ld_vouchers s' = ld_vouchers s1 @ [?v\<lparr>v_id := ?i\<rparr>]" "ld_items s' = ld_items s1 @ ?rows" "ld_next_id s' = ld_next_id s1 + 1"
    "ld_next_number s' = ld_next_number s1 + 1" "ld_periods s' = ld_periods s1"
    using w assms(5) n1 by (auto simp: create_write_def getNextVoucherNumber_def Let_def insert_voucher_def res_bind_Inr insertVoucherItems_eq
      date items split: if_splits)
  have rows: "\<And>x. x \<in> set ?rows \<Longrightarrow> vi_voucher x = ld_next_id s1 \<and> \<not> vi_deleted x" using new_rows [of _ L ?i] n1 by auto
  note post = journal_post [OF wf1, of s' ?v ?rows]
  have j: "journal_of s' = (journal_of s)(?i \<mapsto> (?v\<lparr>v_id := ?i\<rparr>, ?rows))" and wf: "ledger_wf s'"
    using post f rows assms(4) n1 j1 by simp_all
  have "reported (?v\<lparr>v_id := ?i\<rparr>)" by (simp add: reported_def assms(6))
  then have "posted_rows s' = posted_rows s1 @ map (Pair (?v\<lparr>v_id := ?i\<rparr>)) ?rows"
    using f n1 rows by (intro posted_rows_post [OF wf1]) simp_all
  then show "adds_voucher L year date (cd_items d) s s'"
    unfolding adds_voucher_def using wf j p1 y1 assms(6,7) year_closed_cong [OF f(6)]
    by (intro conjI exI [of _ "?v\<lparr>v_id := ?i\<rparr>"]) (simp_all add: Let_def)
  show "i = ld_next_id s" by (rule f(1))
qed

section \<open>What an account and those below it are at\<close>

definition net_below :: "trial_env \<Rightarrow> string \<Rightarrow> int \<Rightarrow> ledger_db \<Rightarrow> rat" where
  "net_below E e a s = posted row_debit e (\<lambda>r. below E a (vi_account (snd r))) (posted_rows s) -
    posted row_credit e (\<lambda>r. below E a (vi_account (snd r))) (posted_rows s)"

definition rows_effect :: "decimal_lib \<Rightarrow> trial_env \<Rightarrow> int \<Rightarrow> vrow list \<Rightarrow> rat" where
  "rows_effect L E a items = sum_list (map (\<lambda>r. if below E a (vr_account r) then fin_toDb L (br_debit r) - fin_toDb L (br_credit r) else 0) items)"

lemma rows_effect_append: "rows_effect L E a (xs @ ys) = rows_effect L E a xs + rows_effect L E a ys"
  by (simp add: rows_effect_def)

lemma rows_effect_none: "(\<And>r. r \<in> set items \<Longrightarrow> \<not> below E a (vr_account r)) \<Longrightarrow> rows_effect L E a items = 0"
  unfolding rows_effect_def by (rule sum_list_zero) simp

lemma posted_append: "posted f e p (xs @ ys) = posted f e p xs + posted f e p ys"
  by (simp add: posted_def)

lemma irr_upper: "js_upper ''IRR'' = ''IRR''"
  by code_simp

lemma input_row_amounts:
  assumes "br_currency r = None"
  shows "row_debit (v, input_item L i (n, r)) = fin_toDb L (br_debit r)" "row_credit (v, input_item L i (n, r)) = fin_toDb L (br_credit r)"
  using assms by (simp_all add: row_debit_def row_credit_def voucherItemCurrency_def input_item_def str_or_def irr_upper)

lemma posted_new_rows:
  assumes "no_currency items"
  shows "posted row_debit e (\<lambda>r. below E a (vi_account (snd r))) (map (Pair v) (map (input_item L i) (enumerate n items))) -
      posted row_credit e (\<lambda>r. below E a (vi_account (snd r))) (map (Pair v) (map (input_item L i) (enumerate n items))) =
    (if js_less e (v_date v) then 0 else rows_effect L E a items)"
  using assms
proof (induction items arbitrary: n)
  case (Cons r items)
  have acc: "vi_account (input_item L i (n, r)) = vr_account r" by (simp add: input_item_def)
  from Cons.prems have r: "br_currency r = None" "no_currency items" by (auto simp: no_currency_def)
  show ?case
    using Cons.IH [OF r(2), of "Suc n"] input_row_amounts [OF r(1), of v L i n] acc
    by (auto simp: posted_def rows_effect_def)
qed (simp add: posted_def rows_effect_def)

context decimal_js begin

lemma toDb_is_scaled: "scaled 4 (fin_toDb L x)"
  by (simp add: fin_toDb_def round_half_up scaled_half_up)

lemma adds_voucher_trial:
  assumes "adds_voucher L year date items s s'" "no_currency items" "trial_ok s" "isStorageDate date"
  shows "trial_ok s'" "net_below E e a s' = net_below E e a s + (if js_less e date then 0 else rows_effect L E a items)"
proof -
  from assms(1) obtain v where v: "v_date v = date" "posted_rows s' = posted_rows s @ map (Pair v) (map (input_item L (v_id v)) (enumerate 0 items))"
    unfolding adds_voucher_def Let_def by blast
  have new: "scaled 4 (row_debit (v, x)) \<and> scaled 4 (row_credit (v, x))" if "x \<in> set (map (input_item L (v_id v)) (enumerate n items))" for x n
    using that toDb_is_scaled by (auto simp: input_item_def intro!: row_amount_scaled)
  show "trial_ok s'" using assms(3,4) new v(1) unfolding trial_ok_def v(2) by auto
  show "net_below E e a s' = net_below E e a s + (if js_less e date then 0 else rows_effect L E a items)"
    using posted_new_rows [OF assms(2), of e E a v L "v_id v" 0] unfolding net_below_def v(2) posted_append v(1) [symmetric] by simp
qed

end

section \<open>The chart of accounts\<close>

text \<open>
  What a chart of accounts keeps: ids are unique; below a subsidiary revenue, cost or expense account there are only
  accounts of such a type, none of them subsidiary, and neither the summary account nor retained earnings.
\<close>

definition chart_ok :: "trial_env \<Rightarrow> bool" where
  "chart_ok E \<longleftrightarrow> distinct (map ac_id (getAllAccounts E)) \<and>
    (\<forall>a \<in> set (getAllAccounts E). ac_level a = ''subsidiary'' \<and> temporary_type (ac_type a) \<longrightarrow>
      \<not> below E (ac_id a) (te_summary E) \<and> \<not> below E (ac_id a) (te_retained E) \<and>
      (\<forall>b \<in> set (getAllAccounts E). below E (ac_id a) (ac_id b) \<longrightarrow> temporary_type (ac_type b) \<and> (ac_level b = ''subsidiary'' \<longrightarrow> b = a)))"

definition temporary_subsidiary :: "trial_env \<Rightarrow> account_row \<Rightarrow> bool" where
  "temporary_subsidiary E a \<longleftrightarrow> a \<in> set (getAllAccounts E) \<and> ac_level a = ''subsidiary'' \<and> temporary_type (ac_type a)"

lemma chart_okD:
  assumes "chart_ok E" "temporary_subsidiary E a"
  shows "\<not> below E (ac_id a) (te_summary E)" "\<not> below E (ac_id a) (te_retained E)"
    "b \<in> set (getAllAccounts E) \<Longrightarrow> below E (ac_id a) (ac_id b) \<Longrightarrow> temporary_type (ac_type b)"
    "b \<in> set (getAllAccounts E) \<Longrightarrow> below E (ac_id a) (ac_id b) \<Longrightarrow> ac_level b = ''subsidiary'' \<Longrightarrow> b = a"
  using assms unfolding chart_ok_def temporary_subsidiary_def by blast+

lemma below_account:
  assumes "below E a i" shows "\<exists>b. account_of E i = Some b \<and> b \<in> set (getAllAccounts E) \<and> ac_id b = i"
proof (cases "account_of E i")
  case None
  then have "climb (getAllAccounts E) [] (Some i) = []" by (subst climb.simps) (simp add: account_of_def)
  with assms show ?thesis by (simp add: below_def)
next
  case (Some b)
  then show ?thesis by (auto simp: account_of_def dest: find_SomeD)
qed

lemma below_refl:
  assumes "a \<in> set (getAllAccounts E)" shows "below E (ac_id a) (ac_id a)"
proof -
  have "List.find (\<lambda>b. ac_id b = ac_id a) (getAllAccounts E) \<noteq> None" using assms by (auto simp: find_None_iff)
  then obtain b where "List.find (\<lambda>b. ac_id b = ac_id a) (getAllAccounts E) = Some b" by auto
  then show ?thesis unfolding below_def by (subst climb.simps) simp
qed

lemma permanent_not_below:
  assumes "chart_ok E" "temporary_subsidiary E a" "r \<in> set (permanent_items L E d s)"
  shows "\<not> below E (ac_id a) (vr_account r)"
proof
  assume b: "below E (ac_id a) (vr_account r)"
  from assms(3) obtain q where q: "q \<in> set (detailed_rows L E (closing_trial d) s)" "permanent_row L E q = Some r"
    by (auto simp: permanent_items_def set_map_filter_eq)
  then have acc: "vr_account r = de_account q"
    by (auto simp: permanent_row_def closing_row_def Let_def case_prod_unfold split: if_splits)
  from below_account [OF b] obtain c where c: "account_of E (de_account q) = Some c" "c \<in> set (getAllAccounts E)" "ac_id c = vr_account r"
    by (auto simp: acc)
  then have t: "temporary_type (ac_type c)" using chart_okD(3) [OF assms(1,2)] b by metis
  have "de_type q = str_or (Some (ac_type c)) ''asset''"
    using q(1) c(1) by (auto simp: detailed_rows_def detailed_rows_of_def set_map_filter_eq detailed_row_of_def Let_def)
  then have "de_type q = ac_type c" using t by (auto simp: str_or_def temporary_type_def)
  with t have "permanent_row L E q = None" by (auto simp: permanent_row_def temporary_type_def Let_def case_prod_unfold)
  with q(2) show False by simp
qed

lemma profit_not_below:
  assumes "chart_ok E" "temporary_subsidiary E a" "r \<in> set (profit_items L E n)" shows "\<not> below E (ac_id a) (vr_account r)"
  using assms(3) chart_okD(1,2) [OF assms(1,2)] by (auto simp: profit_items_def closing_row_def Let_def split: if_splits)

lemma closing_currency [simp]: "br_currency (closing_row i t n m d c) = None"
  by (simp add: closing_row_def)

lemma permanent_row_currency: "permanent_row L E q = Some r \<Longrightarrow> br_currency r = None"
  by (auto simp: permanent_row_def Let_def case_prod_unfold split: if_splits)

lemma permanent_items_row: "r \<in> set (permanent_items L E d s) \<Longrightarrow> \<exists>q. permanent_row L E q = Some r"
  by (auto simp: permanent_items_def set_map_filter_eq)

lemma temporary_row_currency: "br_currency (temporary_row L t) = None"
  by (simp add: temporary_row_def Let_def)

lemma no_currency_items:
  "no_currency (temporary_items L E ts)" "no_currency (profit_items L E n)" "no_currency (permanent_items L E d s)"
  "no_currency (map opening_row (permanent_items L E d s))"
proof -
  show p: "no_currency (permanent_items L E d s)"
    using permanent_items_row permanent_row_currency unfolding no_currency_def by blast
  then show "no_currency (map opening_row (permanent_items L E d s))" by (simp add: no_currency_def opening_row_def)
  show "no_currency (temporary_items L E ts)" by (simp add: no_currency_def temporary_items_def Let_def temporary_row_currency ball_Un)
  show "no_currency (profit_items L E n)" by (simp add: no_currency_def profit_items_def Let_def)
qed


section \<open>The first voucher\<close>

lemma sum_map_filter:
  fixes f :: "'b \<Rightarrow> rat"
  shows "sum_list (map f (List.map_filter g xs)) = sum_list (map (\<lambda>x. case g x of None \<Rightarrow> 0 | Some y \<Rightarrow> f y) xs)"
  by (induction xs) (auto simp: List.map_filter_simps split: option.split)

lemma sum_single:
  fixes z :: rat
  assumes "distinct xs" "a \<in> set xs" shows "sum_list (map (\<lambda>x. if x = a then z else 0) xs) = z"
  using assms by (induction xs) (auto intro!: sum_list_zero)

definition closing_list :: "decimal_lib \<Rightarrow> trial_env \<Rightarrow> string \<Rightarrow> ledger_db \<Rightarrow> closing_account list" where
  "closing_list L E e s = List.map_filter (temporary_account L) (account_rows L E ''subsidiary'' (closing_trial e) s)"

abbreviation debit_below :: "trial_env \<Rightarrow> string \<Rightarrow> ledger_db \<Rightarrow> account_row \<Rightarrow> rat" where
  "debit_below E e s b \<equiv> posted row_debit e (\<lambda>r. below E (ac_id b) (vi_account (snd r))) (posted_rows s)"

abbreviation credit_below :: "trial_env \<Rightarrow> string \<Rightarrow> ledger_db \<Rightarrow> account_row \<Rightarrow> rat" where
  "credit_below E e s b \<equiv> posted row_credit e (\<lambda>r. below E (ac_id b) (vi_account (snd r))) (posted_rows s)"

lemma net_bound:
  assumes "books_fit s" shows "\<bar>debit_below E e s b - credit_below E e s b\<bar> < 10 ^ 11"
proof -
  let ?w = "\<lambda>r. \<bar>row_debit r\<bar> + \<bar>row_credit r\<bar>" and ?p = "\<lambda>r. \<not> js_less e (v_date (fst r)) \<and> below E (ac_id b) (vi_account (snd r))"
  have "debit_below E e s b - credit_below E e s b = sum_list (map (\<lambda>r. row_debit r - row_credit r) (filter ?p (posted_rows s)))"
    unfolding posted_def by (simp add: sum_list_subtractf)
  also have "\<bar>\<dots>\<bar> \<le> sum_list (map (\<lambda>r. \<bar>row_debit r - row_credit r\<bar>) (filter ?p (posted_rows s)))" by (rule abs_sum_list_le)
  also have "\<dots> \<le> sum_list (map ?w (filter ?p (posted_rows s)))" by (intro sum_list_mono) linarith
  also have "\<dots> \<le> sum_list (map ?w (posted_rows s))" by (rule sum_list_le_filter) simp
  finally show ?thesis using assms by (simp add: books_fit_def)
qed

context decimal_js begin

lemma account_rows_closing:
  assumes "trial_ok s" "isStorageDate e" "books_fit s" "chart_fits E"
  shows "account_rows L E ''subsidiary'' (closing_trial e) s =
    map (\<lambda>b. (b, balanceColumns L (plain_turnover (debit_below E e s b) (credit_below E e s b))))
      (filter (\<lambda>b. ac_level b = ''subsidiary'') (getAllAccounts E))"
  unfolding account_rows_def Let_def agg_exact [OF assms] ..

lemmas trial_numbers = posted_scaled [of _ row_debit] posted_scaled [of _ row_credit] posted_bound [of _ row_debit] posted_bound [of _ row_credit] net_bound

lemma trial_entry:
  assumes "trial_ok s" "books_fit s" "temporary_type (ac_type b)"
  shows "temporary_account L (b, balanceColumns L (plain_turnover (debit_below E e s b) (credit_below E e s b))) = None \<Longrightarrow> debit_below E e s b = credit_below E e s b"
    "temporary_account L (b, balanceColumns L (plain_turnover (debit_below E e s b) (credit_below E e s b))) = Some t \<Longrightarrow>
      ca_account t = b \<and> closing_effect t = credit_below E e s b - debit_below E e s b \<and> scaled 4 (ca_amount t) \<and> \<bar>ca_amount t\<bar> < 10 ^ 11 \<and> ca_amount t \<noteq> 0"
  using temporary_entry(1) [of "debit_below E e s b" "credit_below E e s b" b]
    temporary_entry(2) [of "debit_below E e s b" "credit_below E e s b" b t] assms trial_numbers by simp_all

end

context decimal_js begin

lemma closing_list_member:
  assumes "trial_ok s" "isStorageDate e" "books_fit s" "chart_fits E" "t \<in> set (closing_list L E e s)"
  shows "scaled 4 (ca_amount t)" "\<bar>ca_amount t\<bar> < 10 ^ 11" "ca_amount t \<noteq> 0"
proof -
  obtain b where b: "temporary_account L (b, balanceColumns L (plain_turnover (debit_below E e s b) (credit_below E e s b))) = Some t"
    using assms(5) by (auto simp: closing_list_def account_rows_closing [OF assms(1-4)] set_map_filter_eq)
  then have "temporary_type (ac_type b)" by (auto simp: temporary_account_def split: if_splits)
  from trial_entry(2) [OF assms(1,3) this b] show "scaled 4 (ca_amount t)" "\<bar>ca_amount t\<bar> < 10 ^ 11" "ca_amount t \<noteq> 0" by simp_all
qed

lemma toDb_fixed: "scaled 4 x \<Longrightarrow> fin_toDb L x = x"
  by (simp add: fin_toDb_def round_half_up half_up_scaled)

lemma temporary_row_effect:
  assumes "scaled 4 (ca_amount t)" "\<bar>ca_amount t\<bar> < 10 ^ 11"
  shows "fin_toDb L (br_debit (temporary_row L t)) - fin_toDb L (br_credit (temporary_row L t)) = closing_effect t"
    "vr_account (temporary_row L t) = ac_id (ca_account t)"
proof -
  have "fin_toDb L 0 = 0" using toDb_fixed [of 0] by simp
  then show "fin_toDb L (br_debit (temporary_row L t)) - fin_toDb L (br_credit (temporary_row L t)) = closing_effect t"
    "vr_account (temporary_row L t) = ac_id (ca_account t)"
    using assms by (simp_all add: temporary_row_def closing_row_def Let_def closing_effect_def toNumber_scaled toDb_fixed)
qed

lemma closing_list_effect:
  assumes "trial_ok s" "isStorageDate e" "books_fit s" "chart_fits E" "chart_ok E" "temporary_subsidiary E a"
  shows "rows_effect L E (ac_id a) (map (temporary_row L) (closing_list L E e s)) = - net_below E e (ac_id a) s"
proof -
  let ?g = "\<lambda>t. if below E (ac_id a) (ac_id (ca_account t)) then closing_effect t else 0"
  let ?c = "\<lambda>b. (b, balanceColumns L (plain_turnover (debit_below E e s b) (credit_below E e s b)))"
  let ?subs = "filter (\<lambda>b. ac_level b = ''subsidiary'') (getAllAccounts E)"
  have a: "a \<in> set ?subs" "temporary_type (ac_type a)" using assms(6) by (simp_all add: temporary_subsidiary_def)
  have dist: "distinct ?subs" using assms(5) by (auto simp: chart_ok_def distinct_map)
  have one: "(case temporary_account L (?c b) of None \<Rightarrow> 0 | Some t \<Rightarrow> ?g t) = (if b = a then - net_below E e (ac_id a) s else 0)"
    if b: "b \<in> set ?subs" for b
  proof (cases "temporary_account L (?c b)")
    case None
    with trial_entry(1) [OF assms(1,3) a(2), of e E] show ?thesis by (auto simp: net_below_def)
  next
    case (Some t)
    then have "temporary_type (ac_type b)" by (auto simp: temporary_account_def split: if_splits)
    note t = trial_entry(2) [OF assms(1,3) this Some]
    have "below E (ac_id a) (ac_id b) \<longleftrightarrow> b = a"
      using chart_okD(4) [OF assms(5,6)] below_refl [of a E] b a(1) by auto
    with t Some show ?thesis by (simp add: net_below_def)
  qed
  have "rows_effect L E (ac_id a) (map (temporary_row L) (closing_list L E e s)) = sum_list (map ?g (closing_list L E e s))"
    unfolding rows_effect_def map_map comp_def
    using temporary_row_effect closing_list_member [OF assms(1-4)] by (intro arg_cong [of _ _ sum_list] map_cong) auto
  also have "\<dots> = sum_list (map (\<lambda>b. case temporary_account L (?c b) of None \<Rightarrow> 0 | Some t \<Rightarrow> ?g t) ?subs)"
    unfolding closing_list_def sum_map_filter account_rows_closing [OF assms(1-4)] map_map comp_def ..
  also have "\<dots> = sum_list (map (\<lambda>b. if b = a then - net_below E e (ac_id a) s else 0) ?subs)"
    using one by (intro arg_cong [of _ _ sum_list] map_cong) auto
  also have "\<dots> = - net_below E e (ac_id a) s" by (rule sum_single [OF dist a(1)])
  finally show ?thesis .
qed

lemma dec_sum_single: "scaled 4 x \<Longrightarrow> \<bar>x\<bar> < 10 ^ 11 \<Longrightarrow> dec_sum L [x] = x"
  using add_scaled4 [of 0 x] by (simp add: dec_sum_def)

lemma temporary_items_enough:
  assumes "trial_ok s" "isStorageDate e" "books_fit s" "chart_fits E" "closing_list L E e s \<noteq> []"
  shows "2 \<le> length (temporary_items L E (closing_list L E e s))"
proof (cases "\<exists>t. closing_list L E e s = [t]")
  case True
  then obtain t where t: "closing_list L E e s = [t]" by auto
  note m = closing_list_member [OF assms(1-4), of t, unfolded t]
  have "fin_subtract L (dec_sum L (amounts_of True [t])) (dec_sum L (amounts_of False [t])) \<noteq> 0"
    using m dec_sum_single [of "ca_amount t"] subtract_scaled4 [of "ca_amount t" 0] subtract_scaled4 [of 0 "ca_amount t"]
    by (cases "ca_debit t") (simp_all add: amounts_of_def dec_sum_def)
  then show ?thesis unfolding t temporary_items_def Let_def by auto
next
  case False
  then have "2 \<le> length (closing_list L E e s)" using assms(5) by (cases "closing_list L E e s" rule: remdups_adj.cases) auto
  then show ?thesis by (simp add: temporary_items_def Let_def)
qed

lemma temporary_items_effect:
  assumes "trial_ok s" "isStorageDate e" "books_fit s" "chart_fits E" "chart_ok E" "temporary_subsidiary E a"
  shows "rows_effect L E (ac_id a) (temporary_items L E (closing_list L E e s)) = - net_below E e (ac_id a) s"
proof -
  have "rows_effect L E (ac_id a) [closing_row (te_summary E) t i n d c] = 0" for t i n d c
    using chart_okD(1) [OF assms(5,6)] by (simp add: rows_effect_def closing_row_def)
  then show ?thesis
    using closing_list_effect [OF assms] by (simp add: temporary_items_def Let_def rows_effect_append) (simp add: rows_effect_def)
qed

end
end
