(* ===== verification/ClosingSteps.thy ===== *)
theory ClosingSteps
  imports ClosingRun
begin

text \<open>
  A whole closing: what it leaves of the journal and of the fiscal years, and the trial balance afterwards.
\<close>

section \<open>What a closing may add\<close>

definition closing_grows :: "int \<Rightarrow> string list \<Rightarrow> ledger_db \<Rightarrow> ledger_db \<Rightarrow> bool" where
  "closing_grows year days s s' \<longleftrightarrow> ledger_wf s' \<and> trial_ok s' \<and> year_closed s' = year_closed s \<and>
    (\<forall>i e. journal_of s i = Some e \<longrightarrow> journal_of s' i = Some e) \<and>
    (\<forall>i v rows. journal_of s' i = Some (v, rows) \<longrightarrow> journal_of s i = Some (v, rows) \<or>
      (v_status v = VApproved \<and> v_year v = Some year \<and> v_date v \<in> set days))"

lemma closing_grows_refl: "ledger_wf s \<Longrightarrow> trial_ok s \<Longrightarrow> closing_grows year days s s"
  by (simp add: closing_grows_def)

lemma closing_grows_trans:
  assumes "closing_grows year days s t" "closing_grows year days t u" shows "closing_grows year days s u"
proof -
  have "journal_of s i = Some (v, rows) \<or> (v_status v = VApproved \<and> v_year v = Some year \<and> v_date v \<in> set days)"
    if "journal_of u i = Some (v, rows)" for i v rows
    using that assms unfolding closing_grows_def by blast
  then show ?thesis using assms unfolding closing_grows_def by simp
qed

lemma js_less_irrefl: "\<not> js_less s s"
  by (induction s) auto

context decimal_js begin

lemma closing_voucher_step:
  assumes "closing_voucher L E p year date t ref items r = Inr r'" "ledger_wf (snd r)" "trial_ok (snd r)" "isStorageDate date"
    "date \<in> set days" "no_currency items"
  shows "closing_grows year days (snd r) (snd r')"
    "net_below E e a (snd r') = net_below E e a (snd r) + (if js_less e date then 0 else rows_effect L E a items)"
proof -
  obtain created s where r: "r = (created, s)" by (cases r)
  from assms(1) obtain i s' where c: "createJournalVoucher L (te_books E) (closing_data p year date t ref items) s = Inr (i, s')"
    and r': "r' = (created @ [(i, ref, t)], s')" by (auto simp: r closing_voucher_def res_bind_Inr)
  have add: "adds_voucher L year date items s s'"
    using create_approved(2) [OF c] assms(2,4) by (simp add: r closing_data_def)
  note tr = adds_voucher_trial [OF add assms(6) assms(3) [unfolded r snd_conv] assms(4)]
  show "net_below E e a (snd r') = net_below E e a (snd r) + (if js_less e date then 0 else rows_effect L E a items)"
    using tr(2) by (simp add: r r')
  from add obtain v rows where v: "v_id v = ld_next_id s" "v_status v = VApproved" "v_year v = Some year" "v_date v = date"
    "journal_of s' = (journal_of s)(v_id v \<mapsto> (v, rows))" "ledger_wf s'" "year_closed s' = year_closed s"
    unfolding adds_voucher_def Let_def by blast
  have "journal_of s (v_id v) = None" using journal_fresh [of s "v_id v"] assms(2) v(1) by (simp add: r)
  then show "closing_grows year days (snd r) (snd r')"
    using v tr(1) assms(5) by (auto simp: closing_grows_def r r')
qed

text \<open>A voucher that is issued only under a condition.\<close>

lemma closing_voucher_if:
  assumes "(if issued then closing_voucher L E p year date t ref items r else Inr r) = Inr r'" "ledger_wf (snd r)" "trial_ok (snd r)"
    "isStorageDate date" "date \<in> set days" "no_currency items"
  shows "closing_grows year days (snd r) (snd r')"
    "net_below E e a (snd r') = net_below E e a (snd r) + (if issued \<and> \<not> js_less e date then rows_effect L E a items else 0)"
  using assms closing_voucher_step(1) [where days = days, of E p year date t ref items r r']
    closing_voucher_step(2) [where a = a and e = e and days = days, of E p year date t ref items r r'] closing_grows_refl
  by (auto split: if_splits)

lemma close_vouchers_step:
  assumes "close_vouchers L E p d preview s = Inr (created, s')" "ledger_wf s" "trial_ok s" "isStorageDate (cl_closing d)"
    "isStorageDate (cl_opening d)" "js_less (cl_closing d) (cl_opening d)" "books_fit s" "chart_fits E" "chart_ok E"
    "pv_temporary preview = closing_list L E (cl_closing d) s"
  shows "closing_grows (cl_year d) [cl_closing d, cl_opening d] s s'"
    "temporary_subsidiary E a \<Longrightarrow> net_below E (cl_closing d) (ac_id a) s' = 0"
proof -
  let ?e = "cl_closing d" and ?days = "[cl_closing d, cl_opening d]" and ?year = "cl_year d"
  let ?items1 = "temporary_items L E (pv_temporary preview)" and ?items2 = "profit_items L E (pv_net_profit preview)"
  from assms(1) [unfolded close_vouchers_def Let_def res_bind_Inr] obtain r1 r2 r3 where
    s1: "(if pv_temporary preview \<noteq> [] \<and> length ?items1 \<ge> 2 then closing_voucher L E p ?year ?e ''closing'' (year_ref ''CLOSE-TEMP-'' ?year) ?items1 ([], s)
      else Inr ([], s)) = Inr r1" and
    s2: "(if pv_net_profit preview \<noteq> 0 then closing_voucher L E p ?year ?e ''closing'' (year_ref ''CLOSE-PROFIT-'' ?year) ?items2 r1 else Inr r1) = Inr r2" and
    s3: "(if length (permanent_items L E ?e (snd r2)) \<ge> 2 then closing_voucher L E p ?year ?e ''closing'' (year_ref ''CLOSING-'' ?year)
      (permanent_items L E ?e (snd r2)) r2 else Inr r2) = Inr r3" and
    s4: "(if cg_open_next p \<and> length (permanent_items L E ?e (snd r2)) \<ge> 2 then closing_voucher L E p ?year (cl_opening d) ''opening''
      (year_ref ''OPENING-'' (?year + 1)) (map opening_row (permanent_items L E ?e (snd r2))) r3 else Inr r3) = Inr (created, s')"
    by auto
  note g1 = closing_voucher_if [OF s1, unfolded snd_conv, OF assms(2,3,4) _ no_currency_items(1), of ?days]
  have t1: "closing_grows ?year ?days s (snd r1)" by (rule g1) simp
  then have w1: "ledger_wf (snd r1)" "trial_ok (snd r1)" by (simp_all add: closing_grows_def)
  note g2 = closing_voucher_if [OF s2 w1 assms(4) _ no_currency_items(2), of ?days]
  have t2: "closing_grows ?year ?days (snd r1) (snd r2)" by (rule g2) simp
  then have w2: "ledger_wf (snd r2)" "trial_ok (snd r2)" by (simp_all add: closing_grows_def)
  note g3 = closing_voucher_if [OF s3 w2 assms(4) _ no_currency_items(3), of ?days]
  have t3: "closing_grows ?year ?days (snd r2) (snd r3)" by (rule g3) simp
  then have w3: "ledger_wf (snd r3)" "trial_ok (snd r3)" by (simp_all add: closing_grows_def)
  note g4 = closing_voucher_if [OF s4 w3 assms(5) _ no_currency_items(4), of ?days, unfolded snd_conv]
  have t4: "closing_grows ?year ?days (snd r3) s'" by (rule g4) simp
  show "closing_grows ?year ?days s s'" by (rule closing_grows_trans [OF closing_grows_trans [OF closing_grows_trans [OF t1 t2] t3] t4])
  assume a: "temporary_subsidiary E a"
  have no_self: "\<not> js_less ?e ?e" by (rule js_less_irrefl)
  show "net_below E ?e (ac_id a) s' = 0"
  proof -
    have "pv_temporary preview \<noteq> [] \<Longrightarrow> length ?items1 \<ge> 2"
      unfolding assms(10) by (rule temporary_items_enough [OF assms(3,4,7,8)])
    moreover have "rows_effect L E (ac_id a) ?items1 = - net_below E ?e (ac_id a) s"
      unfolding assms(10) by (rule temporary_items_effect [OF assms(3,4,7-9) a])
    moreover have "pv_temporary preview = [] \<Longrightarrow> net_below E ?e (ac_id a) s = 0"
      using closing_list_effect [OF assms(3,4,7-9) a] assms(10) by (simp add: rows_effect_def)
    ultimately have "net_below E ?e (ac_id a) (snd r1) = 0"
      using g1(2) [of ?e "ac_id a"] no_self by (auto split: if_splits)
    moreover have "rows_effect L E (ac_id a) ?items2 = 0" by (rule rows_effect_none) (rule profit_not_below [OF assms(9) a])
    moreover have "rows_effect L E (ac_id a) (permanent_items L E ?e (snd r2)) = 0"
      by (rule rows_effect_none) (rule permanent_not_below [OF assms(9) a])
    ultimately show ?thesis
      using g2(2) [of ?e "ac_id a"] g3(2) [of ?e "ac_id a"] g4(2) [of ?e "ac_id a"] assms(6) by simp
  qed
qed

end

section \<open>The whole closing\<close>

lemma closing_days:
  assumes "resolveFiscalClosingDates raw c o' = Inr d"
  obtains b where "jalaliYearBounds (cl_year d) = Some b" "d = \<lparr>cl_year = cl_year d, cl_start = firstDay b, cl_closing = lastDay b, cl_opening = nextFirstDay b\<rparr>"
    "storage_day (firstDay b) (jyear_start (cl_year d))" "storage_day (lastDay b) (jyear_start (cl_year d + 1) - 1)"
    "storage_day (nextFirstDay b) (jyear_start (cl_year d + 1))"
proof -
  from assms obtain b where b: "jalaliYearBounds (cl_year d) = Some b"
    "d = \<lparr>cl_year = cl_year d, cl_start = firstDay b, cl_closing = lastDay b, cl_opening = nextFirstDay b\<rparr>"
    by (auto simp: resolveFiscalClosingDates_def res_bind_Inr split: option.splits)
  then have "1300 \<le> cl_year d" "cl_year d < 1500"
    by (auto simp: jalaliYearBounds_def JALALI_MIN_YEAR_def JALALI_MAX_YEAR_def split: if_splits)
  from jalaliYearBounds_days [OF this] b show thesis by (metis option.inject that)
qed

lemma storage_day_isStorage: "storage_day t n \<Longrightarrow> isStorageDate t"
  using storage_day_stored stored_isStorageDate by blast

lemma draft_of_year:
  assumes "ledger_wf s" "resolveFiscalClosingDates raw c o' = Inr d" "findDraftVouchersOfYear E d s = []"
    "v \<in> set (ld_vouchers s)" "\<not> v_deleted v" "v_status v = VDraft"
  shows "yearOf (te_books E) (v_date v) \<noteq> cl_year d"
proof
  assume y: "yearOf (te_books E) (v_date v) = cl_year d"
  obtain b where "jalaliYearBounds (cl_year d) = Some b"
    and b: "d = \<lparr>cl_year = cl_year d, cl_start = firstDay b, cl_closing = lastDay b, cl_opening = nextFirstDay b\<rparr>"
    "storage_day (firstDay b) (jyear_start (cl_year d))" "storage_day (lastDay b) (jyear_start (cl_year d + 1) - 1)"
    "storage_day (nextFirstDay b) (jyear_start (cl_year d + 1))"
    by (rule closing_days [OF assms(2)])
  have "isStorageDate (v_date v)" by (rule ledger_wfD(8) [OF assms(1,4)])
  then have "toStorageDate (DateText (v_date v)) = Some (v_date v)" "v_date v \<noteq> ''''" by (simp_all add: isStorageDate_def)
  then obtain n where n: "storage_day (v_date v) n" by (rule toStorageDate_day)
  have "jyear_start (cl_year d) \<le> n" "n < jyear_start (cl_year d + 1)"
    using resolve_year_window [OF n, of "resolveJalaliFiscalYear 0 (le_today (te_books E))"] y [unfolded yearOf_def] by simp_all
  then have "\<not> js_less (v_date v) (cl_start d)" "js_less (v_date v) (cl_opening d)"
    by (subst b(1), simp add: storage_day_less [OF n b(2)] storage_day_less [OF n b(4)])+
  then have "draft_in_year E d v" using assms(5,6) y by (simp add: draft_in_year_def)
  moreover have "set (findDraftVouchersOfYear E d s) = {v \<in> set (ld_vouchers s). draft_in_year E d v}"
    by (simp add: findDraftVouchersOfYear_def)
  ultimately show False using assms(3,4) by auto
qed

lemma earlier_open_ensureRow: "findEarlierOpenYears E (ensureRow y s) year = findEarlierOpenYears E s year"
proof -
  have f: "filter (\<lambda>p. fp_closed p \<and> fp_year p < year) (ld_periods (ensureRow y s)) = filter (\<lambda>p. fp_closed p \<and> fp_year p < year) (ld_periods s)"
    by (auto simp: ensureRow_def split: option.split)
  have e: "earliestVoucherYear E (ensureRow y s) = earliestVoucherYear E s" by (simp add: earliestVoucherYear_def)
  have v: "fiscalYearsWithVouchers E (ensureRow y s) = fiscalYearsWithVouchers E s" by (intro ext) (simp add: fiscalYearsWithVouchers_def)
  show ?thesis unfolding findEarlierOpenYears_def f e v ..
qed

lemma markClosed_simps [simp]:
  "ld_vouchers (markClosed year v who s) = ld_vouchers s" "ld_items (markClosed year v who s) = ld_items s"
  by (simp_all add: markClosed_def Let_def split: option.split)

lemma markClosed_same [simp]: "journal_of (markClosed year v who s) = journal_of s" "posted_rows (markClosed year v who s) = posted_rows s"
  by (rule journal_cong; simp) (rule posted_rows_cong; simp)

lemma execute_Inr:
  assumes "executeFiscalYearClosing L E p s = Inr (r, s')"
  obtains d preview created s2 where "resolveFiscalClosingDates (cg_year p) (cg_closing p) (cg_opening p) = Inr d"
    "isFiscalYearEnded (cl_year d) (le_today (te_books E)) = Inr True" "\<not> year_closed s (cl_year d)"
    "findEarlierOpenYears (te_books E) s (cl_year d) = []" "preview_at L E d (ensureRow (cl_year d) s) = Inr preview" "pv_drafts preview = []"
    "close_vouchers L E p d preview (ensureRow (cl_year d) s) = Inr (created, s2)" "cr_year r = cl_year d"
    "cr_net_profit r = pv_net_profit preview" "s' = markClosed (cl_year d) (closing_id (cl_year d) created) (cg_username p) s2"
proof -
  note a = assms [unfolded executeFiscalYearClosing_def res_bind_Inr]
  from a obtain d s1 preview where d: "resolveFiscalClosingDates (cg_year p) (cg_closing p) (cg_opening p) = Inr d"
    "assertFiscalYearEnded (cl_year d) (le_today (te_books E)) = Inr ()" "lockForClosing (cl_year d) s = Inr s1"
    "assertEarlierYearsClosed (te_books E) s1 (cl_year d) = Inr ()" "preview_at L E d s1 = Inr preview"
    "(if pv_drafts preview \<noteq> [] then Inl (YearHasDrafts (length (pv_drafts preview)))
      else res_bind (close_vouchers L E p d preview s1) (\<lambda>(created, s2).
        Inr (\<lparr>cr_year = cl_year d, cr_net_profit = pv_net_profit preview, cr_vouchers = map fst created\<rparr>,
          markClosed (cl_year d) (closing_id (cl_year d) created) (cg_username p) s2))) = Inr (r, s')" by auto
  then have dr: "pv_drafts preview = []" by (auto split: if_splits)
  from d(6) dr obtain created s2 where c: "close_vouchers L E p d preview s1 = Inr (created, s2)"
    "r = \<lparr>cr_year = cl_year d, cr_net_profit = pv_net_profit preview, cr_vouchers = map fst created\<rparr>"
    "s' = markClosed (cl_year d) (closing_id (cl_year d) created) (cg_username p) s2" by (auto simp: res_bind_Inr)
  have s1: "s1 = ensureRow (cl_year d) s" "\<not> year_closed s (cl_year d)"
    using d(3) by (auto simp: lockForClosing_def Let_def split: if_splits)
  have "isFiscalYearEnded (cl_year d) (le_today (te_books E)) = Inr True"
    using d(2) by (auto simp: assertFiscalYearEnded_def res_bind_Inr res_guard_Inr)
  moreover have "findEarlierOpenYears (te_books E) s (cl_year d) = []"
    using d(4) by (simp add: assertEarlierYearsClosed_def Let_def s1(1) earlier_open_ensureRow split: if_splits)
  ultimately show thesis using d(1,5) dr c s1 that by simp
qed

lemma preview_Inr:
  assumes "preview_at L E d s = Inr preview"
  shows "pv_drafts preview = findDraftVouchersOfYear E d s" "pv_temporary preview = closing_list L E (cl_closing d) s"
  using assms by (auto simp: preview_at_def res_bind_Inr Let_def closing_list_def)

section \<open>The profit of the year\<close>

definition profit_below :: "trial_env \<Rightarrow> string \<Rightarrow> ledger_db \<Rightarrow> rat" where
  "profit_below E e s = sum_list (map (\<lambda>b. credit_below E e s b - debit_below E e s b)
    (filter (\<lambda>b. ac_level b = ''subsidiary'' \<and> temporary_type (ac_type b)) (getAllAccounts E)))"

lemma map_filter_length: "length (List.map_filter g xs) \<le> length xs"
  by (induction xs) (auto simp: List.map_filter_simps split: option.split)

lemma sum_list_le_count:
  assumes "\<And>x. x \<in> set xs \<Longrightarrow> f x \<le> (k::rat)" shows "sum_list (map f xs) \<le> of_nat (length xs) * k"
  using assms by (induction xs) (auto simp: algebra_simps intro: add_mono)

context decimal_js begin

lemma dec_sum_exact:
  assumes "\<And>x. x \<in> set xs \<Longrightarrow> scaled 4 x" "sum_list (map abs xs) < 10 ^ 26" shows "dec_sum L xs = sum_list xs"
  using fm_sum_exact [of xs "\<lambda>x. x"] assms by (simp add: dec_sum_def fm_sum_def)

lemma closing_list_entry:
  assumes "trial_ok s" "isStorageDate e" "books_fit s" "chart_fits E" "t \<in> set (closing_list L E e s)"
  shows "temporary_type (ac_type (ca_account t))" "closing_effect t = (if ac_type (ca_account t) = ''revenue'' then ca_balance t else - ca_balance t)"
    "\<bar>ca_balance t\<bar> = ca_amount t"
proof -
  obtain c where c: "temporary_account L c = Some t" using assms(5) by (auto simp: closing_list_def set_map_filter_eq)
  then show "temporary_type (ac_type (ca_account t))" "closing_effect t = (if ac_type (ca_account t) = ''revenue'' then ca_balance t else - ca_balance t)"
    "\<bar>ca_balance t\<bar> = ca_amount t"
    by (auto simp: temporary_account_def closing_effect_def Let_def case_prod_unfold split: if_splits)
qed

lemma balances_exact:
  assumes "trial_ok s" "isStorageDate e" "books_fit s" "chart_fits E"
  shows "dec_sum L (balances_of q (closing_list L E e s)) = sum_list (balances_of q (closing_list L E e s))"
    "\<bar>sum_list (balances_of q (closing_list L E e s))\<bar> \<le> 10 ^ 17" "scaled 4 (sum_list (balances_of q (closing_list L E e s)))"
proof -
  let ?ts = "filter (\<lambda>t. q (ac_type (ca_account t))) (closing_list L E e s)"
  note m = closing_list_member [OF assms] and en = closing_list_entry [OF assms]
  have sc: "scaled 4 (ca_balance t)" if "t \<in> set (closing_list L E e s)" for t
  proof -
    have "ca_balance t = ca_amount t \<or> ca_balance t = - ca_amount t" using en(3) [OF that] by linarith
    then show ?thesis using m(1) [OF that] by auto
  qed
  have n: "length ?ts \<le> 10 ^ 6"
  proof -
    have "length ?ts \<le> length (closing_list L E e s)" by simp
    also have "\<dots> \<le> length (getAllAccounts E)"
      unfolding closing_list_def account_rows_closing [OF assms] by (rule order_trans [OF map_filter_length]) simp
    finally show ?thesis using assms(4) unfolding chart_fits_def by linarith
  qed
  have "sum_list (map (\<lambda>t. \<bar>ca_balance t\<bar>) ?ts) \<le> of_nat (length ?ts) * 10 ^ 11"
  proof (rule sum_list_le_count)
    fix t assume "t \<in> set ?ts"
    then have "t \<in> set (closing_list L E e s)" by simp
    from m(2) [OF this] en(3) [OF this] show "\<bar>ca_balance t\<bar> \<le> 10 ^ 11" by simp
  qed
  also have "\<dots> \<le> of_nat (10 ^ 6) * 10 ^ 11" using n by (intro mult_right_mono of_nat_mono) auto
  finally have w: "sum_list (map (\<lambda>t. \<bar>ca_balance t\<bar>) ?ts) \<le> 10 ^ 17" by simp
  then show "\<bar>sum_list (balances_of q (closing_list L E e s))\<bar> \<le> 10 ^ 17"
    using abs_sum_list_le [of ca_balance ?ts] unfolding balances_of_def by linarith
  show "scaled 4 (sum_list (balances_of q (closing_list L E e s)))"
    unfolding balances_of_def using sc by (auto intro!: scaled_sum_list4)
  show "dec_sum L (balances_of q (closing_list L E e s)) = sum_list (balances_of q (closing_list L E e s))"
    by (rule dec_sum_exact) (use sc w in \<open>auto simp: balances_of_def comp_def\<close>)
qed

end

context decimal_js begin

lemma three_types:
  assumes "\<And>t. t \<in> set ts \<Longrightarrow> temporary_type (ac_type (ca_account t)) \<and>
      closing_effect t = (if ac_type (ca_account t) = ''revenue'' then ca_balance t else - ca_balance t)"
  shows "sum_list (balances_of (\<lambda>t. t = ''revenue'') ts) - sum_list (balances_of (\<lambda>t. t = ''cost_of_sales'') ts) -
    sum_list (balances_of (\<lambda>t. t = ''expense'') ts) = sum_list (map closing_effect ts)"
  using assms
proof (induction ts)
  case (Cons t ts)
  have "temporary_type (ac_type (ca_account t))" using Cons.prems by simp
  then consider "ac_type (ca_account t) = ''revenue''" | "ac_type (ca_account t) = ''cost_of_sales''" | "ac_type (ca_account t) = ''expense''"
    by (auto simp: temporary_type_def)
  then show ?case using Cons by cases (simp_all add: balances_of_def)
qed (simp add: balances_of_def)

lemma closing_list_profit:
  assumes "trial_ok s" "isStorageDate e" "books_fit s" "chart_fits E"
  shows "sum_list (map closing_effect (closing_list L E e s)) = profit_below E e s"
proof -
  let ?c = "\<lambda>b. (b, balanceColumns L (plain_turnover (debit_below E e s b) (credit_below E e s b)))"
  let ?subs = "filter (\<lambda>b. ac_level b = ''subsidiary'') (getAllAccounts E)"
  have one: "(case temporary_account L (?c b) of None \<Rightarrow> 0 | Some t \<Rightarrow> closing_effect t) =
      (if temporary_type (ac_type b) then credit_below E e s b - debit_below E e s b else 0)" for b
  proof (cases "temporary_type (ac_type b)")
    case True
    show ?thesis
      using trial_entry(1) [OF assms(1,3) True, of e E] trial_entry(2) [OF assms(1,3) True, of e E] True by (auto split: option.split)
  qed (simp add: temporary_account_def)
  have "sum_list (map closing_effect (closing_list L E e s)) =
      sum_list (map (\<lambda>b. case temporary_account L (?c b) of None \<Rightarrow> 0 | Some t \<Rightarrow> closing_effect t) ?subs)"
    unfolding closing_list_def sum_map_filter account_rows_closing [OF assms] map_map comp_def ..
  also have "\<dots> = sum_list (map (\<lambda>b. credit_below E e s b - debit_below E e s b) (filter (\<lambda>b. temporary_type (ac_type b)) ?subs))"
    unfolding one sum_filter_if ..
  finally show ?thesis by (simp add: profit_below_def conj_commute)
qed

lemma preview_profit:
  assumes "preview_at L E d s = Inr preview" "trial_ok s" "isStorageDate (cl_closing d)" "books_fit s" "chart_fits E"
  shows "pv_net_profit preview = fin_toNumber L (profit_below E (cl_closing d) s)"
proof -
  let ?ts = "closing_list L E (cl_closing d) s"
  let ?R = "balances_of (\<lambda>t. t = ''revenue'') ?ts" and ?C = "balances_of (\<lambda>t. t = ''cost_of_sales'') ?ts" and ?X = "balances_of (\<lambda>t. t = ''expense'') ?ts"
  note b = balances_exact [OF assms(2-5)]
  have bound: "\<bar>x\<bar> \<le> 2 * 10 ^ 17 \<Longrightarrow> \<bar>y\<bar> \<le> 10 ^ 17 \<Longrightarrow> \<bar>x - y\<bar> < 10 ^ 26" for x y :: rat
    using abs_triangle_ineq4 [of x y] by simp
  have s1: "fin_subtract L (sum_list ?R) (sum_list ?C) = sum_list ?R - sum_list ?C"
    using b(2) [of "\<lambda>t. t = ''revenue''"] b(2) [of "\<lambda>t. t = ''cost_of_sales''"] by (intro subtract_scaled26 b(3) bound) simp_all
  have "\<bar>sum_list ?R - sum_list ?C\<bar> \<le> 2 * 10 ^ 17"
    using b(2) [of "\<lambda>t. t = ''revenue''"] b(2) [of "\<lambda>t. t = ''cost_of_sales''"] abs_triangle_ineq4 [of "sum_list ?R" "sum_list ?C"] by linarith
  then have s2: "fin_subtract L (sum_list ?R - sum_list ?C) (sum_list ?X) = sum_list ?R - sum_list ?C - sum_list ?X"
    using b(2) [of "\<lambda>t. t = ''expense''"] by (intro subtract_scaled26 scaled_diff b(3) bound)
  have "pv_net_profit preview = fin_toNumber L (fin_round L (fin_subtract L (fin_subtract L (dec_sum L ?R) (dec_sum L ?C)) (dec_sum L ?X)) 4)"
    using assms(1) by (auto simp: preview_at_def res_bind_Inr Let_def closing_list_def)
  also have "\<dots> = fin_toNumber L (sum_list ?R - sum_list ?C - sum_list ?X)"
    using b(3) by (simp add: b(1) s1 s2 round_half_up half_up_scaled scaled_diff)
  also have "sum_list ?R - sum_list ?C - sum_list ?X = profit_below E (cl_closing d) s"
    using three_types [of ?ts] closing_list_entry [OF assms(2-5)] closing_list_profit [OF assms(2-5)] by simp
  finally show ?thesis .
qed

text \<open>The trial balance of the last day once nothing is left below an account.\<close>

lemma trial_row_settled:
  assumes "trial_ok s" "isStorageDate e" "books_fit s" "chart_fits E" "(a, c) \<in> set (account_rows L E ''subsidiary'' (closing_trial e) s)"
    "net_below E e (ac_id a) s = 0"
  shows "bc_debit_balance c = 0 \<and> bc_credit_balance c = 0 \<and> bc_debit_turnover c = bc_credit_turnover c"
proof -
  have c: "c = balanceColumns L (plain_turnover (debit_below E e s a) (credit_below E e s a))"
    using assms(5) by (auto simp: account_rows_closing [OF assms(1-4)])
  show ?thesis
    using balance_plain [of "debit_below E e s a" "credit_below E e s a"] trial_numbers assms(1,3,6) unfolding c net_below_def by simp
qed

lemma trial_rows_accounts:
  assumes "(a, c) \<in> set (account_rows L E ''subsidiary'' P s)" "temporary_type (ac_type a)" shows "temporary_subsidiary E a"
  using assms by (auto simp: account_rows_def Let_def temporary_subsidiary_def)

lemma closing_exact:
  assumes "books_ok s" "books_fit s" "chart_fits E" "chart_ok E" "executeFiscalYearClosing L E p s = Inr (r, s')" "books_fit s'"
  obtains b where "jalaliYearBounds (cr_year r) = Some b" "isFiscalYearEnded (cr_year r) (le_today (te_books E)) = Inr True" "\<not> year_closed s (cr_year r)"
    "findEarlierOpenYears (te_books E) s (cr_year r) = []"
    "\<And>v. v \<in> set (ld_vouchers s) \<Longrightarrow> \<not> v_deleted v \<Longrightarrow> v_status v = VDraft \<Longrightarrow> yearOf (te_books E) (v_date v) \<noteq> cr_year r"
    "cr_net_profit r = fin_toNumber L (profit_below E (lastDay b) s)" "year_closed s' = (year_closed s)(cr_year r := True)"
    "\<And>i e. journal_of s i = Some e \<Longrightarrow> journal_of s' i = Some e"
    "\<And>i v rows. journal_of s' i = Some (v, rows) \<Longrightarrow> journal_of s i = Some (v, rows) \<or>
      (v_status v = VApproved \<and> v_year v = Some (cr_year r) \<and> v_date v \<in> {lastDay b, nextFirstDay b})"
    "\<And>a c. (a, c) \<in> set (account_rows L E ''subsidiary'' (closing_trial (lastDay b)) s') \<Longrightarrow> temporary_type (ac_type a) \<Longrightarrow>
      bc_debit_balance c = 0 \<and> bc_credit_balance c = 0 \<and> bc_debit_turnover c = bc_credit_turnover c"
proof -
  from assms(5) obtain d preview created s2 where x: "resolveFiscalClosingDates (cg_year p) (cg_closing p) (cg_opening p) = Inr d"
    "isFiscalYearEnded (cl_year d) (le_today (te_books E)) = Inr True" "\<not> year_closed s (cl_year d)"
    "findEarlierOpenYears (te_books E) s (cl_year d) = []" "preview_at L E d (ensureRow (cl_year d) s) = Inr preview" "pv_drafts preview = []"
    "close_vouchers L E p d preview (ensureRow (cl_year d) s) = Inr (created, s2)" "cr_year r = cl_year d"
    "cr_net_profit r = pv_net_profit preview" "s' = markClosed (cl_year d) (closing_id (cl_year d) created) (cg_username p) s2"
    by (rule execute_Inr)
  let ?s1 = "ensureRow (cl_year d) s"
  obtain b where jb: "jalaliYearBounds (cl_year d) = Some b"
    and b: "d = \<lparr>cl_year = cl_year d, cl_start = firstDay b, cl_closing = lastDay b, cl_opening = nextFirstDay b\<rparr>"
    "storage_day (firstDay b) (jyear_start (cl_year d))" "storage_day (lastDay b) (jyear_start (cl_year d + 1) - 1)"
    "storage_day (nextFirstDay b) (jyear_start (cl_year d + 1))"
    by (rule closing_days [OF x(1)])
  have days: "cl_closing d = lastDay b" "cl_opening d = nextFirstDay b" by (subst b(1), simp)+
  have stored: "isStorageDate (lastDay b)" "isStorageDate (nextFirstDay b)" "js_less (lastDay b) (nextFirstDay b)"
    using storage_day_isStorage b(3,4) storage_day_less [OF b(3,4)] by auto
  have wf: "ledger_wf s" "ledger_wf ?s1" and t: "trial_ok ?s1" and f: "books_fit ?s1"
    using assms(1,2) books_trial_ok [OF assms(1)] by (simp_all add: books_ok_def trial_ok_def books_fit_def)
  note pre = preview_Inr [OF x(5)]
  note st = close_vouchers_step [OF x(7) wf(2) t _ _ _ f assms(3,4) pre(2), unfolded days, OF stored]
  have g: "closing_grows (cl_year d) [lastDay b, nextFirstDay b] ?s1 s2" by (rule st(1))
  have t': "trial_ok s'" using g unfolding x(10) by (simp add: closing_grows_def trial_ok_def)
  have net: "net_below E (lastDay b) (ac_id a) s' = 0" if "temporary_subsidiary E a" for a
    using st(2) [OF that] unfolding x(10) by (simp add: net_below_def)
  have zero: "bc_debit_balance c = 0 \<and> bc_credit_balance c = 0 \<and> bc_debit_turnover c = bc_credit_turnover c"
    if "(a, c) \<in> set (account_rows L E ''subsidiary'' (closing_trial (lastDay b)) s')" "temporary_type (ac_type a)" for a c
    by (rule trial_row_settled [OF t' stored(1) assms(6,3) that(1) net [OF trial_rows_accounts [OF that]]])
  have profit: "cr_net_profit r = fin_toNumber L (profit_below E (lastDay b) s)"
    using preview_profit [OF x(5) t _ f assms(3)] stored(1) x(9) by (simp add: days profit_below_def)
  have "findDraftVouchersOfYear E d s = findDraftVouchersOfYear E d ?s1" by (simp add: findDraftVouchersOfYear_def)
  then have drafts: "yearOf (te_books E) (v_date v) \<noteq> cl_year d" if "v \<in> set (ld_vouchers s)" "\<not> v_deleted v" "v_status v = VDraft" for v
    using draft_of_year [OF wf(1) x(1) _ that] pre(1) x(6) by simp
  have j: "journal_of s' = journal_of s2" "journal_of ?s1 = journal_of s" "year_closed s' = (year_closed s)(cl_year d := True)"
    using g by (simp_all add: x(10) closing_grows_def year_closed_markClosed)
  show thesis
    by (rule that [of b]) (use jb x(2-4,8) drafts profit j zero g in \<open>auto simp: closing_grows_def\<close>)
qed

end
end
