(* ===== verification/ClosingExample.thy ===== *)
theory ClosingExample
  imports ClosingSteps VoucherExample
begin

text \<open>
  A closing that is issued: a voucher of the closing goes through when its rows balance and its year is open, and a
  small year closes with a profit.
\<close>

section \<open>A balanced voucher goes through\<close>

definition closing_header :: "decimal_lib \<Rightarrow> closing_params \<Rightarrow> int \<Rightarrow> string \<Rightarrow> string \<Rightarrow> string \<Rightarrow> vrow list \<Rightarrow> ledger_db \<Rightarrow> voucher" where
  "closing_header L p year date t ref items s =
    (new_voucher L (closing_data p year date t ref items) date (ld_next_number s) (raw_debit items) (raw_credit items) '''')\<lparr>v_id := ld_next_id s\<rparr>"

definition closing_posted :: "decimal_lib \<Rightarrow> closing_params \<Rightarrow> int \<Rightarrow> string \<Rightarrow> string \<Rightarrow> string \<Rightarrow> vrow list \<Rightarrow> ledger_db \<Rightarrow> ledger_db" where
  "closing_posted L p year date t ref items s =
    (ensureRow (book_year date) s)\<lparr>ld_next_number := ld_next_number s + 1, ld_next_id := ld_next_id s + 1,
      ld_vouchers := ld_vouchers s @ [closing_header L p year date t ref items s],
      ld_items := ld_items s @ map (input_item L (ld_next_id s)) (enumerate 0 items)\<rparr>"

definition closing_rows_ok :: "vrow list \<Rightarrow> bool" where
  "closing_rows_ok items \<longleftrightarrow> 2 \<le> length items \<and> rows_fit items \<and> entry_amounts items \<and> raw_debit items = raw_credit items"

lemma no_currency_same: "no_currency items \<Longrightarrow> same_currency None items"
  by (auto simp: no_currency_def same_currency_def)

context decimal_js begin

lemma closing_voucher_posts:
  assumes "closing_rows_ok items" "no_currency items" "isStorageDate date" "\<not> year_closed s (book_year date)"
  shows "closing_voucher L E p year date t ref items (created, s) =
    Inr (created @ [(ld_next_id s, ref, t)], closing_posted L p year date t ref items s)"
proof -
  let ?d = "closing_data p year date t ref items"
  have d: "cd_manual_entry ?d = False" "cd_currency ?d = None" "cd_items ?d = items" "cd_date ?d = DateText date" "cd_control ?d = None"
    "cd_document ?d = None" "cd_payroll ?d = None"
    by (simp_all add: closing_data_def)
  have fit: "rows_fit items" and n: "\<not> length items < 2" using assms(1) by (simp_all add: closing_rows_ok_def)
  have "assertVoucherRowsBalanced L items None False = Inr (raw_debit items, raw_credit items)"
    unfolding assert_balanced_exact [OF fit] using assms(1) no_currency_same [OF assms(2)] by (simp add: closing_rows_ok_def)
  moreover have "assertOpen (te_books E) date s = Inr (ensureRow (book_year date) s)"
    using assms(3,4) year_of_storage [OF assms(3)] by (simp add: assertOpen_def yearOf_def Let_def isStorageDate_def)
  moreover have none: "v_document (new_voucher L ?d date num a b why) = None" "v_payroll (new_voucher L ?d date num a b why) = None" for num a b why
    by (simp_all add: new_voucher_def d)
  have "create_write L (te_books E) ?d date (raw_debit items, raw_credit items) '''' items (ensureRow (book_year date) s) =
      Inr (ld_next_id s, closing_posted L p year date t ref items s)"
    by (simp add: create_write_def getNextVoucherNumber_def Let_def insert_voucher_def same_source_def none d insertVoucherItems_eq
      closing_posted_def closing_header_def list_ex_iff)
  ultimately show ?thesis
    by (simp add: closing_voucher_def createJournalVoucher_def d n checked_rows_def date_or_today_stored_text [OF assms(3)] manual_checks_def)
qed

end

lemma closing_posted_simps [simp]:
  "ld_next_id (closing_posted L p year date t ref items s) = ld_next_id s + 1"
  "ld_next_number (closing_posted L p year date t ref items s) = ld_next_number s + 1"
  by (simp_all add: closing_posted_def)

lemma year_closed_posted [simp]: "year_closed (closing_posted L p year date t ref items s) = year_closed s"
proof -
  have "ld_periods (closing_posted L p year date t ref items s) = ld_periods (ensureRow (book_year date) s)" by (simp add: closing_posted_def)
  from year_closed_cong [OF this] show ?thesis by simp
qed

lemma posted_rows_posted:
  assumes "ledger_wf s"
  shows "posted_rows (closing_posted L p year date t ref items s) =
    posted_rows s @ map (Pair (closing_header L p year date t ref items s)) (map (input_item L (ld_next_id s)) (enumerate 0 items))"
  by (rule posted_rows_post [OF assms])
    (use new_rows [of _ L "ld_next_id s" 0 items] in \<open>auto simp: closing_posted_def closing_header_def reported_def closing_data_def\<close>)

section \<open>A small year\<close>

definition income_summary :: account_row where
  "income_summary = cash\<lparr>ac_id := 3, ac_code := ''3901'', ac_name := ''summary'', ac_type := ''equity''\<rparr>"

definition retained_earnings :: account_row where
  "retained_earnings = cash\<lparr>ac_id := 4, ac_code := ''3902'', ac_name := ''retained'', ac_type := ''equity''\<rparr>"

definition closing_env :: trial_env where
  "closing_env = \<lparr>te_books = example_env\<lparr>le_today := ''2025-04-01'', le_accounts := [cash, sales, income_summary, retained_earnings]\<rparr>,
    te_cheques = [], te_items = [], te_openings = [], te_order = (\<lambda>_ _. True), te_locale = (\<lambda>_ _. True), te_summary = 3, te_retained = 4\<rparr>"

definition closing_request :: closing_params where
  "closing_request = \<lparr>cg_year = ''1403'', cg_closing = NoDate, cg_opening = NoDate, cg_open_next = True, cg_user = Some 1, cg_username = Some ''admin''\<rparr>"

definition closing_1403 :: closing_dates where
  "closing_1403 = \<lparr>cl_year = 1403, cl_start = ''2024-03-20'', cl_closing = ''2025-03-20'', cl_opening = ''2025-03-21''\<rparr>"

lemma bounds_1403: "jalaliYearBounds 1403 = Some \<lparr>firstDay = ''2024-03-20'', lastDay = ''2025-03-20'', nextFirstDay = ''2025-03-21''\<rparr>"
  by code_simp

lemma dates_1403: "resolveFiscalClosingDates ''1403'' NoDate NoDate = Inr closing_1403"
proof -
  have "closing_year ''1403'' = Some 1403" by code_simp
  then show ?thesis by (simp add: resolveFiscalClosingDates_def bounds_1403 must_equal_def closing_1403_def)
qed

lemma closing_dates_stored: "isStorageDate ''2025-03-20''" "isStorageDate ''2025-03-21''"
  by code_simp+

lemma closing_dates_year: "book_year ''2025-03-20'' = 1403" "book_year ''2025-03-21'' = 1404"
  by code_simp+

lemma closing_dates_order: "\<not> js_less ''2025-04-01'' ''2025-03-21''" "js_less ''2025-03-20'' ''2025-03-21''" "\<not> js_less ''2025-03-20'' ''2025-03-20''"
    "\<not> js_less ''2025-03-20'' ''2024-05-09''"
  by code_simp+

lemma ended_1403: "isFiscalYearEnded 1403 ''2025-04-01'' = Inr True"
  by (simp add: isFiscalYearEnded_def boundsOf_def bounds_1403 closing_dates_order)

lemma closing_env_chart: "chart_ok closing_env" "chart_fits closing_env"
proof -
  show "chart_ok closing_env" by code_simp
  have "length (getAllAccounts closing_env) = 4" by code_simp
  then show "chart_fits closing_env" by (simp add: chart_fits_def)
qed

lemma closing_accounts: "getAllAccounts closing_env = [cash, sales, income_summary, retained_earnings]"
  by (simp add: getAllAccounts_def closing_env_def sort_by_def cash_def sales_def income_summary_def retained_earnings_def)

lemma closing_below: "list_all (\<lambda>a. list_all (\<lambda>i. below closing_env a i = (a = i)) [1, 2, 3, 4]) [1, 2, 3, 4]"
  by code_simp

lemma closing_below_simps [simp]:
  "a \<in> {1, 2, 3, 4} \<Longrightarrow> i \<in> {1, 2, 3, 4} \<Longrightarrow> below closing_env a i \<longleftrightarrow> a = i"
  using closing_below by auto

lemma approved_fits: "books_fit example_approved"
  by code_simp

lemma approved_trial: "trial_ok example_approved"
  by (rule books_trial_ok [OF example_approved_ok])

lemma approved_rows: "posted_rows example_approved =
    [(approved_draft, input_item ref_lib 1 (0, row_of 1 250 0)), (approved_draft, input_item ref_lib 1 (1, row_of 2 0 250))]"
  by (simp add: posted_rows_def reported_def example_items_of) (simp add: example_items_def example_data_def)

lemma ref_toDb [simp]: "scaled 4 x \<Longrightarrow> fin_toDb ref_lib x = x"
  by (rule ref.toDb_fixed)

lemma row_of_item [simp]:
  "vr_account (row_of a d c) = a"
  "scaled 4 d \<Longrightarrow> row_debit (approved_draft, input_item ref_lib i (n, row_of a d c)) = d"
  "scaled 4 c \<Longrightarrow> row_credit (approved_draft, input_item ref_lib i (n, row_of a d c)) = c"
  by (simp_all add: input_item_def row_debit_def row_credit_def voucherItemCurrency_def str_or_def irr_upper row_of_def)

lemma approved_posted:
  "posted row_debit ''2025-03-20'' p (posted_rows example_approved) = (if p (approved_draft, input_item ref_lib 1 (0, row_of 1 250 0)) then 250 else 0)"
  "posted row_credit ''2025-03-20'' p (posted_rows example_approved) = (if p (approved_draft, input_item ref_lib 1 (1, row_of 2 0 250)) then 250 else 0)"
  unfolding approved_rows posted_def by (simp_all add: closing_dates_order)

definition sales_closed :: closing_account where
  "sales_closed = \<lparr>ca_account = sales, ca_balance = 250, ca_debit = True, ca_amount = 250\<rparr>"

lemma account_ids [simp]: "ac_id cash = 1" "ac_id sales = 2" "ac_id income_summary = 3" "ac_id retained_earnings = 4"
  "ac_level cash = ''subsidiary''" "ac_level sales = ''subsidiary''" "ac_level income_summary = ''subsidiary''" "ac_level retained_earnings = ''subsidiary''"
  "ac_type cash = ''asset''" "ac_type sales = ''revenue''" "ac_type income_summary = ''equity''" "ac_type retained_earnings = ''equity''"
  "ac_name sales = ''sales''"
  by (simp_all add: cash_def sales_def income_summary_def retained_earnings_def)

lemma approved_closing: "closing_list ref_lib closing_env ''2025-03-20'' example_approved = [sales_closed]"
proof -
  have t: "temporary_account ref_lib (sales, balanceColumns ref_lib (plain_turnover 0 250)) = Some sales_closed"
    by (simp add: temporary_account_def temporary_type_def ref.balance_plain ref.netOf_exact sales_closed_def Let_def)
  have n: "temporary_account ref_lib (a, c) = None" if "ac_type a = ''asset'' \<or> ac_type a = ''equity''" for a c
    using that by (auto simp: temporary_account_def temporary_type_def)
  show ?thesis
    unfolding closing_list_def ref.account_rows_closing [OF approved_trial closing_dates_stored(1) approved_fits closing_env_chart(2)]
      closing_accounts approved_posted
    by (simp add: n t List.map_filter_simps)
qed

lemma approved_profit: "profit_below closing_env ''2025-03-20'' example_approved = 250"
  unfolding profit_below_def closing_accounts approved_posted by (simp add: temporary_type_def)

definition rows_1 :: "vrow list" where
  "rows_1 = [closing_row 2 ''other'' None ''sales'' 250 0, closing_row 3 ''other'' None summary_fa 0 250]"

definition rows_2 :: "vrow list" where
  "rows_2 = [closing_row 3 ''other'' None summary_fa 250 0, closing_row 4 ''other'' None retained_fa 0 250]"

lemma approved_items: "temporary_items ref_lib closing_env [sales_closed] = rows_1" "profit_items ref_lib closing_env 250 = rows_2"
proof -
  have n: "fin_toNumber ref_lib 250 = 250" "fin_toNumber ref_lib (fin_round ref_lib 250 4) = 250"
    by (simp_all add: ref.toNumber_scaled ref.number_round4)
  have a: "dec_sum ref_lib [250] = 250" "fin_subtract ref_lib 250 0 = 250" by (simp_all add: ref.dec_sum_single ref.subtract_scaled4)
  have e: "te_summary closing_env = 3" "te_retained closing_env = 4" by (simp_all add: closing_env_def)
  show "temporary_items ref_lib closing_env [sales_closed] = rows_1"
    using a by (simp add: temporary_items_def temporary_row_def amounts_of_def sales_closed_def Let_def n e rows_1_def dec_sum_def)
  show "profit_items ref_lib closing_env 250 = rows_2" by (simp add: profit_items_def Let_def n e rows_2_def)
qed

lemma rows_12_ok: "closing_rows_ok rows_1" "closing_rows_ok rows_2"
  by (simp_all add: closing_rows_ok_def rows_1_def rows_2_def closing_row_def rows_fit_def row_fits_def money4_def entry_amounts_def raw_debit_def raw_credit_def)

text \<open>Details that no two groups share.\<close>

lemma map_update_new: "k \<notin> fst ` set m \<Longrightarrow> map_update k f m = m @ [(k, f None)]"
  by (induction m) auto

lemma accumulate_distinct:
  assumes "distinct (map fst es)"
  shows "accumulate L es = map (\<lambda>(k, before, d, c). (k, addTurnover L before d c emptyTurnover)) es"
  using assms
proof (induction es rule: rev_induct)
  case (snoc e es)
  obtain k b d c where e: "e = (k, b, d, c)" by (cases e) auto
  from snoc.prems have "k \<notin> fst ` set (accumulate L es)" by (simp add: accumulate_keys(1) e)
  from map_update_new [OF this] snoc show ?case by (simp add: e accumulate_snoc)
qed (simp add: accumulate_def)

lemma find_distinct: "distinct (map f xs) \<Longrightarrow> x \<in> set xs \<Longrightarrow> List.find (\<lambda>y. f y = f x) xs = Some x"
  by (induction xs) (auto simp: image_iff)

lemma detailed_rows_distinct:
  assumes "distinct (map (\<lambda>g. fst (detail_of E (fst g))) groups)"
  shows "detailed_rows_of L E groups =
    sort_by (te_locale E) de_code (map (\<lambda>(k, before, d, c). detailed_row_of L E k (addTurnover L before d c emptyTurnover)) groups)"
proof -
  have e: "detailed_entries E groups = map (\<lambda>g. (fst (detail_of E (fst g)), snd g)) groups"
    by (simp add: detailed_entries_def case_prod_unfold)
  have acc: "accumulate L (detailed_entries E groups) =
      map (\<lambda>g. (fst (detail_of E (fst g)), addTurnover L (fst (snd g)) (fst (snd (snd g))) (snd (snd (snd g))) emptyTurnover)) groups"
    using assms by (subst accumulate_distinct) (simp_all add: e comp_def case_prod_unfold)
  have "first_of_detail E groups (fst (detail_of E (fst g))) = Some (fst g)" if "g \<in> set groups" for g
    using find_distinct [OF assms that] by (simp add: first_of_detail_def case_prod_unfold)
  then have "List.map_filter (\<lambda>(dKey, t). map_option (\<lambda>k. detailed_row_of L E k t) (first_of_detail E groups dKey)) (accumulate L (detailed_entries E groups)) =
      map (\<lambda>g. detailed_row_of L E (fst g) (addTurnover L (fst (snd g)) (fst (snd (snd g))) (snd (snd (snd g))) emptyTurnover)) groups"
    unfolding acc map_filter_map comp_def by (simp add: List.map_filter_def)
  then show ?thesis by (simp add: detailed_rows_of_def case_prod_unfold)
qed

lemma sort_by_any: "sort_by (\<lambda>_ _. True) key xs = xs"
proof -
  have "insert_by (\<lambda>_ _. True) key x ys = x # ys" for x ys by (cases ys) simp_all
  then show ?thesis unfolding sort_by_def by (induction xs) simp_all
qed

definition k_cash :: group_key where
  "k_cash = \<lparr>gk_date = ''2024-05-09'', gk_closing = False, gk_currency = ''IRR'', gk_account = 1, gk_dtype = ''none'', gk_did = None, gk_dname = '''',
    gk_module = ''manual'', gk_cheque = None, gk_opening = None\<rparr>"

definition k_closed :: "int \<Rightarrow> string \<Rightarrow> group_key" where
  "k_closed a nm = \<lparr>gk_date = ''2025-03-20'', gk_closing = True, gk_currency = ''IRR'', gk_account = a, gk_dtype = ''other'', gk_did = None, gk_dname = nm,
    gk_module = ''manual'', gk_cheque = None, gk_opening = None\<rparr>"

definition closing_groups :: "(group_key \<times> bool \<times> rat \<times> rat) list" where
  "closing_groups = [(k_cash, False, 250, 0), (k_cash\<lparr>gk_account := 2\<rparr>, False, 0, 250), (k_closed 2 ''sales'', False, 250, 0),
    (k_closed 3 summary_fa, False, 250, 250), (k_closed 4 retained_fa, False, 0, 250)]"

lemma closing_details: "distinct (map (\<lambda>g. fst (detail_of closing_env (fst g))) closing_groups)"
  by code_simp

lemma account_of_closing [simp]: "account_of closing_env 1 = Some cash" "account_of closing_env 2 = Some sales"
  "account_of closing_env 3 = Some income_summary" "account_of closing_env 4 = Some retained_earnings"
  by (simp_all add: account_of_def closing_accounts)

lemma detail_type [simp]:
  "de_type (detailed_row_of L closing_env k t) = (case account_of closing_env (gk_account k) of Some a \<Rightarrow> str_or (Some (ac_type a)) ''asset'' | None \<Rightarrow> ''asset'')"
  "de_account (detailed_row_of L closing_env k t) = gk_account k" "de_columns (detailed_row_of L closing_env k t) = balanceColumns L t"
  by (simp_all add: detailed_row_of_def Let_def)

lemma first_turnover: "scaled 4 d \<Longrightarrow> scaled 4 c \<Longrightarrow> \<bar>d\<bar> < 10 ^ 11 \<Longrightarrow> \<bar>c\<bar> < 10 ^ 11 \<Longrightarrow> addTurnover ref_lib False d c emptyTurnover = plain_turnover d c"
  using ref.add_scaled4 [of 0 d] ref.add_scaled4 [of 0 c] by (simp add: addTurnover_def emptyTurnover_def plain_turnover_def)

lemma permanent_found:
  "gk_account k = 1 \<Longrightarrow> \<exists>t i n. permanent_row ref_lib closing_env (detailed_row_of ref_lib closing_env k (plain_turnover 250 0)) = Some (closing_row 1 t i n 0 250)"
  "gk_account k = 2 \<Longrightarrow> permanent_row ref_lib closing_env (detailed_row_of ref_lib closing_env k q) = None"
  "gk_account k = 3 \<Longrightarrow> permanent_row ref_lib closing_env (detailed_row_of ref_lib closing_env k (plain_turnover 250 250)) = None"
  "gk_account k = 4 \<Longrightarrow> \<exists>t i n. permanent_row ref_lib closing_env (detailed_row_of ref_lib closing_env k (plain_turnover 0 250)) = Some (closing_row 4 t i n 250 0)"
  by (simp_all add: permanent_row_def str_or_def ref.balance_plain ref.subtract_scaled4 ref.number_round4 Let_def case_prod_unfold) blast+

lemma closing_permanents:
  assumes "counted_groups (closing_trial e) s = closing_groups"
  obtains t1 i1 n1 t2 i2 n2 where "permanent_items ref_lib closing_env e s = [closing_row 1 t1 i1 n1 0 250, closing_row 4 t2 i2 n2 250 0]"
proof -
  have l: "te_locale closing_env = (\<lambda>_ _. True)" by (simp add: closing_env_def)
  have "detailed_rows ref_lib closing_env (closing_trial e) s =
     map (\<lambda>(k, d, c). detailed_row_of ref_lib closing_env k (plain_turnover d c))
      [(k_cash, 250, 0), (k_cash\<lparr>gk_account := 2\<rparr>, 0, 250), (k_closed 2 ''sales'', 250, 0), (k_closed 3 summary_fa, 250, 250), (k_closed 4 retained_fa, 0, 250)]"
    unfolding detailed_rows_def assms detailed_rows_distinct [OF closing_details] l sort_by_any by (simp add: closing_groups_def first_turnover)
  moreover have k: "gk_account k_cash = 1" "gk_account (k_closed a n) = a" for a n by (simp_all add: k_cash_def k_closed_def)
  obtain t1 i1 n1 where p1: "permanent_row ref_lib closing_env (detailed_row_of ref_lib closing_env k_cash (plain_turnover 250 0)) = Some (closing_row 1 t1 i1 n1 0 250)"
    using permanent_found(1) [OF k(1)] by blast
  obtain t2 i2 n2 where p2: "permanent_row ref_lib closing_env (detailed_row_of ref_lib closing_env (k_closed 4 retained_fa) (plain_turnover 0 250)) = Some (closing_row 4 t2 i2 n2 250 0)"
    using permanent_found(4) [OF k(2)] by blast
  ultimately show thesis
    by (intro that [of t1 i1 n1 t2 i2 n2]) (simp add: permanent_items_def List.map_filter_simps p1 p2 permanent_found k)
qed

text \<open>The four vouchers.\<close>

abbreviation temp_books :: ledger_db where
  "temp_books \<equiv> closing_posted ref_lib closing_request 1403 ''2025-03-20'' ''closing'' (year_ref ''CLOSE-TEMP-'' 1403) rows_1 example_approved"

abbreviation profit_books :: ledger_db where
  "profit_books \<equiv> closing_posted ref_lib closing_request 1403 ''2025-03-20'' ''closing'' (year_ref ''CLOSE-PROFIT-'' 1403) rows_2 temp_books"

definition balance_rows :: "vrow list" where
  "balance_rows = permanent_items ref_lib closing_env ''2025-03-20'' profit_books"

abbreviation balance_books :: ledger_db where
  "balance_books \<equiv> closing_posted ref_lib closing_request 1403 ''2025-03-20'' ''closing'' (year_ref ''CLOSING-'' 1403) balance_rows profit_books"

abbreviation next_books :: ledger_db where
  "next_books \<equiv> closing_posted ref_lib closing_request 1403 ''2025-03-21'' ''opening'' (year_ref ''OPENING-'' (1403 + 1)) (map opening_row balance_rows) balance_books"

lemma posted_wf:
  assumes "closing_rows_ok items" "no_currency items" "isStorageDate date" "\<not> year_closed s (book_year date)" "ledger_wf s" "trial_ok s"
  shows "ledger_wf (closing_posted ref_lib p year date t ref items s)" "trial_ok (closing_posted ref_lib p year date t ref items s)"
proof -
  have "closing_grows year [date] s (closing_posted ref_lib p year date t ref items s)"
    using ref.closing_voucher_step(1) [where days = "[date]", OF ref.closing_voucher_posts [OF assms(1-4)]] assms by simp
  then show "ledger_wf (closing_posted ref_lib p year date t ref items s)" "trial_ok (closing_posted ref_lib p year date t ref items s)"
    by (simp_all add: closing_grows_def)
qed

lemma rows_12_currency: "no_currency rows_1" "no_currency rows_2"
  by (simp_all add: no_currency_def rows_1_def rows_2_def)

lemma approved_wf: "ledger_wf example_approved"
  using example_approved_ok by (simp add: books_ok_def)

lemma books_wf: "ledger_wf temp_books" "trial_ok temp_books" "ledger_wf profit_books" "trial_ok profit_books"
proof -
  show t: "ledger_wf temp_books" "trial_ok temp_books"
    by (rule posted_wf [OF rows_12_ok(1) rows_12_currency(1) closing_dates_stored(1) _ approved_wf approved_trial]; simp)+
  show "ledger_wf profit_books" "trial_ok profit_books"
    by (rule posted_wf [OF rows_12_ok(2) rows_12_currency(2) closing_dates_stored(1) _ t]; simp)+
qed

lemma closing_texts: "trim_or (Some ''sales'') = ''sales''" "trim_or (Some summary_fa) = summary_fa" "trim_or (Some retained_fa) = retained_fa"
  by code_simp+

lemma closing_group:
  "group_of (closing_header ref_lib closing_request 1403 ''2025-03-20'' ''closing'' ref items s, input_item ref_lib i (n, closing_row a ''other'' None nm d c)) =
    k_closed a (trim_or (Some nm))"
  by (simp add: group_of_def closing_header_def new_voucher_def closing_data_def input_item_def closing_row_def k_closed_def yearEndClosingVoucher_def
    voucherItemCurrency_def str_or_def irr_upper id_or_def)

lemma approved_group: "group_of (approved_draft, input_item ref_lib 1 (n, row_of a d c)) = k_cash\<lparr>gk_account := a\<rparr>"
  by (simp add: group_of_def k_cash_def yearEndClosingVoucher_def voucherItemCurrency_def input_item_def row_of_def str_or_def irr_upper id_or_def trim_or_def js_trim_def
    approved_draft_def)

definition approved_keys :: "group_key list" where
  "approved_keys = [k_cash, k_cash\<lparr>gk_account := 2\<rparr>, k_closed 2 ''sales'', k_closed 3 summary_fa, k_closed 3 summary_fa, k_closed 4 retained_fa]"

lemma profit_rows:
  obtains h1 h2 where "posted_rows profit_books =
    [(approved_draft, input_item ref_lib 1 (0, row_of 1 250 0)), (approved_draft, input_item ref_lib 1 (1, row_of 2 0 250)),
     (h1, input_item ref_lib 2 (0, closing_row 2 ''other'' None ''sales'' 250 0)), (h1, input_item ref_lib 2 (1, closing_row 3 ''other'' None summary_fa 0 250)),
     (h2, input_item ref_lib 3 (0, closing_row 3 ''other'' None summary_fa 250 0)), (h2, input_item ref_lib 3 (1, closing_row 4 ''other'' None retained_fa 0 250))]"
   "map group_of (posted_rows profit_books) = approved_keys"
proof -
  let ?h1 = "closing_header ref_lib closing_request 1403 ''2025-03-20'' ''closing'' (year_ref ''CLOSE-TEMP-'' 1403) rows_1 example_approved"
  let ?h2 = "closing_header ref_lib closing_request 1403 ''2025-03-20'' ''closing'' (year_ref ''CLOSE-PROFIT-'' 1403) rows_2 temp_books"
  have i: "ld_next_id example_approved = 2" by (simp add: example_approved_def set_voucher_def)
  have r: "posted_rows profit_books =
    [(approved_draft, input_item ref_lib 1 (0, row_of 1 250 0)), (approved_draft, input_item ref_lib 1 (1, row_of 2 0 250)),
     (?h1, input_item ref_lib 2 (0, closing_row 2 ''other'' None ''sales'' 250 0)), (?h1, input_item ref_lib 2 (1, closing_row 3 ''other'' None summary_fa 0 250)),
     (?h2, input_item ref_lib 3 (0, closing_row 3 ''other'' None summary_fa 250 0)), (?h2, input_item ref_lib 3 (1, closing_row 4 ''other'' None retained_fa 0 250))]"
    unfolding posted_rows_posted [OF books_wf(1)] posted_rows_posted [OF approved_wf] approved_rows by (simp add: rows_1_def rows_2_def i)
  moreover have "map group_of (posted_rows profit_books) = approved_keys"
    unfolding r list.map closing_group approved_group closing_texts by (simp add: approved_keys_def) (simp add: k_cash_def)
  ultimately show thesis by (rule that)
qed


lemma key_sum_zip: "key_sum f s k = sum_list (map snd (filter (\<lambda>p. fst p = k) (zip (map group_of (posted_rows s)) (map f (posted_rows s)))))"
proof -
  have "sum_list (map f (filter (\<lambda>r. group_of r = k) rs)) = sum_list (map snd (filter (\<lambda>p. fst p = k) (zip (map group_of rs) (map f rs))))" for rs
    by (induction rs) auto
  then show ?thesis by (simp add: key_sum_def)
qed

lemma keys_differ:
  "k_cash \<noteq> k_closed a n" "k_closed a n \<noteq> k_cash" "k_cash\<lparr>gk_account := b\<rparr> \<noteq> k_closed a n" "k_closed a n \<noteq> k_cash\<lparr>gk_account := b\<rparr>"
  "k_cash \<noteq> k_cash\<lparr>gk_account := 2\<rparr>" "k_cash\<lparr>gk_account := 2\<rparr> \<noteq> k_cash" "k_closed a n = k_closed b m \<longleftrightarrow> a = b \<and> n = m"
  by (auto simp: k_cash_def k_closed_def)

lemma keys_dates: "gk_date k_cash = ''2024-05-09''" "gk_date (k_closed a n) = ''2025-03-20''"
  by (simp_all add: k_cash_def k_closed_def)

lemma profit_groups: "counted_groups (closing_trial ''2025-03-20'') profit_books = closing_groups"
proof -
  obtain h1 h2 where rows: "posted_rows profit_books =
    [(approved_draft, input_item ref_lib 1 (0, row_of 1 250 0)), (approved_draft, input_item ref_lib 1 (1, row_of 2 0 250)),
     (h1, input_item ref_lib 2 (0, closing_row 2 ''other'' None ''sales'' 250 0)), (h1, input_item ref_lib 2 (1, closing_row 3 ''other'' None summary_fa 0 250)),
     (h2, input_item ref_lib 3 (0, closing_row 3 ''other'' None summary_fa 250 0)), (h2, input_item ref_lib 3 (1, closing_row 4 ''other'' None retained_fa 0 250))]"
   and keys: "map group_of (posted_rows profit_books) = approved_keys" by (rule profit_rows)
  have amounts: "map row_debit (posted_rows profit_books) = [250, 0, 250, 0, 250, 0]" "map row_credit (posted_rows profit_books) = [0, 250, 0, 250, 0, 250]"
    unfolding rows by (simp_all add: input_row_amounts) (simp_all add: closing_row_def)
  have ck: "counted_keys ''2025-03-20'' profit_books =
      [k_cash, k_cash\<lparr>gk_account := 2\<rparr>, k_closed 2 ''sales'', k_closed 3 summary_fa, k_closed 4 retained_fa]"
    unfolding counted_keys_def keys approved_keys_def by (simp add: keys_differ keys_dates closing_dates_order)
  show ?thesis
    unfolding counted_closing [OF books_wf(4) closing_dates_stored(1)] ck closing_groups_def
    by (simp add: key_sum_zip keys amounts approved_keys_def keys_differ)
qed

lemma balance_found: obtains t1 i1 n1 t2 i2 n2 where "balance_rows = [closing_row 1 t1 i1 n1 0 250, closing_row 4 t2 i2 n2 250 0]"
  unfolding balance_rows_def using closing_permanents [OF profit_groups] by blast

lemma balance_rows_ok: "closing_rows_ok balance_rows" "closing_rows_ok (map opening_row balance_rows)" "length balance_rows = 2"
  "no_currency balance_rows" "no_currency (map opening_row balance_rows)"
proof -
  obtain t1 i1 n1 t2 i2 n2 where b: "balance_rows = [closing_row 1 t1 i1 n1 0 250, closing_row 4 t2 i2 n2 250 0]" by (rule balance_found)
  show "closing_rows_ok balance_rows" "closing_rows_ok (map opening_row balance_rows)" "length balance_rows = 2"
    "no_currency balance_rows" "no_currency (map opening_row balance_rows)"
    unfolding b by (simp_all add: closing_rows_ok_def closing_row_def opening_row_def rows_fit_def row_fits_def money4_def entry_amounts_def
      raw_debit_def raw_credit_def no_currency_def)
qed

lemma balance_wf: "ledger_wf balance_books" "trial_ok balance_books"
  by (rule posted_wf [OF balance_rows_ok(1,4) closing_dates_stored(1) _ books_wf(3,4)]; simp)+

definition closed_year_books :: ledger_db where
  "closed_year_books = markClosed 1403 (Some 4) (Some ''admin'') next_books"

lemma closing_done:
  "executeFiscalYearClosing ref_lib closing_env closing_request example_approved =
    Inr (\<lparr>cr_year = 1403, cr_net_profit = 250, cr_vouchers = [2, 3, 4, 5]\<rparr>, closed_year_books)"
proof -
  have i: "ld_next_id example_approved = 2" by (simp add: example_approved_def set_voucher_def)
  have c: "cl_year closing_1403 = 1403" "cl_closing closing_1403 = ''2025-03-20''" "cl_opening closing_1403 = ''2025-03-21''" by (simp_all add: closing_1403_def)
  have today: "le_today (te_books closing_env) = ''2025-04-01''" by (simp add: closing_env_def)
  have p: "cg_year closing_request = ''1403''" "cg_closing closing_request = NoDate" "cg_opening closing_request = NoDate" "cg_open_next closing_request"
    "cg_username closing_request = Some ''admin''" by (simp_all add: closing_request_def)
  have early: "findEarlierOpenYears (te_books closing_env) example_approved 1403 = []" by code_simp
  have drafts: "findDraftVouchersOfYear closing_env closing_1403 example_approved = []"
    by (simp add: findDraftVouchersOfYear_def draft_in_year_def sort_by_def)
  obtain preview where pre: "preview_at ref_lib closing_env closing_1403 example_approved = Inr preview"
    by (simp add: preview_at_def c today ended_1403 Let_def)
  have pv: "pv_temporary preview = [sales_closed]" "pv_drafts preview = []"
    using preview_Inr [OF pre] by (simp_all add: c approved_closing drafts)
  have "pv_net_profit preview = fin_toNumber ref_lib 250"
    using ref.preview_profit [OF pre approved_trial _ approved_fits closing_env_chart(2)] by (simp add: c closing_dates_stored approved_profit)
  then have profit: "pv_net_profit preview = 250" by (simp add: ref.toNumber_scaled)
  have len: "length rows_1 = 2" by (simp add: rows_1_def)
  have refs: "year_ref ''CLOSE-TEMP-'' 1403 \<noteq> year_ref ''CLOSING-'' 1403" "year_ref ''CLOSE-PROFIT-'' 1403 \<noteq> year_ref ''CLOSING-'' 1403" by code_simp+
  have step: "closing_voucher ref_lib closing_env closing_request 1403 date t ref items (created, s) =
      Inr (created @ [(ld_next_id s, ref, t)], closing_posted ref_lib closing_request 1403 date t ref items s)"
    if "closing_rows_ok items" "no_currency items" "isStorageDate date" "year_closed s = (\<lambda>_. False)" for date t ref items created s
    by (rule ref.closing_voucher_posts) (use that in auto)
  have "close_vouchers ref_lib closing_env closing_request closing_1403 preview example_approved =
      Inr ([(2, year_ref ''CLOSE-TEMP-'' 1403, ''closing''), (3, year_ref ''CLOSE-PROFIT-'' 1403, ''closing''), (4, year_ref ''CLOSING-'' 1403, ''closing''),
        (5, year_ref ''OPENING-'' (1403 + 1), ''opening'')], next_books)"
    by (simp add: close_vouchers_def Let_def c pv profit approved_items p step rows_12_ok rows_12_currency closing_dates_stored
      balance_rows_def [symmetric] balance_rows_ok i len)
  moreover have "lockForClosing 1403 example_approved = Inr example_approved" by (simp add: lockForClosing_def)
  ultimately show ?thesis
    using refs by (simp add: executeFiscalYearClosing_def p dates_1403 c today assertFiscalYearEnded_def ended_1403 res_guard_def assertEarlierYearsClosed_def early
      pre pv profit closing_id_def closed_year_books_def)
qed

lemma closed_fits: "books_fit closed_year_books"
proof -
  obtain h1 h2 where rows: "posted_rows profit_books =
    [(approved_draft, input_item ref_lib 1 (0, row_of 1 250 0)), (approved_draft, input_item ref_lib 1 (1, row_of 2 0 250)),
     (h1, input_item ref_lib 2 (0, closing_row 2 ''other'' None ''sales'' 250 0)), (h1, input_item ref_lib 2 (1, closing_row 3 ''other'' None summary_fa 0 250)),
     (h2, input_item ref_lib 3 (0, closing_row 3 ''other'' None summary_fa 250 0)), (h2, input_item ref_lib 3 (1, closing_row 4 ''other'' None retained_fa 0 250))]"
    by (rule profit_rows)
  obtain t1 i1 n1 t2 i2 n2 where b: "balance_rows = [closing_row 1 t1 i1 n1 0 250, closing_row 4 t2 i2 n2 250 0]" by (rule balance_found)
  have "posted_rows closed_year_books = posted_rows next_books" by (simp add: closed_year_books_def)
  then have e: "posted_rows closed_year_books = posted_rows profit_books @ map (Pair (closing_header ref_lib closing_request 1403 ''2025-03-20'' ''closing''
      (year_ref ''CLOSING-'' 1403) balance_rows profit_books)) (map (input_item ref_lib (ld_next_id profit_books)) (enumerate 0 balance_rows)) @
    map (Pair (closing_header ref_lib closing_request 1403 ''2025-03-21'' ''opening'' (year_ref ''OPENING-'' (1403 + 1)) (map opening_row balance_rows) balance_books))
      (map (input_item ref_lib (ld_next_id balance_books)) (enumerate 0 (map opening_row balance_rows)))"
    unfolding posted_rows_posted [OF balance_wf(1)] posted_rows_posted [OF books_wf(3)] by simp
  show ?thesis unfolding books_fit_def e rows b by (simp add: input_row_amounts opening_row_def) (simp add: closing_row_def)
qed

end
