(* ===== verification/ClosingClaims.thy ===== *)
theory ClosingClaims
  imports ClosingExample
begin

text \<open>
  The property of the year-end closing: its guards, what it adds to the journal, the profit, and the accounts it zeroes.
\<close>

text \<open>
  C14: closing a fiscal year. A closing that goes through closes a year that had ended and was open, with every earlier year
  that holds vouchers closed and no draft of the year left, and no other year changes. What was posted stays as it was; what
  is added is approved, bears the year, and is dated on its last day or on the first day of the next. The profit is what
  the revenue, cost and expense accounts hold up to the last day, credit less debit. Afterwards the trial balance
  of the last day shows each of these accounts with equal turnovers and no balance: the next year starts them from zero.
\<close>

theorem closing_settles_year:
  assumes "decimal_js L" "books_ok s" "books_fit s" "chart_fits E" "chart_ok E" "executeFiscalYearClosing L E p s = Inr (r, s')" "books_fit s'"
  shows "\<exists>b. jalaliYearBounds (cr_year r) = Some b \<and> isFiscalYearEnded (cr_year r) (le_today (te_books E)) = Inr True \<and>
    \<not> year_closed s (cr_year r) \<and> findEarlierOpenYears (te_books E) s (cr_year r) = [] \<and>
    (\<forall>v \<in> set (ld_vouchers s). v_deleted v \<or> v_status v \<noteq> VDraft \<or> yearOf (te_books E) (v_date v) \<noteq> cr_year r) \<and>
    year_closed s' = (year_closed s)(cr_year r := True) \<and>
    (\<forall>i e. journal_of s i = Some e \<longrightarrow> journal_of s' i = Some e) \<and>
    (\<forall>i v rows. journal_of s' i = Some (v, rows) \<longrightarrow> journal_of s i = Some (v, rows) \<or>
      (v_status v = VApproved \<and> v_year v = Some (cr_year r) \<and> v_date v \<in> {lastDay b, nextFirstDay b})) \<and>
    cr_net_profit r = fin_toNumber L (profit_below E (lastDay b) s) \<and>
    (\<forall>(a, c) \<in> set (account_rows L E ''subsidiary'' (closing_trial (lastDay b)) s'). temporary_type (ac_type a) \<longrightarrow>
      bc_debit_balance c = 0 \<and> bc_credit_balance c = 0 \<and> bc_debit_turnover c = bc_credit_turnover c)"
proof (rule decimal_js.closing_exact [OF assms])
qed (intro exI conjI; blast)

lemma closing_settles_year_witness:
  "executeFiscalYearClosing ref_lib closing_env closing_request example_approved =
     Inr (\<lparr>cr_year = 1403, cr_net_profit = 250, cr_vouchers = [2, 3, 4, 5]\<rparr>, closed_year_books) \<and>
   year_closed closed_year_books 1403 \<and> journal_of closed_year_books 1 = Some (approved_draft, example_items)"
proof -
  note c = closing_settles_year [OF ref.decimal_js_axioms example_approved_ok approved_fits closing_env_chart(2,1) closing_done closed_fits]
  then have "year_closed closed_year_books = (year_closed example_approved)(1403 := True)"
    and "\<forall>i e. journal_of example_approved i = Some e \<longrightarrow> journal_of closed_year_books i = Some e" by auto
  then show ?thesis using closing_done example_approved_entry by (simp add: approved_draft_def)
qed

end
