(* ===== verification/Spec2Isabelle.thy ===== *)
theory Spec2Isabelle
  imports Vat StockDates Settlement DeadLetterClaims EventDelivery VoucherClaims FiscalClaims ClosingClaims
begin

text \<open>
  A model of the rules at the core of an ERP server: money, stock, settlement of documents and the
  delivery of domain events. All paths are under \<open>src/\<close>, the TypeScript sources of the server and
  of the parts the browser shares with it.

  \<^bold>\<open>The program.\<close> An HTTP route opens a database transaction and calls services. A document
  (invoice, receipt, return, count) is a header with lines. Finalizing a document moves stock: the
  stock engine writes a row of the Kardex (the stock ledger) for each line, updates the stock of the
  item in its warehouse and the weighted average cost of the item, and records a domain event. Money
  received or paid, and cheques, settle documents in parts. Domain events are written to the outbox
  in the transaction that causes them; a background worker dispatches them to their handlers,
  retries those that fail, and moves an event that fails for good to the dead-letter queue, from where an
  administrator replays it. The books are journal vouchers: drafts that balance, approved by a second
  person, made permanent, dated in an open fiscal year, and undone only by a reversal voucher.

  \<^bold>\<open>Theories.\<close>
  \<^item> \<open>Prelude\<close>: results (\<open>'e + 'a\<close>, \<open>Inl\<close> is a thrown error), tables as lists of rows, JavaScript
    numbers and strings, the collections \<open>row_simps\<close> and \<open>result_simps\<close>.
  \<^item> \<open>Decimal\<close>: \<open>lib/financialDecimal.ts\<close>. The package decimal.js is the record \<open>decimal_lib\<close>, an
    argument; the locale \<open>decimal_js\<close> states what it documents and \<open>ref_lib\<close> is an executable
    instance. Bounds of the weighted average cost (\<open>calculateWAC_receipt\<close>).
  \<^item> \<open>Vat\<close>: VAT, invoice totals, exchange rates and the unit cost of a purchase line
    (\<open>lib/vatFormula.ts\<close>, \<open>lib/invoiceTotals.ts\<close>, \<open>services/documents/documentVat.ts\<close>). The form of
    the browser and the check of the server agree (\<open>invoice_form_vat_agrees\<close>).
  \<^item> \<open>WarehouseStock\<close>, \<open>Kardex\<close>, \<open>StockEngine\<close>: the stock rows, the replay of the Kardex, and the
    live operations (movement, reversal, finalize, void, transfer, the rule on dates).
    \<open>StockInvariant\<close> states the invariant that relates all tables and that every operation keeps;
    \<open>StockRun\<close> lifts it to every sequence of operations (\<open>stock_run\<close>); \<open>StockBalance\<close> does so for the
    quantities alone, without the bounds on costs and numbers (\<open>stock_reach\<close>); \<open>StockClaims\<close> and
    \<open>StockDates\<close> hold the properties. The abstract specification is the list of actions of an item's Kardex
    (\<open>kaction\<close>); replay and live engine both refine it.
  \<^item> \<open>Settlement\<close>: the proposed split of an amount over open documents and the replacement of the
    parts of a receipt, a payment or a cheque (\<open>lib/treasury/settlementAllocation.ts\<close>,
    \<open>services/accounting/treasury/settlementAllocationWrite.ts\<close>).
  \<^item> \<open>Json\<close>, \<open>EventBus\<close>, \<open>Outbox\<close>, \<open>OutboxFacts\<close>, \<open>OutboxClaims\<close>: events, their dispatch and the
    outbox (\<open>services/events/\<close>). The locale \<open>tracked_dispatch\<close> is the contract between the bus and
    whoever retries a dispatch. \<open>DeadLetter\<close>, \<open>DeadLetterClaims\<close>: the dead-letter queue.
    \<open>OutboxClaims\<close> ends with liveness: over any run of batches and new records, the attempts left before an
    event bound the batches until it is finished. \<open>EventDelivery\<close>: several workers and recoveries on one
    outbox as an interleaved step relation; a recovery is a read of the stuck rows and then one update of
    each, as in the code. Two workers never dispatch one event at once when batches end within five minutes and
    recoveries do not overlap (the pace \<open>OneRecovery\<close>); both conditions are shown to be needed.
  \<^item> \<open>Calendar\<close>, \<open>CalendarDays\<close>, \<open>CalendarText\<close>: the Jalali and Gregorian calendars as day numbers, both
    conversions, the accepted spellings of a date, the stored form and the fiscal year of a stored date
    (\<open>utils/dateUtils.ts\<close>, \<open>utils/calendarDate.ts\<close>, \<open>lib/businessClock.ts\<close>).
  \<^item> \<open>VoucherBalance\<close>: when the rows of a voucher balance, in the form, which fills in the currency and rate of
    each row, and on the server (\<open>lib/accounting/voucherFormCurrency.ts\<close>, \<open>lib/accounting/voucherCurrencyBalance.ts\<close>,
    \<open>services/accounting/voucherRowBalance.ts\<close>). \<open>VoucherTables\<close>: the tables of the
    journal and the checks the operations share (fiscal period, source of a voucher, maker and checker,
    workflow lock, posting and control accounts, details and dates of manual rows). \<open>Voucher\<close>: the operations of
    \<open>services/accounting/voucher.service.ts\<close> and the row menu of the voucher list.
  \<^item> \<open>VoucherFacts\<close>: lemmas on these tables and the abstract journal, a map from ids to a header
    and its live rows with the step relation \<open>jstep\<close>. \<open>VoucherRun\<close>: every operation refines it (\<open>refines\<close>) and keeps
    the invariant \<open>books_ok\<close>. \<open>VoucherSteps\<close>: runs as the relation \<open>voucher_step\<close>, what every run keeps.
    \<open>VoucherExample\<close>: a ledger built by the operations, on which the witnesses are evaluated.
    \<open>VoucherClaims\<close>: the properties.
  \<^item> \<open>FiscalYear\<close>: when and in which order fiscal years are closed, the rows of the closed years, and reopening the
    last closed year (\<open>services/accounting/fiscalYearOrder.ts\<close>, \<open>fiscalPeriod.service.ts\<close>, \<open>fiscalYearReopen.ts\<close>).
    Reopening is a fold of \<open>voidSourceVoucher\<close> over the vouchers of the closing; \<open>run_undone\<close> says what it leaves of
    the journal. \<open>FiscalClaims\<close>: the property.
  \<^item> \<open>TrialBalance\<close>: the trial balance (\<open>services/accounting/accountingReport.service.ts\<close>, \<open>trialBalanceDetail.ts\<close>).
    \<open>YearClosing\<close>: the preview of a closing and the closing with its vouchers (\<open>fiscalYear.service.ts\<close>,
    \<open>closingRowDetail.ts\<close>). \<open>ClosingFacts\<close>: when the numbers fit, the report shows of an account the exact sums of the
    rows posted on it and below it. \<open>ClosingRun\<close>: a voucher of the closing posts exactly its rows, and the first one books
    the opposite of the temporary accounts. \<open>ClosingSteps\<close>: the whole closing. \<open>ClosingExample\<close>: a balanced voucher goes
    through, and a small year that closes with a profit. \<open>ClosingClaims\<close>: the property.

  \<^bold>\<open>Bounds and fuel.\<close> Loops over rows are structural recursions; the batched delete and the batched insert of
  voucher rows are \<open>function\<close>s with a measure. The only fuel is the depth 5 of \<open>source_chain\<close>, which is the
  bound the SQL query itself has. Decimals are exact rationals rounded where the code
  rounds; results that need at most 30 digits (the precision the code configures) and 15 digits (what a
  JavaScript number holds) are stated with that bound as a hypothesis. In the stock engine quantities of an item add
  up to less than \<open>10 ^ 10\<close> (\<open>small_volumes\<close>); what is said of costs over a whole run is about unit costs of four
  decimals and movement numbers without the prefix of reversals (\<open>movement_ok\<close>, \<open>finalize_ok\<close>): a discounted receipt may
  have a net unit cost of twelve decimals, of which the Kardex row keeps four, and its replay may then differ in cost. In
  the settlement amounts have four decimals, payables and returns up to eight (\<open>settle_numbers\<close>), so a document
  is paid up to half of the fourth decimal. For vouchers it is \<open>rows_fit\<close>: at most
  1000 rows, amounts and rates below \<open>10 ^ 11\<close> with four decimals, and so the totals. \<open>create_ok\<close> and \<open>update_ok\<close> say it
  of the rows a request sends, and what the callers keep: an automatic voucher names the currency of its rows, nobody
  creates a voucher as permanent or with the reference of a reversal, an edit leaves the status to the status
  operations. For a closing it is \<open>books_fit\<close>, the turnover of all posted rows below \<open>10 ^ 11\<close>, and \<open>chart_fits\<close>, at
  most a million accounts; \<open>chart_ok\<close> says how accounts lie below each other. \<open>books_env\<close> says that today is a stored date and that the accounts of the stored rows exist.

  \<^bold>\<open>Not modelled.\<close> Reading and showing data (listings, reports, exports), HTTP routes, the React
  interface, the database schema and migrations, log and audit rows, and the synchronisation with shops and
  messengers, which is input and output. A query is modelled by the rows it selects. Texts of vouchers (descriptions,
  attachments) are left out, as no operation reads them. Of the reports only the trial balance is modelled, without its
  tree, and the vouchers that documents cause are the requests of their callers. In the stock engine and the settlement, permissions, fiscal years and
  vouchers are answers of the environment; in the vouchers, the permission to change rows on control accounts is an
  argument, as in the code. The profit and retained-earnings accounts a closing finds or creates through the account
  mapping are given by the environment.
\<close>

end
